(* ===== verification/Prelude.thy ===== *)
theory Prelude
  imports Complex_Main "HOL-Library.AList"
begin

section \<open>Shared vocabulary of the development\<close>

text \<open>
  What every component theory uses: Python dictionaries as association lists in insertion
  order, the exceptions the code can raise, the state-exception actions in which the
  raising operations are written (an exception keeps the mutations made before it, as
  Python does), and the rules that lift a fact about single mutations to whole handlers.
\<close>

named_theorems dict_simps \<open>lookups in updated dictionaries\<close>
named_theorems act_simps \<open>running state-exception actions\<close>
named_theorems evo_intros \<open>evolution rules for composed actions\<close>

subsection \<open>Python dictionaries\<close>

text \<open>
  A \<open>dict\<close> is an association list with distinct keys in insertion order: \<open>d.get(k)\<close> is
  \<open>map_of d k\<close>, \<open>d[k] = v\<close> overwrites in place or appends, \<open>d.pop(k, None)\<close> removes.
\<close>

type_synonym ('k, 'v) dict = "('k \<times> 'v) list"

abbreviation dget :: "('k, 'v) dict \<Rightarrow> 'k \<Rightarrow> 'v option" where
  "dget d k \<equiv> map_of d k"

abbreviation dset :: "('k, 'v) dict \<Rightarrow> 'k \<Rightarrow> 'v \<Rightarrow> ('k, 'v) dict" where
  "dset d k v \<equiv> AList.update k v d"

abbreviation ddel :: "('k, 'v) dict \<Rightarrow> 'k \<Rightarrow> ('k, 'v) dict" where
  "ddel d k \<equiv> AList.delete k d"

abbreviation dkeys :: "('k, 'v) dict \<Rightarrow> 'k list" where
  "dkeys d \<equiv> map fst d"

abbreviation dvals :: "('k, 'v) dict \<Rightarrow> 'v list" where
  "dvals d \<equiv> map snd d"

text \<open>\<open>d.items()\<close>; an association list stands for the dictionary of its first bindings.\<close>

abbreviation items :: "('k, 'v) dict \<Rightarrow> ('k \<times> 'v) list" where
  "items d \<equiv> AList.clearjunk d"

definition dget_or :: "('k, 'v) dict \<Rightarrow> 'k \<Rightarrow> 'v \<Rightarrow> 'v" where
  "dget_or d k v = (case dget d k of None \<Rightarrow> v | Some w \<Rightarrow> w)"

text \<open>Mutating the object stored under a key: nothing happens when the key is absent.\<close>

definition dadj :: "('k, 'v) dict \<Rightarrow> 'k \<Rightarrow> ('v \<Rightarrow> 'v) \<Rightarrow> ('k, 'v) dict" where
  "dadj d k f = (case dget d k of None \<Rightarrow> d | Some v \<Rightarrow> dset d k (f v))"

text \<open>Mutating every stored object.\<close>

definition dmap :: "('k \<Rightarrow> 'v \<Rightarrow> 'w) \<Rightarrow> ('k, 'v) dict \<Rightarrow> ('k, 'w) dict" where
  "dmap f d = map (\<lambda>(k, v). (k, f k v)) d"

lemma dget_dset [simp, dict_simps]: "dget (dset d k v) k' = (if k' = k then Some v else dget d k')"
  by (simp add: update_conv')

lemma dget_ddel [simp, dict_simps]: "dget (ddel d k) k' = (if k' = k then None else dget d k')"
  by (simp add: delete_conv')

lemma dget_dadj [simp, dict_simps]:
  "dget (dadj d k f) k' = (if k' = k then map_option f (dget d k) else dget d k')"
  by (simp add: dadj_def split: option.splits)

lemma dget_dmap [simp, dict_simps]: "dget (dmap f d) k = map_option (f k) (dget d k)"
  by (induction d) (auto simp: dmap_def)

lemma dkeys_dmap [simp]: "dkeys (dmap f d) = dkeys d"
  by (induction d) (auto simp: dmap_def)

lemma dkeys_dset_present: "dget d k \<noteq> None \<Longrightarrow> dkeys (dset d k v) = dkeys d"
  by (induction d) (auto split: if_splits)

lemma dkeys_dset: "dkeys (dset d k v) = (if k \<in> set (dkeys d) then dkeys d else dkeys d @ [k])"
  by (rule update_keys)

lemma dget_or_dset: "dget_or (dset d k v) k' x = (if k' = k then v else dget_or d k' x)"
  by (simp add: dget_or_def)

lemma dget_or_ddel: "dget_or (ddel d k) k' x = (if k' = k then x else dget_or d k' x)"
  by (simp add: dget_or_def)

lemma dget_in_dkeys: "dget d k = Some v \<Longrightarrow> k \<in> set (dkeys d)"
  by (induction d) (auto split: if_splits)

lemma dget_None_iff: "dget d k = None \<longleftrightarrow> k \<notin> set (dkeys d)"
  by (simp add: map_of_eq_None_iff)

lemma dkeys_dadj [simp]: "dkeys (dadj d k f) = dkeys d"
  by (cases "dget d k") (simp_all add: dadj_def dkeys_dset_present)

lemma distinct_dset: "distinct (dkeys d) \<Longrightarrow> distinct (dkeys (dset d k v))"
  by (rule distinct_update)

lemma distinct_ddel: "distinct (dkeys d) \<Longrightarrow> distinct (dkeys (ddel d k))"
  by (rule distinct_delete)

lemma dvals_dgetE:
  assumes "distinct (dkeys d)" and "v \<in> set (dvals d)"
  obtains k where "dget d k = Some v"
  using assms by (auto simp: map_of_eq_Some_iff)

lemma dget_dvals: "dget d k = Some v \<Longrightarrow> v \<in> set (dvals d)"
  by (induction d) (auto split: if_splits)

lemma dadj_absent [simp]: "dget d k = None \<Longrightarrow> dadj d k f = d"
  by (simp add: dadj_def)

lemma dadj_id: "dget d k = Some v \<Longrightarrow> f v = v \<Longrightarrow> dadj d k f = d"
  by (simp add: dadj_def update_triv)

subsection \<open>Python exceptions\<close>

datatype py_exn =
    KeyError
  | IndexError
  | OverflowError
  | RecursionError
  | ValueError
  | OSError
  | FileNotFoundError
  | RuntimeError
  | YAMLError
  | CancelledError
  | ProcessDied

text \<open>
  \<open>CancelledError\<close> is no \<open>Exception\<close>, and \<open>ProcessDied\<close> is not Python's: the process stops
  where it is. An \<open>except Exception\<close> clause handles every other one.
\<close>

definition is_Exception :: "py_exn \<Rightarrow> bool" where
  "is_Exception e \<longleftrightarrow> e \<noteq> CancelledError \<and> e \<noteq> ProcessDied"

text \<open>
  Floats are exact rationals here, except where leaving the range of an IEEE double is an
  exception: \<open>float(n)\<close> of a big integer and \<open>float ** n\<close> raise \<open>OverflowError\<close> when the
  result rounds beyond the largest double, \<open>2^1024 - 2^971\<close>.
\<close>

definition float_overflows :: "rat \<Rightarrow> bool" where
  "float_overflows x \<longleftrightarrow> 2 ^ 1024 - 2 ^ 970 \<le> x"

lemma float_overflows_pow2: "float_overflows (2 ^ n) \<longleftrightarrow> 1024 \<le> n"
proof
  assume "1024 \<le> n"
  then have "(2::rat) ^ 1024 \<le> 2 ^ n" by (rule power_increasing) simp
  moreover have "(0::rat) \<le> 2 ^ 970" by simp
  ultimately show "float_overflows (2 ^ n)"
    unfolding float_overflows_def by linarith
next
  assume ov: "float_overflows (2 ^ n)"
  show "1024 \<le> n"
  proof (rule ccontr)
    assume "\<not> 1024 \<le> n"
    then have "n \<le> 1023" by simp
    then have a: "(2::rat) ^ n \<le> 2 ^ 1023" by (rule power_increasing) simp
    have b: "(2::rat) ^ 1024 = 2 * 2 ^ 1023" by (subst power_Suc [symmetric]) simp
    have c: "(2::rat) ^ 970 < 2 ^ 1023" by (rule power_strict_increasing) simp_all
    from ov a b c show False unfolding float_overflows_def by linarith
  qed
qed

lemma map_sum_Inr: "map_sum f g r = Inr y \<longleftrightarrow> (\<exists>x. r = Inr x \<and> y = g x)"
  by (cases r) auto

subsection \<open>State-exception actions\<close>

text \<open>
  An action runs on a state and returns a value or an exception, with the state it left
  behind in both cases.
\<close>

type_synonym ('s, 'a) act = "'s \<Rightarrow> (py_exn + 'a) \<times> 's"

definition ret :: "'a \<Rightarrow> ('s, 'a) act" where
  "ret x = (\<lambda>s. (Inr x, s))"

definition throw :: "py_exn \<Rightarrow> ('s, 'a) act" where
  "throw e = (\<lambda>s. (Inl e, s))"

definition bnd :: "('s, 'a) act \<Rightarrow> ('a \<Rightarrow> ('s, 'b) act) \<Rightarrow> ('s, 'b) act" where
  "bnd m f = (\<lambda>s. case m s of (Inl e, s') \<Rightarrow> (Inl e, s') | (Inr x, s') \<Rightarrow> f x s')"

definition thn :: "('s, 'a) act \<Rightarrow> ('s, 'b) act \<Rightarrow> ('s, 'b) act" where
  "thn m k = bnd m (\<lambda>_. k)"

definition get_st :: "('s, 's) act" where
  "get_st = (\<lambda>s. (Inr s, s))"

definition modify :: "('s \<Rightarrow> 's) \<Rightarrow> ('s, unit) act" where
  "modify f = (\<lambda>s. (Inr (), f s))"

text \<open>A pure operation that returns a value and the new state.\<close>

definition pure_op :: "('s \<Rightarrow> 'a \<times> 's) \<Rightarrow> ('s, 'a) act" where
  "pure_op f = (\<lambda>s. (Inr (fst (f s)), snd (f s)))"

definition whn :: "bool \<Rightarrow> ('s, unit) act \<Rightarrow> ('s, unit) act" where
  "whn c m = (if c then m else ret ())"

text \<open>An operation that can raise and leaves the state alone.\<close>

definition lift_res :: "('s \<Rightarrow> py_exn + 'a) \<Rightarrow> ('s, 'a) act" where
  "lift_res f = (\<lambda>s. (f s, s))"

fun for_each :: "'a list \<Rightarrow> ('a \<Rightarrow> ('s, unit) act) \<Rightarrow> ('s, unit) act" where
  "for_each [] f = ret ()"
| "for_each (x # xs) f = thn (f x) (for_each xs f)"

lemma run_ret [simp, act_simps]: "ret x s = (Inr x, s)"
  by (simp add: ret_def)

lemma run_throw [simp, act_simps]: "throw e s = (Inl e, s)"
  by (simp add: throw_def)

lemma run_get [simp, act_simps]: "get_st s = (Inr s, s)"
  by (simp add: get_st_def)

lemma run_modify [simp, act_simps]: "modify f s = (Inr (), f s)"
  by (simp add: modify_def)

lemma run_pure_op [simp, act_simps]: "pure_op f s = (Inr (fst (f s)), snd (f s))"
  by (simp add: pure_op_def)

lemma run_lift_res [simp, act_simps]: "lift_res f s = (f s, s)"
  by (simp add: lift_res_def)

lemma run_bnd [act_simps]:
  "bnd m f s = (case m s of (Inl e, s') \<Rightarrow> (Inl e, s') | (Inr x, s') \<Rightarrow> f x s')"
  by (simp add: bnd_def)

lemma run_thn [act_simps]:
  "thn m k s = (case m s of (Inl e, s') \<Rightarrow> (Inl e, s') | (Inr x, s') \<Rightarrow> k s')"
  by (simp add: thn_def bnd_def)

lemma run_whn [act_simps]: "whn c m s = (if c then m s else (Inr (), s))"
  by (simp add: whn_def)

text \<open>Sequencing after an action that returned, or raised.\<close>

lemma bnd_Inr [simp]: "m s = (Inr x, s') \<Longrightarrow> bnd m f s = f x s'"
  by (simp add: bnd_def)

lemma bnd_Inl [simp]: "m s = (Inl e, s') \<Longrightarrow> bnd m f s = (Inl e, s')"
  by (simp add: bnd_def)

lemma thn_Inr [simp]: "m s = (Inr x, s') \<Longrightarrow> thn m k s = k s'"
  by (simp add: thn_def)

lemma thn_Inl [simp]: "m s = (Inl e, s') \<Longrightarrow> thn m k s = (Inl e, s')"
  by (simp add: thn_def)

lemma thn_run_Inr:
  "thn m k w = (Inr x, w') \<Longrightarrow> \<exists>y w1. m w = (Inr y, w1) \<and> k w1 = (Inr x, w')"
  by (auto simp: thn_def bnd_def split: prod.splits sum.splits)

lemma bnd_run_Inr:
  "bnd m k w = (Inr x, w') \<Longrightarrow> \<exists>y w1. m w = (Inr y, w1) \<and> k y w1 = (Inr x, w')"
  by (auto simp: bnd_def split: prod.splits sum.splits)

subsection \<open>Evolution: what every run of an action keeps\<close>

text \<open>
  \<open>evolves R m\<close>: every run of \<open>m\<close>, returning or raising, ends in a state that \<open>R\<close> relates to
  the state it started in. For a preorder \<open>R\<close> the rules follow the syntax of actions, so
  a whole handler evolves as soon as its single mutations do. Invariants are the special
  case \<open>R s t = (I s \<longrightarrow> I t)\<close>.
\<close>

definition evolves :: "('s \<Rightarrow> 's \<Rightarrow> bool) \<Rightarrow> ('s, 'a) act \<Rightarrow> bool" where
  "evolves R m \<longleftrightarrow> (\<forall>s. R s (snd (m s)))"

lemma evolvesD: "evolves R m \<Longrightarrow> R s (snd (m s))"
  by (simp add: evolves_def)

locale evolution =
  fixes R :: "'s \<Rightarrow> 's \<Rightarrow> bool"
  assumes evo_refl: "R s s"
    and evo_trans: "R s t \<Longrightarrow> R t u \<Longrightarrow> R s u"
begin

lemma evo_ret: "evolves R (ret x)"
  by (simp add: evolves_def evo_refl)

lemma evo_throw: "evolves R (throw e)"
  by (simp add: evolves_def evo_refl)

lemma evo_get: "evolves R get_st"
  by (simp add: evolves_def evo_refl)

lemma evo_lift_res: "evolves R (lift_res f)"
  by (simp add: evolves_def evo_refl)

lemma evo_modify: "(\<And>s. R s (f s)) \<Longrightarrow> evolves R (modify f)"
  by (simp add: evolves_def)

lemma evo_pure_op: "(\<And>s. R s (snd (f s))) \<Longrightarrow> evolves R (pure_op f)"
  by (simp add: evolves_def)

lemma evo_bnd:
  assumes "evolves R m" and "\<And>x. evolves R (f x)"
  shows "evolves R (bnd m f)"
  unfolding evolves_def
proof
  fix s
  obtain r t where m: "m s = (r, t)" by fastforce
  with assms(1) have st: "R s t" unfolding evolves_def by (metis snd_conv)
  show "R s (snd (bnd m f s))"
  proof (cases r)
    case (Inl e)
    with m st show ?thesis by simp
  next
    case (Inr x)
    have "R t (snd (f x t))" using assms(2) by (simp add: evolves_def)
    with m st Inr show ?thesis by (auto intro: evo_trans)
  qed
qed

lemma evo_thn: "evolves R m \<Longrightarrow> evolves R k \<Longrightarrow> evolves R (thn m k)"
  unfolding thn_def by (rule evo_bnd)

lemma evo_whn: "evolves R m \<Longrightarrow> evolves R (whn c m)"
  by (simp add: whn_def evo_ret)

lemma evo_if: "(c \<Longrightarrow> evolves R m) \<Longrightarrow> (\<not> c \<Longrightarrow> evolves R k) \<Longrightarrow> evolves R (if c then m else k)"
  by simp

lemma evo_case_option:
  "evolves R m \<Longrightarrow> (\<And>x. evolves R (f x)) \<Longrightarrow> evolves R (case z of None \<Rightarrow> m | Some x \<Rightarrow> f x)"
  by (cases z) auto

lemma evo_for_each: "(\<And>x. evolves R (f x)) \<Longrightarrow> evolves R (for_each xs f)"
  by (induction xs) (auto intro: evo_ret evo_thn)

lemmas evo_rules = evo_ret evo_throw evo_get evo_lift_res evo_modify evo_pure_op evo_bnd evo_thn evo_whn
  evo_if evo_case_option evo_for_each

lemma evo_fold: "(\<And>x s. R s (f x s)) \<Longrightarrow> R s (fold f xs s)"
  by (induction xs arbitrary: s) (auto intro: evo_refl evo_trans)

end

text \<open>An invariant is an evolution.\<close>

definition keeps :: "('s \<Rightarrow> bool) \<Rightarrow> 's \<Rightarrow> 's \<Rightarrow> bool" where
  "keeps I s t \<longleftrightarrow> (I s \<longrightarrow> I t)"

interpretation keeping: evolution "keeps I" for I
  by unfold_locales (auto simp: keeps_def)

text \<open>
  A run from a state with \<open>P\<close> ends, returning or raising, in a state with \<open>Q\<close>.
\<close>

definition ensures :: "('s \<Rightarrow> bool) \<Rightarrow> ('s, 'a) act \<Rightarrow> ('s \<Rightarrow> bool) \<Rightarrow> bool" where
  "ensures P m Q \<longleftrightarrow> (\<forall>s. P s \<longrightarrow> Q (snd (m s)))"

lemma ensuresD: "ensures P m Q \<Longrightarrow> P s \<Longrightarrow> Q (snd (m s))"
  by (simp add: ensures_def)

lemma ensures_keeps: "ensures P m P \<longleftrightarrow> evolves (keeps P) m"
  by (simp add: ensures_def evolves_def keeps_def)

lemma ensures_weaken: "ensures P m Q \<Longrightarrow> (\<And>s. P' s \<Longrightarrow> P s) \<Longrightarrow> (\<And>s. Q s \<Longrightarrow> Q' s) \<Longrightarrow> ensures P' m Q'"
  by (simp add: ensures_def)

lemma ensures_bnd:
  assumes "ensures P m P'" and "\<And>x. ensures P' (f x) Q" and "\<And>s. P' s \<Longrightarrow> Q s"
  shows "ensures P (bnd m f) Q"
  unfolding ensures_def
proof (intro allI impI)
  fix s assume "P s"
  obtain r t where m: "m s = (r, t)" by fastforce
  with assms(1) \<open>P s\<close> have p: "P' t" unfolding ensures_def by (metis snd_conv)
  show "Q (snd (bnd m f s))"
    using m p assms(2,3) by (cases r) (auto simp: ensures_def)
qed

lemma ensures_thn:
  "ensures P m P' \<Longrightarrow> ensures P' k Q \<Longrightarrow> (\<And>s. P' s \<Longrightarrow> Q s) \<Longrightarrow> ensures P (thn m k) Q"
  unfolding thn_def by (rule ensures_bnd)

lemma ensures_ret: "(\<And>s. P s \<Longrightarrow> Q s) \<Longrightarrow> ensures P (ret x) Q"
  by (simp add: ensures_def)

lemma ensures_throw: "(\<And>s. P s \<Longrightarrow> Q s) \<Longrightarrow> ensures P (throw e) Q"
  by (simp add: ensures_def)

text \<open>
  \<open>steps R P m Q\<close>: a run of \<open>m\<close> from a state with \<open>P\<close> ends in a state that \<open>R\<close> relates to the
  start, and when it returns \<open>x\<close>, in a state with \<open>Q x\<close>. What a guard has established is
  carried to the mutation that needs it.
\<close>

definition steps :: "('s \<Rightarrow> 's \<Rightarrow> bool) \<Rightarrow> ('s \<Rightarrow> bool) \<Rightarrow> ('s, 'a) act \<Rightarrow> ('a \<Rightarrow> 's \<Rightarrow> bool) \<Rightarrow> bool" where
  "steps R P m Q \<longleftrightarrow>
     (\<forall>s. P s \<longrightarrow> R s (snd (m s)) \<and> (\<forall>x. fst (m s) = Inr x \<longrightarrow> Q x (snd (m s))))"

lemma stepsD: "steps R P m Q \<Longrightarrow> P s \<Longrightarrow> R s (snd (m s))"
  by (simp add: steps_def)

lemma steps_evolves: "steps R (\<lambda>_. True) m (\<lambda>_ _. True) \<longleftrightarrow> evolves R m"
  by (simp add: steps_def evolves_def)

lemma evolves_steps: "evolves R m \<Longrightarrow> steps R P m (\<lambda>_ _. True)"
  by (simp add: steps_def evolves_def)

lemma steps_weaken:
  "steps R P m Q \<Longrightarrow> (\<And>s. P' s \<Longrightarrow> P s) \<Longrightarrow> (\<And>x s. Q x s \<Longrightarrow> Q' x s) \<Longrightarrow> steps R P' m Q'"
  by (simp add: steps_def)

lemma steps_frame:
  "evolves R m \<Longrightarrow> (\<And>s. P s \<Longrightarrow> P (snd (m s))) \<Longrightarrow> steps R P m (\<lambda>_. P)"
  by (simp add: steps_def evolves_def)

lemma steps_get: "(\<And>s. R s s) \<Longrightarrow> (\<And>s. P s \<Longrightarrow> Q s s) \<Longrightarrow> steps R P get_st Q"
  by (simp add: steps_def)

lemma steps_modify: "(\<And>s. P s \<Longrightarrow> R s (f s)) \<Longrightarrow> (\<And>s. P s \<Longrightarrow> Q () (f s)) \<Longrightarrow> steps R P (modify f) Q"
  by (simp add: steps_def)

lemma steps_if:
  "(c \<Longrightarrow> steps R P m Q) \<Longrightarrow> (\<not> c \<Longrightarrow> steps R P k Q) \<Longrightarrow> steps R P (if c then m else k) Q"
  by simp

context evolution
begin

lemma steps_ret: "(\<And>s. P s \<Longrightarrow> Q x s) \<Longrightarrow> steps R P (ret x) Q"
  by (simp add: steps_def evo_refl)

lemma steps_throw: "steps R P (throw e) Q"
  by (simp add: steps_def evo_refl)

lemma steps_bnd:
  assumes "steps R P m Q" and "\<And>x. steps R (Q x) (f x) Q'"
  shows "steps R P (bnd m f) Q'"
  unfolding steps_def
proof (intro allI impI)
  fix s assume p: "P s"
  obtain r t where m: "m s = (r, t)" by (metis surj_pair)
  with assms(1) p have st: "R s t" and q: "\<And>x. r = Inr x \<Longrightarrow> Q x t"
    unfolding steps_def by (metis snd_conv, metis fst_conv snd_conv)
  show "R s (snd (bnd m f s)) \<and> (\<forall>x. fst (bnd m f s) = Inr x \<longrightarrow> Q' x (snd (bnd m f s)))"
  proof (cases r)
    case (Inl e)
    with m st show ?thesis by simp
  next
    case (Inr x)
    with q assms(2) have "R t (snd (f x t))"
      and "\<forall>y. fst (f x t) = Inr y \<longrightarrow> Q' y (snd (f x t))" by (simp_all add: steps_def)
    with m st Inr show ?thesis by (auto intro: evo_trans)
  qed
qed

lemma steps_thn: "steps R P m (\<lambda>_. P') \<Longrightarrow> steps R P' k Q \<Longrightarrow> steps R P (thn m k) Q"
  unfolding thn_def by (rule steps_bnd)

lemma steps_whn:
  "(c \<Longrightarrow> steps R P m (\<lambda>_. Q)) \<Longrightarrow> (\<And>s. \<not> c \<Longrightarrow> P s \<Longrightarrow> Q s) \<Longrightarrow> steps R P (whn c m) (\<lambda>_. Q)"
  by (auto simp: whn_def intro: steps_ret)

end

subsection \<open>Lists\<close>

text \<open>The last \<open>n\<close> elements, Python's \<open>xs[-n:]\<close> for a positive \<open>n\<close>.\<close>

definition last_n :: "nat \<Rightarrow> 'a list \<Rightarrow> 'a list" where
  "last_n n xs = drop (length xs - n) xs"

lemma length_last_n [simp]: "length (last_n n xs) = min n (length xs)"
  by (simp add: last_n_def)

lemma set_last_n: "set (last_n n xs) \<subseteq> set xs"
  by (simp add: last_n_def set_drop_subset)

lemma last_n_all: "length xs \<le> n \<Longrightarrow> last_n n xs = xs"
  by (simp add: last_n_def)

lemma sum_list_nonneg_rat: "(\<And>x. x \<in> set xs \<Longrightarrow> 0 \<le> (x::rat)) \<Longrightarrow> 0 \<le> sum_list xs"
  by (induction xs) auto

end
