(* ===== verification/Values.thy ===== *)
theory Values
  imports Prelude
begin

section \<open>Values that cross component boundaries\<close>

text \<open>
  JSON-like values (dictionaries handed through from musicians, score variables), the
  messages the baton composes, and the attempt report a musician sends
  (\<open>daemon/baton/events.py\<close>). Floats are exact rationals. A string is a list of
  characters in the range of code points \<open>0 .. 255\<close>.
\<close>

subsection \<open>JSON values and truthiness\<close>

datatype json =
    JNull
  | JBool bool
  | JInt int
  | JNum rat
  | JStr string
  | JList "json list"
  | JObj "(string \<times> json) list"

type_synonym jdict = "(string, json) dict"

fun json_truthy :: "json \<Rightarrow> bool" where
  "json_truthy JNull = False"
| "json_truthy (JBool b) = b"
| "json_truthy (JInt i) = (i \<noteq> 0)"
| "json_truthy (JNum q) = (q \<noteq> 0)"
| "json_truthy (JStr s) = (s \<noteq> [])"
| "json_truthy (JList xs) = (xs \<noteq> [])"
| "json_truthy (JObj d) = (d \<noteq> [])"

text \<open>\<open>a or b\<close> on an optional string: None and the empty string are false.\<close>

definition str_truthy :: "string option \<Rightarrow> bool" where
  "str_truthy s \<longleftrightarrow> s \<noteq> None \<and> s \<noteq> Some []"

definition or_none :: "string \<Rightarrow> string option" where
  "or_none s = (if s = [] then None else Some s)"

lemma str_truthy_simps [simp]:
  "\<not> str_truthy None" "str_truthy (Some s) \<longleftrightarrow> s \<noteq> []"
  by (simp_all add: str_truthy_def)

text \<open>\<open>name or ""\<close>.\<close>

definition or_empty :: "string option \<Rightarrow> string" where
  "or_empty s = (case s of None \<Rightarrow> [] | Some t \<Rightarrow> t)"

lemma or_empty_simps [simp]: "or_empty None = []" "or_empty (Some s) = s"
  by (simp_all add: or_empty_def)

subsection \<open>Messages\<close>

text \<open>
  Error messages and reasons. \<open>Text\<close> is text that comes from outside (a musician, an
  operator); every other constructor is one f-string of the baton with its arguments, kept
  unrendered. All of the latter are non-empty strings.
\<close>

datatype msg =
    Text string
  | Trimmed string                        \<comment> \<open>a text cut to 299 characters and an ellipsis\<close>
  | MsgJobNotFound string
  | MsgSheetCost rat rat
  | MsgValidationFailed rat int
  | MsgRetriesExhausted int int int int
  | MsgDecision string
  | MsgEscalationTimedOut
  | MsgFailFast int
  | MsgBlockedBy int
  | MsgProcessExited int "int option"
  | MsgFermata int int
  | MsgGoto int int
  | MsgTriggerSkip int
  | MsgTriggerPause int
  | MsgTriggerEscalation int
  | MsgFlowCondition "string option" "msg option"
  | MsgExprError string int               \<comment> \<open>an expression error: its template and its offset\<close>
  | MsgUnknownFailure
  | MsgZombie "int option" "string option"

fun msg_truthy :: "msg option \<Rightarrow> bool" where
  "msg_truthy None = False"
| "msg_truthy (Some (Text s)) = (s \<noteq> [])"
| "msg_truthy (Some _) = True"

subsection \<open>A musician's attempt report\<close>

record attempt_core =
  ar_job_id :: string
  ar_sheet_num :: int
  ar_instrument_name :: string
  ar_attempt :: int
  ar_event_generation :: "int option"
  ar_dispatch_epoch :: "int option"
  ar_execution_success :: bool
  ar_exit_code :: "int option"
  ar_duration_seconds :: rat
  ar_validations_passed :: int
  ar_validations_total :: int
  ar_validation_pass_rate :: rat
  ar_error_classification :: "string option"
  ar_error_message :: "msg option"
  ar_error_code :: "string option"
  ar_exit_reason :: "string option"
  ar_rate_limited :: bool
  ar_rate_limit_wait_seconds :: "rat option"
  ar_cost_usd :: rat
  ar_cost_uncertain :: bool

record attempt_result = attempt_core +
  ar_validation_details :: "jdict option"
  ar_preflight_warnings :: "string list"
  ar_model_used :: "string option"
  ar_stdout_tail :: string
  ar_stderr_tail :: string
  ar_structured_output :: "jdict option"
  ar_structured_output_omitted :: bool
  ar_model_echo_status :: "string option"
  ar_model_observed :: "string option"
  ar_model_requested :: "string option"

text \<open>The dataclass defaults, given the four positional arguments.\<close>

definition attempt_report :: "string \<Rightarrow> int \<Rightarrow> string \<Rightarrow> int \<Rightarrow> attempt_result" where
  "attempt_report j n i k =
     \<lparr>ar_job_id = j, ar_sheet_num = n, ar_instrument_name = i, ar_attempt = k,
      ar_event_generation = None, ar_dispatch_epoch = None,
      ar_execution_success = True, ar_exit_code = None, ar_duration_seconds = 0,
      ar_validations_passed = 0, ar_validations_total = 0, ar_validation_pass_rate = 0,
      ar_error_classification = None, ar_error_message = None, ar_error_code = None,
      ar_exit_reason = None, ar_rate_limited = False, ar_rate_limit_wait_seconds = None,
      ar_cost_usd = 0, ar_cost_uncertain = False,
      ar_validation_details = None, ar_preflight_warnings = [], ar_model_used = None,
      ar_stdout_tail = [], ar_stderr_tail = [], ar_structured_output = None,
      ar_structured_output_omitted = False, ar_model_echo_status = None,
      ar_model_observed = None, ar_model_requested = None\<rparr>"

text \<open>An attempt that fully succeeded: it ran, and every validation (if any) passed.\<close>

definition full_success :: "attempt_result \<Rightarrow> bool" where
  "full_success r \<longleftrightarrow> ar_execution_success r \<and>
     (ar_validations_total r = 0 \<or> ar_validation_pass_rate r \<ge> 100)"

text \<open>An ASCII digit and its value.\<close>

definition digit_of :: "char \<Rightarrow> nat option" where
  "digit_of c = (let k = of_char c in if 48 \<le> k \<and> k \<le> 57 then Some (k - 48) else None)"

end
