(* ===== verification/Sheet.thy ===== *)
theory Sheet
  imports Values
begin

section \<open>A sheet's scheduling state\<close>

text \<open>
  \<open>SheetStatus\<close> and the scheduling part of \<open>SheetState\<close> of \<open>core/checkpoint.py\<close> (the
  baton's \<open>SheetExecutionState\<close> is an alias of it): the status, the evidence of the last
  attempts, the retry, completion and healing budgets, the instrument fallback chain and
  the dispatch-block annotation, with every method that the baton calls. Fields no
  scheduling method reads or writes are left out. Methods that read the clock take the
  time as an argument.
\<close>

subsection \<open>Status\<close>

datatype sheet_status =
    PENDING | READY | DISPATCHED | IN_PROGRESS | WAITING | RETRY_SCHEDULED | FERMATA
  | COMPLETED | FAILED | SKIPPED | CANCELLED

definition TERMINAL_SHEET_STATUSES :: "sheet_status set" where
  "TERMINAL_SHEET_STATUSES = {COMPLETED, FAILED, SKIPPED, CANCELLED}"

fun is_terminal :: "sheet_status \<Rightarrow> bool" where
  "is_terminal COMPLETED = True"
| "is_terminal FAILED = True"
| "is_terminal SKIPPED = True"
| "is_terminal CANCELLED = True"
| "is_terminal _ = False"

definition is_active :: "sheet_status \<Rightarrow> bool" where
  "is_active st \<longleftrightarrow> st = DISPATCHED \<or> st = IN_PROGRESS"

definition dispatchable :: "sheet_status \<Rightarrow> bool" where
  "dispatchable st \<longleftrightarrow> st = PENDING \<or> st = READY"

lemma is_terminal_set: "is_terminal st \<longleftrightarrow> st \<in> TERMINAL_SHEET_STATUSES"
  by (cases st) (simp_all add: TERMINAL_SHEET_STATUSES_def)

lemma dispatchable_not_terminal: "dispatchable st \<Longrightarrow> \<not> is_terminal st"
  by (auto simp: dispatchable_def)

lemma is_active_not_terminal: "is_active st \<Longrightarrow> \<not> is_terminal st"
  by (auto simp: is_active_def)

subsection \<open>The state\<close>

record inst_config =
  cfg_model :: "string option"
  cfg_rest :: jdict

record instrument_identity =
  id_name :: string
  id_model :: "string option"

record attempt_entry =
  ae_attempt :: int
  ae_instrument :: "string option"
  ae_model :: "string option"
  ae_duration_seconds :: rat
  ae_success :: bool
  ae_exit_reason :: "string option"
  ae_error_classification :: "string option"
  ae_error_code :: "string option"
  ae_error_message :: "msg option"
  ae_exit_code :: "int option"
  ae_timestamp :: rat

record fallback_entry =
  fb_from :: string
  fb_to :: string
  fb_reason :: string
  fb_timestamp :: rat

record flow_attempt =
  fa_epoch :: int
  fa_cause :: string
  fa_loop_indices :: "(string, int) dict"
  fa_status :: sheet_status
  fa_validation_passed :: "bool option"
  fa_passed_validations :: "json list"
  fa_failed_validations :: "json list"
  fa_stdout_tail :: "string option"
  fa_stderr_tail :: "string option"
  fa_total_cost_usd :: rat
  fa_recorded_at :: rat

text \<open>Identity and status.\<close>

record sheet_identity =
  sheet_num :: int
  status :: sheet_status
  started_at :: "rat option"
  completed_at :: "rat option"
  attempt_count :: int
  instrument_name :: "string option"
  instrument_model :: "string option"
  model :: "string option"
  primary_identity :: "instrument_identity option"
  dispatch_epoch :: int
  expected_route :: "string option"

text \<open>
  Evidence of the attempts. A validation description is kept as the value whose \<open>str()\<close>
  the code stores.
\<close>

record sheet_evidence = sheet_identity +
  exit_code :: "int option"
  error_message :: "msg option"
  error_code :: "string option"
  validation_passed :: "bool option"
  validation_details :: "jdict list option"
  passed_validations :: "json list"
  failed_validations :: "json list"
  last_pass_percentage :: "rat option"
  execution_duration_seconds :: "rat option"
  stdout_tail :: "string option"
  stderr_tail :: "string option"
  structured_output :: "jdict option"
  structured_output_omitted :: bool
  preflight_warnings :: "string list"
  attempt_history :: "attempt_entry list"
  attempt_results :: "attempt_result list"
  flow_history :: "flow_attempt list"

record sheet_echo = sheet_evidence +
  model_echo_status :: "string option"
  model_observed :: "string option"
  model_requested :: "string option"

text \<open>Budgets, instrument chain and scheduler annotations.\<close>

record sheet_budget = sheet_echo +
  normal_attempts :: int
  completion_attempts :: int
  healing_attempts :: int
  max_retries :: int
  max_completion :: int
  total_cost_usd :: rat
  cost_uncertain :: bool
  total_duration_seconds :: rat

record sheet = sheet_budget +
  fallback_chain :: "string list"
  fallback_configs :: "inst_config list"
  current_instrument_index :: nat
  balance_chain :: bool
  primary_config :: "inst_config option"
  fallback_attempts :: "(string, int) dict"
  instrument_fallback_history :: "fallback_entry list"
  next_retry_at :: "rat option"
  dispatched_at :: "rat option"
  fermata_entered_at :: "rat option"
  fermata_reason :: "msg option"
  dispatch_blocked_reason :: "string option"
  dispatch_blocked_at :: "rat option"
  dispatch_blocked_details :: jdict

text \<open>The field defaults of the class.\<close>

definition new_sheet :: "int \<Rightarrow> sheet" where
  "new_sheet n =
     \<lparr>sheet_num = n, status = PENDING, started_at = None, completed_at = None,
      attempt_count = 0, instrument_name = None, instrument_model = None, model = None,
      primary_identity = None, dispatch_epoch = 0, expected_route = None,
      exit_code = None, error_message = None, error_code = None, validation_passed = None,
      validation_details = None, passed_validations = [], failed_validations = [],
      last_pass_percentage = None, execution_duration_seconds = None, stdout_tail = None,
      stderr_tail = None, structured_output = None, structured_output_omitted = False,
      preflight_warnings = [], attempt_history = [], attempt_results = [],
      flow_history = [], model_echo_status = None, model_observed = None,
      model_requested = None, normal_attempts = 0, completion_attempts = 0,
      healing_attempts = 0, max_retries = 3, max_completion = 5, total_cost_usd = 0,
      cost_uncertain = False, total_duration_seconds = 0, fallback_chain = [],
      fallback_configs = [], current_instrument_index = 0, balance_chain = False,
      primary_config = None, fallback_attempts = [], instrument_fallback_history = [],
      next_retry_at = None, dispatched_at = None, fermata_entered_at = None,
      fermata_reason = None, dispatch_blocked_reason = None, dispatch_blocked_at = None,
      dispatch_blocked_details = []\<rparr>"

subsection \<open>Budgets\<close>

definition MAX_ATTEMPT_HISTORY :: nat where "MAX_ATTEMPT_HISTORY = 50"

definition MAX_INSTRUMENT_FALLBACK_HISTORY :: nat where "MAX_INSTRUMENT_FALLBACK_HISTORY = 50"

definition can_retry :: "sheet \<Rightarrow> bool" where
  "can_retry s \<longleftrightarrow> normal_attempts s < max_retries s"

definition can_complete :: "sheet \<Rightarrow> bool" where
  "can_complete s \<longleftrightarrow> completion_attempts s < max_completion s"

definition is_exhausted :: "sheet \<Rightarrow> bool" where
  "is_exhausted s \<longleftrightarrow> \<not> can_retry s \<and> \<not> can_complete s"

definition total_attempts :: "sheet \<Rightarrow> int" where
  "total_attempts s = normal_attempts s + completion_attempts s + healing_attempts s"

definition has_fallback_available :: "sheet \<Rightarrow> bool" where
  "has_fallback_available s \<longleftrightarrow> current_instrument_index s < length (fallback_chain s)"

subsection \<open>Recording an attempt\<close>

text \<open>\<open>" ".join(str(message).split())\<close>, cut to 300 characters.\<close>

definition is_space :: "char \<Rightarrow> bool" where
  "is_space c \<longleftrightarrow> (let k = (of_char c :: nat)
     in (9 \<le> k \<and> k \<le> 13) \<or> (28 \<le> k \<and> k \<le> 32) \<or> k = 133 \<or> k = 160)"

fun split_ws :: "string \<Rightarrow> string \<Rightarrow> string list" where
  "split_ws acc [] = (if acc = [] then [] else [rev acc])"
| "split_ws acc (c # cs) =
     (if is_space c then (if acc = [] then split_ws [] cs else rev acc # split_ws [] cs)
      else split_ws (c # acc) cs)"

fun join_sp :: "string list \<Rightarrow> string" where
  "join_sp [] = []"
| "join_sp [w] = w"
| "join_sp (w # v # ws) = w @ CHR 0x20 # join_sp (v # ws)"

definition ATTEMPT_ERROR_MESSAGE_MAX :: nat where "ATTEMPT_ERROR_MESSAGE_MAX = 300"

definition attempt_error_message :: "attempt_result \<Rightarrow> msg option" where
  "attempt_error_message r =
     (if ar_execution_success r then None
      else if \<not> msg_truthy (ar_error_message r) then None
      else case ar_error_message r of
             Some (Text s) \<Rightarrow>
               (let text = join_sp (split_ws [] s)
                in if length text > ATTEMPT_ERROR_MESSAGE_MAX
                   then Some (Trimmed (take (ATTEMPT_ERROR_MESSAGE_MAX - 1) text))
                   else Some (Text text))
           | m \<Rightarrow> m)"

text \<open>\<open>round(x, 3)\<close>: to thousandths, half to even.\<close>

definition round3 :: "rat \<Rightarrow> rat" where
  "round3 x = (let y = x * 1000; n = \<lfloor>y\<rfloor>; d = y - of_int n
     in of_int (if d < 1/2 then n else if d > 1/2 then n + 1
                else if even n then n else n + 1) / 1000)"

text \<open>The validation rows a report carries, or one synthetic row for an engine error.\<close>

fun as_obj :: "json \<Rightarrow> jdict option" where
  "as_obj (JObj d) = Some d"
| "as_obj _ = None"

definition engine_error_row :: "json \<Rightarrow> rat \<Rightarrow> jdict" where
  "engine_error_row e t =
     [(''rule_type'', JStr ''validation_engine''),
      (''description'', JStr ''Validation engine error''),
      (''path'', JNull), (''pattern'', JNull), (''passed'', JBool False),
      (''actual_value'', JNull), (''expected_value'', JNull), (''error_message'', e),
      (''checked_at'', JNum t), (''check_duration_ms'', JNum 0), (''confidence'', JNum 0),
      (''confidence_factors'', JObj []), (''failure_reason'', e),
      (''failure_category'', JStr ''error''), (''suggested_fix'', JNull),
      (''error_type'', JStr ''internal_error'')]"

definition validation_rows :: "attempt_result \<Rightarrow> rat \<Rightarrow> jdict list" where
  "validation_rows r t =
     (case ar_validation_details r of
        None \<Rightarrow> []
      | Some d \<Rightarrow>
          (case dget d ''results'' of
             Some (JList xs) \<Rightarrow> List.map_filter as_obj xs
           | _ \<Rightarrow> (case dget d ''error'' of
                    Some e \<Rightarrow> if json_truthy e then [engine_error_row e t] else []
                  | None \<Rightarrow> [])))"

definition row_passed :: "jdict \<Rightarrow> bool" where
  "row_passed d = json_truthy (dget_or d ''passed'' (JBool False))"

definition row_description :: "jdict \<Rightarrow> json" where
  "row_description d =
     (let a = dget_or d ''description'' JNull; b = dget_or d ''rule_type'' JNull
      in if json_truthy a then a else if json_truthy b then b else JStr ''validation'')"

definition record_pass_percentage :: "attempt_result \<Rightarrow> sheet \<Rightarrow> sheet" where
  "record_pass_percentage r s =
     (case ar_validation_details r of
        Some d \<Rightarrow> s\<lparr>last_pass_percentage := Some
          (case dget d ''pass_percentage'' of
             Some (JInt i) \<Rightarrow> of_int i
           | Some (JNum q) \<Rightarrow> q
           | Some (JBool b) \<Rightarrow> (if b then 1 else 0)
           | _ \<Rightarrow> ar_validation_pass_rate r)\<rparr>
      | None \<Rightarrow>
          if ar_validations_total r \<noteq> 0
          then s\<lparr>last_pass_percentage := Some (ar_validation_pass_rate r)\<rparr> else s)"

definition record_validation :: "attempt_result \<Rightarrow> rat \<Rightarrow> sheet \<Rightarrow> sheet" where
  "record_validation r t s =
     (let rows = validation_rows r t
      in if rows \<noteq> [] then
           s\<lparr>validation_details := Some rows,
             validation_passed := Some (list_all row_passed rows),
             passed_validations := map row_description (filter row_passed rows),
             failed_validations := map row_description (filter (\<lambda>d. \<not> row_passed d) rows)\<rparr>
         else if ar_validations_total r \<noteq> 0 then
           s\<lparr>validation_details := Some [],
             validation_passed := Some (ar_validation_pass_rate r \<ge> 100),
             passed_validations := [], failed_validations := []\<rparr>
         else if ar_execution_success r then
           s\<lparr>validation_passed := None, validation_details := None,
             passed_validations := [], failed_validations := []\<rparr>
         else s)"

definition new_attempt_entry :: "attempt_result \<Rightarrow> rat \<Rightarrow> sheet \<Rightarrow> attempt_entry" where
  "new_attempt_entry r t s =
     \<lparr>ae_attempt = (if attempt_count s \<noteq> 0 then attempt_count s
                     else int (length (attempt_results s))),
      ae_instrument = (if ar_instrument_name r \<noteq> [] then Some (ar_instrument_name r)
                       else instrument_name s),
      ae_model = instrument_model s,
      ae_duration_seconds = round3 (ar_duration_seconds r),
      ae_success = ar_execution_success r,
      ae_exit_reason = ar_exit_reason r,
      ae_error_classification = ar_error_classification r,
      ae_error_code = ar_error_code r,
      ae_error_message = attempt_error_message r,
      ae_exit_code = ar_exit_code r,
      ae_timestamp = t\<rparr>"

definition add_warning :: "string \<Rightarrow> string list \<Rightarrow> string list" where
  "add_warning w ws = (if w \<in> set ws then ws else ws @ [w])"

definition record_evidence :: "attempt_result \<Rightarrow> sheet \<Rightarrow> sheet" where
  "record_evidence r s =
     s\<lparr>model_echo_status := ar_model_echo_status r, model_observed := ar_model_observed r,
       model_requested := ar_model_requested r, exit_code := ar_exit_code r,
       error_message := ar_error_message r, error_code := ar_error_code r,
       stdout_tail := or_none (ar_stdout_tail r), stderr_tail := or_none (ar_stderr_tail r),
       structured_output := ar_structured_output r,
       structured_output_omitted := ar_structured_output_omitted r\<rparr>"

definition record_attempt :: "attempt_result \<Rightarrow> rat \<Rightarrow> sheet \<Rightarrow> sheet" where
  "record_attempt r t s0 =
     (let s1 = s0\<lparr>attempt_results := attempt_results s0 @ [r],
                  total_cost_usd := total_cost_usd s0 + ar_cost_usd r,
                  cost_uncertain := cost_uncertain s0 \<or> ar_cost_uncertain r,
                  preflight_warnings := fold add_warning (ar_preflight_warnings r)
                    (preflight_warnings s0),
                  total_duration_seconds := total_duration_seconds s0 + ar_duration_seconds r,
                  execution_duration_seconds := Some (ar_duration_seconds r)\<rparr>;
          s2 = s1\<lparr>attempt_history := last_n MAX_ATTEMPT_HISTORY
                    (attempt_history s1 @ [new_attempt_entry r t s1])\<rparr>;
          s3 = record_validation r t (record_pass_percentage r (record_evidence r s2))
      in if \<not> ar_rate_limited r \<and> \<not> ar_execution_success r
         then s3\<lparr>normal_attempts := normal_attempts s3 + 1\<rparr> else s3)"

subsection \<open>Dispatch blocks\<close>

definition mark_dispatch_blocked ::
  "string \<Rightarrow> jdict \<Rightarrow> rat \<Rightarrow> sheet \<Rightarrow> bool \<times> sheet" where
  "mark_dispatch_blocked reason details t s =
     (if dispatch_blocked_reason s = Some reason \<and> dispatch_blocked_details s = details
         \<and> dispatch_blocked_at s \<noteq> None
      then (False, s)
      else (True, s\<lparr>dispatch_blocked_reason := Some reason,
                    dispatch_blocked_details := details, dispatch_blocked_at := Some t\<rparr>))"

definition clear_dispatch_block :: "sheet \<Rightarrow> sheet" where
  "clear_dispatch_block s =
     s\<lparr>dispatch_blocked_reason := None, dispatch_blocked_at := None,
       dispatch_blocked_details := []\<rparr>"

subsection \<open>The instrument chain\<close>

definition push_fallback_record :: "fallback_entry \<Rightarrow> sheet \<Rightarrow> sheet" where
  "push_fallback_record e s =
     s\<lparr>instrument_fallback_history :=
         last_n MAX_INSTRUMENT_FALLBACK_HISTORY (instrument_fallback_history s @ [e])\<rparr>"

definition advance_fallback :: "string \<Rightarrow> rat \<Rightarrow> sheet \<Rightarrow> string option \<times> sheet" where
  "advance_fallback reason t s =
     (if \<not> has_fallback_available s then (None, s)
      else
        let from_instrument = or_empty (instrument_name s);
            idx = current_instrument_index s;
            to_instrument = fallback_chain s ! idx;
            m = (if idx < length (fallback_configs s)
                 then cfg_model (fallback_configs s ! idx) else None);
            s1 = s\<lparr>fallback_attempts :=
                     dset (fallback_attempts s) from_instrument (normal_attempts s),
                   current_instrument_index := Suc idx,
                   instrument_name := Some to_instrument,
                   model := m, instrument_model := m,
                   normal_attempts := 0, completion_attempts := 0\<rparr>
        in (Some to_instrument,
            push_fallback_record \<lparr>fb_from = from_instrument, fb_to = to_instrument,
                                  fb_reason = reason, fb_timestamp = t\<rparr> s1))"

definition remember_primary_identity :: "sheet \<Rightarrow> sheet" where
  "remember_primary_identity s =
     s\<lparr>primary_identity := Some \<lparr>id_name = or_empty (instrument_name s), id_model = model s\<rparr>\<rparr>"

definition restore_primary_identity :: "sheet \<Rightarrow> sheet" where
  "restore_primary_identity s =
     (case primary_identity s of
        None \<Rightarrow> s
      | Some p \<Rightarrow> s\<lparr>instrument_name := Some (id_name p), model := id_model p,
                    instrument_model := id_model p\<rparr>)"

subsection \<open>Resets\<close>

definition reset_for_retry :: "sheet \<Rightarrow> sheet" where
  "reset_for_retry s =
     (let s1 = s\<lparr>status := PENDING, error_message := None, error_code := None,
                 completed_at := None, normal_attempts := 0, completion_attempts := 0,
                 attempt_count := 0, healing_attempts := 0, current_instrument_index := 0\<rparr>;
          s2 = restore_primary_identity s1
      in clear_dispatch_block (s2\<lparr>instrument_fallback_history := [], fallback_attempts := []\<rparr>))"

definition tail_500 :: "string option \<Rightarrow> string option" where
  "tail_500 x = (case x of Some t \<Rightarrow> if t = [] then None else Some (last_n 500 t) | None \<Rightarrow> None)"

definition flow_record :: "string \<Rightarrow> (string, int) dict \<Rightarrow> rat \<Rightarrow> sheet \<Rightarrow> flow_attempt" where
  "flow_record cause indices t s =
     \<lparr>fa_epoch = dispatch_epoch s, fa_cause = cause, fa_loop_indices = indices,
      fa_status = status s, fa_validation_passed = validation_passed s,
      fa_passed_validations = passed_validations s,
      fa_failed_validations = failed_validations s,
      fa_stdout_tail = tail_500 (stdout_tail s), fa_stderr_tail = tail_500 (stderr_tail s),
      fa_total_cost_usd = total_cost_usd s, fa_recorded_at = t\<rparr>"

definition reset_for_flow :: "string \<Rightarrow> (string, int) dict \<Rightarrow> rat \<Rightarrow> sheet \<Rightarrow> sheet" where
  "reset_for_flow cause indices t s =
     (let s1 = s\<lparr>flow_history := last_n 10 (flow_history s @ [flow_record cause indices t s]),
                 status := PENDING, dispatch_epoch := dispatch_epoch s + 1,
                 completed_at := None, error_message := None, error_code := None,
                 normal_attempts := 0, completion_attempts := 0, healing_attempts := 0,
                 attempt_count := 0, current_instrument_index := 0\<rparr>;
          s2 = restore_primary_identity s1
      in clear_dispatch_block
           (s2\<lparr>fallback_attempts := [], fermata_entered_at := None, fermata_reason := None,
              next_retry_at := None\<rparr>))"

subsection \<open>What the methods change\<close>

lemma clear_dispatch_block_simps [simp]:
  "sheet_num (clear_dispatch_block s) = sheet_num s"
  "status (clear_dispatch_block s) = status s"
  "dispatch_epoch (clear_dispatch_block s) = dispatch_epoch s"
  "instrument_name (clear_dispatch_block s) = instrument_name s"
  "model (clear_dispatch_block s) = model s"
  "error_code (clear_dispatch_block s) = error_code s"
  "error_message (clear_dispatch_block s) = error_message s"
  "total_cost_usd (clear_dispatch_block s) = total_cost_usd s"
  "normal_attempts (clear_dispatch_block s) = normal_attempts s"
  "completion_attempts (clear_dispatch_block s) = completion_attempts s"
  "healing_attempts (clear_dispatch_block s) = healing_attempts s"
  "max_retries (clear_dispatch_block s) = max_retries s"
  "max_completion (clear_dispatch_block s) = max_completion s"
  "fallback_chain (clear_dispatch_block s) = fallback_chain s"
  "current_instrument_index (clear_dispatch_block s) = current_instrument_index s"
  "primary_identity (clear_dispatch_block s) = primary_identity s"
  "flow_history (clear_dispatch_block s) = flow_history s"
  "attempt_results (clear_dispatch_block s) = attempt_results s"
  "expected_route (clear_dispatch_block s) = expected_route s"
  "fermata_reason (clear_dispatch_block s) = fermata_reason s"
  by (simp_all add: clear_dispatch_block_def)

lemma clear_dispatch_block_idem [simp]:
  "clear_dispatch_block (clear_dispatch_block s) = clear_dispatch_block s"
  by (simp add: clear_dispatch_block_def)

lemma mark_dispatch_blocked_simps [simp]:
  "sheet_num (snd (mark_dispatch_blocked r d t s)) = sheet_num s"
  "status (snd (mark_dispatch_blocked r d t s)) = status s"
  "dispatch_epoch (snd (mark_dispatch_blocked r d t s)) = dispatch_epoch s"
  "instrument_name (snd (mark_dispatch_blocked r d t s)) = instrument_name s"
  "model (snd (mark_dispatch_blocked r d t s)) = model s"
  "error_code (snd (mark_dispatch_blocked r d t s)) = error_code s"
  "total_cost_usd (snd (mark_dispatch_blocked r d t s)) = total_cost_usd s"
  by (simp_all add: mark_dispatch_blocked_def)

text \<open>A method that only touches evidence leaves every scheduling field alone.\<close>

definition same_schedule :: "sheet \<Rightarrow> sheet \<Rightarrow> bool" where
  "same_schedule s t \<longleftrightarrow>
     sheet_num t = sheet_num s \<and> status t = status s \<and> dispatch_epoch t = dispatch_epoch s \<and>
     instrument_name t = instrument_name s \<and> model t = model s \<and>
     instrument_model t = instrument_model s \<and>
     primary_identity t = primary_identity s \<and> expected_route t = expected_route s \<and>
     completion_attempts t = completion_attempts s \<and> healing_attempts t = healing_attempts s \<and>
     max_retries t = max_retries s \<and> max_completion t = max_completion s \<and>
     fallback_chain t = fallback_chain s \<and> fallback_configs t = fallback_configs s \<and>
     current_instrument_index t = current_instrument_index s \<and>
     flow_history t = flow_history s \<and> fermata_reason t = fermata_reason s \<and>
     instrument_fallback_history t = instrument_fallback_history s"

lemma record_evidence_schedule: "same_schedule s (record_evidence r s)"
  by (simp add: same_schedule_def record_evidence_def)

lemma record_pass_percentage_schedule: "same_schedule s (record_pass_percentage r s)"
  by (simp add: same_schedule_def record_pass_percentage_def split: option.split)

lemma record_validation_schedule: "same_schedule s (record_validation r t s)"
  by (simp add: same_schedule_def record_validation_def Let_def)

lemma record_validation_budget:
  "normal_attempts (record_validation r t s) = normal_attempts s"
  "total_cost_usd (record_validation r t s) = total_cost_usd s"
  "attempt_results (record_validation r t s) = attempt_results s"
  "attempt_history (record_validation r t s) = attempt_history s"
  "cost_uncertain (record_validation r t s) = cost_uncertain s"
  "error_code (record_validation r t s) = error_code s"
  "error_message (record_validation r t s) = error_message s"
  by (simp_all add: record_validation_def Let_def)

lemma record_pass_percentage_budget:
  "normal_attempts (record_pass_percentage r s) = normal_attempts s"
  "total_cost_usd (record_pass_percentage r s) = total_cost_usd s"
  "attempt_results (record_pass_percentage r s) = attempt_results s"
  "attempt_history (record_pass_percentage r s) = attempt_history s"
  "cost_uncertain (record_pass_percentage r s) = cost_uncertain s"
  "error_code (record_pass_percentage r s) = error_code s"
  "error_message (record_pass_percentage r s) = error_message s"
  by (simp_all add: record_pass_percentage_def split: option.split)

lemma record_evidence_budget:
  "normal_attempts (record_evidence r s) = normal_attempts s"
  "total_cost_usd (record_evidence r s) = total_cost_usd s"
  "attempt_results (record_evidence r s) = attempt_results s"
  "attempt_history (record_evidence r s) = attempt_history s"
  "cost_uncertain (record_evidence r s) = cost_uncertain s"
  "error_code (record_evidence r s) = ar_error_code r"
  "error_message (record_evidence r s) = ar_error_message r"
  by (simp_all add: record_evidence_def)

lemmas record_budget = record_validation_budget record_pass_percentage_budget
  record_evidence_budget

lemma same_schedule_trans: "same_schedule s t \<Longrightarrow> same_schedule t u \<Longrightarrow> same_schedule s u"
  by (simp add: same_schedule_def)

lemma record_steps_schedule:
  "same_schedule s (record_validation r t (record_pass_percentage r (record_evidence r s)))"
  by (meson record_evidence_schedule record_pass_percentage_schedule
        record_validation_schedule same_schedule_trans)

lemma record_attempt_schedule: "same_schedule s (record_attempt r t s)"
  using record_steps_schedule [of _ r t]
  by (simp add: record_attempt_def Let_def same_schedule_def)

text \<open>The accounting of an attempt.\<close>

lemma record_attempt_budget:
  "normal_attempts (record_attempt r t s) =
     normal_attempts s + (if \<not> ar_rate_limited r \<and> \<not> ar_execution_success r then 1 else 0)"
  "total_cost_usd (record_attempt r t s) = total_cost_usd s + ar_cost_usd r"
  "attempt_results (record_attempt r t s) = attempt_results s @ [r]"
  "cost_uncertain (record_attempt r t s) = (cost_uncertain s \<or> ar_cost_uncertain r)"
  "error_code (record_attempt r t s) = ar_error_code r"
  "error_message (record_attempt r t s) = ar_error_message r"
  "length (attempt_history (record_attempt r t s)) =
     min MAX_ATTEMPT_HISTORY (Suc (length (attempt_history s)))"
  by (simp_all add: record_attempt_def Let_def record_budget)

lemma record_attempt_simps [simp]:
  "sheet_num (record_attempt r t s) = sheet_num s"
  "status (record_attempt r t s) = status s"
  "dispatch_epoch (record_attempt r t s) = dispatch_epoch s"
  "instrument_name (record_attempt r t s) = instrument_name s"
  "model (record_attempt r t s) = model s"
  "expected_route (record_attempt r t s) = expected_route s"
  "completion_attempts (record_attempt r t s) = completion_attempts s"
  "healing_attempts (record_attempt r t s) = healing_attempts s"
  "max_retries (record_attempt r t s) = max_retries s"
  "max_completion (record_attempt r t s) = max_completion s"
  "fallback_chain (record_attempt r t s) = fallback_chain s"
  "current_instrument_index (record_attempt r t s) = current_instrument_index s"
  using record_attempt_schedule [of s r t] by (simp_all add: same_schedule_def)

lemma advance_fallback_None [simp]: "fst (advance_fallback r t s) = None \<longleftrightarrow> \<not> has_fallback_available s"
  by (simp add: advance_fallback_def Let_def)

lemma advance_fallback_unavailable: "\<not> has_fallback_available s \<Longrightarrow> advance_fallback r t s = (None, s)"
  by (simp add: advance_fallback_def)

lemma advance_fallback_simps:
  assumes "has_fallback_available s"
  shows "fst (advance_fallback r t s) = Some (fallback_chain s ! current_instrument_index s)"
    and "instrument_name (snd (advance_fallback r t s)) =
           Some (fallback_chain s ! current_instrument_index s)"
    and "current_instrument_index (snd (advance_fallback r t s)) = Suc (current_instrument_index s)"
    and "normal_attempts (snd (advance_fallback r t s)) = 0"
    and "completion_attempts (snd (advance_fallback r t s)) = 0"
    and "instrument_model (snd (advance_fallback r t s)) = model (snd (advance_fallback r t s))"
  using assms by (simp_all add: advance_fallback_def Let_def push_fallback_record_def)

lemma advance_fallback_frame [simp]:
  "sheet_num (snd (advance_fallback r t s)) = sheet_num s"
  "status (snd (advance_fallback r t s)) = status s"
  "dispatch_epoch (snd (advance_fallback r t s)) = dispatch_epoch s"
  "healing_attempts (snd (advance_fallback r t s)) = healing_attempts s"
  "max_retries (snd (advance_fallback r t s)) = max_retries s"
  "max_completion (snd (advance_fallback r t s)) = max_completion s"
  "total_cost_usd (snd (advance_fallback r t s)) = total_cost_usd s"
  "fallback_chain (snd (advance_fallback r t s)) = fallback_chain s"
  "fallback_configs (snd (advance_fallback r t s)) = fallback_configs s"
  "primary_identity (snd (advance_fallback r t s)) = primary_identity s"
  "expected_route (snd (advance_fallback r t s)) = expected_route s"
  "error_code (snd (advance_fallback r t s)) = error_code s"
  "error_message (snd (advance_fallback r t s)) = error_message s"
  "attempt_results (snd (advance_fallback r t s)) = attempt_results s"
  by (simp_all add: advance_fallback_def Let_def push_fallback_record_def)

lemma restore_primary_identity_frame [simp]:
  "status (restore_primary_identity s) = status s"
  "sheet_num (restore_primary_identity s) = sheet_num s"
  "dispatch_epoch (restore_primary_identity s) = dispatch_epoch s"
  "total_cost_usd (restore_primary_identity s) = total_cost_usd s"
  "total_duration_seconds (restore_primary_identity s) = total_duration_seconds s"
  "normal_attempts (restore_primary_identity s) = normal_attempts s"
  "completion_attempts (restore_primary_identity s) = completion_attempts s"
  "healing_attempts (restore_primary_identity s) = healing_attempts s"
  "attempt_count (restore_primary_identity s) = attempt_count s"
  "current_instrument_index (restore_primary_identity s) = current_instrument_index s"
  "fallback_chain (restore_primary_identity s) = fallback_chain s"
  "max_retries (restore_primary_identity s) = max_retries s"
  "max_completion (restore_primary_identity s) = max_completion s"
  "flow_history (restore_primary_identity s) = flow_history s"
  "attempt_history (restore_primary_identity s) = attempt_history s"
  "instrument_fallback_history (restore_primary_identity s) = instrument_fallback_history s"
  "error_code (restore_primary_identity s) = error_code s"
  "error_message (restore_primary_identity s) = error_message s"
  "primary_identity (restore_primary_identity s) = primary_identity s"
  by (simp_all add: restore_primary_identity_def split: option.split)

lemma reset_for_flow_simps [simp]:
  "sheet_num (reset_for_flow c i t s) = sheet_num s"
  "status (reset_for_flow c i t s) = PENDING"
  "dispatch_epoch (reset_for_flow c i t s) = dispatch_epoch s + 1"
  "total_cost_usd (reset_for_flow c i t s) = total_cost_usd s"
  "total_duration_seconds (reset_for_flow c i t s) = total_duration_seconds s"
  "normal_attempts (reset_for_flow c i t s) = 0"
  "completion_attempts (reset_for_flow c i t s) = 0"
  "healing_attempts (reset_for_flow c i t s) = 0"
  "current_instrument_index (reset_for_flow c i t s) = 0"
  "error_code (reset_for_flow c i t s) = None"
  "error_message (reset_for_flow c i t s) = None"
  "length (flow_history (reset_for_flow c i t s)) = min 10 (Suc (length (flow_history s)))"
  "instrument_fallback_history (reset_for_flow c i t s) = instrument_fallback_history s"
  "attempt_history (reset_for_flow c i t s) = attempt_history s"
  by (simp_all add: reset_for_flow_def Let_def clear_dispatch_block_def)

lemma reset_for_retry_simps [simp]:
  "sheet_num (reset_for_retry s) = sheet_num s"
  "status (reset_for_retry s) = PENDING"
  "dispatch_epoch (reset_for_retry s) = dispatch_epoch s"
  "total_cost_usd (reset_for_retry s) = total_cost_usd s"
  "normal_attempts (reset_for_retry s) = 0"
  "completion_attempts (reset_for_retry s) = 0"
  "healing_attempts (reset_for_retry s) = 0"
  "current_instrument_index (reset_for_retry s) = 0"
  "instrument_fallback_history (reset_for_retry s) = []"
  by (simp_all add: reset_for_retry_def Let_def clear_dispatch_block_def)

subsection \<open>Walking the instrument chain\<close>

text \<open>The instruments a sheet moves through when it falls back again and again.\<close>

function walk_chain :: "string \<Rightarrow> rat \<Rightarrow> sheet \<Rightarrow> string list" where
  "walk_chain r t s =
     (case advance_fallback r t s of
        (None, _) \<Rightarrow> []
      | (Some i, s') \<Rightarrow> i # walk_chain r t s')"
  by pat_completeness auto
termination
  by (relation "measure (\<lambda>(r, t, s). length (fallback_chain s) - current_instrument_index s)")
    (auto simp: advance_fallback_def has_fallback_available_def Let_def push_fallback_record_def
       split: if_splits)

declare walk_chain.simps [simp del]

lemma walk_chain_drop:
  "walk_chain r t s = drop (current_instrument_index s) (fallback_chain s)"
proof (induction r t s rule: walk_chain.induct)
  case (1 r t s)
  show ?case
  proof (cases "has_fallback_available s")
    case False
    then show ?thesis
      by (subst walk_chain.simps) (simp add: advance_fallback_def has_fallback_available_def)
  next
    case True
    let ?i = "fallback_chain s ! current_instrument_index s"
    let ?s = "snd (advance_fallback r t s)"
    have step: "advance_fallback r t s = (Some ?i, ?s)"
      using advance_fallback_simps(1) [OF True] by (metis prod.collapse)
    have ih: "walk_chain r t ?s = drop (Suc (current_instrument_index s)) (fallback_chain s)"
      using "1.IH" [of "Some ?i" ?s ?i] step advance_fallback_simps(3) [OF True]
      by (metis advance_fallback_frame(8))
    have "walk_chain r t s = ?i # walk_chain r t ?s"
      by (subst walk_chain.simps, subst step) simp
    with ih True show ?thesis
      by (simp add: has_fallback_available_def Cons_nth_drop_Suc)
  qed
qed

subsection \<open>Properties of a sheet's state\<close>

text \<open>
  Recording an attempt charges exactly one normal attempt, and only when the report is a
  failure that is not a rate limit; it adds the attempt's cost and appends the report, keeps
  at most fifty history entries, and touches neither the status nor the place in the
  instrument chain.
\<close>

theorem record_attempt_accounts:
  "normal_attempts (record_attempt r t s) =
     normal_attempts s + (if \<not> ar_rate_limited r \<and> \<not> ar_execution_success r then 1 else 0)
   \<and> total_cost_usd (record_attempt r t s) = total_cost_usd s + ar_cost_usd r
   \<and> attempt_results (record_attempt r t s) = attempt_results s @ [r]
   \<and> length (attempt_history (record_attempt r t s)) \<le> MAX_ATTEMPT_HISTORY
   \<and> same_schedule s (record_attempt r t s)"
  by (simp add: record_attempt_budget record_attempt_schedule)

text \<open>
  Falling back again and again walks through exactly the instruments of the chain that
  the sheet has not used yet, in order, and then stops: the chain cannot loop, and each
  move opens fresh retry and completion budgets.
\<close>

theorem fallback_walk_terminates:
  "walk_chain r t s = drop (current_instrument_index s) (fallback_chain s)
   \<and> (has_fallback_available s \<longrightarrow>
        normal_attempts (snd (advance_fallback r t s)) = 0
        \<and> completion_attempts (snd (advance_fallback r t s)) = 0
        \<and> length (walk_chain r t (snd (advance_fallback r t s))) < length (walk_chain r t s))
   \<and> (\<not> has_fallback_available s \<longrightarrow> advance_fallback r t s = (None, s))"
  using advance_fallback_simps [of s r t]
  by (auto simp: walk_chain_drop has_fallback_available_def advance_fallback_unavailable)

lemma fallback_walk_terminates_witness:
  "walk_chain ''rate_limit'' 0 ((new_sheet 1)\<lparr>fallback_chain := [''b'', ''c'']\<rparr>) = [''b'', ''c'']
   \<and> has_fallback_available ((new_sheet 1)\<lparr>fallback_chain := [''b'', ''c'']\<rparr>)
   \<and> normal_attempts (snd (advance_fallback ''rate_limit'' 0
        ((new_sheet 1)\<lparr>fallback_chain := [''b'', ''c'']\<rparr>))) = 0"
  using fallback_walk_terminates [of "''rate_limit''" 0 "(new_sheet 1)\<lparr>fallback_chain := [''b'', ''c'']\<rparr>"]
  by (simp add: new_sheet_def has_fallback_available_def)

text \<open>
  A flow reset (loop iteration or goto) starts a new epoch with every budget reset and
  the sheet dispatchable on its primary instrument, while the money and time already spent
  stay on the books and the archive of earlier passes stays within ten entries.
\<close>

theorem flow_reset_starts_new_epoch:
  "dispatch_epoch (reset_for_flow c i t s) = dispatch_epoch s + 1
   \<and> dispatchable (status (reset_for_flow c i t s))
   \<and> can_retry (reset_for_flow c i t s) = (0 < max_retries s)
   \<and> total_cost_usd (reset_for_flow c i t s) = total_cost_usd s
   \<and> total_duration_seconds (reset_for_flow c i t s) = total_duration_seconds s
   \<and> length (flow_history (reset_for_flow c i t s)) \<le> 10
   \<and> last (flow_history (reset_for_flow c i t s)) = flow_record c i t s
   \<and> instrument_name (reset_for_flow c i t s) =
       (case primary_identity s of None \<Rightarrow> instrument_name s | Some p \<Rightarrow> Some (id_name p))
   \<and> walk_chain r t (reset_for_flow c i t s) = fallback_chain s
   \<and> dispatch_blocked_reason (reset_for_flow c i t s) = None"
proof -
  have "max_retries (reset_for_flow c i t s) = max_retries s"
    "fallback_chain (reset_for_flow c i t s) = fallback_chain s"
    "instrument_name (reset_for_flow c i t s) =
       (case primary_identity s of None \<Rightarrow> instrument_name s | Some p \<Rightarrow> Some (id_name p))"
    "last (flow_history (reset_for_flow c i t s)) = flow_record c i t s"
    "dispatch_blocked_reason (reset_for_flow c i t s) = None"
    by (simp_all add: reset_for_flow_def Let_def clear_dispatch_block_def last_n_def
        restore_primary_identity_def split: option.split)
  then show ?thesis
    by (simp add: dispatchable_def can_retry_def walk_chain_drop)
qed

end
