(* ===== verification/Instrument.thy ===== *)
theory Instrument
  imports Values
begin

section \<open>Instrument health: rate limit and circuit breaker\<close>

text \<open>
  \<open>InstrumentState\<close> of \<open>daemon/baton/state.py\<close> with its circuit breaker (closed, open,
  half-open), its serialisation, and the recovery backoff that \<open>BatonCore\<close> computes for an
  open breaker. The breaker's contract is the locale \<open>breaker\<close>, proved to hold of
  \<open>record_success\<close>, \<open>record_failure\<close> and the recovery probe.
\<close>

datatype cb_state = CLOSED | OPEN | HALF_OPEN

record instrument =
  inst_name :: string
  max_concurrent :: int
  running_count :: int
  last_dispatch_at :: rat
  rate_limited :: bool
  rate_limit_expires_at :: "rat option"
  circuit_breaker :: cb_state
  consecutive_failures :: int
  circuit_breaker_threshold :: int
  circuit_breaker_recovery_at :: "rat option"

text \<open>A fresh instrument, with the dataclass defaults.\<close>

definition new_instrument :: "string \<Rightarrow> int \<Rightarrow> instrument" where
  "new_instrument n k =
     \<lparr>inst_name = n, max_concurrent = k, running_count = 0, last_dispatch_at = 0,
      rate_limited = False, rate_limit_expires_at = None, circuit_breaker = CLOSED,
      consecutive_failures = 0, circuit_breaker_threshold = 5,
      circuit_breaker_recovery_at = None\<rparr>"

definition is_available :: "instrument \<Rightarrow> bool" where
  "is_available i = (if rate_limited i then False else circuit_breaker i \<noteq> OPEN)"

definition at_capacity :: "instrument \<Rightarrow> bool" where
  "at_capacity i \<longleftrightarrow> running_count i \<ge> max_concurrent i"

definition record_success :: "instrument \<Rightarrow> instrument" where
  "record_success i =
     (let i1 = i\<lparr>consecutive_failures := 0\<rparr>
      in if circuit_breaker i1 = HALF_OPEN then i1\<lparr>circuit_breaker := CLOSED\<rparr> else i1)"

definition record_failure :: "instrument \<Rightarrow> instrument" where
  "record_failure i =
     (let i1 = i\<lparr>consecutive_failures := consecutive_failures i + 1\<rparr>
      in if circuit_breaker i1 = HALF_OPEN then i1\<lparr>circuit_breaker := OPEN\<rparr>
         else if consecutive_failures i1 \<ge> circuit_breaker_threshold i1
              then i1\<lparr>circuit_breaker := OPEN\<rparr>
         else i1)"

text \<open>The recovery timer's effect on an open breaker (\<open>_handle_circuit_breaker_recovery\<close>).\<close>

definition probe :: "instrument \<Rightarrow> instrument" where
  "probe i = (if circuit_breaker i \<noteq> OPEN then i
     else i\<lparr>circuit_breaker := HALF_OPEN, circuit_breaker_recovery_at := None\<rparr>)"

subsection \<open>Recovery backoff\<close>

text \<open>
  \<open>min(30.0 * (2 ** excess), 300.0)\<close>. The power is an unbounded integer that is converted
  to a float before the product, and that conversion raises beyond the float range.
\<close>

definition recovery_delay :: "instrument \<Rightarrow> py_exn + rat" where
  "recovery_delay i =
     (let excess = nat (max 0 (consecutive_failures i - circuit_breaker_threshold i))
      in if float_overflows (2 ^ excess) then Inl OverflowError
         else Inr (min (30 * 2 ^ excess) 300))"

lemma recovery_delay_ok:
  assumes "consecutive_failures i < circuit_breaker_threshold i + 1024"
  shows "\<exists>d. recovery_delay i = Inr d \<and> 30 \<le> d \<and> d \<le> 300"
proof -
  let ?e = "nat (max 0 (consecutive_failures i - circuit_breaker_threshold i))"
  have e: "?e < 1024" using assms by auto
  then have "\<not> float_overflows (2 ^ ?e)" by (simp add: float_overflows_pow2)
  moreover have "(1::rat) \<le> 2 ^ ?e" by simp
  ultimately show ?thesis by (simp add: recovery_delay_def Let_def)
qed

lemma recovery_delay_overflow:
  "circuit_breaker_threshold i + 1024 \<le> consecutive_failures i \<Longrightarrow>
   recovery_delay i = Inl OverflowError"
  by (simp add: recovery_delay_def Let_def float_overflows_pow2 le_nat_iff)

subsection \<open>The breaker's contract\<close>

locale breaker =
  fixes state :: "'s \<Rightarrow> cb_state"
    and fails :: "'s \<Rightarrow> int"
    and limit :: "'s \<Rightarrow> int"
    and success :: "'s \<Rightarrow> 's"
    and failure :: "'s \<Rightarrow> 's"
    and try_again :: "'s \<Rightarrow> 's"
  assumes success_state: "state (success s) = (if state s = HALF_OPEN then CLOSED else state s)"
    and success_fails: "fails (success s) = 0"
    and success_limit: "limit (success s) = limit s"
    and failure_state: "state (failure s) =
      (if state s = HALF_OPEN \<or> limit s \<le> fails s + 1 then OPEN else state s)"
    and failure_fails: "fails (failure s) = fails s + 1"
    and failure_limit: "limit (failure s) = limit s"
    and try_state: "state (try_again s) = (if state s = OPEN then HALF_OPEN else state s)"
    and try_fails: "fails (try_again s) = fails s"
    and try_limit: "limit (try_again s) = limit s"
begin

lemma failures_count: "fails ((failure ^^ n) s) = fails s + int n"
  by (induction n) (simp_all add: failure_fails)

lemma failures_limit: "limit ((failure ^^ n) s) = limit s"
  by (induction n) (simp_all add: failure_limit)

lemma stays_closed:
  "state s = CLOSED \<Longrightarrow> fails s + int n < limit s \<Longrightarrow> state ((failure ^^ n) s) = CLOSED"
  by (induction n) (simp_all add: failure_state failures_count failures_limit)

lemma trips:
  assumes "n \<noteq> 0" and "limit s \<le> fails s + int n"
  shows "state ((failure ^^ n) s) = OPEN"
  using assms
  by (cases n) (simp_all add: failure_state failures_count failures_limit add.commute add.left_commute)

lemma open_stays_open: "state s = OPEN \<Longrightarrow> state (failure s) = OPEN"
  by (simp add: failure_state)

lemma probe_recovers:
  "state s = OPEN \<Longrightarrow> state (success (try_again s)) = CLOSED \<and> fails (success (try_again s)) = 0"
  by (simp add: success_state success_fails try_state)

lemma probe_fails: "state s = OPEN \<Longrightarrow> state (failure (try_again s)) = OPEN"
  by (simp add: failure_state try_state)

text \<open>Only the recovery probe and a success after it lead out of the open state.\<close>

lemma success_keeps_open: "state s = OPEN \<Longrightarrow> state (success s) = OPEN"
  by (simp add: success_state)

end

interpretation inst_breaker: breaker circuit_breaker consecutive_failures
  circuit_breaker_threshold record_success record_failure probe
  by unfold_locales (simp_all add: record_success_def record_failure_def probe_def Let_def)

lemma record_success_frame [simp]:
  "inst_name (record_success i) = inst_name i"
  "max_concurrent (record_success i) = max_concurrent i"
  "rate_limited (record_success i) = rate_limited i"
  "circuit_breaker_threshold (record_success i) = circuit_breaker_threshold i"
  by (simp_all add: record_success_def Let_def)

lemma record_failure_frame [simp]:
  "inst_name (record_failure i) = inst_name i"
  "max_concurrent (record_failure i) = max_concurrent i"
  "rate_limited (record_failure i) = rate_limited i"
  "consecutive_failures (record_failure i) = consecutive_failures i + 1"
  "circuit_breaker_threshold (record_failure i) = circuit_breaker_threshold i"
  by (simp_all add: record_failure_def Let_def)

lemma probe_frame [simp]:
  "inst_name (probe i) = inst_name i"
  "max_concurrent (probe i) = max_concurrent i"
  "rate_limited (probe i) = rate_limited i"
  "consecutive_failures (probe i) = consecutive_failures i"
  "circuit_breaker_threshold (probe i) = circuit_breaker_threshold i"
  by (simp_all add: probe_def)

subsection \<open>Serialisation\<close>

text \<open>
  The persisted dictionary, one optional field per key (None: the key is absent, or null
  where null is a legal value).
\<close>

record inst_data =
  d_name :: "string option"
  d_max_concurrent :: "int option"
  d_rate_limited :: "bool option"
  d_rate_limit_expires_at :: "rat option"
  d_circuit_breaker :: "string option"
  d_consecutive_failures :: "int option"
  d_circuit_breaker_threshold :: "int option"
  d_circuit_breaker_recovery_at :: "rat option"

fun cb_value :: "cb_state \<Rightarrow> string" where
  "cb_value CLOSED = ''closed''"
| "cb_value OPEN = ''open''"
| "cb_value HALF_OPEN = ''half_open''"

definition cb_of_value :: "string \<Rightarrow> py_exn + cb_state" where
  "cb_of_value v =
     (if v = ''closed'' then Inr CLOSED else if v = ''open'' then Inr OPEN
      else if v = ''half_open'' then Inr HALF_OPEN else Inl ValueError)"

definition to_dict :: "instrument \<Rightarrow> inst_data" where
  "to_dict i =
     \<lparr>d_name = Some (inst_name i), d_max_concurrent = Some (max_concurrent i),
      d_rate_limited = Some (rate_limited i),
      d_rate_limit_expires_at = rate_limit_expires_at i,
      d_circuit_breaker = Some (cb_value (circuit_breaker i)),
      d_consecutive_failures = Some (consecutive_failures i),
      d_circuit_breaker_threshold = Some (circuit_breaker_threshold i),
      d_circuit_breaker_recovery_at = circuit_breaker_recovery_at i\<rparr>"

definition opt_or :: "'a option \<Rightarrow> 'a \<Rightarrow> 'a" where
  "opt_or x d = (case x of None \<Rightarrow> d | Some v \<Rightarrow> v)"

definition from_dict :: "inst_data \<Rightarrow> py_exn + instrument" where
  "from_dict d =
     (case d_name d of
        None \<Rightarrow> Inl KeyError
      | Some n \<Rightarrow>
          (case cb_of_value (opt_or (d_circuit_breaker d) ''closed'') of
             Inl e \<Rightarrow> Inl e
           | Inr cb \<Rightarrow>
               Inr ((new_instrument n (opt_or (d_max_concurrent d) 4))
                     \<lparr>rate_limited := opt_or (d_rate_limited d) False,
                      rate_limit_expires_at := d_rate_limit_expires_at d,
                      circuit_breaker := cb,
                      consecutive_failures := opt_or (d_consecutive_failures d) 0,
                      circuit_breaker_threshold := opt_or (d_circuit_breaker_threshold d) 5,
                      circuit_breaker_recovery_at := d_circuit_breaker_recovery_at d\<rparr>)))"

lemma cb_of_value_value [simp]: "cb_of_value (cb_value c) = Inr c"
  by (cases c) (simp_all add: cb_of_value_def)

lemma from_dict_to_dict:
  "from_dict (to_dict i) = Inr (i\<lparr>running_count := 0, last_dispatch_at := 0\<rparr>)"
  by (simp add: from_dict_def to_dict_def opt_or_def new_instrument_def)

subsection \<open>Properties of the breaker\<close>

text \<open>
  A closed breaker opens at exactly the failure that brings the run of consecutive
  failures up to its threshold; then nothing but the recovery probe leads out of the open
  state, a success after the probe closes it with a clean count, and a failure of the
  probe opens it again.
\<close>

theorem breaker_trips_and_recovers:
  assumes "circuit_breaker i = CLOSED" and "consecutive_failures i < circuit_breaker_threshold i"
  shows "(circuit_breaker ((record_failure ^^ n) i) = OPEN \<longleftrightarrow>
       circuit_breaker_threshold i \<le> consecutive_failures i + int n)
    \<and> (circuit_breaker j = OPEN \<longrightarrow>
         \<not> is_available j \<and> circuit_breaker (record_success j) = OPEN
         \<and> circuit_breaker (record_failure j) = OPEN
         \<and> circuit_breaker (record_success (probe j)) = CLOSED
         \<and> consecutive_failures (record_success (probe j)) = 0
         \<and> circuit_breaker (record_failure (probe j)) = OPEN)"
proof -
  have "circuit_breaker ((record_failure ^^ n) i) = OPEN \<longleftrightarrow>
      circuit_breaker_threshold i \<le> consecutive_failures i + int n"
  proof (cases "circuit_breaker_threshold i \<le> consecutive_failures i + int n")
    case True
    with assms(2) have "n \<noteq> 0" by auto
    with True show ?thesis by (simp add: inst_breaker.trips)
  next
    case False
    with assms(1) show ?thesis by (simp add: inst_breaker.stays_closed)
  qed
  then show ?thesis
    by (simp add: is_available_def inst_breaker.success_keeps_open inst_breaker.open_stays_open
        inst_breaker.probe_recovers inst_breaker.probe_fails)
qed

lemma breaker_trips_and_recovers_witness:
  "circuit_breaker ((record_failure ^^ 5) (new_instrument ''claude'' 4)) = OPEN
   \<and> circuit_breaker (record_success (probe ((record_failure ^^ 5) (new_instrument ''claude'' 4)))) = CLOSED"
  using breaker_trips_and_recovers [of "new_instrument ''claude'' 4" 5
      "(record_failure ^^ 5) (new_instrument ''claude'' 4)"]
  by (simp add: new_instrument_def)

text \<open>
  The recovery delay of an open breaker lies between 30 and 300 seconds, and doubles with
  every failure beyond the threshold until the cap, as long as fewer than 1024 failures lie
  beyond it; from there on computing it raises.
\<close>

theorem recovery_delay_bounded:
  "case recovery_delay i of
     Inr d \<Rightarrow> consecutive_failures i < circuit_breaker_threshold i + 1024 \<and> 30 \<le> d \<and> d \<le> 300
       \<and> d = min (30 * 2 ^ nat (consecutive_failures i - circuit_breaker_threshold i)) 300
   | Inl e \<Rightarrow> e = OverflowError \<and> circuit_breaker_threshold i + 1024 \<le> consecutive_failures i"
proof (cases "consecutive_failures i < circuit_breaker_threshold i + 1024")
  case True
  then obtain d where d: "recovery_delay i = Inr d" "30 \<le> d" "d \<le> 300"
    using recovery_delay_ok by blast
  have "nat (max 0 (consecutive_failures i - circuit_breaker_threshold i)) =
      nat (consecutive_failures i - circuit_breaker_threshold i)"
    by simp
  with d True show ?thesis
    by (simp add: recovery_delay_def Let_def split: if_splits)
next
  case False
  then show ?thesis by (simp add: recovery_delay_overflow)
qed

text \<open>
  C40. Reading back a persisted instrument restores everything but the running count and the
  last dispatch time, which start afresh; a record without a name or with an unknown
  breaker state is refused.
\<close>

theorem instrument_roundtrip:
  "from_dict (to_dict i) = Inr (i\<lparr>running_count := 0, last_dispatch_at := 0\<rparr>)
   \<and> from_dict ((to_dict i)\<lparr>d_name := None\<rparr>) = Inl KeyError
   \<and> from_dict ((to_dict i)\<lparr>d_circuit_breaker := Some ''ajar''\<rparr>) = Inl ValueError"
  by (simp add: from_dict_to_dict)
    (simp add: from_dict_def to_dict_def opt_or_def cb_of_value_def)

end
