(* ===== verification/Events.thy ===== *)
theory Events
  imports Values
begin

section \<open>Baton events\<close>

text \<open>
  The event types of \<open>daemon/baton/events.py\<close> that reach the baton's inbox, with the fields
  its handlers read, and the observer events that the flow engine emits.
\<close>

text \<open>
  \<open>SheetSpan\<close> of \<open>core/config/flow.py\<close>: \<open>"N"\<close> or \<open>"N-M"\<close>, where the validator
  \<open>canonical_span\<close> admits only \<open>1 <= N <= M\<close>; here the first sheet and the number of sheets
  after it.
\<close>

type_synonym span = "int \<times> nat"

definition span_bounds :: "span \<Rightarrow> int \<times> int" where
  "span_bounds sp = (fst sp, fst sp + int (snd sp))"

definition span_range :: "span \<Rightarrow> int list" where
  "span_range sp = [fst (span_bounds sp) .. snd (span_bounds sp)]"

lemma span_range_ne [simp]: "span_range sp \<noteq> []"
  by (simp add: span_range_def span_bounds_def)

lemma set_span_range [simp]:
  "n \<in> set (span_range sp) \<longleftrightarrow> fst (span_bounds sp) \<le> n \<and> n \<le> snd (span_bounds sp)"
  by (simp add: span_range_def)

record file_facts =
  ff_exists :: bool
  ff_modified :: bool
  ff_text :: "string option"

subsection \<open>Trigger actions\<close>

text \<open>
  \<open>TriggerAction\<close> of \<open>core/config/flow.py\<close>: its validator admits exactly one field, so a
  valid action is one of these cases (\<open>pause\<close> and \<open>continue\<close> only as true). The run and
  concert payloads stay opaque.
\<close>

datatype trigger_action =
    Goto int
  | Pause
  | Escalate "string option"        \<comment> \<open>None: \<open>escalate: true\<close>\<close>
  | Concert json
  | RunCommand json
  | SkipSpan span
  | Continue

datatype outcome = Success | Fail

datatype direction = Forward | Backward | Same

datatype flow_event =
    SheetTriggerFired string int outcome "trigger_action list" int int "int option"
  | GotoRequested string int int direction "int list" "int list" "int option"
  | LoopIterating string span string int rat bool "int option"
  | LoopCompleted string span string int string "int option"

datatype event =
    SheetAttemptResult attempt_result
  | SheetSkipped string int msg "int option" "int option"
      \<comment> \<open>job, sheet, reason, generation, epoch\<close>
  | SheetDispatched string int string "int option" rat
  | RateLimitHit string rat string int "string option"
      \<comment> \<open>instrument, wait, job, sheet, model\<close>
  | RateLimitExpired string
  | RetryDue string int "int option" "int option"
  | StaleCheck string int "int option" "int option"
  | FermataCheck string int "int option"
  | CronTick string string "rat option"
  | JobTimeout string "int option"
  | PacingComplete string "int option"
  | EscalationNeeded string int string "int option"
  | EscalationResolved string int string "int option"
  | EscalationTimeout string int "int option"
  | PauseJob string "int option"
  | ResumeJob string "int option"
  | CancelJob string "int option"
  | ConfigReloaded string "int option"
  | ShutdownRequested bool
  | ProcessExited string int int "int option" "int option"
      \<comment> \<open>job, sheet, pid, exit code, generation\<close>
  | ResourceAnomaly string string rat
  | InstrumentFallback string int string string string
  | DispatchRetry "string option" "int option"
      \<comment> \<open>stagger job, stagger generation\<close>
  | CircuitBreakerRecovery string
  | LoopFactsReady string span int "(string, file_facts) dict" "string option" "int option"
  | FlowRunFinished string int int "int option" bool "string option" "string option"
      "int option" int "int option"
      \<comment> \<open>job, chain, cursor, exit code, timed out, log path, error, supervisor, orphans, generation\<close>
  | FlowConcertSubmitted string int int bool "string option" "string option" "int option"
  | FlowEvent flow_event

text \<open>\<open>hasattr(event, "event_generation")\<close>: the generation field of the classes that have one.\<close>

fun flow_event_generation :: "flow_event \<Rightarrow> int option" where
  "flow_event_generation (SheetTriggerFired _ _ _ _ _ _ g) = g"
| "flow_event_generation (GotoRequested _ _ _ _ _ _ g) = g"
| "flow_event_generation (LoopIterating _ _ _ _ _ _ g) = g"
| "flow_event_generation (LoopCompleted _ _ _ _ _ g) = g"

fun flow_event_job :: "flow_event \<Rightarrow> string" where
  "flow_event_job (SheetTriggerFired j _ _ _ _ _ _) = j"
| "flow_event_job (GotoRequested j _ _ _ _ _ _) = j"
| "flow_event_job (LoopIterating j _ _ _ _ _ _) = j"
| "flow_event_job (LoopCompleted j _ _ _ _ _) = j"

fun event_generation :: "event \<Rightarrow> int option option" where
  "event_generation (SheetAttemptResult r) = Some (ar_event_generation r)"
| "event_generation (SheetSkipped _ _ _ g _) = Some g"
| "event_generation (SheetDispatched _ _ _ g _) = Some g"
| "event_generation (RetryDue _ _ g _) = Some g"
| "event_generation (StaleCheck _ _ g _) = Some g"
| "event_generation (FermataCheck _ _ g) = Some g"
| "event_generation (JobTimeout _ g) = Some g"
| "event_generation (PacingComplete _ g) = Some g"
| "event_generation (EscalationNeeded _ _ _ g) = Some g"
| "event_generation (EscalationResolved _ _ _ g) = Some g"
| "event_generation (EscalationTimeout _ _ g) = Some g"
| "event_generation (PauseJob _ g) = Some g"
| "event_generation (ResumeJob _ g) = Some g"
| "event_generation (CancelJob _ g) = Some g"
| "event_generation (ConfigReloaded _ g) = Some g"
| "event_generation (ProcessExited _ _ _ _ g) = Some g"
| "event_generation (LoopFactsReady _ _ _ _ _ g) = Some g"
| "event_generation (FlowRunFinished _ _ _ _ _ _ _ _ _ g) = Some g"
| "event_generation (FlowConcertSubmitted _ _ _ _ _ _ g) = Some g"
| "event_generation (FlowEvent e) = Some (flow_event_generation e)"
| "event_generation _ = None"

text \<open>\<open>getattr(event, "job_id", None)\<close>.\<close>

fun event_job :: "event \<Rightarrow> string option" where
  "event_job (SheetAttemptResult r) = Some (ar_job_id r)"
| "event_job (SheetSkipped j _ _ _ _) = Some j"
| "event_job (SheetDispatched j _ _ _ _) = Some j"
| "event_job (RateLimitHit _ _ j _ _) = Some j"
| "event_job (RetryDue j _ _ _) = Some j"
| "event_job (StaleCheck j _ _ _) = Some j"
| "event_job (FermataCheck j _ _) = Some j"
| "event_job (JobTimeout j _) = Some j"
| "event_job (PacingComplete j _) = Some j"
| "event_job (EscalationNeeded j _ _ _) = Some j"
| "event_job (EscalationResolved j _ _ _) = Some j"
| "event_job (EscalationTimeout j _ _) = Some j"
| "event_job (PauseJob j _) = Some j"
| "event_job (ResumeJob j _) = Some j"
| "event_job (CancelJob j _) = Some j"
| "event_job (ConfigReloaded j _) = Some j"
| "event_job (ProcessExited j _ _ _ _) = Some j"
| "event_job (InstrumentFallback j _ _ _ _) = Some j"
| "event_job (LoopFactsReady j _ _ _ _ _) = Some j"
| "event_job (FlowRunFinished j _ _ _ _ _ _ _ _ _) = Some j"
| "event_job (FlowConcertSubmitted j _ _ _ _ _ _) = Some j"
| "event_job (FlowEvent e) = Some (flow_event_job e)"
| "event_job _ = None"

end
