(* ===== verification/Timer.thy ===== *)
theory Timer
  imports Events "HOL-Library.Multiset" "HOL-Library.Product_Lexorder"
begin

section \<open>The timer wheel\<close>

text \<open>
  \<open>TimerWheel\<close> of \<open>daemon/baton/timer.py\<close>: a priority queue of future events with lazily
  skipped tombstones. The \<open>heapq\<close> list is its elements in pop order, that is, sorted by
  \<open>(fire_at, seq)\<close>; sequence numbers are unique, so every heap order pops the same. The
  priority-queue contract the wheel needs is the locale \<open>pop_queue\<close>. The clock is an
  argument, and one iteration of the drain task's loop is \<open>timer_step\<close>. The read-only export
  \<open>snapshot\<close>, which lists the heap's array in its raw order, is not modelled.
\<close>

record handle =
  h_fire_at :: rat
  h_event :: event
  h_seq :: int

record entry =
  e_fire_at :: rat
  e_seq :: int
  e_handle :: handle
  e_cancelled :: bool

record wheel =
  heap :: "entry list"
  cancelled :: "int list"
  wake :: bool
  wheel_shutting_down :: bool
  seq_counter :: int

definition new_wheel :: wheel where
  "new_wheel = \<lparr>heap = [], cancelled = [], wake = False, wheel_shutting_down = False,
                seq_counter = 0\<rparr>"

definition entry_key :: "entry \<Rightarrow> rat \<times> int" where
  "entry_key e = (e_fire_at e, e_seq e)"

subsection \<open>The priority queue\<close>

definition heappush :: "entry \<Rightarrow> entry list \<Rightarrow> entry list" where
  "heappush e h = insort_key entry_key e h"

fun heappop :: "entry list \<Rightarrow> (entry \<times> entry list) option" where
  "heappop [] = None"
| "heappop (e # h) = Some (e, h)"

locale pop_queue =
  fixes push :: "'e \<Rightarrow> 'q \<Rightarrow> 'q"
    and pop :: "'q \<Rightarrow> ('e \<times> 'q) option"
    and elems :: "'q \<Rightarrow> 'e multiset"
    and inv :: "'q \<Rightarrow> bool"
    and key :: "'e \<Rightarrow> 'k::linorder"
  assumes push_elems: "inv q \<Longrightarrow> elems (push x q) = add_mset x (elems q)"
    and push_inv: "inv q \<Longrightarrow> inv (push x q)"
    and pop_None: "inv q \<Longrightarrow> pop q = None \<longleftrightarrow> elems q = {#}"
    and pop_elems: "inv q \<Longrightarrow> pop q = Some (x, q') \<Longrightarrow> elems q = add_mset x (elems q')"
    and pop_min: "inv q \<Longrightarrow> pop q = Some (x, q') \<Longrightarrow> y \<in># elems q' \<Longrightarrow> key x \<le> key y"
    and pop_inv: "inv q \<Longrightarrow> pop q = Some (x, q') \<Longrightarrow> inv q'"
begin

fun pops :: "'q \<Rightarrow> 'e list \<Rightarrow> 'q option" where
  "pops q [] = Some q"
| "pops q (x # xs) =
     (case pop q of None \<Rightarrow> None | Some (y, q') \<Rightarrow> if y = x then pops q' xs else None)"

lemma pops_elems: "inv q \<Longrightarrow> pops q xs = Some q' \<Longrightarrow> elems q = mset xs + elems q' \<and> inv q'"
proof (induction xs arbitrary: q)
  case Nil
  then show ?case by simp
next
  case (Cons x xs)
  then obtain q1 where p: "pop q = Some (x, q1)" and r: "pops q1 xs = Some q'"
    by (auto split: option.splits if_splits)
  from Cons.IH [OF pop_inv [OF Cons.prems(1) p] r] pop_elems [OF Cons.prems(1) p]
  show ?case by simp
qed

text \<open>Popping delivers in key order, and nothing left behind precedes what was popped.\<close>

lemma pops_sorted:
  "inv q \<Longrightarrow> pops q xs = Some q' \<Longrightarrow>
   sorted (map key xs) \<and> (\<forall>x \<in> set xs. \<forall>y \<in># elems q'. key x \<le> key y)"
proof (induction xs arbitrary: q)
  case Nil
  then show ?case by simp
next
  case (Cons x xs)
  then obtain q1 where p: "pop q = Some (x, q1)" and r: "pops q1 xs = Some q'"
    by (auto split: option.splits if_splits)
  have i1: "inv q1" by (rule pop_inv [OF Cons.prems(1) p])
  have el: "elems q1 = mset xs + elems q'" using pops_elems [OF i1 r] by simp
  have le: "\<And>y. y \<in># mset xs + elems q' \<Longrightarrow> key x \<le> key y"
    using pop_min [OF Cons.prems(1) p] el by simp
  from Cons.IH [OF i1 r] le show ?case by auto
qed

lemma pops_complete: "inv q \<Longrightarrow> \<exists>xs q'. pops q xs = Some q' \<and> elems q' = {#}"
proof (induction "size (elems q)" arbitrary: q)
  case 0
  then show ?case by (intro exI [of _ "[]"]) auto
next
  case (Suc n)
  then have "elems q \<noteq> {#}" by auto
  with Suc.prems obtain x q1 where p: "pop q = Some (x, q1)"
    by (metis pop_None option.exhaust surj_pair)
  have "size (elems q1) = n" using pop_elems [OF Suc.prems p] Suc.hyps(2) by simp
  then obtain xs q' where "pops q1 xs = Some q'" "elems q' = {#}"
    using Suc.hyps(1) pop_inv [OF Suc.prems p] by blast
  with p show ?case by (intro exI [of _ "x # xs"] exI [of _ q']) simp
qed

end

definition heap_sorted :: "entry list \<Rightarrow> bool" where
  "heap_sorted h \<longleftrightarrow> sorted (map entry_key h)"

interpretation wheel_heap: pop_queue heappush heappop mset heap_sorted entry_key
proof unfold_locales
  fix q x q' y
  assume "heap_sorted q" and p: "heappop q = Some (x, q')"
  then show "heap_sorted q'" and "mset q = add_mset x (mset q')"
    and "y \<in># mset q' \<Longrightarrow> entry_key x \<le> entry_key y"
    by (cases q; auto simp: heap_sorted_def)+
next
  fix q x assume "heap_sorted q"
  then show "mset (heappush x q) = add_mset x (mset q)" and "heap_sorted (heappush x q)"
    by (simp_all add: heappush_def heap_sorted_def sorted_insort_key)
next
  fix q show "heappop q = None \<longleftrightarrow> mset q = {#}" by (cases q) auto
qed

subsection \<open>Operations of the wheel\<close>

definition pending_count :: "wheel \<Rightarrow> nat" where
  "pending_count w = length (filter (\<lambda>e. h_seq (e_handle e) \<notin> set (cancelled w)) (heap w))"

definition schedule :: "rat \<Rightarrow> rat \<Rightarrow> event \<Rightarrow> wheel \<Rightarrow> handle \<times> wheel" where
  "schedule now delay_seconds ev w =
     (let delay = max 0 delay_seconds;
          fire = now + delay;
          seq = seq_counter w + 1;
          hnd = \<lparr>h_fire_at = fire, h_event = ev, h_seq = seq\<rparr>;
          en = \<lparr>e_fire_at = fire, e_seq = seq, e_handle = hnd, e_cancelled = False\<rparr>
      in (hnd, w\<lparr>seq_counter := seq, heap := heappush en (heap w), wake := True\<rparr>))"

fun cancel_first :: "int \<Rightarrow> entry list \<Rightarrow> (entry list) option" where
  "cancel_first k [] = None"
| "cancel_first k (e # es) =
     (if h_seq (e_handle e) = k \<and> \<not> e_cancelled e then Some (e\<lparr>e_cancelled := True\<rparr> # es)
      else map_option ((#) e) (cancel_first k es))"

definition cancel :: "handle \<Rightarrow> wheel \<Rightarrow> bool \<times> wheel" where
  "cancel hnd w =
     (if h_seq hnd \<in> set (cancelled w) then (False, w)
      else case cancel_first (h_seq hnd) (heap w) of
             None \<Rightarrow> (False, w)
           | Some h \<Rightarrow> (True, w\<lparr>heap := h, cancelled := h_seq hnd # cancelled w\<rparr>))"

datatype timer_action = WaitForTimer | Fired event | SleepFor rat

definition drop_cancelled :: "wheel \<Rightarrow> entry list" where
  "drop_cancelled w = dropWhile (\<lambda>e. h_seq (e_handle e) \<in> set (cancelled w)) (heap w)"

text \<open>One iteration of the drain loop: it skips tombstones, then waits, fires or sleeps.\<close>

definition timer_step :: "rat \<Rightarrow> wheel \<Rightarrow> timer_action \<times> wheel" where
  "timer_step now w =
     (case heappop (drop_cancelled w) of
        None \<Rightarrow> (WaitForTimer, w\<lparr>heap := [], wake := False\<rparr>)
      | Some (e, rest) \<Rightarrow>
          if e_fire_at e \<le> now
          then (Fired (h_event (e_handle e)),
                w\<lparr>heap := rest, cancelled := removeAll (h_seq (e_handle e)) (cancelled w)\<rparr>)
          else (SleepFor (e_fire_at e - now), w\<lparr>heap := e # rest, wake := False\<rparr>))"

lemma timer_step_fired:
  assumes "timer_step now w = (Fired ev, w')"
  shows "length (heap w') < length (heap w)"
proof -
  have "length (drop_cancelled w) \<le> length (heap w)"
    by (simp add: drop_cancelled_def length_dropWhile_le)
  with assms show ?thesis
    by (cases "drop_cancelled w") (auto simp: timer_step_def split: if_splits)
qed

text \<open>The loop up to its next wait or sleep: all timers due at \<open>now\<close>.\<close>

function fire_due :: "rat \<Rightarrow> wheel \<Rightarrow> event list \<times> wheel" where
  "fire_due now w =
     (case timer_step now w of
        (Fired ev, w') \<Rightarrow> (let (evs, w'') = fire_due now w' in (ev # evs, w''))
      | (_, w') \<Rightarrow> ([], w'))"
  by pat_completeness auto
termination
  by (relation "measure (\<lambda>(now, w). length (heap w))")
    (auto dest: timer_step_fired [OF sym])

declare fire_due.simps [simp del]

text \<open>\<open>shutdown\<close>: every pending timer goes to the inbox in firing order.\<close>

definition shutdown :: "wheel \<Rightarrow> event list \<times> wheel" where
  "shutdown w =
     (map (\<lambda>e. h_event (e_handle e))
        (filter (\<lambda>e. h_seq (e_handle e) \<notin> set (cancelled w)) (heap w)),
      w\<lparr>wheel_shutting_down := True, heap := []\<rparr>)"

subsection \<open>The wheel's invariant\<close>

text \<open>The pending timers: the heap without its tombstones.\<close>

definition pending :: "wheel \<Rightarrow> entry list" where
  "pending w = filter (\<lambda>e. h_seq (e_handle e) \<notin> set (cancelled w)) (heap w)"

definition entry_event :: "entry \<Rightarrow> event" where
  "entry_event e = h_event (e_handle e)"

definition wheel_inv :: "wheel \<Rightarrow> bool" where
  "wheel_inv w \<longleftrightarrow>
     heap_sorted (heap w) \<and> distinct (map e_seq (heap w)) \<and>
     (\<forall>e \<in> set (heap w). e_seq e \<le> seq_counter w \<and> h_seq (e_handle e) = e_seq e \<and>
        h_fire_at (e_handle e) = e_fire_at e \<and>
        (e_cancelled e \<longleftrightarrow> e_seq e \<in> set (cancelled w))) \<and>
     (\<forall>k \<in> set (cancelled w). k \<le> seq_counter w)"

lemma wheel_inv_new: "wheel_inv new_wheel"
  by (simp add: wheel_inv_def new_wheel_def heap_sorted_def)

lemma wheel_inv_fresh:
  assumes "wheel_inv w"
  shows "seq_counter w + 1 \<notin> e_seq ` set (heap w)" "seq_counter w + 1 \<notin> set (cancelled w)"
  using assms unfolding wheel_inv_def by fastforce+

lemma distinct_insort_seq:
  "distinct (map e_seq (insort_key entry_key e h)) \<longleftrightarrow>
     e_seq e \<notin> e_seq ` set h \<and> distinct (map e_seq h)"
  by (induction h) (auto simp: set_insort_key)

lemma wheel_inv_schedule:
  assumes "wheel_inv w" shows "wheel_inv (snd (schedule now d ev w))"
proof -
  let ?en = "\<lparr>e_fire_at = now + max 0 d, e_seq = seq_counter w + 1,
    e_handle = \<lparr>h_fire_at = now + max 0 d, h_event = ev, h_seq = seq_counter w + 1\<rparr>,
    e_cancelled = False\<rparr>"
  have bnds: "\<And>e. e \<in> set (heap w) \<Longrightarrow> e_seq e \<le> seq_counter w + 1"
    "\<And>k. k \<in> set (cancelled w) \<Longrightarrow> k \<le> seq_counter w + 1"
    using assms unfolding wheel_inv_def by fastforce+
  have "distinct (map e_seq (insort_key entry_key ?en (heap w)))"
    using assms wheel_inv_fresh [OF assms] by (simp add: distinct_insort_seq wheel_inv_def)
  with assms wheel_inv_fresh [OF assms] bnds show ?thesis
    by (simp add: schedule_def Let_def wheel_inv_def heappush_def heap_sorted_def
        sorted_insort_key set_insort_key)
qed

lemma cancel_first_Some:
  "cancel_first k es = Some es' \<Longrightarrow>
   map e_seq es' = map e_seq es \<and> map entry_key es' = map entry_key es \<and>
   map e_handle es' = map e_handle es \<and> map e_fire_at es' = map e_fire_at es \<and>
   (\<exists>e \<in> set es. h_seq (e_handle e) = k \<and> \<not> e_cancelled e)"
  by (induction k es arbitrary: es' rule: cancel_first.induct)
    (auto simp: entry_key_def split: if_splits)

lemma cancel_first_None:
  "cancel_first k es = None \<longleftrightarrow> (\<forall>e \<in> set es. h_seq (e_handle e) = k \<longrightarrow> e_cancelled e)"
  by (induction k es rule: cancel_first.induct) auto

text \<open>With unique sequence numbers, cancelling flags exactly the one entry of that number.\<close>

lemma cancel_first_map:
  assumes "distinct (map e_seq es)" and "\<forall>e \<in> set es. h_seq (e_handle e) = e_seq e"
    and "cancel_first k es = Some es'"
  shows "es' = map (\<lambda>e. if e_seq e = k then e\<lparr>e_cancelled := True\<rparr> else e) es"
  using assms
proof (induction es arbitrary: es')
  case Nil
  then show ?case by simp
next
  case (Cons e es)
  show ?case
  proof (cases "e_seq e = k")
    case True
    have "\<forall>x \<in> set es. e_seq x \<noteq> k"
      using True Cons.prems(1) by (simp add: image_iff) metis
    note ne = this
    then have "map (\<lambda>e. if e_seq e = k then e\<lparr>e_cancelled := True\<rparr> else e) es = es"
      by (intro map_idI) simp
    moreover have "\<not> e_cancelled e"
    proof
      assume "e_cancelled e"
      then obtain z where "cancel_first k es = Some z"
        using Cons.prems(3) True by (auto split: if_splits)
      from cancel_first_Some [OF this] Cons.prems(2) ne show False by auto
    qed
    ultimately show ?thesis using Cons.prems True by simp
  next
    case False
    then obtain z where z: "cancel_first k es = Some z" "es' = e # z"
      using Cons.prems by auto
    have "z = map (\<lambda>e. if e_seq e = k then e\<lparr>e_cancelled := True\<rparr> else e) es"
      using Cons.IH [OF _ _ z(1)] Cons.prems(1,2) by simp
    with z(2) False show ?thesis by simp
  qed
qed

lemma wheel_sane:
  assumes "wheel_inv w"
  shows "distinct (map e_seq (heap w))" "\<forall>e \<in> set (heap w). h_seq (e_handle e) = e_seq e"
    "\<forall>e \<in> set (heap w). e_cancelled e \<longleftrightarrow> e_seq e \<in> set (cancelled w)"
  using assms by (auto simp: wheel_inv_def)

text \<open>\<open>pending\<close> in terms of the entries' own numbers.\<close>

lemma pending_seq:
  assumes "wheel_inv w" shows "pending w = filter (\<lambda>e. e_seq e \<notin> set (cancelled w)) (heap w)"
  unfolding pending_def using wheel_sane(2) [OF assms] by (intro filter_cong) auto

text \<open>The two outcomes of \<open>cancel\<close>.\<close>

lemma cancel_cases:
  assumes inv: "wheel_inv w"
  obtains (miss) "cancel h w = (False, w)" "\<forall>e \<in> set (pending w). e_seq e \<noteq> h_seq h"
  | (hit) "cancel h w = (True, w\<lparr>heap := map (\<lambda>e. if e_seq e = h_seq h then e\<lparr>e_cancelled := True\<rparr> else e) (heap w),
              cancelled := h_seq h # cancelled w\<rparr>)"
      "\<exists>e \<in> set (pending w). e_seq e = h_seq h"
proof (cases "h_seq h \<in> set (cancelled w)")
  case True
  then show ?thesis by (intro miss) (auto simp: cancel_def pending_seq [OF inv])
next
  case False
  show ?thesis
  proof (cases "cancel_first (h_seq h) (heap w)")
    case None
    then have "\<forall>e \<in> set (heap w). e_seq e = h_seq h \<longrightarrow> e_cancelled e"
      using wheel_sane(2) [OF inv] by (simp add: cancel_first_None)
    then have "\<forall>e \<in> set (pending w). e_seq e \<noteq> h_seq h"
      using wheel_sane(3) [OF inv] by (auto simp: pending_seq [OF inv])
    with False None show ?thesis by (intro miss) (simp_all add: cancel_def)
  next
    case (Some es)
    have m: "es = map (\<lambda>e. if e_seq e = h_seq h then e\<lparr>e_cancelled := True\<rparr> else e) (heap w)"
      by (rule cancel_first_map [OF wheel_sane(1,2) [OF inv] Some])
    have "\<exists>e \<in> set (pending w). e_seq e = h_seq h"
      using cancel_first_Some [OF Some] wheel_sane(2,3) [OF inv] False
      by (auto simp: pending_seq [OF inv])
    with False Some m show ?thesis by (intro hit) (simp_all add: cancel_def)
  qed
qed

lemma wheel_inv_cancel:
  assumes inv: "wheel_inv w" shows "wheel_inv (snd (cancel h w))"
  using inv
proof (cases rule: cancel_cases [of w h])
  case miss
  then show ?thesis using inv by simp
next
  case hit
  let ?f = "\<lambda>e. if e_seq e = h_seq h then e\<lparr>e_cancelled := True\<rparr> else e"
  define hh where "hh = map ?f (heap w)"
  have "map entry_key hh = map entry_key (heap w)" "map e_seq hh = map e_seq (heap w)"
    by (auto simp: entry_key_def hh_def)
  moreover have "h_seq h \<le> seq_counter w"
    using hit(2) inv by (auto simp: pending_def wheel_inv_def)
  moreover have "\<forall>e \<in> set hh. e_seq e \<le> seq_counter w \<and>
      h_seq (e_handle e) = e_seq e \<and> h_fire_at (e_handle e) = e_fire_at e \<and>
      (e_cancelled e \<longleftrightarrow> e_seq e = h_seq h \<or> e_seq e \<in> set (cancelled w))"
    using inv by (auto simp: wheel_inv_def hh_def)
  ultimately show ?thesis
    using inv unfolding hit(1) hh_def [symmetric] by (simp add: wheel_inv_def heap_sorted_def)
qed

subsection \<open>What the operations do to the pending timers\<close>

lemma pending_schedule:
  assumes "wheel_inv w"
  shows "pending (snd (schedule now d ev w)) =
    insort_key entry_key
      \<lparr>e_fire_at = now + max 0 d, e_seq = seq_counter w + 1,
       e_handle = fst (schedule now d ev w), e_cancelled = False\<rparr> (pending w)"
proof -
  have "sorted (map entry_key (heap w))"
    using assms by (simp add: wheel_inv_def heap_sorted_def)
  with wheel_inv_fresh(2) [OF assms] show ?thesis
    by (simp add: pending_def schedule_def Let_def heappush_def filter_insort)
qed

lemma filter_map_cancel:
  "filter (\<lambda>e. e_seq e \<noteq> k \<and> e_seq e \<notin> C) (map (\<lambda>e. if e_seq e = k then e\<lparr>e_cancelled := True\<rparr> else e) xs) =
   filter (\<lambda>e. e_seq e \<noteq> k \<and> e_seq e \<notin> C) xs"
  by (induction xs) auto

lemma cancel_pending:
  assumes inv: "wheel_inv w"
  shows "pending (snd (cancel h w)) = filter (\<lambda>e. e_seq e \<noteq> h_seq h) (pending w)"
    and "fst (cancel h w) \<longleftrightarrow> (\<exists>e \<in> set (pending w). e_seq e = h_seq h)"
proof -
  show "pending (snd (cancel h w)) = filter (\<lambda>e. e_seq e \<noteq> h_seq h) (pending w)"
    using inv
  proof (cases rule: cancel_cases [of w h])
    case miss
    then show ?thesis by simp
  next
    case hit
    then show ?thesis
      using pending_seq [OF wheel_inv_cancel [OF inv, of h]] filter_map_cancel
      by (simp add: pending_seq [OF inv] conj_commute)
  qed
  show "fst (cancel h w) \<longleftrightarrow> (\<exists>e \<in> set (pending w). e_seq e = h_seq h)"
    using inv by (cases rule: cancel_cases [of w h]) auto
qed

lemma pending_count_pending: "pending_count w = length (pending w)"
  by (simp add: pending_count_def pending_def)

lemma shutdown_pending:
  "fst (shutdown w) = map entry_event (pending w)" "pending (snd (shutdown w)) = []"
  by (simp_all add: shutdown_def pending_def entry_event_def)

lemma filter_dropWhile: "filter (\<lambda>x. \<not> P x) (dropWhile P xs) = filter (\<lambda>x. \<not> P x) xs"
  by (induction xs) auto

lemma pending_drop_cancelled:
  "pending w = filter (\<lambda>e. h_seq (e_handle e) \<notin> set (cancelled w)) (drop_cancelled w)"
  unfolding pending_def drop_cancelled_def by (simp add: filter_dropWhile)

subsection \<open>What the drain task fires\<close>

lemma pending_Cons:
  assumes inv: "wheel_inv w" and d: "drop_cancelled w = e # rest"
  shows "pending w = e # filter (\<lambda>e. e_seq e \<notin> set (cancelled w)) rest"
    and "\<exists>pre. heap w = pre @ e # rest" and "h_seq (e_handle e) = e_seq e"
    and "e_seq e \<notin> set (cancelled w)"
proof -
  have suff: "\<exists>pre. heap w = pre @ e # rest"
    using takeWhile_dropWhile_id [of "\<lambda>e. h_seq (e_handle e) \<in> set (cancelled w)" "heap w"] d
    unfolding drop_cancelled_def by metis
  then show "\<exists>pre. heap w = pre @ e # rest" .
  have mem: "\<forall>x \<in> set (e # rest). h_seq (e_handle x) = e_seq x"
    using suff wheel_sane(2) [OF inv] by auto
  then show "h_seq (e_handle e) = e_seq e" by simp
  have head: "h_seq (e_handle e) \<notin> set (cancelled w)"
    using d unfolding drop_cancelled_def by (simp add: dropWhile_eq_Cons_conv)
  with mem show "e_seq e \<notin> set (cancelled w)" by simp
  have "filter (\<lambda>e. h_seq (e_handle e) \<notin> set (cancelled w)) rest =
      filter (\<lambda>e. e_seq e \<notin> set (cancelled w)) rest"
    using mem by (intro filter_cong) auto
  with head d show "pending w = e # filter (\<lambda>e. e_seq e \<notin> set (cancelled w)) rest"
    by (simp add: pending_drop_cancelled)
qed

lemma wheel_inv_suffix:
  assumes "wheel_inv w" and "heap w = pre @ es"
  shows "wheel_inv (w\<lparr>heap := es\<rparr>)" "wheel_inv (w\<lparr>heap := es, wake := b\<rparr>)"
  using assms by (simp_all add: wheel_inv_def heap_sorted_def sorted_append)

lemma wheel_inv_uncancel:
  assumes inv: "wheel_inv w" and h: "heap w = pre @ e # rest"
  shows "wheel_inv (w\<lparr>heap := rest, cancelled := removeAll (e_seq e) (cancelled w)\<rparr>)"
proof -
  have "\<forall>x \<in> set rest. e_seq x \<noteq> e_seq e"
    using wheel_sane(1) [OF inv] unfolding h by (simp add: image_iff) metis
  with inv show ?thesis unfolding wheel_inv_def h heap_sorted_def by (simp add: sorted_append)
qed

lemma timer_step_cases:
  assumes inv: "wheel_inv w"
  obtains (wait) w' where "pending w = []" "timer_step now w = (WaitForTimer, w')"
      "pending w' = []" "wheel_inv w'"
  | (fire) e es w' where "pending w = e # es" "e_fire_at e \<le> now"
      "timer_step now w = (Fired (entry_event e), w')" "pending w' = es" "wheel_inv w'"
  | (sleep) e es w' where "pending w = e # es" "now < e_fire_at e"
      "timer_step now w = (SleepFor (e_fire_at e - now), w')" "pending w' = e # es" "wheel_inv w'"
proof (cases "drop_cancelled w")
  case Nil
  have "wheel_inv (w\<lparr>heap := [], wake := False\<rparr>)"
    by (rule wheel_inv_suffix [OF inv, of "heap w"]) simp
  with Nil show ?thesis
    by (intro wait [of "w\<lparr>heap := [], wake := False\<rparr>"])
      (simp_all add: pending_drop_cancelled [of w] timer_step_def, simp add: pending_def)
next
  case (Cons e rest)
  note pc = pending_Cons [OF inv Cons]
  obtain pre where pre: "heap w = pre @ e # rest" using pc(2) by blast
  show ?thesis
  proof (cases "e_fire_at e \<le> now")
    case True
    let ?w = "w\<lparr>heap := rest, cancelled := removeAll (e_seq e) (cancelled w)\<rparr>"
    have i: "wheel_inv ?w" by (rule wheel_inv_uncancel [OF inv pre])
    have "pending ?w = filter (\<lambda>e. e_seq e \<notin> set (cancelled w)) rest"
      unfolding pending_seq [OF i] using pc(4) by simp
    with True Cons pc i show ?thesis
      by (intro fire [OF pc(1), of ?w]) (simp_all add: timer_step_def entry_event_def)
  next
    case False
    let ?w = "w\<lparr>heap := e # rest, wake := False\<rparr>"
    have i: "wheel_inv ?w" by (rule wheel_inv_suffix(2) [OF inv pre])
    have "pending ?w = e # filter (\<lambda>e. e_seq e \<notin> set (cancelled w)) rest"
      using pc(4) by (simp add: pending_seq [OF i])
    with False Cons i show ?thesis
      by (intro sleep [OF pc(1), of ?w]) (simp_all add: timer_step_def)
  qed
qed

lemma fire_due_pending:
  assumes "wheel_inv w"
  shows "fst (fire_due now w) =
      map entry_event (takeWhile (\<lambda>e. e_fire_at e \<le> now) (pending w)) \<and>
    pending (snd (fire_due now w)) = dropWhile (\<lambda>e. e_fire_at e \<le> now) (pending w) \<and>
    wheel_inv (snd (fire_due now w))"
  using assms
proof (induction now w rule: fire_due.induct)
  case (1 now w)
  from "1.prems" show ?case
  proof (cases rule: timer_step_cases [of w now])
    case (wait w')
    then show ?thesis by (subst (1 2 3) fire_due.simps) simp
  next
    case (fire e es w')
    have "fire_due now w = (entry_event e # fst (fire_due now w'), snd (fire_due now w'))"
      using fire(3) by (subst fire_due.simps) (simp add: case_prod_beta Let_def)
    with fire "1.IH" [OF fire(3) [symmetric] refl fire(5)] show ?thesis by simp
  next
    case (sleep e es w')
    then show ?thesis by (subst (1 2 3) fire_due.simps) simp
  qed
qed

lemma pending_sorted: "wheel_inv w \<Longrightarrow> sorted (map e_fire_at (pending w))"
proof -
  assume "wheel_inv w"
  then have "sorted_wrt (\<lambda>x y. entry_key x \<le> entry_key y) (heap w)"
    by (simp add: wheel_inv_def heap_sorted_def sorted_map)
  then have "sorted_wrt (\<lambda>x y. e_fire_at x \<le> e_fire_at y) (heap w)"
    by (rule sorted_wrt_mono_rel [rotated]) (auto simp: entry_key_def less_eq_prod_def)
  then show "sorted (map e_fire_at (pending w))"
    by (simp add: pending_def sorted_map sorted_wrt_filter)
qed

lemma sorted_takeWhile_filter:
  "sorted (map f xs) \<Longrightarrow> takeWhile (\<lambda>x. f x \<le> c) xs = filter (\<lambda>x. f x \<le> c) xs"
  "sorted (map f xs) \<Longrightarrow> dropWhile (\<lambda>x. f x \<le> c) xs = filter (\<lambda>x. \<not> f x \<le> c) xs"
proof (induction xs)
  case (Cons x xs)
  have big: "filter (\<lambda>x. f x \<le> c) xs = []" "filter (\<lambda>x. \<not> f x \<le> c) xs = xs"
    if "\<not> f x \<le> c" "sorted (map f (x # xs))"
    using that by (force intro: filter_False filter_True)+
  { case 1 with Cons big show ?case by simp }
  { case 2 with Cons big show ?case by simp }
qed simp_all

subsection \<open>Every wheel the daemon can build\<close>

inductive wheel_reach :: "wheel \<Rightarrow> bool" where
  start: "wheel_reach new_wheel"
| schedule: "wheel_reach w \<Longrightarrow> wheel_reach (snd (schedule now d ev w))"
| cancel: "wheel_reach w \<Longrightarrow> wheel_reach (snd (cancel h w))"
| tick: "wheel_reach w \<Longrightarrow> wheel_reach (snd (timer_step now w))"
| shutdown: "wheel_reach w \<Longrightarrow> wheel_reach (snd (shutdown w))"

lemma wheel_inv_step: "wheel_inv w \<Longrightarrow> wheel_inv (snd (timer_step now w))"
  by (erule timer_step_cases [of w now]) auto

lemma wheel_inv_shutdown: "wheel_inv w \<Longrightarrow> wheel_inv (snd (shutdown w))"
  by (simp add: wheel_inv_def shutdown_def heap_sorted_def)

lemma wheel_reach_inv: "wheel_reach w \<Longrightarrow> wheel_inv w"
  by (induction rule: wheel_reach.induct)
    (simp_all add: wheel_inv_new wheel_inv_schedule wheel_inv_cancel wheel_inv_step
      wheel_inv_shutdown)

lemma wheel_reach_fire_due: "wheel_reach w \<Longrightarrow> wheel_reach (snd (fire_due now w))"
proof (induction now w rule: fire_due.induct)
  case (1 now w)
  obtain a w' where s: "timer_step now w = (a, w')" by fastforce
  with "1.prems" have r: "wheel_reach w'" using wheel_reach.tick [of w now] by simp
  show ?case
  proof (cases a)
    case (Fired ev)
    with s have f: "timer_step now w = (Fired ev, w')" by simp
    have "snd (fire_due now w) = snd (fire_due now w')"
      using f by (subst fire_due.simps) (simp add: case_prod_beta Let_def)
    with "1.IH" [OF f [symmetric] refl r] show ?thesis by simp
  qed (subst fire_due.simps, simp add: s r)+
qed

lemma drain_due:
  assumes "wheel_inv w"
  shows "fst (fire_due now w) = map entry_event (filter (\<lambda>e. e_fire_at e \<le> now) (pending w))"
    and "pending (snd (fire_due now w)) = filter (\<lambda>e. \<not> e_fire_at e \<le> now) (pending w)"
  using fire_due_pending [OF assms, of now] sorted_takeWhile_filter [OF pending_sorted [OF assms]]
  by simp_all

subsection \<open>Properties of the wheel\<close>

text \<open>The firing order: by fire time, and by scheduling number within one instant.\<close>

definition fires_before :: "entry \<Rightarrow> entry \<Rightarrow> bool" where
  "fires_before x y \<longleftrightarrow>
     e_fire_at x < e_fire_at y \<or> e_fire_at x = e_fire_at y \<and> e_seq x < e_seq y"

lemma pending_fires_before:
  assumes "wheel_inv w" shows "sorted_wrt fires_before (pending w)"
proof -
  have "sorted_wrt (\<lambda>x y. entry_key x \<le> entry_key y) (heap w)"
    using assms by (simp add: wheel_inv_def heap_sorted_def sorted_map)
  moreover have "sorted_wrt (\<lambda>x y. e_seq x \<noteq> e_seq y) (heap w)"
    using wheel_sane(1) [OF assms] by (auto simp: sorted_wrt_iff_nth_less distinct_conv_nth)
  ultimately have "sorted_wrt (\<lambda>x y. entry_key x \<le> entry_key y \<and> e_seq x \<noteq> e_seq y) (heap w)"
    by (simp add: sorted_wrt_iff_nth_less)
  then have "sorted_wrt fires_before (heap w)"
    by (rule sorted_wrt_mono_rel [rotated])
      (auto simp: fires_before_def entry_key_def less_eq_prod_def)
  then show ?thesis by (simp add: pending_def sorted_wrt_filter)
qed

text \<open>A new timer is pending with a number above every number given out before.\<close>

lemma schedule_numbers:
  assumes "wheel_inv w" and "schedule t d ev w = (h, w')"
  shows "\<exists>e. set (pending w') = insert e (set (pending w)) \<and> entry_event e = ev \<and>
      e_fire_at e = t + max 0 d \<and> e_seq e = h_seq h \<and> (\<forall>x \<in> set (pending w). e_seq x < e_seq e)"
proof -
  have "\<forall>x \<in> set (pending w). e_seq x < seq_counter w + 1"
    using assms(1) by (auto simp: pending_def wheel_inv_def)
  with pending_schedule [OF assms(1), of t d ev] assms(2) show ?thesis
    by (intro exI [of _ "\<lparr>e_fire_at = t + max 0 d, e_seq = seq_counter w + 1, e_handle = h,
        e_cancelled = False\<rparr>"])
      (auto simp: set_insort_key schedule_def Let_def entry_event_def)
qed

text \<open>
  C37. Of any wheel that scheduling, cancelling, ticking and shutting down can build, the
  drain task fires exactly the timers that are due and not cancelled, and leaves exactly the
  others pending. It fires them in the order of their fire times, and those of one instant in
  the order in which they were scheduled: each new timer joins the pending ones with a
  higher number than all of them.
\<close>

theorem timers_fire_when_due:
  assumes "wheel_reach w"
  shows "fst (fire_due now w) = map entry_event (filter (\<lambda>e. e_fire_at e \<le> now) (pending w))
    \<and> sorted_wrt (\<lambda>x y. e_fire_at x < e_fire_at y \<or> e_fire_at x = e_fire_at y \<and> e_seq x < e_seq y)
        (pending w)
    \<and> pending (snd (fire_due now w)) = filter (\<lambda>e. \<not> e_fire_at e \<le> now) (pending w)
    \<and> (\<forall>t d ev h w'. schedule t d ev w = (h, w') \<longrightarrow>
         (\<exists>e. set (pending w') = insert e (set (pending w)) \<and> entry_event e = ev \<and>
            e_fire_at e = t + max 0 d \<and> e_seq e = h_seq h \<and>
            (\<forall>x \<in> set (pending w). e_seq x < e_seq e)))
    \<and> wheel_reach (snd (fire_due now w))"
  using drain_due [OF wheel_reach_inv [OF assms], of now]
    pending_fires_before [OF wheel_reach_inv [OF assms]]
    schedule_numbers [OF wheel_reach_inv [OF assms]] wheel_reach_fire_due [OF assms, of now]
  by (simp add: fires_before_def [abs_def])

definition sample_wheel :: wheel where
  "sample_wheel =
     snd (schedule 0 5 (RateLimitExpired ''a'')
       (snd (schedule 0 (-1) (CircuitBreakerRecovery ''b'') new_wheel)))"

lemma sample_wheel_reach: "wheel_reach sample_wheel"
  unfolding sample_wheel_def by (intro wheel_reach.intros)

lemma sample_wheel_pending:
  "map (\<lambda>e. (e_fire_at e, entry_event e)) (pending sample_wheel) =
     [(0, CircuitBreakerRecovery ''b''), (5, RateLimitExpired ''a'')]"
  by (simp add: sample_wheel_def schedule_def Let_def new_wheel_def pending_def heappush_def
      entry_key_def entry_event_def)

lemma timers_fire_when_due_witness:
  "wheel_reach sample_wheel \<and> fst (fire_due 3 sample_wheel) = [CircuitBreakerRecovery ''b'']"
proof -
  have "map entry_event (filter (\<lambda>e. e_fire_at e \<le> 3) (pending sample_wheel)) =
      map snd (filter (\<lambda>p. fst p \<le> 3) (map (\<lambda>e. (e_fire_at e, entry_event e)) (pending sample_wheel)))"
    by (simp add: filter_map comp_def)
  then show ?thesis
    using timers_fire_when_due [OF sample_wheel_reach, of 3] sample_wheel_reach
    unfolding sample_wheel_pending by simp
qed

text \<open>
  Cancelling refines removal from the abstract set of pending timers: it succeeds
  exactly when the handle's timer is still pending, removes that timer and no other, and a
  second cancellation of the same handle fails.
\<close>

theorem cancel_removes_its_timer:
  assumes "wheel_reach w"
  shows "(fst (cancel h w) \<longleftrightarrow> (\<exists>e \<in> set (pending w). e_seq e = h_seq h))
    \<and> pending (snd (cancel h w)) = filter (\<lambda>e. e_seq e \<noteq> h_seq h) (pending w)
    \<and> \<not> fst (cancel h (snd (cancel h w)))"
  using cancel_pending [OF wheel_reach_inv [OF assms], of h]
    cancel_pending(2) [OF wheel_reach_inv [OF wheel_reach.cancel [OF assms]], of h h]
  by simp

lemma cancel_removes_its_timer_witness:
  "wheel_reach sample_wheel \<and>
   \<not> fst (cancel \<lparr>h_fire_at = 5, h_event = RateLimitExpired ''a'', h_seq = 2\<rparr>
        (snd (cancel \<lparr>h_fire_at = 5, h_event = RateLimitExpired ''a'', h_seq = 2\<rparr> sample_wheel)))"
  using cancel_removes_its_timer [OF sample_wheel_reach,
      of "\<lparr>h_fire_at = 5, h_event = RateLimitExpired ''a'', h_seq = 2\<rparr>"] sample_wheel_reach
  by simp

text \<open>
  A newly scheduled timer is pending from then on, at the clock plus its delay (a
  negative delay counts as zero) and behind every pending timer of the same instant;
  shutting down hands every pending timer over in firing order and leaves none.
\<close>

theorem schedule_then_shutdown:
  assumes "wheel_reach w"
  shows "pending (snd (schedule now d ev w)) =
      insort_key entry_key
        \<lparr>e_fire_at = now + max 0 d, e_seq = seq_counter w + 1,
         e_handle = fst (schedule now d ev w), e_cancelled = False\<rparr> (pending w)
    \<and> (\<forall>e \<in> set (pending w). e_seq e < seq_counter w + 1)
    \<and> fst (shutdown w) = map entry_event (pending w) \<and> pending (snd (shutdown w)) = []"
proof -
  note inv = wheel_reach_inv [OF assms]
  have "\<forall>e \<in> set (pending w). e_seq e < seq_counter w + 1"
    using inv by (auto simp: pending_def wheel_inv_def)
  then show ?thesis by (simp add: pending_schedule [OF inv] shutdown_pending)
qed

lemma schedule_then_shutdown_witness:
  "wheel_reach sample_wheel \<and>
   fst (shutdown sample_wheel) = [CircuitBreakerRecovery ''b'', RateLimitExpired ''a'']"
proof -
  have "map entry_event (pending sample_wheel) =
      map snd (map (\<lambda>e. (e_fire_at e, entry_event e)) (pending sample_wheel))"
    by simp
  then show ?thesis
    using schedule_then_shutdown [OF sample_wheel_reach] sample_wheel_reach
    unfolding sample_wheel_pending by simp
qed

end
