(* ===== verification/Expr.thy ===== *)
theory Expr
  imports Sheet Events
begin

section \<open>The expression language of flow conditions: syntax and evaluation\<close>

text \<open>
  \<open>core/expressions/ast.py\<close>, \<open>errors.py\<close>, \<open>context.py\<close>, \<open>evaluator.py\<close> and the reference
  collection of \<open>parser.py\<close>. Values are JSON-like; floats are exact rationals, and an integer
  that meets a float raises when it is beyond the range of a double. The context is a
  record of lookups, None for the \<open>KeyError\<close> that the evaluator turns into an undefined
  reference. \<open>re.search\<close> is the parameter \<open>rx\<close> (pattern, text).
\<close>

subsection \<open>Syntax\<close>

datatype node =
    Literal json int
  | VarRef "string list" int
  | LoopRef string int
  | SheetRef "int option" string int
  | FileCall string string "string option" int    \<comment> \<open>path, member, argument\<close>
  | ReservedCall string int
  | Unary string node int
  | Binary string node node int

record expression =
  ex_source :: string
  ex_root :: node

text \<open>
  An expression error: its class, its offset, its message and its hint (the message itself
  unless the code gives one). The last four classes are not expression errors of the
  program: a \<open>getattr\<close> of an unknown field, the plain \<open>ValueError\<close> of \<open>float(text)\<close>, a
  \<open>RecursionError\<close> of the interpreter, and a character beyond the code points that the model's
  strings hold.
\<close>

datatype error_class =
    ExpressionSyntaxError | ExpressionTypeError | UndefinedReferenceError | ReservedSyntaxError
  | AttributeError | FloatConversionError | RecursionLimitReached | CharacterOutOfRange

datatype expr_error = ExprError error_class int string string

fun error_class_of :: "expr_error \<Rightarrow> error_class" where
  "error_class_of (ExprError c _ _ _) = c"

record sheet_facts =
  sf_num :: int
  sf_status :: string
  sf_attempts :: int

record expr_ctx =
  cx_var :: "string list \<Rightarrow> json option"
  cx_loop_index :: "string \<Rightarrow> int option"
  cx_sheet :: "int \<Rightarrow> sheet_facts option"
  cx_current_sheet :: "sheet_facts option"
  cx_file :: "string \<Rightarrow> file_facts"

subsection \<open>Python values\<close>

fun num_val :: "json \<Rightarrow> rat option" where
  "num_val (JBool b) = Some (if b then 1 else 0)"
| "num_val (JInt i) = Some (of_int i)"
| "num_val (JNum q) = Some q"
| "num_val _ = None"

fun is_number :: "json \<Rightarrow> bool" where
  "is_number (JInt _) = True"
| "is_number (JNum _) = True"
| "is_number _ = False"

fun is_str :: "json \<Rightarrow> bool" where
  "is_str (JStr _) = True"
| "is_str _ = False"

fun is_float :: "json \<Rightarrow> bool" where
  "is_float (JNum _) = True"
| "is_float _ = False"

text \<open>\<open>==\<close>: numbers and booleans by value, dictionaries up to order.\<close>

function (sequential) py_eq :: "json \<Rightarrow> json \<Rightarrow> bool"
  and py_eq_list :: "json list \<Rightarrow> json list \<Rightarrow> bool"
  and py_eq_obj :: "(string \<times> json) list \<Rightarrow> (string \<times> json) list \<Rightarrow> bool"
where
  "py_eq JNull JNull = True"
| "py_eq (JStr s) (JStr t) = (s = t)"
| "py_eq (JList xs) (JList ys) = py_eq_list xs ys"
| "py_eq (JObj a) (JObj b) = (length a = length b \<and> py_eq_obj a b)"
| "py_eq x y = (num_val x \<noteq> None \<and> num_val x = num_val y)"
| "py_eq_list [] [] = True"
| "py_eq_list (x # xs) (y # ys) = (py_eq x y \<and> py_eq_list xs ys)"
| "py_eq_list _ _ = False"
| "py_eq_obj [] b = True"
| "py_eq_obj ((k, v) # a) b =
     ((case dget b k of None \<Rightarrow> False | Some w \<Rightarrow> py_eq v w) \<and> py_eq_obj a b)"
  by pat_completeness auto
termination
  by (relation "measure (\<lambda>x. case x of Inl (a, _) \<Rightarrow> size a
      | Inr (Inl (xs, _)) \<Rightarrow> size_list size xs
      | Inr (Inr (d, _)) \<Rightarrow> size_list (size_prod (\<lambda>_. 0) size) d)") auto

text \<open>Lexicographic order of texts by code point.\<close>

fun str_cmp :: "string \<Rightarrow> string \<Rightarrow> int" where
  "str_cmp [] [] = 0"
| "str_cmp [] (_ # _) = - 1"
| "str_cmp (_ # _) [] = 1"
| "str_cmp (c # s) (d # t) =
     (if c = d then str_cmp s t else if (of_char c :: nat) < of_char d then - 1 else 1)"

text \<open>
  The three-way comparison behind \<open><\<close>, \<open><=\<close>, \<open>>\<close> and \<open>>=\<close>; None is Python's \<open>TypeError\<close>. Lists
  compare at the first position where they differ.
\<close>

function (sequential) py_compare :: "json \<Rightarrow> json \<Rightarrow> int option"
  and py_compare_list :: "json list \<Rightarrow> json list \<Rightarrow> int option"
where
  "py_compare (JStr s) (JStr t) = Some (str_cmp s t)"
| "py_compare (JList xs) (JList ys) = py_compare_list xs ys"
| "py_compare x y =
     (case (num_val x, num_val y) of
        (Some a, Some b) \<Rightarrow> Some (if a < b then - 1 else if b < a then 1 else 0)
      | _ \<Rightarrow> None)"
| "py_compare_list [] [] = Some 0"
| "py_compare_list [] (_ # _) = Some (- 1)"
| "py_compare_list (_ # _) [] = Some 1"
| "py_compare_list (x # xs) (y # ys) =
     (if py_eq x y then py_compare_list xs ys else py_compare x y)"
  by pat_completeness auto
termination
  by (relation "measure (\<lambda>x. case x of Inl (a, _) \<Rightarrow> size a
      | Inr (xs, _) \<Rightarrow> size_list size xs)") auto

fun is_prefix_of :: "string \<Rightarrow> string \<Rightarrow> bool" where
  "is_prefix_of [] _ = True"
| "is_prefix_of (_ # _) [] = False"
| "is_prefix_of (c # s) (d # t) = (c = d \<and> is_prefix_of s t)"

fun text_contains :: "string \<Rightarrow> string \<Rightarrow> bool" where
  "text_contains needle [] = (needle = [])"
| "text_contains needle (c # s) = (is_prefix_of needle (c # s) \<or> text_contains needle s)"

subsection \<open>Arithmetic and comparison\<close>

fun to_float :: "json \<Rightarrow> rat option" where
  "to_float (JInt i) = (if float_overflows \<bar>of_int i\<bar> then None else Some (of_int i))"
| "to_float (JNum q) = Some q"
| "to_float _ = None"

definition type_error :: "int \<Rightarrow> string \<Rightarrow> expr_error + 'a" where
  "type_error off m = Inl (ExprError ExpressionTypeError off m m)"

definition out_of_range :: "int \<Rightarrow> expr_error + 'a" where
  "out_of_range off = type_error off ''arithmetic result out of range''"

definition division_by_zero :: "int \<Rightarrow> expr_error + 'a" where
  "division_by_zero off = type_error off ''division by zero''"

definition float_op :: "int \<Rightarrow> (rat \<Rightarrow> rat \<Rightarrow> rat) \<Rightarrow> json \<Rightarrow> json \<Rightarrow> expr_error + json" where
  "float_op off f x y =
     (case (to_float x, to_float y) of
        (Some a, Some b) \<Rightarrow> Inr (JNum (f a b))
      | _ \<Rightarrow> out_of_range off)"

definition divide_numbers :: "int \<Rightarrow> json \<Rightarrow> json \<Rightarrow> expr_error + json" where
  "divide_numbers off x y =
     (case (x, y) of
        (JInt a, JInt b) \<Rightarrow>
          if b = 0 then division_by_zero off
          else if float_overflows \<bar>of_int a / of_int b\<bar> then out_of_range off
          else Inr (JNum (of_int a / of_int b))
      | _ \<Rightarrow>
          (case (to_float x, to_float y) of
             (Some a, Some b) \<Rightarrow> if b = 0 then division_by_zero off else Inr (JNum (a / b))
           | _ \<Rightarrow> out_of_range off))"

definition arithmetic :: "string \<Rightarrow> int \<Rightarrow> json \<Rightarrow> json \<Rightarrow> expr_error + json" where
  "arithmetic op off x y =
     (if \<not> is_number x \<or> \<not> is_number y then type_error off ''arithmetic requires numbers''
      else if op = ''+'' then
        (case (x, y) of (JInt a, JInt b) \<Rightarrow> Inr (JInt (a + b)) | _ \<Rightarrow> float_op off (+) x y)
      else if op = ''-'' then
        (case (x, y) of (JInt a, JInt b) \<Rightarrow> Inr (JInt (a - b)) | _ \<Rightarrow> float_op off (-) x y)
      else if op = ''*'' then
        (case (x, y) of (JInt a, JInt b) \<Rightarrow> Inr (JInt (a * b)) | _ \<Rightarrow> float_op off (*) x y)
      else if op = ''/'' then divide_numbers off x y
      else (case (x, y) of
              (JInt a, JInt b) \<Rightarrow> if b = 0 then division_by_zero off else Inr (JInt (a mod b))
            | _ \<Rightarrow> type_error off ''% requires integers''))"

definition comparison_ops :: "string list" where
  "comparison_ops = [''=='', ''!='', ''<'', ''<='', ''>'', ''>='']"

definition compare_values :: "string \<Rightarrow> int \<Rightarrow> json \<Rightarrow> json \<Rightarrow> expr_error + json" where
  "compare_values op off x y =
     (if is_number x \<and> is_str y \<or> is_number y \<and> is_str x
      then type_error off ''cannot compare a number with a string''
      else if op = ''=='' then Inr (JBool (py_eq x y))
      else if op = ''!='' then Inr (JBool (\<not> py_eq x y))
      else case py_compare x y of
             None \<Rightarrow> type_error off ''incompatible comparison''
           | Some c \<Rightarrow>
               Inr (JBool (if op = ''<'' then c < 0 else if op = ''<='' then c \<le> 0
                           else if op = ''>'' then c > 0 else c \<ge> 0)))"

subsection \<open>Evaluation\<close>

fun join_dots :: "string list \<Rightarrow> string" where
  "join_dots [] = []"
| "join_dots [w] = w"
| "join_dots (w # v # ws) = w @ CHR ''.'' # join_dots (v # ws)"

definition undefined_reference :: "int \<Rightarrow> string \<Rightarrow> expr_error + 'a" where
  "undefined_reference off m = Inl (ExprError UndefinedReferenceError off (''undefined '' @ m) (''undefined '' @ m))"

definition sheet_field_value :: "string \<Rightarrow> int \<Rightarrow> sheet_facts \<Rightarrow> expr_error + json" where
  "sheet_field_value fld off f =
     (if fld = ''num'' then Inr (JInt (sf_num f))
      else if fld = ''status'' then Inr (JStr (sf_status f))
      else if fld = ''attempts'' then Inr (JInt (sf_attempts f))
      else Inl (ExprError AttributeError off fld fld))"

text \<open>\<open>str(n)\<close> of an integer.\<close>

fun nat_digits :: "nat \<Rightarrow> string" where
  "nat_digits n = (if n < 10 then [char_of (48 + n)]
     else nat_digits (n div 10) @ [char_of (48 + n mod 10)])"

definition int_str :: "int \<Rightarrow> string" where
  "int_str i = (if i < 0 then CHR ''-'' # nat_digits (nat (- i)) else nat_digits (nat i))"

definition sheet_ref_name :: "int option \<Rightarrow> string" where
  "sheet_ref_name n = ''sheet('' @ (case n of None \<Rightarrow> ''None'' | Some i \<Rightarrow> int_str i) @ '')''"

text \<open>
  \<open>walk\<close> calls itself on the operands of a node, and nothing catches the \<open>RecursionError\<close> when
  the interpreter's stack is exhausted: \<open>d\<close> is the number of nested calls of \<open>walk\<close> that still
  fit. (The calls that a leaf makes into the context do not nest and are not counted.)
\<close>

definition recursion_error :: "expr_error + 'a" where
  "recursion_error = Inl (ExprError RecursionLimitReached 0 [] [])"

fun evaluate_value :: "(string \<Rightarrow> string \<Rightarrow> bool) \<Rightarrow> expr_ctx \<Rightarrow> nat \<Rightarrow> node \<Rightarrow> expr_error + json" where
  "evaluate_value rx cx 0 e = recursion_error"
| "evaluate_value rx cx (Suc d) (Literal v off) = Inr v"
| "evaluate_value rx cx (Suc d) (VarRef path off) =
     (case cx_var cx path of
        None \<Rightarrow> undefined_reference off (''var.'' @ join_dots path)
      | Some v \<Rightarrow> Inr v)"
| "evaluate_value rx cx (Suc d) (LoopRef name off) =
     (case cx_loop_index cx name of
        None \<Rightarrow> undefined_reference off (''loop.'' @ name)
      | Some i \<Rightarrow> Inr (JInt i))"
| "evaluate_value rx cx (Suc d) (SheetRef num fld off) =
     (case (case num of None \<Rightarrow> cx_current_sheet cx | Some n \<Rightarrow> cx_sheet cx n) of
        None \<Rightarrow> undefined_reference off (sheet_ref_name num)
      | Some facts \<Rightarrow> sheet_field_value fld off facts)"
| "evaluate_value rx cx (Suc d) (FileCall path member arg off) =
     (let facts = cx_file cx path
      in if member = ''exists'' then Inr (JBool (ff_exists facts))
         else if member = ''modified'' then Inr (JBool (ff_modified facts))
         else case ff_text facts of
                None \<Rightarrow> Inr (JBool False)
              | Some txt \<Rightarrow>
                  if member = ''contains'' then Inr (JBool (text_contains (or_empty arg) txt))
                  else Inr (JBool (rx (or_empty arg) txt)))"
| "evaluate_value rx cx (Suc d) (ReservedCall name off) =
     (let m = name @ ''() is reserved for a future release and cannot be evaluated yet''
      in Inl (ExprError ReservedSyntaxError off m m))"
| "evaluate_value rx cx (Suc d) (Unary op sub off) =
     (case evaluate_value rx cx d sub of
        Inl e \<Rightarrow> Inl e
      | Inr v \<Rightarrow>
          if op = ''NOT'' then
            (case v of JBool b \<Rightarrow> Inr (JBool (\<not> b)) | _ \<Rightarrow> type_error off ''NOT requires a boolean'')
          else
            (case v of JInt i \<Rightarrow> Inr (JInt (- i)) | JNum q \<Rightarrow> Inr (JNum (- q))
             | _ \<Rightarrow> type_error off ''negative requires a number''))"
| "evaluate_value rx cx (Suc d) (Binary op l r off) =
     (case evaluate_value rx cx d l of
        Inl e \<Rightarrow> Inl e
      | Inr lv \<Rightarrow>
          if op = ''AND'' then
            (case lv of
               JBool False \<Rightarrow> Inr (JBool False)
             | JBool True \<Rightarrow>
                 (case evaluate_value rx cx d r of
                    Inl e \<Rightarrow> Inl e
                  | Inr (JBool b) \<Rightarrow> Inr (JBool b)
                  | Inr _ \<Rightarrow> type_error off ''AND requires booleans'')
             | _ \<Rightarrow> type_error off ''AND requires booleans'')
          else if op = ''OR'' then
            (case lv of
               JBool True \<Rightarrow> Inr (JBool True)
             | JBool False \<Rightarrow>
                 (case evaluate_value rx cx d r of
                    Inl e \<Rightarrow> Inl e
                  | Inr (JBool b) \<Rightarrow> Inr (JBool b)
                  | Inr _ \<Rightarrow> type_error off ''OR requires booleans'')
             | _ \<Rightarrow> type_error off ''OR requires booleans'')
          else
            (case evaluate_value rx cx d r of
               Inl e \<Rightarrow> Inl e
             | Inr rv \<Rightarrow>
                 if op \<in> set comparison_ops then compare_values op off lv rv
                 else arithmetic op off lv rv))"

definition evaluate :: "(string \<Rightarrow> string \<Rightarrow> bool) \<Rightarrow> expr_ctx \<Rightarrow> nat \<Rightarrow> node \<Rightarrow> expr_error + bool" where
  "evaluate rx cx d e =
     (case evaluate_value rx cx d e of
        Inl err \<Rightarrow> Inl err
      | Inr (JBool b) \<Rightarrow> Inr b
      | Inr _ \<Rightarrow> type_error 0 ''condition must evaluate to a boolean'')"

subsection \<open>References\<close>

record expr_references =
  refs_files :: "string set"
  refs_variables :: "string list set"
  refs_loops :: "string set"
  refs_sheets :: "int set"
  refs_reserved :: "string set"

definition no_references :: expr_references where
  "no_references = \<lparr>refs_files = {}, refs_variables = {}, refs_loops = {}, refs_sheets = {},
                    refs_reserved = {}\<rparr>"

fun visit :: "node \<Rightarrow> expr_references \<Rightarrow> expr_references" where
  "visit (FileCall path _ _ _) r = r\<lparr>refs_files := insert path (refs_files r)\<rparr>"
| "visit (VarRef path _) r = r\<lparr>refs_variables := insert path (refs_variables r)\<rparr>"
| "visit (LoopRef name _) r = r\<lparr>refs_loops := insert name (refs_loops r)\<rparr>"
| "visit (SheetRef (Some n) _ _) r = r\<lparr>refs_sheets := insert n (refs_sheets r)\<rparr>"
| "visit (ReservedCall name _) r = r\<lparr>refs_reserved := insert name (refs_reserved r)\<rparr>"
| "visit (Unary _ v _) r = visit v r"
| "visit (Binary _ a b _) r = visit b (visit a r)"
| "visit _ r = r"

definition references :: "node \<Rightarrow> expr_references" where
  "references e = visit e no_references"

text \<open>
  How deep a tree nests. \<open>visit\<close> goes down to every leaf, so collecting the references raises
  exactly when the tree is deeper than the calls that fit.
\<close>

fun height :: "node \<Rightarrow> nat" where
  "height (Unary _ v _) = Suc (height v)"
| "height (Binary _ a b _) = Suc (max (height a) (height b))"
| "height _ = 1"

definition collect_references :: "nat \<Rightarrow> node \<Rightarrow> expr_error + expr_references" where
  "collect_references d e = (if height e \<le> d then Inr (references e) else recursion_error)"

subsection \<open>What evaluation depends on\<close>

text \<open>Two contexts that agree on everything an expression refers to.\<close>

definition agree_on :: "expr_references \<Rightarrow> expr_ctx \<Rightarrow> expr_ctx \<Rightarrow> bool" where
  "agree_on r c d \<longleftrightarrow>
     (\<forall>p \<in> refs_files r. cx_file c p = cx_file d p) \<and>
     (\<forall>p \<in> refs_variables r. cx_var c p = cx_var d p) \<and>
     (\<forall>n \<in> refs_loops r. cx_loop_index c n = cx_loop_index d n) \<and>
     (\<forall>n \<in> refs_sheets r. cx_sheet c n = cx_sheet d n) \<and>
     cx_current_sheet c = cx_current_sheet d"

definition refs_le :: "expr_references \<Rightarrow> expr_references \<Rightarrow> bool" where
  "refs_le r s \<longleftrightarrow> refs_files r \<subseteq> refs_files s \<and> refs_variables r \<subseteq> refs_variables s \<and>
     refs_loops r \<subseteq> refs_loops s \<and> refs_sheets r \<subseteq> refs_sheets s"

lemma refs_le_refl: "refs_le r r"
  by (simp add: refs_le_def)

lemma refs_le_trans: "refs_le r s \<Longrightarrow> refs_le s u \<Longrightarrow> refs_le r u"
  by (auto simp: refs_le_def)

lemma visit_grows: "refs_le r (visit e r)"
  by (induction e r rule: visit.induct) (auto simp: refs_le_def)

lemma agree_on_mono: "refs_le r s \<Longrightarrow> agree_on s c d \<Longrightarrow> agree_on r c d"
  by (auto simp: refs_le_def agree_on_def)

lemma evaluate_value_agree:
  "agree_on (visit e r) c c' \<Longrightarrow> evaluate_value rx c d e = evaluate_value rx c' d e"
proof (induction e arbitrary: r d)
  case (SheetRef n fld off)
  then show ?case by (cases n; cases d) (simp_all add: agree_on_def)
next
  case (Binary op a b off)
  have "agree_on (visit b (visit a r)) c c'" using Binary.prems by simp
  moreover have "agree_on (visit a r) c c'"
    using agree_on_mono [OF visit_grows calculation] .
  ultimately have "evaluate_value rx c d a = evaluate_value rx c' d a"
    "evaluate_value rx c d b = evaluate_value rx c' d b" for d
    using Binary.IH by blast+
  then show ?case by (cases d) (simp_all only: evaluate_value.simps)
next
  case (Unary op v off)
  then have "evaluate_value rx c d v = evaluate_value rx c' d v" for d by simp
  then show ?case by (cases d) (simp_all only: evaluate_value.simps)
next
  case (Literal v off)
  show ?case by (cases d) simp_all
next
  case (VarRef p off)
  then show ?case by (cases d) (simp_all add: agree_on_def)
next
  case (LoopRef p off)
  then show ?case by (cases d) (simp_all add: agree_on_def)
next
  case (FileCall p m a off)
  then show ?case by (cases d) (simp_all add: agree_on_def)
next
  case (ReservedCall p off)
  show ?case by (cases d) simp_all
qed

text \<open>Every offset an expression's nodes carry.\<close>

fun offsets :: "node \<Rightarrow> int set" where
  "offsets (Literal _ k) = {k}"
| "offsets (VarRef _ k) = {k}"
| "offsets (LoopRef _ k) = {k}"
| "offsets (SheetRef _ _ k) = {k}"
| "offsets (FileCall _ _ _ k) = {k}"
| "offsets (ReservedCall _ k) = {k}"
| "offsets (Unary _ v k) = insert k (offsets v)"
| "offsets (Binary _ a b k) = insert k (offsets a \<union> offsets b)"

lemma type_error_offset [simp]:
  "type_error k m = Inl (ExprError c off m' h) \<longleftrightarrow> c = ExpressionTypeError \<and> off = k \<and> m' = m \<and> h = m"
  by (auto simp: type_error_def)

lemmas error_defs = undefined_reference_def out_of_range_def division_by_zero_def

lemma float_op_offset: "float_op k f x y = Inl (ExprError c off m h) \<Longrightarrow> off = k"
  by (auto simp: float_op_def error_defs split: option.splits)

lemma divide_offset: "divide_numbers k x y = Inl (ExprError c off m h) \<Longrightarrow> off = k"
  by (auto simp: divide_numbers_def error_defs split: option.splits json.splits if_splits)

lemma arithmetic_offset: "arithmetic op k x y = Inl (ExprError c off m h) \<Longrightarrow> off = k"
  by (auto simp: arithmetic_def error_defs split: json.splits if_splits
      dest: float_op_offset divide_offset)

lemma compare_offset: "compare_values op k x y = Inl (ExprError c off m h) \<Longrightarrow> off = k"
  by (auto simp: compare_values_def split: option.splits if_splits)

text \<open>The fields that the parser admits after \<open>sheet(N).\<close> and \<open>sheet.current.\<close>.\<close>

definition sheet_fields :: "string list" where
  "sheet_fields = [''num'', ''status'', ''attempts'']"

fun fields_ok :: "node \<Rightarrow> bool" where
  "fields_ok (SheetRef _ fld _) = (fld \<in> set sheet_fields)"
| "fields_ok (Unary _ v _) = fields_ok v"
| "fields_ok (Binary _ a b _) = (fields_ok a \<and> fields_ok b)"
| "fields_ok _ = True"

definition evaluation_error :: "error_class \<Rightarrow> bool" where
  "evaluation_error c \<longleftrightarrow>
     c = ExpressionTypeError \<or> c = UndefinedReferenceError \<or> c = ReservedSyntaxError"

lemma arithmetic_class: "arithmetic op k x y = Inl (ExprError c off m h) \<Longrightarrow> c = ExpressionTypeError"
  by (auto simp: arithmetic_def float_op_def divide_numbers_def error_defs
      split: json.splits if_splits option.splits)

lemma compare_class: "compare_values op k x y = Inl (ExprError c off m h) \<Longrightarrow> c = ExpressionTypeError"
  by (auto simp: compare_values_def split: option.splits if_splits)

text \<open>Where the error of an operator comes from: an operand, or the operator itself.\<close>

lemma unary_error:
  "evaluate_value rx cx (Suc d) (Unary op v k) = Inl (ExprError c off m h) \<Longrightarrow>
     evaluate_value rx cx d v = Inl (ExprError c off m h) \<or> c = ExpressionTypeError \<and> off = k"
  by (auto split: sum.splits if_splits json.splits)

lemma binary_error:
  "evaluate_value rx cx (Suc d) (Binary op a b k) = Inl (ExprError c off m h) \<Longrightarrow>
     evaluate_value rx cx d a = Inl (ExprError c off m h) \<or>
     evaluate_value rx cx d b = Inl (ExprError c off m h) \<or> c = ExpressionTypeError \<and> off = k"
  by (cases "evaluate_value rx cx d a"; cases "evaluate_value rx cx d b")
    (auto split: if_splits json.splits bool.splits
      dest: compare_offset compare_class arithmetic_offset arithmetic_class)

lemma evaluate_value_error:
  "evaluate_value rx cx d e = Inl (ExprError c off m h) \<Longrightarrow>
     (fields_ok e \<longrightarrow> evaluation_error c) \<and> off \<in> offsets e \<or> c = RecursionLimitReached \<and> d < height e"
proof (induction e arbitrary: d)
  case (Unary op v k)
  show ?case
  proof (cases d)
    case 0
    with Unary.prems show ?thesis by (simp add: recursion_error_def)
  next
    case (Suc d')
    from unary_error [OF Unary.prems [unfolded Suc]] Unary.IH [of d'] show ?thesis
      by (auto simp: Suc evaluation_error_def)
  qed
next
  case (Binary op a b k)
  show ?case
  proof (cases d)
    case 0
    with Binary.prems show ?thesis by (simp add: recursion_error_def)
  next
    case (Suc d')
    from binary_error [OF Binary.prems [unfolded Suc]] Binary.IH(1) [of d'] Binary.IH(2) [of d'] show ?thesis
      by (auto simp: Suc evaluation_error_def)
  qed
next
  case (SheetRef n fld k)
  then show ?case
    by (cases d) (auto simp: recursion_error_def sheet_fields_def sheet_field_value_def undefined_reference_def
        evaluation_error_def split: option.splits if_splits)
next
  case (FileCall p mem arg k)
  then show ?case
    by (cases d) (auto simp: recursion_error_def Let_def split: option.splits if_splits)
next
  case (ReservedCall name k)
  then show ?case by (cases d) (auto simp: recursion_error_def evaluation_error_def Let_def)
next
  case (VarRef path k)
  then show ?case
    by (cases d) (auto simp: recursion_error_def undefined_reference_def evaluation_error_def split: option.splits)
next
  case (LoopRef name k)
  then show ?case
    by (cases d) (auto simp: recursion_error_def undefined_reference_def evaluation_error_def split: option.splits)
next
  case (Literal v k)
  then show ?case by (cases d) (auto simp: recursion_error_def)
qed

subsection \<open>Properties of evaluation\<close>

text \<open>
  The value of a condition depends on nothing but the references that the daemon
  collects from it: contexts that agree on those facts (and on the current sheet) give the
  same verdict or the same error. So a condition without file references can be decided
  without fetching any file.
\<close>

theorem evaluation_uses_only_references:
  assumes "agree_on (references e) c d"
  shows "evaluate rx c k e = evaluate rx d k e"
  using evaluate_value_agree [of e no_references c d rx k] assms
  by (simp add: references_def evaluate_def)

definition sample_expr :: node where
  "sample_expr = Binary ''>='' (SheetRef (Some 1) ''attempts'' 0) (Literal (JInt 2) 21) 18"

definition sample_ctx :: "bool \<Rightarrow> expr_ctx" where
  "sample_ctx b = \<lparr>cx_var = (\<lambda>p. None), cx_loop_index = (\<lambda>n. None),
     cx_sheet = (\<lambda>n. if n = 1 then Some \<lparr>sf_num = 1, sf_status = ''failed'', sf_attempts = 3\<rparr> else None),
     cx_current_sheet = None,
     cx_file = (\<lambda>p. \<lparr>ff_exists = b, ff_modified = b, ff_text = None\<rparr>)\<rparr>"

lemma evaluation_uses_only_references_witness:
  "evaluate (\<lambda>p s. False) (sample_ctx True) 5 sample_expr =
     evaluate (\<lambda>p s. False) (sample_ctx False) 5 sample_expr
   \<and> evaluate (\<lambda>p s. False) (sample_ctx False) 5 sample_expr = Inr True
   \<and> cx_file (sample_ctx True) [] \<noteq> cx_file (sample_ctx False) []"
proof -
  have "agree_on (references sample_expr) (sample_ctx True) (sample_ctx False)"
    by (simp add: agree_on_def references_def no_references_def sample_expr_def sample_ctx_def)
  from evaluation_uses_only_references [OF this, of "\<lambda>p s. False" 5] show ?thesis
    by (simp add: sample_ctx_def sample_expr_def evaluate_def sheet_field_value_def
        comparison_ops_def compare_values_def numeral_eq_Suc)
qed

lemma evaluation_error_positioned:
  assumes "fields_ok e" and "evaluate rx cx d e = Inl (ExprError c off m h)"
  shows "evaluation_error c \<and> off \<in> insert 0 (offsets e) \<or> c = RecursionLimitReached \<and> d < height e"
proof (cases "evaluate_value rx cx d e")
  case (Inl err)
  with assms(2) have "evaluate_value rx cx d e = Inl (ExprError c off m h)" by (simp add: evaluate_def)
  from evaluate_value_error [OF this] assms(1) show ?thesis by auto
next
  case (Inr v)
  with assms(2) show ?thesis
    by (auto simp: evaluate_def evaluation_error_def split: json.splits)
qed

text \<open>The stack suffices as soon as it holds the tree, and more of it changes nothing.\<close>

lemma enough_frames:
  "height e \<le> d \<Longrightarrow> evaluate_value rx cx d e = evaluate_value rx cx (height e) e"
proof (induction e arbitrary: d)
  case (Unary op v k)
  then obtain d' where "d = Suc d'" "height v \<le> d'" by (cases d) auto
  with Unary.IH [of d'] show ?case by (simp only: evaluate_value.simps height.simps)
next
  case (Binary op a b k)
  then obtain d' where d: "d = Suc d'" "height a \<le> d'" "height b \<le> d'" by (cases d) auto
  let ?m = "max (height a) (height b)"
  from d Binary.IH(1) [of d'] Binary.IH(1) [of ?m] Binary.IH(2) [of d'] Binary.IH(2) [of ?m]
  show ?case by (simp only: evaluate_value.simps height.simps max.cobounded1 max.cobounded2)
next
  case (SheetRef n fld k)
  then show ?case by (cases d) simp_all
next
  case (FileCall p m a k)
  then show ?case by (cases d) (simp_all add: Let_def)
qed (use Suc_le_D in \<open>force\<close>)+

end
