(* ===== verification/Parse.thy ===== *)
theory Parse
  imports Expr
begin

section \<open>The expression language: lexer and parser\<close>

text \<open>
  \<open>core/expressions/lexer.py\<close> and \<open>parser.py\<close>. The lexer walks the source by offset. The
  parser is the recursive descent of the code over the remaining tokens (the list always
  ends in its end-of-file token); every call spends one of the stack frames that the
  interpreter has left, and running out of them is the \<open>RecursionError\<close> that
  \<open>parse_expression\<close> turns into a syntax error. The four left-associative \<open>while\<close> loops
  share \<open>loop_left\<close>. \<open>re.compile\<close> is the parameter \<open>re_compile\<close>: the error text of a pattern
  that does not compile.
\<close>

datatype token_kind = IDENT | NUMBER | STRING | REGEX | SYMBOL | EOF

record token =
  tk_kind :: token_kind
  tk_value :: string
  tk_offset :: int

definition syntax_hint :: "int \<Rightarrow> string \<Rightarrow> string \<Rightarrow> expr_error + 'a" where
  "syntax_hint off m h = Inl (ExprError ExpressionSyntaxError off m h)"

definition syntax_error :: "int \<Rightarrow> string \<Rightarrow> expr_error + 'a" where
  "syntax_error off m = syntax_hint off m m"

lemma syntax_error_no_result [simp]:
  "syntax_error k m \<noteq> Inr x" "syntax_hint k m h \<noteq> Inr x"
  by (simp_all add: syntax_error_def syntax_hint_def)

subsection \<open>Characters\<close>

definition code :: "char \<Rightarrow> nat" where "code c = of_char c"

definition ascii_digit :: "char \<Rightarrow> bool" where "ascii_digit c \<longleftrightarrow> 48 \<le> code c \<and> code c \<le> 57"

definition ascii_alpha :: "char \<Rightarrow> bool" where
  "ascii_alpha c \<longleftrightarrow> (65 \<le> code c \<and> code c \<le> 90) \<or> (97 \<le> code c \<and> code c \<le> 122)"

definition ident_start :: "char \<Rightarrow> bool" where
  "ident_start c \<longleftrightarrow> ascii_alpha c \<or> c = CHR ''_''"

definition ident_char :: "char \<Rightarrow> bool" where
  "ident_char c \<longleftrightarrow> ascii_alpha c \<or> ascii_digit c \<or> c = CHR ''_''"

text \<open>\<open>isdigit\<close>: beyond ASCII the superscripts one, two and three are digits.\<close>

definition is_digit :: "char \<Rightarrow> bool" where
  "is_digit c \<longleftrightarrow> ascii_digit c \<or> code c \<in> {178, 179, 185}"

definition hex_char :: "nat \<Rightarrow> char" where
  "hex_char n = char_of (if n < 10 then 48 + n else 87 + n)"

text \<open>\<open>repr\<close> of a one-character string.\<close>

definition char_repr :: "char \<Rightarrow> string" where
  "char_repr c =
     (let k = code c; q = CHR 0x27; bs = CHR 0x5C in
      if k = 39 then [CHR 0x22, c, CHR 0x22]
      else if k = 92 then [q, bs, bs, q]
      else if k = 10 then [q, bs, CHR ''n'', q]
      else if k = 13 then [q, bs, CHR ''r'', q]
      else if k = 9 then [q, bs, CHR ''t'', q]
      else if k < 32 \<or> (127 \<le> k \<and> k \<le> 160) \<or> k = 173
      then [q, bs, CHR ''x'', hex_char (k div 16), hex_char (k mod 16), q]
      else [q, c, q])"

definition quoted :: "string \<Rightarrow> string" where
  "quoted s = CHR 0x27 # s @ [CHR 0x27]"

subsection \<open>Lexer\<close>

text \<open>
  How many characters the scanning loops consume after an opening quote or slash. An
  escape as the last character of the source consumes two in a string.
\<close>

fun string_end :: "string \<Rightarrow> nat" where
  "string_end [] = 0"
| "string_end (c # s) =
     (if c = CHR 0x5C then (case s of [] \<Rightarrow> 2 | _ # s' \<Rightarrow> 2 + string_end s')
      else if c = CHR 0x22 then 1
      else 1 + string_end s)"

fun regex_end :: "string \<Rightarrow> nat" where
  "regex_end [] = 0"
| "regex_end (c # s) =
     (if c = CHR 0x5C \<and> s \<noteq> [] then (case s of [] \<Rightarrow> 0 | _ # s' \<Rightarrow> 2 + regex_end s')
      else if c = CHR ''/'' then 1
      else 1 + regex_end s)"

text \<open>The length of a number whose first digit stands at the head.\<close>

definition number_length :: "string \<Rightarrow> nat" where
  "number_length s =
     (let n = length (takeWhile ascii_digit s); s' = drop n s in
      case s' of
        p # d # r \<Rightarrow>
          if p = CHR ''.'' \<and> is_digit d then n + 1 + length (takeWhile is_digit (d # r)) else n
      | _ \<Rightarrow> n)"

definition regex_argument :: "char \<Rightarrow> token list \<Rightarrow> bool" where
  "regex_argument c acc =
     (c = CHR ''/'' \<and>
      (case acc of t # u # _ \<Rightarrow> tk_value t = ''('' \<and> tk_value u = ''matches'' | _ \<Rightarrow> False))"

definition single_symbols :: string where "single_symbols = ''().,+-*/%<>''"

definition pair_symbols :: "string list" where "pair_symbols = [''=='', ''!='', ''<='', ''>='']"

definition mk_token :: "token_kind \<Rightarrow> string \<Rightarrow> nat \<Rightarrow> token" where
  "mk_token k v off = \<lparr>tk_kind = k, tk_value = v, tk_offset = int off\<rparr>"

text \<open>\<open>acc\<close> holds the tokens so far, newest first.\<close>

function tokenize_from :: "string \<Rightarrow> nat \<Rightarrow> token list \<Rightarrow> expr_error + token list" where
  "tokenize_from src off acc =
     (if off \<ge> length src then Inr (rev (mk_token EOF [] (length src) # acc))
      else
        let c = src ! off; rest = drop (Suc off) src in
        if is_space c then tokenize_from src (Suc off) acc
        else if ident_start c then
          let n = Suc (length (takeWhile ident_char rest))
          in tokenize_from src (off + n) (mk_token IDENT (take n (drop off src)) off # acc)
        else if ascii_digit c then
          let n = max 1 (number_length (drop off src))
          in tokenize_from src (off + n) (mk_token NUMBER (take n (drop off src)) off # acc)
        else if c = CHR 0x22 then
          let n = Suc (string_end rest)
          in if off + n > length src \<or> src ! (off + n - 1) \<noteq> CHR 0x22
             then syntax_error (int off) ''unterminated string''
             else tokenize_from src (off + n) (mk_token STRING (take n (drop off src)) off # acc)
        else if regex_argument c acc then
          let n = Suc (regex_end rest)
          in if src ! (off + n - 1) \<noteq> CHR ''/'' \<or> n = 1
             then syntax_error (int off) ''unterminated regex''
             else tokenize_from src (off + n)
                    (mk_token REGEX (take (n - 2) (drop (Suc off) src)) off # acc)
        else if take 2 (drop off src) \<in> set pair_symbols then
          tokenize_from src (off + 2) (mk_token SYMBOL (take 2 (drop off src)) off # acc)
        else if c \<in> set single_symbols then
          tokenize_from src (Suc off) (mk_token SYMBOL [c] off # acc)
        else syntax_error (int off) (''unexpected character '' @ char_repr c))"
  by pat_completeness auto
termination
  by (relation "measure (\<lambda>(src, off, acc). length src - off)") auto

declare tokenize_from.simps [simp del]

definition tokenize :: "string \<Rightarrow> expr_error + token list" where
  "tokenize src = tokenize_from src 0 []"

subsection \<open>Literals\<close>

fun digits_value :: "nat \<Rightarrow> string \<Rightarrow> nat" where
  "digits_value acc [] = acc"
| "digits_value acc (c # s) = digits_value (10 * acc + (code c - 48)) s"

text \<open>\<open>float(token.value) if "." in token.value else int(token.value)\<close>.\<close>

definition number_value :: "token \<Rightarrow> expr_error + json" where
  "number_value t =
     (let v = tk_value t; ip = takeWhile (\<lambda>c. c \<noteq> CHR ''.'') v; fp = drop (Suc (length ip)) v in
      if CHR ''.'' \<notin> set v then Inr (JInt (int (digits_value 0 v)))
      else if \<not> list_all ascii_digit fp
      then Inl (ExprError FloatConversionError (tk_offset t) v v)
      else Inr (JNum (of_nat (digits_value 0 (ip @ fp)) / 10 ^ length fp)))"

definition hex_value :: "char \<Rightarrow> nat option" where
  "hex_value c =
     (let k = code c in
      if 48 \<le> k \<and> k \<le> 57 then Some (k - 48)
      else if 97 \<le> k \<and> k \<le> 102 then Some (k - 87)
      else if 65 \<le> k \<and> k \<le> 70 then Some (k - 55)
      else None)"

definition hex4 :: "string \<Rightarrow> nat option" where
  "hex4 s = (case map hex_value s of
     [Some a, Some b, Some c, Some d] \<Rightarrow> Some (((a * 16 + b) * 16 + c) * 16 + d)
   | _ \<Rightarrow> None)"

definition simple_escape :: "char \<Rightarrow> char option" where
  "simple_escape c =
     (if c \<in> {CHR 0x22, CHR 0x5C, CHR ''/''} then Some c
      else if c = CHR ''b'' then Some (CHR 0x08)
      else if c = CHR ''f'' then Some (CHR 0x0C)
      else if c = CHR ''n'' then Some (CHR 0x0A)
      else if c = CHR ''r'' then Some (CHR 0x0D)
      else if c = CHR ''t'' then Some (CHR 0x09)
      else None)"

text \<open>
  \<open>json.loads\<close> of a quoted token, after its opening quote. The unit error is a decoding
  error; an escape beyond the model's characters is None.
\<close>

fun json_string_body :: "string \<Rightarrow> unit + string option" where
  "json_string_body [] = Inl ()"
| "json_string_body (c # s) =
     (if c = CHR 0x22 then (if s = [] then Inr (Some []) else Inl ())
      else if c = CHR 0x5C then
        (case s of
           [] \<Rightarrow> Inl ()
         | e # s' \<Rightarrow>
             if e = CHR ''u'' then
               (case hex4 (take 4 s') of
                  None \<Rightarrow> Inl ()
                | Some k \<Rightarrow>
                    map_sum id (\<lambda>r. if k < 256 then map_option ((#) (char_of k)) r else None)
                      (json_string_body (drop 4 s')))
             else
               (case simple_escape e of
                  None \<Rightarrow> Inl ()
                | Some d \<Rightarrow> map_sum id (map_option ((#) d)) (json_string_body s')))
      else if code c < 32 then Inl ()
      else map_sum id (map_option ((#) c)) (json_string_body s))"

definition string_value :: "token \<Rightarrow> expr_error + string" where
  "string_value t =
     (case json_string_body (drop 1 (tk_value t)) of
        Inl _ \<Rightarrow> syntax_error (tk_offset t) ''invalid string escape''
      | Inr None \<Rightarrow> Inl (ExprError CharacterOutOfRange (tk_offset t) [] [])
      | Inr (Some s) \<Rightarrow> Inr s)"

subsection \<open>Parser primitives\<close>

type_synonym 'a parser = "token list \<Rightarrow> expr_error + 'a \<times> token list"

definition current :: "token list \<Rightarrow> token" where
  "current ts = (case ts of t # _ \<Rightarrow> t | [] \<Rightarrow> mk_token EOF [] 0)"

definition take_tok :: "string \<Rightarrow> token list \<Rightarrow> token option \<times> token list" where
  "take_tok v ts = (if tk_value (current ts) = v then (Some (current ts), tl ts) else (None, ts))"

definition need :: "string \<Rightarrow> token parser" where
  "need v ts =
     (if tk_value (current ts) = v then Inr (current ts, tl ts)
      else syntax_error (tk_offset (current ts)) (''expected '' @ quoted v))"

definition ident :: "token parser" where
  "ident ts =
     (if tk_kind (current ts) = IDENT then Inr (current ts, tl ts)
      else syntax_error (tk_offset (current ts)) ''expected identifier'')"

definition presult :: "'a \<Rightarrow> 'a parser" where
  "presult x ts = Inr (x, ts)"

definition pbind :: "'a parser \<Rightarrow> ('a \<Rightarrow> 'b parser) \<Rightarrow> 'b parser" where
  "pbind p f ts = (case p ts of Inl e \<Rightarrow> Inl e | Inr (x, ts') \<Rightarrow> f x ts')"

definition lift_result :: "expr_error + 'a \<Rightarrow> 'a parser" where
  "lift_result r ts = (case r of Inl e \<Rightarrow> Inl e | Inr x \<Rightarrow> Inr (x, ts))"

text \<open>\<open>while current in ops: left = Binary(op, left, sub(), offset)\<close>, with a bound on its passes.\<close>

fun loop_left :: "nat \<Rightarrow> string list \<Rightarrow> node parser \<Rightarrow> node \<Rightarrow> node parser" where
  "loop_left k ops sub left ts =
     (if tk_value (current ts) \<in> set ops then
        (case k of
           0 \<Rightarrow> syntax_error (tk_offset (current ts)) ''unexpected token''
         | Suc k' \<Rightarrow>
             (case sub (tl ts) of
                Inl e \<Rightarrow> Inl e
              | Inr (r, ts') \<Rightarrow>
                  loop_left k' ops sub
                    (Binary (tk_value (current ts)) left r (tk_offset (current ts))) ts'))
      else Inr (left, ts))"

declare loop_left.simps [simp del]

definition too_deep :: "expr_error + node \<times> token list" where
  "too_deep = syntax_error 0 ''expression nesting is too deep''"

lemma too_deep_no_result [simp]: "too_deep \<noteq> Inr x"
  by (simp add: too_deep_def)

subsection \<open>Primary expressions\<close>

text \<open>\<open>while self.take("."): parts.append(self.ident().value)\<close>.\<close>

fun more_parts :: "string list \<Rightarrow> token list \<Rightarrow> expr_error + string list \<times> token list" where
  "more_parts parts (t # u # ts) =
     (if tk_value t = ''.'' then
        (if tk_kind u = IDENT then more_parts (parts @ [tk_value u]) ts
         else syntax_error (tk_offset u) ''expected identifier'')
      else Inr (parts, t # u # ts))"
| "more_parts parts [t] =
     (if tk_value t = ''.'' then syntax_error (tk_offset (current [])) ''expected identifier''
      else Inr (parts, [t]))"
| "more_parts parts [] = Inr (parts, [])"

definition sheet_field_check :: "string \<Rightarrow> token list \<Rightarrow> expr_error + unit" where
  "sheet_field_check fld ts =
     (if fld \<in> set sheet_fields then Inr ()
      else syntax_error (tk_offset (current ts)) (''unknown sheet field '' @ quoted fld))"

definition var_ref :: "int \<Rightarrow> node parser" where
  "var_ref off = pbind (need ''.'') (\<lambda>_. pbind ident (\<lambda>i. pbind (more_parts [tk_value i])
     (\<lambda>parts. presult (VarRef parts off))))"

definition loop_ref :: "int \<Rightarrow> node parser" where
  "loop_ref off = pbind (need ''.'') (\<lambda>_. pbind ident (\<lambda>i. presult (LoopRef (tk_value i) off)))"

definition checked_field :: "string \<Rightarrow> (string \<Rightarrow> node) \<Rightarrow> node parser" where
  "checked_field fld mk ts =
     (case sheet_field_check fld ts of Inl e \<Rightarrow> Inl e | Inr _ \<Rightarrow> Inr (mk fld, ts))"

definition sheet_current :: "int \<Rightarrow> token list \<Rightarrow> expr_error + node \<times> token list" where
  "sheet_current off ts =
     (case take_tok ''.'' ts of
        (Some _, ts1) \<Rightarrow>
          pbind ident (\<lambda>i. checked_field (tk_value i) (\<lambda>f. SheetRef None f off)) ts1
      | (None, ts1) \<Rightarrow> checked_field ''num'' (\<lambda>f. SheetRef None f off) ts1)"

definition sheet_numbered :: "int \<Rightarrow> token list \<Rightarrow> expr_error + node \<times> token list" where
  "sheet_numbered off ts =
     (let number = current ts; num = Some (int (digits_value 0 (tk_value number))) in
      if tk_kind number \<noteq> NUMBER \<or> CHR ''.'' \<in> set (tk_value number)
      then syntax_error (tk_offset number) ''sheet() needs an integer''
      else
        pbind (need '')'') (\<lambda>_. pbind (need ''.'') (\<lambda>_. pbind ident (\<lambda>i.
          checked_field (tk_value i) (\<lambda>f. SheetRef num f off)))) (tl ts))"

definition sheet_ref :: "int \<Rightarrow> node parser" where
  "sheet_ref off ts =
     (case take_tok ''.'' ts of
        (Some _, ts1) \<Rightarrow> pbind (need ''current'') (\<lambda>_. sheet_current off) ts1
      | (None, _) \<Rightarrow> pbind (need ''('') (\<lambda>_. sheet_numbered off) ts)"

definition file_members :: "string list" where
  "file_members = [''exists'', ''modified'', ''contains'', ''matches'']"

text \<open>The quoted argument of \<open>contains\<close>, the regular expression of \<open>matches\<close>.\<close>

definition file_argument :: "(string \<Rightarrow> string option) \<Rightarrow> string \<Rightarrow> string parser" where
  "file_argument re_compile member ts =
     (let arg = current ts; is_contains = (member = ''contains'') in
      if tk_kind arg \<noteq> (if is_contains then STRING else REGEX)
      then syntax_error (tk_offset arg)
        (member @ ''() needs a '' @ (if is_contains then ''string'' else ''regex''))
      else if is_contains then lift_result (string_value arg) (tl ts)
      else case re_compile (tk_value arg) of
             Some exc \<Rightarrow> syntax_error (tk_offset arg) (''invalid regex: '' @ exc)
           | None \<Rightarrow> Inr (tk_value arg, tl ts))"

definition file_member :: "(string \<Rightarrow> string option) \<Rightarrow> token \<Rightarrow> int \<Rightarrow> string \<Rightarrow> node parser" where
  "file_member re_compile path off member ts =
     (if member \<notin> set file_members
      then syntax_error (tk_offset (current ts)) ''unknown file member''
      else if member = ''contains'' \<or> member = ''matches'' then
        pbind (need ''('') (\<lambda>_. pbind (file_argument re_compile member) (\<lambda>arg.
          pbind (need '')'') (\<lambda>_. pbind (lift_result (string_value path)) (\<lambda>p.
            presult (FileCall p member (Some arg) off))))) ts
      else
        pbind (lift_result (string_value path)) (\<lambda>p. presult (FileCall p member None off)) ts)"

definition file_path :: "(string \<Rightarrow> string option) \<Rightarrow> int \<Rightarrow> node parser" where
  "file_path re_compile off ts =
     (let path = current ts in
      if tk_kind path \<noteq> STRING then syntax_error (tk_offset path) ''file() needs a quoted path''
      else
        pbind (need '')'') (\<lambda>_. pbind (need ''.'') (\<lambda>_. pbind ident (\<lambda>m.
          file_member re_compile path off (tk_value m)))) (tl ts))"

definition file_call :: "(string \<Rightarrow> string option) \<Rightarrow> int \<Rightarrow> node parser" where
  "file_call re_compile off = pbind (need ''('') (\<lambda>_. file_path re_compile off)"

text \<open>
  The arguments of \<open>validation(...)\<close> and \<open>output(...)\<close> are skipped up to the matching
  parenthesis, then any \<open>.name(...)\<close> suffixes.
\<close>

fun skip_parens :: "nat \<Rightarrow> token list \<Rightarrow> expr_error + token list" where
  "skip_parens 0 ts = Inr ts"
| "skip_parens (Suc d) [] = syntax_error 0 ''unclosed reserved call''"
| "skip_parens (Suc d) (t # ts) =
     (if tk_kind t = EOF then syntax_error (tk_offset t) ''unclosed reserved call''
      else if tk_value t = ''('' then skip_parens (Suc (Suc d)) ts
      else if tk_value t = '')'' then skip_parens d ts
      else skip_parens (Suc d) ts)"

definition skip_to_close :: "token list \<Rightarrow> token list" where
  "skip_to_close ts = dropWhile (\<lambda>t. tk_value t \<noteq> '')'' \<and> tk_kind t \<noteq> EOF) ts"

function skip_suffixes :: "token list \<Rightarrow> expr_error + token list" where
  "skip_suffixes ts =
     (if ts = [] \<or> tk_value (current ts) \<noteq> ''.'' then Inr ts
      else case ident (tl ts) of
             Inl e \<Rightarrow> Inl e
           | Inr (_, ts1) \<Rightarrow>
               if tk_value (current ts1) = ''('' then
                 (case need '')'' (skip_to_close (tl ts1)) of
                    Inl e \<Rightarrow> Inl e
                  | Inr (_, ts2) \<Rightarrow> skip_suffixes ts2)
               else skip_suffixes ts1)"
  by pat_completeness auto
termination
proof (relation "measure length", goal_cases)
  case 1 show ?case by simp
next
  case (2 ts p t ts1 q u ts2)
  have "length (skip_to_close (tl ts1)) \<le> length (tl ts1)"
    unfolding skip_to_close_def by (rule length_dropWhile_le)
  with 2 show ?case
    by (cases ts; auto simp: ident_def need_def split: if_splits)
next
  case (3 ts p t ts1)
  then show ?case by (cases ts; auto simp: ident_def split: if_splits)
qed

declare skip_suffixes.simps [simp del]

definition reserved_rest :: "string \<Rightarrow> int \<Rightarrow> node parser" where
  "reserved_rest name off ts =
     (case skip_parens 1 ts of
        Inl e \<Rightarrow> Inl e
      | Inr ts1 \<Rightarrow>
          (case skip_suffixes ts1 of
             Inl e \<Rightarrow> Inl e
           | Inr ts2 \<Rightarrow> Inr (ReservedCall name off, ts2)))"

definition reserved_call :: "string \<Rightarrow> int \<Rightarrow> node parser" where
  "reserved_call name off = pbind (need ''('') (\<lambda>_. reserved_rest name off)"

definition literal_word :: "string \<Rightarrow> json option" where
  "literal_word v =
     (if v = ''true'' then Some (JBool True) else if v = ''false'' then Some (JBool False)
      else if v = ''null'' then Some JNull else None)"

text \<open>\<open>primary\<close>, with the parser of a parenthesised expression as a parameter.\<close>

definition primary_with :: "(string \<Rightarrow> string option) \<Rightarrow> node parser \<Rightarrow> node parser" where
  "primary_with re_compile or_expr ts =
     (let token = current ts; off = tk_offset token; v = tk_value token in
      if v = ''('' then
        pbind or_expr (\<lambda>n. pbind (need '')'') (\<lambda>_. presult n)) (tl ts)
      else if tk_kind token = NUMBER then
        pbind (lift_result (number_value token)) (\<lambda>x. presult (Literal x off)) (tl ts)
      else if tk_kind token = STRING then
        pbind (lift_result (string_value token)) (\<lambda>s. presult (Literal (JStr s) off)) (tl ts)
      else case literal_word v of
             Some x \<Rightarrow> Inr (Literal x off, tl ts)
           | None \<Rightarrow>
               if v = ''var'' then var_ref off (tl ts)
               else if v = ''loop'' then loop_ref off (tl ts)
               else if v = ''sheet'' then sheet_ref off (tl ts)
               else if v = ''file'' then file_call re_compile off (tl ts)
               else if v = ''validation'' \<or> v = ''output'' then reserved_call v off (tl ts)
               else syntax_hint off ''unexpected token''
                      (if v \<in> {''and'', ''or'', ''not''} then ''use AND / OR / NOT''
                       else ''expected a value''))"

subsection \<open>Recursive descent\<close>

definition chain_expr :: "string list \<Rightarrow> node parser \<Rightarrow> node parser" where
  "chain_expr ops sub ts =
     (case sub ts of Inl e \<Rightarrow> Inl e | Inr (left, ts') \<Rightarrow> loop_left (length ts') ops sub left ts')"

fun or_expr :: "(string \<Rightarrow> string option) \<Rightarrow> nat \<Rightarrow> node parser"
  and and_expr :: "(string \<Rightarrow> string option) \<Rightarrow> nat \<Rightarrow> node parser"
  and not_expr :: "(string \<Rightarrow> string option) \<Rightarrow> nat \<Rightarrow> node parser"
  and comparison :: "(string \<Rightarrow> string option) \<Rightarrow> nat \<Rightarrow> node parser"
  and additive :: "(string \<Rightarrow> string option) \<Rightarrow> nat \<Rightarrow> node parser"
  and expr_term :: "(string \<Rightarrow> string option) \<Rightarrow> nat \<Rightarrow> node parser"
  and unary :: "(string \<Rightarrow> string option) \<Rightarrow> nat \<Rightarrow> node parser"
  and primary :: "(string \<Rightarrow> string option) \<Rightarrow> nat \<Rightarrow> node parser"
where
  "or_expr rc 0 = (\<lambda>ts. too_deep)"
| "or_expr rc (Suc d) = chain_expr [''OR''] (and_expr rc d)"
| "and_expr rc 0 = (\<lambda>ts. too_deep)"
| "and_expr rc (Suc d) = chain_expr [''AND''] (not_expr rc d)"
| "not_expr rc 0 = (\<lambda>ts. too_deep)"
| "not_expr rc (Suc d) = (\<lambda>ts.
     case take_tok ''NOT'' ts of
       (Some t, ts') \<Rightarrow>
         pbind (not_expr rc d) (\<lambda>n. presult (Unary ''NOT'' n (tk_offset t))) ts'
     | (None, ts') \<Rightarrow> comparison rc d ts')"
| "comparison rc 0 = (\<lambda>ts. too_deep)"
| "comparison rc (Suc d) = pbind (additive rc d) (\<lambda>left ts.
     let t = current ts in
     if tk_value t \<in> set comparison_ops then
       pbind (additive rc d) (\<lambda>r ts'.
         if tk_value (current ts') \<in> set comparison_ops
         then syntax_error (tk_offset (current ts')) ''chained comparisons are unsupported''
         else Inr (Binary (tk_value t) left r (tk_offset t), ts')) (tl ts)
     else Inr (left, ts))"
| "additive rc 0 = (\<lambda>ts. too_deep)"
| "additive rc (Suc d) = chain_expr [''+'', ''-''] (expr_term rc d)"
| "expr_term rc 0 = (\<lambda>ts. too_deep)"
| "expr_term rc (Suc d) = chain_expr [''*'', ''/'', ''%''] (unary rc d)"
| "unary rc 0 = (\<lambda>ts. too_deep)"
| "unary rc (Suc d) = (\<lambda>ts.
     case take_tok ''-'' ts of
       (Some t, ts') \<Rightarrow> pbind (unary rc d) (\<lambda>n. presult (Unary ''-'' n (tk_offset t))) ts'
     | (None, ts') \<Rightarrow> primary rc d ts')"
| "primary rc 0 = (\<lambda>ts. too_deep)"
| "primary rc (Suc d) = primary_with rc (or_expr rc d)"

definition parse_tokens :: "(string \<Rightarrow> string option) \<Rightarrow> nat \<Rightarrow> token list \<Rightarrow> expr_error + node" where
  "parse_tokens rc depth ts =
     (case or_expr rc depth ts of
        Inl e \<Rightarrow> Inl e
      | Inr (e, ts') \<Rightarrow>
          let t = current ts' in
          if tk_kind t \<noteq> EOF then
            syntax_hint (tk_offset t) ''unexpected token''
              (if tk_value t \<in> {''and'', ''or'', ''not''} then ''use AND / OR / NOT''
               else ''remove trailing syntax'')
          else Inr e)"

definition parse_expression :: "(string \<Rightarrow> string option) \<Rightarrow> nat \<Rightarrow> string \<Rightarrow> expr_error + expression" where
  "parse_expression rc depth source =
     (if length source > 4096
      then syntax_error 4096 ''expression exceeds 4096 characters''
      else case tokenize source of
             Inl e \<Rightarrow> Inl e
           | Inr ts \<Rightarrow>
               (case parse_tokens rc depth ts of
                  Inl e \<Rightarrow> Inl e
                | Inr e \<Rightarrow> Inr \<lparr>ex_source = source, ex_root = e\<rparr>))"

subsection \<open>What every parse result satisfies\<close>

text \<open>\<open>yields P p\<close>: whatever \<open>p\<close> returns satisfies \<open>P\<close>.\<close>

definition yields :: "('a \<Rightarrow> bool) \<Rightarrow> 'a parser \<Rightarrow> bool" where
  "yields P p \<longleftrightarrow> (\<forall>ts x ts'. p ts = Inr (x, ts') \<longrightarrow> P x)"

lemma yieldsD: "yields P p \<Longrightarrow> p ts = Inr (x, ts') \<Longrightarrow> P x"
  by (auto simp: yields_def)

text \<open>The same of one result.\<close>

definition good :: "('a \<Rightarrow> bool) \<Rightarrow> expr_error + 'a \<times> token list \<Rightarrow> bool" where
  "good P r \<longleftrightarrow> (\<forall>x ts. r = Inr (x, ts) \<longrightarrow> P x)"

lemma yields_good: "yields P p \<longleftrightarrow> (\<forall>ts. good P (p ts))"
  by (simp add: yields_def good_def)

lemma good_if: "(c \<Longrightarrow> good P a) \<Longrightarrow> (\<not> c \<Longrightarrow> good P b) \<Longrightarrow> good P (if c then a else b)"
  by simp

lemma good_option:
  "(z = None \<Longrightarrow> good P a) \<Longrightarrow> (\<And>x. z = Some x \<Longrightarrow> good P (b x)) \<Longrightarrow>
   good P (case z of None \<Rightarrow> a | Some x \<Rightarrow> b x)"
  by (cases z) simp_all

lemma good_error: "good P (syntax_error k m)" "good P (syntax_hint k m h)" "good P (Inl e)"
  by (simp_all add: good_def)

lemma good_Inr: "good P (Inr (x, ts)) \<longleftrightarrow> P x"
  by (simp add: good_def)

lemma yields_at: "yields P p \<Longrightarrow> good P (p ts)"
  by (simp add: yields_good)

lemma yields_bind: "(\<And>x. yields P (f x)) \<Longrightarrow> yields P (pbind p f)"
  by (fastforce simp: yields_def pbind_def split: sum.splits prod.splits)

lemma yields_bind_both:
  "yields Q p \<Longrightarrow> (\<And>x. Q x \<Longrightarrow> yields P (f x)) \<Longrightarrow> yields P (pbind p f)"
  by (fastforce simp: yields_def pbind_def split: sum.splits prod.splits)

lemma yields_prefix:
  assumes "yields P p" and "\<And>t. yields P (q t)"
  shows "yields P (\<lambda>ts. case take_tok v ts of (Some t, ts') \<Rightarrow> q t ts' | (None, ts') \<Rightarrow> p ts')"
  using assms by (auto simp: yields_good split: prod.split option.split)

lemma yields_result: "P x \<Longrightarrow> yields P (presult x)"
  by (simp add: yields_def presult_def)

lemma yields_error: "yields P (\<lambda>ts. too_deep)"
  by (simp add: yields_def too_deep_def syntax_error_def syntax_hint_def)

lemma yields_checked_field:
  "(\<And>f. f \<in> set sheet_fields \<Longrightarrow> P (mk f)) \<Longrightarrow> yields P (checked_field fld mk)"
  by (auto simp: yields_def checked_field_def sheet_field_check_def syntax_error_def
      syntax_hint_def split: if_splits)

lemma loop_left_yields:
  "yields fields_ok sub \<Longrightarrow> fields_ok left \<Longrightarrow> loop_left k ops sub left ts = Inr (x, ts') \<Longrightarrow> fields_ok x"
proof (induction k ops sub left ts rule: loop_left.induct)
  case (1 k ops sub left ts)
  show ?case
  proof (cases "tk_value (current ts) \<in> set ops")
    case False
    with "1.prems" show ?thesis by (simp add: loop_left.simps [of k])
  next
    case True
    with "1.prems"(3) obtain k' r us where s: "k = Suc k'" "sub (tl ts) = Inr (r, us)"
      and l: "loop_left k' ops sub (Binary (tk_value (current ts)) left r (tk_offset (current ts))) us
        = Inr (x, ts')"
      by (subst (asm) loop_left.simps) (auto split: nat.splits sum.splits)
    have "fields_ok r" by (rule yieldsD [OF "1.prems"(1) s(2)])
    with "1.IH" [OF True s refl "1.prems"(1) _ l] "1.prems"(2) show ?thesis by simp
  qed
qed

lemma chain_yields: "yields fields_ok sub \<Longrightarrow> yields fields_ok (chain_expr ops sub)"
  by (auto simp: yields_def [of _ "chain_expr ops sub"] chain_expr_def split: sum.splits prod.splits
      dest: yieldsD loop_left_yields)

lemma sheet_ref_yields: "yields fields_ok (sheet_ref off)"
proof -
  have a: "yields fields_ok (checked_field fld (\<lambda>f. SheetRef n f off))" for fld n
    by (rule yields_checked_field) simp
  have b: "yields fields_ok (sheet_current off)"
    unfolding yields_def sheet_current_def
    by (auto split: option.splits prod.splits dest: yieldsD [OF a] yieldsD [OF yields_bind [OF a]])
  have c: "yields fields_ok (pbind (need '')'') (\<lambda>_. pbind (need ''.'') (\<lambda>_. pbind ident (\<lambda>i.
      checked_field (tk_value i) (\<lambda>f. SheetRef n f off)))))" for n
    by (intro yields_bind a)
  have d: "yields fields_ok (sheet_numbered off)"
    unfolding yields_def sheet_numbered_def
    by (auto simp: Let_def split: if_splits dest: yieldsD [OF c])
  show ?thesis
    unfolding yields_def sheet_ref_def
    by (auto split: option.splits prod.splits
        dest: yieldsD [OF yields_bind [OF b]] yieldsD [OF yields_bind [OF d]])
qed

lemma var_ref_yields: "yields fields_ok (var_ref off)" and loop_ref_yields: "yields fields_ok (loop_ref off)"
  unfolding var_ref_def loop_ref_def by (intro yields_bind yields_result; simp)+

lemma reserved_yields: "yields fields_ok (reserved_call name off)"
  unfolding reserved_call_def
  by (rule yields_bind) (auto simp: yields_def reserved_rest_def split: sum.splits)

lemma file_call_yields: "yields fields_ok (file_call rc off)"
proof -
  have a: "yields fields_ok (pbind (lift_result r) (\<lambda>p. presult (FileCall p m arg off)))" for r m arg
    by (intro yields_bind yields_result) simp
  have b: "yields fields_ok (file_member rc path off m)" for path m
    unfolding yields_def file_member_def
    by (auto split: if_splits dest: yieldsD [OF a] yieldsD [OF yields_bind [OF yields_bind [OF yields_bind [OF a]]]])
  have c: "yields fields_ok (pbind (need '')'') (\<lambda>_. pbind (need ''.'') (\<lambda>_. pbind ident (\<lambda>m.
          file_member rc path off (tk_value m)))))" for path
    by (intro yields_bind b)
  have d: "yields fields_ok (file_path rc off)"
    unfolding yields_def file_path_def by (auto simp: Let_def split: if_splits dest: yieldsD [OF c])
  show ?thesis unfolding file_call_def by (intro yields_bind d)
qed

lemma primary_yields:
  assumes "yields fields_ok p" shows "yields fields_ok (primary_with rc p)"
proof -
  have a: "yields fields_ok (pbind p (\<lambda>n. pbind (need '')'') (\<lambda>_. presult n)))"
    by (rule yields_bind_both [OF assms]) (intro yields_bind yields_result; assumption)
  have b: "yields fields_ok (pbind (lift_result r) (\<lambda>x. presult (Literal (f x) off)))" for r f off
    by (intro yields_bind yields_result) simp
  show ?thesis
    unfolding yields_good primary_with_def Let_def
    by (intro allI good_if good_option good_error yields_at [OF a] yields_at [OF b]
        yields_at [OF var_ref_yields] yields_at [OF loop_ref_yields] yields_at [OF sheet_ref_yields]
        yields_at [OF file_call_yields] yields_at [OF reserved_yields])
      (simp add: good_Inr)
qed

lemma expr_parsers_yield:
  "yields fields_ok (or_expr rc d) \<and> yields fields_ok (and_expr rc d) \<and>
   yields fields_ok (not_expr rc d) \<and> yields fields_ok (comparison rc d) \<and>
   yields fields_ok (additive rc d) \<and> yields fields_ok (expr_term rc d) \<and>
   yields fields_ok (unary rc d) \<and> yields fields_ok (primary rc d)"
proof (induction d)
  case 0
  then show ?case by (simp add: yields_error)
next
  case (Suc d)
  have un: "yields fields_ok (pbind p (\<lambda>n. presult (Unary op n off)))"
    if "yields fields_ok p" for p op off
    by (rule yields_bind_both [OF that]) (intro yields_result, simp)
  have right: "yields fields_ok (pbind (additive rc d) (\<lambda>r ts'.
         if tk_value (current ts') \<in> set comparison_ops
         then syntax_error (tk_offset (current ts')) ''chained comparisons are unsupported''
         else Inr (Binary op left r off, ts')))" if "fields_ok left" for op left off
    by (rule yields_bind_both [of fields_ok])
      (use Suc.IH that in \<open>auto simp: yields_good good_error good_Inr\<close>)
  have cmp: "yields fields_ok (comparison rc (Suc d))"
    unfolding comparison.simps
  proof (rule yields_bind_both [of fields_ok])
    show "yields fields_ok (additive rc d)" using Suc.IH by simp
    fix left assume l: "fields_ok left"
    show "yields fields_ok (\<lambda>ts. let t = current ts in
       if tk_value t \<in> set comparison_ops then
         pbind (additive rc d) (\<lambda>r ts'.
           if tk_value (current ts') \<in> set comparison_ops
           then syntax_error (tk_offset (current ts')) ''chained comparisons are unsupported''
           else Inr (Binary (tk_value t) left r (tk_offset t), ts')) (tl ts)
       else Inr (left, ts))"
      unfolding yields_good Let_def
      by (intro allI good_if yields_at [OF right [OF l]]) (simp add: good_Inr l)
  qed
  have nt: "yields fields_ok (not_expr rc (Suc d))" and ua: "yields fields_ok (unary rc (Suc d))"
    unfolding not_expr.simps unary.simps using Suc.IH
    by (intro yields_prefix un; simp)+
  from Suc.IH cmp nt ua show ?case
    by (auto intro: chain_yields primary_yields)
qed

lemma parse_fields_ok:
  assumes "parse_expression rc depth s = Inr ex" shows "fields_ok (ex_root ex)"
  using assms conjunct1 [OF expr_parsers_yield [of rc depth]]
  by (auto simp: parse_expression_def parse_tokens_def Let_def dest: yieldsD
      split: if_splits sum.splits prod.splits)

subsection \<open>Properties of parsing\<close>

text \<open>
  C39. A condition that was parsed fails to evaluate only with a positioned expression error
  (a type error, division by zero and integers beyond the float range among them, an undefined
  reference or a reserved call), at a node of the expression or, when the whole condition is
  not a boolean, at its start; the one exception is the plain \<open>RecursionError\<close> of a stack on
  which the tree, nested deeper than the calls that fit, could not be walked. On a stack that
  holds the tree the outcome does not depend on the stack.
\<close>

theorem parsed_conditions_fail_positioned:
  assumes "parse_expression rc depth s = Inr ex"
  shows "(\<forall>c off m h. evaluate rx cx frames (ex_root ex) = Inl (ExprError c off m h) \<longrightarrow>
      evaluation_error c \<and> off \<in> insert 0 (offsets (ex_root ex)) \<or>
      c = RecursionLimitReached \<and> frames < height (ex_root ex)) \<and>
    (height (ex_root ex) \<le> frames \<longrightarrow>
      evaluate rx cx frames (ex_root ex) = evaluate rx cx (height (ex_root ex)) (ex_root ex))"
  using evaluation_error_positioned [OF parse_fields_ok [OF assms]]
    enough_frames [of "ex_root ex" frames rx cx]
  by (auto simp: evaluate_def)

lemma sample_parse:
  "parse_expression (\<lambda>p. None) 20 ''1 / 0'' =
     Inr \<lparr>ex_source = ''1 / 0'', ex_root = Binary ''/'' (Literal (JInt 1) 0) (Literal (JInt 0) 4) 2\<rparr>"
  by code_simp

lemma parsed_conditions_fail_positioned_witness:
  "evaluate (\<lambda>p s. False) (sample_ctx True) 20
     (Binary ''/'' (Literal (JInt 1) 0) (Literal (JInt 0) 4) 2) =
     Inl (ExprError ExpressionTypeError 2 ''division by zero'' ''division by zero'')
   \<and> evaluation_error ExpressionTypeError"
proof -
  have "evaluate (\<lambda>p s. False) (sample_ctx True) 20
     (Binary ''/'' (Literal (JInt 1) 0) (Literal (JInt 0) 4) 2) =
     Inl (ExprError ExpressionTypeError 2 ''division by zero'' ''division by zero'')"
    by (simp add: evaluate_def comparison_ops_def arithmetic_def divide_numbers_def
        division_by_zero_def type_error_def numeral_eq_Suc)
  with parsed_conditions_fail_positioned [OF sample_parse, of "\<lambda>p s. False" "sample_ctx True" 20]
  show ?thesis by simp
qed

text \<open>
  The exception occurs: the loops of the parser build a sum of any length on a stack of a
  fixed depth, as a tree that nests once per operator. Here 20 frames suffice to parse a sum
  of 26 numbers and not to evaluate it, nor to collect its references.
\<close>

definition long_sum :: string where
  "long_sum = concat (replicate 25 ''1+'') @ ''1 > 0''"

lemma long_sum_escapes:
  "case parse_expression (\<lambda>p. None) 20 long_sum of
     Inl e \<Rightarrow> False
   | Inr ex \<Rightarrow> height (ex_root ex) = 27 \<and>
       evaluate (\<lambda>p s. False) (sample_ctx True) 20 (ex_root ex) = recursion_error \<and>
       evaluate (\<lambda>p s. False) (sample_ctx True) 27 (ex_root ex) = Inr True \<and>
       collect_references 20 (ex_root ex) = recursion_error"
  by code_simp

text \<open>
  The lexer accepts a superscript digit after a decimal point, and the conversion of such a
  token raises a plain \<open>ValueError\<close>, which is not one of the positioned expression errors.
\<close>

lemma superscript_number_escapes:
  "parse_expression (\<lambda>p. None) 20 [CHR ''1'', CHR ''.'', CHR 0xB2] =
     Inl (ExprError FloatConversionError 0 [CHR ''1'', CHR ''.'', CHR 0xB2] [CHR ''1'', CHR ''.'', CHR 0xB2])"
  by code_simp

end
