(* ===== verification/Flow.thy ===== *)
theory Flow
  imports Parse Sheet Events
begin

section \<open>Flow control: loops and triggers\<close>

text \<open>
  \<open>daemon/baton/flow.py\<close>, \<open>flow_context.py\<close>, \<open>core/flow_state.py\<close> and the configuration types
  of \<open>core/config/flow.py\<close>: the engine that decides loop iterations and runs trigger chains
  over a job's sheets. An operation is an action on the engine together with the job's
  sheets; a missing sheet or loop is the \<open>KeyError\<close> of the code. The plan digest (a SHA-256
  of the plan's loops and triggers) is that pair itself.
\<close>

subsection \<open>Configuration and state\<close>

record loop_config =
  lc_until :: "string option"
  lc_count :: "int option"
  lc_max_iterations :: int
  lc_cost_limit_usd :: "rat option"
  lc_index :: string

record trigger_config =
  tg_on_success :: "trigger_action list option"
  tg_on_fail :: "trigger_action list option"

record flow_plan =
  fp_loops :: "(span, loop_config) dict"
  fp_triggers :: "(span, trigger_config) dict"
  fp_variables :: jdict

type_synonym plan_digest = "(span, loop_config) dict \<times> (span, trigger_config) dict"

definition digest :: "flow_plan \<Rightarrow> plan_digest" where
  "digest p = (fp_loops p, fp_triggers p)"

datatype loop_phase = Running | AwaitingFacts | Completed

record loop_run =
  lr_index_name :: string
  lr_iteration :: int
  lr_phase :: loop_phase
  lr_completed_reason :: "string option"
  lr_cost_baseline_usd :: rat
  lr_iteration_started_at :: "rat option"
  lr_facts_request_id :: "int option"
  lr_pending_cap_reason :: "string option"

definition new_loop_run :: "string \<Rightarrow> rat \<Rightarrow> loop_run" where
  "new_loop_run idx t =
     \<lparr>lr_index_name = idx, lr_iteration = 1, lr_phase = Running, lr_completed_reason = None,
      lr_cost_baseline_usd = 0, lr_iteration_started_at = Some t, lr_facts_request_id = None,
      lr_pending_cap_reason = None\<rparr>"

datatype chain_phase = Ready | AwaitingRun | AwaitingConcert

record trigger_chain =
  tc_chain_id :: int
  tc_sheet_num :: int
  tc_outcome :: outcome
  tc_fired_epoch :: int
  tc_actions :: "trigger_action list"
  tc_cursor :: nat
  tc_phase :: chain_phase
  tc_attempt :: int
  tc_results :: "json list"

record flow_state =
  fs_loops :: "(span, loop_run) dict"
  fs_chains :: "trigger_chain list"
  fs_next_chain_id :: int
  fs_next_facts_id :: int
  fs_run_cleanup :: "json list"
  fs_queued_skips :: "(int, msg) dict"
  fs_goto_bypass :: "int list"
  fs_pause_reason :: "msg option"
  fs_escalation_pause_owners :: "int set"
  fs_trigger_pause_reason :: "msg option"
  fs_plan_digest :: "plan_digest option"

definition new_flow_state :: flow_state where
  "new_flow_state =
     \<lparr>fs_loops = [], fs_chains = [], fs_next_chain_id = 1, fs_next_facts_id = 1,
      fs_run_cleanup = [], fs_queued_skips = [], fs_goto_bypass = [], fs_pause_reason = None,
      fs_escalation_pause_owners = {}, fs_trigger_pause_reason = None, fs_plan_digest = None\<rparr>"

record action_request =
  rq_chain_id :: int
  rq_cursor :: nat
  rq_sheet_num :: int
  rq_fired_epoch :: int
  rq_attempt :: int
  rq_action :: trigger_action

record engine =
  en_job_id :: string
  en_event_generation :: "int option"
  en_plan :: flow_plan
  en_state :: flow_state
  en_effects :: "action_request list"
  en_events :: "flow_event list"

text \<open>The clock and the standard-library functions that an engine step uses.\<close>

record flow_env =
  fe_now :: rat
  fe_search :: "string \<Rightarrow> string \<Rightarrow> bool"
  fe_compile :: "string \<Rightarrow> string option"
  fe_frames :: nat

type_synonym sheets = "(int, sheet) dict"

type_synonym flow_world = "engine \<times> sheets"

subsection \<open>Construction\<close>

definition prune_stale_plan :: "flow_plan \<Rightarrow> flow_state \<Rightarrow> flow_state" where
  "prune_stale_plan p s =
     (if fs_plan_digest s \<in> {None, Some (digest p)} then s
      else s\<lparr>fs_chains := [],
             fs_loops := filter (\<lambda>(sp, run).
               case dget (fp_loops p) sp of None \<Rightarrow> False
               | Some c \<Rightarrow> lr_index_name run = lc_index c) (items (fs_loops s))\<rparr>)"

definition add_missing_loops :: "rat \<Rightarrow> (span, loop_config) dict \<Rightarrow> (span, loop_run) dict
    \<Rightarrow> (span, loop_run) dict" where
  "add_missing_loops t configs runs =
     fold (\<lambda>(sp, c) rs. if dget rs sp = None then dset rs sp (new_loop_run (lc_index c) t) else rs)
       configs runs"

definition rewind_loop :: "loop_run \<Rightarrow> loop_run" where
  "rewind_loop run =
     (if lr_phase run = AwaitingFacts
      then run\<lparr>lr_phase := Running, lr_facts_request_id := None\<rparr> else run)"

definition rewind_chain :: "trigger_chain \<Rightarrow> trigger_chain" where
  "rewind_chain c =
     (if tc_phase c \<noteq> Ready then c\<lparr>tc_phase := Ready, tc_attempt := tc_attempt c + 1\<rparr> else c)"

definition flow_engine :: "string \<Rightarrow> flow_plan \<Rightarrow> flow_state \<Rightarrow> int option \<Rightarrow> rat \<Rightarrow> engine" where
  "flow_engine job p s gen t =
     (let s1 = prune_stale_plan p s;
          s2 = s1\<lparr>fs_plan_digest := Some (digest p),
                  fs_loops := dmap (\<lambda>_. rewind_loop)
                    (add_missing_loops t (fp_loops p) (fs_loops s1)),
                  fs_chains := map rewind_chain (fs_chains s1)\<rparr>
      in \<lparr>en_job_id = job, en_event_generation = gen, en_plan = p, en_state = s2,
          en_effects = [], en_events = []\<rparr>)"

subsection \<open>Queries\<close>

definition span_width :: "span \<Rightarrow> int" where
  "span_width sp = snd (span_bounds sp) - fst (span_bounds sp)"

definition actions_for :: "engine \<Rightarrow> int \<Rightarrow> outcome \<Rightarrow> trigger_action list" where
  "actions_for en n oc =
     concat (map (\<lambda>(sp, tg).
         case (if oc = Success then tg_on_success tg else tg_on_fail tg) of
           None \<Rightarrow> [] | Some acts \<Rightarrow> acts)
       (sort_key (\<lambda>(sp, tg). span_width sp)
         (filter (\<lambda>(sp, tg). n \<in> set (span_range sp)) (fp_triggers (en_plan en)))))"

definition has_on_fail :: "engine \<Rightarrow> int \<Rightarrow> bool" where
  "has_on_fail en n \<longleftrightarrow>
     list_ex (\<lambda>(sp, tg). n \<in> set (span_range sp) \<and> tg_on_fail tg \<noteq> None) (fp_triggers (en_plan en))"

definition busy :: "engine \<Rightarrow> bool" where
  "busy en \<longleftrightarrow> fs_chains (en_state en) \<noteq> [] \<or>
     list_ex (\<lambda>(sp, run). lr_phase run = AwaitingFacts) (fs_loops (en_state en))"

text \<open>\<open>all(sheets[num].status in TERMINAL for num in ...)\<close>, short-circuiting.\<close>

fun all_terminal :: "sheets \<Rightarrow> int list \<Rightarrow> py_exn + bool" where
  "all_terminal sh [] = Inr True"
| "all_terminal sh (n # ns) =
     (case dget sh n of
        None \<Rightarrow> Inl KeyError
      | Some s \<Rightarrow> if is_terminal (status s) then all_terminal sh ns else Inr False)"

fun boundary_pending_in :: "sheets \<Rightarrow> (span, loop_run) dict \<Rightarrow> py_exn + bool" where
  "boundary_pending_in sh [] = Inr False"
| "boundary_pending_in sh ((sp, run) # ls) =
     (if lr_phase run = Running then
        (case all_terminal sh (span_range sp) of
           Inl e \<Rightarrow> Inl e
         | Inr True \<Rightarrow> Inr True
         | Inr False \<Rightarrow> boundary_pending_in sh ls)
      else boundary_pending_in sh ls)"

definition boundary_pending :: "engine \<Rightarrow> sheets \<Rightarrow> py_exn + bool" where
  "boundary_pending en sh = boundary_pending_in sh (items (fs_loops (en_state en)))"

definition indices_for :: "engine \<Rightarrow> int \<Rightarrow> (string, int) dict" where
  "indices_for en n =
     fold (\<lambda>(sp, run) d. if n \<in> set (span_range sp) \<and> lr_phase run \<noteq> Completed
                         then dset d (lr_index_name run) (lr_iteration run) else d)
       (fs_loops (en_state en)) []"

text \<open>\<open>[sheets[num] for num in nums]\<close>.\<close>

fun sheets_at :: "sheets \<Rightarrow> int list \<Rightarrow> py_exn + sheet list" where
  "sheets_at sh [] = Inr []"
| "sheets_at sh (n # ns) =
     (case dget sh n of
        None \<Rightarrow> Inl KeyError
      | Some s \<Rightarrow> map_sum id ((#) s) (sheets_at sh ns))"

subsection \<open>Access to the engine and the sheets\<close>

definition upd_state :: "(flow_state \<Rightarrow> flow_state) \<Rightarrow> (flow_world, unit) act" where
  "upd_state f = modify (\<lambda>(en, sh). (en\<lparr>en_state := f (en_state en)\<rparr>, sh))"

definition emit :: "(engine \<Rightarrow> flow_event) \<Rightarrow> (flow_world, unit) act" where
  "emit f = modify (\<lambda>(en, sh). (en\<lparr>en_events := en_events en @ [f en]\<rparr>, sh))"

definition effect :: "action_request \<Rightarrow> (flow_world, unit) act" where
  "effect r = modify (\<lambda>(en, sh). (en\<lparr>en_effects := en_effects en @ [r]\<rparr>, sh))"

definition get_flow :: "(flow_world, flow_state) act" where
  "get_flow = pure_op (\<lambda>(en, sh). (en_state en, (en, sh)))"

definition get_engine :: "(flow_world, engine) act" where
  "get_engine = pure_op (\<lambda>(en, sh). (en, (en, sh)))"

text \<open>\<open>sheets[num]\<close>, read or mutated; \<open>KeyError\<close> when it is absent.\<close>

definition sheet_at :: "int \<Rightarrow> (flow_world, sheet) act" where
  "sheet_at n = lift_res (\<lambda>(en, sh). case dget sh n of None \<Rightarrow> Inl KeyError | Some s \<Rightarrow> Inr s)"

definition put_sheet :: "int \<Rightarrow> (sheet \<Rightarrow> sheet) \<Rightarrow> (flow_world, unit) act" where
  "put_sheet n f = bnd (sheet_at n) (\<lambda>_. modify (\<lambda>(en, sh). (en, dadj sh n f)))"

definition members_at :: "span \<Rightarrow> (flow_world, sheet list) act" where
  "members_at sp = lift_res (\<lambda>(en, sh). sheets_at sh (span_range sp))"

definition upd_loop :: "span \<Rightarrow> (loop_run \<Rightarrow> loop_run) \<Rightarrow> (flow_world, unit) act" where
  "upd_loop sp f = upd_state (\<lambda>s. s\<lparr>fs_loops := dadj (fs_loops s) sp f\<rparr>)"

text \<open>The head of the open chains.\<close>

definition upd_chain :: "(trigger_chain \<Rightarrow> trigger_chain) \<Rightarrow> (flow_world, unit) act" where
  "upd_chain f = upd_state (\<lambda>s. s\<lparr>fs_chains :=
     (case fs_chains s of [] \<Rightarrow> [] | c # cs \<Rightarrow> f c # cs)\<rparr>)"

definition skip_sheet :: "msg \<Rightarrow> sheet \<Rightarrow> sheet" where
  "skip_sheet reason s =
     clear_dispatch_block (s\<lparr>status := SKIPPED, error_code := None, error_message := Some reason\<rparr>)"

subsection \<open>Conditions\<close>

fun status_value :: "sheet_status \<Rightarrow> string" where
  "status_value PENDING = ''pending''"
| "status_value READY = ''ready''"
| "status_value DISPATCHED = ''dispatched''"
| "status_value IN_PROGRESS = ''in_progress''"
| "status_value WAITING = ''waiting''"
| "status_value RETRY_SCHEDULED = ''retry_scheduled''"
| "status_value FERMATA = ''fermata''"
| "status_value COMPLETED = ''completed''"
| "status_value FAILED = ''failed''"
| "status_value SKIPPED = ''skipped''"
| "status_value CANCELLED = ''cancelled''"

fun lookup_path :: "json \<Rightarrow> string list \<Rightarrow> json option" where
  "lookup_path v [] = Some v"
| "lookup_path (JObj d) (k # ks) =
     (case dget d k of None \<Rightarrow> None | Some w \<Rightarrow> lookup_path w ks)"
| "lookup_path _ (_ # _) = None"

definition no_file :: file_facts where
  "no_file = \<lparr>ff_exists = False, ff_modified = False, ff_text = None\<rparr>"

definition facts_of :: "sheets \<Rightarrow> int \<Rightarrow> sheet_facts option" where
  "facts_of sh n = map_option (\<lambda>s. \<lparr>sf_num = n, sf_status = status_value (status s),
                                    sf_attempts = attempt_count s\<rparr>) (dget sh n)"

fun find_loop_index :: "string \<Rightarrow> (span, loop_run) dict \<Rightarrow> int option" where
  "find_loop_index name [] = None"
| "find_loop_index name ((sp, run) # ls) =
     (if lr_index_name run = name then Some (lr_iteration run) else find_loop_index name ls)"

definition baton_context :: "sheets \<Rightarrow> flow_state \<Rightarrow> jdict \<Rightarrow> int \<Rightarrow> (string, file_facts) dict
    \<Rightarrow> expr_ctx" where
  "baton_context sh fs vars cur files =
     \<lparr>cx_var = (\<lambda>p. case p of [] \<Rightarrow> None
                    | k # ks \<Rightarrow> (case dget vars k of None \<Rightarrow> None | Some v \<Rightarrow> lookup_path v ks)),
      cx_loop_index = (\<lambda>name. find_loop_index name (fs_loops fs)),
      cx_sheet = facts_of sh,
      cx_current_sheet = facts_of sh cur,
      cx_file = (\<lambda>p. dget_or files p no_file)\<rparr>"

text \<open>The \<open>ExpressionError\<close>s; the other classes are plain Python exceptions.\<close>

fun is_expression_error :: "expr_error \<Rightarrow> bool" where
  "is_expression_error (ExprError c _ _ _) =
     (c \<in> {ExpressionSyntaxError, ExpressionTypeError, UndefinedReferenceError, ReservedSyntaxError})"

fun error_text :: "expr_error \<Rightarrow> msg" where
  "error_text (ExprError _ off m _) = MsgExprError m off"

definition condition_failed :: "string option \<Rightarrow> msg option \<Rightarrow> sheet \<Rightarrow> sheet" where
  "condition_failed until err s =
     s\<lparr>status := FAILED, error_message := Some (MsgFlowCondition until err),
       error_code := Some ''E999''\<rparr>"

subsection \<open>Deciding a loop\<close>

definition emit_loop_completed :: "span \<Rightarrow> string \<Rightarrow> (flow_world, unit) act" where
  "emit_loop_completed sp reason =
     emit (\<lambda>en. case dget (fs_loops (en_state en)) sp of
       None \<Rightarrow> LoopCompleted (en_job_id en) sp [] 0 reason (en_event_generation en)
     | Some run \<Rightarrow> LoopCompleted (en_job_id en) sp (lr_index_name run) (lr_iteration run) reason
                    (en_event_generation en))"

definition complete_loop :: "span \<Rightarrow> string \<Rightarrow> (flow_world, unit) act" where
  "complete_loop sp reason =
     thn (upd_loop sp (\<lambda>r. r\<lparr>lr_phase := Completed, lr_completed_reason := Some reason\<rparr>))
       (emit_loop_completed sp reason)"

definition total_cost_of :: "sheet list \<Rightarrow> rat" where
  "total_cost_of ss = sum_list (map total_cost_usd ss)"

definition all_indices :: "flow_state \<Rightarrow> (string, int) dict" where
  "all_indices fs = fold (\<lambda>(sp, run) d. dset d (lr_index_name run) (lr_iteration run)) (fs_loops fs) []"

definition inner_span :: "span \<Rightarrow> span \<Rightarrow> bool" where
  "inner_span outer inner \<longleftrightarrow> inner \<noteq> outer \<and>
     fst (span_bounds outer) \<le> fst (span_bounds inner) \<and>
     snd (span_bounds inner) \<le> snd (span_bounds outer)"

definition restart_inner :: "span \<Rightarrow> (flow_world, unit) act" where
  "restart_inner sp =
     bnd (members_at sp) (\<lambda>ms.
       upd_loop sp (\<lambda>r. r\<lparr>lr_phase := Running, lr_iteration := 1, lr_completed_reason := None,
                          lr_cost_baseline_usd := total_cost_of ms\<rparr>))"

definition iterate_loop :: "flow_env \<Rightarrow> span \<Rightarrow> loop_run \<Rightarrow> (flow_world, unit) act" where
  "iterate_loop ev sp run =
     bnd (members_at sp) (\<lambda>ms.
     bnd get_flow (\<lambda>fs.
       let cost = total_cost_of ms - lr_cost_baseline_usd run;
           uncertain = list_ex cost_uncertain ms;
           indices = all_indices fs
       in thn (for_each (span_range sp)
                (\<lambda>n. put_sheet n (reset_for_flow ''loop iteration'' indices (fe_now ev))))
         (thn (for_each (filter (inner_span sp) (dkeys (fs_loops fs))) restart_inner)
         (thn (upd_loop sp (\<lambda>r. r\<lparr>lr_iteration := lr_iteration r + 1,
                                  lr_iteration_started_at := Some (fe_now ev)\<rparr>))
         (emit (\<lambda>en. LoopIterating (en_job_id en) sp (lr_index_name run) (lr_iteration run + 1)
                       cost uncertain (en_event_generation en)))))))"

definition sheet_failed :: "sheet \<Rightarrow> bool" where
  "sheet_failed s \<longleftrightarrow> status s = FAILED \<or> status s = CANCELLED \<or>
     (status s = SKIPPED \<and> error_code s \<noteq> None)"

definition cap_reason_of :: "loop_config \<Rightarrow> loop_run \<Rightarrow> sheet list \<Rightarrow> string option" where
  "cap_reason_of c run ms =
     (if (case lc_count c of None \<Rightarrow> False | Some k \<Rightarrow> lr_iteration run \<ge> k)
      then Some ''count_reached''
      else if lr_iteration run \<ge> lc_max_iterations c then Some ''max_iterations''
      else if (case lc_cost_limit_usd c of None \<Rightarrow> False
               | Some cap \<Rightarrow> total_cost_of ms - lr_cost_baseline_usd run > cap)
      then Some ''cost_limit_exceeded''
      else None)"

text \<open>The last step of a decision: a reason ends the loop, none starts the next pass.\<close>

definition conclude_loop :: "flow_env \<Rightarrow> span \<Rightarrow> loop_run \<Rightarrow> string option \<Rightarrow> (flow_world, unit) act" where
  "conclude_loop ev sp run reason =
     (case reason of Some r \<Rightarrow> complete_loop sp r | None \<Rightarrow> iterate_loop ev sp run)"

definition await_facts :: "span \<Rightarrow> string option \<Rightarrow> (flow_world, unit) act" where
  "await_facts sp cap =
     thn (upd_state (\<lambda>s. s\<lparr>fs_loops := dadj (fs_loops s) sp (\<lambda>r. r\<lparr>lr_phase := AwaitingFacts,
             lr_facts_request_id := Some (fs_next_facts_id s), lr_pending_cap_reason := cap\<rparr>)\<rparr>))
       (upd_state (\<lambda>s. s\<lparr>fs_next_facts_id := fs_next_facts_id s + 1\<rparr>))"

definition last_of :: "span \<Rightarrow> int" where
  "last_of sp = snd (span_bounds sp)"

text \<open>Evaluating a condition: the verdict, a caught error, or an exception that escapes.\<close>

definition verdict :: "expr_error + bool \<Rightarrow> ('s, msg + bool) act" where
  "verdict r = (case r of
     Inr b \<Rightarrow> ret (Inr b)
   | Inl e \<Rightarrow>
       if is_expression_error e then ret (Inl (error_text e))
       else throw (if error_class_of e = RecursionLimitReached then RecursionError else ValueError))"

definition decide_until :: "flow_env \<Rightarrow> span \<Rightarrow> loop_run \<Rightarrow> string \<Rightarrow> string option \<Rightarrow> (flow_world, unit) act" where
  "decide_until ev sp run until cap =
     (case parse_expression (fe_compile ev) (fe_frames ev) until of
        Inl _ \<Rightarrow> throw ValueError
      | Inr ex \<Rightarrow>
          (case collect_references (fe_frames ev) (ex_root ex) of
             Inl _ \<Rightarrow> throw RecursionError
           | Inr refs \<Rightarrow>
               if refs_files refs \<noteq> {} then await_facts sp cap
               else
                 bnd get_st (\<lambda>(en, sh).
                 bnd (verdict (evaluate (fe_search ev)
                        (baton_context sh (en_state en) (fp_variables (en_plan en)) (last_of sp) [])
                        (fe_frames ev) (ex_root ex))) (\<lambda>v.
                   case v of
                     Inr True \<Rightarrow> conclude_loop ev sp run (Some ''condition_met'')
                   | Inr False \<Rightarrow> conclude_loop ev sp run cap
                   | Inl err \<Rightarrow>
                       thn (put_sheet (last_of sp) (condition_failed (Some until) (Some err)))
                         (conclude_loop ev sp run (Some ''condition_error''))))))"

definition decide_loop :: "flow_env \<Rightarrow> span \<Rightarrow> loop_run \<Rightarrow> (flow_world, unit) act" where
  "decide_loop ev sp run =
     bnd get_engine (\<lambda>en.
     case dget (fp_loops (en_plan en)) sp of
       None \<Rightarrow> throw KeyError
     | Some c \<Rightarrow>
         bnd (members_at sp) (\<lambda>ms.
           let cap = cap_reason_of c run ms in
           if list_ex sheet_failed ms then conclude_loop ev sp run (Some ''range_failed'')
           else if list_all (\<lambda>s. status s = SKIPPED) ms then conclude_loop ev sp run (Some ''skipped'')
           else case lc_until c of
                  Some until \<Rightarrow> decide_until ev sp run until cap
                | None \<Rightarrow> conclude_loop ev sp run cap))"

subsection \<open>Applying a trigger action\<close>

definition goto_backward :: "flow_env \<Rightarrow> int \<Rightarrow> int \<Rightarrow> (flow_world, int list \<times> int list) act" where
  "goto_backward ev source target =
     thn (for_each [target .. source] (\<lambda>n.
            bnd get_engine (\<lambda>en. put_sheet n (reset_for_flow ''goto'' (indices_for en n) (fe_now ev)))))
       (ret ([target .. source], []))"

fun goto_skips :: "int \<Rightarrow> int \<Rightarrow> int list \<Rightarrow> int list \<Rightarrow> (flow_world, int list) act" where
  "goto_skips source target [] skipped = ret skipped"
| "goto_skips source target (n # ns) skipped =
     bnd (sheet_at n) (\<lambda>s.
       if is_terminal (status s) then goto_skips source target ns skipped
       else if is_active (status s) then
         thn (upd_state (\<lambda>fs. fs\<lparr>fs_queued_skips :=
                dset (fs_queued_skips fs) n (MsgGoto source target)\<rparr>))
           (goto_skips source target ns skipped)
       else
         thn (put_sheet n (skip_sheet (MsgGoto source target)))
           (goto_skips source target ns (skipped @ [n])))"

definition goto_forward :: "flow_env \<Rightarrow> int \<Rightarrow> int \<Rightarrow> (flow_world, int list \<times> int list) act" where
  "goto_forward ev source target =
     bnd (goto_skips source target [source + 1 .. target - 1] []) (\<lambda>skipped.
     bnd (sheet_at target) (\<lambda>s.
       if is_terminal (status s) then
         bnd get_engine (\<lambda>en.
           thn (put_sheet target (reset_for_flow ''goto'' (indices_for en target) (fe_now ev)))
             (ret ([target], skipped)))
       else ret ([], skipped)))"

definition goto_direction :: "int \<Rightarrow> int \<Rightarrow> direction" where
  "goto_direction source target =
     (if target = source then Same else if target > source then Forward else Backward)"

definition do_goto :: "flow_env \<Rightarrow> int \<Rightarrow> int \<Rightarrow> (flow_world, unit) act" where
  "do_goto ev source target =
     bnd (if target \<le> source then goto_backward ev source target
          else goto_forward ev source target) (\<lambda>(resets, skipped).
     thn (upd_state (\<lambda>fs. if target \<in> set (fs_goto_bypass fs) then fs
                          else fs\<lparr>fs_goto_bypass := fs_goto_bypass fs @ [target]\<rparr>))
       (emit (\<lambda>en. GotoRequested (en_job_id en) source target (goto_direction source target)
                     resets skipped (en_event_generation en))))"

definition do_skip :: "int \<Rightarrow> int \<Rightarrow> (flow_world, unit) act" where
  "do_skip source n =
     bnd (sheet_at n) (\<lambda>s.
       if is_active (status s) then
         upd_state (\<lambda>fs. fs\<lparr>fs_queued_skips := dset (fs_queued_skips fs) n (MsgTriggerSkip source)\<rparr>)
       else whn (status s \<noteq> COMPLETED \<and> status s \<noteq> CANCELLED)
              (put_sheet n (skip_sheet (MsgTriggerSkip source))))"

definition escalation_reason :: "int \<Rightarrow> string option \<Rightarrow> msg" where
  "escalation_reason source r =
     (case r of Some s \<Rightarrow> Text s | None \<Rightarrow> MsgTriggerEscalation source)"

definition do_escalate :: "int \<Rightarrow> string option \<Rightarrow> (flow_world, unit) act" where
  "do_escalate source r =
     thn (put_sheet source (\<lambda>s. s\<lparr>status := FERMATA,
            fermata_reason := Some (escalation_reason source r)\<rparr>))
       (upd_state (\<lambda>fs. fs\<lparr>
          fs_escalation_pause_owners := insert source (fs_escalation_pause_owners fs),
          fs_pause_reason := Some (escalation_reason source r)\<rparr>))"

text \<open>An empty \<open>escalate\<close> text is falsy, so it falls through to the no-op.\<close>

fun apply_action :: "flow_env \<Rightarrow> int \<Rightarrow> trigger_action \<Rightarrow> (flow_world, unit) act" where
  "apply_action ev source (Goto target) = do_goto ev source target"
| "apply_action ev source (SkipSpan sp) = for_each (span_range sp) (do_skip source)"
| "apply_action ev source Pause =
     upd_state (\<lambda>fs. fs\<lparr>fs_trigger_pause_reason := Some (MsgTriggerPause source),
                        fs_pause_reason := Some (MsgTriggerPause source)\<rparr>)"
| "apply_action ev source (Escalate r) =
     (if r = Some [] then ret () else do_escalate source r)"
| "apply_action ev source _ = ret ()"

subsection \<open>Settling\<close>

definition purge_skip :: "int \<times> msg \<Rightarrow> (flow_world, bool) act" where
  "purge_skip p =
     (case p of (n, reason) \<Rightarrow>
       bnd (sheet_at n) (\<lambda>s.
         if is_terminal (status s) then
           thn (upd_state (\<lambda>fs. fs\<lparr>fs_queued_skips := ddel (fs_queued_skips fs) n\<rparr>))
          (thn (whn (status s \<noteq> COMPLETED) (put_sheet n (skip_sheet reason)))
            (ret True))
         else ret False))"

definition purge_bypass :: "int \<Rightarrow> (flow_world, bool) act" where
  "purge_bypass n =
     bnd (sheet_at n) (\<lambda>s.
       if is_terminal (status s) then
         thn (upd_state (\<lambda>fs. fs\<lparr>fs_goto_bypass := remove1 n (fs_goto_bypass fs)\<rparr>)) (ret True)
       else ret False)"

fun any_of :: "('s, bool) act list \<Rightarrow> ('s, bool) act" where
  "any_of [] = ret False"
| "any_of (m # ms) = bnd m (\<lambda>a. bnd (any_of ms) (\<lambda>b. ret (a \<or> b)))"

definition purge :: "(flow_world, bool) act" where
  "purge =
     bnd get_flow (\<lambda>fs.
     bnd (any_of (map purge_skip (fs_queued_skips fs))) (\<lambda>a.
     bnd get_flow (\<lambda>fs'.
     bnd (any_of (map purge_bypass (fs_goto_bypass fs'))) (\<lambda>b. ret (a \<or> b)))))"

datatype settle_ctl = Again | Done bool       \<comment> \<open>the value of \<open>changed\<close>, or an early \<open>return True\<close>\<close>

fun action_phase :: "trigger_action \<Rightarrow> chain_phase" where
  "action_phase (RunCommand _) = AwaitingRun"
| "action_phase (Concert _) = AwaitingConcert"
| "action_phase _ = Ready"

definition settle_chain :: "flow_env \<Rightarrow> bool \<Rightarrow> trigger_chain \<Rightarrow> (flow_world, settle_ctl) act" where
  "settle_chain ev changed c =
     (if tc_phase c \<noteq> Ready then ret (Done changed)
      else if tc_cursor c = length (tc_actions c) then
        thn (upd_state (\<lambda>s. s\<lparr>fs_chains := tl (fs_chains s)\<rparr>)) (ret Again)
      else if tc_cursor c > length (tc_actions c) then throw IndexError
      else
        let action = tc_actions c ! tc_cursor c; ph = action_phase action in
        if ph \<noteq> Ready then
          thn (upd_chain (\<lambda>c. c\<lparr>tc_phase := ph\<rparr>))
         (thn (effect \<lparr>rq_chain_id = tc_chain_id c, rq_cursor = tc_cursor c,
                 rq_sheet_num = tc_sheet_num c, rq_fired_epoch = tc_fired_epoch c,
                 rq_attempt = tc_attempt c, rq_action = action\<rparr>)
           (ret (Done True)))
        else
          thn (upd_chain (\<lambda>c. c\<lparr>tc_cursor := Suc (tc_cursor c)\<rparr>))
         (thn (apply_action ev (tc_sheet_num c) action) (ret Again)))"

text \<open>The running loops whose sheets are all terminal, in the order of the state.\<close>

fun ready_loops_in :: "sheets \<Rightarrow> (span, loop_run) dict \<Rightarrow> py_exn + (span \<times> loop_run) list" where
  "ready_loops_in sh [] = Inr []"
| "ready_loops_in sh ((sp, run) # ls) =
     (if lr_phase run = Running then
        (case all_terminal sh (span_range sp) of
           Inl e \<Rightarrow> Inl e
         | Inr t \<Rightarrow> map_sum id (\<lambda>xs. if t then (sp, run) # xs else xs) (ready_loops_in sh ls))
      else ready_loops_in sh ls)"

definition ready_loops :: "(flow_world, (span \<times> loop_run) list) act" where
  "ready_loops = lift_res (\<lambda>(en, sh). ready_loops_in sh (items (fs_loops (en_state en))))"

text \<open>\<open>min(..., key=width)\<close>: the first of the narrowest.\<close>

fun narrowest :: "span \<times> loop_run \<Rightarrow> (span \<times> loop_run) list \<Rightarrow> span \<times> loop_run" where
  "narrowest b [] = b"
| "narrowest b (x # xs) = narrowest (if span_width (fst x) < span_width (fst b) then x else b) xs"

definition settle_step :: "flow_env \<Rightarrow> bool \<Rightarrow> (flow_world, settle_ctl) act" where
  "settle_step ev changed0 =
     bnd purge (\<lambda>p.
       let changed = (changed0 \<or> p) in
       bnd get_flow (\<lambda>fs.
         case fs_chains fs of
           c # _ \<Rightarrow> settle_chain ev changed c
         | [] \<Rightarrow>
             bnd ready_loops (\<lambda>ready.
               case ready of
                 [] \<Rightarrow> ret (Done changed)
               | x # xs \<Rightarrow>
                   (case narrowest x xs of
                      (sp, run) \<Rightarrow> thn (decide_loop ev sp run) (ret Again)))))"

subsection \<open>Settling terminates\<close>

definition chains_of :: "flow_world \<Rightarrow> trigger_chain list" where
  "chains_of w = fs_chains (en_state (fst w))"

definition loops_of :: "flow_world \<Rightarrow> (span, loop_run) dict" where
  "loops_of w = fs_loops (en_state (fst w))"

definition chain_work :: "trigger_chain list \<Rightarrow> nat" where
  "chain_work cs = sum_list (map (\<lambda>c. Suc (length (tc_actions c) - tc_cursor c)) cs)"

lemma chain_work_simps [simp]:
  "chain_work [] = 0"
  "chain_work (c # cs) = Suc (length (tc_actions c) - tc_cursor c) + chain_work cs"
  by (simp_all add: chain_work_def)

text \<open>The loops that stand at a boundary: running, with every sheet of the span terminal.\<close>

definition members_done :: "sheets \<Rightarrow> span \<Rightarrow> bool" where
  "members_done sh sp \<longleftrightarrow>
     (\<forall>n \<in> set (span_range sp). \<exists>s. dget sh n = Some s \<and> is_terminal (status s))"

definition ready_spans :: "flow_world \<Rightarrow> span set" where
  "ready_spans w = {sp. (\<exists>run. dget (loops_of w) sp = Some run \<and> lr_phase run = Running) \<and>
                        members_done (snd w) sp}"

lemma all_terminal_True:
  "all_terminal sh ns = Inr True \<longleftrightarrow> (\<forall>n \<in> set ns. \<exists>s. dget sh n = Some s \<and> is_terminal (status s))"
  by (induction ns) (auto split: option.splits)

lemma all_terminal_done: "all_terminal sh (span_range sp) = Inr True \<longleftrightarrow> members_done sh sp"
  unfolding members_done_def by (rule all_terminal_True)

lemma finite_ready_spans [simp]: "finite (ready_spans w)"
proof (rule finite_subset)
  show "ready_spans w \<subseteq> dom (map_of (loops_of w))" by (auto simp: ready_spans_def)
qed (rule finite_dom_map_of)

lemma ready_loops_in_set:
  "ready_loops_in sh ls = Inr xs \<Longrightarrow>
   set xs = {(sp, run). (sp, run) \<in> set ls \<and> lr_phase run = Running \<and> members_done sh sp}"
proof (induction ls arbitrary: xs)
  case (Cons x ls)
  obtain sp run where x: "x = (sp, run)" by fastforce
  from Cons.prems show ?case
    by (auto simp: x all_terminal_done [symmetric] map_sum_Inr split: if_splits sum.splits
        dest!: Cons.IH)
qed simp

lemma items_set: "(k, v) \<in> set (items d) \<longleftrightarrow> dget d k = Some v"
  by (metis distinct_clearjunk map_of_clearjunk map_of_eq_Some_iff)

lemma narrowest_mem: "narrowest b xs \<in> set (b # xs)"
proof (induction xs arbitrary: b)
  case (Cons x xs)
  from Cons.IH [of "if span_width (fst x) < span_width (fst b) then x else b"]
  show ?case by (auto split: if_splits)
qed simp

text \<open>What leaves the chains and the readiness of every loop alone.\<close>

definition calm :: "flow_world \<Rightarrow> flow_world \<Rightarrow> bool" where
  "calm w w' \<longleftrightarrow> chains_of w' = chains_of w \<and> loops_of w' = loops_of w \<and>
     (\<forall>n. map_option (is_terminal \<circ> status) (dget (snd w') n) =
          map_option (is_terminal \<circ> status) (dget (snd w) n))"

interpretation calm: evolution calm
  by unfold_locales (simp_all add: calm_def)

lemma calm_ready: "calm w w' \<Longrightarrow> ready_spans w' = ready_spans w"
proof -
  assume c: "calm w w'"
  have "members_done (snd w') sp = members_done (snd w) sp" for sp
  proof -
    have "(\<exists>s. dget (snd w') n = Some s \<and> is_terminal (status s)) \<longleftrightarrow>
        (\<exists>s. dget (snd w) n = Some s \<and> is_terminal (status s))" for n
    proof -
      have "map_option (is_terminal \<circ> status) (dget (snd w') n) = Some True \<longleftrightarrow>
          map_option (is_terminal \<circ> status) (dget (snd w) n) = Some True"
        using c by (simp add: calm_def)
      then show ?thesis by (simp add: map_option_eq_Some)
    qed
    then show ?thesis by (simp add: members_done_def)
  qed
  with c show ?thesis by (simp add: ready_spans_def calm_def)
qed

lemma run_upd_state [simp]: "upd_state f (en, sh) = (Inr (), en\<lparr>en_state := f (en_state en)\<rparr>, sh)"
  by (simp add: upd_state_def)

lemma run_emit [simp]: "emit f (en, sh) = (Inr (), en\<lparr>en_events := en_events en @ [f en]\<rparr>, sh)"
  by (simp add: emit_def)

lemma run_effect [simp]: "effect r (en, sh) = (Inr (), en\<lparr>en_effects := en_effects en @ [r]\<rparr>, sh)"
  by (simp add: effect_def)

lemma run_get_flow [simp]: "get_flow (en, sh) = (Inr (en_state en), en, sh)"
  by (simp add: get_flow_def)

lemma run_get_engine [simp]: "get_engine (en, sh) = (Inr en, en, sh)"
  by (simp add: get_engine_def)

lemma run_sheet_at [simp]:
  "sheet_at n (en, sh) = (case dget sh n of None \<Rightarrow> (Inl KeyError, en, sh) | Some s \<Rightarrow> (Inr s, en, sh))"
  by (simp add: sheet_at_def split: option.split)

lemma run_put_sheet [simp]:
  "put_sheet n f (en, sh) =
     (case dget sh n of None \<Rightarrow> (Inl KeyError, en, sh) | Some s \<Rightarrow> (Inr (), en, dadj sh n f))"
  by (simp add: put_sheet_def bnd_def split: option.split)

lemma run_members_at [simp]: "members_at sp (en, sh) = (sheets_at sh (span_range sp), en, sh)"
  by (simp add: members_at_def)

lemma calm_state:
  "(\<And>s. fs_chains (f s) = fs_chains s \<and> fs_loops (f s) = fs_loops s) \<Longrightarrow> calm w (snd (upd_state f w))"
  by (cases w) (simp add: calm_def chains_of_def loops_of_def)

lemma calm_put:
  assumes "\<And>s. dget (snd w) n = Some s \<Longrightarrow> is_terminal (status (f s)) = is_terminal (status s)"
  shows "calm w (snd (put_sheet n f w))"
  using assms by (cases w) (auto simp: calm_def chains_of_def loops_of_def split: option.split)

lemma sheets_atD: "sheets_at sh ns = Inr ss \<Longrightarrow> n \<in> set ns \<Longrightarrow> \<exists>s \<in> set ss. dget sh n = Some s"
  by (induction ns arbitrary: ss) (auto split: option.splits simp: map_sum_Inr)

lemma calm_purge_skip: "evolves calm (purge_skip p)"
  unfolding evolves_def
proof
  fix w :: flow_world
  obtain en sh where w: "w = (en, sh)" by fastforce
  obtain n reason where p: "p = (n, reason)" by fastforce
  show "calm w (snd (purge_skip p w))"
    by (cases "dget sh n")
      (auto simp: w p purge_skip_def bnd_def thn_def whn_def ret_def calm_def chains_of_def
         loops_of_def skip_sheet_def)
qed

lemma calm_purge_bypass: "evolves calm (purge_bypass n)"
  unfolding purge_bypass_def
proof (rule calm.evo_bnd)
  show "evolves calm (sheet_at n)"
    unfolding sheet_at_def by (rule calm.evo_lift_res)
  fix s
  have "evolves calm (upd_state (\<lambda>fs. fs\<lparr>fs_goto_bypass := remove1 n (fs_goto_bypass fs)\<rparr>))"
    unfolding evolves_def by (intro allI calm_state) simp
  then show "evolves calm (if is_terminal (status s)
      then thn (upd_state (\<lambda>fs. fs\<lparr>fs_goto_bypass := remove1 n (fs_goto_bypass fs)\<rparr>)) (ret True)
      else ret False)"
    by (simp add: calm.evo_rules)
qed

lemma calm_any_of: "(\<And>m. m \<in> set ms \<Longrightarrow> evolves calm m) \<Longrightarrow> evolves calm (any_of ms)"
  by (induction ms) (auto intro!: calm.evo_rules)

lemma calm_purge: "evolves calm purge"
proof -
  have g: "evolves calm get_flow" by (simp add: get_flow_def evolves_def calm.evo_refl split: prod.split)
  show ?thesis
    unfolding purge_def
    by (intro calm.evo_bnd g calm.evo_ret calm_any_of) (auto simp: calm_purge_skip calm_purge_bypass)
qed

text \<open>What leaves the chains and the plan alone, whatever it does to loops and sheets.\<close>

definition keeps_chains :: "flow_world \<Rightarrow> flow_world \<Rightarrow> bool" where
  "keeps_chains w w' \<longleftrightarrow> chains_of w' = chains_of w"

interpretation keeps_chains: evolution keeps_chains
  by unfold_locales (simp_all add: keeps_chains_def)

lemma keeps_chains_state:
  "(\<And>s. fs_chains (f s) = fs_chains s) \<Longrightarrow> evolves keeps_chains (upd_state f)"
  by (auto simp: evolves_def keeps_chains_def chains_of_def)

lemma keeps_chains_basic:
  "evolves keeps_chains (sheet_at n)" "evolves keeps_chains (put_sheet n f)"
  "evolves keeps_chains get_flow" "evolves keeps_chains get_engine"
  "evolves keeps_chains (members_at sp)" "evolves keeps_chains (emit g)"
  "evolves keeps_chains (upd_loop sp h)" "evolves keeps_chains ready_loops"
  by (auto simp: evolves_def keeps_chains_def chains_of_def upd_loop_def ready_loops_def
      split: option.split)

lemma keeps_chains_goto_skips: "evolves keeps_chains (goto_skips s t ns acc)"
proof (induction ns arbitrary: acc)
  case Nil
  show ?case unfolding goto_skips.simps by (rule keeps_chains.evo_ret)
next
  case (Cons n ns)
  have q: "evolves keeps_chains (upd_state (\<lambda>fs. fs\<lparr>fs_queued_skips := f fs\<rparr>))" for f
    by (rule keeps_chains_state) simp
  show ?case
    by (auto intro!: keeps_chains.evo_bnd keeps_chains.evo_thn keeps_chains_basic q Cons.IH)
qed

lemma keeps_chains_apply: "evolves keeps_chains (apply_action ev n a)"
proof (cases a)
  case (Goto t)
  have g: "evolves keeps_chains (goto_forward ev n t)" "evolves keeps_chains (goto_backward ev n t)"
    unfolding goto_forward_def goto_backward_def
    by (intro keeps_chains.evo_rules keeps_chains_basic keeps_chains_goto_skips)+
  show ?thesis
    unfolding Goto apply_action.simps do_goto_def
    by (auto intro!: keeps_chains.evo_rules keeps_chains_basic keeps_chains_state g split: prod.split)
next
  case (SkipSpan sp)
  have "evolves keeps_chains (do_skip n k)" for k
    unfolding do_skip_def
    by (intro keeps_chains.evo_rules keeps_chains_basic keeps_chains_state) simp
  then show ?thesis by (simp add: SkipSpan keeps_chains.evo_for_each)
next
  case (Escalate r)
  have "evolves keeps_chains (do_escalate n r)"
    unfolding do_escalate_def by (intro keeps_chains.evo_rules keeps_chains_basic keeps_chains_state) simp
  then show ?thesis by (simp add: Escalate keeps_chains.evo_ret)
qed (auto intro!: keeps_chains.evo_ret keeps_chains_state)

subsection \<open>A decided loop leaves its boundary\<close>

definition decided :: "span \<Rightarrow> flow_world \<Rightarrow> flow_world \<Rightarrow> bool" where
  "decided sp w w' \<longleftrightarrow> chains_of w' = chains_of w \<and> ready_spans w' \<subseteq> ready_spans w - {sp}"

lemma calm_chains: "calm w w' \<Longrightarrow> chains_of w' = chains_of w"
  by (simp add: calm_def)

lemma decided_calm_right: "decided sp w w' \<Longrightarrow> calm w' w'' \<Longrightarrow> decided sp w w''"
  using calm_ready [of w' w''] calm_chains [of w' w''] by (simp add: decided_def)

lemma decided_calm_left: "calm w w' \<Longrightarrow> decided sp w' w'' \<Longrightarrow> decided sp w w''"
  using calm_ready [of w w'] calm_chains [of w w'] by (simp add: decided_def)

lemma calm_emit: "calm w (snd (emit f w))"
  by (cases w) (simp add: calm_def chains_of_def loops_of_def)

lemma decided_upd_loop:
  assumes "\<And>r. lr_phase (f r) \<noteq> Running"
  shows "decided sp w (snd (upd_loop sp f w))"
proof (cases w)
  case (Pair en sh)
  show ?thesis
    using assms by (auto simp: Pair upd_loop_def decided_def ready_spans_def chains_of_def loops_of_def
        split: if_splits)
qed

lemma decided_complete: "decided sp w (snd (complete_loop sp reason w))"
proof -
  let ?w1 = "snd (upd_loop sp (\<lambda>r. r\<lparr>lr_phase := Completed, lr_completed_reason := Some reason\<rparr>) w)"
  have "snd (complete_loop sp reason w) = snd (emit_loop_completed sp reason ?w1)"
    by (cases w) (simp add: complete_loop_def upd_loop_def)
  moreover have "decided sp w ?w1" by (rule decided_upd_loop) simp
  ultimately show ?thesis
    unfolding emit_loop_completed_def using decided_calm_right [OF _ calm_emit] by simp
qed

lemma decided_await: "decided sp w (snd (await_facts sp cap w))"
  by (cases w)
    (auto simp: await_facts_def thn_def decided_def ready_spans_def chains_of_def loops_of_def
      split: if_splits)

text \<open>Resetting every sheet of the span.\<close>

lemma for_each_put:
  "for_each ns (\<lambda>n. put_sheet n (g n)) (en, sh) = (Inr (), w') \<Longrightarrow>
   \<exists>sh'. w' = (en, sh') \<and>
     (\<forall>n. n \<notin> set ns \<longrightarrow> dget sh' n = dget sh n) \<and>
     (\<forall>n \<in> set ns. \<exists>s. dget sh' n = Some (g n s)) \<and> dkeys sh' = dkeys sh"
proof (induction ns arbitrary: sh)
  case (Cons n ns)
  then obtain s where s: "dget sh n = Some s"
    by (auto simp: thn_def bnd_def split: option.splits)
  with Cons.prems have "for_each ns (\<lambda>n. put_sheet n (g n)) (en, dadj sh n (g n)) = (Inr (), w')"
    by (simp add: thn_def bnd_def)
  from Cons.IH [OF this] obtain sh' where sh': "w' = (en, sh')"
    "\<forall>m. m \<notin> set ns \<longrightarrow> dget sh' m = dget (dadj sh n (g n)) m"
    "\<forall>m \<in> set ns. \<exists>s. dget sh' m = Some (g m s)" "dkeys sh' = dkeys (dadj sh n (g n))"
    by blast
  have "\<exists>s. dget sh' n = Some (g n s)"
    using sh'(2,3) s by (cases "n \<in> set ns") auto
  with sh' show ?case by auto
next
  case Nil
  then show ?case by (intro exI [of _ sh]) (simp add: ret_def)
qed

text \<open>Restarting inner loops touches only loops inside the span.\<close>

definition restarts :: "span \<Rightarrow> flow_world \<Rightarrow> flow_world \<Rightarrow> bool" where
  "restarts sp w w' \<longleftrightarrow> chains_of w' = chains_of w \<and> snd w' = snd w \<and>
     (\<forall>q. \<not> inner_span sp q \<longrightarrow> dget (loops_of w') q = dget (loops_of w) q)"

interpretation restarts: evolution "restarts sp" for sp
  by unfold_locales (auto simp: restarts_def)

lemma restarts_inner: "inner_span sp q \<Longrightarrow> evolves (restarts sp) (restart_inner q)"
  unfolding restart_inner_def
  by (intro restarts.evo_bnd)
    (auto simp: evolves_def restarts_def members_at_def upd_loop_def chains_of_def loops_of_def
       inner_span_def)

lemma restarts_all:
  "(\<And>q. q \<in> set qs \<Longrightarrow> inner_span sp q) \<Longrightarrow> evolves (restarts sp) (for_each qs restart_inner)"
  by (induction qs) (auto intro: restarts.evo_ret restarts.evo_thn restarts_inner)

lemma inner_not_done:
  assumes "inner_span sp q" and "\<forall>n \<in> set (span_range sp). \<exists>s. dget sh n = Some s \<and> \<not> is_terminal (status s)"
  shows "\<not> members_done sh q"
proof
  assume m: "members_done sh q"
  let ?n = "fst (span_bounds q)"
  have "?n \<in> set (span_range q)" by (simp add: span_bounds_def)
  moreover have "?n \<in> set (span_range sp)"
    using assms(1) by (auto simp: inner_span_def span_bounds_def)
  ultimately show False using m assms(2) unfolding members_done_def by fastforce
qed

lemma decided_iterate:
  assumes "iterate_loop ev sp run w = (Inr (), w')"
  shows "decided sp w w'"
proof -
  obtain en sh where w: "w = (en, sh)" by fastforce
  let ?ix = "all_indices (en_state en)"
  let ?inner = "filter (inner_span sp) (dkeys (fs_loops (en_state en)))"
  let ?upd = "\<lambda>r. r\<lparr>lr_iteration := lr_iteration r + 1, lr_iteration_started_at := Some (fe_now ev)\<rparr>"
  from assms obtain w1 w2 w3 g where
      r: "for_each (span_range sp) (\<lambda>n. put_sheet n (reset_for_flow ''loop iteration'' ?ix (fe_now ev))) (en, sh)
        = (Inr (), w1)"
    and i: "for_each ?inner restart_inner w1 = (Inr (), w2)"
    and u: "upd_loop sp ?upd w2 = (Inr (), w3)" and e: "emit g w3 = (Inr (), w')"
    unfolding iterate_loop_def w by (auto simp: Let_def dest!: bnd_run_Inr thn_run_Inr)
  from for_each_put [OF r] obtain sh1 where sh1: "w1 = (en, sh1)"
    "\<forall>n. n \<notin> set (span_range sp) \<longrightarrow> dget sh1 n = dget sh n"
    "\<forall>n \<in> set (span_range sp). \<exists>s. dget sh1 n = Some s \<and> \<not> is_terminal (status s)"
    by fastforce
  have "restarts sp w1 (snd (for_each ?inner restart_inner w1))"
    by (rule evolvesD [OF restarts_all]) simp
  with i have rs: "restarts sp w1 w2" by simp
  have w3: "w3 = snd (upd_loop sp ?upd w2)" and w': "w' = snd (emit g w3)" using u e by simp_all
  have nd: "\<not> members_done sh1 q" if "q = sp \<or> inner_span sp q" for q
  proof (cases "q = sp")
    case True
    let ?n = "fst (span_bounds sp)"
    have "?n \<in> set (span_range sp)" by (simp add: span_bounds_def)
    with sh1(3) True show ?thesis unfolding members_done_def by fastforce
  next
    case False
    with that show ?thesis by (intro inner_not_done [OF _ sh1(3)]) simp
  qed
  have "q \<in> ready_spans w \<and> q \<noteq> sp" if "q \<in> ready_spans w'" for q
  proof -
    from that have q3: "q \<in> ready_spans w3" using calm_ready [OF calm_emit] w' by metis
    have sh3: "snd w3 = sh1" using w3 rs sh1(1) by (cases w2) (simp add: upd_loop_def restarts_def)
    with q3 have d: "members_done sh1 q" by (simp add: ready_spans_def)
    with nd have nq: "q \<noteq> sp" "\<not> inner_span sp q" by blast+
    have "dget (loops_of w2) q = dget (loops_of w1) q"
      using rs nq(2) by (simp only: restarts_def) blast
    then have "dget (loops_of w3) q = dget (loops_of w) q"
      using nq(1) w3 sh1(1) w by (cases w2) (simp add: upd_loop_def loops_of_def)
    moreover have "members_done sh q"
      unfolding members_done_def
    proof
      fix n assume n: "n \<in> set (span_range q)"
      with d obtain s where s: "dget sh1 n = Some s" "is_terminal (status s)"
        unfolding members_done_def by blast
      with sh1(3) have "n \<notin> set (span_range sp)" by fastforce
      with s sh1(2) show "\<exists>s. dget sh n = Some s \<and> is_terminal (status s)" by simp
    qed
    ultimately show ?thesis using q3 nq by (simp add: ready_spans_def w)
  qed
  moreover have "chains_of w' = chains_of w"
    using w' w3 rs sh1(1) w
    by (cases w2) (simp add: upd_loop_def restarts_def chains_of_def)
  ultimately show ?thesis by (auto simp: decided_def)
qed

lemma decided_conclude:
  "conclude_loop ev sp run r w = (Inr (), w') \<Longrightarrow> decided sp w w'"
proof (cases r)
  case None
  assume "conclude_loop ev sp run r w = (Inr (), w')"
  with None show ?thesis by (simp add: conclude_loop_def decided_iterate)
next
  case (Some reason)
  assume "conclude_loop ev sp run r w = (Inr (), w')"
  with Some have "w' = snd (complete_loop sp reason w)" by (simp add: conclude_loop_def)
  then show ?thesis by (simp add: decided_complete)
qed

lemma run_verdict: "verdict r w = (Inr v, w') \<Longrightarrow> w' = w"
  by (auto simp: verdict_def split: sum.splits if_splits)

lemma last_in_span: "fst (span_bounds sp) \<le> last_of sp \<and> last_of sp \<le> snd (span_bounds sp)"
  by (simp add: last_of_def span_bounds_def)

lemma decided_until:
  assumes r: "decide_until ev sp run until cap w = (Inr (), w')" and d: "members_done (snd w) sp"
  shows "decided sp w w'"
proof (cases "parse_expression (fe_compile ev) (fe_frames ev) until")
  case (Inl e)
  with r show ?thesis by (simp add: decide_until_def)
next
  case (Inr ex)
  note refs = collect_references_def [of "fe_frames ev" "ex_root ex"] recursion_error_def
  from r Inr have deep: "height (ex_root ex) \<le> fe_frames ev"
    by (simp add: decide_until_def refs split: if_splits)
  show ?thesis
  proof (cases "refs_files (references (ex_root ex)) = {}")
    case False
    with r Inr deep have "w' = snd (await_facts sp cap w)" by (simp add: decide_until_def refs)
    then show ?thesis by (simp add: decided_await)
  next
    case True
    obtain en sh where w: "w = (en, sh)" by fastforce
    let ?fail = "\<lambda>err. put_sheet (last_of sp) (condition_failed (Some until) (Some err))"
    from r Inr True deep obtain v where v:
        "(case v of Inr True \<Rightarrow> conclude_loop ev sp run (Some ''condition_met'')
          | Inr False \<Rightarrow> conclude_loop ev sp run cap
          | Inl err \<Rightarrow> thn (?fail err) (conclude_loop ev sp run (Some ''condition_error''))) w
         = (Inr (), w')"
      by (auto simp: decide_until_def refs w dest!: bnd_run_Inr run_verdict)
    show ?thesis
    proof (cases v)
      case (Inl err)
      with v obtain w1 where a: "?fail err w = (Inr (), w1)"
        and b: "conclude_loop ev sp run (Some ''condition_error'') w1 = (Inr (), w')"
        by (auto dest!: thn_run_Inr)
      have "\<exists>s. dget (snd w) (last_of sp) = Some s \<and> is_terminal (status s)"
        using d last_in_span [of sp] unfolding members_done_def by (metis set_span_range)
      then have "calm w (snd (?fail err w))"
        by (intro calm_put) (auto simp: condition_failed_def)
      with a have "calm w w1" by simp
      then show ?thesis by (rule decided_calm_left [OF _ decided_conclude [OF b]])
    next
      case (Inr b)
      with v show ?thesis by (auto intro: decided_conclude split: bool.splits)
    qed
  qed
qed

lemma decided_decide:
  assumes r: "decide_loop ev sp run w = (Inr (), w')" and d: "members_done (snd w) sp"
  shows "decided sp w w'"
proof -
  obtain en sh where w: "w = (en, sh)" by fastforce
  from r obtain c ms where
    "(if list_ex sheet_failed ms then conclude_loop ev sp run (Some ''range_failed'')
      else if list_all (\<lambda>s. status s = SKIPPED) ms then conclude_loop ev sp run (Some ''skipped'')
      else case lc_until c of
             Some until \<Rightarrow> decide_until ev sp run until (cap_reason_of c run ms)
           | None \<Rightarrow> conclude_loop ev sp run (cap_reason_of c run ms)) w = (Inr (), w')"
    by (auto simp: decide_loop_def w Let_def split: option.splits dest!: bnd_run_Inr)
  then show ?thesis
    using d by (auto intro: decided_conclude decided_until split: if_splits option.splits)
qed

definition settle_measure :: "flow_world \<Rightarrow> nat \<times> nat" where
  "settle_measure w = (chain_work (chains_of w), card (ready_spans w))"

definition lex_less :: "nat \<times> nat \<Rightarrow> nat \<times> nat \<Rightarrow> bool" where
  "lex_less a b \<longleftrightarrow> fst a < fst b \<or> fst a = fst b \<and> snd a < snd b"

lemma lex_less_iff: "(a, b) \<in> less_than <*lex*> less_than \<longleftrightarrow> lex_less a b"
  by (cases a; cases b) (auto simp: lex_less_def)

lemma settle_step_decreases:
  assumes "settle_step ev ch w = (Inr Again, w')"
  shows "lex_less (settle_measure w') (settle_measure w)"
proof -
  obtain p w1 where p: "purge w = (Inr p, w1)" and
    s: "(case chains_of w1 of c # _ \<Rightarrow> settle_chain ev (ch \<or> p) c
         | [] \<Rightarrow> bnd ready_loops (\<lambda>ready. case ready of [] \<Rightarrow> ret (Done (ch \<or> p))
              | x # xs \<Rightarrow> (case narrowest x xs of (sp, run) \<Rightarrow> thn (decide_loop ev sp run) (ret Again)))) w1
        = (Inr Again, w')"
    using assms by (auto simp: settle_step_def chains_of_def Let_def dest!: bnd_run_Inr)
  have calm: "calm w w1" using evolvesD [OF calm_purge, of w] p by simp
  then have m: "settle_measure w1 = settle_measure w"
    by (simp add: settle_measure_def calm_ready calm_chains)
  show ?thesis
  proof (cases "chains_of w1")
    case (Cons c cs)
    obtain en sh where w1: "w1 = (en, sh)" by fastforce
    with s Cons have r: "settle_chain ev (ch \<or> p) c w1 = (Inr Again, w')" by simp
    from Cons w1 have ec: "fs_chains (en_state en) = c # cs" by (simp add: chains_of_def)
    have rdy: "tc_phase c = Ready" and le: "tc_cursor c \<le> length (tc_actions c)"
      using r by (auto simp: settle_chain_def split: if_splits)
    show ?thesis
    proof (cases "tc_cursor c = length (tc_actions c)")
      case True
      with r rdy w1 ec have "chains_of w' = cs"
        by (auto simp: settle_chain_def thn_def bnd_def chains_of_def)
      then show ?thesis
        using m [symmetric] Cons by (simp add: lex_less_def settle_measure_def)
    next
      case False
      with le have lt: "tc_cursor c < length (tc_actions c)" by simp
      let ?a = "tc_actions c ! tc_cursor c"
      have ph: "action_phase ?a = Ready"
        using r rdy lt by (auto simp: settle_chain_def Let_def dest!: thn_run_Inr split: if_splits)
      from r rdy lt ph obtain w2 where
          u: "upd_chain (\<lambda>c. c\<lparr>tc_cursor := Suc (tc_cursor c)\<rparr>) w1 = (Inr (), w2)"
        and a: "apply_action ev (tc_sheet_num c) ?a w2 = (Inr (), w')"
        by (auto simp: settle_chain_def Let_def dest!: thn_run_Inr)
      have "chains_of w2 = c\<lparr>tc_cursor := Suc (tc_cursor c)\<rparr> # cs"
        using u ec w1 by (auto simp: upd_chain_def chains_of_def)
      moreover have "chains_of w' = chains_of w2"
        using evolvesD [OF keeps_chains_apply, of w2 ev "tc_sheet_num c" ?a] a
        by (simp add: keeps_chains_def)
      ultimately show ?thesis
        using m [symmetric] Cons lt by (simp add: lex_less_def settle_measure_def) arith
    qed
  next
    case Nil
    with s obtain x xs sp run where rl: "ready_loops w1 = (Inr (x # xs), w1)"
      and nw: "narrowest x xs = (sp, run)" and d: "decide_loop ev sp run w1 = (Inr (), w')"
      by (auto simp: ready_loops_def split: list.splits prod.splits dest!: bnd_run_Inr thn_run_Inr)
    have "(sp, run) \<in> set (x # xs)" using narrowest_mem [of x xs] nw by simp
    then have rs: "sp \<in> ready_spans w1" and dn: "members_done (snd w1) sp"
      using ready_loops_in_set [of "snd w1" "items (loops_of w1)" "x # xs"] rl
      by (auto simp: ready_loops_def ready_spans_def loops_of_def items_set case_prod_beta)
    have "decided sp w1 w'" by (rule decided_decide [OF d dn])
    then have "chains_of w' = chains_of w1" "ready_spans w' \<subset> ready_spans w1"
      using rs by (auto simp: decided_def)
    then have "card (ready_spans w') < card (ready_spans w1)"
      by (simp add: psubset_card_mono)
    with \<open>chains_of w' = chains_of w1\<close> show ?thesis
      unfolding m [symmetric] by (simp add: lex_less_def settle_measure_def)
  qed
qed

function settle_from :: "flow_env \<Rightarrow> bool \<Rightarrow> flow_world \<Rightarrow> (py_exn + bool) \<times> flow_world" where
  "settle_from ev changed w =
     (case settle_step ev changed w of
        (Inl e, w') \<Rightarrow> (Inl e, w')
      | (Inr (Done b), w') \<Rightarrow> (Inr b, w')
      | (Inr Again, w') \<Rightarrow> settle_from ev True w')"
  by pat_completeness auto
termination
  by (relation "inv_image (less_than <*lex*> less_than) (\<lambda>(ev, ch, w). settle_measure w)")
    (auto dest!: settle_step_decreases [OF sym] simp: lex_less_iff)

declare settle_from.simps [simp del]

definition settle :: "flow_env \<Rightarrow> (flow_world, bool) act" where
  "settle ev = settle_from ev False"

subsection \<open>The operations the baton calls\<close>

definition remove_bypass :: "int \<Rightarrow> (flow_world, unit) act" where
  "remove_bypass n = upd_state (\<lambda>fs. fs\<lparr>fs_goto_bypass := remove1 n (fs_goto_bypass fs)\<rparr>)"

definition take_queued_skip :: "int \<Rightarrow> (flow_world, unit) act" where
  "take_queued_skip n =
     bnd get_flow (\<lambda>fs. case dget (fs_queued_skips fs) n of
       None \<Rightarrow> ret ()
     | Some reason \<Rightarrow>
         thn (upd_state (\<lambda>s. s\<lparr>fs_queued_skips := ddel (fs_queued_skips s) n\<rparr>))
           (bnd (sheet_at n) (\<lambda>s. whn (status s \<noteq> COMPLETED) (put_sheet n (skip_sheet reason)))))"

definition open_chain :: "int \<Rightarrow> outcome \<Rightarrow> trigger_action list \<Rightarrow> (flow_world, unit) act" where
  "open_chain n oc actions =
     bnd (sheet_at n) (\<lambda>s.
     thn (emit (\<lambda>en. SheetTriggerFired (en_job_id en) n oc actions
            (fs_next_chain_id (en_state en)) (dispatch_epoch s) (en_event_generation en)))
       (upd_state (\<lambda>fs. fs\<lparr>
          fs_chains := fs_chains fs @ [\<lparr>tc_chain_id = fs_next_chain_id fs, tc_sheet_num = n,
             tc_outcome = oc, tc_fired_epoch = dispatch_epoch s, tc_actions = actions,
             tc_cursor = 0, tc_phase = Ready, tc_attempt = 1, tc_results = []\<rparr>],
          fs_next_chain_id := fs_next_chain_id fs + 1\<rparr>)))"

definition on_terminal :: "flow_env \<Rightarrow> int \<Rightarrow> outcome option \<Rightarrow> (flow_world, bool) act" where
  "on_terminal ev n oc =
     thn (remove_bypass n)
    (thn (take_queued_skip n)
    (thn (case oc of
            None \<Rightarrow> ret ()
          | Some o' \<Rightarrow>
              bnd get_engine (\<lambda>en. let actions = actions_for en n o'
                in whn (actions \<noteq> []) (open_chain n o' actions)))
      (settle ev)))"

definition drain_effects :: "engine \<Rightarrow> action_request list \<times> engine" where
  "drain_effects en = (en_effects en, en\<lparr>en_effects := []\<rparr>)"

definition drain_events :: "engine \<Rightarrow> flow_event list \<times> engine" where
  "drain_events en = (en_events en, en\<lparr>en_events := []\<rparr>)"

definition action_finished :: "flow_env \<Rightarrow> int \<Rightarrow> nat \<Rightarrow> json \<Rightarrow> (flow_world, bool) act" where
  "action_finished ev cid cursor result =
     bnd get_flow (\<lambda>fs.
       case fs_chains fs of
         [] \<Rightarrow> ret False
       | c # _ \<Rightarrow>
           if tc_chain_id c \<noteq> cid \<or> tc_cursor c \<noteq> cursor \<or> tc_phase c = Ready then ret False
           else
             thn (upd_chain (\<lambda>c. c\<lparr>tc_results := tc_results c @ [result],
                    tc_cursor := Suc (tc_cursor c), tc_phase := Ready, tc_attempt := 1\<rparr>))
            (thn (bnd (settle ev) (\<lambda>_. ret ())) (ret True)))"

text \<open>The verdict on fetched facts: met, unmet, or the text of the error.\<close>

definition facts_verdict :: "flow_env \<Rightarrow> span \<Rightarrow> (string, file_facts) dict \<Rightarrow> string
    \<Rightarrow> (flow_world, msg + bool) act" where
  "facts_verdict ev sp files until =
     (case parse_expression (fe_compile ev) (fe_frames ev) until of
        Inl e \<Rightarrow> verdict (Inl e)
      | Inr ex \<Rightarrow>
          bnd get_st (\<lambda>(en, sh).
            verdict (evaluate (fe_search ev)
              (baton_context sh (en_state en) (fp_variables (en_plan en)) (last_of sp) files)
              (fe_frames ev) (ex_root ex))))"

definition condition_error :: "span \<Rightarrow> string option \<Rightarrow> msg option \<Rightarrow> (flow_world, unit) act" where
  "condition_error sp until err =
     thn (complete_loop sp ''condition_error'') (put_sheet (last_of sp) (condition_failed until err))"

definition facts_ready :: "flow_env \<Rightarrow> span \<Rightarrow> int \<Rightarrow> (string, file_facts) dict \<Rightarrow> string option
    \<Rightarrow> (flow_world, bool) act" where
  "facts_ready ev sp req files err =
     bnd get_engine (\<lambda>en.
       case dget (fs_loops (en_state en)) sp of
         None \<Rightarrow> ret False
       | Some run \<Rightarrow>
           if lr_phase run \<noteq> AwaitingFacts \<or> lr_facts_request_id run \<noteq> Some req then ret False
           else
             let cap = lr_pending_cap_reason run in
             thn (upd_loop sp (\<lambda>r. r\<lparr>lr_facts_request_id := None, lr_pending_cap_reason := None\<rparr>))
               (case dget (fp_loops (en_plan en)) sp of
                  None \<Rightarrow> throw KeyError
                | Some c \<Rightarrow>
                    thn (case (err, lc_until c) of
                           (None, Some until) \<Rightarrow>
                             bnd (facts_verdict ev sp files until) (\<lambda>v.
                               case v of
                                 Inl e \<Rightarrow> condition_error sp (Some until) (Some e)
                               | Inr True \<Rightarrow> complete_loop sp ''condition_met''
                               | Inr False \<Rightarrow>
                                   (case cap of
                                      Some r \<Rightarrow> complete_loop sp r
                                    | None \<Rightarrow>
                                        thn (upd_loop sp (\<lambda>r. r\<lparr>lr_phase := Running\<rparr>))
                                          (iterate_loop ev sp run)))
                         | _ \<Rightarrow> condition_error sp (lc_until c) (map_option Text err))
                      (ret True)))"

subsection \<open>Settled: nothing left to decide\<close>

text \<open>
  A settled flow waits for the outside (the first open chain waits for its command or
  concert) or has no open chain and no loop at its boundary.
\<close>

definition settled :: "flow_world \<Rightarrow> bool" where
  "settled w \<longleftrightarrow>
     (case chains_of w of
        c # _ \<Rightarrow> tc_phase c \<noteq> Ready
      | [] \<Rightarrow> ready_spans w = {} \<and> boundary_pending (fst w) (snd w) = Inr False)"

lemma no_ready_not_pending:
  "ready_loops_in sh ls = Inr [] \<Longrightarrow> boundary_pending_in sh ls = Inr False"
proof (induction ls)
  case (Cons x ls)
  obtain sp run where x: "x = (sp, run)" by fastforce
  from Cons show ?case
    by (auto simp: x map_sum_Inr split: if_splits sum.splits bool.splits)
qed simp

lemma settle_step_done:
  assumes "settle_step ev ch w = (Inr (Done b), w')" shows "settled w'"
proof -
  obtain p w1 where s: "(case chains_of w1 of c # _ \<Rightarrow> settle_chain ev (ch \<or> p) c
         | [] \<Rightarrow> bnd ready_loops (\<lambda>ready. case ready of [] \<Rightarrow> ret (Done (ch \<or> p))
              | x # xs \<Rightarrow> (case narrowest x xs of (sp, run) \<Rightarrow> thn (decide_loop ev sp run) (ret Again)))) w1
        = (Inr (Done b), w')"
    using assms by (auto simp: settle_step_def chains_of_def Let_def dest!: bnd_run_Inr)
  obtain en sh where w1: "w1 = (en, sh)" by fastforce
  show ?thesis
  proof (cases "chains_of w1")
    case (Cons c cs)
    with s have r: "settle_chain ev (ch \<or> p) c w1 = (Inr (Done b), w')" by simp
    from Cons w1 have ec: "fs_chains (en_state en) = c # cs" by (simp add: chains_of_def)
    from r ec show ?thesis
      by (auto simp: w1 settle_chain_def settled_def chains_of_def Let_def thn_def bnd_def upd_chain_def
          split: if_splits sum.splits prod.splits)
  next
    case Nil
    with s w1 have rl: "ready_loops_in sh (items (fs_loops (en_state en))) = Inr []" and "w' = w1"
      by (auto simp: ready_loops_def split: list.splits prod.splits dest!: bnd_run_Inr thn_run_Inr)
    then show ?thesis
      using Nil w1 ready_loops_in_set [OF rl] no_ready_not_pending [OF rl]
      by (auto simp: settled_def ready_spans_def loops_of_def boundary_pending_def items_set)
  qed
qed

lemma settle_from_settled: "settle_from ev ch w = (Inr b, w') \<Longrightarrow> settled w'"
proof (induction ev ch w rule: settle_from.induct)
  case (1 ev ch w)
  obtain r w1 where s: "settle_step ev ch w = (r, w1)" by (metis surj_pair)
  show ?case
  proof (cases "r = Inr Again")
    case True
    with s "1.prems" have "settle_from ev True w1 = (Inr b, w')"
      by (subst (asm) settle_from.simps) simp
    with "1.IH" [OF s [symmetric] True refl] show ?thesis by simp
  next
    case False
    with s "1.prems" have "r = Inr (Done b)" "w' = w1"
      by (subst (asm) settle_from.simps; auto split: sum.splits settle_ctl.splits)+
    with s show ?thesis by (simp add: settle_step_done)
  qed
qed

lemma settle_settled: "settle ev w = (Inr b, w') \<Longrightarrow> settled w'"
  unfolding settle_def by (rule settle_from_settled)

text \<open>An invariant of steps is one of settling.\<close>

lemma settle_from_evolves:
  assumes tr: "\<And>s t u. R s t \<Longrightarrow> R t u \<Longrightarrow> R s u" and st: "\<And>ch. evolves R (settle_step ev ch)"
  shows "R w (snd (settle_from ev ch w))"
  using st
proof (induction ev ch w rule: settle_from.induct)
  case (1 ev ch w)
  obtain r w1 where s: "settle_step ev ch w = (r, w1)" by (metis surj_pair)
  have one: "R w w1" using evolvesD [OF "1.prems", of w ch] s by simp
  show ?case
  proof (cases "r = Inr Again")
    case True
    with s have "settle_from ev ch w = settle_from ev True w1" by (subst settle_from.simps) simp
    with tr [OF one] "1.IH" [OF s [symmetric]] "1.prems" True show ?thesis by simp
  next
    case False
    with s have "snd (settle_from ev ch w) = w1"
      by (subst settle_from.simps) (auto split: sum.splits settle_ctl.splits)
    with one show ?thesis by simp
  qed
qed

lemma settle_evolves:
  assumes "\<And>s t u. R s t \<Longrightarrow> R t u \<Longrightarrow> R s u" and "\<And>ch. evolves R (settle_step ev ch)"
  shows "evolves R (settle ev)"
proof -
  have "R w (snd (settle_from ev False w))" for w
  proof (rule settle_from_evolves)
    show "R s u" if "R s t" "R t u" for s t u using that by (rule assms(1))
  qed (rule assms(2))
  then show ?thesis by (simp add: evolves_def settle_def)
qed

subsection \<open>What the engine does to the sheets, one by one\<close>

text \<open>
  The engine keeps its plan and the set of sheets, and changes a sheet in four ways only: it
  reopens it, skips it, fails it on a bad condition, or puts it in FERMATA. A preorder on
  sheets that these respect is respected by every operation of the engine, sheet by sheet.
\<close>

definition sheetwise :: "(sheet \<Rightarrow> sheet \<Rightarrow> bool) \<Rightarrow> flow_world \<Rightarrow> flow_world \<Rightarrow> bool" where
  "sheetwise Q w w' \<longleftrightarrow> en_plan (fst w') = en_plan (fst w) \<and> dkeys (snd w') = dkeys (snd w) \<and>
     (\<forall>n s. dget (snd w) n = Some s \<longrightarrow> (\<exists>s'. dget (snd w') n = Some s' \<and> Q s s'))"

locale sheet_relation =
  fixes Q :: "sheet \<Rightarrow> sheet \<Rightarrow> bool"
  assumes Q_refl: "Q s s"
    and Q_trans: "Q s t \<Longrightarrow> Q t u \<Longrightarrow> Q s u"
    and Q_reset: "Q s (reset_for_flow c i now s)"
    and Q_skip: "Q s (skip_sheet m s)"
    and Q_condition: "Q s (condition_failed until err s)"
    and Q_fermata: "Q s (s\<lparr>status := FERMATA, fermata_reason := fr\<rparr>)"

sublocale sheet_relation \<subseteq> w: evolution "sheetwise Q"
proof
  show "sheetwise Q s s" for s by (simp add: sheetwise_def Q_refl)
  show "sheetwise Q s u" if st: "sheetwise Q s t" and tu: "sheetwise Q t u" for s t u
    unfolding sheetwise_def
  proof (intro conjI allI impI)
    show "en_plan (fst u) = en_plan (fst s)" "dkeys (snd u) = dkeys (snd s)"
      using st tu by (simp_all add: sheetwise_def)
    fix n x assume "dget (snd s) n = Some x"
    then obtain y where y: "dget (snd t) n = Some y" "Q x y" using st by (auto simp: sheetwise_def)
    then obtain z where "dget (snd u) n = Some z" "Q y z" using tu by (auto simp: sheetwise_def)
    with y(2) show "\<exists>s'. dget (snd u) n = Some s' \<and> Q x s'" by (blast intro: Q_trans)
  qed
qed

context sheet_relation begin

lemma same: "en_plan (fst w') = en_plan (fst w) \<Longrightarrow> snd w' = snd w \<Longrightarrow> sheetwise Q w w'"
  by (simp add: sheetwise_def Q_refl)

lemma state: "evolves (sheetwise Q) (upd_state f)"
  by (auto simp: evolves_def intro: same)

lemma basic:
  "evolves (sheetwise Q) (sheet_at n)" "evolves (sheetwise Q) get_flow"
  "evolves (sheetwise Q) get_engine" "evolves (sheetwise Q) (members_at sp)"
  "evolves (sheetwise Q) (emit g)" "evolves (sheetwise Q) (effect r)"
  "evolves (sheetwise Q) (upd_loop sp h)" "evolves (sheetwise Q) ready_loops"
  "evolves (sheetwise Q) (upd_chain k)" "evolves (sheetwise Q) get_st"
  by (auto simp: evolves_def upd_loop_def upd_chain_def ready_loops_def intro!: same
      split: option.split)

lemma put: "(\<And>s. Q s (f s)) \<Longrightarrow> evolves (sheetwise Q) (put_sheet n f)"
  by (auto simp: evolves_def sheetwise_def Q_refl split: option.split)

lemmas ops = w.evo_rules basic state put Q_reset Q_skip Q_condition Q_fermata

lemma any_of: "(\<And>m. m \<in> set ms \<Longrightarrow> evolves (sheetwise Q) m) \<Longrightarrow> evolves (sheetwise Q) (any_of ms)"
  by (induction ms) (auto intro!: w.evo_rules)

lemma purge: "evolves (sheetwise Q) purge"
proof -
  have "evolves (sheetwise Q) (purge_skip p)" "evolves (sheetwise Q) (purge_bypass n)" for p n
    unfolding purge_skip_def purge_bypass_def by (cases p; auto intro!: ops)+
  then show ?thesis
    unfolding purge_def by (intro w.evo_bnd basic w.evo_ret any_of) auto
qed

lemma goto_skips: "evolves (sheetwise Q) (goto_skips s t ns acc)"
proof (induction ns arbitrary: acc)
  case Nil
  show ?case unfolding goto_skips.simps by (rule w.evo_ret)
next
  case (Cons n ns)
  show ?case unfolding goto_skips.simps by (intro ops Cons.IH)
qed

lemma applied: "evolves (sheetwise Q) (apply_action ev n a)"
proof (cases a)
  case (Goto t)
  have g: "evolves (sheetwise Q) (goto_forward ev n t)" "evolves (sheetwise Q) (goto_backward ev n t)"
    unfolding goto_forward_def goto_backward_def by (intro ops goto_skips)+
  show ?thesis
    unfolding Goto apply_action.simps do_goto_def
    by (intro w.evo_bnd) (auto intro!: ops g split: prod.split)
next
  case (SkipSpan sp)
  have "evolves (sheetwise Q) (do_skip n k)" for k
    unfolding do_skip_def by (intro ops)
  then show ?thesis by (simp add: SkipSpan w.evo_for_each)
next
  case (Escalate r)
  have "evolves (sheetwise Q) (do_escalate n r)"
    unfolding do_escalate_def by (intro ops)
  then show ?thesis by (simp add: Escalate w.evo_ret)
qed (auto intro!: ops)

lemma complete: "evolves (sheetwise Q) (complete_loop sp r)"
  unfolding complete_loop_def emit_loop_completed_def by (intro ops)

lemma iterate: "evolves (sheetwise Q) (iterate_loop ev sp run)"
proof -
  have "evolves (sheetwise Q) (restart_inner q)" for q
    unfolding restart_inner_def by (intro ops)
  then show ?thesis
    unfolding iterate_loop_def Let_def by (intro ops) (simp_all add: w.evo_for_each)
qed

lemma conclude: "evolves (sheetwise Q) (conclude_loop ev sp run r)"
  unfolding conclude_loop_def by (intro ops complete iterate)

lemma verdict: "evolves (sheetwise Q) (verdict r)"
  unfolding verdict_def by (auto intro!: ops split: sum.split)

lemma until: "evolves (sheetwise Q) (decide_until ev sp run u cap)"
proof (cases "parse_expression (fe_compile ev) (fe_frames ev) u")
  case (Inl e)
  then show ?thesis unfolding decide_until_def by (simp add: w.evo_throw)
next
  case (Inr ex)
  have a: "evolves (sheetwise Q) (await_facts sp cap)" unfolding await_facts_def by (intro ops)
  have c: "evolves (sheetwise Q) (case v of Inr True \<Rightarrow> conclude_loop ev sp run (Some ''condition_met'')
      | Inr False \<Rightarrow> conclude_loop ev sp run cap
      | Inl err \<Rightarrow> thn (put_sheet (last_of sp) (condition_failed (Some u) (Some err)))
          (conclude_loop ev sp run (Some ''condition_error'')))" for v
    by (auto intro!: ops conclude split: sum.split bool.split)
  show ?thesis
    unfolding decide_until_def
    by (auto simp: Inr intro!: a basic w.evo_throw w.evo_bnd [OF basic(10)] w.evo_bnd [OF verdict] c
        split: prod.split sum.split)
qed

lemma decide: "evolves (sheetwise Q) (decide_loop ev sp run)"
  unfolding decide_loop_def Let_def
  by (intro ops conclude until)

lemma settle_chain: "evolves (sheetwise Q) (settle_chain ev ch c)"
  unfolding settle_chain_def Let_def by (intro ops applied)

lemma settle_step: "evolves (sheetwise Q) (settle_step ev ch)"
  unfolding settle_step_def Let_def
  by (intro w.evo_bnd purge basic)
    (auto intro!: ops settle_chain decide split: list.split prod.split)

lemma settle: "evolves (sheetwise Q) (settle ev)"
  by (rule settle_evolves) (auto intro: w.evo_trans settle_step)

lemma on_terminal: "evolves (sheetwise Q) (on_terminal ev n oc)"
proof -
  have "evolves (sheetwise Q) (take_queued_skip n)" "evolves (sheetwise Q) (open_chain n o' as)" for o' as
    unfolding take_queued_skip_def open_chain_def by (intro ops)+
  then show ?thesis
    unfolding on_terminal_def remove_bypass_def Let_def by (intro ops settle)
qed

lemma action_finished: "evolves (sheetwise Q) (action_finished ev cid cur res)"
  unfolding action_finished_def
  by (intro w.evo_bnd basic) (auto intro!: ops settle split: list.split)

lemma facts_ready: "evolves (sheetwise Q) (facts_ready ev sp req files err)"
proof -
  have fv: "evolves (sheetwise Q) (facts_verdict ev sp files u)" for u
    unfolding facts_verdict_def
    by (auto intro!: verdict w.evo_bnd [OF basic(10)] split: sum.split prod.split)
  have ce: "evolves (sheetwise Q) (condition_error sp u e)" for u e
    unfolding condition_error_def by (intro ops complete)
  show ?thesis
    unfolding facts_ready_def Let_def
    by (intro ops)
      (auto intro!: w.evo_bnd [OF fv] ce complete iterate ops
         split: option.split sum.split bool.split)
qed

end

subsection \<open>The books: money spent is never lost\<close>

text \<open>
  No flow operation loses a sheet, its costs, its attempts or its epoch: resets only move
  the epoch forward.
\<close>

definition books :: "flow_world \<Rightarrow> flow_world \<Rightarrow> bool" where
  "books w w' \<longleftrightarrow> en_plan (fst w') = en_plan (fst w) \<and> dkeys (snd w') = dkeys (snd w) \<and>
     (\<forall>n s. dget (snd w) n = Some s \<longrightarrow>
        (\<exists>s'. dget (snd w') n = Some s' \<and> total_cost_usd s' = total_cost_usd s \<and>
           total_duration_seconds s' = total_duration_seconds s \<and>
           attempt_results s' = attempt_results s \<and> dispatch_epoch s \<le> dispatch_epoch s'))"

definition same_account :: "sheet \<Rightarrow> sheet \<Rightarrow> bool" where
  "same_account s s' \<longleftrightarrow> total_cost_usd s' = total_cost_usd s \<and>
     total_duration_seconds s' = total_duration_seconds s \<and>
     attempt_results s' = attempt_results s \<and> dispatch_epoch s \<le> dispatch_epoch s'"

lemma books_sheetwise: "books = sheetwise same_account"
  by (intro ext) (simp add: books_def sheetwise_def same_account_def)

lemma restore_primary_attempts [simp]:
  "attempt_results (restore_primary_identity s) = attempt_results s"
  by (simp add: restore_primary_identity_def split: option.split)

interpretation account: sheet_relation same_account
  by unfold_locales (auto simp: same_account_def reset_for_flow_def Let_def
      clear_dispatch_block_def skip_sheet_def condition_failed_def)

lemmas books_settle = account.settle [folded books_sheetwise]
lemmas books_on_terminal = account.on_terminal [folded books_sheetwise]
lemmas books_action_finished = account.action_finished [folded books_sheetwise]
lemmas books_facts_ready = account.facts_ready [folded books_sheetwise]

subsection \<open>Iteration caps\<close>

definition within_caps :: "loop_config \<Rightarrow> int \<Rightarrow> bool" where
  "within_caps c i \<longleftrightarrow> i \<le> max 1 (lc_max_iterations c) \<and>
     (\<forall>k. lc_count c = Some k \<longrightarrow> i \<le> max 1 k)"

definition may_iterate :: "loop_config \<Rightarrow> int \<Rightarrow> bool" where
  "may_iterate c i \<longleftrightarrow> i < lc_max_iterations c \<and> (\<forall>k. lc_count c = Some k \<longrightarrow> i < k)"

lemma may_iterate_within: "may_iterate c i \<Longrightarrow> within_caps c (i + 1)"
  by (auto simp: may_iterate_def within_caps_def max_def)

lemma within_caps_1 [simp]: "within_caps c 1"
  by (simp add: within_caps_def)

lemma cap_reason_None: "cap_reason_of c run ms = None \<Longrightarrow> may_iterate c (lr_iteration run)"
  by (auto simp: cap_reason_of_def may_iterate_def split: if_splits option.splits)

definition run_capped :: "loop_config \<Rightarrow> loop_run \<Rightarrow> bool" where
  "run_capped c run \<longleftrightarrow> within_caps c (lr_iteration run) \<and>
     (lr_phase run = AwaitingFacts \<and> lr_facts_request_id run \<noteq> None \<and>
        lr_pending_cap_reason run = None \<longrightarrow> may_iterate c (lr_iteration run))"

definition capped_loops :: "(span, loop_config) dict \<Rightarrow> (span, loop_run) dict \<Rightarrow> bool" where
  "capped_loops cs rs \<longleftrightarrow>
     (\<forall>sp run c. dget rs sp = Some run \<longrightarrow> dget cs sp = Some c \<longrightarrow> run_capped c run)"

definition capped :: "flow_world \<Rightarrow> bool" where
  "capped w \<longleftrightarrow> capped_loops (fp_loops (en_plan (fst w))) (loops_of w)"

text \<open>At a decision: the loop is the one in the state.\<close>

definition capped_at :: "span \<Rightarrow> loop_run \<Rightarrow> loop_config \<Rightarrow> flow_world \<Rightarrow> bool" where
  "capped_at sp run c w \<longleftrightarrow> capped w \<and> dget (loops_of w) sp = Some run \<and>
     dget (fp_loops (en_plan (fst w))) sp = Some c"

lemma capped_keep_basic:
  assumes "P = capped \<or> P = capped_at sp run c"
  shows "evolves (keeps P) (sheet_at n)" "evolves (keeps P) (put_sheet n f)"
    "evolves (keeps P) get_flow" "evolves (keeps P) get_engine" "evolves (keeps P) get_st"
    "evolves (keeps P) (members_at q)" "evolves (keeps P) (emit g)" "evolves (keeps P) (effect r)"
    "evolves (keeps P) ready_loops"
  using assms
  by (auto simp: evolves_def keeps_def capped_def capped_at_def loops_of_def ready_loops_def
      split: option.split)

lemmas capped_at_basic = capped_keep_basic [OF disjI2 [OF refl]]
lemmas capped_basic = capped_keep_basic [OF disjI1 [OF refl]]

lemma capped_keep_state:
  assumes "P = capped \<or> P = capped_at sp run c" and "\<And>s. fs_loops (f s) = fs_loops s"
  shows "evolves (keeps P) (upd_state f)"
  using assms by (auto simp: evolves_def keeps_def capped_def capped_at_def loops_of_def)

lemma capped_loop:
  assumes "\<And>r. run_capped c (f r)"
  shows "ensures (capped_at sp run c) (upd_loop sp f) capped"
  using assms
  by (auto simp: ensures_def capped_at_def capped_def capped_loops_def upd_loop_def loops_of_def
      split: if_splits)

lemma capped_loop_at:
  assumes "run_capped c (f run)"
  shows "ensures (capped_at sp run c) (upd_loop sp f) capped"
  using assms
  by (auto simp: ensures_def capped_at_def capped_def capped_loops_def upd_loop_def loops_of_def
      split: if_splits)

lemma capped_at_capped: "capped_at sp run c w \<Longrightarrow> capped w"
  by (simp add: capped_at_def)

lemma capped_complete: "ensures (capped_at sp run c) (complete_loop sp reason) capped"
  unfolding complete_loop_def emit_loop_completed_def
proof (rule ensures_thn)
  show "ensures (capped_at sp run c)
      (upd_loop sp (\<lambda>r. r\<lparr>lr_phase := Completed, lr_completed_reason := Some reason\<rparr>)) capped"
    unfolding ensures_def
  proof (intro allI impI)
    fix w assume a: "capped_at sp run c w"
    then have "run_capped c run" unfolding capped_at_def capped_def capped_loops_def by blast
    then have "run_capped c (run\<lparr>lr_phase := Completed, lr_completed_reason := Some reason\<rparr>)"
      by (simp add: run_capped_def)
    from ensuresD [OF capped_loop_at [of c "\<lambda>r. r\<lparr>lr_phase := Completed, lr_completed_reason := Some reason\<rparr>", OF this] a]
    show "capped (snd (upd_loop sp (\<lambda>r. r\<lparr>lr_phase := Completed, lr_completed_reason := Some reason\<rparr>) w))" .
  qed
qed (auto simp: ensures_keeps capped_basic)

lemma capped_await:
  "(cap = None \<Longrightarrow> may_iterate c (lr_iteration run)) \<Longrightarrow>
   ensures (capped_at sp run c) (await_facts sp cap) capped"
  unfolding await_facts_def
  by (auto simp: ensures_def thn_def capped_at_def capped_def capped_loops_def loops_of_def run_capped_def
      split: if_splits)

lemma capped_at_for_each:
  "(\<And>x. evolves (keeps P) (f x)) \<Longrightarrow> evolves (keeps P) (for_each xs f)"
  by (rule keeping.evo_for_each)

lemma capped_at_inner:
  assumes "inner_span sp q" shows "evolves (keeps (capped_at sp run c)) (restart_inner q)"
proof -
  have "q \<noteq> sp" using assms by (auto simp: inner_span_def)
  then have "evolves (keeps (capped_at sp run c)) (upd_loop q (\<lambda>r. r\<lparr>lr_phase := Running,
      lr_iteration := 1, lr_completed_reason := None, lr_cost_baseline_usd := x\<rparr>))" for x
    by (auto simp: evolves_def keeps_def capped_at_def capped_def capped_loops_def upd_loop_def
        loops_of_def run_capped_def)
  then show ?thesis
    unfolding restart_inner_def by (intro keeping.evo_bnd capped_at_basic)
qed

lemma capped_at_inner_all:
  "(\<And>q. q \<in> set qs \<Longrightarrow> inner_span sp q) \<Longrightarrow>
   evolves (keeps (capped_at sp run c)) (for_each qs restart_inner)"
  by (induction qs) (auto intro: keeping.evo_ret keeping.evo_thn capped_at_inner)

lemma capped_iterate:
  assumes "may_iterate c (lr_iteration run)" and "lr_phase run \<noteq> AwaitingFacts"
  shows "ensures (capped_at sp run c) (iterate_loop ev sp run') capped"
proof -
  let ?P = "capped_at sp run c"
  have up: "ensures ?P (upd_loop sp (\<lambda>r. r\<lparr>lr_iteration := lr_iteration r + 1,
      lr_iteration_started_at := Some (fe_now ev)\<rparr>)) capped"
    by (rule capped_loop_at) (simp add: run_capped_def assms may_iterate_within)
  have k: "ensures ?P m ?P" if "evolves (keeps ?P) m" for m :: "(flow_world, 'a) act"
    using that by (simp add: ensures_keeps)
  have inn: "evolves (keeps ?P) (for_each (filter (inner_span sp) qs) restart_inner)" for qs
    by (rule capped_at_inner_all) simp
  have puts: "evolves (keeps ?P) (for_each ns (\<lambda>n. put_sheet n (g n)))" for ns g
    by (intro keeping.evo_for_each capped_at_basic)
  have em: "ensures capped (emit g) capped" for g
    unfolding ensures_keeps by (intro capped_basic)
  have body: "ensures ?P (thn (for_each ns (\<lambda>n. put_sheet n (g n)))
      (thn (for_each (filter (inner_span sp) qs) restart_inner)
      (thn (upd_loop sp (\<lambda>r. r\<lparr>lr_iteration := lr_iteration r + 1,
          lr_iteration_started_at := Some (fe_now ev)\<rparr>)) (emit h)))) capped" for ns g qs h
    by (rule ensures_thn [OF puts [folded ensures_keeps] ensures_thn [OF inn [folded ensures_keeps]
          ensures_thn [OF up em]]]) (simp_all add: capped_at_capped)
  show ?thesis
    unfolding iterate_loop_def Let_def
    by (rule ensures_bnd [OF capped_at_basic(6) [folded ensures_keeps] ensures_bnd
          [OF capped_at_basic(3) [folded ensures_keeps] body]]) (simp_all add: capped_at_capped)
qed

lemma capped_conclude:
  assumes "r = None \<Longrightarrow> may_iterate c (lr_iteration run)" and "lr_phase run \<noteq> AwaitingFacts"
  shows "ensures (capped_at sp run c) (conclude_loop ev sp run r) capped"
  using assms by (cases r) (simp_all add: conclude_loop_def capped_complete capped_iterate)

lemma capped_at_until:
  assumes m: "cap = None \<Longrightarrow> may_iterate c (lr_iteration run)" and p: "lr_phase run \<noteq> AwaitingFacts"
  shows "ensures (capped_at sp run c) (decide_until ev sp run u cap) capped"
proof (cases "parse_expression (fe_compile ev) (fe_frames ev) u")
  case (Inl e)
  then show ?thesis unfolding decide_until_def by (simp add: ensures_throw capped_at_capped)
next
  case (Inr ex)
  let ?P = "capped_at sp run c"
  have v: "ensures ?P (verdict r) ?P" for r
    by (auto simp: verdict_def intro: ensures_ret ensures_throw split: sum.split)
  have c: "ensures ?P (case x of Inr True \<Rightarrow> conclude_loop ev sp run (Some ''condition_met'')
      | Inr False \<Rightarrow> conclude_loop ev sp run cap
      | Inl err \<Rightarrow> thn (put_sheet (last_of sp) (condition_failed (Some u) (Some err)))
          (conclude_loop ev sp run (Some ''condition_error''))) capped" for x
    using m p
    by (auto intro!: capped_conclude ensures_thn [of ?P _ ?P] capped_at_basic [folded ensures_keeps]
        capped_at_capped split: sum.split bool.split)
  have g: "ensures ?P get_st ?P" by (rule capped_at_basic [folded ensures_keeps])
  show ?thesis
    unfolding decide_until_def
    by (auto simp: Inr capped_await m intro!: ensures_throw ensures_bnd [OF g] ensures_bnd [OF v] c capped_at_capped
        split: prod.split sum.split)
qed

lemma capped_decide:
  assumes "capped w" and "dget (loops_of w) sp = Some run" and "lr_phase run = Running"
  shows "capped (snd (decide_loop ev sp run w))"
proof -
  obtain en sh where w: "w = (en, sh)" by fastforce
  show ?thesis
  proof (cases "dget (fp_loops (en_plan en)) sp")
    case None
    with assms(1) show ?thesis by (simp add: decide_loop_def w bnd_def)
  next
    case (Some c)
    let ?P = "capped_at sp run c"
    have at: "?P w" using assms Some by (simp add: capped_at_def w)
    have mem: "ensures ?P (members_at sp) ?P" by (rule capped_at_basic [folded ensures_keeps])
    have "ensures ?P (bnd (members_at sp) (\<lambda>ms.
           let cap = cap_reason_of c run ms in
           if list_ex sheet_failed ms then conclude_loop ev sp run (Some ''range_failed'')
           else if list_all (\<lambda>s. status s = SKIPPED) ms then conclude_loop ev sp run (Some ''skipped'')
           else case lc_until c of
                  Some until \<Rightarrow> decide_until ev sp run until cap
                | None \<Rightarrow> conclude_loop ev sp run cap)) capped"
      by (rule ensures_bnd [OF mem])
        (auto simp: Let_def assms(3) intro!: capped_conclude capped_at_until capped_at_capped
           cap_reason_None split: option.split)
    from ensuresD [OF this at] show ?thesis by (simp add: decide_loop_def w bnd_def Some)
  qed
qed

text \<open>Operations that leave the loops and the plan alone keep the caps.\<close>

definition loops_same :: "flow_world \<Rightarrow> flow_world \<Rightarrow> bool" where
  "loops_same w w' \<longleftrightarrow> loops_of w' = loops_of w \<and> en_plan (fst w') = en_plan (fst w)"

interpretation loops_same: evolution loops_same
  by unfold_locales (simp_all add: loops_same_def)

lemma loops_same_capped: "loops_same w w' \<Longrightarrow> capped w \<Longrightarrow> capped w'"
  by (simp add: loops_same_def capped_def)

lemma loops_same_state: "(\<And>s. fs_loops (f s) = fs_loops s) \<Longrightarrow> evolves loops_same (upd_state f)"
  by (auto simp: evolves_def loops_same_def loops_of_def)

lemma loops_same_basic:
  "evolves loops_same (sheet_at n)" "evolves loops_same (put_sheet n f)"
  "evolves loops_same get_flow" "evolves loops_same get_engine" "evolves loops_same (emit g)"
  "evolves loops_same (effect r)" "evolves loops_same (upd_chain k)"
  by (auto simp: evolves_def loops_same_def loops_of_def upd_chain_def split: option.split)

lemmas loops_same_ops = loops_same.evo_rules loops_same_basic

lemma loops_same_any_of:
  "(\<And>m. m \<in> set ms \<Longrightarrow> evolves loops_same m) \<Longrightarrow> evolves loops_same (any_of ms)"
  by (induction ms) (auto intro!: loops_same.evo_rules)

lemma loops_same_purge: "evolves loops_same purge"
proof -
  have "evolves loops_same (purge_skip p)" "evolves loops_same (purge_bypass n)" for p n
    unfolding purge_skip_def purge_bypass_def
    by (cases p; auto intro!: loops_same_ops loops_same_state)+
  then show ?thesis
    unfolding purge_def
    by (intro loops_same.evo_bnd loops_same_basic loops_same.evo_ret loops_same_any_of) auto
qed

lemma loops_same_goto_skips: "evolves loops_same (goto_skips s t ns acc)"
proof (induction ns arbitrary: acc)
  case Nil
  show ?case unfolding goto_skips.simps by (rule loops_same.evo_ret)
next
  case (Cons n ns)
  show ?case
    unfolding goto_skips.simps by (intro loops_same_ops loops_same_state Cons.IH) simp
qed

lemma loops_same_apply: "evolves loops_same (apply_action ev n a)"
proof (cases a)
  case (Goto t)
  have g: "evolves loops_same (goto_forward ev n t)" "evolves loops_same (goto_backward ev n t)"
    unfolding goto_forward_def goto_backward_def by (intro loops_same_ops loops_same_goto_skips)+
  show ?thesis
    unfolding Goto apply_action.simps do_goto_def
    by (intro loops_same.evo_bnd) (auto intro!: loops_same_ops loops_same_state g split: prod.split)
next
  case (SkipSpan sp)
  have "evolves loops_same (do_skip n k)" for k
    unfolding do_skip_def by (intro loops_same_ops loops_same_state) simp
  then show ?thesis by (simp add: SkipSpan loops_same.evo_for_each)
next
  case (Escalate r)
  have "evolves loops_same (do_escalate n r)"
    unfolding do_escalate_def by (intro loops_same_ops loops_same_state) simp
  then show ?thesis by (simp add: Escalate loops_same.evo_ret)
qed (auto intro!: loops_same_ops loops_same_state)

lemma loops_same_settle_chain: "evolves loops_same (settle_chain ev ch c)"
  unfolding settle_chain_def Let_def by (intro loops_same_ops loops_same_apply loops_same_state) simp

lemma loops_same_keeps_capped: "evolves loops_same m \<Longrightarrow> evolves (keeps capped) m"
  unfolding evolves_def keeps_def using loops_same_capped by blast

lemma capped_settle_step: "evolves (keeps capped) (settle_step ev ch)"
  unfolding evolves_def keeps_def
proof (intro allI impI)
  fix w assume cw: "capped w"
  obtain p w1 where p: "purge w = (p, w1)" by (metis surj_pair)
  have c1: "capped w1"
    using evolvesD [OF loops_same_purge, of w] loops_same_capped cw p by simp
  show "capped (snd (settle_step ev ch w))"
  proof (cases p)
    case (Inl e)
    with p c1 show ?thesis by (simp add: settle_step_def)
  next
    case (Inr b)
    obtain en sh where w1: "w1 = (en, sh)" by fastforce
    show ?thesis
    proof (cases "fs_chains (en_state en)")
      case (Cons c cs)
      have "capped (snd (settle_chain ev (ch \<or> b) c w1))"
        using evolvesD [OF loops_same_settle_chain] loops_same_capped c1 by blast
      with p Inr Cons show ?thesis by (simp add: settle_step_def Let_def w1)
    next
      case Nil
      show ?thesis
      proof (cases "ready_loops_in sh (items (fs_loops (en_state en)))")
        case (Inl e)
        with p Inr Nil c1 show ?thesis by (simp add: settle_step_def Let_def w1 ready_loops_def)
      next
        case rl: (Inr xs)
        show ?thesis
        proof (cases xs)
          case Nil
          with p Inr \<open>fs_chains (en_state en) = []\<close> c1 rl show ?thesis
            by (simp add: settle_step_def Let_def w1 ready_loops_def)
        next
          case (Cons y ys)
          obtain sp run where nw: "narrowest y ys = (sp, run)" by (metis surj_pair)
          have "(sp, run) \<in> set xs" using narrowest_mem [of y ys] nw Cons by simp
          then have "dget (loops_of w1) sp = Some run" "lr_phase run = Running"
            using ready_loops_in_set [OF rl] by (auto simp: items_set loops_of_def w1)
          from capped_decide [OF c1 this]
          have d: "capped (snd (decide_loop ev sp run w1))" .
          obtain r2 w2 where dl: "decide_loop ev sp run w1 = (r2, w2)" by (metis surj_pair)
          have "snd (settle_step ev ch w) = w2"
            using p Inr \<open>fs_chains (en_state en) = []\<close> rl Cons nw dl
            by (cases r2) (simp_all add: settle_step_def Let_def w1 ready_loops_def)
          with d dl show ?thesis by simp
        qed
      qed
    qed
  qed
qed

lemma capped_settle: "evolves (keeps capped) (settle ev)"
  by (rule settle_evolves) (auto simp: keeps_def intro: capped_settle_step)

lemma capped_on_terminal: "evolves (keeps capped) (on_terminal ev n oc)"
proof -
  have "evolves loops_same (take_queued_skip n)" "evolves loops_same (open_chain n o' as)"
    "evolves loops_same (remove_bypass n)" for o' as
    unfolding take_queued_skip_def open_chain_def remove_bypass_def
    by (intro loops_same_ops loops_same_state; simp)+
  then have "evolves (keeps capped) (take_queued_skip n)" "evolves (keeps capped) (open_chain n o' as)"
    "evolves (keeps capped) (remove_bypass n)" for o' as
    by (simp_all add: loops_same_keeps_capped)
  then show ?thesis
    unfolding on_terminal_def Let_def by (intro keeping.evo_rules capped_basic capped_settle)
qed

lemma capped_action_finished: "evolves (keeps capped) (action_finished ev cid cur res)"
proof -
  have "evolves (keeps capped) (upd_chain f)" for f
    by (rule loops_same_keeps_capped [OF loops_same_basic(7)])
  then show ?thesis
    unfolding action_finished_def
    by (intro keeping.evo_bnd capped_basic)
      (auto intro!: keeping.evo_rules capped_settle split: list.split)
qed

lemma capped_condition_error:
  "ensures (capped_at sp run c) (condition_error sp u e) capped"
  unfolding condition_error_def
  by (rule ensures_thn [OF capped_complete]) (simp_all add: ensures_keeps capped_basic)

lemma capped_verdict_at:
  "ensures (capped_at sp run c) (facts_verdict ev q files u) (capped_at sp run c)"
proof -
  have v: "ensures (capped_at sp run c) (verdict r) (capped_at sp run c)" for r
    by (auto simp: verdict_def intro: ensures_ret ensures_throw split: sum.split)
  show ?thesis
    unfolding facts_verdict_def
    by (auto intro!: v ensures_bnd [OF capped_at_basic(5) [folded ensures_keeps]]
        split: sum.split prod.split)
qed

text \<open>The facts of the request that the loop waits for.\<close>

lemma capped_facts_outcome:
  assumes m: "cap = None \<Longrightarrow> may_iterate c (lr_iteration run)"
    and r: "run1 = run\<lparr>lr_facts_request_id := None, lr_pending_cap_reason := None\<rparr>"
  shows "ensures (capped_at sp run1 c)
    (case (err, lc_until c) of
       (None, Some until) \<Rightarrow>
         bnd (facts_verdict ev sp files until) (\<lambda>v.
           case v of
             Inl e \<Rightarrow> condition_error sp (Some until) (Some e)
           | Inr True \<Rightarrow> complete_loop sp ''condition_met''
           | Inr False \<Rightarrow>
               (case cap of
                  Some r \<Rightarrow> complete_loop sp r
                | None \<Rightarrow>
                    thn (upd_loop sp (\<lambda>r. r\<lparr>lr_phase := Running\<rparr>)) (iterate_loop ev sp run)))
     | _ \<Rightarrow> condition_error sp (lc_until c) (map_option Text err)) capped"
proof -
  let ?P = "capped_at sp run1 c" and ?run2 = "run1\<lparr>lr_phase := Running\<rparr>"
  have it: "ensures ?P (thn (upd_loop sp (\<lambda>r. r\<lparr>lr_phase := Running\<rparr>)) (iterate_loop ev sp run)) capped"
    if n: "cap = None"
  proof (rule ensures_thn)
    show "ensures ?P (upd_loop sp (\<lambda>r. r\<lparr>lr_phase := Running\<rparr>)) (capped_at sp ?run2 c)"
      by (auto simp: ensures_def capped_at_def capped_def capped_loops_def upd_loop_def loops_of_def
          run_capped_def split: if_splits)
    show "ensures (capped_at sp ?run2 c) (iterate_loop ev sp run) capped"
      by (rule capped_iterate) (use m [OF n] r in simp_all)
  qed (simp add: capped_at_capped)
  show ?thesis
    by (auto intro!: ensures_bnd [OF capped_verdict_at] capped_condition_error capped_complete it
        capped_at_capped split: option.split sum.split bool.split)
qed

lemma capped_facts_ready: "evolves (keeps capped) (facts_ready ev sp req files err)"
  unfolding evolves_def keeps_def
proof (intro allI impI)
  fix w assume cw: "capped w"
  obtain en sh where w: "w = (en, sh)" by (metis surj_pair)
  show "capped (snd (facts_ready ev sp req files err w))"
  proof (cases "\<exists>run. dget (fs_loops (en_state en)) sp = Some run \<and> lr_phase run = AwaitingFacts \<and>
      lr_facts_request_id run = Some req")
    case False
    then show ?thesis
      using cw by (auto simp: facts_ready_def w bnd_def split: option.split)
  next
    case True
    then obtain run where run: "dget (fs_loops (en_state en)) sp = Some run"
      "lr_phase run = AwaitingFacts" "lr_facts_request_id run = Some req"
      by blast
    let ?clear = "\<lambda>r. r\<lparr>lr_facts_request_id := None, lr_pending_cap_reason := None\<rparr>"
    let ?w1 = "snd (upd_loop sp ?clear w)"
    show ?thesis
    proof (cases "dget (fp_loops (en_plan en)) sp")
      case None
      then have "capped ?w1"
        using cw by (auto simp: w capped_def capped_loops_def upd_loop_def loops_of_def)
      with run None show ?thesis
        by (simp add: facts_ready_def w bnd_def thn_def Let_def upd_loop_def)
    next
      case (Some c)
      have rc: "run_capped c run"
        using cw run(1) Some unfolding capped_def capped_loops_def loops_of_def w fst_conv by blast
      then have m: "lr_pending_cap_reason run = None \<Longrightarrow> may_iterate c (lr_iteration run)"
        using run by (simp add: run_capped_def)
      have at: "capped_at sp (?clear run) c ?w1"
        using cw rc run Some
        by (auto simp: w capped_at_def capped_def capped_loops_def upd_loop_def loops_of_def run_capped_def)
      let ?body = "case (err, lc_until c) of
           (None, Some until) \<Rightarrow>
             bnd (facts_verdict ev sp files until) (\<lambda>v.
               case v of
                 Inl e \<Rightarrow> condition_error sp (Some until) (Some e)
               | Inr True \<Rightarrow> complete_loop sp ''condition_met''
               | Inr False \<Rightarrow>
                   (case lr_pending_cap_reason run of
                      Some r \<Rightarrow> complete_loop sp r
                    | None \<Rightarrow>
                        thn (upd_loop sp (\<lambda>r. r\<lparr>lr_phase := Running\<rparr>)) (iterate_loop ev sp run)))
         | _ \<Rightarrow> condition_error sp (lc_until c) (map_option Text err)"
      have "ensures (capped_at sp (?clear run) c) (thn ?body (ret True)) capped"
        by (rule ensures_thn [OF capped_facts_outcome]) (auto intro: m ensures_ret)
      from ensuresD [OF this at]
      have "capped (snd (thn ?body (ret True) ?w1))" .
      moreover have "facts_ready ev sp req files err w = thn ?body (ret True) ?w1"
        using run Some by (simp add: facts_ready_def w bnd_def thn_def Let_def upd_loop_def)
      ultimately show ?thesis by simp
    qed
  qed
qed

subsection \<open>Every flow the daemon can reach\<close>

text \<open>
  From a fresh or reloaded engine, by any sequence of engine operations, with the sheets
  changed in any way in between (the baton runs them). The plan stays the same: reloading
  under an edited score is not among the steps.
\<close>

inductive flow_reach :: "flow_plan \<Rightarrow> engine \<Rightarrow> bool" for plan where
  fresh: "flow_reach plan (flow_engine job plan new_flow_state gen t)"
| terminal: "flow_reach plan en \<Longrightarrow> flow_reach plan (fst (snd (on_terminal ev n oc (en, sh))))"
| settle: "flow_reach plan en \<Longrightarrow> flow_reach plan (fst (snd (settle ev (en, sh))))"
| finished: "flow_reach plan en \<Longrightarrow> flow_reach plan (fst (snd (action_finished ev cid cur res (en, sh))))"
| facts: "flow_reach plan en \<Longrightarrow> flow_reach plan (fst (snd (facts_ready ev sp req files err (en, sh))))"
| effects: "flow_reach plan en \<Longrightarrow> flow_reach plan (snd (drain_effects en))"
| events: "flow_reach plan en \<Longrightarrow> flow_reach plan (snd (drain_events en))"
| reload: "flow_reach plan en \<Longrightarrow> flow_reach plan (flow_engine job plan (en_state en) gen t)"

lemma dget_filter_items: "dget (filter Q (items d)) k = Some v \<Longrightarrow> dget d k = Some v"
proof -
  assume "dget (filter Q (items d)) k = Some v"
  then have "(k, v) \<in> set (filter Q (items d))" by (rule map_of_SomeD)
  then show ?thesis using items_set by fastforce
qed

lemma capped_add_missing:
  "capped_loops cs rs \<Longrightarrow> capped_loops cs (add_missing_loops t configs rs)"
  unfolding add_missing_loops_def
proof (induction configs arbitrary: rs)
  case (Cons x configs)
  have "capped_loops cs (dset rs sp (new_loop_run i t))" for sp i
    using Cons.prems by (simp add: capped_loops_def run_capped_def new_loop_run_def split_paired_all)
  with Cons show ?case by (cases x) simp
qed simp

lemma capped_filter: "capped_loops cs rs \<Longrightarrow> capped_loops cs (filter Q (items rs))"
proof -
  assume a: "capped_loops cs rs"
  show ?thesis
    unfolding capped_loops_def
    by (intro allI impI) (rule a [unfolded capped_loops_def, rule_format, OF dget_filter_items])
qed

lemma capped_engine:
  assumes "capped_loops (fp_loops p) (fs_loops s)"
  shows "capped (flow_engine job p s gen t, sh)"
proof -
  have "capped_loops (fp_loops p) (fs_loops (prune_stale_plan p s))"
  proof (cases "fs_plan_digest s \<in> {None, Some (digest p)}")
    case True
    with assms show ?thesis by (simp add: prune_stale_plan_def)
  next
    case False
    then have "fs_loops (prune_stale_plan p s) = filter (\<lambda>(sp, run).
        case dget (fp_loops p) sp of None \<Rightarrow> False
        | Some c \<Rightarrow> lr_index_name run = lc_index c) (items (fs_loops s))"
      by (auto simp: prune_stale_plan_def)
    with capped_filter [OF assms] show ?thesis by simp
  qed
  from capped_add_missing [OF this, of t "fp_loops p"]
  have a: "capped_loops (fp_loops p) (add_missing_loops t (fp_loops p) (fs_loops (prune_stale_plan p s)))" .
  have "run_capped c (rewind_loop r)" if "run_capped c r" for c r
    using that by (simp add: rewind_loop_def run_capped_def)
  with a have "capped_loops (fp_loops p)
      (dmap (\<lambda>_. rewind_loop) (add_missing_loops t (fp_loops p) (fs_loops (prune_stale_plan p s))))"
    unfolding capped_loops_def by fastforce
  then show ?thesis by (simp add: flow_engine_def Let_def capped_def loops_of_def)
qed

lemma capped_fst: "capped (fst w, sh) = capped w"
  by (simp add: capped_def loops_of_def)

lemma reach_step:
  assumes "evolves books m" and "evolves (keeps capped) m"
    and "\<And>sh. en_plan en = plan \<and> capped (en, sh)"
  shows "en_plan (fst (snd (m (en, sh')))) = plan \<and> capped (fst (snd (m (en, sh'))), sh)"
  using evolvesD [OF assms(1), of "(en, sh')"] evolvesD [OF assms(2), of "(en, sh')"] assms(3)
  by (simp add: books_def keeps_def capped_fst)

lemma flow_reach_capped: "flow_reach plan en \<Longrightarrow> en_plan en = plan \<and> capped (en, sh)"
proof (induction arbitrary: sh rule: flow_reach.induct)
  case (fresh job gen t)
  then show ?case
    by (simp add: capped_engine capped_loops_def new_flow_state_def) (simp add: flow_engine_def Let_def)
next
  case (terminal en ev n oc sh')
  then show ?case by (intro reach_step books_on_terminal capped_on_terminal)
next
  case (settle en ev sh')
  then show ?case by (intro reach_step books_settle capped_settle)
next
  case (finished en ev cid cur res sh')
  then show ?case by (intro reach_step books_action_finished capped_action_finished)
next
  case (facts en ev sp req files err sh')
  then show ?case by (intro reach_step books_facts_ready capped_facts_ready)
next
  case (effects en)
  then show ?case unfolding drain_effects_def capped_def loops_of_def by auto
next
  case (events en)
  then show ?case unfolding drain_events_def capped_def loops_of_def by auto
next
  case (reload en job gen t)
  from reload.IH have "capped_loops (fp_loops plan) (fs_loops (en_state en))"
    unfolding capped_def loops_of_def by (metis fst_conv)
  from capped_engine [OF this] show ?case by (simp add: flow_engine_def Let_def)
qed

subsection \<open>Properties of the flow engine\<close>

text \<open>
  C36. Settling always ends, and when it returns, nothing is left to decide: either the first
  open trigger chain waits for its command or concert, or every chain has run out and no
  loop stands at its boundary (\<open>boundary_pending\<close> is False).
\<close>

theorem settle_quiesces:
  assumes "settle ev w = (Inr b, w')"
  shows "case fs_chains (en_state (fst w')) of
           c # _ \<Rightarrow> tc_phase c = AwaitingRun \<or> tc_phase c = AwaitingConcert
         | [] \<Rightarrow> boundary_pending (fst w') (snd w') = Inr False"
proof -
  have "settled w'" by (rule settle_settled [OF assms])
  then show ?thesis
    by (auto simp: settled_def chains_of_def split: list.splits) (metis chain_phase.exhaust)
qed

definition sample_plan :: flow_plan where
  "sample_plan = \<lparr>fp_loops = [((1, 1), \<lparr>lc_until = None, lc_count = Some 3, lc_max_iterations = 50,
       lc_cost_limit_usd = None, lc_index = ''i''\<rparr>)],
     fp_triggers = [((2, 0), \<lparr>tg_on_success = Some [Goto 1, RunCommand JNull], tg_on_fail = None\<rparr>)],
     fp_variables = []\<rparr>"

definition sample_env :: flow_env where
  "sample_env = \<lparr>fe_now = 10, fe_search = (\<lambda>p s. False), fe_compile = (\<lambda>p. None), fe_frames = 20\<rparr>"

definition sample_sheets :: "sheet_status \<Rightarrow> sheets" where
  "sample_sheets st = [(1, (new_sheet 1)\<lparr>status := COMPLETED\<rparr>), (2, (new_sheet 2)\<lparr>status := st\<rparr>)]"

definition sample_engine :: engine where
  "sample_engine = flow_engine ''job'' sample_plan new_flow_state None 0"

definition sample_after :: flow_world where
  "sample_after = snd (settle sample_env (sample_engine, sample_sheets COMPLETED))"

lemma sample_settle: "fst (settle sample_env (sample_engine, sample_sheets COMPLETED)) = Inr True"
  by code_simp

lemma sample_after_chains: "fs_chains (en_state (fst sample_after)) = []"
  by code_simp

lemma sample_after_loop:
  "map_option lr_iteration (dget (fs_loops (en_state (fst sample_after))) (1, 1)) = Some 2"
  by code_simp

lemma settle_quiesces_witness:
  "settle sample_env (sample_engine, sample_sheets COMPLETED) = (Inr True, sample_after)
   \<and> boundary_pending (fst sample_after) (snd sample_after) = Inr False"
proof -
  have "settle sample_env (sample_engine, sample_sheets COMPLETED) = (Inr True, sample_after)"
    using sample_settle unfolding sample_after_def by (metis prod.collapse)
  with settle_quiesces [OF this] show ?thesis by (simp add: sample_after_chains)
qed

text \<open>
  C38. No loop runs past its caps: in every flow that the daemon can reach under one unchanged
  plan, by settling, finished actions, delivered file facts and reloads in any order and with
  the sheets changed arbitrarily in between, a loop's iteration stays within
  \<open>max_iterations\<close> and within its \<open>count\<close>. (A resume that reads an edited score keeps the
  iterations under the new plan; that is not covered.)
\<close>

theorem loops_stay_within_caps:
  assumes "flow_reach plan en" and "dget (fs_loops (en_state en)) sp = Some run"
    and "dget (fp_loops plan) sp = Some c" and "1 \<le> lc_max_iterations c"
  shows "lr_iteration run \<le> lc_max_iterations c
    \<and> (case lc_count c of None \<Rightarrow> True | Some k \<Rightarrow> lr_iteration run \<le> max 1 k)"
proof -
  have "en_plan en = plan" "capped (en, [])" using flow_reach_capped [OF assms(1)] by blast+
  then have "run_capped c run"
    using assms(2,3) unfolding capped_def capped_loops_def loops_of_def fst_conv by blast
  then show ?thesis
    using assms(4) by (auto simp: run_capped_def within_caps_def split: option.split)
qed

lemma loops_stay_within_caps_witness:
  "flow_reach sample_plan (fst sample_after)
   \<and> map_option lr_iteration (dget (fs_loops (en_state (fst sample_after))) (1, 1)) = Some 2
   \<and> (2::int) \<le> max 1 3"
proof -
  have r: "flow_reach sample_plan (fst sample_after)"
    unfolding sample_after_def sample_engine_def by (intro flow_reach.settle flow_reach.fresh)
  from sample_after_loop obtain run where run: "dget (fs_loops (en_state (fst sample_after))) (1, 1) = Some run"
    "lr_iteration run = 2"
    by auto
  from loops_stay_within_caps [OF r run(1)] run(2) have "(2::int) \<le> max 1 3"
    by (simp add: sample_plan_def)
  with r sample_after_loop show ?thesis by simp
qed

text \<open>
  Flow control never loses money or history: whatever a flow operation does, returning
  or raising, every sheet keeps its total cost, its duration and its recorded attempts, and
  its epoch only moves forward.
\<close>

theorem flow_keeps_the_books:
  "books w (snd (settle ev w)) \<and> books w (snd (on_terminal ev n oc w))
   \<and> books w (snd (action_finished ev cid cur res w))
   \<and> books w (snd (facts_ready ev sp req files err w))"
  by (simp add: evolvesD [OF books_settle] evolvesD [OF books_on_terminal]
      evolvesD [OF books_action_finished] evolvesD [OF books_facts_ready])

end
