(* ===== verification/Baton_State.thy ===== *)
theory Baton_State
  imports Flow Instrument Timer
begin

section \<open>The baton's state and its non-raising operations\<close>

text \<open>
  \<open>_JobRecord\<close> and the fields of \<open>BatonCore\<close> in \<open>daemon/baton/core.py\<close>, with the operations
  that cannot raise: the instrument registry, rate limits, cost limits, the inbox with its
  coalesced wake-up, the timers' custody, pauses, readiness and the job registry's queries.
  A sheet is addressed by job id and sheet number. The workspace and the configuration path
  of a job serve only the healing coordinator and are left out.
\<close>

subsection \<open>Job records\<close>

record job =
  j_sheets :: sheets
  j_dependencies :: "(int, int list) dict"
  j_paused :: bool
  j_user_paused :: bool
  j_escalation_enabled :: bool
  j_self_healing_enabled :: bool
  j_pacing_active :: bool
  j_pacing_seconds :: rat
  j_max_concurrent :: "int option"
  j_fail_fast :: bool
  j_stagger_delay_ms :: int
  j_completion_threshold_percent :: rat
  j_registration_token :: int
  j_event_generation :: "int option"
  j_flow :: "engine option"
  j_created_at :: rat

subsection \<open>The core's fields\<close>

record registry =
  b_jobs :: "(string, job) dict"
  b_registration_token_counter :: int
  b_active_execution_probe :: "(string \<Rightarrow> int \<Rightarrow> bool) option"
  b_instruments :: "(string, instrument) dict"
  b_job_cost_limits :: "(string, rat) dict"
  b_sheet_cost_limits :: "(string \<times> int, rat) dict"
  b_model_concurrency :: "(string, int) dict"

record retry_settings = registry +
  b_base_retry_delay :: rat
  b_retry_exponential_base :: rat
  b_max_retry_delay :: rat
  b_jitter :: bool
  b_jitter_fn :: "rat \<Rightarrow> rat \<Rightarrow> rat"
  b_startup_failure_floor :: rat
  b_startup_failure_window :: rat

record timers = retry_settings +
  b_timer :: "wheel option"
  b_rate_limit_timers :: "(string, handle) dict"
  b_circuit_breaker_timers :: "(string, handle) dict"
  b_stagger_wake_handles :: "(string, handle) dict"
  b_job_last_dispatch_at :: "(string \<times> string, rat) dict"

record baton = timers +
  b_inbox :: "event list"
  b_inbox_high_water :: nat
  b_dispatch_retry_pending :: bool
  b_fallback_events :: "event list"
  b_skip_events :: "event list"
  b_shutting_down :: bool
  b_running :: bool
  b_state_dirty :: bool
  b_cron_handler :: bool

definition DEFAULT_INSTRUMENT_CONCURRENCY :: int where "DEFAULT_INSTRUMENT_CONCURRENCY = 4"

definition DEFAULT_MAX_HEALING :: int where "DEFAULT_MAX_HEALING = 1"

definition new_baton :: "wheel option \<Rightarrow> event list \<Rightarrow> bool \<Rightarrow> (rat \<Rightarrow> rat \<Rightarrow> rat) \<Rightarrow> baton" where
  "new_baton timer inbox cron uniform =
     \<lparr>b_jobs = [], b_registration_token_counter = 0, b_active_execution_probe = None,
      b_instruments = [], b_job_cost_limits = [], b_sheet_cost_limits = [],
      b_model_concurrency = [], b_base_retry_delay = 10, b_retry_exponential_base = 2,
      b_max_retry_delay = 3600, b_jitter = False, b_jitter_fn = uniform,
      b_startup_failure_floor = 120, b_startup_failure_window = 60, b_timer = timer,
      b_rate_limit_timers = [], b_circuit_breaker_timers = [], b_stagger_wake_handles = [],
      b_job_last_dispatch_at = [], b_inbox = inbox, b_inbox_high_water = 0,
      b_dispatch_retry_pending = False, b_fallback_events = [], b_skip_events = [],
      b_shutting_down = False, b_running = False, b_state_dirty = False,
      b_cron_handler = cron\<rparr>"

subsection \<open>Access by path\<close>

definition get_job :: "baton \<Rightarrow> string \<Rightarrow> job option" where
  "get_job b j = dget (b_jobs b) j"

definition upd_job :: "string \<Rightarrow> (job \<Rightarrow> job) \<Rightarrow> baton \<Rightarrow> baton" where
  "upd_job j f b = b\<lparr>b_jobs := dadj (b_jobs b) j f\<rparr>"

definition get_sheet_state :: "baton \<Rightarrow> string \<Rightarrow> int \<Rightarrow> sheet option" where
  "get_sheet_state b j n = (case get_job b j of None \<Rightarrow> None | Some jb \<Rightarrow> dget (j_sheets jb) n)"

definition upd_sheet :: "string \<Rightarrow> int \<Rightarrow> (sheet \<Rightarrow> sheet) \<Rightarrow> baton \<Rightarrow> baton" where
  "upd_sheet j n f = upd_job j (\<lambda>jb. jb\<lparr>j_sheets := dadj (j_sheets jb) n f\<rparr>)"

text \<open>Every sheet of every job.\<close>

definition map_all_sheets :: "(string \<Rightarrow> sheet \<Rightarrow> sheet) \<Rightarrow> baton \<Rightarrow> baton" where
  "map_all_sheets f b =
     b\<lparr>b_jobs := dmap (\<lambda>j jb. jb\<lparr>j_sheets := dmap (\<lambda>_. f j) (j_sheets jb)\<rparr>) (b_jobs b)\<rparr>"

definition dirty :: "baton \<Rightarrow> baton" where "dirty b = b\<lparr>b_state_dirty := True\<rparr>"

subsection \<open>Inbox and wake-ups\<close>

definition put_nowait :: "event \<Rightarrow> baton \<Rightarrow> baton" where
  "put_nowait e b = b\<lparr>b_inbox := b_inbox b @ [e]\<rparr>"

definition enqueue_dispatch_retry :: "baton \<Rightarrow> baton" where
  "enqueue_dispatch_retry b =
     (if b_dispatch_retry_pending b then b
      else put_nowait (DispatchRetry None None) (b\<lparr>b_dispatch_retry_pending := True\<rparr>))"

definition observe_inbox_depth :: "nat \<Rightarrow> baton \<Rightarrow> baton" where
  "observe_inbox_depth depth b =
     (if depth > b_inbox_high_water b then b\<lparr>b_inbox_high_water := depth\<rparr> else b)"

definition drain_fallback_events :: "baton \<Rightarrow> event list \<times> baton" where
  "drain_fallback_events b = (b_fallback_events b, b\<lparr>b_fallback_events := []\<rparr>)"

definition drain_skip_events :: "baton \<Rightarrow> event list \<times> baton" where
  "drain_skip_events b = (b_skip_events b, b\<lparr>b_skip_events := []\<rparr>)"

fun drain_job_events :: "(string, job) dict \<Rightarrow> event list \<times> (string, job) dict" where
  "drain_job_events [] = ([], [])"
| "drain_job_events ((j, jb) # js) =
     (let (es, js') = drain_job_events js
      in case j_flow jb of
           None \<Rightarrow> (es, (j, jb) # js')
         | Some en \<Rightarrow> (let (evs, en') = drain_events en
                      in (map FlowEvent evs @ es, (j, jb\<lparr>j_flow := Some en'\<rparr>) # js')))"

definition drain_flow_events :: "baton \<Rightarrow> event list \<times> baton" where
  "drain_flow_events b = (let (es, js) = drain_job_events (b_jobs b) in (es, b\<lparr>b_jobs := js\<rparr>))"

definition job_count :: "baton \<Rightarrow> nat" where "job_count b = length (b_jobs b)"

definition running_sheet_count :: "baton \<Rightarrow> nat" where
  "running_sheet_count b =
     length (filter (\<lambda>s. status s = DISPATCHED)
       (concat (map (\<lambda>jb. dvals (j_sheets jb)) (dvals (b_jobs b)))))"

subsection \<open>Instruments\<close>

definition register_instrument :: "string \<Rightarrow> int \<Rightarrow> baton \<Rightarrow> instrument \<times> baton" where
  "register_instrument name k b =
     (case dget (b_instruments b) name of
        Some i \<Rightarrow> (i, b)
      | None \<Rightarrow> (let i = new_instrument name k
                in (i, b\<lparr>b_instruments := dset (b_instruments b) name i\<rparr>)))"

definition ensure_instrument_registered :: "string \<Rightarrow> baton \<Rightarrow> baton" where
  "ensure_instrument_registered name b =
     (if name \<noteq> [] \<and> dget (b_instruments b) name = None
      then snd (register_instrument name DEFAULT_INSTRUMENT_CONCURRENCY b) else b)"

definition auto_register_sheet :: "sheet \<Rightarrow> baton \<Rightarrow> baton" where
  "auto_register_sheet s b =
     fold ensure_instrument_registered (fallback_chain s)
       (ensure_instrument_registered (or_empty (instrument_name s)) b)"

definition auto_register_instruments :: "sheets \<Rightarrow> baton \<Rightarrow> baton" where
  "auto_register_instruments sh b = fold auto_register_sheet (dvals sh) b"

definition model_key :: "string \<Rightarrow> string \<Rightarrow> string" where
  "model_key i m = i @ CHR '':'' # m"

definition set_model_concurrency :: "string \<Rightarrow> string \<Rightarrow> int \<Rightarrow> baton \<Rightarrow> baton" where
  "set_model_concurrency i m k b =
     b\<lparr>b_model_concurrency := dset (b_model_concurrency b) (model_key i m) k\<rparr>"

definition sync_model_concurrency ::
  "(string, int) dict \<Rightarrow> baton \<Rightarrow> (string list \<times> string list \<times> string list) \<times> baton" where
  "sync_model_concurrency caps b =
     (let old = b_model_concurrency b in
      ((filter (\<lambda>k. dget old k = None) (dkeys caps),
        dkeys (filter (\<lambda>(k, v). dget old k \<noteq> None \<and> dget old k \<noteq> Some v) caps),
        filter (\<lambda>k. dget caps k = None) (dkeys old)),
       b\<lparr>b_model_concurrency := caps\<rparr>))"

definition get_instrument_state :: "baton \<Rightarrow> string \<Rightarrow> instrument option" where
  "get_instrument_state b name = dget (b_instruments b) name"

definition upd_instrument :: "string \<Rightarrow> (instrument \<Rightarrow> instrument) \<Rightarrow> baton \<Rightarrow> baton" where
  "upd_instrument name f b = b\<lparr>b_instruments := dadj (b_instruments b) name f\<rparr>"

definition update_instrument_on_success :: "string \<Rightarrow> baton \<Rightarrow> baton" where
  "update_instrument_on_success name = upd_instrument name record_success"

definition get_rate_limited_instruments :: "baton \<Rightarrow> string list" where
  "get_rate_limited_instruments b = dkeys (filter (\<lambda>(n, i). rate_limited i) (b_instruments b))"

definition get_open_circuit_breakers :: "baton \<Rightarrow> string list" where
  "get_open_circuit_breakers b =
     dkeys (filter (\<lambda>(n, i). circuit_breaker i = OPEN) (b_instruments b))"

subsection \<open>Rate limits\<close>

definition release_waiting :: "string \<Rightarrow> sheet \<Rightarrow> sheet" where
  "release_waiting inst s =
     (if status s = WAITING \<and> instrument_name s = Some inst then s\<lparr>status := PENDING\<rparr> else s)"

definition unlimit :: "instrument \<Rightarrow> instrument" where
  "unlimit i = i\<lparr>rate_limited := False, rate_limit_expires_at := None\<rparr>"

definition clear_one :: "string \<times> instrument \<Rightarrow> nat \<times> baton \<Rightarrow> nat \<times> baton" where
  "clear_one p cb =
     (if rate_limited (snd p)
      then (Suc (fst cb),
            map_all_sheets (\<lambda>_. release_waiting (inst_name (snd p)))
              (upd_instrument (fst p) unlimit (snd cb)))
      else cb)"

definition clear_instrument_rate_limit :: "string option \<Rightarrow> baton \<Rightarrow> nat \<times> baton" where
  "clear_instrument_rate_limit inst b =
     (let targets = (case inst of
            Some n \<Rightarrow> (case dget (b_instruments b) n of None \<Rightarrow> [] | Some i \<Rightarrow> [(n, i)])
          | None \<Rightarrow> items (b_instruments b));
          (cleared, b') = fold clear_one targets (0, b)
      in (cleared, if cleared > 0 then dirty b' else b'))"

subsection \<open>Identity of registrations\<close>

definition get_job_generation :: "baton \<Rightarrow> string \<Rightarrow> int option" where
  "get_job_generation b j = (case get_job b j of None \<Rightarrow> None | Some jb \<Rightarrow> j_event_generation jb)"

definition get_job_registration_token :: "baton \<Rightarrow> string \<Rightarrow> int option" where
  "get_job_registration_token b j = map_option j_registration_token (get_job b j)"

definition is_job_registration_current :: "baton \<Rightarrow> string \<Rightarrow> int \<Rightarrow> bool" where
  "is_job_registration_current b j tok \<longleftrightarrow>
     (case get_job b j of None \<Rightarrow> False | Some jb \<Rightarrow> j_registration_token jb = tok)"

definition event_generation_is_current :: "baton \<Rightarrow> string \<Rightarrow> int option \<Rightarrow> bool" where
  "event_generation_is_current b j g \<longleftrightarrow>
     (case get_job b j of None \<Rightarrow> False | Some jb \<Rightarrow> g = j_event_generation jb)"

subsection \<open>Cost limits and pauses\<close>

definition set_job_cost_limit :: "string \<Rightarrow> rat \<Rightarrow> baton \<Rightarrow> baton" where
  "set_job_cost_limit j c b = b\<lparr>b_job_cost_limits := dset (b_job_cost_limits b) j c\<rparr>"

definition set_sheet_cost_limit :: "string \<Rightarrow> int \<Rightarrow> rat \<Rightarrow> baton \<Rightarrow> baton" where
  "set_sheet_cost_limit j n c b = b\<lparr>b_sheet_cost_limits := dset (b_sheet_cost_limits b) (j, n) c\<rparr>"

definition job_total_cost :: "job \<Rightarrow> rat" where
  "job_total_cost jb = total_cost_of (dvals (j_sheets jb))"

definition check_job_cost_limit :: "string \<Rightarrow> baton \<Rightarrow> baton" where
  "check_job_cost_limit j b =
     (case (dget (b_job_cost_limits b) j, get_job b j) of
        (Some cap, Some jb) \<Rightarrow>
          if job_total_cost jb > cap
          then dirty (upd_job j (\<lambda>jb. jb\<lparr>j_paused := True\<rparr>) b) else b
      | _ \<Rightarrow> b)"

datatype pause_reason =
    NotPaused | UserInitiated | CostLimitExceeded | EscalationNeededReason | Internal

definition any_fermata :: "job \<Rightarrow> bool" where
  "any_fermata jb \<longleftrightarrow> list_ex (\<lambda>s. status s = FERMATA) (dvals (j_sheets jb))"

definition get_job_pause_reason :: "baton \<Rightarrow> string \<Rightarrow> pause_reason" where
  "get_job_pause_reason b j =
     (case get_job b j of
        None \<Rightarrow> NotPaused
      | Some jb \<Rightarrow>
          if \<not> j_paused jb then NotPaused
          else if j_user_paused jb then UserInitiated
          else if (case dget (b_job_cost_limits b) j of None \<Rightarrow> False
                   | Some cap \<Rightarrow> job_total_cost jb \<ge> cap) then CostLimitExceeded
          else if any_fermata jb then EscalationNeededReason
          else Internal)"

definition request_pause :: "string \<Rightarrow> baton \<Rightarrow> bool \<times> baton" where
  "request_pause j b =
     (case get_job b j of
        None \<Rightarrow> (False, b)
      | Some _ \<Rightarrow> (True, dirty (upd_job j (\<lambda>jb. jb\<lparr>j_paused := True, j_user_paused := True\<rparr>) b)))"

definition is_job_paused :: "baton \<Rightarrow> string \<Rightarrow> bool" where
  "is_job_paused b j = (case get_job b j of None \<Rightarrow> False | Some jb \<Rightarrow> j_paused jb)"

definition has_job :: "baton \<Rightarrow> string \<Rightarrow> bool" where
  "has_job b j \<longleftrightarrow> get_job b j \<noteq> None"

subsection \<open>Timers\<close>

definition timer_cancel :: "handle \<Rightarrow> baton \<Rightarrow> baton" where
  "timer_cancel h b = b\<lparr>b_timer := map_option (\<lambda>w. snd (cancel h w)) (b_timer b)\<rparr>"

definition timer_cancel_opt :: "handle option \<Rightarrow> baton \<Rightarrow> baton" where
  "timer_cancel_opt h b = (case h of None \<Rightarrow> b | Some h \<Rightarrow> timer_cancel h b)"

definition timer_schedule :: "rat \<Rightarrow> rat \<Rightarrow> event \<Rightarrow> baton \<Rightarrow> handle option \<times> baton" where
  "timer_schedule now delay e b =
     (case b_timer b of
        None \<Rightarrow> (None, b)
      | Some w \<Rightarrow> (let (h, w') = schedule now delay e w in (Some h, b\<lparr>b_timer := Some w'\<rparr>)))"

subsection \<open>Retry settings\<close>

record retry_overrides =
  ro_base_delay :: "rat option"
  ro_exponential_base :: "rat option"
  ro_max_delay :: "rat option"
  ro_jitter :: "bool option"
  ro_jitter_fn :: "(rat \<Rightarrow> rat \<Rightarrow> rat) option"
  ro_startup_failure_floor :: "rat option"
  ro_startup_failure_window :: "rat option"

definition configure_retry :: "retry_overrides \<Rightarrow> baton \<Rightarrow> baton" where
  "configure_retry r b =
     b\<lparr>b_base_retry_delay := opt_or (ro_base_delay r) (b_base_retry_delay b),
       b_retry_exponential_base := opt_or (ro_exponential_base r) (b_retry_exponential_base b),
       b_max_retry_delay := opt_or (ro_max_delay r) (b_max_retry_delay b),
       b_jitter := opt_or (ro_jitter r) (b_jitter b),
       b_jitter_fn := opt_or (ro_jitter_fn r) (b_jitter_fn b),
       b_startup_failure_floor := opt_or (ro_startup_failure_floor r) (b_startup_failure_floor b),
       b_startup_failure_window := opt_or (ro_startup_failure_window r) (b_startup_failure_window b)\<rparr>"

text \<open>
  The backoff is \<open>min(base * exponential_base ** attempt, max)\<close>; the power raises beyond the
  float range, before the clamp.
\<close>

definition calculate_retry_delay :: "baton \<Rightarrow> nat \<Rightarrow> py_exn + rat" where
  "calculate_retry_delay b attempt =
     (if float_overflows \<bar>b_retry_exponential_base b ^ attempt\<bar> then Inl OverflowError
      else
        let delay = min (b_base_retry_delay b * b_retry_exponential_base b ^ attempt)
                        (b_max_retry_delay b)
        in Inr (if b_jitter b then delay / 2 + b_jitter_fn b 0 (delay / 2) else delay))"

definition last_attempt_was_startup_failure :: "baton \<Rightarrow> sheet \<Rightarrow> bool" where
  "last_attempt_was_startup_failure b s =
     (if attempt_history s = [] then False
      else
        let a = last (attempt_history s) in
        if ae_success a then False
        else if ae_exit_reason a \<in> {Some ''timeout'', Some ''signal''} then False
        else if ae_error_classification a \<in> {Some ''RATE_LIMITED'', Some ''INSTRUMENT_UNAVAILABLE''}
        then False
        else ae_duration_seconds a \<le> b_startup_failure_window b)"

subsection \<open>Readiness\<close>

definition is_dep_satisfied :: "sheet \<Rightarrow> bool" where
  "is_dep_satisfied s \<longleftrightarrow> status s = COMPLETED \<or> (status s = SKIPPED \<and> error_code s = None)"

definition is_dependency_satisfied :: "job \<Rightarrow> int \<Rightarrow> bool" where
  "is_dependency_satisfied jb d =
     (case dget (j_sheets jb) d of None \<Rightarrow> True | Some s \<Rightarrow> is_dep_satisfied s)"

definition deps_satisfied :: "job \<Rightarrow> int \<Rightarrow> bool" where
  "deps_satisfied jb n \<longleftrightarrow>
     (case j_flow jb of None \<Rightarrow> False | Some en \<Rightarrow> n \<in> set (fs_goto_bypass (en_state en))) \<or>
     list_all (is_dependency_satisfied jb) (dget_or (j_dependencies jb) n [])"

definition flow_busy :: "job \<Rightarrow> bool" where
  "flow_busy jb = (case j_flow jb of None \<Rightarrow> False | Some en \<Rightarrow> busy en)"

definition get_ready_sheets :: "baton \<Rightarrow> string \<Rightarrow> (int \<times> sheet) list" where
  "get_ready_sheets b j =
     (case get_job b j of
        None \<Rightarrow> []
      | Some jb \<Rightarrow>
          if j_paused jb \<or> j_pacing_active jb then []
          else if flow_busy jb then []
          else filter (\<lambda>(n, s). dispatchable (status s) \<and> deps_satisfied jb n) (j_sheets jb))"

definition flow_pause_reason :: "job \<Rightarrow> msg option" where
  "flow_pause_reason jb =
     (case j_flow jb of None \<Rightarrow> None | Some en \<Rightarrow> fs_pause_reason (en_state en))"

text \<open>\<open>is_job_complete\<close>; the boundary check of a flow can raise.\<close>

definition is_job_complete :: "baton \<Rightarrow> string \<Rightarrow> py_exn + bool" where
  "is_job_complete b j =
     (case get_job b j of
        None \<Rightarrow> Inr False
      | Some jb \<Rightarrow>
          let all_done = list_all (\<lambda>s. is_terminal (status s)) (dvals (j_sheets jb)) in
          if j_user_paused jb then Inr False
          else case j_flow jb of
                 None \<Rightarrow> Inr all_done
               | Some en \<Rightarrow>
                   if busy en then Inr False
                   else (case boundary_pending en (j_sheets jb) of
                           Inl e \<Rightarrow> Inl e
                         | Inr True \<Rightarrow> Inr False
                         | Inr False \<Rightarrow> Inr (flow_pause_reason jb = None \<and> all_done)))"

subsection \<open>Deregistration\<close>

definition deregister_job :: "string \<Rightarrow> baton \<Rightarrow> baton" where
  "deregister_job j b =
     (if get_job b j = None then b
      else
        let b1 = b\<lparr>b_jobs := ddel (b_jobs b) j,
                   b_job_cost_limits := ddel (b_job_cost_limits b) j,
                   b_sheet_cost_limits := filter (\<lambda>(k, v). fst k \<noteq> j) (b_sheet_cost_limits b),
                   b_job_last_dispatch_at := filter (\<lambda>(k, v). fst k \<noteq> j) (b_job_last_dispatch_at b),
                   b_stagger_wake_handles := ddel (b_stagger_wake_handles b) j\<rparr>;
            b2 = timer_cancel_opt (dget (b_stagger_wake_handles b) j) b1
        in dirty (b2\<lparr>b_skip_events := filter (\<lambda>e. event_job e \<noteq> Some j) (b_skip_events b2)\<rparr>))"

subsection \<open>Diagnostics\<close>

record diagnostics =
  dg_paused :: bool
  dg_total :: nat
  dg_counts :: "(string, nat) dict"
  dg_instruments_used :: "string list"
  dg_max_concurrent :: "int option"
  dg_fail_fast :: bool
  dg_stagger_delay_ms :: int
  dg_inbox_depth :: nat
  dg_inbox_high_water :: nat

definition count_status :: "sheet \<Rightarrow> (string, nat) dict \<Rightarrow> (string, nat) dict" where
  "count_status s d = (let k = status_value (status s) in dset d k (dget_or d k 0 + 1))"

definition sort_names :: "string list \<Rightarrow> string list" where
  "sort_names ns = fold (\<lambda>x xs. takeWhile (\<lambda>y. str_cmp y x < 0) xs @ x #
     dropWhile (\<lambda>y. str_cmp y x < 0) xs) ns []"

definition get_diagnostics :: "baton \<Rightarrow> string \<Rightarrow> diagnostics option" where
  "get_diagnostics b j =
     map_option (\<lambda>jb.
       \<lparr>dg_paused = j_paused jb, dg_total = length (j_sheets jb),
        dg_counts = fold count_status (dvals (j_sheets jb)) [],
        dg_instruments_used = sort_names (remdups
          (filter (\<lambda>n. n \<noteq> []) (map (\<lambda>s. or_empty (instrument_name s)) (dvals (j_sheets jb))))),
        dg_max_concurrent = j_max_concurrent jb, dg_fail_fast = j_fail_fast jb,
        dg_stagger_delay_ms = j_stagger_delay_ms jb,
        dg_inbox_depth = length (b_inbox b), dg_inbox_high_water = b_inbox_high_water b\<rparr>)
       (get_job b j)"

end
