(* ===== verification/Baton.thy ===== *)
theory Baton
  imports Baton_State
begin

section \<open>The baton's decisions\<close>

text \<open>
  The operations of \<open>BatonCore\<close> (\<open>daemon/baton/core.py\<close>) that can raise or that run the
  flow engine: instrument health, retries, instrument fallback, budget exhaustion, the
  funnel of terminal statuses with failure propagation, job registration, every event
  handler and the event loop. They are actions over the baton; an exception keeps the
  mutations made before it, as in Python, and \<open>handle_event\<close> swallows it.

  What the handlers take from outside is the record \<open>env\<close>: the two clocks (constant during
  one handler), what the healing coordinator and the tasks that run while it is awaited do
  to the baton, the cron callback, the flow engine's environment, and the number of nested
  terminal writes the interpreter's stack holds (its exhaustion is \<open>RecursionError\<close>).
\<close>

record env =
  ev_mono :: rat
  ev_wall :: rat
  ev_heal :: "string \<Rightarrow> int \<Rightarrow> baton \<Rightarrow> baton"
  ev_cron :: "event \<Rightarrow> (baton, unit) act"
  ev_flow :: flow_env
  ev_frames :: nat

definition E_UNKNOWN :: string where "E_UNKNOWN = ''E999''"

definition E_BACKEND_AUTH :: string where "E_BACKEND_AUTH = ''E502''"

subsection \<open>Access\<close>

text \<open>The sheet at a path, if it is there.\<close>

definition with_sheet :: "string \<Rightarrow> int \<Rightarrow> 'a \<Rightarrow> (sheet \<Rightarrow> (baton, 'a) act) \<Rightarrow> (baton, 'a) act" where
  "with_sheet j n d f = bnd get_st (\<lambda>b. case get_sheet_state b j n of None \<Rightarrow> ret d | Some s \<Rightarrow> f s)"

definition with_job :: "string \<Rightarrow> 'a \<Rightarrow> (job \<Rightarrow> (baton, 'a) act) \<Rightarrow> (baton, 'a) act" where
  "with_job j d f = bnd get_st (\<lambda>b. case get_job b j of None \<Rightarrow> ret d | Some jb \<Rightarrow> f jb)"

definition put_state :: "string \<Rightarrow> int \<Rightarrow> (sheet \<Rightarrow> sheet) \<Rightarrow> (baton, unit) act" where
  "put_state j n f = modify (upd_sheet j n f)"

definition set_dirty :: "(baton, unit) act" where "set_dirty = modify dirty"

text \<open>Runs an engine operation on a job's flow and sheets; a job without a flow is left alone.\<close>

definition with_flow :: "string \<Rightarrow> 'a \<Rightarrow> (flow_world, 'a) act \<Rightarrow> (baton, 'a) act" where
  "with_flow j d m b =
     (case get_job b j of
        None \<Rightarrow> (Inr d, b)
      | Some jb \<Rightarrow>
          (case j_flow jb of
             None \<Rightarrow> (Inr d, b)
           | Some en \<Rightarrow>
               (case m (en, j_sheets jb) of
                  (r, (en', sh')) \<Rightarrow>
                    (r, upd_job j (\<lambda>jb. jb\<lparr>j_flow := Some en', j_sheets := sh'\<rparr>) b))))"

definition upd_flow_state :: "string \<Rightarrow> (flow_state \<Rightarrow> flow_state) \<Rightarrow> baton \<Rightarrow> baton" where
  "upd_flow_state j f =
     upd_job j (\<lambda>jb. jb\<lparr>j_flow := map_option (\<lambda>en. en\<lparr>en_state := f (en_state en)\<rparr>) (j_flow jb)\<rparr>)"

text \<open>A step that says whether it has dealt with the event; the rest runs if not.\<close>

definition unless_done :: "('s, bool) act \<Rightarrow> ('s, unit) act \<Rightarrow> ('s, unit) act" where
  "unless_done m k = bnd m (\<lambda>d. if d then ret () else k)"

text \<open>\<open>sheet.error_code or default\<close> and \<open>message or default\<close>.\<close>

definition code_or :: "string option \<Rightarrow> string \<Rightarrow> string" where
  "code_or c d = (case c of None \<Rightarrow> d | Some x \<Rightarrow> if x = [] then d else x)"

definition msg_or :: "msg option \<Rightarrow> msg \<Rightarrow> msg" where
  "msg_or m d = (case m of None \<Rightarrow> d | Some x \<Rightarrow> if msg_truthy m then x else d)"

subsection \<open>Instrument health\<close>

definition rearm_breaker_timer :: "env \<Rightarrow> string \<Rightarrow> rat \<Rightarrow> baton \<Rightarrow> baton" where
  "rearm_breaker_timer ev name delay b =
     (if b_timer b = None then b
      else
        let b1 = timer_cancel_opt (dget (b_circuit_breaker_timers b) name)
                   (b\<lparr>b_circuit_breaker_timers := ddel (b_circuit_breaker_timers b) name\<rparr>)
        in case timer_schedule (ev_mono ev) delay (CircuitBreakerRecovery name) b1 of
             (None, b2) \<Rightarrow> b2
           | (Some h, b2) \<Rightarrow>
               b2\<lparr>b_circuit_breaker_timers := dset (b_circuit_breaker_timers b2) name h\<rparr>)"

definition schedule_circuit_breaker_recovery :: "env \<Rightarrow> string \<Rightarrow> (baton, unit) act" where
  "schedule_circuit_breaker_recovery ev name =
     bnd get_st (\<lambda>b.
       case dget (b_instruments b) name of
         None \<Rightarrow> ret ()
       | Some i \<Rightarrow>
           bnd (lift_res (\<lambda>_. recovery_delay i)) (\<lambda>delay.
           thn (modify (upd_instrument name
                  (\<lambda>i. i\<lparr>circuit_breaker_recovery_at := Some (ev_mono ev + delay)\<rparr>)))
             (modify (rearm_breaker_timer ev name delay))))"

definition update_instrument_on_failure :: "env \<Rightarrow> string \<Rightarrow> (baton, unit) act" where
  "update_instrument_on_failure ev name =
     bnd get_st (\<lambda>b.
       case dget (b_instruments b) name of
         None \<Rightarrow> ret ()
       | Some i \<Rightarrow>
           thn (modify (upd_instrument name record_failure))
             (whn (circuit_breaker i \<noteq> OPEN \<and> circuit_breaker (record_failure i) = OPEN)
               (schedule_circuit_breaker_recovery ev name)))"

definition handle_circuit_breaker_recovery :: "string \<Rightarrow> baton \<Rightarrow> baton" where
  "handle_circuit_breaker_recovery name b =
     (let b1 = b\<lparr>b_circuit_breaker_timers := ddel (b_circuit_breaker_timers b) name\<rparr>
      in case dget (b_instruments b1) name of
           None \<Rightarrow> b1
         | Some i \<Rightarrow>
             if circuit_breaker i \<noteq> OPEN then b1 else dirty (upd_instrument name probe b1))"

subsection \<open>Retries\<close>

definition retry_wait :: "baton \<Rightarrow> sheet \<Rightarrow> rat \<Rightarrow> rat" where
  "retry_wait b s d =
     (if last_attempt_was_startup_failure b s \<and> d < b_startup_failure_floor b
      then b_startup_failure_floor b else d)"

definition arm_retry :: "env \<Rightarrow> string \<Rightarrow> int \<Rightarrow> rat \<Rightarrow> sheet \<Rightarrow> baton \<Rightarrow> baton" where
  "arm_retry ev j n delay s b =
     (case get_job b j of
        None \<Rightarrow> b
      | Some jb \<Rightarrow>
          (case timer_schedule (ev_mono ev) delay
                  (RetryDue j n (j_event_generation jb) (Some (dispatch_epoch s))) b of
             (None, _) \<Rightarrow> b
           | (Some _, b') \<Rightarrow>
               upd_sheet j n (\<lambda>s. s\<lparr>next_retry_at := Some (ev_mono ev + delay)\<rparr>) b'))"

definition schedule_retry :: "env \<Rightarrow> string \<Rightarrow> int \<Rightarrow> (baton, unit) act" where
  "schedule_retry ev j n =
     thn (put_state j n (\<lambda>s. s\<lparr>status := RETRY_SCHEDULED\<rparr>))
    (thn set_dirty
      (with_sheet j n () (\<lambda>s.
         bnd (lift_res (\<lambda>b. calculate_retry_delay b (nat (max 0 (normal_attempts s - 1))))) (\<lambda>d.
           modify (\<lambda>b. arm_retry ev j n (retry_wait b s d) s b)))))"

subsection \<open>Instrument fallback\<close>

text \<open>
  Advance to the next instrument of the chain: register it, queue the sheet again and note
  the event under the sheet number the caller names. The result says whether it happened.
\<close>

definition note_fallback :: "string \<Rightarrow> int \<Rightarrow> string \<Rightarrow> string \<Rightarrow> string \<Rightarrow> baton \<Rightarrow> baton" where
  "note_fallback j k old new reason b =
     dirty (b\<lparr>b_fallback_events := b_fallback_events b @ [InstrumentFallback j k old new reason]\<rparr>)"

definition fall_back ::
  "env \<Rightarrow> string \<Rightarrow> int \<Rightarrow> int \<Rightarrow> string \<Rightarrow> (sheet \<Rightarrow> sheet) \<Rightarrow> (baton, bool) act" where
  "fall_back ev j n k reason adjust =
     with_sheet j n False (\<lambda>s.
       if \<not> has_fallback_available s then ret False
       else case advance_fallback reason (ev_wall ev) s of
              (None, _) \<Rightarrow> ret False
            | (Some to, s') \<Rightarrow>
                thn (put_state j n (\<lambda>_. adjust s'))
               (thn (modify (ensure_instrument_registered to))
               (thn (put_state j n (\<lambda>s. s\<lparr>status := PENDING\<rparr>))
               (thn (modify (note_fallback j k (or_empty (instrument_name s)) to reason))
                 (ret True)))))"

definition check_and_fallback_unavailable :: "env \<Rightarrow> string \<Rightarrow> int \<Rightarrow> (baton, bool) act" where
  "check_and_fallback_unavailable ev j n =
     with_sheet j n False (\<lambda>s.
       bnd get_st (\<lambda>b.
         case dget (b_instruments b) (or_empty (instrument_name s)) of
           None \<Rightarrow> fall_back ev j n (sheet_num s) ''unavailable'' id
         | Some i \<Rightarrow>
             if is_available i then ret False
             else fall_back ev j n (sheet_num s) ''unavailable'' id))"

text \<open>
  \<open>str.upper\<close> on the code points up to 255; the two whose capital lies beyond are kept, no
  label below contains either.
\<close>

definition upper_char :: "char \<Rightarrow> string" where
  "upper_char c =
     (let k = (of_char c :: nat) in
      if (97 \<le> k \<and> k \<le> 122) \<or> (224 \<le> k \<and> k \<le> 254 \<and> k \<noteq> 247) then [char_of (k - 32)]
      else if k = 223 then ''SS''
      else [c])"

definition str_upper :: "string \<Rightarrow> string" where "str_upper s = concat (map upper_char s)"

definition derive_fallback_reason :: "sheet \<Rightarrow> string" where
  "derive_fallback_reason s =
     (if attempt_results s = [] then ''exhausted''
      else
        let a = last (attempt_results s) in
        if ar_rate_limited a then ''rate_limit_exhausted''
        else if ar_execution_success a then
          (if ar_validation_pass_rate a \<le> 0 then ''validation_failed''
           else if ar_validation_pass_rate a < 100 then ''validation_incomplete''
           else ''exhausted'')
        else
          let c = str_upper (or_empty (ar_error_classification a)) in
          if text_contains ''TIMEOUT'' c then ''execution_timeout''
          else if text_contains ''CRASH'' c then ''execution_crashed''
          else if text_contains ''STALE'' c then ''execution_stale''
          else if text_contains ''AUTH'' c then ''auth_failure''
          else if text_contains ''UNAVAILABLE'' c then ''unavailable''
          else ''execution_failed'')"

subsection \<open>Pauses a flow owns\<close>

definition pause_if_flow_paused :: "string \<Rightarrow> baton \<Rightarrow> baton" where
  "pause_if_flow_paused j b =
     (case get_job b j of
        None \<Rightarrow> b
      | Some jb \<Rightarrow>
          if flow_pause_reason jb \<noteq> None
          then dirty (upd_job j (\<lambda>jb. jb\<lparr>j_paused := True\<rparr>) b) else b)"

definition release_escalation_pause :: "string \<Rightarrow> int \<Rightarrow> (baton, unit) act" where
  "release_escalation_pause j n =
     with_job j () (\<lambda>jb.
       case j_flow jb of
         None \<Rightarrow> ret ()
       | Some en \<Rightarrow>
           let rest = fs_escalation_pause_owners (en_state en) - {n} in
           if n \<notin> fs_escalation_pause_owners (en_state en) then ret ()
           else
             thn (modify (upd_flow_state j (\<lambda>fs. fs\<lparr>fs_escalation_pause_owners := rest\<rparr>)))
               (if rest \<noteq> {} then
                  (case dget (j_sheets jb) (Max rest) of
                     None \<Rightarrow> throw KeyError
                   | Some s \<Rightarrow>
                       modify (upd_flow_state j (\<lambda>fs. fs\<lparr>fs_pause_reason := fermata_reason s\<rparr>)))
                else modify (upd_flow_state j
                  (\<lambda>fs. fs\<lparr>fs_pause_reason := fs_trigger_pause_reason fs\<rparr>))))"

definition sheet_keys :: "baton \<Rightarrow> string \<Rightarrow> int list" where
  "sheet_keys b j = (case get_job b j of None \<Rightarrow> [] | Some jb \<Rightarrow> dkeys (j_sheets jb))"

subsection \<open>Terminal statuses and failure propagation\<close>

text \<open>
  A terminal write notifies the flow, which can fail sheets; a failure propagates to the
  dependents, and skipping a dependent is a terminal write again. The operations of this
  cycle take the inner terminal write as an argument; \<open>set_terminal\<close> closes the knot, one
  frame per nested write.
\<close>

type_synonym terminal_write =
  "string \<Rightarrow> int \<Rightarrow> sheet_status \<Rightarrow> outcome option \<Rightarrow> (baton, unit) act"

definition skip_current :: "terminal_write \<Rightarrow> string \<Rightarrow> int \<Rightarrow> msg \<Rightarrow> int option \<Rightarrow> int option
    \<Rightarrow> (baton, unit) act" where
  "skip_current write j n reason gen epoch =
     with_sheet j n () (\<lambda>s.
       if epoch \<noteq> None \<and> epoch \<noteq> Some (dispatch_epoch s) then ret ()
       else if is_terminal (status s) then ret ()
       else
         thn (write j n SKIPPED None)
        (thn (put_state j n clear_dispatch_block)
        (thn (modify (\<lambda>b. b\<lparr>b_skip_events := b_skip_events b @ [SheetSkipped j n reason gen epoch]\<rparr>))
          set_dirty)))"

definition job_generation :: "baton \<Rightarrow> string \<Rightarrow> int option" where
  "job_generation b j = get_job_generation b j"

definition executing :: "baton \<Rightarrow> string \<Rightarrow> int \<Rightarrow> bool" where
  "executing b j n = (case b_active_execution_probe b of None \<Rightarrow> False | Some p \<Rightarrow> p j n)"

definition mark_blocked :: "msg \<Rightarrow> sheet \<Rightarrow> sheet" where
  "mark_blocked reason s = s\<lparr>error_message := Some reason, error_code := Some E_UNKNOWN\<rparr>"

text \<open>One sheet of the fail-fast pass.\<close>

definition fail_fast_one :: "terminal_write \<Rightarrow> string \<Rightarrow> int \<Rightarrow> int \<Rightarrow> (baton, bool) act" where
  "fail_fast_one write j failed n =
     with_sheet j n False (\<lambda>s.
       bnd get_st (\<lambda>b.
         if \<not> dispatchable (status s) then ret False
         else if executing b j n then ret False
         else
           thn (skip_current write j n (MsgFailFast failed) (job_generation b j) None)
             (with_sheet j n False (\<lambda>s'.
                if status s' = SKIPPED
                then thn (put_state j n (mark_blocked (MsgFailFast failed))) (ret True)
                else ret False))))"

text \<open>The reverse dependency map: the sheets that list \<open>n\<close> as a dependency.\<close>

definition dependents :: "(int, int list) dict \<Rightarrow> int \<Rightarrow> int list" where
  "dependents deps n =
     concat (map (\<lambda>(k, ds). map (\<lambda>_. k) (filter (\<lambda>d. d = n) ds)) deps)"

lemma dependents_keys: "set (dependents deps n) \<subseteq> set (dkeys deps)"
  by (force simp: dependents_def)

definition blocks :: "job \<Rightarrow> int \<Rightarrow> bool" where
  "blocks jb d =
     (case dget (j_sheets jb) d of
        None \<Rightarrow> False
      | Some s \<Rightarrow> is_terminal (status s) \<and> \<not> is_dep_satisfied s)"

text \<open>
  A sheet reached by the walk: a terminal one is passed through, one with an unsatisfied
  terminal dependency is skipped as blocked. The result says whether to go on downstream.
\<close>

definition visit_dependent :: "terminal_write \<Rightarrow> string \<Rightarrow> int \<Rightarrow> (baton, bool) act" where
  "visit_dependent write j n =
     with_job j False (\<lambda>jb.
       case dget (j_sheets jb) n of
         None \<Rightarrow> ret False
       | Some s \<Rightarrow>
           if is_terminal (status s) then ret True
           else
             case find (blocks jb) (dget_or (j_dependencies jb) n []) of
               None \<Rightarrow> ret False
             | Some d \<Rightarrow>
                 thn (skip_current write j n (MsgBlockedBy d) (j_event_generation jb) None)
                (thn (put_state j n (mark_blocked (MsgBlockedBy d)))
                  (ret True)))"

text \<open>The breadth-first walk, with its queue and its visited set.\<close>

function walk :: "(int \<Rightarrow> (baton, bool) act) \<Rightarrow> (int, int list) dict \<Rightarrow> int list \<Rightarrow> int set
    \<Rightarrow> (baton, int set) act" where
  "walk step deps [] seen b = (Inr seen, b)"
| "walk step deps (n # queue) seen b =
     (if n \<in> seen then walk step deps queue seen b
      else
        case step n b of
          (Inl e, b') \<Rightarrow> (Inl e, b')
        | (Inr False, b') \<Rightarrow> walk step deps queue (insert n seen) b'
        | (Inr True, b') \<Rightarrow>
            walk step deps (queue @ filter (\<lambda>d. d \<notin> insert n seen) (dependents deps n))
              (insert n seen) b')"
  by pat_completeness auto

definition walk_measure :: "(int, int list) dict \<Rightarrow> int list \<Rightarrow> int set \<Rightarrow> nat \<times> nat \<times> nat" where
  "walk_measure deps queue seen =
     (length (filter (\<lambda>n. n \<notin> set (dkeys deps)) queue), card (set (dkeys deps) - seen),
      length queue)"

lemma filter_keys_dependents:
  "filter (\<lambda>n. P n \<and> n \<notin> fst ` set deps) (dependents deps m) = []"
  using dependents_keys [of deps m] by (auto simp: filter_empty_conv)

lemma walk_decreases:
  assumes "n \<notin> seen"
  shows "(walk_measure deps (queue @ filter P (dependents deps n)) (insert n seen),
          walk_measure deps (n # queue) seen) \<in> less_than <*lex*> less_than <*lex*> less_than"
proof (cases "n \<in> set (dkeys deps)")
  case True
  then have "set (dkeys deps) - insert n seen \<subset> set (dkeys deps) - seen" using assms by auto
  then have "card (set (dkeys deps) - insert n seen) < card (set (dkeys deps) - seen)"
    by (simp add: psubset_card_mono)
  with True show ?thesis
    by (auto simp: walk_measure_def filter_keys_dependents)
next
  case False
  then show ?thesis by (simp add: walk_measure_def filter_keys_dependents)
qed

lemma walk_decreases_drop:
  "n \<notin> seen \<Longrightarrow> (walk_measure deps queue (insert n seen), walk_measure deps (n # queue) seen)
    \<in> less_than <*lex*> less_than <*lex*> less_than"
  using walk_decreases [of n seen deps queue "\<lambda>_. False"] by simp

lemma walk_decreases_seen:
  "n \<in> seen \<Longrightarrow> (walk_measure deps queue seen, walk_measure deps (n # queue) seen)
    \<in> less_than <*lex*> less_than <*lex*> less_than"
  by (simp add: walk_measure_def)

termination walk
  by (relation "inv_image (less_than <*lex*> less_than <*lex*> less_than)
        (\<lambda>(step, deps, queue, seen, b). walk_measure deps queue seen)")
    (auto simp: walk_decreases walk_decreases_drop walk_decreases_seen simp del: in_lex_prod)

declare walk.simps [simp del]

definition propagate_with :: "terminal_write \<Rightarrow> string \<Rightarrow> int \<Rightarrow> (baton, unit) act" where
  "propagate_with write j failed =
     with_job j () (\<lambda>jb.
       bnd (if j_fail_fast jb
            then any_of (map (fail_fast_one write j failed) (dkeys (j_sheets jb)))
            else ret False) (\<lambda>ff.
       bnd (walk (visit_dependent write j) (j_dependencies jb) (dependents (j_dependencies jb) failed) {}) (\<lambda>seen.
         whn (seen \<noteq> {} \<or> ff) (modify (\<lambda>b. enqueue_dispatch_retry (dirty b))))))"

definition on_sheet_terminal_with :: "env \<Rightarrow> terminal_write \<Rightarrow> string \<Rightarrow> int \<Rightarrow> outcome option
    \<Rightarrow> (baton, unit) act" where
  "on_sheet_terminal_with ev write j n oc =
     with_job j () (\<lambda>jb.
       if j_flow jb = None then ret ()
       else
         bnd (with_flow j False (on_terminal (ev_flow ev) n oc)) (\<lambda>changed.
         thn (whn changed (modify (\<lambda>b. enqueue_dispatch_retry (dirty b))))
        (thn (modify (pause_if_flow_paused j))
           (bnd get_st (\<lambda>b.
              case get_sheet_state b j n of
                None \<Rightarrow> throw KeyError
              | Some s \<Rightarrow>
                  with_job j () (\<lambda>jb.
                    whn (status s = FAILED \<and> \<not> flow_busy jb) (propagate_with write j n)))))))"

definition set_terminal_with :: "env \<Rightarrow> terminal_write \<Rightarrow> terminal_write" where
  "set_terminal_with ev write j n st oc =
     with_sheet j n () (\<lambda>s.
       thn (whn (status s = FERMATA) (release_escalation_pause j (sheet_num s)))
      (thn (put_state j n (\<lambda>s. s\<lparr>status := st\<rparr>))
      (thn set_dirty
        (on_sheet_terminal_with ev write j (sheet_num s) oc))))"

fun set_terminal_in :: "env \<Rightarrow> nat \<Rightarrow> terminal_write" where
  "set_terminal_in ev 0 = (\<lambda>j n st oc. throw RecursionError)"
| "set_terminal_in ev (Suc frames) = set_terminal_with ev (set_terminal_in ev frames)"

definition set_sheet_terminal_status :: "env \<Rightarrow> terminal_write" where
  "set_sheet_terminal_status ev = set_terminal_in ev (ev_frames ev)"

definition propagate_failure_to_dependents :: "env \<Rightarrow> string \<Rightarrow> int \<Rightarrow> (baton, unit) act" where
  "propagate_failure_to_dependents ev = propagate_with (set_sheet_terminal_status ev)"

definition fail_sheet :: "env \<Rightarrow> string \<Rightarrow> int \<Rightarrow> string \<Rightarrow> msg \<Rightarrow> (baton, unit) act" where
  "fail_sheet ev j n ec m =
     thn (put_state j n (\<lambda>s. s\<lparr>error_code := Some ec, error_message := Some m\<rparr>))
    (thn (set_sheet_terminal_status ev j n FAILED None)
    (thn (put_state j n clear_dispatch_block)
      (with_sheet j n () (\<lambda>s.
         whn (status s = FAILED) (propagate_failure_to_dependents ev j (sheet_num s))))))"

definition settle_flow :: "env \<Rightarrow> string \<Rightarrow> (baton, unit) act" where
  "settle_flow ev j =
     with_job j () (\<lambda>jb.
       if j_flow jb = None then ret ()
       else
         bnd (with_flow j False (settle (ev_flow ev))) (\<lambda>changed.
         thn (whn changed (modify (\<lambda>b. enqueue_dispatch_retry (dirty b))))
        (thn (modify (pause_if_flow_paused j))
           (with_job j () (\<lambda>jb.
              whn (\<not> flow_busy jb)
                (for_each (dkeys (j_sheets jb)) (\<lambda>n.
                   with_sheet j n () (\<lambda>s.
                     whn (status s = FAILED) (propagate_failure_to_dependents ev j n)))))))))"

subsection \<open>Cost limits of a sheet\<close>

definition check_sheet_cost_limit :: "env \<Rightarrow> string \<Rightarrow> int \<Rightarrow> (baton, bool) act" where
  "check_sheet_cost_limit ev j n =
     bnd get_st (\<lambda>b.
       case dget (b_sheet_cost_limits b) (j, n) of
         None \<Rightarrow> ret False
       | Some cap \<Rightarrow>
           with_sheet j n False (\<lambda>s.
             if total_cost_usd s > cap then
               thn (fail_sheet ev j n (code_or (error_code s) E_UNKNOWN)
                      (msg_or (error_message s) (MsgSheetCost (total_cost_usd s) cap)))
              (thn set_dirty (ret True))
             else ret False))"

subsection \<open>Exhausted budgets\<close>

text \<open>
  Path 2, healing: one enriched retry while the healing budget allows. The coordinator's
  result is only logged; while it is awaited other tasks may change the baton.
\<close>

definition heal :: "env \<Rightarrow> string \<Rightarrow> int \<Rightarrow> (baton, bool) act" where
  "heal ev j n =
     with_job j False (\<lambda>jb. with_sheet j n False (\<lambda>s.
       if \<not> (j_self_healing_enabled jb \<and> healing_attempts s < DEFAULT_MAX_HEALING) then ret False
       else
         thn (put_state j n (\<lambda>s. s\<lparr>healing_attempts := healing_attempts s + 1\<rparr>))
        (thn (modify (ev_heal ev j n))
           (bnd get_st (\<lambda>b.
              if \<not> is_job_registration_current b j (j_registration_token jb) then ret True
              else
                case get_sheet_state b j n of
                  None \<Rightarrow> ret True
                | Some s' \<Rightarrow>
                    if \<not> is_terminal (status s') \<and> \<not> is_job_paused b j
                    then thn (schedule_retry ev j n) (ret True)
                    else ret False)))))"

text \<open>Path 3, escalation.\<close>

definition escalate :: "env \<Rightarrow> string \<Rightarrow> int \<Rightarrow> (baton, bool) act" where
  "escalate ev j n =
     with_job j False (\<lambda>jb.
       if \<not> j_escalation_enabled jb then ret False
       else
         thn (put_state j n (\<lambda>s. s\<lparr>status := FERMATA, fermata_entered_at := Some (ev_wall ev),
                fermata_reason := Some (MsgFermata (normal_attempts s) (healing_attempts s))\<rparr>))
        (thn (modify (upd_job j (\<lambda>jb. jb\<lparr>j_paused := True\<rparr>)))
        (thn set_dirty (ret True))))"

text \<open>Path 4, what is left of the normal retries.\<close>

definition last_resort_retry :: "env \<Rightarrow> string \<Rightarrow> int \<Rightarrow> (baton, bool) act" where
  "last_resort_retry ev j n =
     with_sheet j n False (\<lambda>s.
       if \<not> can_retry s then ret False
       else
         thn (put_state j n (\<lambda>s. s\<lparr>normal_attempts := normal_attempts s + 1\<rparr>))
        (thn (schedule_retry ev j n) (ret True)))"

text \<open>Path 5, failure; the error of the last attempt is kept.\<close>

definition exhaustion_message :: "sheet \<Rightarrow> msg" where
  "exhaustion_message s =
     (let generic = MsgRetriesExhausted (normal_attempts s) (max_retries s)
                      (completion_attempts s) (max_completion s)
      in if attempt_results s = [] then generic
         else
           let a = last (attempt_results s) in
           if msg_truthy (ar_error_message a) then msg_or (ar_error_message a) generic
           else if ar_validation_pass_rate a < 100
                then MsgValidationFailed (ar_validation_pass_rate a)
                       (normal_attempts s + completion_attempts s)
           else generic)"

definition describe_exhaustion :: "sheet \<Rightarrow> sheet" where
  "describe_exhaustion s =
     (let s1 = clear_dispatch_block s;
          s2 = (if msg_truthy (error_message s1) then s1
                else s1\<lparr>error_message := Some (exhaustion_message s1)\<rparr>)
      in s2\<lparr>error_code := Some (code_or (error_code s2) E_UNKNOWN)\<rparr>)"

definition exhausted_failure :: "env \<Rightarrow> string \<Rightarrow> int \<Rightarrow> (baton, unit) act" where
  "exhausted_failure ev j n =
     thn (put_state j n describe_exhaustion)
    (thn (with_sheet j n () (\<lambda>s.
            fail_sheet ev j n (code_or (error_code s) E_UNKNOWN)
              (msg_or (error_message s) (Text ''Retries exhausted''))))
      set_dirty)"

text \<open>
  \<open>_handle_exhaustion\<close>. When the job is gone the code only writes to a sheet object that the
  baton no longer holds.
\<close>

definition handle_exhaustion :: "env \<Rightarrow> string \<Rightarrow> int \<Rightarrow> (baton, unit) act" where
  "handle_exhaustion ev j n =
     bnd get_st (\<lambda>b.
       if get_job b j = None then set_dirty
       else
         with_sheet j n () (\<lambda>s.
           unless_done (fall_back ev j n n (derive_fallback_reason s) id)
          (unless_done (heal ev j n)
          (unless_done (escalate ev j n)
          (unless_done (last_resort_retry ev j n)
            (exhausted_failure ev j n))))))"

subsection \<open>Registration\<close>

record job_options =
  jo_escalation_enabled :: bool
  jo_self_healing_enabled :: bool
  jo_pacing_seconds :: rat
  jo_max_concurrent :: "int option"
  jo_fail_fast :: bool
  jo_stagger_delay_ms :: int
  jo_completion_threshold_percent :: rat
  jo_event_generation :: "int option"
  jo_loops :: "(span, loop_config) dict"
  jo_triggers :: "(span, trigger_config) dict"
  jo_flow_state :: "flow_state option"
  jo_flow_variables :: jdict

definition default_options :: job_options where
  "default_options =
     \<lparr>jo_escalation_enabled = False, jo_self_healing_enabled = False, jo_pacing_seconds = 0,
      jo_max_concurrent = None, jo_fail_fast = False, jo_stagger_delay_ms = 0,
      jo_completion_threshold_percent = 0, jo_event_generation = None, jo_loops = [],
      jo_triggers = [], jo_flow_state = None, jo_flow_variables = []\<rparr>"

text \<open>A pause of a checkpoint without ownership is given to its FERMATA sheets, or to a trigger.\<close>

definition own_legacy_pause :: "sheets \<Rightarrow> flow_state \<Rightarrow> flow_state" where
  "own_legacy_pause sh fs =
     (if msg_truthy (fs_pause_reason fs) \<and> fs_escalation_pause_owners fs = {} then
        (let owners = set (dkeys (filter
               (\<lambda>(n, s). status s = FERMATA \<and> msg_truthy (fermata_reason s)) (items sh)));
             fs1 = fs\<lparr>fs_escalation_pause_owners := owners\<rparr>
         in if owners = {} \<and> fs_trigger_pause_reason fs1 = None
            then fs1\<lparr>fs_trigger_pause_reason := fs_pause_reason fs1\<rparr> else fs1)
      else fs)"

definition new_flow :: "env \<Rightarrow> string \<Rightarrow> sheets \<Rightarrow> job_options \<Rightarrow> engine option" where
  "new_flow ev j sh o' =
     (if jo_loops o' \<noteq> [] \<or> jo_triggers o' \<noteq> []
      then
        let en = flow_engine j
              \<lparr>fp_loops = jo_loops o', fp_triggers = jo_triggers o',
               fp_variables = jo_flow_variables o'\<rparr>
              (opt_or (jo_flow_state o') new_flow_state) (jo_event_generation o')
              (fe_now (ev_flow ev))
        in Some (en\<lparr>en_state := own_legacy_pause sh (en_state en)\<rparr>)
      else None)"

definition new_job :: "env \<Rightarrow> sheets \<Rightarrow> (int, int list) dict \<Rightarrow> job_options \<Rightarrow> int
    \<Rightarrow> engine option \<Rightarrow> job" where
  "new_job ev sh deps o' token fl =
     \<lparr>j_sheets = sh, j_dependencies = deps,
      j_paused = (case fl of None \<Rightarrow> False | Some en \<Rightarrow> fs_pause_reason (en_state en) \<noteq> None),
      j_user_paused = False, j_escalation_enabled = jo_escalation_enabled o',
      j_self_healing_enabled = jo_self_healing_enabled o', j_pacing_active = False,
      j_pacing_seconds = jo_pacing_seconds o', j_max_concurrent = jo_max_concurrent o',
      j_fail_fast = jo_fail_fast o', j_stagger_delay_ms = jo_stagger_delay_ms o',
      j_completion_threshold_percent = jo_completion_threshold_percent o',
      j_registration_token = token, j_event_generation = jo_event_generation o',
      j_flow = fl, j_created_at = ev_wall ev\<rparr>"

definition has_chains :: "baton \<Rightarrow> string \<Rightarrow> bool" where
  "has_chains b j = (case get_job b j of
     None \<Rightarrow> False
   | Some jb \<Rightarrow> (case j_flow jb of None \<Rightarrow> False | Some en \<Rightarrow> fs_chains (en_state en) \<noteq> []))"

definition repropagate :: "env \<Rightarrow> string \<Rightarrow> (baton, unit) act" where
  "repropagate ev j =
     bnd get_st (\<lambda>b. for_each (sheet_keys b j) (\<lambda>n.
       with_sheet j n () (\<lambda>s.
         bnd get_st (\<lambda>b.
           whn (status s = FAILED \<and> \<not> has_chains b j) (propagate_failure_to_dependents ev j n)))))"

definition register_job ::
  "env \<Rightarrow> string \<Rightarrow> sheets \<Rightarrow> (int, int list) dict \<Rightarrow> job_options \<Rightarrow> (baton, unit) act" where
  "register_job ev j sh deps o' =
     bnd get_st (\<lambda>b.
       if get_job b j \<noteq> None then ret ()
       else
         let token = b_registration_token_counter b + 1;
             fl = new_flow ev j sh o'
         in
         thn (modify (auto_register_instruments sh))
        (thn (modify (\<lambda>b. dirty (b\<lparr>b_registration_token_counter := token,
                b_jobs := dset (b_jobs b) j (new_job ev sh deps o' token fl)\<rparr>)))
        (thn (repropagate ev j)
          (bnd (with_flow j False (settle (ev_flow ev))) (\<lambda>changed. whn changed set_dirty)))))"

subsection \<open>Attempt results\<close>

text \<open>A stale epoch: the money still counts.\<close>

definition bill_stale_attempt :: "string \<Rightarrow> int \<Rightarrow> attempt_result \<Rightarrow> baton \<Rightarrow> baton" where
  "bill_stale_attempt j n r b =
     check_job_cost_limit j (dirty (upd_sheet j n (\<lambda>s.
       s\<lparr>total_cost_usd := total_cost_usd s + ar_cost_usd r,
         cost_uncertain := cost_uncertain s \<or> ar_cost_uncertain r\<rparr>) b))"

definition check_job_cost :: "string \<Rightarrow> (baton, unit) act" where
  "check_job_cost j = modify (check_job_cost_limit j)"

text \<open>Ends a step that has dealt with the event: \<open>_check_job_cost_limit\<close> and return.\<close>

definition finish :: "string \<Rightarrow> (baton, bool) act" where
  "finish j = thn (check_job_cost j) (ret True)"

definition sheet_cost_step :: "env \<Rightarrow> string \<Rightarrow> int \<Rightarrow> (baton, bool) act" where
  "sheet_cost_step ev j n =
     bnd (check_sheet_cost_limit ev j n) (\<lambda>over. if over then finish j else ret False)"

definition settle_queued_skip_on_attempt_end ::
  "env \<Rightarrow> string \<Rightarrow> int \<Rightarrow> attempt_result \<Rightarrow> (baton, bool) act" where
  "settle_queued_skip_on_attempt_end ev j n r =
     with_job j False (\<lambda>jb.
       case j_flow jb of
         None \<Rightarrow> ret False
       | Some en \<Rightarrow>
           if dget (fs_queued_skips (en_state en)) (ar_sheet_num r) = None then ret False
           else if full_success r then ret False
           else
             thn (whn (\<not> ar_execution_success r)
                    (update_instrument_on_failure ev (ar_instrument_name r)))
            (thn (set_sheet_terminal_status ev j n SKIPPED None)
            (thn (put_state j n clear_dispatch_block)
              (finish j))))"

text \<open>A guarded route is one bounded attempt.\<close>

definition guarded_step :: "env \<Rightarrow> string \<Rightarrow> int \<Rightarrow> attempt_result \<Rightarrow> (baton, bool) act" where
  "guarded_step ev j n r =
     with_sheet j n False (\<lambda>s.
       if expected_route s \<noteq> None \<and> \<not> full_success r then
         thn (set_sheet_terminal_status ev j n FAILED None)
        (thn (put_state j n clear_dispatch_block)
        (thn set_dirty
        (thn (propagate_failure_to_dependents ev j n)
          (finish j))))
       else ret False)"

definition wait_or_60 :: "rat option \<Rightarrow> rat" where
  "wait_or_60 w = (case w of None \<Rightarrow> 60 | Some x \<Rightarrow> if x = 0 then 60 else x)"

definition rate_limited_step :: "string \<Rightarrow> int \<Rightarrow> attempt_result \<Rightarrow> (baton, bool) act" where
  "rate_limited_step j n r =
     (if ar_rate_limited r \<and> \<not> ar_execution_success r then
        thn (put_state j n (\<lambda>s. s\<lparr>status := WAITING\<rparr>))
       (thn set_dirty
       (thn (modify (put_nowait (RateLimitHit (ar_instrument_name r)
               (wait_or_60 (ar_rate_limit_wait_seconds r)) j n (ar_model_used r))))
         (ret True)))
      else ret False)"

definition effective_pass_rate :: "attempt_result \<Rightarrow> rat" where
  "effective_pass_rate r =
     (if ar_execution_success r \<and> ar_validations_total r = 0 \<and> ar_validation_pass_rate r < 100
      then 100 else ar_validation_pass_rate r)"

definition enters_completion :: "job \<Rightarrow> attempt_result \<Rightarrow> bool" where
  "enters_completion jb r \<longleftrightarrow>
     ar_execution_success r \<and> 0 < effective_pass_rate r \<and> effective_pass_rate r < 100 \<and>
     effective_pass_rate r > j_completion_threshold_percent jb"

definition perfect :: "attempt_result \<Rightarrow> bool" where
  "perfect r \<longleftrightarrow> ar_execution_success r \<and> effective_pass_rate r \<ge> 100"

text \<open>Availability and credentials belong to the route, not to the sheet's work.\<close>

definition route_failure :: "attempt_result \<Rightarrow> bool" where
  "route_failure r \<longleftrightarrow>
     ar_error_classification r \<in> {Some ''INSTRUMENT_UNAVAILABLE'', Some ''AUTH_FAILURE''}"

definition on_fail_step :: "env \<Rightarrow> string \<Rightarrow> int \<Rightarrow> attempt_result \<Rightarrow> (baton, bool) act" where
  "on_fail_step ev j n r =
     with_job j False (\<lambda>jb. with_sheet j n False (\<lambda>s.
       case j_flow jb of
         None \<Rightarrow> ret False
       | Some en \<Rightarrow>
           if expected_route s = None \<and> has_on_fail en n \<and> \<not> perfect r \<and>
              \<not> (route_failure r \<and> has_fallback_available s)
           then
             thn (if ar_execution_success r \<and> effective_pass_rate r > 0
                  then modify (update_instrument_on_success (ar_instrument_name r))
                  else whn (\<not> ar_execution_success r)
                         (update_instrument_on_failure ev (ar_instrument_name r)))
            (bnd (check_sheet_cost_limit ev j n) (\<lambda>over.
               if over then ret True
               else
                 thn (set_sheet_terminal_status ev j n FAILED (Some Fail))
                (thn (put_state j n clear_dispatch_block)
                (thn set_dirty
                  (finish j)))))
           else ret False))"

definition schedule_pacing :: "env \<Rightarrow> string \<Rightarrow> baton \<Rightarrow> baton" where
  "schedule_pacing ev j b =
     (case get_job b j of
        None \<Rightarrow> b
      | Some jb \<Rightarrow>
          if j_pacing_seconds jb \<le> 0 then b
          else if list_ex (\<lambda>s. status s = DISPATCHED) (dvals (j_sheets jb)) then b
          else snd (timer_schedule (ev_mono ev) (j_pacing_seconds jb)
                 (PacingComplete j (j_event_generation jb))
                 (dirty (upd_job j (\<lambda>jb. jb\<lparr>j_pacing_active := True\<rparr>) b))))"

definition complete_step :: "env \<Rightarrow> string \<Rightarrow> int \<Rightarrow> attempt_result \<Rightarrow> (baton, bool) act" where
  "complete_step ev j n r =
     with_sheet j n False (\<lambda>s.
       if perfect r then
         thn (set_sheet_terminal_status ev j n COMPLETED
                (if expected_route s \<noteq> None then None else Some Success))
        (thn (put_state j n clear_dispatch_block)
        (thn (modify (update_instrument_on_success (ar_instrument_name r)))
        (thn set_dirty
        (thn (modify (schedule_pacing ev j))
          (finish j)))))
       else ret False)"

definition completion_step :: "env \<Rightarrow> string \<Rightarrow> int \<Rightarrow> attempt_result \<Rightarrow> (baton, bool) act" where
  "completion_step ev j n r =
     with_job j False (\<lambda>jb.
       if \<not> enters_completion jb r then ret False
       else
         thn (modify (update_instrument_on_success (ar_instrument_name r)))
        (thn (put_state j n (\<lambda>s. s\<lparr>completion_attempts := completion_attempts s + 1\<rparr>))
          (with_sheet j n False (\<lambda>s.
             if can_complete s then thn (schedule_retry ev j n) (finish j)
             else
               thn (handle_exhaustion ev j n)
                (bnd get_st (\<lambda>b.
                   if is_job_registration_current b j (j_registration_token jb)
                   then finish j else ret True))))))"

definition unavailable_step :: "env \<Rightarrow> string \<Rightarrow> int \<Rightarrow> attempt_result \<Rightarrow> (baton, bool) act" where
  "unavailable_step ev j n r =
     (if ar_error_classification r \<noteq> Some ''INSTRUMENT_UNAVAILABLE'' then ret False
      else
        bnd (fall_back ev j n n ''unavailable''
               (\<lambda>s. s\<lparr>normal_attempts := max 0 (normal_attempts s - 1)\<rparr>))
          (\<lambda>advanced. if advanced then finish j else ret False))"

definition auth_step :: "env \<Rightarrow> string \<Rightarrow> int \<Rightarrow> attempt_result \<Rightarrow> (baton, bool) act" where
  "auth_step ev j n r =
     (if ar_error_classification r \<noteq> Some ''AUTH_FAILURE'' then ret False
      else
        bnd (fall_back ev j n n ''auth_failure'' id) (\<lambda>advanced.
          if advanced then finish j
          else
            thn (fail_sheet ev j n E_BACKEND_AUTH
                   (msg_or (ar_error_message r) (Text ''Authentication failure'')))
           (thn set_dirty (finish j))))"

text \<open>The instrument branch of a failed execution.\<close>

definition failed_execution_step ::
  "env \<Rightarrow> string \<Rightarrow> int \<Rightarrow> attempt_result \<Rightarrow> (baton, bool) act" where
  "failed_execution_step ev j n r =
     (if ar_execution_success r then ret False
      else
        thn (update_instrument_on_failure ev (ar_instrument_name r))
          (bnd (unavailable_step ev j n r) (\<lambda>d. if d then ret True else auth_step ev j n r)))"

text \<open>What remains: charge a success below the gate, then retry or give up.\<close>

definition retry_or_exhaust :: "env \<Rightarrow> string \<Rightarrow> int \<Rightarrow> int \<Rightarrow> (baton, unit) act" where
  "retry_or_exhaust ev j n token =
     with_sheet j n () (\<lambda>s.
       if \<not> can_retry s then
         thn (handle_exhaustion ev j n)
          (bnd get_st (\<lambda>b. whn (is_job_registration_current b j token) (check_job_cost j)))
       else thn (schedule_retry ev j n) (check_job_cost j))"

definition attempt_tail :: "env \<Rightarrow> string \<Rightarrow> int \<Rightarrow> attempt_result \<Rightarrow> (baton, unit) act" where
  "attempt_tail ev j n r =
     with_job j () (\<lambda>jb.
       thn (whn (ar_execution_success r)
              (put_state j n (\<lambda>s. s\<lparr>normal_attempts := normal_attempts s + 1\<rparr>)))
         (unless_done (sheet_cost_step ev j n)
           (retry_or_exhaust ev j n (j_registration_token jb))))"

text \<open>The decision after the attempt was recorded.\<close>

definition decide_attempt :: "env \<Rightarrow> string \<Rightarrow> int \<Rightarrow> attempt_result \<Rightarrow> (baton, unit) act" where
  "decide_attempt ev j n r =
     unless_done (sheet_cost_step ev j n)
    (unless_done (settle_queued_skip_on_attempt_end ev j n r)
    (unless_done (guarded_step ev j n r)
    (unless_done (rate_limited_step j n r)
    (unless_done (on_fail_step ev j n r)
    (unless_done (complete_step ev j n r)
    (unless_done (completion_step ev j n r)
    (unless_done (failed_execution_step ev j n r)
      (attempt_tail ev j n r))))))))"

definition handle_attempt_result :: "env \<Rightarrow> attempt_result \<Rightarrow> (baton, unit) act" where
  "handle_attempt_result ev r =
     (let j = ar_job_id r; n = ar_sheet_num r in
      with_job j () (\<lambda>jb.
        if ar_event_generation r \<noteq> j_event_generation jb then ret ()
        else
          with_sheet j n () (\<lambda>s.
            if ar_dispatch_epoch r \<noteq> None \<and> ar_dispatch_epoch r \<noteq> Some (dispatch_epoch s)
            then modify (bill_stale_attempt j n r)
            else if is_terminal (status s) then ret ()
            else
              thn (put_state j n (record_attempt r (ev_wall ev)))
                (decide_attempt ev j n r))))"

subsection \<open>Skips, dispatches and rate limits\<close>

definition handle_sheet_skipped :: "env \<Rightarrow> string \<Rightarrow> int \<Rightarrow> msg \<Rightarrow> int option \<Rightarrow> int option
    \<Rightarrow> (baton, unit) act" where
  "handle_sheet_skipped ev = skip_current (set_sheet_terminal_status ev)"

definition handle_sheet_dispatched :: "string \<Rightarrow> int \<Rightarrow> rat \<Rightarrow> baton \<Rightarrow> baton" where
  "handle_sheet_dispatched j n t b =
     (case get_sheet_state b j n of
        None \<Rightarrow> b
      | Some s \<Rightarrow>
          if is_terminal (status s) then b
          else dirty (upd_sheet j n (\<lambda>s.
                 (clear_dispatch_block (s\<lparr>status := DISPATCHED\<rparr>))\<lparr>dispatched_at := Some t\<rparr>) b))"

definition rearm_rate_limit_timer :: "env \<Rightarrow> string \<Rightarrow> rat \<Rightarrow> baton \<Rightarrow> baton" where
  "rearm_rate_limit_timer ev name wait b =
     (if b_timer b = None then b
      else
        let b1 = timer_cancel_opt (dget (b_rate_limit_timers b) name)
                   (b\<lparr>b_rate_limit_timers := ddel (b_rate_limit_timers b) name\<rparr>)
        in case timer_schedule (ev_mono ev) wait (RateLimitExpired name) b1 of
             (None, b2) \<Rightarrow> b2
           | (Some h, b2) \<Rightarrow> b2\<lparr>b_rate_limit_timers := dset (b_rate_limit_timers b2) name h\<rparr>)"

text \<open>The running and waiting sheets a rate limit holds.\<close>

definition limit_hits :: "string \<Rightarrow> string option \<Rightarrow> sheet \<Rightarrow> bool" where
  "limit_hits inst m s \<longleftrightarrow>
     instrument_name s = Some inst \<and> status s \<in> {DISPATCHED, IN_PROGRESS, WAITING} \<and>
     \<not> (m \<noteq> None \<and> model s \<noteq> None \<and> model s \<noteq> m)"

definition hold_sheet :: "env \<Rightarrow> string \<Rightarrow> string option \<Rightarrow> string \<times> int \<Rightarrow> baton \<Rightarrow> baton" where
  "hold_sheet ev inst m path b =
     (case get_sheet_state b (fst path) (snd path) of
        None \<Rightarrow> b
      | Some s \<Rightarrow>
          if \<not> limit_hits inst m s then b
          else if \<not> has_fallback_available s
               then upd_sheet (fst path) (snd path) (\<lambda>s. s\<lparr>status := WAITING\<rparr>) b
          else
            case advance_fallback ''rate_limit'' (ev_wall ev) s of
              (None, _) \<Rightarrow> upd_sheet (fst path) (snd path) (\<lambda>s. s\<lparr>status := WAITING\<rparr>) b
            | (Some to, s') \<Rightarrow>
                ensure_instrument_registered to
                  (upd_sheet (fst path) (snd path) (\<lambda>_. s'\<lparr>status := PENDING\<rparr>) b))"

definition sheet_paths :: "baton \<Rightarrow> (string \<times> int) list" where
  "sheet_paths b = concat (map (\<lambda>(j, jb). map (Pair j) (dkeys (j_sheets jb))) (b_jobs b))"

definition handle_rate_limit_hit ::
  "env \<Rightarrow> string \<Rightarrow> rat \<Rightarrow> string option \<Rightarrow> baton \<Rightarrow> baton" where
  "handle_rate_limit_hit ev inst wait m b =
     (let b1 = upd_instrument inst (\<lambda>i. i\<lparr>rate_limited := True,
                 rate_limit_expires_at := Some (ev_mono ev + wait)\<rparr>) b;
          b2 = rearm_rate_limit_timer ev inst wait b1
      in dirty (fold (hold_sheet ev inst m) (sheet_paths b2) b2))"

definition handle_rate_limit_expired :: "string \<Rightarrow> baton \<Rightarrow> baton" where
  "handle_rate_limit_expired inst b =
     (let b1 = upd_instrument inst unlimit b;
          b2 = b1\<lparr>b_rate_limit_timers := ddel (b_rate_limit_timers b1) inst\<rparr>
      in dirty (map_all_sheets (\<lambda>_. release_waiting inst) b2))"

definition handle_retry_due :: "string \<Rightarrow> int \<Rightarrow> int option \<Rightarrow> int option \<Rightarrow> baton \<Rightarrow> baton" where
  "handle_retry_due j n gen epoch b =
     (case get_job b j of
        None \<Rightarrow> b
      | Some jb \<Rightarrow>
          if \<not> event_generation_is_current b j gen then b
          else
            case dget (j_sheets jb) n of
              None \<Rightarrow> b
            | Some s \<Rightarrow>
                if epoch \<noteq> None \<and> epoch \<noteq> Some (dispatch_epoch s) then b
                else if status s = RETRY_SCHEDULED
                     then dirty (upd_sheet j n (\<lambda>s. s\<lparr>status := PENDING\<rparr>) b) else b)"

subsection \<open>Cancelling\<close>

text \<open>Cancels the sheets of a job that are not terminal, in the order of the job.\<close>

definition cancel_sheets :: "env \<Rightarrow> string \<Rightarrow> (baton, unit) act" where
  "cancel_sheets ev j =
     bnd get_st (\<lambda>b. for_each (sheet_keys b j) (\<lambda>n.
       with_sheet j n () (\<lambda>s.
         whn (\<not> is_terminal (status s))
           (thn (set_sheet_terminal_status ev j n CANCELLED None)
             (put_state j n clear_dispatch_block)))))"

definition handle_job_timeout :: "env \<Rightarrow> string \<Rightarrow> (baton, unit) act" where
  "handle_job_timeout ev j = with_job j () (\<lambda>_. thn (cancel_sheets ev j) set_dirty)"

definition handle_cancel_job :: "env \<Rightarrow> string \<Rightarrow> (baton, unit) act" where
  "handle_cancel_job ev j =
     with_job j () (\<lambda>_. thn (cancel_sheets ev j) (modify (deregister_job j)))"

definition handle_shutdown :: "env \<Rightarrow> bool \<Rightarrow> (baton, unit) act" where
  "handle_shutdown ev graceful =
     thn (modify (\<lambda>b. b\<lparr>b_shutting_down := True\<rparr>))
       (whn (\<not> graceful)
         (bnd get_st (\<lambda>b. for_each (dkeys (b_jobs b)) (cancel_sheets ev))))"

subsection \<open>Escalations\<close>

definition handle_escalation_needed :: "string \<Rightarrow> int \<Rightarrow> baton \<Rightarrow> baton" where
  "handle_escalation_needed j n b =
     (case get_job b j of
        None \<Rightarrow> b
      | Some jb \<Rightarrow>
          let b1 = (case dget (j_sheets jb) n of
                None \<Rightarrow> b
              | Some s \<Rightarrow> if is_terminal (status s) then b
                          else upd_sheet j n (\<lambda>s. s\<lparr>status := FERMATA\<rparr>) b)
          in dirty (upd_job j (\<lambda>jb. jb\<lparr>j_paused := True\<rparr>) b1))"

text \<open>
  The end of an escalation: give up the pause's ownership, and unpause unless the user, a
  fermata, a flow pause or the cost limit still holds the job.
\<close>

definition unpause_after_escalation :: "string \<Rightarrow> bool \<Rightarrow> baton \<Rightarrow> baton" where
  "unpause_after_escalation j fermata b =
     (case get_job b j of
        None \<Rightarrow> b
      | Some jb \<Rightarrow>
          if \<not> j_user_paused jb \<and> \<not> fermata \<and> flow_pause_reason jb = None
          then check_job_cost_limit j (upd_job j (\<lambda>jb. jb\<lparr>j_paused := False\<rparr>) b) else b)"

definition end_escalation :: "string \<Rightarrow> int \<Rightarrow> (baton, unit) act" where
  "end_escalation j n =
     with_job j () (\<lambda>jb.
       thn (whn (dget (j_sheets jb) n \<noteq> None) (release_escalation_pause j n))
      (thn (modify (unpause_after_escalation j (any_fermata jb)))
        set_dirty))"

definition apply_decision :: "env \<Rightarrow> string \<Rightarrow> int \<Rightarrow> string \<Rightarrow> (baton, unit) act" where
  "apply_decision ev j n decision =
     (if decision = ''retry'' then put_state j n (\<lambda>s. s\<lparr>status := PENDING\<rparr>)
      else if decision = ''skip'' then
        thn (set_sheet_terminal_status ev j n SKIPPED None) (put_state j n clear_dispatch_block)
      else if decision = ''accept'' then
        thn (set_sheet_terminal_status ev j n COMPLETED None) (put_state j n clear_dispatch_block)
      else fail_sheet ev j n E_UNKNOWN (MsgDecision decision))"

definition handle_escalation_resolved :: "env \<Rightarrow> string \<Rightarrow> int \<Rightarrow> string \<Rightarrow> (baton, unit) act" where
  "handle_escalation_resolved ev j n decision =
     thn (with_sheet j n () (\<lambda>s. whn (status s = FERMATA) (apply_decision ev j n decision)))
       (end_escalation j n)"

definition handle_escalation_timeout :: "env \<Rightarrow> string \<Rightarrow> int \<Rightarrow> (baton, unit) act" where
  "handle_escalation_timeout ev j n =
     thn (with_sheet j n () (\<lambda>s.
            whn (status s = FERMATA) (fail_sheet ev j n E_UNKNOWN MsgEscalationTimedOut)))
       (end_escalation j n)"

subsection \<open>Commands and observations\<close>

definition handle_pause_job :: "string \<Rightarrow> baton \<Rightarrow> baton" where
  "handle_pause_job j b = snd (request_pause j b)"

definition handle_resume_job :: "string \<Rightarrow> baton \<Rightarrow> baton" where
  "handle_resume_job j b =
     (if get_job b j = None then b
      else dirty (check_job_cost_limit j
             (upd_job j (\<lambda>jb. jb\<lparr>j_paused := False, j_user_paused := False\<rparr>) b)))"

definition crash_report :: "string \<Rightarrow> int \<Rightarrow> int \<Rightarrow> int option \<Rightarrow> job \<Rightarrow> sheet \<Rightarrow> attempt_result" where
  "crash_report j n pid ec jb s =
     (attempt_report j n (or_empty (instrument_name s)) (normal_attempts s + 1))
       \<lparr>ar_event_generation := j_event_generation jb, ar_execution_success := False,
        ar_exit_code := ec, ar_error_classification := Some ''PROCESS_CRASH'',
        ar_error_message := Some (MsgProcessExited pid ec)\<rparr>"

definition crash_tail :: "env \<Rightarrow> string \<Rightarrow> int \<Rightarrow> (baton, unit) act" where
  "crash_tail ev j n =
     with_job j () (\<lambda>jb. with_sheet j n () (\<lambda>s.
       thn (update_instrument_on_failure ev (or_empty (instrument_name s)))
         (if \<not> can_retry s then
            thn (handle_exhaustion ev j n)
             (bnd get_st (\<lambda>b.
                whn (is_job_registration_current b j (j_registration_token jb)) set_dirty))
          else thn (schedule_retry ev j n) set_dirty)))"

definition handle_process_exited ::
  "env \<Rightarrow> string \<Rightarrow> int \<Rightarrow> int \<Rightarrow> int option \<Rightarrow> (baton, unit) act" where
  "handle_process_exited ev j n pid ec =
     with_job j () (\<lambda>jb. with_sheet j n () (\<lambda>s.
       whn (status s = DISPATCHED)
         (thn (put_state j n (record_attempt (crash_report j n pid ec jb s) (ev_wall ev)))
           (unless_done
              (settle_queued_skip_on_attempt_end ev j n (crash_report j n pid ec jb s))
              (crash_tail ev j n)))))"

text \<open>\<open>_handle_stale_check\<close> only logs; the adapter decides before the event gets here.\<close>

definition handle_stale_check :: "string \<Rightarrow> int \<Rightarrow> baton \<Rightarrow> baton" where
  "handle_stale_check j n b = b"

definition handle_resource_anomaly :: "string \<Rightarrow> baton \<Rightarrow> baton" where
  "handle_resource_anomaly severity b =
     (if severity = ''critical'' then
        let b1 = b\<lparr>b_jobs := dmap (\<lambda>_ jb. jb\<lparr>j_paused := True\<rparr>) (b_jobs b)\<rparr>
        in if list_ex (\<lambda>jb. \<not> j_paused jb) (dvals (b_jobs b)) then dirty b1 else b1
      else
        let b1 = b\<lparr>b_jobs := dmap (\<lambda>_ jb.
               if j_paused jb \<and> \<not> j_user_paused jb then jb\<lparr>j_paused := False\<rparr> else jb) (b_jobs b)\<rparr>
        in if list_ex (\<lambda>jb. j_paused jb \<and> \<not> j_user_paused jb) (dvals (b_jobs b))
           then dirty b1 else b1)"

definition handle_pacing_complete :: "string \<Rightarrow> int option \<Rightarrow> baton \<Rightarrow> baton" where
  "handle_pacing_complete j gen b =
     (if get_job b j \<noteq> None \<and> event_generation_is_current b j gen
      then dirty (upd_job j (\<lambda>jb. jb\<lparr>j_pacing_active := False\<rparr>) b) else b)"

definition handle_dispatch_retry :: "string option \<Rightarrow> int option \<Rightarrow> baton \<Rightarrow> baton" where
  "handle_dispatch_retry sj gen b =
     (let b1 = b\<lparr>b_dispatch_retry_pending := False\<rparr>
      in case sj of
           Some j \<Rightarrow>
             if gen \<noteq> None \<and> gen = get_job_registration_token b1 j
             then b1\<lparr>b_stagger_wake_handles := ddel (b_stagger_wake_handles b1) j\<rparr> else b1
         | None \<Rightarrow>
             if gen = Some 0
             then b1\<lparr>b_stagger_wake_handles := ddel (b_stagger_wake_handles b1) ''__legacy__''\<rparr>
             else b1)"

subsection \<open>Flow events\<close>

definition when_true :: "(baton, bool) act \<Rightarrow> (baton, unit) act \<Rightarrow> (baton, unit) act" where
  "when_true m k = bnd m (\<lambda>c. whn c k)"

definition jopt :: "('a \<Rightarrow> json) \<Rightarrow> 'a option \<Rightarrow> json" where
  "jopt f x = (case x of None \<Rightarrow> JNull | Some y \<Rightarrow> f y)"

definition handle_loop_facts :: "env \<Rightarrow> string \<Rightarrow> span \<Rightarrow> int \<Rightarrow> (string, file_facts) dict
    \<Rightarrow> string option \<Rightarrow> (baton, unit) act" where
  "handle_loop_facts ev j sp req files err =
     when_true (with_flow j False (facts_ready (ev_flow ev) sp req files err)) set_dirty"

definition note_cleanup :: "string \<Rightarrow> int option \<Rightarrow> int \<Rightarrow> baton \<Rightarrow> baton" where
  "note_cleanup j supervisor orphans b =
     (case supervisor of
        None \<Rightarrow> b
      | Some pid \<Rightarrow>
          upd_flow_state j (\<lambda>fs. fs\<lparr>fs_run_cleanup := fs_run_cleanup fs @
            [JObj [(''supervisor_pid'', JInt pid), (''reparented_orphans'', JInt orphans)]]\<rparr>) b)"

text \<open>The cursor of a chain is never negative, so a negative one never matches.\<close>

definition finished_at :: "env \<Rightarrow> int \<Rightarrow> int \<Rightarrow> json \<Rightarrow> (flow_world, bool) act" where
  "finished_at ev cid cursor result =
     (if cursor < 0 then ret False else action_finished (ev_flow ev) cid (nat cursor) result)"

definition handle_run_finished :: "env \<Rightarrow> string \<Rightarrow> int \<Rightarrow> int \<Rightarrow> int option \<Rightarrow> bool
    \<Rightarrow> string option \<Rightarrow> string option \<Rightarrow> int option \<Rightarrow> int \<Rightarrow> (baton, unit) act" where
  "handle_run_finished ev j cid cursor ec timed_out log_path err supervisor orphans =
     when_true
       (with_flow j False (finished_at ev cid cursor
          (JObj [(''exit_code'', jopt JInt ec), (''timed_out'', JBool timed_out),
                 (''log_path'', jopt JStr log_path), (''error'', jopt JStr err)])))
       (thn (modify (note_cleanup j supervisor orphans)) set_dirty)"

definition handle_concert_submitted :: "env \<Rightarrow> string \<Rightarrow> int \<Rightarrow> int \<Rightarrow> bool \<Rightarrow> string option
    \<Rightarrow> string option \<Rightarrow> (baton, unit) act" where
  "handle_concert_submitted ev j cid cursor accepted child m =
     when_true
       (with_flow j False (finished_at ev cid cursor
          (JObj [(''accepted'', JBool accepted), (''child_job_id'', jopt JStr child),
                 (''message'', jopt JStr m)])))
       set_dirty"

subsection \<open>The event dispatcher\<close>

text \<open>
  The \<open>match\<close> of \<open>handle_event\<close>. Events that only observers use, and the unimplemented
  reload, change nothing here.
\<close>

fun react :: "env \<Rightarrow> event \<Rightarrow> (baton, unit) act" where
  "react ev (SheetAttemptResult r) = handle_attempt_result ev r"
| "react ev (SheetSkipped j n reason gen epoch) = handle_sheet_skipped ev j n reason gen epoch"
| "react ev (SheetDispatched j n inst gen t) = modify (handle_sheet_dispatched j n t)"
| "react ev (RateLimitHit inst wait j n m) = modify (handle_rate_limit_hit ev inst wait m)"
| "react ev (RateLimitExpired inst) = modify (handle_rate_limit_expired inst)"
| "react ev (RetryDue j n gen epoch) = modify (handle_retry_due j n gen epoch)"
| "react ev (StaleCheck j n gen epoch) = modify (handle_stale_check j n)"
| "react ev (LoopFactsReady j sp req files err gen) = handle_loop_facts ev j sp req files err"
| "react ev (FlowRunFinished j cid cursor ec timed_out log_path err supervisor orphans gen) =
     handle_run_finished ev j cid cursor ec timed_out log_path err supervisor orphans"
| "react ev (FlowConcertSubmitted j cid cursor accepted child m gen) =
     handle_concert_submitted ev j cid cursor accepted child m"
| "react ev (CronTick entry path due) =
     bnd get_st (\<lambda>b. if b_cron_handler b then ev_cron ev (CronTick entry path due) else ret ())"
| "react ev (JobTimeout j gen) = handle_job_timeout ev j"
| "react ev (PacingComplete j gen) = modify (handle_pacing_complete j gen)"
| "react ev (EscalationNeeded j n reason gen) = modify (handle_escalation_needed j n)"
| "react ev (EscalationResolved j n decision gen) = handle_escalation_resolved ev j n decision"
| "react ev (EscalationTimeout j n gen) = handle_escalation_timeout ev j n"
| "react ev (PauseJob j gen) = modify (handle_pause_job j)"
| "react ev (ResumeJob j gen) = modify (handle_resume_job j)"
| "react ev (CancelJob j gen) = handle_cancel_job ev j"
| "react ev (ShutdownRequested graceful) = handle_shutdown ev graceful"
| "react ev (ProcessExited j n pid ec gen) = handle_process_exited ev j n pid ec"
| "react ev (ResourceAnomaly severity metric v) = modify (handle_resource_anomaly severity)"
| "react ev (DispatchRetry sj gen) = modify (handle_dispatch_retry sj gen)"
| "react ev (CircuitBreakerRecovery inst) = modify (handle_circuit_breaker_recovery inst)"
| "react ev _ = ret ()"

text \<open>The generation guard: a per-job event must name the current registration.\<close>

definition stale_event :: "baton \<Rightarrow> event \<Rightarrow> bool" where
  "stale_event b e \<longleftrightarrow>
     (case event_generation e of
        None \<Rightarrow> False
      | Some g \<Rightarrow>
          (case event_job e of
             None \<Rightarrow> True
           | Some j \<Rightarrow> \<not> event_generation_is_current b j g))"

definition handle_event_body :: "env \<Rightarrow> event \<Rightarrow> (baton, unit) act" where
  "handle_event_body ev e =
     bnd get_st (\<lambda>b.
       if stale_event b e then ret ()
       else
         thn (react ev e)
           (case event_job e of None \<Rightarrow> ret () | Some j \<Rightarrow> settle_flow ev j))"

text \<open>Handler exceptions are logged, not raised.\<close>

definition handle_event :: "env \<Rightarrow> event \<Rightarrow> baton \<Rightarrow> baton" where
  "handle_event ev e b = snd (handle_event_body ev e b)"

subsection \<open>The loop\<close>

text \<open>
  One round of \<open>run\<close>, when there is an event and no shutdown; the list of environments gives
  each round its clocks. The loop waits when the inbox is empty.
\<close>

fun run_loop :: "env list \<Rightarrow> baton \<Rightarrow> baton" where
  "run_loop [] b = b"
| "run_loop (ev # evs) b =
     (if b_shutting_down b then b\<lparr>b_running := False\<rparr>
      else
        case b_inbox b of
          [] \<Rightarrow> b
        | e # es \<Rightarrow> run_loop evs (handle_event ev e (b\<lparr>b_inbox := es\<rparr>)))"

definition run :: "env list \<Rightarrow> baton \<Rightarrow> baton" where
  "run evs b = run_loop evs (b\<lparr>b_running := True\<rparr>)"

end
