(* ===== verification/Baton_Terminal.thy ===== *)
theory Baton_Terminal
  imports Baton
begin

section \<open>Terminal sheets stay terminal\<close>

text \<open>
  The scheduler's main invariant: in a job without a flow (no loop, no trigger can send a
  sheet back) a terminal sheet keeps its status for as long as the registration lives,
  whatever events arrive, in whatever order. The relation \<open>absorbs\<close> between two states of
  the baton says so; each operation is shown to evolve along it, from the guards that its
  code checks.
\<close>

subsection \<open>Frames of the single mutations\<close>

text \<open>What most mutations leave alone: the job registry and its counter.\<close>

definition same_jobs :: "baton \<Rightarrow> baton \<Rightarrow> bool" where
  "same_jobs b b' \<longleftrightarrow> b_jobs b' = b_jobs b \<and>
     b_registration_token_counter b' = b_registration_token_counter b"

interpretation same_jobs: evolution same_jobs
  by unfold_locales (simp_all add: same_jobs_def)

lemmas same_jobs_refl [simp] = same_jobs.evo_refl

lemmas same_jobs_trans = same_jobs.evo_trans

lemma same_jobs_get: "same_jobs b b' \<Longrightarrow> get_job b' j = get_job b j"
  by (simp add: same_jobs_def get_job_def)

lemma same_jobs_sheet: "same_jobs b b' \<Longrightarrow> get_sheet_state b' j n = get_sheet_state b j n"
  by (simp add: get_sheet_state_def same_jobs_get)

lemma same_jobs_simple [simp]:
  "same_jobs b (dirty b)"
  "same_jobs b (put_nowait e b)"
  "same_jobs b (enqueue_dispatch_retry b)"
  "same_jobs b (enqueue_dispatch_retry (dirty b))"
  "same_jobs b (upd_instrument name f b)"
  "same_jobs b (update_instrument_on_success name b)"
  "same_jobs b (note_fallback j k old new reason b)"
  "same_jobs b (timer_cancel_opt h b)"
  by (simp_all add: same_jobs_def dirty_def put_nowait_def enqueue_dispatch_retry_def
      upd_instrument_def update_instrument_on_success_def note_fallback_def timer_cancel_opt_def
      timer_cancel_def split: option.splits)

lemma same_jobs_ensure [simp]: "same_jobs b (ensure_instrument_registered name b)"
  by (simp add: same_jobs_def ensure_instrument_registered_def register_instrument_def Let_def
      split: option.splits)

lemma same_jobs_auto_sheet: "same_jobs b (auto_register_sheet s b)"
  unfolding auto_register_sheet_def
  by (rule same_jobs_trans [OF same_jobs_ensure]) (rule same_jobs.evo_fold, simp)

lemma same_jobs_auto [simp]: "same_jobs b (auto_register_instruments sh b)"
  unfolding auto_register_instruments_def by (rule same_jobs.evo_fold) (rule same_jobs_auto_sheet)

lemma same_jobs_schedule [simp]: "same_jobs b (snd (timer_schedule now delay e b))"
  by (simp add: same_jobs_def timer_schedule_def Let_def split: option.splits prod.splits)

lemma same_jobs_scheduled: "timer_schedule now delay e b = (h, b') \<Longrightarrow> same_jobs b b'"
  using same_jobs_schedule [of b now delay e] by simp

lemma same_jobs_cancel_of: "same_jobs a b \<Longrightarrow> same_jobs a (timer_cancel_opt h b)"
  by (erule same_jobs_trans) simp

lemma same_jobs_rearm [simp]:
  "same_jobs b (rearm_breaker_timer ev name delay b)"
  "same_jobs b (rearm_rate_limit_timer ev name wait b)"
proof -
  have a: "same_jobs b (timer_cancel_opt h (b\<lparr>b_circuit_breaker_timers := x\<rparr>))" for h x
    by (rule same_jobs_cancel_of) (simp add: same_jobs_def)
  have c: "same_jobs b (timer_cancel_opt h (b\<lparr>b_rate_limit_timers := x\<rparr>))" for h x
    by (rule same_jobs_cancel_of) (simp add: same_jobs_def)
  have up: "same_jobs b b' \<Longrightarrow> same_jobs b (b'\<lparr>b_circuit_breaker_timers := x\<rparr>)"
    and up': "same_jobs b b' \<Longrightarrow> same_jobs b (b'\<lparr>b_rate_limit_timers := x\<rparr>)" for b' x
    by (simp_all add: same_jobs_def)
  show "same_jobs b (rearm_breaker_timer ev name delay b)"
    using a by (auto simp: rearm_breaker_timer_def Let_def split: prod.splits option.splits
        dest!: same_jobs_scheduled intro: up same_jobs_trans)
  show "same_jobs b (rearm_rate_limit_timer ev name wait b)"
    using c by (auto simp: rearm_rate_limit_timer_def Let_def split: prod.splits option.splits
        dest!: same_jobs_scheduled intro: up' same_jobs_trans)
qed

lemma same_jobs_field [simp]:
  "same_jobs b (b\<lparr>b_circuit_breaker_timers := a1\<rparr>)"
  "same_jobs b (b\<lparr>b_rate_limit_timers := a2\<rparr>)"
  "same_jobs b (b\<lparr>b_skip_events := a3\<rparr>)"
  "same_jobs b (b\<lparr>b_shutting_down := a4\<rparr>)"
  "same_jobs b (b\<lparr>b_dispatch_retry_pending := a5\<rparr>)"
  "same_jobs b (b\<lparr>b_inbox := a6\<rparr>)"
  "same_jobs b (b\<lparr>b_running := a7\<rparr>)"
  by (simp_all add: same_jobs_def)

lemma get_job_upd [simp]:
  "get_job (upd_job j f b) k = (if k = j then map_option f (get_job b j) else get_job b k)"
  by (simp add: get_job_def upd_job_def)

lemma counter_upd [simp]:
  "b_registration_token_counter (upd_job j f b) = b_registration_token_counter b"
  "b_registration_token_counter (upd_sheet j n g b) = b_registration_token_counter b"
  by (simp_all add: upd_job_def upd_sheet_def)

lemma get_job_upd_sheet:
  "get_job (upd_sheet j n f b) k =
     (if k = j then map_option (\<lambda>jb. jb\<lparr>j_sheets := dadj (j_sheets jb) n f\<rparr>) (get_job b j)
      else get_job b k)"
  by (simp add: upd_sheet_def)

lemma get_sheet_upd [simp]:
  "get_sheet_state (upd_sheet j n f b) k m =
     (if k = j \<and> m = n then map_option f (get_sheet_state b j n) else get_sheet_state b k m)"
  by (simp add: get_sheet_state_def get_job_upd_sheet split: option.splits)

lemma with_sheet_run:
  "with_sheet j n d f b =
     (case get_sheet_state b j n of None \<Rightarrow> (Inr d, b) | Some s \<Rightarrow> f s b)"
  by (simp add: with_sheet_def run_bnd split: option.splits)

lemma with_job_run:
  "with_job j d f b = (case get_job b j of None \<Rightarrow> (Inr d, b) | Some jb \<Rightarrow> f jb b)"
  by (simp add: with_job_def run_bnd split: option.splits)

subsection \<open>The relation\<close>

definition keeps_terminal :: "job \<Rightarrow> job \<Rightarrow> bool" where
  "keeps_terminal jb jb' \<longleftrightarrow> (j_flow jb = None \<longrightarrow> j_flow jb' = None \<and>
     (\<forall>n s. dget (j_sheets jb) n = Some s \<longrightarrow> is_terminal (status s) \<longrightarrow>
        (\<exists>s'. dget (j_sheets jb') n = Some s' \<and> status s' = status s)))"

definition absorbs :: "baton \<Rightarrow> baton \<Rightarrow> bool" where
  "absorbs b b' \<longleftrightarrow>
     b_registration_token_counter b \<le> b_registration_token_counter b' \<and>
     (\<forall>j jb'. get_job b' j = Some jb' \<longrightarrow>
        b_registration_token_counter b < j_registration_token jb' \<or>
        (\<exists>jb. get_job b j = Some jb \<and> j_registration_token jb = j_registration_token jb' \<and>
           keeps_terminal jb jb'))"

lemma keeps_terminal_refl [simp]: "keeps_terminal jb jb"
  by (simp add: keeps_terminal_def)

lemma keeps_terminal_trans: "keeps_terminal a b \<Longrightarrow> keeps_terminal b c \<Longrightarrow> keeps_terminal a c"
  unfolding keeps_terminal_def by metis

interpretation absorbs: evolution absorbs
proof
  show "absorbs s s" for s
    by (simp add: absorbs_def)
  fix s t u assume st: "absorbs s t" and tu: "absorbs t u"
  show "absorbs s u" unfolding absorbs_def
  proof (intro conjI allI impI)
    show "b_registration_token_counter s \<le> b_registration_token_counter u"
      using st tu by (simp add: absorbs_def)
    fix j jb' assume "get_job u j = Some jb'"
    with tu have "b_registration_token_counter t < j_registration_token jb' \<or>
      (\<exists>jb. get_job t j = Some jb \<and> j_registration_token jb = j_registration_token jb' \<and>
         keeps_terminal jb jb')" by (simp add: absorbs_def)
    then show "b_registration_token_counter s < j_registration_token jb' \<or>
      (\<exists>jb. get_job s j = Some jb \<and> j_registration_token jb = j_registration_token jb' \<and>
         keeps_terminal jb jb')"
    proof
      assume "b_registration_token_counter t < j_registration_token jb'"
      then show ?thesis using st by (simp add: absorbs_def)
    next
      assume "\<exists>jb. get_job t j = Some jb \<and> j_registration_token jb = j_registration_token jb' \<and>
         keeps_terminal jb jb'"
      then show ?thesis using st unfolding absorbs_def by (metis keeps_terminal_trans)
    qed
  qed
qed

lemma absorbs_same: "same_jobs b b' \<Longrightarrow> absorbs b b'"
  by (simp add: absorbs_def same_jobs_def get_job_def)

lemma absorbs_upd_job:
  assumes "\<And>jb. get_job b j = Some jb \<Longrightarrow>
    j_registration_token (f jb) = j_registration_token jb \<and> keeps_terminal jb (f jb)"
  shows "absorbs b (upd_job j f b)"
  using assms by (auto simp: absorbs_def split: if_splits)

text \<open>A status write needs the sheet to be live, or the job to have a flow.\<close>

definition live :: "string \<Rightarrow> int \<Rightarrow> baton \<Rightarrow> bool" where
  "live j n b \<longleftrightarrow>
     (\<forall>jb s. get_job b j = Some jb \<longrightarrow> j_flow jb = None \<longrightarrow> dget (j_sheets jb) n = Some s \<longrightarrow>
        \<not> is_terminal (status s))"

lemma live_same: "same_jobs b b' \<Longrightarrow> live j n b' = live j n b"
  by (simp add: live_def same_jobs_get)

lemma live_keep: "same_jobs b b' \<Longrightarrow> live j n b \<Longrightarrow> live j n b'"
  by (simp add: live_same)

lemma live_evolves: "evolves same_jobs m \<Longrightarrow> steps absorbs (live j n) m (\<lambda>_. live j n)"
  unfolding steps_def evolves_def by (metis absorbs_same live_same)

lemma liveI: "get_sheet_state b j n = Some s \<Longrightarrow> \<not> is_terminal (status s) \<Longrightarrow> live j n b"
  by (auto simp: live_def get_sheet_state_def)

lemma absorbs_upd_sheet:
  assumes "live j n b \<or> (\<forall>s. status (f s) = status s)"
  shows "absorbs b (upd_sheet j n f b)"
  unfolding upd_sheet_def
proof (rule absorbs_upd_job)
  fix jb assume "get_job b j = Some jb"
  with assms show "j_registration_token (jb\<lparr>j_sheets := dadj (j_sheets jb) n f\<rparr>) =
      j_registration_token jb \<and> keeps_terminal jb (jb\<lparr>j_sheets := dadj (j_sheets jb) n f\<rparr>)"
    by (auto simp: keeps_terminal_def live_def)
qed

lemma live_upd_sheet:
  assumes "live j n b" and "\<And>s. \<not> is_terminal (status s) \<Longrightarrow> \<not> is_terminal (status (f s))"
  shows "live j n (upd_sheet j n f b)"
  using assms by (auto simp: live_def get_job_upd_sheet split: if_splits)


subsection \<open>Operations that never write a terminal status over another\<close>

lemma live_put: "(\<And>s. \<not> is_terminal (status s) \<Longrightarrow> \<not> is_terminal (status (f s))) \<Longrightarrow>
  steps absorbs (live j n) (put_state j n f) (\<lambda>_. live j n)"
  unfolding put_state_def by (intro steps_modify absorbs_upd_sheet live_upd_sheet) auto

lemma live_write: "steps absorbs (live j n) (put_state j n f) (\<lambda>_ _. True)"
  unfolding put_state_def by (intro steps_modify absorbs_upd_sheet) auto

lemma absorbs_put: "(\<And>s. status (f s) = status s) \<Longrightarrow> evolves absorbs (put_state j n f)"
  unfolding put_state_def by (intro absorbs.evo_modify absorbs_upd_sheet) auto

lemma absorbs_modify: "(\<And>b. same_jobs b (f b)) \<Longrightarrow> evolves absorbs (modify f)"
  by (intro absorbs.evo_modify absorbs_same)

lemma live_modify: "(\<And>b. same_jobs b (f b)) \<Longrightarrow> steps absorbs (live j n) (modify f) (\<lambda>_. live j n)"
  by (intro live_evolves same_jobs.evo_modify)

lemma absorbs_evolves: "evolves same_jobs m \<Longrightarrow> evolves absorbs m"
  by (simp add: evolves_def absorbs_same)

lemma absorbs_dirty: "evolves absorbs set_dirty"
  unfolding set_dirty_def by (rule absorbs_modify) simp

lemma live_dirty: "steps absorbs (live j n) set_dirty (\<lambda>_. live j n)"
  unfolding set_dirty_def by (rule live_modify) simp

lemma absorbs_with_sheet:
  "(\<And>s. evolves absorbs (f s)) \<Longrightarrow> evolves absorbs (with_sheet j n d f)"
  unfolding with_sheet_def by (intro absorbs.evo_rules)

lemma absorbs_with_job:
  "(\<And>jb. evolves absorbs (f jb)) \<Longrightarrow> evolves absorbs (with_job j d f)"
  unfolding with_job_def by (intro absorbs.evo_rules)

text \<open>Reading the sheet that a guard then finds live, or terminal.\<close>

lemma steps_with_sheet:
  assumes "\<And>b. P b \<Longrightarrow> get_sheet_state b j n = None \<Longrightarrow> Q d b"
    and "\<And>s. steps absorbs (\<lambda>b. P b \<and> get_sheet_state b j n = Some s) (f s) Q"
  shows "steps absorbs P (with_sheet j n d f) Q"
  unfolding steps_def
proof (intro allI impI)
  fix b assume p: "P b"
  show "absorbs b (snd (with_sheet j n d f b)) \<and>
    (\<forall>x. fst (with_sheet j n d f b) = Inr x \<longrightarrow> Q x (snd (with_sheet j n d f b)))"
  proof (cases "get_sheet_state b j n")
    case None
    then show ?thesis using assms(1) p by (simp add: with_sheet_run absorbs.evo_refl)
  next
    case (Some s)
    then show ?thesis using assms(2) [of s] p by (simp add: with_sheet_run steps_def)
  qed
qed

lemma steps_with_job:
  assumes "\<And>b. P b \<Longrightarrow> get_job b j = None \<Longrightarrow> Q d b"
    and "\<And>jb. steps absorbs P (f jb) Q"
  shows "steps absorbs P (with_job j d f) Q"
  using assms
  by (auto simp: steps_def with_job_run absorbs.evo_refl split: option.splits)

lemma evolves_with_sheet:
  "(\<And>s. steps absorbs (\<lambda>b. get_sheet_state b j n = Some s) (f s) (\<lambda>_ _. True)) \<Longrightarrow>
   evolves absorbs (with_sheet j n d f)"
  unfolding steps_evolves [symmetric]
  by (rule steps_with_sheet) simp_all

lemma steps_live:
  "steps absorbs (live j n) m (\<lambda>_ _. True) \<Longrightarrow> \<not> is_terminal (status s) \<Longrightarrow>
   steps absorbs (\<lambda>b. P b \<and> get_sheet_state b j n = Some s) m (\<lambda>_ _. True)"
  by (erule steps_weaken) (auto intro: liveI)

lemma steps_live':
  "steps absorbs (live j n) m (\<lambda>_ _. True) \<Longrightarrow> \<not> is_terminal (status s) \<Longrightarrow>
   steps absorbs (\<lambda>b. get_sheet_state b j n = Some s) m (\<lambda>_ _. True)"
  by (erule steps_weaken) (auto intro: liveI)

lemma absorbs_with_flow: "evolves absorbs (with_flow j d m)"
proof (unfold evolves_def, intro allI)
  fix b
  show "absorbs b (snd (with_flow j d m b))"
  proof (cases "get_job b j")
    case None
    then show ?thesis by (simp add: with_flow_def absorbs.evo_refl)
  next
    case (Some jb)
    show ?thesis
    proof (cases "j_flow jb")
      case None
      with Some show ?thesis by (simp add: with_flow_def absorbs.evo_refl)
    next
      case (Some en)
      with \<open>get_job b j = Some jb\<close> show ?thesis
        by (auto simp: with_flow_def keeps_terminal_def split: prod.splits
            intro!: absorbs_upd_job)
    qed
  qed
qed

lemma absorbs_upd_flow_state: "evolves absorbs (modify (upd_flow_state j f))"
  unfolding upd_flow_state_def
  by (intro absorbs.evo_modify absorbs_upd_job) (simp add: keeps_terminal_def)

lemma absorbs_flags:
  assumes "\<And>jb. j_sheets (f jb) = j_sheets jb \<and> j_flow (f jb) = j_flow jb \<and>
    j_registration_token (f jb) = j_registration_token jb"
  shows "absorbs b (upd_job j f b)"
  using assms by (intro absorbs_upd_job) (simp add: keeps_terminal_def)

lemma absorbs_pause_dirty: "absorbs b (dirty (upd_job j (\<lambda>jb. jb\<lparr>j_paused := p\<rparr>) b))"
proof (rule absorbs.evo_trans)
  show "absorbs b (upd_job j (\<lambda>jb. jb\<lparr>j_paused := p\<rparr>) b)" by (rule absorbs_flags) simp
qed (rule absorbs_same, simp)

lemma absorbs_check_job_cost_limit: "absorbs b (check_job_cost_limit j b)"
  by (simp add: check_job_cost_limit_def absorbs.evo_refl absorbs_pause_dirty split: option.splits)

lemma absorbs_check_job_cost: "evolves absorbs (check_job_cost j)"
  unfolding check_job_cost_def by (rule absorbs.evo_modify) (rule absorbs_check_job_cost_limit)

lemma absorbs_finish: "evolves absorbs (finish j)"
  unfolding finish_def by (intro absorbs.evo_rules absorbs_check_job_cost)

lemma absorbs_pause_if: "evolves absorbs (modify (pause_if_flow_paused j))"
  by (rule absorbs.evo_modify)
    (simp add: pause_if_flow_paused_def absorbs.evo_refl absorbs_pause_dirty split: option.splits)

lemma same_jobs_modify: "(\<And>b. same_jobs b (f b)) \<Longrightarrow> evolves same_jobs (modify f)"
  by (rule same_jobs.evo_modify)

lemma same_jobs_breaker: "evolves same_jobs (schedule_circuit_breaker_recovery ev name)"
  unfolding schedule_circuit_breaker_recovery_def
  by (intro same_jobs.evo_rules) simp_all

lemma same_jobs_failure: "evolves same_jobs (update_instrument_on_failure ev name)"
  unfolding update_instrument_on_failure_def
  by (intro same_jobs.evo_rules same_jobs_breaker) simp_all

lemmas absorbs_failure = absorbs_evolves [OF same_jobs_failure]

lemmas live_failure = live_evolves [OF same_jobs_failure]

lemma absorbs_release: "evolves absorbs (release_escalation_pause j n)"
  unfolding release_escalation_pause_def Let_def
  by (intro absorbs_with_job absorbs.evo_rules absorbs_upd_flow_state)

lemma live_kept_by_flow_state: "live j n (upd_flow_state k f b) = live j n b"
  by (auto simp: live_def upd_flow_state_def split: if_splits)

lemma live_release:
  "steps absorbs (live j n) (release_escalation_pause k m) (\<lambda>_. live j n)"
  by (rule steps_frame [OF absorbs_release])
    (auto simp: release_escalation_pause_def with_job_run Let_def run_thn
      live_kept_by_flow_state split: option.splits)

subsection \<open>The funnel\<close>

text \<open>What the inner terminal write of the funnel has to satisfy.\<close>

definition safe_write :: "terminal_write \<Rightarrow> bool" where
  "safe_write write \<longleftrightarrow> (\<forall>j n st oc. steps absorbs (live j n) (write j n st oc) (\<lambda>_ _. True))"

lemma safe_writeD: "safe_write write \<Longrightarrow> steps absorbs (live j n) (write j n st oc) (\<lambda>_ _. True)"
  by (simp add: safe_write_def)

lemma steps_after: "steps absorbs P m (\<lambda>_ _. True) \<Longrightarrow> evolves absorbs k \<Longrightarrow>
  steps absorbs P (thn m k) (\<lambda>_ _. True)"
  by (rule absorbs.steps_thn) (auto intro: evolves_steps)

lemma steps_evolves': "evolves absorbs m \<Longrightarrow> steps absorbs P m (\<lambda>_ _. True)"
  by (rule evolves_steps)

lemma absorbs_skip_current:
  assumes "safe_write write"
  shows "evolves absorbs (skip_current write j n reason gen epoch)"
  unfolding skip_current_def
  apply (rule evolves_with_sheet)
  apply (rule steps_if, rule steps_evolves' [OF absorbs.evo_ret])
  apply (rule steps_if, rule steps_evolves' [OF absorbs.evo_ret])
  apply (erule steps_live' [rotated])
  apply (rule steps_after [OF safe_writeD [OF assms]])
  apply (intro absorbs.evo_thn absorbs_put absorbs_dirty absorbs_modify)
   apply simp_all
  done

lemma absorbs_fail_fast_one:
  "safe_write write \<Longrightarrow> evolves absorbs (fail_fast_one write j failed n)"
  unfolding fail_fast_one_def
  by (intro absorbs_with_sheet absorbs.evo_rules absorbs_skip_current absorbs_put)
    (simp_all add: mark_blocked_def)

lemma absorbs_any_of: "(\<And>m. m \<in> set ms \<Longrightarrow> evolves absorbs m) \<Longrightarrow> evolves absorbs (any_of ms)"
  by (induction ms) (auto intro!: absorbs.evo_rules)

lemma absorbs_visit: "safe_write write \<Longrightarrow> evolves absorbs (visit_dependent write j n)"
  unfolding visit_dependent_def
  by (intro absorbs_with_job absorbs.evo_rules absorbs_skip_current absorbs_put)
    (simp_all add: mark_blocked_def)

text \<open>What the visits keep, the walk keeps.\<close>

lemma walk_evolves:
  assumes "evolution R" and "\<And>n. evolves R (step n)"
  shows "R b (snd (walk step deps queue seen b))"
  using assms(2)
proof (induction step deps queue seen b rule: walk.induct)
  case (1 step deps seen b)
  show ?case by (simp add: walk.simps evolution.evo_refl [OF assms(1)])
next
  case (2 step deps n queue seen b)
  obtain r b1 where s: "step n b = (r, b1)" by (metis surj_pair)
  have one: "R b b1" using evolvesD [OF 2(4), of b n] by (simp add: s)
  show ?case
  proof (cases "n \<in> seen")
    case True
    then show ?thesis using 2 by (simp add: walk.simps)
  next
    case False
    show ?thesis
    proof (cases r)
      case (Inl e)
      then show ?thesis using False s one by (simp add: walk.simps)
    next
      case (Inr more)
      then show ?thesis using False s one 2
        by (cases more) (auto simp: walk.simps intro: evolution.evo_trans [OF assms(1)])
    qed
  qed
qed

lemmas absorbs_walk = walk_evolves [OF absorbs.evolution_axioms]

lemma absorbs_propagate_with:
  assumes "safe_write write"
  shows "evolves absorbs (propagate_with write j failed)"
proof -
  have w: "evolves absorbs (walk (visit_dependent write j) deps queue seen)" for deps queue seen
    using absorbs_visit [OF assms] by (simp add: evolves_def absorbs_walk)
  have f: "evolves absorbs (any_of (map (fail_fast_one write j failed) ns))" for ns
    by (rule absorbs_any_of) (auto intro: absorbs_fail_fast_one assms)
  show ?thesis unfolding propagate_with_def
    by (intro absorbs_with_job absorbs.evo_bnd absorbs.evo_if f w absorbs.evo_ret
        absorbs.evo_whn absorbs_modify) simp
qed

lemma absorbs_on_sheet_terminal:
  "safe_write write \<Longrightarrow> evolves absorbs (on_sheet_terminal_with ev write j n oc)"
  unfolding on_sheet_terminal_with_def
  by (intro absorbs_with_job absorbs.evo_rules absorbs_with_flow absorbs_modify absorbs_pause_if
      absorbs_propagate_with) simp_all

lemma safe_set_terminal_with: "safe_write write \<Longrightarrow> safe_write (set_terminal_with ev write)"
  unfolding safe_write_def set_terminal_with_def
proof (intro allI)
  fix j n st oc
  assume w: "\<forall>j n st oc. steps absorbs (live j n) (write j n st oc) (\<lambda>_ _. True)"
  show "steps absorbs (live j n) (with_sheet j n () (\<lambda>s.
       thn (whn (status s = FERMATA) (release_escalation_pause j (sheet_num s)))
      (thn (put_state j n (\<lambda>s. s\<lparr>status := st\<rparr>))
      (thn set_dirty
        (on_sheet_terminal_with ev write j (sheet_num s) oc))))) (\<lambda>_ _. True)"
  proof (rule steps_with_sheet)
    fix s
    show "steps absorbs (\<lambda>b. live j n b \<and> get_sheet_state b j n = Some s)
       (thn (whn (status s = FERMATA) (release_escalation_pause j (sheet_num s)))
      (thn (put_state j n (\<lambda>s. s\<lparr>status := st\<rparr>))
      (thn set_dirty
        (on_sheet_terminal_with ev write j (sheet_num s) oc)))) (\<lambda>_ _. True)"
      apply (rule absorbs.steps_thn [where P' = "live j n"])
       apply (rule absorbs.steps_whn)
        apply (rule steps_weaken [OF live_release], simp_all)
      apply (rule steps_after [OF live_write])
      apply (intro absorbs.evo_thn absorbs_dirty absorbs_on_sheet_terminal)
      using w by (simp add: safe_write_def)
  qed simp
qed

lemma safe_set_terminal_in: "safe_write (set_terminal_in ev frames)"
proof (induction frames)
  case 0
  show ?case unfolding safe_write_def set_terminal_in.simps by (intro allI absorbs.steps_throw)
next
  case (Suc frames)
  then show ?case by (simp add: safe_set_terminal_with)
qed

lemma safe_terminal: "safe_write (set_sheet_terminal_status ev)"
  by (simp add: set_sheet_terminal_status_def safe_set_terminal_in)

lemmas live_terminal = safe_writeD [OF safe_terminal]

lemma absorbs_propagate: "evolves absorbs (propagate_failure_to_dependents ev j n)"
  by (simp add: propagate_failure_to_dependents_def absorbs_propagate_with safe_terminal)

lemma live_fail_sheet: "steps absorbs (live j n) (fail_sheet ev j n ec m) (\<lambda>_ _. True)"
  unfolding fail_sheet_def
  apply (rule absorbs.steps_thn [OF live_put])
   apply simp
  apply (rule steps_after [OF live_terminal])
  apply (intro absorbs.evo_thn absorbs_put absorbs_with_sheet absorbs.evo_whn absorbs_propagate)
  apply simp
  done

lemma absorbs_settle_flow: "evolves absorbs (settle_flow ev j)"
  unfolding settle_flow_def
  by (intro absorbs_with_job absorbs.evo_rules absorbs_with_flow absorbs_modify absorbs_pause_if
      absorbs_propagate absorbs_with_sheet) simp_all

subsection \<open>Exhaustion and attempt results\<close>

text \<open>
  What is asked of the environment: the tasks that run while a sheet is healed, and the cron
  callback, respect the terminal sheets, and the sheet being healed is not made terminal
  under the healer's feet.
\<close>

definition calm_env :: "env \<Rightarrow> bool" where
  "calm_env ev \<longleftrightarrow>
     (\<forall>j n b. live j n b \<longrightarrow> absorbs b (ev_heal ev j n b) \<and> live j n (ev_heal ev j n b)) \<and>
     (\<forall>e. evolves absorbs (ev_cron ev e))"

text \<open>A step that leaves the sheet live unless it has dealt with the event.\<close>

abbreviation live_step :: "string \<Rightarrow> int \<Rightarrow> (baton, bool) act \<Rightarrow> bool" where
  "live_step j n m \<equiv> steps absorbs (live j n) m (\<lambda>d b. \<not> d \<longrightarrow> live j n b)"

abbreviation from_live :: "string \<Rightarrow> int \<Rightarrow> (baton, 'a) act \<Rightarrow> bool" where
  "from_live j n m \<equiv> steps absorbs (live j n) m (\<lambda>_ _. True)"

lemma unless_done_live: "live_step j n m \<Longrightarrow> from_live j n k \<Longrightarrow> from_live j n (unless_done m k)"
  unfolding unless_done_def
  by (erule absorbs.steps_bnd) (auto intro: absorbs.steps_ret elim: steps_weaken)

lemma live_step_done: "from_live j n m \<Longrightarrow> live_step j n (thn m (ret True))"
  by (erule absorbs.steps_thn) (rule absorbs.steps_ret, simp)

lemma live_step_no: "live_step j n (ret False)"
  by (rule absorbs.steps_ret) simp

lemma finish_done: "steps absorbs P (finish j) (\<lambda>d b. \<not> d \<longrightarrow> live k n b)"
  unfolding finish_def
  by (rule absorbs.steps_thn [where P' = "\<lambda>_. True"])
    (auto intro: evolves_steps absorbs_check_job_cost absorbs.steps_ret)

lemma done_after: "from_live j n m \<Longrightarrow> live_step j n (thn m (finish k))"
  by (erule absorbs.steps_thn) (rule finish_done)

lemma steps_pre: "steps R P m Q \<Longrightarrow> steps R (\<lambda>b. P b \<and> P' b) m Q"
  by (simp add: steps_def)

lemma live_step_sheet:
  "(\<And>s. live_step j n (f s)) \<Longrightarrow> live_step j n (with_sheet j n False f)"
  by (rule steps_with_sheet) (simp_all add: steps_pre)

lemma live_step_job: "(\<And>jb. live_step j n (f jb)) \<Longrightarrow> live_step j n (with_job j False f)"
  by (rule steps_with_job) auto

lemma from_live_sheet: "(\<And>s. from_live j n (f s)) \<Longrightarrow> from_live j n (with_sheet j n d f)"
  by (rule steps_with_sheet) (simp_all add: steps_pre)

lemma from_live_job: "(\<And>jb. from_live j n (f jb)) \<Longrightarrow> from_live j n (with_job j d f)"
  by (rule steps_with_job) auto

lemma live_then: "steps absorbs (live j n) m (\<lambda>_. live j n) \<Longrightarrow> steps absorbs (live j n) k Q \<Longrightarrow>
  steps absorbs (live j n) (thn m k) Q"
  by (rule absorbs.steps_thn)

lemma live_bnd: "live_step j n m \<Longrightarrow> (\<And>d. steps absorbs (\<lambda>b. \<not> d \<longrightarrow> live j n b) (f d) Q) \<Longrightarrow>
  steps absorbs (live j n) (bnd m f) Q"
  by (rule absorbs.steps_bnd)

lemma live_arm_retry: "same_jobs b b' \<Longrightarrow>
  absorbs b (upd_sheet j n (\<lambda>s. s\<lparr>next_retry_at := t\<rparr>) b')"
  by (rule absorbs.evo_trans [OF absorbs_same absorbs_upd_sheet]) auto

lemma absorbs_arm_retry: "absorbs b (arm_retry ev j n d s b)"
  by (auto simp: arm_retry_def absorbs.evo_refl dest!: same_jobs_scheduled
      split: option.splits prod.splits intro: live_arm_retry)

lemma live_schedule_retry: "from_live j n (schedule_retry ev j n)"
  unfolding schedule_retry_def
  by (intro steps_after [OF live_write] absorbs.evo_thn absorbs_dirty absorbs_with_sheet
      absorbs.evo_bnd absorbs.evo_lift_res absorbs.evo_modify absorbs_arm_retry)

lemma live_replace:
  assumes "status t = status s"
  shows "steps absorbs (\<lambda>b. live j n b \<and> get_sheet_state b j n = Some s)
    (put_state j n (\<lambda>_. t)) (\<lambda>_. live j n)"
  unfolding put_state_def
proof (rule steps_modify)
  fix b assume b: "live j n b \<and> get_sheet_state b j n = Some s"
  then show "absorbs b (upd_sheet j n (\<lambda>_. t) b)" by (simp add: absorbs_upd_sheet)
  from b assms show "live j n (upd_sheet j n (\<lambda>_. t) b)"
    by (auto simp: live_def get_job_upd_sheet get_sheet_state_def split: if_splits option.splits)
qed

lemma advance_fallback_status: "status (snd (advance_fallback r t s)) = status s"
  by (simp add: advance_fallback_def push_fallback_record_def Let_def)

lemma live_fall_back:
  assumes "\<And>s. status (adjust s) = status s"
  shows "live_step j n (fall_back ev j n k reason adjust)"
  unfolding fall_back_def
proof (rule steps_with_sheet)
  fix s
  show "steps absorbs (\<lambda>b. live j n b \<and> get_sheet_state b j n = Some s)
    (if \<not> has_fallback_available s then ret False
       else case advance_fallback reason (ev_wall ev) s of
              (None, _) \<Rightarrow> ret False
            | (Some to, s') \<Rightarrow>
                thn (put_state j n (\<lambda>_. adjust s'))
               (thn (modify (ensure_instrument_registered to))
               (thn (put_state j n (\<lambda>s. s\<lparr>status := PENDING\<rparr>))
               (thn (modify (note_fallback j k (or_empty (instrument_name s)) to reason))
                 (ret True))))) (\<lambda>d b. \<not> d \<longrightarrow> live j n b)"
  proof (rule steps_if)
    obtain r s' where a: "advance_fallback reason (ev_wall ev) s = (r, s')" by (metis surj_pair)
    then have st: "status (adjust s') = status s"
      using advance_fallback_status [of reason "ev_wall ev" s] assms by simp
    show "steps absorbs (\<lambda>b. live j n b \<and> get_sheet_state b j n = Some s)
      (case advance_fallback reason (ev_wall ev) s of
              (None, _) \<Rightarrow> ret False
            | (Some to, s') \<Rightarrow>
                thn (put_state j n (\<lambda>_. adjust s'))
               (thn (modify (ensure_instrument_registered to))
               (thn (put_state j n (\<lambda>s. s\<lparr>status := PENDING\<rparr>))
               (thn (modify (note_fallback j k (or_empty (instrument_name s)) to reason))
                 (ret True))))) (\<lambda>d b. \<not> d \<longrightarrow> live j n b)"
      unfolding a
      by (cases r) (auto intro!: absorbs.steps_ret absorbs.steps_thn [OF live_replace [OF st]]
          live_then [OF live_modify] live_then [OF live_put] live_step_done
          live_modify [THEN steps_weaken])
  qed (rule absorbs.steps_ret, simp)
qed simp

lemma live_heal: "calm_env ev \<Longrightarrow> live_step j n (heal ev j n)"
  unfolding heal_def
  apply (rule live_step_job, rule live_step_sheet, rule steps_if, rule live_step_no)
  apply (rule live_then [OF live_put], simp)
  apply (rule live_then)
   apply (rule steps_modify)
    apply (simp add: calm_env_def)
   apply (simp add: calm_env_def)
  apply (rule absorbs.steps_bnd [where Q = "\<lambda>_. live j n"])
   apply (rule steps_get)
    apply (rule absorbs.evo_refl)
   apply assumption
  apply (auto intro!: absorbs.steps_ret live_step_done live_schedule_retry split: option.splits)
  done

lemma live_escalate: "live_step j n (escalate ev j n)"
  unfolding escalate_def
  apply (rule live_step_job, rule steps_if, rule live_step_no)
  apply (rule live_then [OF live_put], simp)
  apply (rule absorbs.steps_thn [where P' = "\<lambda>_. True"])
   apply (rule evolves_steps, rule absorbs.evo_modify, rule absorbs_flags, simp)
  apply (rule absorbs.steps_thn [where P' = "\<lambda>_. True"])
   apply (rule evolves_steps, rule absorbs_dirty)
  apply (rule absorbs.steps_ret, simp)
  done

lemma live_last_resort: "live_step j n (last_resort_retry ev j n)"
  unfolding last_resort_retry_def
  apply (rule live_step_sheet, rule steps_if, rule live_step_no)
  apply (rule live_then [OF live_put], simp)
  apply (rule live_step_done [OF live_schedule_retry])
  done

lemma describe_exhaustion_status [simp]: "status (describe_exhaustion s) = status s"
  by (simp add: describe_exhaustion_def Let_def)

lemma live_exhausted_failure: "from_live j n (exhausted_failure ev j n)"
  unfolding exhausted_failure_def
  apply (rule live_then [OF live_put], simp)
  apply (rule steps_after [OF _ absorbs_dirty])
  apply (rule from_live_sheet, rule live_fail_sheet)
  done

lemma live_handle_exhaustion: "calm_env ev \<Longrightarrow> from_live j n (handle_exhaustion ev j n)"
  unfolding handle_exhaustion_def
  apply (rule absorbs.steps_bnd [where Q = "\<lambda>_. live j n"])
   apply (rule steps_get, rule absorbs.evo_refl, assumption)
  apply (rule steps_if, rule evolves_steps, rule absorbs_dirty)
  apply (rule from_live_sheet)
  apply (intro unless_done_live live_fall_back live_heal live_escalate live_last_resort
      live_exhausted_failure)
   apply simp_all
  done

lemma live_sheet_cost: "live_step j n (check_sheet_cost_limit ev j n)"
  unfolding check_sheet_cost_limit_def
  apply (rule absorbs.steps_bnd [where Q = "\<lambda>_. live j n"])
   apply (rule steps_get, rule absorbs.evo_refl, assumption)
  apply (auto split: option.splits intro!: live_step_no live_step_sheet steps_if
      absorbs.steps_thn [OF live_fail_sheet] absorbs.steps_thn [OF evolves_steps [OF absorbs_dirty]]
      absorbs.steps_ret)
  done

lemma live_sheet_cost_step: "live_step j n (sheet_cost_step ev j n)"
  unfolding sheet_cost_step_def
  by (rule live_bnd [OF live_sheet_cost]) (auto intro: finish_done absorbs.steps_ret)

lemma after_terminal:
  "evolves absorbs k \<Longrightarrow> from_live j n (thn (set_sheet_terminal_status ev j n st oc) k)"
  by (rule steps_after [OF live_terminal])

lemma absorbs_clear_block: "evolves absorbs (put_state j n clear_dispatch_block)"
  by (rule absorbs_put) simp

lemma thn_assoc: "thn (thn a b) c = thn a (thn b c)"
  by (rule ext) (simp add: run_thn split: prod.splits sum.splits)

text \<open>A terminal write, what follows it, and the end of the handling.\<close>

lemma write_done:
  assumes "evolves absorbs (k :: (baton, unit) act)"
  shows "live_step j n (thn (set_sheet_terminal_status ev j n st oc) (thn k (finish i)))"
  unfolding thn_assoc [symmetric]
  by (rule done_after) (rule after_terminal [OF assms])

lemma live_queued_skip: "live_step j n (settle_queued_skip_on_attempt_end ev j n r)"
  unfolding settle_queued_skip_on_attempt_end_def
  apply (rule live_step_job)
  apply (auto split: option.splits intro!: live_step_no steps_if)
  apply (rule live_then)
   apply (rule absorbs.steps_whn [OF live_failure], assumption)
  apply (rule write_done, rule absorbs_clear_block)
  done

lemma live_guarded: "live_step j n (guarded_step ev j n r)"
  unfolding guarded_step_def
  apply (rule live_step_sheet, rule steps_if)
   apply (unfold thn_assoc [symmetric])
   apply (rule done_after, unfold thn_assoc, rule after_terminal)
   apply (intro absorbs.evo_thn absorbs_clear_block absorbs_dirty absorbs_propagate)
  apply (rule live_step_no)
  done

lemma live_rate_limited: "live_step j n (rate_limited_step j n r)"
  unfolding rate_limited_step_def
  apply (rule steps_if)
   apply (unfold thn_assoc [symmetric], rule live_step_done, unfold thn_assoc)
   apply (rule steps_after [OF live_write])
   apply (intro absorbs.evo_thn absorbs_dirty absorbs_modify, simp)
  apply (rule live_step_no)
  done

lemma steps_case_option:
  "steps R P m Q \<Longrightarrow> (\<And>x. steps R P (f x) Q) \<Longrightarrow> steps R P (case z of None \<Rightarrow> m | Some x \<Rightarrow> f x) Q"
  by (cases z) auto

lemma live_on_fail: "live_step j n (on_fail_step ev j n r)"
  unfolding on_fail_step_def
  apply (rule live_step_job, rule live_step_sheet, rule steps_case_option, rule live_step_no)
  apply (rule steps_if)
  apply (rule live_then)
   apply (rule steps_if)
    apply (rule live_modify, simp)
   apply (rule absorbs.steps_whn [OF live_failure], assumption)
  apply (rule live_bnd [OF live_sheet_cost])
  apply (rule steps_if, rule absorbs.steps_ret, simp)
  apply (rule steps_weaken [where P = "live j n"])
    apply (unfold thn_assoc [symmetric], rule done_after, unfold thn_assoc, rule after_terminal)
    apply (intro absorbs.evo_thn absorbs_clear_block absorbs_dirty)
   apply simp_all
  apply (rule live_step_no)
  done

lemma absorbs_pacing: "absorbs b (schedule_pacing ev j b)"
proof -
  have "absorbs b (snd (timer_schedule t d e (dirty (upd_job j (\<lambda>jb. jb\<lparr>j_pacing_active := True\<rparr>) b))))"
    for t d e
  proof (rule absorbs.evo_trans)
    show "absorbs b (upd_job j (\<lambda>jb. jb\<lparr>j_pacing_active := True\<rparr>) b)"
      by (rule absorbs_flags) simp
    show "absorbs (upd_job j (\<lambda>jb. jb\<lparr>j_pacing_active := True\<rparr>) b)
      (snd (timer_schedule t d e (dirty (upd_job j (\<lambda>jb. jb\<lparr>j_pacing_active := True\<rparr>) b))))"
      by (rule absorbs_same, rule same_jobs_trans [of _ "dirty (upd_job j (\<lambda>jb. jb\<lparr>j_pacing_active := True\<rparr>) b)"])
        simp_all
  qed
  then show ?thesis by (simp add: schedule_pacing_def absorbs.evo_refl split: option.splits)
qed

lemma absorbs_pacing_act: "evolves absorbs (modify (schedule_pacing ev j))"
  by (rule absorbs.evo_modify) (rule absorbs_pacing)

lemma absorbs_success: "evolves absorbs (modify (update_instrument_on_success name))"
  by (rule absorbs_modify) simp

lemma live_complete: "live_step j n (complete_step ev j n r)"
  unfolding complete_step_def
  apply (rule live_step_sheet, rule steps_if)
   apply (unfold thn_assoc [symmetric], rule done_after, unfold thn_assoc, rule after_terminal)
   apply (intro absorbs.evo_thn absorbs_clear_block absorbs_dirty absorbs_success
      absorbs_pacing_act)
  apply (rule live_step_no)
  done

lemma registered_finish:
  "steps absorbs P (bnd get_st (\<lambda>b. if is_job_registration_current b j tok then finish j else ret True))
     (\<lambda>d b. \<not> d \<longrightarrow> live j n b)"
  by (rule absorbs.steps_bnd [where Q = "\<lambda>_ _. True"])
    (auto intro: steps_get absorbs.evo_refl steps_if finish_done absorbs.steps_ret)

lemma live_completion: "calm_env ev \<Longrightarrow> live_step j n (completion_step ev j n r)"
  unfolding completion_step_def
  apply (rule live_step_job, rule steps_if, rule live_step_no)
  apply (rule live_then [OF live_modify], simp)
  apply (rule live_then [OF live_put], simp)
  apply (rule live_step_sheet, rule steps_if)
   apply (rule done_after, rule live_schedule_retry)
  apply (rule absorbs.steps_thn [OF live_handle_exhaustion], assumption)
  apply (rule registered_finish)
  done

lemma live_unavailable: "live_step j n (unavailable_step ev j n r)"
  unfolding unavailable_step_def
  by (rule steps_if, rule live_step_no, rule live_bnd [OF live_fall_back])
    (auto intro: finish_done absorbs.steps_ret)

lemma live_auth: "live_step j n (auth_step ev j n r)"
  unfolding auth_step_def
  apply (rule steps_if, rule live_step_no, rule live_bnd [OF live_fall_back], simp)
  apply (rule steps_if, rule finish_done)
  apply (rule steps_weaken [where P = "live j n"])
    apply (unfold thn_assoc [symmetric], rule done_after)
    apply (rule steps_after [OF live_fail_sheet absorbs_dirty], simp_all)
  done

lemma live_failed_execution: "live_step j n (failed_execution_step ev j n r)"
  unfolding failed_execution_step_def
  apply (rule steps_if, rule live_step_no, rule live_then [OF live_failure])
  apply (rule live_bnd [OF live_unavailable])
  apply (rule steps_if, rule absorbs.steps_ret, simp)
  apply (rule steps_weaken [OF live_auth], simp_all)
  done

lemma live_retry_or_exhaust: "calm_env ev \<Longrightarrow> from_live j n (retry_or_exhaust ev j n tok)"
  unfolding retry_or_exhaust_def
  apply (rule from_live_sheet, rule steps_if)
   apply (rule steps_after [OF live_handle_exhaustion], assumption)
   apply (intro absorbs.evo_rules absorbs_check_job_cost)
  apply (rule steps_after [OF live_schedule_retry absorbs_check_job_cost])
  done

lemma live_attempt_tail: "calm_env ev \<Longrightarrow> from_live j n (attempt_tail ev j n r)"
  unfolding attempt_tail_def
  apply (rule from_live_job, rule live_then)
   apply (rule absorbs.steps_whn [OF live_put], simp, assumption)
  apply (rule unless_done_live [OF live_sheet_cost_step live_retry_or_exhaust], assumption)
  done

lemma live_decide: "calm_env ev \<Longrightarrow> from_live j n (decide_attempt ev j n r)"
  unfolding decide_attempt_def
  by (intro unless_done_live live_sheet_cost_step live_queued_skip live_guarded live_rate_limited
      live_on_fail live_complete live_completion live_failed_execution live_attempt_tail)

lemma absorbs_dirty_of: "absorbs a b \<Longrightarrow> absorbs a (dirty b)"
  by (erule absorbs.evo_trans) (simp add: absorbs_same)

lemma absorbs_bill: "absorbs b (bill_stale_attempt j n r b)"
  unfolding bill_stale_attempt_def
  apply (rule absorbs.evo_trans [OF _ absorbs_check_job_cost_limit])
  apply (rule absorbs_dirty_of, rule absorbs_upd_sheet)
  apply simp
  done

lemma absorbs_attempt_result: "calm_env ev \<Longrightarrow> evolves absorbs (handle_attempt_result ev r)"
  unfolding handle_attempt_result_def Let_def
  apply (rule absorbs_with_job, rule absorbs.evo_if, rule absorbs.evo_ret)
  apply (rule evolves_with_sheet)
  apply (rule steps_if, rule steps_evolves', rule absorbs.evo_modify, rule absorbs_bill)
  apply (rule steps_if, rule steps_evolves', rule absorbs.evo_ret)
  apply (erule steps_live' [rotated])
  apply (rule live_then [OF live_put], simp)
  apply (rule live_decide, assumption)
  done

subsection \<open>The other handlers\<close>

lemma absorbs_dispatched: "absorbs b (handle_sheet_dispatched j n t b)"
  by (auto simp: handle_sheet_dispatched_def absorbs.evo_refl split: option.splits
      intro!: absorbs_dirty_of absorbs_upd_sheet intro: liveI)

lemma absorbs_ensure_of: "absorbs a b \<Longrightarrow> absorbs a (ensure_instrument_registered name b)"
  by (erule absorbs.evo_trans) (simp add: absorbs_same)

lemma absorbs_hold: "absorbs b (hold_sheet ev inst m path b)"
proof (cases "get_sheet_state b (fst path) (snd path)")
  case None
  then show ?thesis by (simp add: hold_sheet_def absorbs.evo_refl)
next
  case (Some s)
  have w: "limit_hits inst m s \<Longrightarrow> absorbs b (upd_sheet (fst path) (snd path) f b)" for f
    by (rule absorbs_upd_sheet, rule disjI1, rule liveI [OF Some]) (auto simp: limit_hits_def)
  show ?thesis
    using w by (auto simp: hold_sheet_def Some absorbs.evo_refl split: prod.splits option.splits
        intro!: absorbs_ensure_of)
qed

lemma absorbs_rate_limit_hit: "absorbs b (handle_rate_limit_hit ev inst wait m b)"
  unfolding handle_rate_limit_hit_def Let_def
  apply (rule absorbs_dirty_of)
  apply (rule absorbs.evo_trans [OF _ absorbs.evo_fold [OF absorbs_hold]])
  apply (rule absorbs_same, rule same_jobs_trans [OF _ same_jobs_rearm(2)], simp)
  done

lemma absorbs_map_sheets:
  assumes "\<And>j s. is_terminal (status s) \<Longrightarrow> status (f j s) = status s"
  shows "absorbs b (map_all_sheets f b)"
  using assms
  by (auto simp: absorbs_def map_all_sheets_def get_job_def keeps_terminal_def)

lemma absorbs_rate_limit_expired: "absorbs b (handle_rate_limit_expired inst b)"
proof -
  have s: "same_jobs b (upd_instrument inst unlimit b\<lparr>b_rate_limit_timers := x\<rparr>)" for x
    by (rule same_jobs_trans [OF same_jobs_simple(5) same_jobs_field(2)])
  have r: "is_terminal (status s) \<Longrightarrow> status (release_waiting inst s) = status s" for s
    by (auto simp: release_waiting_def)
  show ?thesis unfolding handle_rate_limit_expired_def Let_def
    by (rule absorbs_dirty_of, rule absorbs.evo_trans [OF absorbs_same [OF s] absorbs_map_sheets])
      (rule r)
qed

lemma absorbs_retry_due: "absorbs b (handle_retry_due j n gen epoch b)"
  by (auto simp: handle_retry_due_def absorbs.evo_refl get_sheet_state_def split: option.splits
      intro!: absorbs_dirty_of absorbs_upd_sheet liveI)

lemma absorbs_cancel_sheets: "evolves absorbs (cancel_sheets ev j)"
  unfolding cancel_sheets_def
proof (intro absorbs.evo_bnd absorbs.evo_get absorbs.evo_for_each evolves_with_sheet)
  fix n s
  show "steps absorbs (\<lambda>b. get_sheet_state b j n = Some s)
    (whn (\<not> is_terminal (status s))
       (thn (set_sheet_terminal_status ev j n CANCELLED None) (put_state j n clear_dispatch_block)))
    (\<lambda>_ _. True)"
    by (rule absorbs.steps_whn)
      (auto intro: steps_live' after_terminal absorbs_clear_block)
qed

lemma absorbs_deregister: "absorbs b (deregister_job j b)"
proof -
  have drop: "absorbs b b'" if "b_jobs b' = ddel (b_jobs b) j"
    and "b_registration_token_counter b' = b_registration_token_counter b" for b'
    using that by (auto simp: absorbs_def get_job_def split: if_splits)
  show ?thesis
    by (auto simp: deregister_job_def Let_def absorbs.evo_refl timer_cancel_opt_def
        timer_cancel_def dirty_def split: option.splits intro!: drop)
qed

lemma absorbs_handle_timeout: "evolves absorbs (handle_job_timeout ev j)"
  unfolding handle_job_timeout_def
  by (intro absorbs_with_job absorbs.evo_thn absorbs_cancel_sheets absorbs_dirty)

lemma absorbs_handle_cancel: "evolves absorbs (handle_cancel_job ev j)"
  unfolding handle_cancel_job_def
  by (intro absorbs_with_job absorbs.evo_thn absorbs_cancel_sheets absorbs.evo_modify
      absorbs_deregister)

lemma absorbs_shutdown: "evolves absorbs (handle_shutdown ev graceful)"
  unfolding handle_shutdown_def
  by (intro absorbs.evo_rules absorbs_cancel_sheets absorbs_same) simp

lemma absorbs_escalation_needed: "absorbs b (handle_escalation_needed j n b)"
proof -
  have w: "absorbs b b' \<Longrightarrow> absorbs b (dirty (upd_job j (\<lambda>jb. jb\<lparr>j_paused := True\<rparr>) b'))" for b'
    by (erule absorbs.evo_trans) (rule absorbs_pause_dirty)
  have "get_sheet_state b j n = Some s \<Longrightarrow> \<not> is_terminal (status s) \<Longrightarrow>
    absorbs b (upd_sheet j n (\<lambda>s. s\<lparr>status := FERMATA\<rparr>) b)" for s
    by (rule absorbs_upd_sheet, rule disjI1, rule liveI)
  then show ?thesis
    by (auto simp: handle_escalation_needed_def absorbs.evo_refl get_sheet_state_def
        split: option.splits intro!: w)
qed

lemma absorbs_unpause: "absorbs b (unpause_after_escalation j fermata b)"
  by (auto simp: unpause_after_escalation_def absorbs.evo_refl split: option.splits
      intro!: absorbs.evo_trans [OF absorbs_flags absorbs_check_job_cost_limit])

lemma absorbs_end_escalation: "evolves absorbs (end_escalation j n)"
  unfolding end_escalation_def
  by (intro absorbs_with_job absorbs.evo_thn absorbs.evo_whn absorbs_release absorbs.evo_modify
      absorbs_unpause absorbs_dirty)

lemma live_apply_decision: "from_live j n (apply_decision ev j n decision)"
  unfolding apply_decision_def
  by (intro steps_if live_write after_terminal absorbs_clear_block live_fail_sheet)

lemma absorbs_in_fermata:
  "from_live j n m \<Longrightarrow> evolves absorbs (with_sheet j n () (\<lambda>s. whn (status s = FERMATA) m))"
  by (rule evolves_with_sheet, rule absorbs.steps_whn) (auto intro: steps_live')

lemma absorbs_resolved: "evolves absorbs (handle_escalation_resolved ev j n decision)"
  unfolding handle_escalation_resolved_def
  by (intro absorbs.evo_thn absorbs_in_fermata live_apply_decision absorbs_end_escalation)

lemma absorbs_escalation_timeout: "evolves absorbs (handle_escalation_timeout ev j n)"
  unfolding handle_escalation_timeout_def
  by (intro absorbs.evo_thn absorbs_in_fermata live_fail_sheet absorbs_end_escalation)

lemma absorbs_pause: "absorbs b (handle_pause_job j b)"
  by (auto simp: handle_pause_job_def request_pause_def absorbs.evo_refl split: option.splits
      intro!: absorbs_dirty_of absorbs_flags)

lemma absorbs_resume: "absorbs b (handle_resume_job j b)"
  by (auto simp: handle_resume_job_def absorbs.evo_refl
      intro!: absorbs_dirty_of absorbs.evo_trans [OF absorbs_flags absorbs_check_job_cost_limit])

lemma live_crash_tail: "calm_env ev \<Longrightarrow> from_live j n (crash_tail ev j n)"
  unfolding crash_tail_def
  apply (rule from_live_job, rule from_live_sheet, rule live_then [OF live_failure])
  apply (rule steps_if)
   apply (rule steps_after [OF live_handle_exhaustion], assumption)
   apply (intro absorbs.evo_rules absorbs_dirty)
  apply (rule steps_after [OF live_schedule_retry absorbs_dirty])
  done

lemma absorbs_process_exited: "calm_env ev \<Longrightarrow> evolves absorbs (handle_process_exited ev j n pid ec)"
  unfolding handle_process_exited_def
  apply (rule absorbs_with_job, rule evolves_with_sheet)
  apply (rule absorbs.steps_whn)
   apply (rule steps_live')
    apply (rule live_then [OF live_put], simp)
    apply (rule unless_done_live [OF live_queued_skip live_crash_tail], assumption)
   apply simp_all
  done

lemma absorbs_all_jobs:
  assumes "\<And>jb. j_sheets (f jb) = j_sheets jb \<and> j_flow (f jb) = j_flow jb \<and>
    j_registration_token (f jb) = j_registration_token jb"
  shows "absorbs b (b\<lparr>b_jobs := dmap (\<lambda>_. f) (b_jobs b)\<rparr>)"
  using assms by (auto simp: absorbs_def get_job_def keeps_terminal_def)

lemma absorbs_anomaly: "absorbs b (handle_resource_anomaly severity b)"
  by (auto simp: handle_resource_anomaly_def Let_def intro!: absorbs_dirty_of absorbs_all_jobs)

lemma absorbs_pacing_complete: "absorbs b (handle_pacing_complete j gen b)"
  by (auto simp: handle_pacing_complete_def absorbs.evo_refl intro!: absorbs_dirty_of absorbs_flags)

lemma absorbs_dispatch_retry: "absorbs b (handle_dispatch_retry sj gen b)"
  by (rule absorbs_same)
    (auto simp: handle_dispatch_retry_def Let_def same_jobs_def split: option.splits)

lemma absorbs_recovery: "absorbs b (handle_circuit_breaker_recovery name b)"
  by (rule absorbs_same)
    (auto simp: handle_circuit_breaker_recovery_def Let_def same_jobs_def upd_instrument_def
      dirty_def split: option.splits)

lemma absorbs_when_true: "evolves absorbs m \<Longrightarrow> evolves absorbs k \<Longrightarrow> evolves absorbs (when_true m k)"
  unfolding when_true_def by (intro absorbs.evo_rules)

lemma absorbs_cleanup: "evolves absorbs (modify (note_cleanup j pid orphans))"
  using absorbs_upd_flow_state
  by (auto simp: note_cleanup_def evolves_def absorbs.evo_refl split: option.splits)

lemma absorbs_flow_events:
  "evolves absorbs (handle_loop_facts ev j sp req files err)"
  "evolves absorbs (handle_run_finished ev j cid cursor ec timed_out log_path err pid orphans)"
  "evolves absorbs (handle_concert_submitted ev j cid cursor accepted child m)"
  unfolding handle_loop_facts_def handle_run_finished_def handle_concert_submitted_def
  by (intro absorbs_when_true absorbs_with_flow absorbs.evo_thn absorbs_cleanup absorbs_dirty)+

lemma absorbs_react: "calm_env ev \<Longrightarrow> evolves absorbs (react ev e)"
  by (cases e)
    (auto simp: handle_stale_check_def handle_sheet_skipped_def calm_env_def [of ev]
      intro!: absorbs.evo_rules absorbs_attempt_result absorbs_skip_current safe_terminal
        absorbs_dispatched absorbs_rate_limit_hit absorbs_rate_limit_expired absorbs_retry_due
        absorbs_flow_events absorbs_handle_timeout absorbs_pacing_complete
        absorbs_escalation_needed absorbs_resolved absorbs_escalation_timeout absorbs_pause
        absorbs_resume absorbs_handle_cancel absorbs_shutdown absorbs_process_exited
        absorbs_anomaly absorbs_dispatch_retry absorbs_recovery absorbs.evo_refl)

lemma absorbs_handle_event: "calm_env ev \<Longrightarrow> absorbs b (handle_event ev e b)"
proof -
  assume "calm_env ev"
  then have "evolves absorbs (handle_event_body ev e)"
    unfolding handle_event_body_def
    by (intro absorbs.evo_rules absorbs_react absorbs_settle_flow)
  then show ?thesis unfolding handle_event_def by (rule evolvesD)
qed

lemma absorbs_run_loop: "(\<And>ev. ev \<in> set evs \<Longrightarrow> calm_env ev) \<Longrightarrow> absorbs b (run_loop evs b)"
proof (induction evs b rule: run_loop.induct)
  case (1 b)
  show ?case by (simp add: absorbs.evo_refl)
next
  case (2 ev evs b)
  show ?case
  proof (cases "b_inbox b")
    case Nil
    then show ?thesis by (simp add: absorbs.evo_refl absorbs_same)
  next
    case (Cons e es)
    have "absorbs b (handle_event ev e (b\<lparr>b_inbox := es\<rparr>))"
      by (rule absorbs.evo_trans [OF absorbs_same absorbs_handle_event]) (simp_all add: 2(2))
    with 2 Cons show ?thesis
      by (auto simp: absorbs_same intro: absorbs.evo_trans)
  qed
qed

subsection \<open>The property\<close>

text \<open>
  C1. Terminal is absorbing. Whatever events the baton's loop processes, in whatever order
  and at whatever times (late results, rate limits, retries, escalations, pauses, crashes,
  cancellations), a sheet of a job without a flow that is completed, failed, skipped or
  cancelled keeps exactly that status for as long as the same registration of the job is
  there. The environment is only asked to respect terminal sheets itself while a sheet is
  being healed and in the cron callback.
\<close>

theorem terminal_is_absorbing:
  assumes "\<And>ev. ev \<in> set evs \<Longrightarrow> calm_env ev"
    and "get_job b j = Some jb" and "j_flow jb = None"
    and "j_registration_token jb \<le> b_registration_token_counter b"
    and "dget (j_sheets jb) n = Some s" and "is_terminal (status s)"
    and "get_job (run_loop evs b) j = Some jb'"
    and "j_registration_token jb' = j_registration_token jb"
  shows "\<exists>s'. dget (j_sheets jb') n = Some s' \<and> status s' = status s"
proof -
  have "absorbs b (run_loop evs b)" by (rule absorbs_run_loop) (rule assms(1))
  with assms show ?thesis unfolding absorbs_def keeps_terminal_def
    by (metis linorder_not_less option.inject)
qed

text \<open>A job with a completed sheet and a live one, and late events about the completed one.\<close>

definition plain_env :: env where
  "plain_env =
     \<lparr>ev_mono = 100, ev_wall = 1000, ev_heal = (\<lambda>_ _ b. b), ev_cron = (\<lambda>_. ret ()),
      ev_flow = sample_env, ev_frames = 8\<rparr>"

lemma calm_plain_env: "calm_env plain_env"
  by (simp add: calm_env_def plain_env_def absorbs.evo_refl absorbs.evo_ret)

definition work_sheet :: "int \<Rightarrow> sheet_status \<Rightarrow> sheet" where
  "work_sheet n st = (new_sheet n)\<lparr>status := st, instrument_name := Some ''claude''\<rparr>"

definition sample_baton :: baton where
  "sample_baton = snd (register_job plain_env ''job''
     [(1, work_sheet 1 COMPLETED), (2, work_sheet 2 DISPATCHED)] [(2, [1])] default_options
     (new_baton None
        [SheetAttemptResult ((attempt_report ''job'' 1 ''claude'' 1)\<lparr>ar_execution_success := False\<rparr>),
         EscalationNeeded ''job'' 1 [] None, RateLimitHit ''claude'' 60 ''job'' 2 None] False
        (\<lambda>a b. a)))"

lemma sample_baton_job:
  "map_option (\<lambda>jb. (j_flow jb = None, j_registration_token jb)) (get_job sample_baton ''job'') =
     Some (True, 1)"
  by code_simp

lemma sample_baton_sheet: "map_option status (get_sheet_state sample_baton ''job'' 1) = Some COMPLETED"
  by code_simp

lemma sample_baton_counter: "b_registration_token_counter sample_baton = 1"
  by code_simp

lemma sample_baton_after:
  "map_option j_registration_token
     (get_job (run_loop [plain_env, plain_env, plain_env] sample_baton) ''job'') = Some 1"
  by code_simp

lemma terminal_is_absorbing_witness:
  "\<exists>jb' s'. get_job (run_loop [plain_env, plain_env, plain_env] sample_baton) ''job'' = Some jb' \<and>
     dget (j_sheets jb') 1 = Some s' \<and> status s' = COMPLETED"
proof -
  obtain jb where jb: "get_job sample_baton ''job'' = Some jb" "j_flow jb = None"
    "j_registration_token jb = 1"
    using sample_baton_job by (auto simp: map_option_case split: option.splits)
  obtain s where s: "dget (j_sheets jb) 1 = Some s" "status s = COMPLETED"
    using sample_baton_sheet jb by (auto simp: get_sheet_state_def split: option.splits)
  obtain jb' where jb': "get_job (run_loop [plain_env, plain_env, plain_env] sample_baton) ''job'' = Some jb'"
    "j_registration_token jb' = 1"
    using sample_baton_after by (auto simp: map_option_case split: option.splits)
  have "\<exists>s'. dget (j_sheets jb') 1 = Some s' \<and> status s' = status s"
    by (rule terminal_is_absorbing [of "[plain_env, plain_env, plain_env]" sample_baton "''job''" jb])
      (use jb s jb' in \<open>auto simp: calm_plain_env sample_baton_counter\<close>)
  with jb'(1) s(2) show ?thesis by auto
qed

end
