(* ===== verification/Baton_Blocking.thy ===== *)
theory Baton_Blocking
  imports Baton_Terminal
begin

section \<open>Failure propagation blocks exactly the dependents\<close>

text \<open>
  The breadth-first walk of \<open>_propagate_failure_to_dependents\<close> against its specification: in
  a job without a flow, failing a sheet turns exactly its transitive dependents that are
  still live into skipped ones and changes no other status, so no live sheet is left behind
  a dependency that can never be satisfied.
\<close>

subsection \<open>What dependents see of a sheet\<close>

datatype prospect = Live | Good | Bad

definition prospect_of :: "sheet \<Rightarrow> prospect" where
  "prospect_of s =
     (if \<not> is_terminal (status s) then Live else if is_dep_satisfied s then Good else Bad)"

definition view :: "job \<Rightarrow> int \<Rightarrow> prospect option" where
  "view jb n = map_option prospect_of (dget (j_sheets jb) n)"

definition deps_of :: "job \<Rightarrow> int \<Rightarrow> int list" where
  "deps_of jb n = dget_or (j_dependencies jb) n []"

lemma blocks_view: "blocks jb d \<longleftrightarrow> view jb d = Some Bad"
  by (auto simp: blocks_def view_def prospect_of_def is_dep_satisfied_def split: option.splits)

lemma find_blocks: "(\<exists>d. find (blocks jb) ds = Some d) \<longleftrightarrow> (\<exists>d \<in> set ds. view jb d = Some Bad)"
  by (induction ds) (auto simp: blocks_view)

lemma dependents_iff:
  "distinct (dkeys deps) \<Longrightarrow> m \<in> set (dependents deps d) \<longleftrightarrow> d \<in> set (dget_or deps m [])"
proof
  assume dist: "distinct (dkeys deps)"
  {
    assume "m \<in> set (dependents deps d)"
    then obtain ds where "(m, ds) \<in> set deps" "d \<in> set ds" by (auto simp: dependents_def)
    with dist show "d \<in> set (dget_or deps m [])" by (simp add: dget_or_def)
  next
    assume "d \<in> set (dget_or deps m [])"
    then obtain ds where "dget deps m = Some ds" "d \<in> set ds"
      by (cases "dget deps m") (auto simp: dget_or_def)
    then show "m \<in> set (dependents deps d)"
      by (force simp: dependents_def dest: map_of_SomeD)
  }
qed

text \<open>A job is consistent when finished work rests on finished work, and has no zombies when
  no live sheet has a dependency that can never be satisfied.\<close>

definition consistent :: "job \<Rightarrow> bool" where
  "consistent jb \<longleftrightarrow>
     (\<forall>n. view jb n = Some Good \<longrightarrow> (\<forall>d \<in> set (deps_of jb n). view jb d \<in> {None, Some Good}))"

definition no_zombies :: "job \<Rightarrow> bool" where
  "no_zombies jb \<longleftrightarrow>
     (\<forall>n. view jb n = Some Live \<longrightarrow> (\<forall>d \<in> set (deps_of jb n). view jb d \<noteq> Some Bad))"

subsection \<open>One visit\<close>

text \<open>Terminal writes in a job without a flow.\<close>

lemma set_terminal_flow_free:
  assumes "get_job b j = Some jb" and "j_flow jb = None" and "dget (j_sheets jb) n = Some s"
  shows "set_terminal_in ev (Suc k) j n st oc b = (Inr (), dirty (upd_sheet j n (\<lambda>s. s\<lparr>status := st\<rparr>) b))"
proof -
  have s: "get_sheet_state b j n = Some s" using assms by (simp add: get_sheet_state_def)
  have rel: "release_escalation_pause j m b = (Inr (), b)" for m
    using assms by (simp add: release_escalation_pause_def with_job_run)
  have notif: "on_sheet_terminal_with ev wr j m oc b' = (Inr (), b')"
    if "get_job b' j = Some jb'" "j_flow jb' = None" for wr m b' jb'
    using that by (simp add: on_sheet_terminal_with_def with_job_run)
  have b2: "get_job (dirty (upd_sheet j n (\<lambda>s. s\<lparr>status := st\<rparr>) b)) j =
      Some (jb\<lparr>j_sheets := dadj (j_sheets jb) n (\<lambda>s. s\<lparr>status := st\<rparr>)\<rparr>)"
    using assms by (simp add: same_jobs_get [OF same_jobs_simple(1)] get_job_upd_sheet)
  show ?thesis
    using s assms rel notif [OF b2]
    by (simp add: set_terminal_with_def with_sheet_run run_thn run_whn put_state_def set_dirty_def)
qed

definition blocked_sheet :: "int \<Rightarrow> sheet \<Rightarrow> sheet" where
  "blocked_sheet d s = mark_blocked (MsgBlockedBy d) (clear_dispatch_block (s\<lparr>status := SKIPPED\<rparr>))"

lemma blocked_sheet_simps [simp]:
  "status (blocked_sheet d s) = SKIPPED" "prospect_of (blocked_sheet d s) = Bad"
  "error_code (blocked_sheet d s) = Some E_UNKNOWN"
  by (simp_all add: blocked_sheet_def mark_blocked_def prospect_of_def is_dep_satisfied_def)

text \<open>A job like another, except for its sheets.\<close>

definition like :: "job \<Rightarrow> job \<Rightarrow> bool" where
  "like jb jb' \<longleftrightarrow> j_flow jb' = None \<and> j_dependencies jb' = j_dependencies jb \<and>
     j_fail_fast jb' = j_fail_fast jb"

lemma visit_live:
  assumes "get_job b j = Some jb" and "j_flow jb = None" and "dget (j_sheets jb) n = Some s"
    and "\<not> is_terminal (status s)" and "find (blocks jb) (deps_of jb n) = Some d"
  shows "\<exists>b' jb'. visit_dependent (set_terminal_in ev (Suc k)) j n b = (Inr True, b') \<and>
    get_job b' j = Some jb' \<and> like jb jb' \<and>
    (\<forall>m. dget (j_sheets jb') m = (if m = n then Some (blocked_sheet d s) else dget (j_sheets jb) m))"
proof -
  define b1 where "b1 = dirty (upd_sheet j n (\<lambda>s. s\<lparr>status := SKIPPED\<rparr>) b)"
  define b2 where "b2 = upd_sheet j n clear_dispatch_block b1"
  define b3 where "b3 = dirty (b2\<lparr>b_skip_events := b_skip_events b2 @
    [SheetSkipped j n (MsgBlockedBy d) (j_event_generation jb) None]\<rparr>)"
  define b4 where "b4 = upd_sheet j n (mark_blocked (MsgBlockedBy d)) b3"
  have st: "get_sheet_state b j n = Some s" using assms by (simp add: get_sheet_state_def)
  have skip: "skip_current (set_terminal_in ev (Suc k)) j n (MsgBlockedBy d) (j_event_generation jb) None b
      = (Inr (), b3)"
    using st assms(4) set_terminal_flow_free [OF assms(1-3)]
    by (simp add: skip_current_def with_sheet_run run_thn put_state_def set_dirty_def
        b1_def b2_def b3_def del: set_terminal_in.simps)
  have run: "visit_dependent (set_terminal_in ev (Suc k)) j n b = (Inr True, b4)"
    using assms skip
    by (simp add: visit_dependent_def with_job_run run_thn put_state_def b4_def deps_of_def
        del: set_terminal_in.simps)
  have j1: "get_job b1 j = Some (jb\<lparr>j_sheets := dadj (j_sheets jb) n (\<lambda>s. s\<lparr>status := SKIPPED\<rparr>)\<rparr>)"
    using assms(1) unfolding b1_def
    by (simp add: same_jobs_get [OF same_jobs_simple(1)] get_job_upd_sheet)
  have j3: "get_job b3 j = get_job b2 j"
    unfolding b3_def
    by (simp add: same_jobs_get [OF same_jobs_simple(1)] same_jobs_get [OF same_jobs_field(3)])
  show ?thesis
    using run j1 j3 assms
    by (auto simp: b4_def b2_def get_job_upd_sheet like_def blocked_sheet_def)
qed

lemma visit_other:
  assumes "get_job b j = Some jb"
    and "dget (j_sheets jb) n = None \<or> (\<exists>s. dget (j_sheets jb) n = Some s \<and> is_terminal (status s))"
  shows "visit_dependent write j n b = (Inr (dget (j_sheets jb) n \<noteq> None), b)"
  using assms by (auto simp: visit_dependent_def with_job_run)

subsection \<open>The walk\<close>

text \<open>
  The loop's invariant: what was seen is not live, whatever is queued has a dependency that
  blocks it, and every live sheet with such a dependency is queued.
\<close>

definition walk_inv :: "job \<Rightarrow> int list \<Rightarrow> int set \<Rightarrow> bool" where
  "walk_inv jb queue seen \<longleftrightarrow>
     (\<forall>m \<in> seen. view jb m \<noteq> Some Live) \<and>
     (\<forall>m \<in> set queue. \<exists>d \<in> set (deps_of jb m). view jb d = Some Bad) \<and>
     (\<forall>m. view jb m = Some Live \<longrightarrow> (\<exists>d \<in> set (deps_of jb m). view jb d = Some Bad) \<longrightarrow>
        m \<in> set queue)"

text \<open>What a walk may have done to the sheets: live ones in a given set were blocked.\<close>

definition blocked_within :: "(int \<Rightarrow> bool) \<Rightarrow> job \<Rightarrow> job \<Rightarrow> bool" where
  "blocked_within Q jb jb' \<longleftrightarrow> like jb jb' \<and>
     (\<forall>m. dget (j_sheets jb') m = dget (j_sheets jb) m \<or>
        (\<exists>s d. dget (j_sheets jb) m = Some s \<and> \<not> is_terminal (status s) \<and> Q m \<and>
           dget (j_sheets jb') m = Some (blocked_sheet d s)))"

lemma blocked_within_refl: "j_flow jb = None \<Longrightarrow> blocked_within Q jb jb"
  by (simp add: blocked_within_def like_def)

lemma blocked_within_trans:
  assumes "blocked_within Q a b" and "blocked_within Q b c"
  shows "blocked_within Q a c"
  unfolding blocked_within_def
proof (intro conjI allI)
  show "like a c" using assms by (simp add: blocked_within_def like_def)
  fix m
  show "dget (j_sheets c) m = dget (j_sheets a) m \<or>
    (\<exists>s d. dget (j_sheets a) m = Some s \<and> \<not> is_terminal (status s) \<and> Q m \<and>
       dget (j_sheets c) m = Some (blocked_sheet d s))"
    using assms unfolding blocked_within_def
    by (metis blocked_sheet_simps(1) is_terminal.simps(3) option.inject)
qed

lemma view_like: "(\<forall>m. dget (j_sheets jb') m = (if m = n then Some t else dget (j_sheets jb) m)) \<Longrightarrow>
  view jb' m = (if m = n then Some (prospect_of t) else view jb m)"
  by (simp add: view_def)

lemma deps_like: "like jb jb' \<Longrightarrow> deps_of jb' = deps_of jb"
  by (simp add: like_def deps_of_def fun_eq_iff)

lemma visit_within:
  assumes "get_job b j = Some jb" and "j_flow jb = None" and "view jb n \<noteq> Some Good"
    and "\<exists>d \<in> set (deps_of jb n). view jb d = Some Bad" and "view jb n \<noteq> None \<Longrightarrow> Q n"
  shows "\<exists>b' jb'. visit_dependent (set_terminal_in ev (Suc k)) j n b = (Inr (view jb n \<noteq> None), b') \<and>
    get_job b' j = Some jb' \<and> blocked_within Q jb jb' \<and>
    (\<forall>m. view jb' m = (if m = n then map_option (\<lambda>_. Bad) (view jb n) else view jb m))"
proof (cases "view jb n = Some Live")
  case True
  then obtain s where s: "dget (j_sheets jb) n = Some s" "\<not> is_terminal (status s)"
    by (auto simp: view_def prospect_of_def split: if_splits)
  from assms(4) obtain d where "find (blocks jb) (deps_of jb n) = Some d"
    using find_blocks by blast
  from visit_live [OF assms(1,2) s this] obtain b' jb' where
    r: "visit_dependent (set_terminal_in ev (Suc k)) j n b = (Inr True, b')" "get_job b' j = Some jb'"
    and l: "like jb jb'" and g: "\<forall>m. dget (j_sheets jb') m =
      (if m = n then Some (blocked_sheet d s) else dget (j_sheets jb) m)" by blast
  have "blocked_within Q jb jb'"
    using l g s assms(5) by (auto simp: blocked_within_def view_def)
  with r g True show ?thesis by (auto simp: view_like [OF g])
next
  case False
  show ?thesis
  proof (cases "dget (j_sheets jb) n")
    case None
    then show ?thesis
      using visit_other [OF assms(1), of n] assms(1,2) blocked_within_refl by (auto simp: view_def)
  next
    case (Some s)
    with False assms(3) have "is_terminal (status s)" and bad: "prospect_of s = Bad"
      by (auto simp: view_def prospect_of_def split: if_splits)
    with Some show ?thesis
      using visit_other [OF assms(1), of n] assms(1,2) blocked_within_refl by (auto simp: view_def)
  qed
qed

lemma walk_inv_step:
  assumes "walk_inv jb (n # queue) seen" and "consistent jb" and "like jb jb'"
    and v: "\<And>m. view jb' m = (if m = n then map_option (\<lambda>_. Bad) (view jb n) else view jb m)"
    and "distinct (dkeys (j_dependencies jb))"
  shows "walk_inv jb' (queue @ (if view jb n \<noteq> None
      then filter (\<lambda>d. d \<notin> insert n seen) (dependents (j_dependencies jb) n) else [])) (insert n seen)"
    and "consistent jb'"
proof -
  note dep = dependents_iff [OF assms(5), folded deps_of_def]
  have n: "view jb n \<noteq> Some Good"
    using assms(1,2) unfolding walk_inv_def consistent_def by fastforce
  show "consistent jb'"
    using assms(2) n deps_like [OF assms(3)]
    by (auto simp: consistent_def v split: if_splits)
  show "walk_inv jb' (queue @ (if view jb n \<noteq> None
      then filter (\<lambda>d. d \<notin> insert n seen) (dependents (j_dependencies jb) n) else [])) (insert n seen)"
    unfolding walk_inv_def
  proof (intro conjI ballI allI impI)
    fix m assume "m \<in> insert n seen"
    then show "view jb' m \<noteq> Some Live" using assms(1) by (auto simp: walk_inv_def v)
  next
    fix m
    assume "m \<in> set (queue @ (if view jb n \<noteq> None
      then filter (\<lambda>d. d \<notin> insert n seen) (dependents (j_dependencies jb) n) else []))"
    then have "(\<exists>d \<in> set (deps_of jb m). view jb d = Some Bad) \<or>
      (view jb n \<noteq> None \<and> n \<in> set (deps_of jb m))"
      using assms(1) by (auto simp: walk_inv_def dep split: if_splits)
    then show "\<exists>d \<in> set (deps_of jb' m). view jb' d = Some Bad"
      using deps_like [OF assms(3)] by (auto simp: v)
  next
    fix m
    assume l: "view jb' m = Some Live" and d: "\<exists>d \<in> set (deps_of jb' m). view jb' d = Some Bad"
    have m: "m \<noteq> n" "view jb m = Some Live" using l by (auto simp: v split: if_splits)
    then have "m \<notin> seen" using assms(1) by (auto simp: walk_inv_def)
    show "m \<in> set (queue @ (if view jb n \<noteq> None
      then filter (\<lambda>d. d \<notin> insert n seen) (dependents (j_dependencies jb) n) else []))"
      using d m \<open>m \<notin> seen\<close> assms(1) deps_like [OF assms(3)]
      by (auto simp: v walk_inv_def dep split: if_splits)
  qed
qed

lemma walk_within:
  assumes "get_job b j = Some jb" and "j_flow jb = None" and "distinct (dkeys (j_dependencies jb))"
    and "consistent jb" and "walk_inv jb queue seen"
    and "\<And>m. m \<in> set queue \<Longrightarrow> view jb m \<noteq> None \<Longrightarrow> Q m"
    and "\<And>d m. Q d \<Longrightarrow> d \<in> set (deps_of jb m) \<Longrightarrow> view jb m \<noteq> None \<Longrightarrow> Q m"
  shows "\<exists>seen' b' jb'. walk (visit_dependent (set_terminal_in ev (Suc k)) j) (j_dependencies jb) queue seen b
      = (Inr seen', b') \<and> get_job b' j = Some jb' \<and> blocked_within Q jb jb' \<and>
      consistent jb' \<and> no_zombies jb'"
  using assms
proof (induction "visit_dependent (set_terminal_in ev (Suc k)) j" "j_dependencies jb" queue seen b
    arbitrary: jb rule: walk.induct)
  case (1 seen b)
  then show ?case
    by (auto simp: walk.simps walk_inv_def no_zombies_def intro: blocked_within_refl)
next
  case (2 n queue seen b)
  note prems = 2(4-10)
  show ?case
  proof (cases "n \<in> seen")
    case True
    with prems(5) have "walk_inv jb queue seen" by (auto simp: walk_inv_def)
    with 2(1) [OF True refl prems(1-4)] prems(6,7) True show ?thesis
      by (auto simp: walk.simps)
  next
    case False
    have q: "view jb n \<noteq> None \<Longrightarrow> Q n" using prems(6) by simp
    have blk: "\<exists>d \<in> set (deps_of jb n). view jb d = Some Bad" and good: "view jb n \<noteq> Some Good"
      using prems(4,5) unfolding walk_inv_def consistent_def by fastforce+
    from visit_within [OF prems(1,2) good blk, of Q ev k] q obtain b1 jb1 where
      r: "visit_dependent (set_terminal_in ev (Suc k)) j n b = (Inr (view jb n \<noteq> None), b1)"
      and j1: "get_job b1 j = Some jb1" and w: "blocked_within Q jb jb1"
      and v: "\<And>m. view jb1 m = (if m = n then map_option (\<lambda>_. Bad) (view jb n) else view jb m)"
      by blast
    have l: "like jb jb1" using w by (simp add: blocked_within_def)
    have l': "j_flow jb1 = None" "j_dependencies jb = j_dependencies jb1" "deps_of jb1 = deps_of jb"
      using l deps_like by (simp_all add: like_def)
    let ?queue = "queue @ (if view jb n \<noteq> None
      then filter (\<lambda>d. d \<notin> insert n seen) (dependents (j_dependencies jb) n) else [])"
    note inv = walk_inv_step [OF prems(5,4) l v prems(3)]
    have q': "view jb1 m \<noteq> None \<Longrightarrow> Q m" if "m \<in> set ?queue" for m
      using that prems(6,7) q dependents_iff [OF prems(3), folded deps_of_def]
      by (auto simp: v split: if_splits)
    have q'': "Q m" if "Q d" "d \<in> set (deps_of jb1 m)" "view jb1 m \<noteq> None" for d m
      using that prems(7) [of d m] l'(3) q by (auto simp: v split: if_splits)
    have "\<exists>seen' b' jb'. walk (visit_dependent (set_terminal_in ev (Suc k)) j) (j_dependencies jb)
        ?queue (insert n seen) b1 = (Inr seen', b') \<and> get_job b' j = Some jb' \<and>
        blocked_within Q jb1 jb' \<and> consistent jb' \<and> no_zombies jb'"
    proof (cases "view jb n = None")
      case True
      then show ?thesis
        using 2(3) [OF False r [symmetric] _ _ l'(2) j1 l'(1)] prems(3) l'(2) inv q' q'' by auto
    next
      case notNone: False
      then show ?thesis
        using 2(2) [OF False r [symmetric] _ _ l'(2) j1 l'(1)] prems(3) l'(2) inv q' q'' by auto
    qed
    then show ?thesis
      using False r blocked_within_trans [OF w] by (cases "view jb n") (auto simp: walk.simps)

  qed
qed

subsection \<open>Failing a sheet\<close>

definition downstream :: "job \<Rightarrow> (int \<times> int) set" where
  "downstream jb = {(d, m). d \<in> set (deps_of jb m) \<and> view jb m \<noteq> None}"

lemma propagate_runs:
  assumes "get_job b j = Some jb" and "j_flow jb = None" and "\<not> j_fail_fast jb"
    and "distinct (dkeys (j_dependencies jb))" and "consistent jb"
    and "view jb n = Some Bad"
    and "\<And>m. view jb m = Some Live \<Longrightarrow> (\<exists>d \<in> set (deps_of jb m). view jb d = Some Bad) \<Longrightarrow>
      n \<in> set (deps_of jb m)"
  shows "\<exists>b' jb'. propagate_with (set_terminal_in ev (Suc k)) j n b = (Inr (), b') \<and>
    get_job b' j = Some jb' \<and> blocked_within (\<lambda>m. (n, m) \<in> (downstream jb)\<^sup>+) jb jb' \<and>
    consistent jb' \<and> no_zombies jb'"
proof -
  note dep = dependents_iff [OF assms(4), folded deps_of_def]
  have inv: "walk_inv jb (dependents (j_dependencies jb) n) {}"
    using assms(6,7) by (auto simp: walk_inv_def dep)
  have "\<exists>seen' b' jb'. walk (visit_dependent (set_terminal_in ev (Suc k)) j) (j_dependencies jb)
      (dependents (j_dependencies jb) n) {} b = (Inr seen', b') \<and> get_job b' j = Some jb' \<and>
      blocked_within (\<lambda>m. (n, m) \<in> (downstream jb)\<^sup>+) jb jb' \<and> consistent jb' \<and> no_zombies jb'"
  proof (rule walk_within [OF assms(1,2,4,5) inv])
    fix m assume "m \<in> set (dependents (j_dependencies jb) n)" and "view jb m \<noteq> None"
    then show "(n, m) \<in> (downstream jb)\<^sup>+" by (auto simp: dep downstream_def)
  next
    fix d m assume "(n, d) \<in> (downstream jb)\<^sup>+" "d \<in> set (deps_of jb m)" "view jb m \<noteq> None"
    moreover from this(2,3) have "(d, m) \<in> downstream jb" by (auto simp: downstream_def)
    ultimately show "(n, m) \<in> (downstream jb)\<^sup>+" by (meson trancl_into_trancl)
  qed
  then obtain seen' b' jb' where w: "walk (visit_dependent (set_terminal_in ev (Suc k)) j) (j_dependencies jb)
      (dependents (j_dependencies jb) n) {} b = (Inr seen', b')"
    and j': "get_job b' j = Some jb'"
    and rest: "blocked_within (\<lambda>m. (n, m) \<in> (downstream jb)\<^sup>+) jb jb'" "consistent jb'" "no_zombies jb'"
    by blast
  have run: "propagate_with (set_terminal_in ev (Suc k)) j n b =
    whn (seen' \<noteq> {} \<or> False) (modify (\<lambda>b. enqueue_dispatch_retry (dirty b))) b'"
    using assms(1,3) w by (simp add: propagate_with_def with_job_run del: set_terminal_in.simps)
  have "\<exists>b''. propagate_with (set_terminal_in ev (Suc k)) j n b = (Inr (), b'') \<and> get_job b'' j = Some jb'"
    unfolding run using j' by (simp add: run_whn same_jobs_get [OF same_jobs_simple(4)])
  with rest show ?thesis by blast
qed

text \<open>After failing a sheet, whatever lies downstream of it is terminal and blocks in turn.\<close>

lemma downstream_blocked_step:
  assumes "consistent jb" and "no_zombies jb" and "view jb d = Some Bad" and "(d, m) \<in> downstream jb"
  shows "view jb m = Some Bad"
proof -
  from assms(4) have d: "d \<in> set (deps_of jb m)" and "view jb m \<noteq> None"
    by (simp_all add: downstream_def)
  then obtain p where p: "view jb m = Some p" by blast
  show ?thesis
  proof (cases p)
    case Live
    with p d assms(2,3) show ?thesis by (simp add: no_zombies_def)
  next
    case Good
    with p d assms(1,3) show ?thesis unfolding consistent_def by fastforce
  next
    case Bad
    with p show ?thesis by simp
  qed
qed

lemma downstream_blocked:
  assumes "consistent jb" and "no_zombies jb" and "view jb n = Some Bad"
    and "(n, m) \<in> (downstream jb)\<^sup>+"
  shows "view jb m = Some Bad"
  using assms(4)
  by induction (use assms downstream_blocked_step in blast)+

text \<open>
  C2. Failing a sheet blocks exactly what depends on it, and at once. In a job without a flow
  and without fail-fast whose finished sheets rest on finished ones and in which no live sheet
  is stuck, failing a live sheet returns, marks it failed, skips every live sheet that depends
  on it directly or through others, whether or not its other dependencies have ended, and
  changes no other status; afterwards the same holds again: no live sheet waits for a
  dependency that can never be satisfied. (The documentation of the function promises that a
  single failure does not cascade at once; see below.)
\<close>

theorem failure_blocks_exactly_the_dependents:
  assumes "get_job b j = Some jb" and "j_flow jb = None" and "\<not> j_fail_fast jb"
    and "distinct (dkeys (j_dependencies jb))" and "consistent jb" and "no_zombies jb"
    and "dget (j_sheets jb) n = Some s" and "\<not> is_terminal (status s)" and "sheet_num s = n"
    and "0 < ev_frames ev"
  shows "\<exists>b' jb'. fail_sheet ev j n ec m b = (Inr (), b') \<and> get_job b' j = Some jb' \<and>
    consistent jb' \<and> no_zombies jb' \<and>
    (\<forall>k t. dget (j_sheets jb) k = Some t \<longrightarrow>
       (\<exists>t'. dget (j_sheets jb') k = Some t' \<and>
          status t' = (if k = n then FAILED
                       else if (n, k) \<in> (downstream jb)\<^sup>+ \<and> \<not> is_terminal (status t) then SKIPPED
                       else status t)))"
proof -
  obtain f where f: "ev_frames ev = Suc f" using assms(10) by (cases "ev_frames ev") auto
  define s' where "s' = clear_dispatch_block (s\<lparr>error_code := Some ec, error_message := Some m, status := FAILED\<rparr>)"
  define b1 where "b1 = upd_sheet j n (\<lambda>s. s\<lparr>error_code := Some ec, error_message := Some m\<rparr>) b"
  define b3 where "b3 = upd_sheet j n clear_dispatch_block (dirty (upd_sheet j n (\<lambda>s. s\<lparr>status := FAILED\<rparr>) b1))"
  obtain jb3 where j3: "get_job b3 j = Some jb3" and l: "like jb jb3"
    and g: "\<And>k. dget (j_sheets jb3) k = (if k = n then Some s' else dget (j_sheets jb) k)"
  proof -
    have "get_job b1 j = Some (jb\<lparr>j_sheets := dadj (j_sheets jb) n
        (\<lambda>s. s\<lparr>error_code := Some ec, error_message := Some m\<rparr>)\<rparr>)"
      using assms(1) by (simp add: b1_def get_job_upd_sheet)
    then show thesis using that assms(2,7)
      by (simp add: b3_def get_job_upd_sheet same_jobs_get [OF same_jobs_simple(1)] like_def s'_def)
  qed
  have s': "status s' = FAILED" "sheet_num s' = n" "prospect_of s' = Bad"
    using assms(9) by (simp_all add: s'_def prospect_of_def is_dep_satisfied_def)
  have v: "view jb3 k = (if k = n then Some Bad else view jb k)" for k
    using g s' by (simp add: view_def)
  have live: "view jb n = Some Live" using assms(7,8) by (simp add: view_def prospect_of_def)
  have ds: "downstream jb3 = downstream jb"
    using deps_like [OF l] live by (auto simp: downstream_def v split: if_splits)
  have c3: "consistent jb3"
    unfolding consistent_def v deps_like [OF l]
  proof (intro allI impI ballI)
    fix k d assume a: "(if k = n then Some Bad else view jb k) = Some Good" "d \<in> set (deps_of jb k)"
    then have "view jb k = Some Good" by (simp split: if_splits)
    with a assms(5) have "view jb d \<in> {None, Some Good}" by (simp add: consistent_def)
    with live show "(if d = n then Some Bad else view jb d) \<in> {None, Some Good}" by auto
  qed
  have z3: "n \<in> set (deps_of jb3 k)"
    if "view jb3 k = Some Live" "\<exists>d \<in> set (deps_of jb3 k). view jb3 d = Some Bad" for k
    using that assms(6) deps_like [OF l] by (auto simp: v no_zombies_def split: if_splits)
  have d3: "j_flow jb3 = None" "\<not> j_fail_fast jb3" "distinct (dkeys (j_dependencies jb3))"
    using l assms(3,4) by (simp_all add: like_def)
  from propagate_runs [OF j3 d3 c3 _ z3, where ev = ev and k = f] v obtain b' jb' where
    p: "propagate_with (set_terminal_in ev (Suc f)) j n b3 = (Inr (), b')" "get_job b' j = Some jb'"
    and w: "blocked_within (\<lambda>k. (n, k) \<in> (downstream jb)\<^sup>+) jb3 jb'"
    and good: "consistent jb'" "no_zombies jb'"
    unfolding ds by auto
  have b1: "get_job b1 j = Some (jb\<lparr>j_sheets := dadj (j_sheets jb) n
      (\<lambda>s. s\<lparr>error_code := Some ec, error_message := Some m\<rparr>)\<rparr>)"
    using assms(1) by (simp add: b1_def get_job_upd_sheet)
  have set: "set_terminal_in ev (Suc f) j n FAILED None b1 =
      (Inr (), dirty (upd_sheet j n (\<lambda>s. s\<lparr>status := FAILED\<rparr>) b1))"
    using assms(2,7) by (intro set_terminal_flow_free [OF b1]) simp_all
  have st: "get_sheet_state b3 j n = Some s'" using j3 g by (simp add: get_sheet_state_def)
  have tail: "with_sheet j n () (\<lambda>s. whn (status s = FAILED)
      (propagate_with (set_terminal_in ev (Suc f)) j (sheet_num s))) b3 = (Inr (), b')"
    using st s' p(1) by (simp add: with_sheet_run run_whn del: set_terminal_in.simps)
  have run: "fail_sheet ev j n ec m b = (Inr (), b')"
    using set tail
    by (simp add: fail_sheet_def put_state_def run_thn b1_def [symmetric]
        b3_def [symmetric] set_sheet_terminal_status_def f propagate_failure_to_dependents_def
        del: set_terminal_in.simps get_sheet_upd)
  have "\<exists>t'. dget (j_sheets jb') k = Some t' \<and>
      status t' = (if k = n then FAILED
        else if (n, k) \<in> (downstream jb)\<^sup>+ \<and> \<not> is_terminal (status t) then SKIPPED else status t)"
    if t: "dget (j_sheets jb) k = Some t" for k t
  proof (cases "k = n")
    case True
    then show ?thesis using w g s' unfolding blocked_within_def
      by (metis is_terminal.simps(2) option.inject)
  next
    case False
    have k3: "dget (j_sheets jb3) k = Some t" using g t False by simp
    have wk: "dget (j_sheets jb') k = dget (j_sheets jb3) k \<or>
      (\<exists>s d. dget (j_sheets jb3) k = Some s \<and> \<not> is_terminal (status s) \<and>
         (n, k) \<in> (downstream jb)\<^sup>+ \<and> dget (j_sheets jb') k = Some (blocked_sheet d s))"
      using w unfolding blocked_within_def by blast
    have n': "view jb' n = Some Bad"
      using w g s' unfolding blocked_within_def view_def
      by (metis is_terminal.simps(2) option.inject option.map(2))
    have ds': "downstream jb' = downstream jb"
    proof -
      have "deps_of jb' = deps_of jb"
        using w l by (simp add: blocked_within_def like_def deps_of_def fun_eq_iff)
      moreover have "(view jb' i = None) = (view jb3 i = None)" for i
        using w unfolding blocked_within_def view_def by (metis option.map_disc_iff option.simps(3))
      ultimately show ?thesis using ds deps_like [OF l] by (auto simp: downstream_def)
    qed
    show ?thesis
    proof (cases "(n, k) \<in> (downstream jb)\<^sup>+ \<and> \<not> is_terminal (status t)")
      case True
      then have "view jb' k = Some Bad"
        using downstream_blocked [OF good n'] by (simp add: ds')
      then have "dget (j_sheets jb') k \<noteq> dget (j_sheets jb3) k"
        using k3 True by (auto simp: view_def prospect_of_def)
      then show ?thesis using wk k3 True \<open>k \<noteq> n\<close> by auto
    next
      case f: False
      then show ?thesis using wk k3 \<open>k \<noteq> n\<close> by auto
    qed
  qed
  with run p(2) good show ?thesis by blast
qed

text \<open>A diamond: 2 and 3 depend on 1, 4 on both; 5 is independent.\<close>

definition diamond_job :: job where
  "diamond_job = new_job plain_env
     [(1, work_sheet 1 DISPATCHED), (2, work_sheet 2 PENDING), (3, work_sheet 3 PENDING),
      (4, work_sheet 4 PENDING), (5, work_sheet 5 PENDING)]
     [(2, [1]), (3, [1]), (4, [2, 3])] default_options 1 None"

definition diamond_baton :: baton where
  "diamond_baton = (new_baton None [] False (\<lambda>a b. a))\<lparr>b_jobs := [(''job'', diamond_job)]\<rparr>"

lemma work_sheet_simps [simp]: "status (work_sheet n st) = st" "sheet_num (work_sheet n st) = n"
  by (simp_all add: work_sheet_def new_sheet_def)

lemma diamond_job_simps:
  "get_job diamond_baton ''job'' = Some diamond_job" "j_flow diamond_job = None"
  "\<not> j_fail_fast diamond_job" "j_dependencies diamond_job = [(2, [1]), (3, [1]), (4, [2, 3])]"
  "dget (j_sheets diamond_job) 1 = Some (work_sheet 1 DISPATCHED)"
  "dget (j_sheets diamond_job) 4 = Some (work_sheet 4 PENDING)"
  "dget (j_sheets diamond_job) 5 = Some (work_sheet 5 PENDING)"
  by (simp_all add: diamond_baton_def get_job_def diamond_job_def new_job_def default_options_def)

lemma diamond_view: "view diamond_job k = (if k \<in> {1, 2, 3, 4, 5} then Some Live else None)"
  by (simp add: view_def diamond_job_def new_job_def prospect_of_def)

lemma diamond_ok: "consistent diamond_job" "no_zombies diamond_job"
  by (simp_all add: consistent_def no_zombies_def diamond_view)

lemma diamond_downstream:
  "(1, 4) \<in> (downstream diamond_job)\<^sup>+" "(1, 5) \<notin> (downstream diamond_job)\<^sup>+"
proof -
  have "(1, 2) \<in> downstream diamond_job" "(2, 4) \<in> downstream diamond_job"
    by (simp_all add: downstream_def deps_of_def dget_or_def diamond_job_simps diamond_view)
  then show "(1, 4) \<in> (downstream diamond_job)\<^sup>+" by (meson r_into_trancl trancl_into_trancl)
  have no: "(x, 5) \<notin> downstream diamond_job" for x
    by (simp add: downstream_def deps_of_def dget_or_def diamond_job_simps)
  show "(1, 5) \<notin> (downstream diamond_job)\<^sup>+"
    by (metis no tranclE)
qed

lemma failure_blocks_exactly_the_dependents_witness:
  "\<exists>b' jb' t t'. fail_sheet plain_env ''job'' 1 E_UNKNOWN MsgUnknownFailure diamond_baton = (Inr (), b') \<and>
     get_job b' ''job'' = Some jb' \<and> no_zombies jb' \<and>
     dget (j_sheets jb') 4 = Some t \<and> status t = SKIPPED \<and>
     dget (j_sheets jb') 5 = Some t' \<and> status t' = PENDING"
proof -
  have "distinct (dkeys (j_dependencies diamond_job))" by (simp add: diamond_job_simps)
  moreover have "0 < ev_frames plain_env" by (simp add: plain_env_def)
  ultimately obtain b' jb' where
    r: "fail_sheet plain_env ''job'' 1 E_UNKNOWN MsgUnknownFailure diamond_baton = (Inr (), b')"
      "get_job b' ''job'' = Some jb'" "no_zombies jb'"
    and st: "\<forall>k t. dget (j_sheets diamond_job) k = Some t \<longrightarrow>
       (\<exists>t'. dget (j_sheets jb') k = Some t' \<and>
          status t' = (if k = 1 then FAILED
                       else if (1, k) \<in> (downstream diamond_job)\<^sup>+ \<and> \<not> is_terminal (status t) then SKIPPED
                       else status t))"
    using failure_blocks_exactly_the_dependents
      [OF diamond_job_simps(1-3) _ diamond_ok diamond_job_simps(5), of plain_env E_UNKNOWN MsgUnknownFailure]
    by auto
  from st diamond_job_simps(6) diamond_downstream obtain t where
    "dget (j_sheets jb') 4 = Some t" "status t = SKIPPED" by fastforce
  moreover from st diamond_job_simps(7) diamond_downstream obtain t' where
    "dget (j_sheets jb') 5 = Some t'" "status t' = PENDING" by fastforce
  ultimately show ?thesis using r by blast
qed

subsection \<open>One failed voice\<close>

text \<open>
  The documentation of \<open>_propagate_failure_to_dependents\<close> says that one failure does not
  cascade at once: a dependent is to stay pending until all its dependencies are terminal. The
  code skips it as soon as one of them has failed, here while the other voice still plays.
\<close>

definition two_voices :: baton where
  "two_voices = (new_baton None [] False (\<lambda>a b. a))\<lparr>b_jobs := [(''job'', new_job plain_env
     [(1, work_sheet 1 DISPATCHED), (2, work_sheet 2 DISPATCHED), (3, work_sheet 3 PENDING)]
     [(3, [1, 2])] default_options 1 None)]\<rparr>"

lemma one_voice_skips_the_join:
  "map (\<lambda>n. map_option status (get_sheet_state
       (snd (fail_sheet plain_env ''job'' 1 E_UNKNOWN MsgUnknownFailure two_voices)) ''job'' n))
     [1, 2, 3] = [Some FAILED, Some DISPATCHED, Some SKIPPED]"
  by code_simp

subsection \<open>Where the walk loses a dependent\<close>

text \<open>
  Without the consistency hypothesis the walk can leave a live sheet behind. Here 2 is
  completed although it depends on 1 (a recovered checkpoint, or an accepted escalation):
  the walk passes through 2 and visits 3 while 4 is still live, and when 4 is blocked, 3 is
  already in the visited set. It stays pending although its dependency 4 can never be
  satisfied.
\<close>

definition passed_through_baton :: baton where
  "passed_through_baton = (new_baton None [] False (\<lambda>a b. a))\<lparr>b_jobs := [(''job'', new_job plain_env
     [(1, work_sheet 1 DISPATCHED), (2, work_sheet 2 COMPLETED), (3, work_sheet 3 PENDING),
      (4, work_sheet 4 PENDING), (5, work_sheet 5 PENDING)]
     [(2, [1]), (5, [1]), (3, [2, 4]), (4, [5])] default_options 1 None)]\<rparr>"

lemma walk_loses_a_dependent:
  "map (\<lambda>n. map_option status (get_sheet_state
       (snd (fail_sheet plain_env ''job'' 1 E_UNKNOWN MsgUnknownFailure passed_through_baton)) ''job'' n))
     [1, 2, 3, 4, 5] =
   [Some FAILED, Some COMPLETED, Some PENDING, Some SKIPPED, Some SKIPPED]"
  by code_simp

text \<open>
  Resolving an escalation with \<open>skip\<close> keeps the error code of the failed attempt, so the
  skipped sheet blocks its dependents, and nothing propagates that.
\<close>

definition escalated_baton :: baton where
  "escalated_baton = (new_baton None [] False (\<lambda>a b. a))\<lparr>b_jobs := [(''job'', new_job plain_env
     [(1, (work_sheet 1 FERMATA)\<lparr>error_code := Some ''E001''\<rparr>), (2, work_sheet 2 PENDING)]
     [(2, [1])] default_options 1 None)]\<rparr>"

definition after_skip_decision :: baton where
  "after_skip_decision =
     handle_event plain_env (EscalationResolved ''job'' 1 ''skip'' None) escalated_baton"

lemma skipped_escalation_strands_dependents:
  "map (\<lambda>n. map_option status (get_sheet_state after_skip_decision ''job'' n)) [1, 2] =
     [Some SKIPPED, Some PENDING]"
  by code_simp

lemma skipped_escalation_leaves_nothing_ready:
  "length (get_ready_sheets after_skip_decision ''job'') = 0"
  by code_simp

lemma skipped_escalation_never_completes:
  "is_job_complete after_skip_decision ''job'' = Inr False"
  by code_simp

end
