(* ===== verification/Dispatch.thy ===== *)
theory Dispatch
  imports Baton_Terminal
begin

section \<open>Dispatching ready sheets\<close>

text \<open>
  \<open>daemon/baton/dispatch.py\<close>: one dispatch cycle over the ready sheets of every job, with
  the global, per-job and per-route concurrency limits, the load balancing of a chain, the
  walk down the fallback chain past unavailable instruments, the stagger gate with its
  wake-up timers, and \<open>build_dispatch_config\<close> of the core, which derives the limits from the
  instruments. The awaited callback is a parameter: it may change the baton in any way and
  accept, decline or raise; a cancellation of the whole task is left out. The clocks of
  \<open>env\<close> stand still during a cycle. A sheet object is identified by its place in the
  registered job, so "no longer the same object" reads "no longer there".
\<close>

subsection \<open>Configuration and result\<close>

type_synonym executions = "(string \<times> int, string \<times> string option) dict"

record dispatch_config =
  dc_max_concurrent_sheets :: int
  dc_instrument_concurrency :: "(string, int) dict"
  dc_model_concurrency :: "(string, int) dict"
  dc_rate_limited_instruments :: "string list"
  dc_open_circuit_breakers :: "string list"
  dc_stagger_delay_ms :: int
  dc_job_max_concurrent :: "(string, int) dict"
  dc_job_stagger_delay_ms :: "(string, int) dict"
  dc_active_executions :: "executions option"

record dispatch_result =
  dr_dispatched_count :: nat
  dr_dispatched_sheets :: "(string \<times> int) list"
  dr_blocked_sheets :: "(string \<times> int) list"
  dr_skipped_reasons :: "(string, nat) dict"

definition new_result :: dispatch_result where
  "new_result = \<lparr>dr_dispatched_count = 0, dr_dispatched_sheets = [], dr_blocked_sheets = [],
     dr_skipped_reasons = []\<rparr>"

definition record_dispatch :: "string \<Rightarrow> int \<Rightarrow> dispatch_result \<Rightarrow> dispatch_result" where
  "record_dispatch j n r =
     r\<lparr>dr_dispatched_count := dr_dispatched_count r + 1,
       dr_dispatched_sheets := dr_dispatched_sheets r @ [(j, n)]\<rparr>"

definition record_skip :: "string \<Rightarrow> string \<Rightarrow> int \<Rightarrow> bool \<Rightarrow> dispatch_result \<Rightarrow> dispatch_result" where
  "record_skip reason j n changed r =
     (let r1 = r\<lparr>dr_skipped_reasons :=
            dset (dr_skipped_reasons r) reason (dget_or (dr_skipped_reasons r) reason 0 + 1)\<rparr>
      in if changed then r1\<lparr>dr_blocked_sheets := dr_blocked_sheets r1 @ [(j, n)]\<rparr> else r1)"

definition job_field_dict :: "(job \<Rightarrow> 'v option) \<Rightarrow> baton \<Rightarrow> (string, 'v) dict" where
  "job_field_dict f b =
     concat (map (\<lambda>(j, jb). case f jb of None \<Rightarrow> [] | Some v \<Rightarrow> [(j, v)]) (items (b_jobs b)))"

definition build_dispatch_config :: "int \<Rightarrow> int \<Rightarrow> executions option \<Rightarrow> baton \<Rightarrow> dispatch_config" where
  "build_dispatch_config max_sheets stagger active b =
     \<lparr>dc_max_concurrent_sheets = max_sheets,
      dc_instrument_concurrency = map (\<lambda>(n, i). (n, max_concurrent i)) (items (b_instruments b)),
      dc_model_concurrency = b_model_concurrency b,
      dc_rate_limited_instruments =
        dkeys (filter (\<lambda>(n, i). rate_limited i) (items (b_instruments b))),
      dc_open_circuit_breakers =
        dkeys (filter (\<lambda>(n, i). circuit_breaker i = OPEN) (items (b_instruments b))),
      dc_stagger_delay_ms = stagger,
      dc_job_max_concurrent = job_field_dict j_max_concurrent b,
      dc_job_stagger_delay_ms =
        job_field_dict (\<lambda>jb. if j_stagger_delay_ms jb > 0 then Some (j_stagger_delay_ms jb) else None) b,
      dc_active_executions = active\<rparr>"

subsection \<open>Occupied slots\<close>

text \<open>The key of a route: \<open>instrument:model\<close>, or the instrument without a model.\<close>

definition route_key :: "string \<Rightarrow> string option \<Rightarrow> string" where
  "route_key inst mo = (if str_truthy mo then model_key inst (or_empty mo) else inst)"

definition occupy_sheet :: "string \<Rightarrow> int \<times> sheet \<Rightarrow> executions \<Rightarrow> executions" where
  "occupy_sheet j p occ =
     (if dget occ (j, fst p) = None \<and> is_active (status (snd p))
      then dset occ (j, fst p) (or_empty (instrument_name (snd p)), model (snd p)) else occ)"

definition occupied_executions :: "baton \<Rightarrow> dispatch_config \<Rightarrow> executions" where
  "occupied_executions b cfg =
     fold (\<lambda>(j, jb). fold (occupy_sheet j) (items (j_sheets jb))) (items (b_jobs b))
       (items (opt_or (dc_active_executions cfg) []))"

definition count_key :: "'k \<Rightarrow> ('k, int) dict \<Rightarrow> ('k, int) dict" where
  "count_key k d = dset d k (dget_or d k 0 + 1)"

definition count_occupied_per_model :: "executions \<Rightarrow> (string, int) dict" where
  "count_occupied_per_model occ = fold (\<lambda>(inst, mo). count_key (route_key inst mo)) (dvals occ) []"

definition count_occupied_per_job :: "executions \<Rightarrow> (string, int) dict" where
  "count_occupied_per_job occ = fold (\<lambda>k. count_key (fst k)) (dkeys occ) []"

subsection \<open>Balancing a chain\<close>

definition route_limit :: "dispatch_config \<Rightarrow> string \<Rightarrow> string \<Rightarrow> int option" where
  "route_limit cfg inst key =
     (case dget (dc_model_concurrency cfg) key of
        Some l \<Rightarrow> Some l | None \<Rightarrow> dget (dc_instrument_concurrency cfg) inst)"

definition load_ratio :: "string \<Rightarrow> string option \<Rightarrow> dispatch_config \<Rightarrow> (string, int) dict \<Rightarrow> rat" where
  "load_ratio inst mo cfg running =
     (let key = route_key inst mo;
          cap = (case route_limit cfg inst key of None \<Rightarrow> 4 | Some l \<Rightarrow> if l \<le> 0 then 4 else l)
      in of_int (dget_or running key 0) / of_int cap)"

definition no_config :: inst_config where "no_config = \<lparr>cfg_model = None, cfg_rest = []\<rparr>"

definition primary_entry :: "sheet \<Rightarrow> string \<times> inst_config" where
  "primary_entry s =
     (or_empty (instrument_name s),
      case primary_config s of
        Some c \<Rightarrow> c
      | None \<Rightarrow> if str_truthy (model s) then no_config\<lparr>cfg_model := model s\<rparr> else no_config)"

definition authored_chain :: "sheet \<Rightarrow> (string \<times> inst_config) list" where
  "authored_chain s =
     primary_entry s #
       map (\<lambda>i. (fallback_chain s ! i,
                 if i < length (fallback_configs s) then fallback_configs s ! i else no_config))
         [0..<length (fallback_chain s)]"

definition usable_entry :: "dispatch_config \<Rightarrow> nat \<times> string \<times> inst_config \<Rightarrow> bool" where
  "usable_entry cfg t \<longleftrightarrow> fst t = 0 \<or>
     (fst (snd t) \<notin> set (dc_rate_limited_instruments cfg) \<and>
      fst (snd t) \<notin> set (dc_open_circuit_breakers cfg))"

text \<open>\<open>min\<close> keeps the first of the smallest.\<close>

fun first_min :: "('a \<Rightarrow> rat) \<Rightarrow> 'a \<Rightarrow> 'a list \<Rightarrow> 'a" where
  "first_min f x [] = x"
| "first_min f x (y # ys) = first_min f (if f y < f x then y else x) ys"

definition best_entry :: "dispatch_config \<Rightarrow> (string, int) dict \<Rightarrow> (string \<times> inst_config) list \<Rightarrow> nat" where
  "best_entry cfg running chain =
     (case filter (usable_entry cfg) (enumerate 0 chain) of
        [] \<Rightarrow> 0
      | t # ts \<Rightarrow> fst (first_min (\<lambda>(i, inst, c). load_ratio inst (cfg_model c) cfg running) t ts))"

definition rotate_chain :: "rat \<Rightarrow> nat \<Rightarrow> sheet \<Rightarrow> sheet" where
  "rotate_chain t i s =
     (let chain = authored_chain s;
          rest = take i chain @ drop (Suc i) chain;
          (inst, c) = chain ! i
      in s\<lparr>instrument_name := Some inst, model := cfg_model c, instrument_model := cfg_model c,
           primary_config := Some c, fallback_chain := map fst rest,
           fallback_configs := map snd rest,
           instrument_fallback_history := instrument_fallback_history s @
             [\<lparr>fb_from = or_empty (instrument_name s), fb_to = inst, fb_reason = ''balance'',
               fb_timestamp = t\<rparr>]\<rparr>)"

definition balance_sheet :: "dispatch_config \<Rightarrow> (string, int) dict \<Rightarrow> rat \<Rightarrow> sheet \<Rightarrow> sheet" where
  "balance_sheet cfg running t s =
     (let i = best_entry cfg running (authored_chain s) in if i = 0 then s else rotate_chain t i s)"

definition rebalances :: "sheet \<Rightarrow> bool" where
  "rebalances s \<longleftrightarrow> balance_chain s \<and> current_instrument_index s = 0 \<and> attempt_history s = [] \<and>
     fallback_chain s \<noteq> []"

subsection \<open>One sheet\<close>

datatype verdict = Returned "bool option" | Raised

type_synonym callback = "string \<Rightarrow> int \<Rightarrow> baton \<Rightarrow> verdict \<times> baton"

text \<open>What a cycle keeps in its local variables, next to the baton.\<close>

record cycle =
  cy_baton :: baton
  cy_result :: dispatch_result
  cy_global :: int
  cy_jobs :: "(string, int) dict"
  cy_models :: "(string, int) dict"
  cy_wakes :: "(string, rat \<times> int) dict"

text \<open>How the loop over a job's sheets goes on.\<close>

datatype control = Continue | Break | Return

definition ready_sheet :: "cycle \<Rightarrow> string \<Rightarrow> int \<Rightarrow> sheet" where
  "ready_sheet c j n = (case get_sheet_state (cy_baton c) j n of None \<Rightarrow> new_sheet n | Some s \<Rightarrow> s)"

definition record_dispatch_block ::
  "env \<Rightarrow> string \<Rightarrow> int \<Rightarrow> string \<Rightarrow> string \<Rightarrow> jdict \<Rightarrow> cycle \<Rightarrow> cycle" where
  "record_dispatch_block ev j n reason skip_key details c =
     (let (changed, s') = mark_dispatch_blocked reason details (ev_wall ev) (ready_sheet c j n)
      in c\<lparr>cy_baton := upd_sheet j n (\<lambda>_. s') (cy_baton c),
           cy_result := record_skip skip_key j (sheet_num s') changed (cy_result c)\<rparr>)"

definition labelled :: "string \<Rightarrow> string \<Rightarrow> string" where
  "labelled reason what = reason @ CHR '':'' # what"

definition block_rate_limited :: "env \<Rightarrow> string \<Rightarrow> int \<Rightarrow> string \<Rightarrow> cycle \<Rightarrow> cycle" where
  "block_rate_limited ev j n inst =
     record_dispatch_block ev j n ''rate_limited'' (labelled ''rate_limited'' inst)
       [(''instrument'', JStr inst)]"

definition block_circuit_breaker :: "env \<Rightarrow> string \<Rightarrow> int \<Rightarrow> string \<Rightarrow> cycle \<Rightarrow> cycle" where
  "block_circuit_breaker ev j n inst =
     record_dispatch_block ev j n ''circuit_breaker'' (labelled ''circuit_breaker'' inst)
       [(''instrument'', JStr inst)]"

definition block_model :: "env \<Rightarrow> string \<Rightarrow> int \<Rightarrow> string \<Rightarrow> string \<Rightarrow> int \<Rightarrow> cycle \<Rightarrow> cycle" where
  "block_model ev j n inst key l c =
     record_dispatch_block ev j n ''model_concurrency'' (labelled ''model_concurrency'' key)
       [(''instrument'', JStr inst), (''model_key'', JStr key),
        (''model_count'', JInt (dget_or (cy_models c) key 0)), (''model_limit'', JInt l)] c"

definition at_limit :: "int option \<Rightarrow> int \<Rightarrow> bool" where
  "at_limit l k \<longleftrightarrow> (case l of None \<Rightarrow> False | Some l \<Rightarrow> k \<ge> l)"

lemma at_limit_simps [simp]: "\<not> at_limit None k" "at_limit (Some l) k \<longleftrightarrow> k \<ge> l"
  by (simp_all add: at_limit_def)

text \<open>
  The walk down the fallback chain while the instrument's breaker is open or it is not
  registered; it ends because every round advances the chain.
\<close>

definition fallbacks_left :: "baton \<Rightarrow> string \<Rightarrow> int \<Rightarrow> nat" where
  "fallbacks_left b j n =
     (case get_sheet_state b j n of
        None \<Rightarrow> 0 | Some s \<Rightarrow> length (fallback_chain s) - current_instrument_index s)"

lemma same_jobs_note: "same_jobs b (note_fallback j k old new reason b)"
  by (simp add: note_fallback_def same_jobs_def dirty_def)

lemma fall_back_run:
  "fall_back ev j n k reason adjust b =
     (case get_sheet_state b j n of
        None \<Rightarrow> (Inr False, b)
      | Some s \<Rightarrow>
          (case advance_fallback reason (ev_wall ev) s of
             (None, _) \<Rightarrow> (Inr False, b)
           | (Some to, s') \<Rightarrow>
               (Inr True, note_fallback j k (or_empty (instrument_name s)) to reason
                  (upd_sheet j n (\<lambda>s. s\<lparr>status := PENDING\<rparr>)
                    (ensure_instrument_registered to (upd_sheet j n (\<lambda>_. adjust s') b))))))"
  by (auto simp: fall_back_def with_sheet_def put_state_def run_bnd run_thn advance_fallback_def
      split: option.splits prod.splits)

lemma fall_back_sheet:
  assumes "fall_back ev j n k reason id b = (r, b')"
  shows "(r = Inr True \<and> (\<exists>s to s'. get_sheet_state b j n = Some s \<and>
            advance_fallback reason (ev_wall ev) s = (Some to, s') \<and>
            get_sheet_state b' j n = Some (s'\<lparr>status := PENDING\<rparr>))) \<or>
         (r = Inr False \<and> b' = b)"
  using assms
  by (auto simp: fall_back_run same_jobs_sheet [OF same_jobs_note] same_jobs_sheet [OF same_jobs_ensure]
      split: option.splits prod.splits)

lemma advance_fallback_measure:
  "advance_fallback reason t s = (Some to, s') \<Longrightarrow>
     length (fallback_chain s') - current_instrument_index s'
       < length (fallback_chain s) - current_instrument_index s"
  by (auto simp: advance_fallback_def has_fallback_available_def push_fallback_record_def Let_def
      split: if_splits)

lemma check_and_fallback_cases:
  assumes "check_and_fallback_unavailable ev j n b = (r, b')"
  shows "(r = Inr True \<and> (\<exists>s to s'. get_sheet_state b j n = Some s \<and>
            advance_fallback ''unavailable'' (ev_wall ev) s = (Some to, s') \<and>
            get_sheet_state b' j n = Some (s'\<lparr>status := PENDING\<rparr>))) \<or>
         (r = Inr False \<and> b' = b)"
  using assms
  by (auto simp: check_and_fallback_unavailable_def with_sheet_def run_bnd
      split: option.splits if_splits dest!: fall_back_sheet)

lemma check_and_fallback_measure:
  "check_and_fallback_unavailable ev j n b = (Inr True, b') \<Longrightarrow>
     fallbacks_left b' j n < fallbacks_left b j n"
  by (auto simp: fallbacks_left_def dest!: check_and_fallback_cases advance_fallback_measure)

function seek_route ::
  "env \<Rightarrow> dispatch_config \<Rightarrow> string \<Rightarrow> int \<Rightarrow> string \<Rightarrow> cycle \<Rightarrow> string option \<times> cycle" where
  "seek_route ev cfg j n inst c =
     (if inst \<notin> set (dc_open_circuit_breakers cfg) \<and> dget (b_instruments (cy_baton c)) inst \<noteq> None
      then (Some inst, c)
      else
        case check_and_fallback_unavailable ev j n (cy_baton c) of
          (Inr True, b') \<Rightarrow>
            let c' = c\<lparr>cy_baton := b'\<rparr>; inst' = or_empty (instrument_name (ready_sheet c' j n)) in
            if inst' \<in> set (dc_rate_limited_instruments cfg)
            then (None, block_rate_limited ev j n inst' c')
            else seek_route ev cfg j n inst' c'
        | (_, b') \<Rightarrow> (None, block_circuit_breaker ev j n inst (c\<lparr>cy_baton := b'\<rparr>)))"
  by pat_completeness auto
termination
  by (relation "measure (\<lambda>(ev, cfg, j, n, inst, c). fallbacks_left (cy_baton c) j n)")
    (auto dest!: check_and_fallback_measure [OF sym])

declare seek_route.simps [simp del]

text \<open>The stagger gate: how long an instrument still has to rest, if it has to.\<close>

definition stagger_delay :: "dispatch_config \<Rightarrow> string \<Rightarrow> int" where
  "stagger_delay cfg j = dget_or (dc_job_stagger_delay_ms cfg) j (dc_stagger_delay_ms cfg)"

definition has_job_stagger :: "dispatch_config \<Rightarrow> string \<Rightarrow> bool" where
  "has_job_stagger cfg j \<longleftrightarrow> dget (dc_job_stagger_delay_ms cfg) j \<noteq> None"

definition last_dispatch :: "dispatch_config \<Rightarrow> baton \<Rightarrow> string \<Rightarrow> string \<Rightarrow> rat" where
  "last_dispatch cfg b j inst =
     (if has_job_stagger cfg j then dget_or (b_job_last_dispatch_at b) (j, inst) 0
      else case get_instrument_state b inst of None \<Rightarrow> 0 | Some i \<Rightarrow> last_dispatch_at i)"

definition stagger_rest :: "env \<Rightarrow> dispatch_config \<Rightarrow> baton \<Rightarrow> string \<Rightarrow> string \<Rightarrow> rat option" where
  "stagger_rest ev cfg b j inst =
     (let delay = stagger_delay cfg j; elapsed = ev_mono ev - last_dispatch cfg b j inst in
      if delay > 0 \<and> elapsed < of_int delay / 1000 then Some (of_int delay / 1000 - elapsed)
      else None)"

definition request_wake :: "string \<Rightarrow> rat \<Rightarrow> int \<Rightarrow> cycle \<Rightarrow> cycle" where
  "request_wake key delay gen c =
     (if (case dget (cy_wakes c) key of None \<Rightarrow> True | Some (d, g) \<Rightarrow> delay < d)
      then c\<lparr>cy_wakes := dset (cy_wakes c) key (delay, gen)\<rparr> else c)"

definition block_stagger ::
  "env \<Rightarrow> dispatch_config \<Rightarrow> string \<Rightarrow> int \<Rightarrow> string \<Rightarrow> int \<Rightarrow> rat \<Rightarrow> cycle \<Rightarrow> cycle" where
  "block_stagger ev cfg j n inst token rest c =
     request_wake (if has_job_stagger cfg j then j else ''__legacy__'') (max 0 rest)
       (if has_job_stagger cfg j then token else 0)
       (record_dispatch_block ev j n ''stagger'' (labelled ''stagger'' inst)
         [(''instrument'', JStr inst), (''stagger_delay_ms'', JInt (stagger_delay cfg j)),
          (''remaining_ms'', JInt (max 0 \<lfloor>rest * 1000\<rfloor>))] c)"

text \<open>The dispatch proper: the callback, and the bookkeeping when it accepts.\<close>

definition stamp_dispatch :: "env \<Rightarrow> dispatch_config \<Rightarrow> string \<Rightarrow> string \<Rightarrow> baton \<Rightarrow> baton" where
  "stamp_dispatch ev cfg j inst b =
     (if has_job_stagger cfg j
      then b\<lparr>b_job_last_dispatch_at := dset (b_job_last_dispatch_at b) (j, inst) (ev_mono ev)\<rparr>
      else upd_instrument inst (\<lambda>i. i\<lparr>last_dispatch_at := ev_mono ev\<rparr>) b)"

definition accept_dispatch ::
  "env \<Rightarrow> dispatch_config \<Rightarrow> string \<Rightarrow> int \<Rightarrow> string \<Rightarrow> string \<Rightarrow> cycle \<Rightarrow> cycle" where
  "accept_dispatch ev cfg j n inst key c =
     c\<lparr>cy_baton := stamp_dispatch ev cfg j inst
          (handle_sheet_dispatched j n (ev_wall ev) (upd_sheet j n clear_dispatch_block (cy_baton c))),
       cy_result := record_dispatch j n (cy_result c),
       cy_global := cy_global c + 1,
       cy_jobs := count_key j (cy_jobs c),
       cy_models := count_key key (cy_models c)\<rparr>"

definition recheck_global :: "dispatch_config \<Rightarrow> cycle \<Rightarrow> control \<times> cycle" where
  "recheck_global cfg c =
     (if cy_global c \<ge> dc_max_concurrent_sheets cfg then Return else Continue, c)"

definition invoke :: "env \<Rightarrow> dispatch_config \<Rightarrow> callback \<Rightarrow> string \<Rightarrow> int \<Rightarrow> int \<Rightarrow> string \<Rightarrow> string
    \<Rightarrow> cycle \<Rightarrow> control \<times> cycle" where
  "invoke ev cfg cb j token n inst key c =
     (let k = sheet_num (ready_sheet c j n);
          (verdict, b') = cb j k (cy_baton c);
          c' = c\<lparr>cy_baton := b'\<rparr>
      in if \<not> is_job_registration_current b' j token then (Break, c')
         else
           case verdict of
             Raised \<Rightarrow> recheck_global cfg c'
           | Returned (Some False) \<Rightarrow> (Continue, c')
           | Returned _ \<Rightarrow>
               if k \<noteq> n \<or> get_sheet_state b' j n = None then (Continue, c')
               else recheck_global cfg (accept_dispatch ev cfg j n inst key c'))"

definition route_and_invoke :: "env \<Rightarrow> dispatch_config \<Rightarrow> callback \<Rightarrow> string \<Rightarrow> int \<Rightarrow> int \<Rightarrow> cycle
    \<Rightarrow> control \<times> cycle" where
  "route_and_invoke ev cfg cb j token n c =
     (let s = ready_sheet c j n; inst = or_empty (instrument_name s); key = route_key inst (model s);
          l = route_limit cfg inst key
      in if at_limit l (dget_or (cy_models c) key 0)
         then (Continue, block_model ev j n inst key (the l) c)
         else if inst \<in> set (dc_rate_limited_instruments cfg)
         then (Continue, block_rate_limited ev j n inst c)
         else
           case seek_route ev cfg j n inst c of
             (None, c') \<Rightarrow> (Continue, c')
           | (Some inst', c') \<Rightarrow>
               let key' = (if inst' \<noteq> inst then route_key inst' (model (ready_sheet c' j n)) else key);
                   l' = (if inst' \<noteq> inst then route_limit cfg inst' key' else None)
               in if at_limit l' (dget_or (cy_models c') key' 0)
                  then (Continue, block_model ev j n inst' key' (the l') c')
                  else
                    case stagger_rest ev cfg (cy_baton c') j inst' of
                      Some rest \<Rightarrow> (Continue, block_stagger ev cfg j n inst' token rest c')
                    | None \<Rightarrow> invoke ev cfg cb j token n inst' key' c')"

definition dispatch_one :: "env \<Rightarrow> dispatch_config \<Rightarrow> executions \<Rightarrow> callback \<Rightarrow> string \<Rightarrow> int \<Rightarrow> int
    \<Rightarrow> cycle \<Rightarrow> control \<times> cycle" where
  "dispatch_one ev cfg occ cb j token n c =
     (case get_sheet_state (cy_baton c) j n of
        None \<Rightarrow> (Continue, c)
      | Some s \<Rightarrow>
          if dget occ (j, sheet_num s) \<noteq> None
          then (Continue, record_dispatch_block ev j n ''active_execution'' ''active_execution'' [] c)
          else if cy_global c \<ge> dc_max_concurrent_sheets cfg
          then (Return, record_dispatch_block ev j n ''global_concurrency'' ''global_concurrency''
                  [(''global_running'', JInt (cy_global c)),
                   (''limit'', JInt (dc_max_concurrent_sheets cfg))] c)
          else if at_limit (dget (dc_job_max_concurrent cfg) j) (dget_or (cy_jobs c) j 0)
          then (Continue, record_dispatch_block ev j n ''job_concurrency'' (labelled ''job_concurrency'' j)
                  [(''job_running'', JInt (dget_or (cy_jobs c) j 0)),
                   (''limit'', JInt (the (dget (dc_job_max_concurrent cfg) j)))] c)
          else
            route_and_invoke ev cfg cb j token n
              (if rebalances s
               then c\<lparr>cy_baton := upd_sheet j n
                        (balance_sheet cfg (cy_models c) (ev_wall ev)) (cy_baton c)\<rparr>
               else c))"

subsection \<open>The cycle\<close>

text \<open>The loop over a job's ready sheets says whether the whole cycle has to stop.\<close>

fun dispatch_sheets :: "env \<Rightarrow> dispatch_config \<Rightarrow> executions \<Rightarrow> callback \<Rightarrow> string \<Rightarrow> int \<Rightarrow> int list
    \<Rightarrow> cycle \<Rightarrow> bool \<times> cycle" where
  "dispatch_sheets ev cfg occ cb j token [] c = (False, c)"
| "dispatch_sheets ev cfg occ cb j token (n # ns) c =
     (case dispatch_one ev cfg occ cb j token n c of
        (Continue, c') \<Rightarrow> dispatch_sheets ev cfg occ cb j token ns c'
      | (Break, c') \<Rightarrow> (False, c')
      | (Return, c') \<Rightarrow> (True, c'))"

definition dispatch_job :: "env \<Rightarrow> dispatch_config \<Rightarrow> executions \<Rightarrow> callback \<Rightarrow> string \<Rightarrow> cycle
    \<Rightarrow> bool \<times> cycle" where
  "dispatch_job ev cfg occ cb j c =
     (case get_job (cy_baton c) j of
        None \<Rightarrow> (False, c)
      | Some jb \<Rightarrow>
          if j_paused jb then (False, c)
          else dispatch_sheets ev cfg occ cb j (j_registration_token jb)
                 (map fst (get_ready_sheets (cy_baton c) j)) c)"

fun dispatch_jobs :: "env \<Rightarrow> dispatch_config \<Rightarrow> executions \<Rightarrow> callback \<Rightarrow> string list \<Rightarrow> cycle
    \<Rightarrow> bool \<times> cycle" where
  "dispatch_jobs ev cfg occ cb [] c = (False, c)"
| "dispatch_jobs ev cfg occ cb (j # js) c =
     (case dispatch_job ev cfg occ cb j c of
        (True, c') \<Rightarrow> (True, c')
      | (False, c') \<Rightarrow> dispatch_jobs ev cfg occ cb js c')"

text \<open>One wake-up per job held back by its stagger gate, unless one is already armed.\<close>

definition arm_wake :: "env \<Rightarrow> string \<times> rat \<times> int \<Rightarrow> baton \<Rightarrow> baton" where
  "arm_wake ev w b =
     (case w of (key, delay, gen) \<Rightarrow>
        let target = (if key = ''__legacy__'' then None else Some key) in
        if dget (b_stagger_wake_handles b) key \<noteq> None then b
        else if target \<noteq> None \<and> \<not> is_job_registration_current b key gen then b
        else case timer_schedule (ev_mono ev) delay (DispatchRetry target (Some gen)) b of
               (None, b') \<Rightarrow> b
             | (Some h, b') \<Rightarrow> b'\<lparr>b_stagger_wake_handles := dset (b_stagger_wake_handles b') key h\<rparr>)"

definition start_cycle :: "dispatch_config \<Rightarrow> baton \<Rightarrow> cycle" where
  "start_cycle cfg b =
     (let occ = occupied_executions b cfg in
      \<lparr>cy_baton = b, cy_result = new_result, cy_global = int (length occ),
       cy_jobs = count_occupied_per_job occ, cy_models = count_occupied_per_model occ,
       cy_wakes = []\<rparr>)"

definition run_cycle :: "env \<Rightarrow> dispatch_config \<Rightarrow> callback \<Rightarrow> baton \<Rightarrow> bool \<times> cycle" where
  "run_cycle ev cfg cb b =
     dispatch_jobs ev cfg (occupied_executions b cfg) cb (dkeys (items (b_jobs b))) (start_cycle cfg b)"

definition dispatch_ready :: "env \<Rightarrow> dispatch_config \<Rightarrow> callback \<Rightarrow> baton \<Rightarrow> dispatch_result \<times> baton" where
  "dispatch_ready ev cfg cb b =
     (if b_shutting_down b then (new_result, b)
      else
        case run_cycle ev cfg cb b of
          (True, c) \<Rightarrow> (cy_result c, cy_baton c)
        | (False, c) \<Rightarrow> (cy_result c, fold (arm_wake ev) (items (cy_wakes c)) (cy_baton c)))"

subsection \<open>A running conductor\<close>

text \<open>
  Job \<open>a\<close> has a ready sheet whose instrument is behind an open breaker and one that runs;
  job \<open>b\<close>, staggered by half a second, has two ready sheets on one instrument.
\<close>

definition start_task :: callback where "start_task j n b = (Returned (Some True), b)"

definition on_instrument :: "string \<Rightarrow> string list \<Rightarrow> sheet \<Rightarrow> sheet" where
  "on_instrument inst chain s = s\<lparr>instrument_name := Some inst, fallback_chain := chain\<rparr>"

definition office :: baton where
  "office =
     upd_instrument ''claude'' (\<lambda>i. i\<lparr>circuit_breaker := OPEN\<rparr>)
       (snd (register_job plain_env ''b''
          [(1, on_instrument ''ollama'' [] (work_sheet 1 PENDING)),
           (2, on_instrument ''ollama'' [] (work_sheet 2 PENDING))] []
          (default_options\<lparr>jo_event_generation := Some 2, jo_stagger_delay_ms := 500\<rparr>)
          (snd (register_job plain_env ''a''
             [(1, on_instrument ''claude'' [''ollama''] (work_sheet 1 PENDING)),
              (3, work_sheet 3 IN_PROGRESS)] [] (default_options\<lparr>jo_event_generation := Some 1, jo_max_concurrent := Some 2\<rparr>)
             (new_baton (Some new_wheel) [] False (\<lambda>a b. a))))))"

definition office_config :: dispatch_config where
  "office_config = build_dispatch_config 10 0 None office"

definition office_run :: "dispatch_result \<times> baton" where
  "office_run = dispatch_ready plain_env office_config start_task office"

end
