(* ===== verification/Dispatch_Cycle.thy ===== *)
theory Dispatch_Cycle
  imports Dispatch
begin

section \<open>Dispatch cycles\<close>

text \<open>
  What a dispatch cycle guarantees: the plan of one sheet, which no callback can change; the
  contract \<open>cycle_contract\<close> for any callback, with the ceilings as its instance; the contract
  \<open>ready_contract\<close> for callbacks that write nothing but the report fields of the sheet they
  are called for, with the fate of every sheet as its instance. That the conductor's own
  callback is one of these is shown in \<open>Dispatch_Callback\<close>.
\<close>

subsection \<open>What a cycle is made of\<close>

text \<open>
  Every cycle is a sequence of the mutations below. A relation that each of them establishes
  holds between the ends of the cycle; the callback and the acceptance may use what the
  checks before them have established.
\<close>

definition callable_sheet :: "env \<Rightarrow> dispatch_config \<Rightarrow> executions \<Rightarrow> string \<Rightarrow> int \<Rightarrow> string \<Rightarrow> baton \<Rightarrow> bool" where
  "callable_sheet ev cfg occ j k inst b \<longleftrightarrow>
     dget occ (j, k) = None \<and>
     inst \<notin> set (dc_rate_limited_instruments cfg) \<and> inst \<notin> set (dc_open_circuit_breakers cfg) \<and>
     dget (b_instruments b) inst \<noteq> None \<and> stagger_rest ev cfg b j inst = None"

definition slot_free :: "dispatch_config \<Rightarrow> string \<Rightarrow> string \<Rightarrow> string \<Rightarrow> cycle \<Rightarrow> bool" where
  "slot_free cfg j inst key c \<longleftrightarrow>
     cy_global c < dc_max_concurrent_sheets cfg \<and>
     \<not> at_limit (dget (dc_job_max_concurrent cfg) j) (dget_or (cy_jobs c) j 0) \<and>
     \<not> at_limit (route_limit cfg inst key) (dget_or (cy_models c) key 0)"

definition with_baton :: "baton \<Rightarrow> cycle \<Rightarrow> cycle" where "with_baton b c = c\<lparr>cy_baton := b\<rparr>"

lemma with_baton_simps [simp]:
  "cy_baton (with_baton b c) = b" "cy_result (with_baton b c) = cy_result c"
  "cy_global (with_baton b c) = cy_global c" "cy_jobs (with_baton b c) = cy_jobs c"
  "cy_models (with_baton b c) = cy_models c" "cy_wakes (with_baton b c) = cy_wakes c"
  by (simp_all add: with_baton_def)

lemma ready_sheet_Some [simp]: "get_sheet_state (cy_baton c) j n = Some s \<Longrightarrow> ready_sheet c j n = s"
  by (simp add: ready_sheet_def)

text \<open>The parts of a cycle that only an acceptance moves.\<close>

definition same_counts :: "cycle \<Rightarrow> cycle \<Rightarrow> bool" where
  "same_counts c c' \<longleftrightarrow>
     cy_global c' = cy_global c \<and> cy_jobs c' = cy_jobs c \<and> cy_models c' = cy_models c \<and>
     dr_dispatched_count (cy_result c') = dr_dispatched_count (cy_result c) \<and>
     dr_dispatched_sheets (cy_result c') = dr_dispatched_sheets (cy_result c)"

interpretation same_counts: evolution same_counts
  by unfold_locales (simp_all add: same_counts_def)

lemma block_global [simp]: "cy_global (record_dispatch_block ev j n reason key details c) = cy_global c"
  by (simp add: record_dispatch_block_def split: prod.splits)

lemma same_counts_block [simp]: "same_counts c (record_dispatch_block ev j n reason key details c)"
  by (simp add: same_counts_def record_dispatch_block_def record_skip_def Let_def split: prod.splits)

lemma same_counts_baton [simp]: "same_counts c (with_baton b c)"
  by (simp add: same_counts_def)

lemma same_counts_wake [simp]: "same_counts c (request_wake key delay gen c)"
  by (simp add: same_counts_def request_wake_def)

lemma block_sheet:
  "get_sheet_state (cy_baton c) j n = Some s \<Longrightarrow>
     get_sheet_state (cy_baton (record_dispatch_block ev j n reason key details c)) k m =
       (if k = j \<and> m = n then Some (snd (mark_dispatch_blocked reason details (ev_wall ev) s))
        else get_sheet_state (cy_baton c) k m)"
  by (simp add: record_dispatch_block_def split: prod.splits)

lemma block_instruments [simp]:
  "b_instruments (cy_baton (record_dispatch_block ev j n reason key details c)) = b_instruments (cy_baton c)"
  by (simp add: record_dispatch_block_def upd_sheet_def upd_job_def split: prod.splits)

lemma mark_blocked_keeps [simp]:
  "sheet_num (snd (mark_dispatch_blocked reason details t s)) = sheet_num s"
  "status (snd (mark_dispatch_blocked reason details t s)) = status s"
  "dispatch_blocked_reason (snd (mark_dispatch_blocked reason details t s)) = Some reason"
  "instrument_name (snd (mark_dispatch_blocked reason details t s)) = instrument_name s"
  "model (snd (mark_dispatch_blocked reason details t s)) = model s"
  "fallback_chain (snd (mark_dispatch_blocked reason details t s)) = fallback_chain s"
  by (simp_all add: mark_dispatch_blocked_def)

lemma advance_fallback_keeps:
  "advance_fallback reason t s = (to, s') \<Longrightarrow> sheet_num s' = sheet_num s"
  by (auto simp: advance_fallback_def push_fallback_record_def Let_def split: if_splits)

text \<open>Induction along the walk down the chain, and where it ends.\<close>

lemma seek_route_rule [consumes 1, case_names here stuck limited further]:
  assumes "seek_route ev cfg j n inst c = (r, c')"
    and here: "\<And>inst c. inst \<notin> set (dc_open_circuit_breakers cfg) \<Longrightarrow>
      dget (b_instruments (cy_baton c)) inst \<noteq> None \<Longrightarrow> P inst c (Some inst) c"
    and stuck: "\<And>inst c. inst \<in> set (dc_open_circuit_breakers cfg) \<or> dget (b_instruments (cy_baton c)) inst = None \<Longrightarrow>
      P inst c None (block_circuit_breaker ev j n inst c)"
    and limited: "\<And>inst c b' inst'. inst \<in> set (dc_open_circuit_breakers cfg) \<or> dget (b_instruments (cy_baton c)) inst = None \<Longrightarrow>
      check_and_fallback_unavailable ev j n (cy_baton c) = (Inr True, b') \<Longrightarrow>
      inst' = or_empty (instrument_name (ready_sheet (with_baton b' c) j n)) \<Longrightarrow>
      inst' \<in> set (dc_rate_limited_instruments cfg) \<Longrightarrow>
      P inst c None (block_rate_limited ev j n inst' (with_baton b' c))"
    and further: "\<And>inst c b' inst' r c'. inst \<in> set (dc_open_circuit_breakers cfg) \<or> dget (b_instruments (cy_baton c)) inst = None \<Longrightarrow>
      check_and_fallback_unavailable ev j n (cy_baton c) = (Inr True, b') \<Longrightarrow>
      inst' = or_empty (instrument_name (ready_sheet (with_baton b' c) j n)) \<Longrightarrow>
      inst' \<notin> set (dc_rate_limited_instruments cfg) \<Longrightarrow>
      P inst' (with_baton b' c) r c' \<Longrightarrow> P inst c r c'"
  shows "P inst c r c'"
  using assms(1)
proof (induction "fallbacks_left (cy_baton c) j n" arbitrary: inst c rule: less_induct)
  case less
  obtain q b' where chk: "check_and_fallback_unavailable ev j n (cy_baton c) = (q, b')"
    by (metis surj_pair)
  note eq = less.prems [unfolded seek_route.simps [of ev cfg j n inst c] chk Let_def with_baton_def [symmetric]]
  show ?case
  proof (cases "inst \<notin> set (dc_open_circuit_breakers cfg) \<and> dget (b_instruments (cy_baton c)) inst \<noteq> None")
    case True
    with eq here show ?thesis by auto
  next
    case False
    consider "q = Inr True" | "q = Inr False" "b' = cy_baton c" using check_and_fallback_cases [OF chk] by blast
    then show ?thesis
    proof cases
      case 1
      let ?inst = "or_empty (instrument_name (ready_sheet (with_baton b' c) j n))"
      from chk 1 have less: "fallbacks_left (cy_baton (with_baton b' c)) j n < fallbacks_left (cy_baton c) j n"
        by (simp add: check_and_fallback_measure)
      show ?thesis
      proof (cases "?inst \<in> set (dc_rate_limited_instruments cfg)")
        case True
        with eq False 1 limited [of inst c b' ?inst] chk show ?thesis by auto
      next
        case nr: False
        with eq False 1 have "seek_route ev cfg j n ?inst (with_baton b' c) = (r, c')" by auto
        from further [OF _ _ refl nr less.hyps [OF less this]] False chk 1 show ?thesis by blast
      qed
    next
      case 2
      have "c\<lparr>cy_baton := cy_baton c\<rparr> = c" by simp
      with 2 eq False stuck [of inst c] show ?thesis by (auto simp: with_baton_def)
    qed
  qed
qed

lemma check_and_fallback_sheet:
  assumes "check_and_fallback_unavailable ev j n b = (Inr True, b')"
  shows "\<exists>s s'. get_sheet_state b j n = Some s \<and> get_sheet_state b' j n = Some s' \<and>
     sheet_num s' = sheet_num s \<and> status s' = PENDING"
  using check_and_fallback_cases [OF assms] by (auto dest: advance_fallback_keeps)

lemma seek_route_found:
  assumes "seek_route ev cfg j n inst c = (r, c')" and "get_sheet_state (cy_baton c) j n = Some s"
    and "inst \<notin> set (dc_rate_limited_instruments cfg)"
  shows "same_counts c c' \<and>
     (\<exists>s'. get_sheet_state (cy_baton c') j n = Some s' \<and> sheet_num s' = sheet_num s) \<and>
     (\<forall>inst'. r = Some inst' \<longrightarrow> inst' \<notin> set (dc_open_circuit_breakers cfg) \<and>
        dget (b_instruments (cy_baton c')) inst' \<noteq> None \<and> inst' \<notin> set (dc_rate_limited_instruments cfg))"
  using assms
proof (induction arbitrary: s rule: seek_route_rule)
  case (here inst c)
  then show ?case by (simp add: same_counts.evo_refl)
next
  case (stuck inst c)
  then show ?case by (simp add: block_circuit_breaker_def block_sheet)
next
  case (limited inst c b' inst')
  from check_and_fallback_sheet [OF limited(2)] limited.prems(1) show ?case
    by (auto simp: block_rate_limited_def block_sheet
        intro: same_counts.evo_trans [OF same_counts_baton same_counts_block])
next
  case (further inst c b' inst' r c')
  from check_and_fallback_sheet [OF further(2)] further.prems(1) obtain s' where
    s': "get_sheet_state b' j n = Some s'" "sheet_num s' = sheet_num s" by auto
  with further.IH [of s'] further(4) show ?case
    by (auto intro: same_counts.evo_trans [OF same_counts_baton])
qed

text \<open>
  What the checks before the callback do to a cycle: note why a sheet waits, rotate its
  chain, fall back, and ask for a wake-up.
\<close>

definition wake_key :: "dispatch_config \<Rightarrow> string \<Rightarrow> string" where
  "wake_key cfg j = (if has_job_stagger cfg j then j else ''__legacy__'')"

definition wake_gen :: "dispatch_config \<Rightarrow> string \<Rightarrow> int \<Rightarrow> int" where
  "wake_gen cfg j token = (if has_job_stagger cfg j then token else 0)"

inductive prep :: "env \<Rightarrow> dispatch_config \<Rightarrow> string \<Rightarrow> int \<Rightarrow> int \<Rightarrow> cycle \<Rightarrow> cycle \<Rightarrow> bool"
  for ev cfg j token n where
  prep_refl: "prep ev cfg j token n c c"
| prep_block: "prep ev cfg j token n c c1 \<Longrightarrow> get_sheet_state (cy_baton c1) j n \<noteq> None \<Longrightarrow>
    prep ev cfg j token n c (record_dispatch_block ev j n reason key details c1)"
| prep_balance: "prep ev cfg j token n c c1 \<Longrightarrow> get_sheet_state (cy_baton c1) j n = Some s \<Longrightarrow> rebalances s \<Longrightarrow>
    prep ev cfg j token n c
      (with_baton (upd_sheet j n (balance_sheet cfg (cy_models c1) (ev_wall ev)) (cy_baton c1)) c1)"
| prep_fallback: "prep ev cfg j token n c c1 \<Longrightarrow>
    check_and_fallback_unavailable ev j n (cy_baton c1) = (Inr True, b') \<Longrightarrow>
    prep ev cfg j token n c (with_baton b' c1)"
| prep_wake: "prep ev cfg j token n c c1 \<Longrightarrow> prep ev cfg j token n c (request_wake (wake_key cfg j) delay (wake_gen cfg j token) c1)"

lemma prep_trans: "prep ev cfg j token n c1 c2 \<Longrightarrow> prep ev cfg j token n c c1 \<Longrightarrow> prep ev cfg j token n c c2"
  by (induction rule: prep.induct) (auto intro: prep.intros)

lemma prep_block1: "get_sheet_state (cy_baton c) j n \<noteq> None \<Longrightarrow>
    prep ev cfg j token n c (record_dispatch_block ev j n reason key details c)"
  by (intro prep_block prep_refl)

lemma balance_sheet_num [simp]: "sheet_num (balance_sheet cfg load t s) = sheet_num s"
  by (simp add: balance_sheet_def rotate_chain_def Let_def split: prod.splits)

lemma prep_keeps:
  "prep ev cfg j token n c c' \<Longrightarrow> get_sheet_state (cy_baton c) j n = Some s \<Longrightarrow>
     same_counts c c' \<and> (\<exists>s'. get_sheet_state (cy_baton c') j n = Some s' \<and> sheet_num s' = sheet_num s)"
proof (induction rule: prep.induct)
  case (prep_fallback c c1 b')
  from check_and_fallback_sheet [OF prep_fallback.hyps(2)] prep_fallback show ?case
    by (auto intro: same_counts.evo_trans [OF _ same_counts_baton])
next
  case prep_refl
  then show ?case by (simp add: same_counts.evo_refl)
next
  case prep_block
  then show ?case by (auto simp: block_sheet intro: same_counts.evo_trans [OF _ same_counts_block])
next
  case prep_balance
  then show ?case by (auto intro: same_counts.evo_trans [OF _ same_counts_baton])
next
  case (prep_wake c c1 delay)
  have "cy_baton (request_wake key delay gen c1) = cy_baton c1" for key gen by (simp add: request_wake_def)
  with prep_wake show ?case by (auto intro: same_counts.evo_trans [OF _ same_counts_wake])
qed

lemma seek_prep:
  "seek_route ev cfg j n inst c = (r, c') \<Longrightarrow> get_sheet_state (cy_baton c) j n \<noteq> None \<Longrightarrow>
     prep ev cfg j token n c c'"
proof (induction rule: seek_route_rule)
  case (here inst c)
  show ?case by (rule prep_refl)
next
  case (stuck inst c)
  then show ?case by (simp add: block_circuit_breaker_def prep_block1)
next
  case (limited inst c b' inst')
  from prep_fallback [OF prep_refl limited(2)] check_and_fallback_sheet [OF limited(2)] show ?case
    by (auto simp: block_rate_limited_def intro: prep_block)
next
  case (further inst c b' inst' r c')
  from prep_fallback [OF prep_refl further(2)] check_and_fallback_sheet [OF further(2)] further.IH
  show ?case by (auto intro: prep_trans)
qed

text \<open>
  The plan of one sheet, the same for every callback: it is held back, or the callback is
  invoked when every check has passed.
\<close>

definition waiting :: "dispatch_config \<Rightarrow> string \<Rightarrow> int \<Rightarrow> cycle \<Rightarrow> bool" where
  "waiting cfg j n c \<longleftrightarrow>
     (\<exists>s reason. get_sheet_state (cy_baton c) j n = Some s \<and> dispatch_blocked_reason s = Some reason \<and>
        (reason = ''stagger'' \<longrightarrow> dget (cy_wakes c) (wake_key cfg j) \<noteq> None))"

lemma waiting_block: "get_sheet_state (cy_baton c) j n \<noteq> None \<Longrightarrow> reason \<noteq> ''stagger'' \<Longrightarrow>
    waiting cfg j n (record_dispatch_block ev j n reason key details c)"
  by (auto simp: waiting_def block_sheet)

lemma waiting_stagger: "get_sheet_state (cy_baton c) j n \<noteq> None \<Longrightarrow>
    waiting cfg j n (block_stagger ev cfg j n inst token rest c)"
proof -
  assume "get_sheet_state (cy_baton c) j n \<noteq> None"
  moreover have "cy_baton (request_wake key delay gen c) = cy_baton c"
    "dget (cy_wakes (request_wake key delay gen c)) key \<noteq> None" for key delay gen c
    by (simp_all add: request_wake_def split: option.splits)
  ultimately show ?thesis by (auto simp: waiting_def block_stagger_def block_sheet wake_key_def)
qed

lemma seek_none_waits:
  "seek_route ev cfg j n inst c = (r, c') \<Longrightarrow> r = None \<Longrightarrow> get_sheet_state (cy_baton c) j n \<noteq> None \<Longrightarrow>
     waiting cfg j n c'"
proof (induction rule: seek_route_rule)
  case (stuck inst c)
  then show ?case by (simp add: block_circuit_breaker_def waiting_block)
next
  case (limited inst c b' inst')
  with check_and_fallback_sheet [OF limited(2)] show ?case
    by (auto simp: block_rate_limited_def intro: waiting_block)
next
  case (further inst c b' inst' r c')
  with check_and_fallback_sheet [OF further(2)] show ?case by auto
qed simp

text \<open>The route that the walk found is the sheet's own.\<close>

definition routes_registered :: "baton \<Rightarrow> sheet \<Rightarrow> bool" where
  "routes_registered b s \<longleftrightarrow>
     (\<forall>i \<in> set (or_empty (instrument_name s) # fallback_chain s). dget (b_instruments b) i \<noteq> None)"

lemma seek_name:
  "seek_route ev cfg j n inst c = (r, c') \<Longrightarrow> get_sheet_state (cy_baton c) j n = Some s \<Longrightarrow>
     inst = or_empty (instrument_name s) \<Longrightarrow> r = Some i \<Longrightarrow>
     i \<notin> set (dc_open_circuit_breakers cfg) \<and>
     (\<exists>s'. get_sheet_state (cy_baton c') j n = Some s' \<and> i = or_empty (instrument_name s'))"
proof (induction arbitrary: s rule: seek_route_rule)
  case (further inst c b' inst' r c')
  with check_and_fallback_sheet [OF further(2)] show ?case by auto
qed auto

lemma seek_own_route:
  assumes seek: "seek_route ev cfg j n (or_empty (instrument_name s)) c = (Some i, c')"
    and s: "get_sheet_state (cy_baton c) j n = Some s" and s': "get_sheet_state (cy_baton c') j n = Some s'"
  shows "i = or_empty (instrument_name s')"
    and "dget (b_instruments (cy_baton c)) (or_empty (instrument_name s)) \<noteq> None \<Longrightarrow>
      i = or_empty (instrument_name s) \<Longrightarrow> s' = s"
proof -
  note end_of = seek_name [OF seek s refl refl]
  with s' show "i = or_empty (instrument_name s')" by auto
  assume "dget (b_instruments (cy_baton c)) (or_empty (instrument_name s)) \<noteq> None" "i = or_empty (instrument_name s)"
  with end_of have "seek_route ev cfg j n (or_empty (instrument_name s)) c = (Some i, c)"
    by (subst seek_route.simps) simp
  with seek s s' show "s' = s" by simp
qed

definition held_back :: "env \<Rightarrow> dispatch_config \<Rightarrow> executions \<Rightarrow> string \<Rightarrow> int \<Rightarrow> int \<Rightarrow> cycle
    \<Rightarrow> (callback \<Rightarrow> control \<times> cycle) \<Rightarrow> bool" where
  "held_back ev cfg occ j token n c act \<longleftrightarrow>
     (\<exists>ctl c'. (\<forall>cb. act cb = (ctl, c')) \<and> prep ev cfg j token n c c' \<and> ctl \<noteq> Break \<and>
        (ctl = Return \<longrightarrow> dc_max_concurrent_sheets cfg \<le> cy_global c') \<and>
        (get_sheet_state (cy_baton c) j n \<noteq> None \<longrightarrow> waiting cfg j n c'))"

lemma heldI: "(\<And>cb. act cb = (ctl, c')) \<Longrightarrow> prep ev cfg j token n c c' \<Longrightarrow> ctl \<noteq> Break \<Longrightarrow>
    (ctl = Return \<Longrightarrow> dc_max_concurrent_sheets cfg \<le> cy_global c') \<Longrightarrow>
    (get_sheet_state (cy_baton c) j n \<noteq> None \<Longrightarrow> waiting cfg j n c') \<Longrightarrow> held_back ev cfg occ j token n c act"
  by (auto simp: held_back_def)

definition invoked :: "env \<Rightarrow> dispatch_config \<Rightarrow> executions \<Rightarrow> string \<Rightarrow> int \<Rightarrow> int \<Rightarrow> cycle
    \<Rightarrow> (callback \<Rightarrow> control \<times> cycle) \<Rightarrow> bool" where
  "invoked ev cfg occ j token n c act \<longleftrightarrow>
     (\<exists>inst key c' s. (\<forall>cb. act cb = invoke ev cfg cb j token n inst key c') \<and> prep ev cfg j token n c c' \<and>
        get_sheet_state (cy_baton c') j n = Some s \<and> inst = or_empty (instrument_name s) \<and>
        ((\<exists>s0. get_sheet_state (cy_baton c) j n = Some s0 \<and> routes_registered (cy_baton c) s0) \<longrightarrow>
           key = route_key inst (model s)) \<and>
        callable_sheet ev cfg occ j (sheet_num s) inst (cy_baton c') \<and> slot_free cfg j inst key c')"

lemma invokedI:
  "(\<And>cb. act cb = invoke ev cfg cb j token n inst key c') \<Longrightarrow> prep ev cfg j token n c c' \<Longrightarrow>
     get_sheet_state (cy_baton c') j n = Some s \<Longrightarrow> inst = or_empty (instrument_name s) \<Longrightarrow>
     (\<And>s0. get_sheet_state (cy_baton c) j n = Some s0 \<Longrightarrow> routes_registered (cy_baton c) s0 \<Longrightarrow>
        key = route_key inst (model s)) \<Longrightarrow>
     callable_sheet ev cfg occ j (sheet_num s) inst (cy_baton c') \<Longrightarrow> slot_free cfg j inst key c' \<Longrightarrow>
     invoked ev cfg occ j token n c act"
  unfolding invoked_def by blast

lemma held_after: "held_back ev cfg occ j token n c1 act \<Longrightarrow> prep ev cfg j token n c c1 \<Longrightarrow> held_back ev cfg occ j token n c act"
  unfolding held_back_def using prep_keeps by (blast intro: prep_trans)

lemma invoked_after:
  assumes "invoked ev cfg occ j token n c1 act" and prep: "prep ev cfg j token n c c1"
    and reg: "\<And>s. get_sheet_state (cy_baton c) j n = Some s \<Longrightarrow> routes_registered (cy_baton c) s \<Longrightarrow>
        \<exists>s'. get_sheet_state (cy_baton c1) j n = Some s' \<and> routes_registered (cy_baton c1) s'"
  shows "invoked ev cfg occ j token n c act"
proof -
  from assms(1) obtain inst key c' s where
    inv: "\<And>cb. act cb = invoke ev cfg cb j token n inst key c'" "prep ev cfg j token n c1 c'"
      "get_sheet_state (cy_baton c') j n = Some s" "inst = or_empty (instrument_name s)"
      "\<And>s0. get_sheet_state (cy_baton c1) j n = Some s0 \<Longrightarrow> routes_registered (cy_baton c1) s0 \<Longrightarrow>
         key = route_key inst (model s)"
      "callable_sheet ev cfg occ j (sheet_num s) inst (cy_baton c')" "slot_free cfg j inst key c'"
    unfolding invoked_def by blast
  show ?thesis
    by (rule invokedI [OF inv(1) prep_trans [OF inv(2) prep] inv(3,4) _ inv(6,7)])
      (use reg inv(5) in blast)
qed

lemma first_min_in: "first_min f x xs \<in> set (x # xs)"
proof (induction xs arbitrary: x)
  case (Cons y ys)
  from Cons [of "if f y < f x then y else x"] show ?case by (auto split: if_splits)
qed simp

lemma best_entry_bound: "chain \<noteq> [] \<Longrightarrow> best_entry cfg load chain < length chain"
proof -
  assume ne: "chain \<noteq> []"
  show ?thesis
  proof (cases "filter (usable_entry cfg) (enumerate 0 chain)")
    case Nil
    with ne show ?thesis by (simp add: best_entry_def)
  next
    case (Cons t ts)
    define m where "m = first_min (\<lambda>(i, inst, c). load_ratio inst (cfg_model c) cfg load) t ts"
    have "m \<in> set (t # ts)" unfolding m_def by (rule first_min_in)
    then have "m \<in> set (enumerate 0 chain)" unfolding Cons [symmetric] by simp
    with Cons show ?thesis by (auto simp: best_entry_def m_def [symmetric] in_set_enumerate_eq)
  qed
qed

lemma authored_names: "fst ` set (authored_chain s) = set (or_empty (instrument_name s) # fallback_chain s)"
proof -
  have "map fst (authored_chain s) = or_empty (instrument_name s) # fallback_chain s"
    by (simp add: authored_chain_def primary_entry_def comp_def map_nth)
  from arg_cong [OF this, of set] show ?thesis by simp
qed

lemma balance_names:
  "set (or_empty (instrument_name (balance_sheet cfg load t s)) # fallback_chain (balance_sheet cfg load t s)) =
     set (or_empty (instrument_name s) # fallback_chain s)"
proof -
  let ?chain = "authored_chain s"
  define i where "i = best_entry cfg load ?chain"
  have i: "i < length ?chain"
    unfolding i_def by (rule best_entry_bound) (simp add: authored_chain_def)
  have "set ?chain = set (?chain ! i # take i ?chain @ drop (Suc i) ?chain)"
    by (subst id_take_nth_drop [OF i]) auto
  then have "fst ` set ?chain = set (map fst (?chain ! i # take i ?chain @ drop (Suc i) ?chain))"
    by (simp add: image_Un)
  then show ?thesis
    unfolding balance_sheet_def i_def [symmetric] Let_def authored_names
    by (simp add: rotate_chain_def Let_def split: prod.splits)
qed

lemma balance_registered:
  "routes_registered b s \<Longrightarrow> routes_registered (upd_sheet j n f b) (balance_sheet cfg load t s)"
  unfolding routes_registered_def balance_names by (simp add: upd_sheet_def upd_job_def)

lemma route_plan:
  assumes s: "get_sheet_state (cy_baton c) j n = Some s" and occ: "dget occ (j, sheet_num s) = None"
    and free: "cy_global c < dc_max_concurrent_sheets cfg"
      "\<not> at_limit (dget (dc_job_max_concurrent cfg) j) (dget_or (cy_jobs c) j 0)"
  shows "held_back ev cfg occ j token n c (\<lambda>cb. route_and_invoke ev cfg cb j token n c) \<or>
    invoked ev cfg occ j token n c (\<lambda>cb. route_and_invoke ev cfg cb j token n c)"
proof -
  let ?inst = "or_empty (instrument_name s)"
  let ?key = "route_key ?inst (model s)"
  obtain r c1 where seek: "seek_route ev cfg j n ?inst c = (r, c1)" by (metis surj_pair)
  from seek_prep [OF seek] s have prep: "prep ev cfg j token n c c1" by simp
  note blocks = block_model_def block_rate_limited_def
  consider (full) "at_limit (route_limit cfg ?inst ?key) (dget_or (cy_models c) ?key 0)"
    | (limited) "\<not> at_limit (route_limit cfg ?inst ?key) (dget_or (cy_models c) ?key 0)"
        "?inst \<in> set (dc_rate_limited_instruments cfg)"
    | (fine) "\<not> at_limit (route_limit cfg ?inst ?key) (dget_or (cy_models c) ?key 0)"
        "?inst \<notin> set (dc_rate_limited_instruments cfg)" by blast
  then show ?thesis
  proof cases
    case full
    with s have "route_and_invoke ev cfg cb j token n c =
        (Continue, block_model ev j n ?inst ?key (the (route_limit cfg ?inst ?key)) c)" for cb
      by (simp add: route_and_invoke_def Let_def)
    from heldI [OF this] s show ?thesis by (simp add: blocks prep_block1 waiting_block)
  next
    case limited
    with s have "route_and_invoke ev cfg cb j token n c = (Continue, block_rate_limited ev j n ?inst c)" for cb
      by (simp add: route_and_invoke_def Let_def)
    from heldI [OF this] s show ?thesis by (simp add: blocks prep_block1 waiting_block)
  next
    case fine
    note False = conjI [OF fine]
    from seek_route_found [OF seek s] False obtain s' where
      s': "get_sheet_state (cy_baton c1) j n = Some s'" "sheet_num s' = sheet_num s"
      and same: "same_counts c c1"
      and fine: "\<And>i. r = Some i \<Longrightarrow> i \<notin> set (dc_open_circuit_breakers cfg) \<and>
        dget (b_instruments (cy_baton c1)) i \<noteq> None \<and> i \<notin> set (dc_rate_limited_instruments cfg)" by blast
    show ?thesis
    proof (cases r)
      case None
      with s False seek have "route_and_invoke ev cfg cb j token n c = (Continue, c1)" for cb
        by (simp add: route_and_invoke_def Let_def)
      from heldI [OF this] prep seek_none_waits [OF seek None] show ?thesis by simp
    next
      case (Some i)
      let ?key' = "if i \<noteq> ?inst then route_key i (model s') else ?key"
      let ?l = "if i \<noteq> ?inst then route_limit cfg i ?key' else None"
      have eq: "route_and_invoke ev cfg cb j token n c =
          (if at_limit ?l (dget_or (cy_models c1) ?key' 0)
           then (Continue, block_model ev j n i ?key' (the ?l) c1)
           else case stagger_rest ev cfg (cy_baton c1) j i of
                  Some rest \<Rightarrow> (Continue, block_stagger ev cfg j n i token rest c1)
                | None \<Rightarrow> invoke ev cfg cb j token n i ?key' c1)" for cb
        using s False seek Some
        by (simp add: route_and_invoke_def Let_def ready_sheet_Some [OF s'(1)] split: option.split)
      show ?thesis
      proof (cases "at_limit ?l (dget_or (cy_models c1) ?key' 0)")
        case True
        with eq have "route_and_invoke ev cfg cb j token n c =
            (Continue, block_model ev j n i ?key' (the ?l) c1)" for cb by simp
        from heldI [OF this] prep s' show ?thesis by (simp add: block_model_def prep_block waiting_block)
      next
        case nl: False
        show ?thesis
        proof (cases "stagger_rest ev cfg (cy_baton c1) j i")
          case None
          have inst: "i = or_empty (instrument_name s')"
            using seek_own_route(1) [OF seek [unfolded Some] s s'(1)] .
          have "route_and_invoke ev cfg cb j token n c = invoke ev cfg cb j token n i ?key' c1" for cb
            using eq nl None by simp
          then have "invoked ev cfg occ j token n c (\<lambda>cb. route_and_invoke ev cfg cb j token n c)"
          proof (rule invokedI [OF _ prep s'(1) inst])
            show "slot_free cfg j i ?key' c1"
              using free same nl False unfolding slot_free_def same_counts_def
              by (cases "i = ?inst") auto
            show "callable_sheet ev cfg occ j (sheet_num s') i (cy_baton c1)"
              using fine [OF Some] None occ s' by (simp add: callable_sheet_def)
            show "?key' = route_key i (model s')"
              if "get_sheet_state (cy_baton c) j n = Some s0" "routes_registered (cy_baton c) s0" for s0
              using seek_own_route(2) [OF seek [unfolded Some] s s'(1)] that s
              by (auto simp: routes_registered_def)
          qed
          then show ?thesis ..
        next
          case (Some rest)
          with eq nl have "route_and_invoke ev cfg cb j token n c =
              (Continue, block_stagger ev cfg j n i token rest c1)" for cb by simp
          from heldI [OF this] prep s' waiting_stagger show ?thesis
            by (simp add: prep_wake prep_block block_stagger_def flip: wake_key_def wake_gen_def)
        qed
      qed
    qed
  qed
qed

lemma one_plan:
  "held_back ev cfg occ j token n c (\<lambda>cb. dispatch_one ev cfg occ cb j token n c) \<or>
   invoked ev cfg occ j token n c (\<lambda>cb. dispatch_one ev cfg occ cb j token n c)"
proof (cases "get_sheet_state (cy_baton c) j n")
  case None
  then show ?thesis by (auto simp: held_back_def dispatch_one_def intro: prep_refl)
next
  case (Some s)
  let ?s = "if rebalances s then balance_sheet cfg (cy_models c) (ev_wall ev) s else s"
  let ?c = "if rebalances s
    then with_baton (upd_sheet j n (balance_sheet cfg (cy_models c) (ev_wall ev)) (cy_baton c)) c else c"
  consider (taken) "dget occ (j, sheet_num s) \<noteq> None"
    | (full) "dget occ (j, sheet_num s) = None" "cy_global c \<ge> dc_max_concurrent_sheets cfg"
    | (job_full) "dget occ (j, sheet_num s) = None" "cy_global c < dc_max_concurrent_sheets cfg"
        "at_limit (dget (dc_job_max_concurrent cfg) j) (dget_or (cy_jobs c) j 0)"
    | (free) "dget occ (j, sheet_num s) = None" "cy_global c < dc_max_concurrent_sheets cfg"
        "\<not> at_limit (dget (dc_job_max_concurrent cfg) j) (dget_or (cy_jobs c) j 0)"
    by (metis not_le)
  then show ?thesis
  proof cases
    case taken
    with Some have "dispatch_one ev cfg occ cb j token n c =
        (Continue, record_dispatch_block ev j n ''active_execution'' ''active_execution'' [] c)" for cb
      by (simp add: dispatch_one_def)
    from heldI [OF this] Some show ?thesis by (simp add: prep_block1 waiting_block)
  next
    case full
    with Some have "dispatch_one ev cfg occ cb j token n c =
        (Return, record_dispatch_block ev j n ''global_concurrency'' ''global_concurrency''
           [(''global_running'', JInt (cy_global c)),
            (''limit'', JInt (dc_max_concurrent_sheets cfg))] c)" for cb
      by (simp add: dispatch_one_def)
    from heldI [OF this] Some full show ?thesis by (simp add: prep_block1 waiting_block)
  next
    case job_full
    with Some have "dispatch_one ev cfg occ cb j token n c =
        (Continue, record_dispatch_block ev j n ''job_concurrency'' (labelled ''job_concurrency'' j)
           [(''job_running'', JInt (dget_or (cy_jobs c) j 0)),
            (''limit'', JInt (the (dget (dc_job_max_concurrent cfg) j)))] c)" for cb
      by (simp add: dispatch_one_def)
    from heldI [OF this] Some show ?thesis by (simp add: prep_block1 waiting_block)
  next
    case free
    with Some have eq: "(\<lambda>cb. dispatch_one ev cfg occ cb j token n c) =
        (\<lambda>cb. route_and_invoke ev cfg cb j token n ?c)"
      by (cases "rebalances s") (simp_all add: dispatch_one_def with_baton_def)
    have prep: "prep ev cfg j token n c ?c" using prep_balance [OF prep_refl Some] by (simp add: prep_refl)
    have "get_sheet_state (cy_baton ?c) j n = Some ?s" using Some by simp
    then have "held_back ev cfg occ j token n ?c (\<lambda>cb. route_and_invoke ev cfg cb j token n ?c) \<or>
        invoked ev cfg occ j token n ?c (\<lambda>cb. route_and_invoke ev cfg cb j token n ?c)"
      by (rule route_plan) (use free in simp_all)
    moreover have "\<exists>s'. get_sheet_state (cy_baton ?c) j n = Some s' \<and> routes_registered (cy_baton ?c) s'"
      if "get_sheet_state (cy_baton c) j n = Some s0" "routes_registered (cy_baton c) s0" for s0
      using that Some by (auto simp: balance_registered)
    ultimately show ?thesis unfolding eq using held_after [OF _ prep] invoked_after [OF _ prep] by blast
  qed
qed

locale cycle_contract = evolution R for R :: "cycle \<Rightarrow> cycle \<Rightarrow> bool" +
  fixes ev :: env and cfg :: dispatch_config and occ :: executions and cb :: callback
  assumes prepare: "prep ev cfg j token n c c' \<Longrightarrow> R c c'"
    and call: "callable_sheet ev cfg occ j (sheet_num s) inst (cy_baton c) \<Longrightarrow>
      get_sheet_state (cy_baton c) j n = Some s \<Longrightarrow> cb j (sheet_num s) (cy_baton c) = (v, b') \<Longrightarrow>
      R c (with_baton b' c)"
    and accept: "slot_free cfg j inst key c \<Longrightarrow> dget occ (j, n) = None \<Longrightarrow>
      get_sheet_state (cy_baton c) j n \<noteq> None \<Longrightarrow> R c (accept_dispatch ev cfg j n inst key c)"
begin

lemma invoke_evolves:
  assumes "invoke ev cfg cb j token n inst key c = (ctl, c')"
    and "get_sheet_state (cy_baton c) j n = Some s"
    and "callable_sheet ev cfg occ j (sheet_num s) inst (cy_baton c)" and "slot_free cfg j inst key c"
  shows "R c c'"
proof -
  obtain v b' where cb: "cb j (sheet_num s) (cy_baton c) = (v, b')" by (metis surj_pair)
  from call [OF assms(3,2) cb] have "R c (with_baton b' c)" .
  moreover have "slot_free cfg j inst key (with_baton b' c)" using assms(4) by (simp add: slot_free_def)
  moreover have "dget occ (j, sheet_num s) = None" using assms(3) by (simp add: callable_sheet_def)
  ultimately show ?thesis
    using assms(1,2) cb accept [of j inst key "with_baton b' c" "sheet_num s"]
    by (auto simp: invoke_def recheck_global_def with_baton_def [symmetric] Let_def
        intro: evo_trans split: if_splits verdict.splits option.splits bool.splits)
qed

lemma one_evolves: "dispatch_one ev cfg occ cb j token n c = (ctl, c') \<Longrightarrow> R c c'"
proof -
  assume one: "dispatch_one ev cfg occ cb j token n c = (ctl, c')"
  from one_plan [of ev cfg occ j token n c] show ?thesis
  proof
    assume "held_back ev cfg occ j token n c (\<lambda>cb. dispatch_one ev cfg occ cb j token n c)"
    then obtain ctl' c1 where "dispatch_one ev cfg occ cb j token n c = (ctl', c1)" "prep ev cfg j token n c c1"
      unfolding held_back_def by blast
    with one show ?thesis by (simp add: prepare)
  next
    assume "invoked ev cfg occ j token n c (\<lambda>cb. dispatch_one ev cfg occ cb j token n c)"
    then obtain inst key c1 s where eq: "dispatch_one ev cfg occ cb j token n c = invoke ev cfg cb j token n inst key c1"
      and prep: "prep ev cfg j token n c c1" and s: "get_sheet_state (cy_baton c1) j n = Some s"
        "callable_sheet ev cfg occ j (sheet_num s) inst (cy_baton c1)" "slot_free cfg j inst key c1"
      unfolding invoked_def by blast
    from eq one have "invoke ev cfg cb j token n inst key c1 = (ctl, c')" by simp
    from invoke_evolves [OF this s] have "R c1 c'" .
    with prepare [OF prep] show ?thesis by (rule evo_trans)
  qed
qed

lemma sheets_evolve: "dispatch_sheets ev cfg occ cb j token ns c = (r, c') \<Longrightarrow> R c c'"
  by (induction ns arbitrary: c)
    (auto simp: evo_refl split: prod.splits control.splits dest!: one_evolves intro: evo_trans)

lemma jobs_evolve: "dispatch_jobs ev cfg occ cb js c = (r, c') \<Longrightarrow> R c c'"
  by (induction js arbitrary: c)
    (auto simp: evo_refl dispatch_job_def split: prod.splits bool.splits option.splits if_splits
      dest!: sheets_evolve intro: evo_trans)

end

subsection \<open>The callback sees only what may run\<close>

text \<open>
  Two callbacks that agree where every check has passed are indistinguishable to a cycle: the
  callback is never reached for a sheet that already runs, or on an instrument that is rate
  limited, open, unregistered or resting.
\<close>

definition agree :: "env \<Rightarrow> dispatch_config \<Rightarrow> executions \<Rightarrow> callback \<Rightarrow> callback \<Rightarrow> bool" where
  "agree ev cfg occ cb cb' \<longleftrightarrow>
     (\<forall>j n s b. get_sheet_state b j n = Some s \<longrightarrow>
        callable_sheet ev cfg occ j (sheet_num s) (or_empty (instrument_name s)) b \<longrightarrow>
        cb j (sheet_num s) b = cb' j (sheet_num s) b)"

lemma one_agree:
  assumes "agree ev cfg occ cb cb'"
  shows "dispatch_one ev cfg occ cb j token n c = dispatch_one ev cfg occ cb' j token n c"
  using one_plan [of ev cfg occ j token n c]
proof
  assume "held_back ev cfg occ j token n c (\<lambda>cb. dispatch_one ev cfg occ cb j token n c)"
  then show ?thesis unfolding held_back_def by metis
next
  assume "invoked ev cfg occ j token n c (\<lambda>cb. dispatch_one ev cfg occ cb j token n c)"
  then obtain inst key c1 s where
    eq: "\<And>cb. dispatch_one ev cfg occ cb j token n c = invoke ev cfg cb j token n inst key c1"
    and s: "get_sheet_state (cy_baton c1) j n = Some s"
      "callable_sheet ev cfg occ j (sheet_num s) (or_empty (instrument_name s)) (cy_baton c1)"
    unfolding invoked_def by blast
  with assms have "cb j (sheet_num s) (cy_baton c1) = cb' j (sheet_num s) (cy_baton c1)"
    unfolding agree_def by blast
  with eq s show ?thesis by (simp add: invoke_def)
qed

lemma sheets_agree:
  "agree ev cfg occ cb cb' \<Longrightarrow>
     dispatch_sheets ev cfg occ cb j token ns c = dispatch_sheets ev cfg occ cb' j token ns c"
  by (induction ns arbitrary: c) (auto simp: one_agree split: prod.splits control.splits)

lemma jobs_agree:
  "agree ev cfg occ cb cb' \<Longrightarrow> dispatch_jobs ev cfg occ cb js c = dispatch_jobs ev cfg occ cb' js c"
  by (induction js arbitrary: c)
    (auto simp: dispatch_job_def sheets_agree split: prod.splits bool.splits option.splits)

text \<open>
  C3. The dispatch callback is only ever called for a registered sheet that no musician is
  running yet, and only when the sheet's own instrument, the one the callback will use, is
  registered, neither rate limited nor behind an open breaker, and past its stagger window: a
  cycle cannot tell apart two callbacks that agree on such calls, whatever else they do.
\<close>

theorem dispatch_calls_only_eligible_sheets:
  assumes "\<And>j n s inst b'. get_sheet_state b' j n = Some s \<Longrightarrow> inst = or_empty (instrument_name s) \<Longrightarrow>
      dget (occupied_executions b cfg) (j, sheet_num s) = None \<Longrightarrow>
      inst \<notin> set (dc_rate_limited_instruments cfg) \<Longrightarrow> inst \<notin> set (dc_open_circuit_breakers cfg) \<Longrightarrow>
      dget (b_instruments b') inst \<noteq> None \<Longrightarrow> stagger_rest ev cfg b' j inst = None \<Longrightarrow>
      cb j (sheet_num s) b' = cb' j (sheet_num s) b'"
  shows "dispatch_ready ev cfg cb b = dispatch_ready ev cfg cb' b"
proof -
  from assms have "agree ev cfg (occupied_executions b cfg) cb cb'"
    unfolding agree_def callable_sheet_def by blast
  then show ?thesis by (simp add: dispatch_ready_def run_cycle_def jobs_agree)
qed

subsection \<open>Limits\<close>

definition dispatched_of :: "string \<Rightarrow> (string \<times> int) list \<Rightarrow> nat" where
  "dispatched_of j ds = length (filter (\<lambda>p. fst p = j) ds)"

definition within_limits :: "dispatch_config \<Rightarrow> cycle \<Rightarrow> cycle \<Rightarrow> bool" where
  "within_limits cfg c c' \<longleftrightarrow>
     (\<exists>ds. dr_dispatched_sheets (cy_result c') = dr_dispatched_sheets (cy_result c) @ ds \<and>
        dr_dispatched_count (cy_result c') = dr_dispatched_count (cy_result c) + length ds \<and>
        cy_global c' = cy_global c + int (length ds) \<and>
        (ds \<noteq> [] \<longrightarrow> cy_global c' \<le> dc_max_concurrent_sheets cfg) \<and>
        (\<forall>j. dget_or (cy_jobs c') j 0 = dget_or (cy_jobs c) j 0 + int (dispatched_of j ds) \<and>
           (\<forall>l. dget (dc_job_max_concurrent cfg) j = Some l \<longrightarrow> 0 < dispatched_of j ds \<longrightarrow>
              dget_or (cy_jobs c') j 0 \<le> l)))"

lemma dispatched_of_simps [simp]:
  "dispatched_of j [] = 0" "dispatched_of j (xs @ ys) = dispatched_of j xs + dispatched_of j ys"
  "dispatched_of j [p] = (if fst p = j then 1 else 0)"
  by (simp_all add: dispatched_of_def)

lemma within_limitsE:
  assumes "within_limits cfg a b"
  obtains ds where "dr_dispatched_sheets (cy_result b) = dr_dispatched_sheets (cy_result a) @ ds"
    "dr_dispatched_count (cy_result b) = dr_dispatched_count (cy_result a) + length ds"
    "cy_global b = cy_global a + int (length ds)"
    "ds \<noteq> [] \<Longrightarrow> cy_global b \<le> dc_max_concurrent_sheets cfg"
    "\<And>j. dget_or (cy_jobs b) j 0 = dget_or (cy_jobs a) j 0 + int (dispatched_of j ds)"
    "\<And>j l. dget (dc_job_max_concurrent cfg) j = Some l \<Longrightarrow> 0 < dispatched_of j ds \<Longrightarrow>
       dget_or (cy_jobs b) j 0 \<le> l"
  using assms unfolding within_limits_def by blast

lemma within_limits_trans:
  assumes "within_limits cfg a b" and "within_limits cfg b c"
  shows "within_limits cfg a c"
proof -
  obtain xs where xs: "dr_dispatched_sheets (cy_result b) = dr_dispatched_sheets (cy_result a) @ xs"
    "dr_dispatched_count (cy_result b) = dr_dispatched_count (cy_result a) + length xs"
    "cy_global b = cy_global a + int (length xs)"
    "xs \<noteq> [] \<Longrightarrow> cy_global b \<le> dc_max_concurrent_sheets cfg"
    "\<And>j. dget_or (cy_jobs b) j 0 = dget_or (cy_jobs a) j 0 + int (dispatched_of j xs)"
    "\<And>j l. dget (dc_job_max_concurrent cfg) j = Some l \<Longrightarrow> 0 < dispatched_of j xs \<Longrightarrow>
       dget_or (cy_jobs b) j 0 \<le> l" using within_limitsE [OF assms(1)] by metis
  obtain ys where ys: "dr_dispatched_sheets (cy_result c) = dr_dispatched_sheets (cy_result b) @ ys"
    "dr_dispatched_count (cy_result c) = dr_dispatched_count (cy_result b) + length ys"
    "cy_global c = cy_global b + int (length ys)"
    "ys \<noteq> [] \<Longrightarrow> cy_global c \<le> dc_max_concurrent_sheets cfg"
    "\<And>j. dget_or (cy_jobs c) j 0 = dget_or (cy_jobs b) j 0 + int (dispatched_of j ys)"
    "\<And>j l. dget (dc_job_max_concurrent cfg) j = Some l \<Longrightarrow> 0 < dispatched_of j ys \<Longrightarrow>
       dget_or (cy_jobs c) j 0 \<le> l" using within_limitsE [OF assms(2)] by metis
  have "dget_or (cy_jobs c) j 0 \<le> l"
    if "dget (dc_job_max_concurrent cfg) j = Some l" "0 < dispatched_of j (xs @ ys)" for j l
    using that xs(5,6) [of j] ys(5,6) [of j] by (cases "0 < dispatched_of j ys") auto
  moreover have "cy_global c \<le> dc_max_concurrent_sheets cfg" if "xs @ ys \<noteq> []"
    using that xs(3,4) ys(3,4) by (cases "ys = []") auto
  ultimately show ?thesis
    unfolding within_limits_def by (intro exI [of _ "xs @ ys"]) (simp add: xs ys(1,2,3,5))
qed

lemma count_key_get: "dget_or (count_key k d) k' 0 = dget_or d k' 0 + (if k' = k then 1 else 0)"
  by (simp add: count_key_def dget_or_def)

lemma same_counts_limits: "same_counts c c' \<Longrightarrow> within_limits cfg c c'"
  unfolding same_counts_def within_limits_def by (intro exI [of _ "[]"]) simp

lemma prep_same_counts: "prep ev cfg j token n c c' \<Longrightarrow> same_counts c c'"
proof (induction rule: prep.induct)
  case prep_refl
  show ?case by (rule same_counts.evo_refl)
qed (auto intro: same_counts.evo_trans [OF _ same_counts_baton]
    same_counts.evo_trans [OF _ same_counts_block] same_counts.evo_trans [OF _ same_counts_wake])

lemma accept_within_limits: "slot_free cfg j inst key c \<Longrightarrow> within_limits cfg c (accept_dispatch ev cfg j n inst key c)"
  unfolding within_limits_def
  by (rule exI [of _ "[(j, n)]"])
    (auto simp: slot_free_def accept_dispatch_def record_dispatch_def count_key_get)

interpretation limits: cycle_contract "within_limits cfg" ev cfg occ cb for ev cfg occ cb
proof unfold_locales
  show "within_limits cfg c c" for c by (simp add: same_counts_limits same_counts.evo_refl)
qed (auto intro: within_limits_trans same_counts_limits prep_same_counts accept_within_limits)

text \<open>Counting the occupied slots.\<close>

definition slots :: "(string \<times> int \<Rightarrow> string \<times> string option \<Rightarrow> bool) \<Rightarrow> executions \<Rightarrow> int" where
  "slots P occ = int (length (filter (\<lambda>(p, r). P p r) occ))"

lemma count_fold:
  "dget_or (fold (\<lambda>x. count_key (f x)) xs d) k 0 =
     dget_or d k 0 + int (length (filter (\<lambda>x. f x = k) xs))"
  by (induction xs arbitrary: d) (auto simp: count_key_get)

lemma count_per_job: "dget_or (count_occupied_per_job occ) j 0 = slots (\<lambda>p r. fst p = j) occ"
proof -
  have "length (filter (\<lambda>k. fst k = j) (dkeys occ)) = length (filter (\<lambda>(p, r). fst p = j) occ)"
    by (induction occ) auto
  then show ?thesis
    by (simp add: count_occupied_per_job_def count_fold slots_def) (simp add: dget_or_def)
qed

lemma count_per_model:
  "dget_or (count_occupied_per_model occ) key 0 = slots (\<lambda>p r. route_key (fst r) (snd r) = key) occ"
proof -
  have eq: "(\<lambda>(inst, mo). count_key (route_key inst mo)) = (\<lambda>r. count_key (route_key (fst r) (snd r)))"
    by auto
  have "length (filter (\<lambda>r. route_key (fst r) (snd r) = key) (dvals occ)) =
      length (filter (\<lambda>(p, r). route_key (fst r) (snd r) = key) occ)"
    by (induction occ) auto
  then show ?thesis
    by (simp add: count_occupied_per_model_def eq count_fold slots_def) (simp add: dget_or_def)
qed

lemma slots_card:
  assumes "distinct (dkeys occ)"
  shows "slots P occ = int (card {p. \<exists>r. dget occ p = Some r \<and> P p r})"
proof -
  have "{p. \<exists>r. dget occ p = Some r \<and> P p r} = fst ` set (filter (\<lambda>(p, r). P p r) occ)"
    using assms by (force simp: image_iff)
  moreover have "distinct (map fst (filter (\<lambda>(p, r). P p r) occ))"
    using assms by (simp add: distinct_map_filter)
  ultimately show ?thesis
    using distinct_card [of "map fst (filter (\<lambda>(p, r). P p r) occ)"] by (simp add: slots_def)
qed

lemma slots_cong:
  "distinct (dkeys a) \<Longrightarrow> distinct (dkeys b) \<Longrightarrow> dget a = dget b \<Longrightarrow> slots P a = slots P b"
  by (simp add: slots_card)

lemma finite_dget: "finite {p. \<exists>r. dget occ p = Some r \<and> P p r}"
proof (rule finite_subset)
  show "{p. \<exists>r. dget occ p = Some r \<and> P p r} \<subseteq> set (dkeys occ)" by (auto dest: dget_in_dkeys)
qed simp

lemma slots_add:
  assumes "distinct (dkeys a)" and "distinct (dkeys b)"
    and "dget b = (dget a)(p \<mapsto> r)" and "dget a p = None"
  shows "slots P b = slots P a + (if P p r then 1 else 0)"
proof -
  have eq: "{q. \<exists>u. dget b q = Some u \<and> P q u} =
      (if P p r then insert p {q. \<exists>u. dget a q = Some u \<and> P q u} else {q. \<exists>u. dget a q = Some u \<and> P q u})"
    using assms(3,4) by (cases r) auto
  have "p \<notin> {q. \<exists>u. dget a q = Some u \<and> P q u}" using assms(4) by simp
  from card_insert_disjoint [OF finite_dget this] eq show ?thesis
    unfolding slots_card [OF assms(1)] slots_card [OF assms(2)] by (cases "P p r") simp_all
qed

definition active_route :: "sheet \<Rightarrow> (string \<times> string option) option" where
  "active_route s = (if is_active (status s) then Some (or_empty (instrument_name s), model s) else None)"

lemma occupy_fold:
  assumes "distinct (dkeys sh)"
  shows "dget (fold (occupy_sheet j) sh occ) (k, n) =
     (case dget occ (k, n) of
        Some r \<Rightarrow> Some r
      | None \<Rightarrow> if k = j then Option.bind (dget sh n) active_route else None)"
  using assms
proof (induction sh arbitrary: occ)
  case (Cons p sh)
  then have "dget sh (fst p) = None" by (simp add: map_of_eq_None_iff)
  with Cons show ?case
    by (auto simp: occupy_sheet_def active_route_def split: option.splits bind_split)
qed (auto split: option.splits)

lemma occupy_jobs:
  assumes "distinct (dkeys js)"
  shows "dget (fold (\<lambda>(j, jb). fold (occupy_sheet j) (items (j_sheets jb))) js occ) (k, n) =
     (case dget occ (k, n) of
        Some r \<Rightarrow> Some r
      | None \<Rightarrow> Option.bind (dget js k) (\<lambda>jb. Option.bind (dget (j_sheets jb) n) active_route))"
  using assms
proof (induction js arbitrary: occ)
  case (Cons p js)
  obtain j jb where p: "p = (j, jb)" by fastforce
  from Cons have none: "dget js j = None" by (simp add: p map_of_eq_None_iff)
  have "dget (fold (occupy_sheet j) (items (j_sheets jb)) occ) (k, n) =
     (case dget occ (k, n) of
        Some r \<Rightarrow> Some r
      | None \<Rightarrow> if k = j then Option.bind (dget (j_sheets jb) n) active_route else None)"
    by (simp add: occupy_fold distinct_clearjunk map_of_clearjunk split: option.split)
  with Cons none show ?case
    by (cases "k = j") (auto simp: p split: option.splits)
qed (auto split: option.splits)

lemma occupied_get:
  "dget (occupied_executions b cfg) (j, n) =
     (case dget (opt_or (dc_active_executions cfg) []) (j, n) of
        Some r \<Rightarrow> Some r
      | None \<Rightarrow> Option.bind (get_sheet_state b j n) active_route)"
  by (auto simp: occupied_executions_def occupy_jobs distinct_clearjunk map_of_clearjunk
      get_sheet_state_def get_job_def split: option.splits bind_split)

lemma distinct_occupy: "distinct (dkeys occ) \<Longrightarrow> distinct (dkeys (fold (occupy_sheet j) sh occ))"
  by (induction sh arbitrary: occ) (auto simp: occupy_sheet_def distinct_dset)

lemma distinct_occupied: "distinct (dkeys (occupied_executions b cfg))"
proof -
  have "distinct (dkeys occ) \<Longrightarrow>
      distinct (dkeys (fold (\<lambda>(j, jb). fold (occupy_sheet j) (items (j_sheets jb))) js occ))" for js occ
    by (induction js arbitrary: occ) (auto simp: distinct_occupy)
  from this [OF distinct_clearjunk] show ?thesis by (simp add: occupied_executions_def)
qed

text \<open>
  C4. Whatever the callback does, a cycle that dispatches anything ends within the global
  ceiling, and within the ceiling of every job it dispatched for, counting the musicians
  that were running at its start; the result lists exactly the counted dispatches.
\<close>

theorem dispatch_respects_limits:
  assumes "dispatch_ready ev cfg cb b = (r, b')"
  shows "dr_dispatched_count r = length (dr_dispatched_sheets r) \<and>
    (0 < dr_dispatched_count r \<longrightarrow>
       int (length (occupied_executions b cfg)) + int (dr_dispatched_count r)
         \<le> dc_max_concurrent_sheets cfg) \<and>
    (\<forall>j l. dget (dc_job_max_concurrent cfg) j = Some l \<longrightarrow>
       0 < dispatched_of j (dr_dispatched_sheets r) \<longrightarrow>
       slots (\<lambda>p _. fst p = j) (occupied_executions b cfg) + int (dispatched_of j (dr_dispatched_sheets r)) \<le> l)"
proof (cases "b_shutting_down b")
  case True
  with assms show ?thesis by (auto simp: dispatch_ready_def new_result_def)
next
  case False
  obtain stop c where run: "run_cycle ev cfg cb b = (stop, c)" by (metis surj_pair)
  have r: "r = cy_result c" using assms False run by (cases stop) (auto simp: dispatch_ready_def)
  have "within_limits cfg (start_cycle cfg b) c"
    using run unfolding run_cycle_def by (rule limits.jobs_evolve)
  then show ?thesis
  proof (cases rule: within_limitsE)
    case ds: (1 ds)
    have "slots (\<lambda>p _. fst p = j) (occupied_executions b cfg) + int (dispatched_of j ds) \<le> l"
      if "dget (dc_job_max_concurrent cfg) j = Some l" "0 < dispatched_of j ds" for j l
      using ds(5,6) [of j] that by (force simp: start_cycle_def Let_def count_per_job)
    moreover have "int (length (occupied_executions b cfg)) + int (length ds) \<le> dc_max_concurrent_sheets cfg"
      if "ds \<noteq> []"
      using ds(3,4) that by (simp add: start_cycle_def Let_def)
    moreover have "dr_dispatched_sheets r = ds" "dr_dispatched_count r = length ds"
      using ds(1,2) by (simp_all add: r start_cycle_def new_result_def Let_def)
    ultimately show ?thesis by auto
  qed
qed

subsection \<open>Callbacks that only report\<close>

text \<open>A change at one sheet, of the same registration of its job.\<close>

definition job_identity :: "baton \<Rightarrow> string \<Rightarrow> int option \<times> int option" where
  "job_identity b j = (get_job_registration_token b j, get_job_generation b j)"

lemma identity_current:
  "job_identity b' j = job_identity b j \<Longrightarrow>
     is_job_registration_current b' j token = is_job_registration_current b j token"
  by (auto simp: job_identity_def is_job_registration_current_def get_job_registration_token_def
      split: option.splits)

definition at_sheet :: "string \<Rightarrow> int \<Rightarrow> baton \<Rightarrow> baton \<Rightarrow> bool" where
  "at_sheet j n b b' \<longleftrightarrow>
     (\<forall>k. k \<noteq> j \<longrightarrow> get_job b' k = get_job b k) \<and>
     (\<forall>m. m \<noteq> n \<longrightarrow> get_sheet_state b' j m = get_sheet_state b j m) \<and>
     job_identity b' j = job_identity b j \<and>
     (b_timer b \<noteq> None \<longrightarrow> b_timer b' \<noteq> None) \<and>
     (\<forall>i. dget (b_instruments b) i \<noteq> None \<longrightarrow> dget (b_instruments b') i \<noteq> None)"

lemma at_sheet_current:
  "at_sheet j n b b' \<Longrightarrow> is_job_registration_current b' j token = is_job_registration_current b j token"
  by (rule identity_current) (simp add: at_sheet_def)

interpretation at_sheet: evolution "at_sheet j n" for j n
  by unfold_locales (simp_all add: at_sheet_def)

lemma upd_sheet_fields [simp]:
  "b_timer (upd_sheet j n f b) = b_timer b" "b_instruments (upd_sheet j n f b) = b_instruments b"
  by (simp_all add: upd_sheet_def upd_job_def)

lemma at_sheet_upd: "at_sheet j n b (upd_sheet j n f b)"
  by (auto simp: at_sheet_def job_identity_def get_job_registration_token_def get_job_generation_def
      get_job_upd_sheet option.map_comp comp_def split: option.split)

lemma at_sheet_same:
  "same_jobs b b' \<Longrightarrow> (b_timer b \<noteq> None \<Longrightarrow> b_timer b' \<noteq> None) \<Longrightarrow>
     (\<And>i. dget (b_instruments b) i \<noteq> None \<Longrightarrow> dget (b_instruments b') i \<noteq> None) \<Longrightarrow> at_sheet j n b b'"
  by (simp add: at_sheet_def same_jobs_get same_jobs_sheet job_identity_def get_job_registration_token_def
      get_job_generation_def)

text \<open>
  The conductor's callback, before it spawns a musician, clears the evidence of the previous
  attempt in the sheet it is called for and counts the attempt; it changes no other sheet, no
  registration, unregisters no instrument and keeps the timer wheel.
\<close>

definition blank_report :: "sheet \<Rightarrow> sheet" where
  "blank_report s = s\<lparr>validation_passed := None, validation_details := None, error_message := None,
     error_code := None, attempt_count := 0\<rparr>"

definition reports_only :: "sheet \<Rightarrow> sheet \<Rightarrow> bool" where
  "reports_only s s' \<longleftrightarrow> blank_report s' = blank_report s"

lemma blank_report_keeps [simp]:
  "sheet_num (blank_report s) = sheet_num s" "status (blank_report s) = status s"
  "instrument_name (blank_report s) = instrument_name s" "model (blank_report s) = model s"
  "fallback_chain (blank_report s) = fallback_chain s"
  by (simp_all add: blank_report_def)

lemma reports_only_keeps:
  assumes "reports_only s s'"
  shows "sheet_num s' = sheet_num s" "status s' = status s" "instrument_name s' = instrument_name s"
    "model s' = model s" "fallback_chain s' = fallback_chain s"
  using assms unfolding reports_only_def by (metis blank_report_keeps)+

lemma reports_only_refl [simp]: "reports_only s s"
  by (simp add: reports_only_def)

definition discreet :: "callback \<Rightarrow> bool" where
  "discreet cb \<longleftrightarrow>
     (\<forall>j n b v b'. cb j n b = (v, b') \<longrightarrow>
        at_sheet j n b b' \<and> rel_option reports_only (get_sheet_state b j n) (get_sheet_state b' j n))"

lemma discreetD:
  assumes "discreet cb" and "cb j n b = (v, b')"
  shows "at_sheet j n b b'"
    and "get_sheet_state b j n = Some s \<Longrightarrow> \<exists>s'. get_sheet_state b' j n = Some s' \<and> reports_only s s'"
proof -
  from assms have *: "at_sheet j n b b'" "rel_option reports_only (get_sheet_state b j n) (get_sheet_state b' j n)"
    by (auto simp: discreet_def)
  then show "at_sheet j n b b'" by blast
  show "\<exists>s'. get_sheet_state b' j n = Some s' \<and> reports_only s s'" if "get_sheet_state b j n = Some s"
    using *(2) that by (cases "get_sheet_state b' j n") auto
qed

text \<open>The callback declines a ready sheet of a job still registered as in \<open>b\<close>, or raises for it.\<close>

definition declines :: "callback \<Rightarrow> baton \<Rightarrow> string \<Rightarrow> int \<Rightarrow> bool" where
  "declines cb b j n \<longleftrightarrow>
     (\<exists>b1 s. job_identity b1 j = job_identity b j \<and>
        get_sheet_state b1 j n = Some s \<and> dispatchable (status s) \<and>
        fst (cb j n b1) \<in> {Raised, Returned (Some False)})"

lemma declines_cong: "job_identity b' j = job_identity b j \<Longrightarrow> declines cb b' j n = declines cb b j n"
  by (simp add: declines_def)

lemma at_sheet_check:
  assumes "check_and_fallback_unavailable ev j n b = (Inr True, b')"
  shows "at_sheet j n b b'"
proof -
  have ens: "at_sheet j n b (ensure_instrument_registered to b)" for to b
    by (rule at_sheet_same [OF same_jobs_ensure])
      (auto simp: ensure_instrument_registered_def register_instrument_def Let_def split: option.splits)
  have note': "at_sheet j n b (note_fallback j k x to r b)" for k x to r b
    by (rule at_sheet_same [OF same_jobs_note]) (simp_all add: note_fallback_def dirty_def)
  from assms show ?thesis
    by (auto simp: check_and_fallback_unavailable_def with_sheet_def run_bnd fall_back_run
        split: option.splits if_splits prod.splits
        intro!: at_sheet.evo_trans [OF _ note'] at_sheet.evo_trans [OF _ at_sheet_upd]
          at_sheet.evo_trans [OF _ ens] at_sheet_upd)
qed

lemma wakes_block [simp]: "cy_wakes (record_dispatch_block ev j n reason key details c) = cy_wakes c"
  by (simp add: record_dispatch_block_def split: prod.splits)

lemma at_sheet_block: "at_sheet j n (cy_baton c) (cy_baton (record_dispatch_block ev j n reason key details c))"
  by (simp add: record_dispatch_block_def at_sheet_upd split: prod.splits)

definition wakes_kept :: "dispatch_config \<Rightarrow> string \<Rightarrow> int \<Rightarrow> cycle \<Rightarrow> cycle \<Rightarrow> bool" where
  "wakes_kept cfg j token c c' \<longleftrightarrow>
     (\<forall>k. dget (cy_wakes c) k \<noteq> None \<longrightarrow> dget (cy_wakes c') k \<noteq> None) \<and>
     (\<forall>k v. dget (cy_wakes c') k = Some v \<longrightarrow> dget (cy_wakes c) k = Some v \<or>
        k = wake_key cfg j \<and> snd v = wake_gen cfg j token)"

interpretation wakes_kept: evolution "wakes_kept cfg j token" for cfg j token
proof
  show "wakes_kept cfg j token s u" if "wakes_kept cfg j token s t" "wakes_kept cfg j token t u" for s t u
    using that unfolding wakes_kept_def by blast
qed (simp add: wakes_kept_def)

lemma wakes_kept_same: "cy_wakes c' = cy_wakes c \<Longrightarrow> wakes_kept cfg j token c c'"
  by (simp add: wakes_kept_def)

lemma request_wake_simps [simp]:
  "cy_baton (request_wake key delay gen c) = cy_baton c"
  "wakes_kept cfg j token c (request_wake (wake_key cfg j) delay (wake_gen cfg j token) c)"
  by (auto simp: request_wake_def wakes_kept_def)

lemma prep_frame:
  "prep ev cfg j token n c c' \<Longrightarrow> at_sheet j n (cy_baton c) (cy_baton c') \<and> wakes_kept cfg j token c c'"
proof (induction rule: prep.induct)
  case prep_refl
  show ?case by (simp add: at_sheet.evo_refl wakes_kept.evo_refl)
next
  case prep_block
  then show ?case by (auto simp: wakes_kept_def intro: at_sheet.evo_trans [OF _ at_sheet_block])
next
  case prep_balance
  then show ?case by (auto simp: wakes_kept_def intro: at_sheet.evo_trans [OF _ at_sheet_upd])
next
  case prep_fallback
  then show ?case by (auto simp: wakes_kept_def intro: at_sheet.evo_trans [OF _ at_sheet_check])
next
  case prep_wake
  then show ?case by (auto intro: wakes_kept.evo_trans)
qed

lemma prep_status:
  "prep ev cfg j token n c c' \<Longrightarrow> get_sheet_state (cy_baton c) j n = Some s \<Longrightarrow>
     \<exists>s'. get_sheet_state (cy_baton c') j n = Some s' \<and> (status s' = status s \<or> status s' = PENDING) \<and>
       (routes_registered (cy_baton c) s \<longrightarrow> routes_registered (cy_baton c') s')"
proof (induction rule: prep.induct)
  case (prep_block c c1 reason key details)
  then show ?case
    by (auto simp: block_sheet routes_registered_def)
next
  case (prep_balance c c1 s1)
  moreover have "status (balance_sheet cfg load t s) = status s" for load t s
    by (simp add: balance_sheet_def rotate_chain_def Let_def split: prod.splits)
  ultimately show ?case by (auto simp: balance_registered)
next
  case (prep_fallback c c1 b')
  then obtain s1 to s2 where s1: "get_sheet_state (cy_baton c1) j n = Some s1"
    "routes_registered (cy_baton c) s \<longrightarrow> routes_registered (cy_baton c1) s1"
    and adv: "advance_fallback ''unavailable'' (ev_wall ev) s1 = (Some to, s2)"
    and s2: "get_sheet_state b' j n = Some (s2\<lparr>status := PENDING\<rparr>)"
    using check_and_fallback_cases [OF prep_fallback.hyps(2)] by auto
  from adv have "set (or_empty (instrument_name s2) # fallback_chain s2) \<subseteq>
      set (or_empty (instrument_name s1) # fallback_chain s1)"
    by (auto simp: advance_fallback_def push_fallback_record_def has_fallback_available_def Let_def
        split: if_splits)
  moreover have "dget (b_instruments (cy_baton c1)) i \<noteq> None \<Longrightarrow> dget (b_instruments b') i \<noteq> None" for i
    using at_sheet_check [OF prep_fallback.hyps(2)] by (simp add: at_sheet_def)
  ultimately show ?case using s1 s2 by (auto simp: routes_registered_def)
qed auto

text \<open>What the acceptance of a sheet that was ready does.\<close>

lemma same_jobs_stamp: "same_jobs b (stamp_dispatch ev cfg j inst b)"
  by (simp add: stamp_dispatch_def same_jobs_def upd_instrument_def)

lemma at_sheet_stamp: "at_sheet j n b (stamp_dispatch ev cfg k inst b)"
  by (rule at_sheet_same [OF same_jobs_stamp]) (auto simp: stamp_dispatch_def upd_instrument_def)

lemma get_sheet_dirty [simp]: "get_sheet_state (dirty b) j n = get_sheet_state b j n"
  by (simp add: dirty_def get_sheet_state_def get_job_def)

lemma at_sheet_dispatched: "at_sheet j n b (handle_sheet_dispatched j n t b)"
proof -
  have "at_sheet j n b (dirty b)" for b by (rule at_sheet_same) (simp_all add: dirty_def same_jobs_def)
  then show ?thesis
    by (auto simp: handle_sheet_dispatched_def at_sheet.evo_refl split: option.split
        intro: at_sheet.evo_trans [OF at_sheet_upd])
qed

lemma accept_frame:
  "at_sheet j n (cy_baton c) (cy_baton (accept_dispatch ev cfg j n inst key c))"
  by (auto simp: accept_dispatch_def
      intro!: at_sheet.evo_trans [OF _ at_sheet_stamp] at_sheet.evo_trans [OF _ at_sheet_dispatched] at_sheet_upd)

lemma accept_sheet:
  assumes "get_sheet_state (cy_baton c) j n = Some s" and "\<not> is_terminal (status s)"
  obtains s' where "get_sheet_state (cy_baton (accept_dispatch ev cfg j n inst key c)) j n = Some s'"
    "status s' = DISPATCHED" "sheet_num s' = sheet_num s" "instrument_name s' = instrument_name s" "model s' = model s"
    "fallback_chain s' = fallback_chain s"
  using assms
  by (auto simp: accept_dispatch_def same_jobs_sheet [OF same_jobs_stamp] handle_sheet_dispatched_def)

text \<open>What one ready sheet contributes to a cycle.\<close>

definition passed_over :: "dispatch_config \<Rightarrow> callback \<Rightarrow> string \<Rightarrow> int \<Rightarrow> cycle \<Rightarrow> cycle \<Rightarrow> bool" where
  "passed_over cfg cb j n c c' \<longleftrightarrow>
     same_counts c c' \<and> (waiting cfg j n c' \<or> declines cb (cy_baton c') j n) \<and>
     (\<exists>s s'. get_sheet_state (cy_baton c) j n = Some s \<and> get_sheet_state (cy_baton c') j n = Some s' \<and>
        (status s' = status s \<or> status s' = PENDING) \<and> sheet_num s' = sheet_num s \<and>
        (routes_registered (cy_baton c) s \<longrightarrow> routes_registered (cy_baton c') s'))"

definition taken_up :: "dispatch_config \<Rightarrow> executions \<Rightarrow> string \<Rightarrow> int \<Rightarrow> cycle \<Rightarrow> cycle \<Rightarrow> bool" where
  "taken_up cfg occ j n c c' \<longleftrightarrow>
     dget occ (j, n) = None \<and>
     dr_dispatched_sheets (cy_result c') = dr_dispatched_sheets (cy_result c) @ [(j, n)] \<and>
     (\<exists>s s'. get_sheet_state (cy_baton c) j n = Some s \<and> get_sheet_state (cy_baton c') j n = Some s' \<and>
        status s' = DISPATCHED \<and> sheet_num s' = sheet_num s \<and>
        (routes_registered (cy_baton c) s \<longrightarrow> routes_registered (cy_baton c') s' \<and>
           (let inst = or_empty (instrument_name s'); key = route_key inst (model s') in
            cy_models c' = count_key key (cy_models c) \<and>
            \<not> at_limit (route_limit cfg inst key) (dget_or (cy_models c) key 0))))"

lemma invoke_effect:
  assumes inv: "invoke ev cfg cb j token n inst key c = (ctl, c')" and disc: "discreet cb"
    and s: "get_sheet_state (cy_baton c) j n = Some s" "sheet_num s = n" "dispatchable (status s)"
    and cur: "is_job_registration_current (cy_baton c) j token"
  obtains b' s' where "at_sheet j n (cy_baton c) b'" "get_sheet_state b' j n = Some s'" "reports_only s s'"
    "ctl \<noteq> Break"
    "(c' = with_baton b' c \<and> declines cb b' j n) \<or> c' = accept_dispatch ev cfg j n inst key (with_baton b' c)"
proof -
  obtain v b' where cb: "cb j n (cy_baton c) = (v, b')" by (metis surj_pair)
  from discreetD(1) [OF disc cb] have at: "at_sheet j n (cy_baton c) b'" .
  from discreetD(2) [OF disc cb s(1)] obtain s' where s': "get_sheet_state b' j n = Some s'" "reports_only s s'"
    by blast
  from at have id: "job_identity b' j = job_identity (cy_baton c) j" by (simp add: at_sheet_def)
  have "is_job_registration_current b' j token" using cur at_sheet_current [OF at] by simp
  moreover have "v \<in> {Raised, Returned (Some False)} \<Longrightarrow> declines cb b' j n"
    using cb s id unfolding declines_def by (metis fst_conv)
  ultimately have "ctl \<noteq> Break"
    "(c' = with_baton b' c \<and> declines cb b' j n) \<or> c' = accept_dispatch ev cfg j n inst key (with_baton b' c)"
    using inv s s' cb
    by (auto simp: invoke_def recheck_global_def with_baton_def [symmetric] Let_def
        split: if_splits verdict.splits option.splits bool.splits)
  with that at s' show thesis by blast
qed

lemma one_effect:
  assumes one: "dispatch_one ev cfg occ cb j token n c = (ctl, c')" and disc: "discreet cb"
    and s: "get_sheet_state (cy_baton c) j n = Some s" "sheet_num s = n" "dispatchable (status s)"
    and cur: "is_job_registration_current (cy_baton c) j token"
  shows "at_sheet j n (cy_baton c) (cy_baton c') \<and> wakes_kept cfg j token c c' \<and> ctl \<noteq> Break \<and>
    (passed_over cfg cb j n c c' \<or> taken_up cfg occ j n c c')"
  using one_plan [of ev cfg occ j token n c]
proof
  assume "held_back ev cfg occ j token n c (\<lambda>cb. dispatch_one ev cfg occ cb j token n c)"
  then have prep: "prep ev cfg j token n c c'" and "ctl \<noteq> Break" "waiting cfg j n c'"
    unfolding held_back_def using one s by auto
  with prep_frame [OF prep] prep_status [OF prep s(1)] prep_keeps [OF prep s(1)] s(1) show ?thesis
    by (auto simp: passed_over_def)
next
  assume "invoked ev cfg occ j token n c (\<lambda>cb. dispatch_one ev cfg occ cb j token n c)"
  then obtain inst key c1 s1 where eq: "dispatch_one ev cfg occ cb j token n c = invoke ev cfg cb j token n inst key c1"
    and prep: "prep ev cfg j token n c c1" and s1: "get_sheet_state (cy_baton c1) j n = Some s1"
    and inst: "inst = or_empty (instrument_name s1)"
    and key: "routes_registered (cy_baton c) s \<Longrightarrow> key = route_key inst (model s1)"
    and ok: "callable_sheet ev cfg occ j (sheet_num s1) inst (cy_baton c1)" "slot_free cfg j inst key c1"
    unfolding invoked_def using s(1) by blast
  from prep_keeps [OF prep s(1)] s s1 have num: "sheet_num s1 = n" and counts: "same_counts c c1" by auto
  from prep_status [OF prep s(1)] s1 have st: "status s1 = status s \<or> status s1 = PENDING"
    and reg: "routes_registered (cy_baton c) s \<Longrightarrow> routes_registered (cy_baton c1) s1" by auto
  from st s(3) have ready: "dispatchable (status s1)" by (auto simp: dispatchable_def)
  from prep_frame [OF prep] have frame: "at_sheet j n (cy_baton c) (cy_baton c1)" "wakes_kept cfg j token c c1" by auto
  from cur frame(1) have cur1: "is_job_registration_current (cy_baton c1) j token"
    by (rule at_sheet_current [THEN iffD2, rotated])
  from eq one have "invoke ev cfg cb j token n inst key c1 = (ctl, c')" by simp
  then obtain b' s2 where b': "at_sheet j n (cy_baton c1) b'" "get_sheet_state b' j n = Some s2"
    "reports_only s1 s2" "ctl \<noteq> Break"
    "(c' = with_baton b' c1 \<and> declines cb b' j n) \<or> c' = accept_dispatch ev cfg j n inst key (with_baton b' c1)"
    by (rule invoke_effect [OF _ disc s1 num ready cur1])
  note kept = reports_only_keeps [OF b'(3)]
  have reg': "routes_registered b' s2" if "routes_registered (cy_baton c1) s1"
    using that b'(1) by (simp add: routes_registered_def at_sheet_def kept)
  have nt: "\<not> is_terminal (status s2)" using ready by (auto simp: kept dispatchable_def)
  show ?thesis
  proof (cases "c' = with_baton b' c1 \<and> declines cb b' j n")
    case True
    have "same_counts c c'" using True counts by (auto intro: same_counts.evo_trans [OF _ same_counts_baton])
    with True b' st reg reg' s(1,2) num frame kept show ?thesis
      by (auto simp: passed_over_def wakes_kept_def intro: at_sheet.evo_trans)
  next
    case False
    with b'(5) have acc: "c' = accept_dispatch ev cfg j n inst key (with_baton b' c1)" by blast
    have "get_sheet_state (cy_baton (with_baton b' c1)) j n = Some s2" using b'(2) by simp
    then obtain s' where s': "get_sheet_state (cy_baton c') j n = Some s'"
      "status s' = DISPATCHED" "sheet_num s' = sheet_num s2" "instrument_name s' = instrument_name s2" "model s' = model s2"
      "fallback_chain s' = fallback_chain s2"
      unfolding acc using nt by (rule accept_sheet)
    have frame': "at_sheet j n (cy_baton c) (cy_baton c')"
      using frame b'(1) accept_frame [where c = "with_baton b' c1" and j = j and n = n]
      by (auto simp: acc intro: at_sheet.evo_trans)
    have wakes: "wakes_kept cfg j token c c'"
      by (rule wakes_kept.evo_trans [OF frame(2) wakes_kept_same]) (simp add: acc accept_dispatch_def)
    have regc: "routes_registered (cy_baton c') s'" if "routes_registered (cy_baton c) s"
      using reg' [OF reg [OF that]] s' accept_frame [where c = "with_baton b' c1" and j = j and n = n]
      by (simp add: routes_registered_def at_sheet_def acc)
    have "taken_up cfg occ j n c c'"
      unfolding taken_up_def using s(1,2) s' ok num key counts inst regc kept
      by (auto simp: callable_sheet_def slot_free_def acc accept_dispatch_def record_dispatch_def
          same_counts_def Let_def)
    with frame' wakes b'(4) show ?thesis by blast
  qed
qed

text \<open>A cycle is cut short only at the global ceiling.\<close>

lemma one_return:
  assumes "dispatch_one ev cfg occ cb j token n c = (Return, c')"
  shows "dc_max_concurrent_sheets cfg \<le> cy_global c'"
  using one_plan [of ev cfg occ j token n c]
proof
  assume "held_back ev cfg occ j token n c (\<lambda>cb. dispatch_one ev cfg occ cb j token n c)"
  with assms show ?thesis unfolding held_back_def by auto
next
  assume "invoked ev cfg occ j token n c (\<lambda>cb. dispatch_one ev cfg occ cb j token n c)"
  then obtain inst key c1 where "invoke ev cfg cb j token n inst key c1 = (Return, c')"
    unfolding invoked_def using assms by metis
  then show ?thesis
    by (auto simp: invoke_def recheck_global_def Let_def split: prod.splits if_splits verdict.splits
        option.splits bool.splits)
qed

lemma sheets_return: "dispatch_sheets ev cfg occ cb j token ns c = (True, c') \<Longrightarrow>
    dc_max_concurrent_sheets cfg \<le> cy_global c'"
  by (induction ns arbitrary: c) (auto split: prod.splits control.splits dest: one_return)

lemma jobs_return: "dispatch_jobs ev cfg occ cb js c = (True, c') \<Longrightarrow> dc_max_concurrent_sheets cfg \<le> cy_global c'"
  by (induction js arbitrary: c)
    (auto simp: dispatch_job_def split: prod.splits bool.splits option.splits if_splits dest: sheets_return)

subsection \<open>Cycles with a callback that only reports\<close>

text \<open>Jobs whose sheets are dictionaries under their own numbers.\<close>

definition orderly :: "job \<Rightarrow> bool" where
  "orderly jb \<longleftrightarrow>
     distinct (dkeys (j_sheets jb)) \<and> list_all (\<lambda>(n, s). sheet_num s = n) (j_sheets jb)"

definition ready_in :: "string \<Rightarrow> int \<Rightarrow> cycle \<Rightarrow> bool" where
  "ready_in j n c \<longleftrightarrow>
     (\<exists>s. get_sheet_state (cy_baton c) j n = Some s \<and> sheet_num s = n \<and> dispatchable (status s))"

lemma ready_sheets_ready:
  assumes "get_job (cy_baton c) j = Some jb" and "orderly jb"
    and "n \<in> set (map fst (get_ready_sheets (cy_baton c) j))"
  shows "ready_in j n c"
proof -
  from assms obtain s where "(n, s) \<in> set (j_sheets jb)" "dispatchable (status s)"
    by (auto simp: get_ready_sheets_def split: if_splits)
  with assms(1,2) show ?thesis
    by (auto simp: ready_in_def orderly_def get_sheet_state_def list_all_iff)
qed

lemma ready_sheets_distinct:
  "get_job b j = Some jb \<Longrightarrow> orderly jb \<Longrightarrow> distinct (map fst (get_ready_sheets b j))"
  by (auto simp: get_ready_sheets_def orderly_def distinct_map_filter)

lemma at_sheet_ready: "at_sheet j n (cy_baton c) (cy_baton c') \<Longrightarrow> (k, m) \<noteq> (j, n) \<Longrightarrow>
    ready_in k m c' = ready_in k m c"
  by (cases "k = j") (auto simp: ready_in_def at_sheet_def get_sheet_state_def)

text \<open>
  A relation that the treatment of every ready sheet establishes holds between the ends of
  the cycle.
\<close>

locale ready_contract = evolution R for R :: "cycle \<Rightarrow> cycle \<Rightarrow> bool" +
  fixes ev :: env and cfg :: dispatch_config and occ :: executions and cb :: callback
  assumes pass: "at_sheet j n (cy_baton c) (cy_baton c') \<Longrightarrow> wakes_kept cfg j token c c' \<Longrightarrow> ready_in j n c \<Longrightarrow>
      is_job_registration_current (cy_baton c) j token \<Longrightarrow> passed_over cfg cb j n c c' \<Longrightarrow> R c c'"
    and take_up: "at_sheet j n (cy_baton c) (cy_baton c') \<Longrightarrow> wakes_kept cfg j token c c' \<Longrightarrow> ready_in j n c \<Longrightarrow>
      is_job_registration_current (cy_baton c) j token \<Longrightarrow> taken_up cfg occ j n c c' \<Longrightarrow> R c c'"
begin

text \<open>A sheet of which the cycle has disposed on its way.\<close>

definition treated :: "string \<Rightarrow> int \<Rightarrow> cycle \<Rightarrow> bool" where
  "treated j n c \<longleftrightarrow>
     (\<exists>c0 c1. (passed_over cfg cb j n c0 c1 \<or> taken_up cfg occ j n c0 c1) \<and> R c1 c)"

lemma treated_later: "treated j n c \<Longrightarrow> R c c' \<Longrightarrow> treated j n c'"
  unfolding treated_def by (blast intro: evo_trans)

lemma one_ready:
  assumes "dispatch_one ev cfg occ cb j token n c = (ctl, c')" and "ready_in j n c"
    and "is_job_registration_current (cy_baton c) j token" and "discreet cb"
  shows "R c c' \<and> at_sheet j n (cy_baton c) (cy_baton c') \<and>
    (passed_over cfg cb j n c c' \<or> taken_up cfg occ j n c c') \<and> wakes_kept cfg j token c c' \<and> ctl \<noteq> Break"
  using one_effect [OF assms(1,4)] assms(2,3) pass take_up unfolding ready_in_def by metis

lemma sheets_ready:
  "dispatch_sheets ev cfg occ cb j token ns c = (r, c') \<Longrightarrow> discreet cb \<Longrightarrow> distinct ns \<Longrightarrow>
     (\<And>n. n \<in> set ns \<Longrightarrow> ready_in j n c) \<Longrightarrow> is_job_registration_current (cy_baton c) j token \<Longrightarrow>
     R c c' \<and> (\<forall>k. k \<noteq> j \<longrightarrow> get_job (cy_baton c') k = get_job (cy_baton c) k) \<and>
     (\<not> r \<longrightarrow> (\<forall>n \<in> set ns. treated j n c'))"
proof (induction ns arbitrary: c)
  case Nil
  then show ?case by (simp add: evo_refl)
next
  case (Cons n ns)
  obtain ctl c1 where one: "dispatch_one ev cfg occ cb j token n c = (ctl, c1)" by (metis surj_pair)
  from one_ready [OF one] Cons.prems have step: "R c c1" "at_sheet j n (cy_baton c) (cy_baton c1)" "ctl \<noteq> Break"
    and did: "passed_over cfg cb j n c c1 \<or> taken_up cfg occ j n c c1"
    by auto
  from did have tr: "treated j n c1" unfolding treated_def by (blast intro: evo_refl)
  from step(2) Cons.prems(5) have "is_job_registration_current (cy_baton c1) j token"
    by (rule at_sheet_current [THEN iffD2])
  moreover have "ready_in j m c1" if "m \<in> set ns" for m
    using that Cons.prems(3,4) at_sheet_ready [OF step(2), of j m] by auto
  ultimately have rest: "R c1 c' \<and> (\<forall>k. k \<noteq> j \<longrightarrow> get_job (cy_baton c') k = get_job (cy_baton c1) k) \<and>
      (\<not> r \<longrightarrow> (\<forall>n \<in> set ns. treated j n c'))" if "ctl = Continue"
    using that Cons.IH [of c1] Cons.prems one by simp
  show ?case
  proof (cases ctl)
    case Continue
    with rest step tr show ?thesis by (auto simp: at_sheet_def intro: evo_trans treated_later)
  qed (use step one Cons.prems(1) in \<open>auto simp: at_sheet_def\<close>)
qed

lemma job_ready:
  assumes run: "dispatch_job ev cfg occ cb j c = (r, c')" and careful: "discreet cb"
    and ord: "\<And>jb. get_job (cy_baton c) j = Some jb \<Longrightarrow> orderly jb"
  shows "R c c' \<and> (\<forall>k. k \<noteq> j \<longrightarrow> get_job (cy_baton c') k = get_job (cy_baton c) k) \<and>
    (\<not> r \<longrightarrow> \<not> is_job_paused (cy_baton c) j \<longrightarrow>
       (\<forall>n \<in> set (map fst (get_ready_sheets (cy_baton c) j)). treated j n c'))"
proof (cases "get_job (cy_baton c) j")
  case None
  with run show ?thesis by (simp add: dispatch_job_def evo_refl get_ready_sheets_def)
next
  case (Some jb)
  show ?thesis
  proof (cases "j_paused jb")
    case True
    with run Some show ?thesis by (simp add: dispatch_job_def evo_refl is_job_paused_def)
  next
    case False
    with run Some have sheets: "dispatch_sheets ev cfg occ cb j (j_registration_token jb)
        (map fst (get_ready_sheets (cy_baton c) j)) c = (r, c')" by (simp add: dispatch_job_def)
    have cur: "is_job_registration_current (cy_baton c) j (j_registration_token jb)"
      using Some by (simp add: is_job_registration_current_def)
    show ?thesis
      using sheets_ready [OF sheets careful ready_sheets_distinct [OF Some ord [OF Some]]
          ready_sheets_ready [OF Some ord [OF Some]] cur] by blast
  qed
qed

lemma jobs_ready:
  "dispatch_jobs ev cfg occ cb js c = (r, c') \<Longrightarrow> discreet cb \<Longrightarrow> distinct js \<Longrightarrow>
     (\<And>j jb. j \<in> set js \<Longrightarrow> get_job (cy_baton c) j = Some jb \<Longrightarrow> orderly jb) \<Longrightarrow>
     R c c' \<and> (\<not> r \<longrightarrow> (\<forall>j \<in> set js. \<not> is_job_paused (cy_baton c) j \<longrightarrow>
       (\<forall>n \<in> set (map fst (get_ready_sheets (cy_baton c) j)). treated j n c')))"
proof (induction js arbitrary: c)
  case Nil
  then show ?case by (simp add: evo_refl)
next
  case (Cons j js)
  obtain stop c1 where one: "dispatch_job ev cfg occ cb j c = (stop, c1)" by (metis surj_pair)
  from job_ready [OF one] Cons.prems have step: "R c c1"
    "\<And>k. k \<noteq> j \<Longrightarrow> get_job (cy_baton c1) k = get_job (cy_baton c) k"
    and did: "\<not> stop \<Longrightarrow> \<not> is_job_paused (cy_baton c) j \<Longrightarrow>
      n \<in> set (map fst (get_ready_sheets (cy_baton c) j)) \<Longrightarrow> treated j n c1" for n by auto
  have other: "k \<noteq> j" if "k \<in> set js" for k using that Cons.prems(3) by auto
  have same: "is_job_paused (cy_baton c1) k = is_job_paused (cy_baton c) k"
    "get_ready_sheets (cy_baton c1) k = get_ready_sheets (cy_baton c) k" if "k \<in> set js" for k
    using step(2) [OF other [OF that]] by (simp_all add: is_job_paused_def get_ready_sheets_def)
  have "orderly jb" if "k \<in> set js" "get_job (cy_baton c1) k = Some jb" for k jb
    using that step(2) [OF other [OF that(1)]] by (intro Cons.prems(4)) auto
  then have rest: "R c1 c' \<and> (\<not> r \<longrightarrow> (\<forall>j \<in> set js. \<not> is_job_paused (cy_baton c) j \<longrightarrow>
      (\<forall>n \<in> set (map fst (get_ready_sheets (cy_baton c) j)). treated j n c')))" if "\<not> stop"
    using Cons.IH [of c1] Cons.prems(1,2,3) one that same by (auto split: bool.splits)
  show ?case
  proof (cases stop)
    case True
    with step(1) one Cons.prems(1) show ?thesis by simp
  next
    case False
    with rest step(1) did show ?thesis by (auto intro: evo_trans treated_later)
  qed
qed

lemma cycle_ready:
  assumes "run_cycle ev cfg cb b = (r, c)" and "occ = occupied_executions b cfg" and "discreet cb"
    and "\<And>j jb. get_job b j = Some jb \<Longrightarrow> orderly jb"
  shows "R (start_cycle cfg b) c"
    and "\<not> r \<Longrightarrow> get_job b j = Some jb \<Longrightarrow> \<not> j_paused jb \<Longrightarrow>
      n \<in> set (map fst (get_ready_sheets b j)) \<Longrightarrow> treated j n c"
proof -
  have "dispatch_jobs ev cfg occ cb (dkeys (items (b_jobs b))) (start_cycle cfg b) = (r, c)"
    using assms(1,2) by (simp add: run_cycle_def)
  moreover have start: "cy_baton (start_cycle cfg b) = b" by (simp add: start_cycle_def Let_def)
  ultimately have *: "R (start_cycle cfg b) c \<and> (\<not> r \<longrightarrow>
      (\<forall>j \<in> set (dkeys (items (b_jobs b))). \<not> is_job_paused b j \<longrightarrow>
         (\<forall>n \<in> set (map fst (get_ready_sheets b j)). treated j n c)))"
    using jobs_ready [of "dkeys (items (b_jobs b))" "start_cycle cfg b" r c] assms(3,4)
    by (simp add: distinct_clearjunk)
  then show "R (start_cycle cfg b) c" ..
  assume "\<not> r" "get_job b j = Some jb" "\<not> j_paused jb" "n \<in> set (map fst (get_ready_sheets b j))"
  moreover from this(2) have "j \<in> set (dkeys (items (b_jobs b)))"
    by (intro dget_in_dkeys [where v = jb]) (simp add: map_of_clearjunk get_job_def)
  moreover have "\<not> is_job_paused b j" using \<open>get_job b j = Some jb\<close> \<open>\<not> j_paused jb\<close> by (simp add: is_job_paused_def)
  ultimately show "treated j n c" using * by blast
qed

end

text \<open>First instance: what becomes of the sheets.\<close>

definition progress :: "executions \<Rightarrow> cycle \<Rightarrow> cycle \<Rightarrow> bool" where
  "progress occ c c' \<longleftrightarrow>
     (\<exists>ds. dr_dispatched_sheets (cy_result c') = dr_dispatched_sheets (cy_result c) @ ds \<and> distinct ds \<and>
        (\<forall>p \<in> set ds. dget occ p = None \<and> ready_in (fst p) (snd p) c \<and>
           map_option status (get_sheet_state (cy_baton c') (fst p) (snd p)) = Some DISPATCHED) \<and>
        (\<forall>k m. (k, m) \<notin> set ds \<longrightarrow>
           map_option status (get_sheet_state (cy_baton c') k m) =
             map_option status (get_sheet_state (cy_baton c) k m) \<or>
           ready_in k m c \<and> map_option status (get_sheet_state (cy_baton c') k m) = Some PENDING) \<and>
        (\<forall>k m. map_option sheet_num (get_sheet_state (cy_baton c') k m) =
           map_option sheet_num (get_sheet_state (cy_baton c) k m)))"

lemma ready_in_iff:
  "ready_in j n c \<longleftrightarrow> map_option sheet_num (get_sheet_state (cy_baton c) j n) = Some n \<and>
     (\<exists>st. map_option status (get_sheet_state (cy_baton c) j n) = Some st \<and> dispatchable st)"
  by (auto simp: ready_in_def)

lemma progress_trans:
  assumes "progress occ a b" and "progress occ b c"
  shows "progress occ a c"
proof -
  obtain xs where xs: "dr_dispatched_sheets (cy_result b) = dr_dispatched_sheets (cy_result a) @ xs" "distinct xs"
    "\<And>p. p \<in> set xs \<Longrightarrow> dget occ p = None \<and> ready_in (fst p) (snd p) a \<and>
       map_option status (get_sheet_state (cy_baton b) (fst p) (snd p)) = Some DISPATCHED"
    "\<And>k m. (k, m) \<notin> set xs \<Longrightarrow>
       map_option status (get_sheet_state (cy_baton b) k m) = map_option status (get_sheet_state (cy_baton a) k m) \<or>
       ready_in k m a \<and> map_option status (get_sheet_state (cy_baton b) k m) = Some PENDING"
    "\<And>k m. map_option sheet_num (get_sheet_state (cy_baton b) k m) =
       map_option sheet_num (get_sheet_state (cy_baton a) k m)"
    using assms(1) unfolding progress_def by blast
  obtain ys where ys: "dr_dispatched_sheets (cy_result c) = dr_dispatched_sheets (cy_result b) @ ys" "distinct ys"
    "\<And>p. p \<in> set ys \<Longrightarrow> dget occ p = None \<and> ready_in (fst p) (snd p) b \<and>
       map_option status (get_sheet_state (cy_baton c) (fst p) (snd p)) = Some DISPATCHED"
    "\<And>k m. (k, m) \<notin> set ys \<Longrightarrow>
       map_option status (get_sheet_state (cy_baton c) k m) = map_option status (get_sheet_state (cy_baton b) k m) \<or>
       ready_in k m b \<and> map_option status (get_sheet_state (cy_baton c) k m) = Some PENDING"
    "\<And>k m. map_option sheet_num (get_sheet_state (cy_baton c) k m) =
       map_option sheet_num (get_sheet_state (cy_baton b) k m)"
    using assms(2) unfolding progress_def by blast
  have busy: "\<not> ready_in k m b" if "(k, m) \<in> set xs" for k m
    using xs(3) [OF that] by (auto simp: ready_in_iff dispatchable_def)
  have ready: "ready_in k m a" if "ready_in k m b" for k m
  proof -
    have "(k, m) \<notin> set xs" using that busy by blast
    from xs(4) [OF this] that xs(5) [of k m] show ?thesis by (auto simp: ready_in_iff)
  qed
  have disj: "set xs \<inter> set ys = {}" using busy ys(3) by fastforce
  show ?thesis
    unfolding progress_def
  proof (intro exI [of _ "xs @ ys"] conjI ballI allI impI)
    fix p assume "p \<in> set (xs @ ys)"
    then consider "p \<in> set xs" | "p \<in> set ys" by auto
    then show "dget occ p = None" "ready_in (fst p) (snd p) a" using xs(3) ys(3) ready by (cases; blast)+
    show "map_option status (get_sheet_state (cy_baton c) (fst p) (snd p)) = Some DISPATCHED"
    proof (cases "p \<in> set ys")
      case True
      with ys(3) show ?thesis by blast
    next
      case False
      with \<open>p \<in> set (xs @ ys)\<close> have p: "(fst p, snd p) \<in> set xs" "(fst p, snd p) \<notin> set ys" by auto
      from xs(3) [OF p(1)] ys(4) [OF p(2)] busy [OF p(1)] show ?thesis by auto
    qed
  next
    fix k m assume "(k, m) \<notin> set (xs @ ys)"
    then show "map_option status (get_sheet_state (cy_baton c) k m) =
          map_option status (get_sheet_state (cy_baton a) k m) \<or>
        ready_in k m a \<and> map_option status (get_sheet_state (cy_baton c) k m) = Some PENDING"
      using xs(4) [of k m] ys(4) [of k m] ready [of k m] by auto
  qed (use xs ys disj in auto)
qed

lemma progress_refl: "progress occ c c"
  by (simp add: progress_def)

lemma at_sheet_others:
  "at_sheet j n b b' \<Longrightarrow> (k, m) \<noteq> (j, n) \<Longrightarrow> get_sheet_state b' k m = get_sheet_state b k m"
  by (cases "k = j") (auto simp: at_sheet_def get_sheet_state_def)

lemma progress_pass:
  assumes "at_sheet j n (cy_baton c) (cy_baton c')" and "ready_in j n c" and "passed_over cfg cb j n c c'"
  shows "progress occ c c'"
  unfolding progress_def
proof (intro exI [of _ "[]"] conjI ballI allI impI)
  fix k m
  show "map_option status (get_sheet_state (cy_baton c') k m) =
      map_option status (get_sheet_state (cy_baton c) k m) \<or>
      ready_in k m c \<and> map_option status (get_sheet_state (cy_baton c') k m) = Some PENDING"
    using assms(2,3) at_sheet_others [OF assms(1), of k m]
    by (cases "(k, m) = (j, n)") (auto simp: passed_over_def)
  show "map_option sheet_num (get_sheet_state (cy_baton c') k m) =
      map_option sheet_num (get_sheet_state (cy_baton c) k m)"
    using assms(3) at_sheet_others [OF assms(1), of k m] by (cases "(k, m) = (j, n)") (auto simp: passed_over_def)
qed (use assms(3) in \<open>auto simp: passed_over_def same_counts_def\<close>)

lemma progress_take:
  assumes "at_sheet j n (cy_baton c) (cy_baton c')" and "ready_in j n c" and "taken_up cfg occ j n c c'"
  shows "progress occ c c'"
  unfolding progress_def
proof (intro exI [of _ "[(j, n)]"] conjI ballI allI impI)
  fix k m
  show "(k, m) \<notin> set [(j, n)] \<Longrightarrow> map_option status (get_sheet_state (cy_baton c') k m) =
      map_option status (get_sheet_state (cy_baton c) k m) \<or>
      ready_in k m c \<and> map_option status (get_sheet_state (cy_baton c') k m) = Some PENDING"
    using at_sheet_others [OF assms(1), of k m] by auto
  show "map_option sheet_num (get_sheet_state (cy_baton c') k m) =
      map_option sheet_num (get_sheet_state (cy_baton c) k m)"
    using assms(3) at_sheet_others [OF assms(1), of k m] by (cases "(k, m) = (j, n)") (auto simp: taken_up_def)
qed (use assms(2,3) in \<open>auto simp: taken_up_def\<close>)

interpretation progress: ready_contract "progress occ" ev cfg occ cb for ev cfg occ cb
proof unfold_locales
  show "progress occ c c" for c by (rule progress_refl)
qed (blast intro: progress_trans, blast intro: progress_pass, blast intro: progress_take)

lemma cycle_result: "dispatch_ready ev cfg cb b = (r, b') \<Longrightarrow> \<not> b_shutting_down b \<Longrightarrow>
    \<exists>stop c. run_cycle ev cfg cb b = (stop, c) \<and> r = cy_result c \<and> same_jobs (cy_baton c) b' \<and>
      (stop \<longrightarrow> b' = cy_baton c) \<and> (\<not> stop \<longrightarrow> b' = fold (arm_wake ev) (items (cy_wakes c)) (cy_baton c))"
proof -
  assume *: "dispatch_ready ev cfg cb b = (r, b')" "\<not> b_shutting_down b"
  have arm: "same_jobs b (arm_wake ev w b)" for w b
    using same_jobs_scheduled
    by (auto simp: arm_wake_def Let_def same_jobs_def split: prod.splits option.splits if_splits)
  obtain stop c where run: "run_cycle ev cfg cb b = (stop, c)" by (metis surj_pair)
  with * same_jobs.evo_fold [where f = "arm_wake ev", OF arm] show ?thesis
    by (cases stop) (auto simp: dispatch_ready_def)
qed


subsection \<open>The running conductor\<close>

lemma orderly_office: "get_job office j = Some jb \<Longrightarrow> orderly jb"
proof -
  have "list_all (\<lambda>(j, jb). orderly jb) (b_jobs office)" by code_simp
  then show "get_job office j = Some jb \<Longrightarrow> orderly jb"
    by (auto simp: get_job_def list_all_iff dest: map_of_SomeD)
qed

lemma discreet_start_task: "discreet start_task"
  by (simp add: discreet_def start_task_def at_sheet.evo_refl option.rel_refl)

lemma accepting_start_task: "\<not> declines start_task b j n"
  by (simp add: declines_def start_task_def)

lemma office_run_pair:
  "dispatch_ready plain_env office_config start_task office = (fst office_run, snd office_run)"
  by (simp add: office_run_def)

lemma office_dispatched: "dr_dispatched_sheets (fst office_run) = [(''a'', 1), (''b'', 1)]"
  by code_simp

lemma office_occupied: "dget (occupied_executions office office_config) (''a'', 3) = Some (''claude'', None)"
  by code_simp

text \<open>
  A callback that refuses the running sheet and every sheet whose own instrument is behind an
  open breaker is never asked about them.
\<close>

definition picky_task :: callback where
  "picky_task j n b =
     (if j = ''a'' \<and> n = 3 \<or>
         list_all (\<lambda>(m, s). sheet_num s = n \<longrightarrow> instrument_name s = Some ''claude'')
           (case get_job b j of None \<Rightarrow> [] | Some jb \<Rightarrow> j_sheets jb)
      then (Raised, b) else start_task j n b)"

lemma dispatch_calls_only_eligible_sheets_witness:
  "dispatch_ready plain_env office_config start_task office = dispatch_ready plain_env office_config picky_task office \<and>
   dr_dispatched_sheets (fst (dispatch_ready plain_env office_config picky_task office)) = [(''a'', 1), (''b'', 1)]"
proof -
  have "dispatch_ready plain_env office_config start_task office = dispatch_ready plain_env office_config picky_task office"
  proof (rule dispatch_calls_only_eligible_sheets)
    fix j n s inst b'
    assume *: "get_sheet_state b' j n = Some s" "inst = or_empty (instrument_name s)"
      "dget (occupied_executions office office_config) (j, sheet_num s) = None"
      "inst \<notin> set (dc_open_circuit_breakers office_config)"
    have "''claude'' \<in> set (dc_open_circuit_breakers office_config)" by code_simp
    with *(2,4) have "instrument_name s \<noteq> Some ''claude''" by auto
    moreover from *(1) obtain jb where "get_job b' j = Some jb" "(n, s) \<in> set (j_sheets jb)"
      by (auto simp: get_sheet_state_def split: option.splits dest: map_of_SomeD)
    ultimately show "start_task j (sheet_num s) b' = picky_task j (sheet_num s) b'"
      using *(3) office_occupied by (auto simp: picky_task_def list_all_iff)
  qed
  then show ?thesis using office_dispatched office_run_def by simp
qed

lemma dispatch_respects_limits_witness:
  "int (length (occupied_executions office office_config)) + int (dr_dispatched_count (fst office_run)) \<le> 10 \<and>
   slots (\<lambda>p _. fst p = ''a'') (occupied_executions office office_config) +
     int (dispatched_of ''a'' (dr_dispatched_sheets (fst office_run))) \<le> 2 \<and>
   dr_dispatched_count (fst office_run) = 2"
proof -
  have "dc_max_concurrent_sheets office_config = 10" "dget (dc_job_max_concurrent office_config) ''a'' = Some 2"
    "dr_dispatched_count (fst office_run) = 2" "dispatched_of ''a'' (dr_dispatched_sheets (fst office_run)) = 1"
    by code_simp+
  with dispatch_respects_limits [OF office_run_pair] show ?thesis by force
qed


end
