(* ===== verification/Dispatch_Callback.thy ===== *)
theory Dispatch_Callback
  imports Dispatch_Cycle
begin

section \<open>The conductor's dispatch callback\<close>

text \<open>
  \<open>BatonAdapter._dispatch_callback\<close> of \<open>daemon/baton/adapter.py\<close>, the callback a dispatch
  cycle awaits, as far as it touches the baton: the failure events it puts into the inbox, and
  the report fields of the sheet it clears before a musician is spawned. What it asks of other
  parts is a parameter, the record \<open>conductor\<close>: the adapter's own sheet, the technique and
  MCP set-up, the backend pool, and the rest of the set-up. Every awaited call returns the
  baton as the other tasks of the event loop leave it. The adapter's own tables of running
  tasks are not part of the baton and left out; a failure message is rendered by a parameter.
\<close>

datatype dispatch_failure =
    SheetNotFound int
  | NoBackendPool
  | TechniquesFailed string
  | SetupFailed string
  | AcquisitionFailed string string
  | PostAcquisitionFailed string

datatype acquire_answer =
    Leased
  | NotRegistered string   \<comment> \<open>\<open>InstrumentNotRegisteredError\<close>, a \<open>ValueError\<close>\<close>
  | Refused string         \<comment> \<open>any other \<open>ValueError\<close>\<close>
  | AcquireError string    \<comment> \<open>any other exception\<close>

datatype finish_answer = Spawned | FailsEarly string | FailsLate string

record adapter_sheet =
  as_instrument_name :: string
  as_interactive :: "bool option"

record conductor =
  cd_sheet :: "string \<Rightarrow> int \<Rightarrow> adapter_sheet option"
  cd_has_pool :: bool
  cd_setup :: "string \<Rightarrow> int \<Rightarrow> dispatch_failure option"
  cd_acquire :: "string \<Rightarrow> string option \<Rightarrow> bool option \<Rightarrow> baton \<Rightarrow> acquire_answer \<times> baton"
  cd_finish :: "string \<Rightarrow> int \<Rightarrow> finish_answer"
  cd_release :: "baton \<Rightarrow> baton"
  cd_publish :: "baton \<Rightarrow> baton"
  cd_render :: "dispatch_failure \<Rightarrow> string"

subsection \<open>Its operations\<close>

definition send_dispatch_failure ::
  "conductor \<Rightarrow> string \<Rightarrow> int \<Rightarrow> string \<Rightarrow> dispatch_failure \<Rightarrow> bool \<Rightarrow> baton \<Rightarrow> baton" where
  "send_dispatch_failure w j n inst failure unavailable b =
     (let s = get_sheet_state b j n;
          attempt = (case s of None \<Rightarrow> 1 | Some s \<Rightarrow> normal_attempts s + completion_attempts s + 1)
      in put_nowait (SheetAttemptResult ((attempt_report j n inst attempt)
           \<lparr>ar_event_generation := get_job_generation b j,
            ar_dispatch_epoch := map_option dispatch_epoch s,
            ar_execution_success := False,
            ar_error_classification := Some (if unavailable then ''INSTRUMENT_UNAVAILABLE'' else ''E505''),
            ar_error_code := (if unavailable then Some ''E505'' else None),
            ar_error_message := Some (Text (cd_render w failure))\<rparr>)) b)"

definition is_dispatch_registration_current :: "string \<Rightarrow> int \<Rightarrow> int \<Rightarrow> baton \<Rightarrow> bool" where
  "is_dispatch_registration_current j n token b \<longleftrightarrow>
     is_job_registration_current b j token \<and> get_sheet_state b j n \<noteq> None"

text \<open>The writes of \<open>_create_musician_task_after_acquire\<close>.\<close>

definition clear_report :: "sheet \<Rightarrow> sheet" where
  "clear_report s =
     s\<lparr>validation_passed := None, validation_details := None, error_message := None, error_code := None,
       attempt_count := normal_attempts s + completion_attempts s + 1\<rparr>"

definition accepted :: "baton \<Rightarrow> verdict \<times> baton" where "accepted b = (Returned (Some True), b)"
definition declined :: "baton \<Rightarrow> verdict \<times> baton" where "declined b = (Returned (Some False), b)"

text \<open>
  The lease: an instrument that refuses an interactive session explicitly asked for on
  another one is asked again without. The result tells of the first answer whether the
  registration was still current when it came.
\<close>

fun answer_error :: "acquire_answer \<Rightarrow> (string \<times> bool) option" where
  "answer_error Leased = None"
| "answer_error (NotRegistered e) = Some (e, True)"
| "answer_error (Refused e) = Some (e, False)"
| "answer_error (AcquireError e) = Some (e, False)"

definition acquire_lease ::
  "conductor \<Rightarrow> string \<Rightarrow> int \<Rightarrow> int \<Rightarrow> adapter_sheet \<Rightarrow> string \<Rightarrow> string option \<Rightarrow> baton
     \<Rightarrow> acquire_answer option \<times> baton" where
  "acquire_lease w j n token sh inst mo b =
     (case cd_acquire w inst mo (as_interactive sh) b of
        (Leased, b') \<Rightarrow> (Some Leased, b')
      | (AcquireError e, b') \<Rightarrow> (Some (AcquireError e), b')
      | (refusal, b') \<Rightarrow>
          if \<not> is_dispatch_registration_current j n token b' then (None, b')
          else if as_interactive sh = Some True \<and> inst \<noteq> as_instrument_name sh
          then (case cd_acquire w inst mo (Some False) b' of (answer, b'') \<Rightarrow> (Some answer, b''))
          else (Some refusal, b'))"

definition spawn_musician :: "conductor \<Rightarrow> string \<Rightarrow> int \<Rightarrow> int \<Rightarrow> string \<Rightarrow> baton \<Rightarrow> verdict \<times> baton" where
  "spawn_musician w j n token inst b =
     (let failed = (\<lambda>e b.
            let b' = cd_release w b in
            if \<not> is_dispatch_registration_current j n token b' then declined b'
            else accepted (send_dispatch_failure w j n inst (PostAcquisitionFailed e) False b'))
      in case cd_finish w j n of
           FailsEarly e \<Rightarrow> failed e b
         | FailsLate e \<Rightarrow> failed e (upd_sheet j n clear_report b)
         | Spawned \<Rightarrow> accepted (cd_publish w (upd_sheet j n clear_report b)))"

definition dispatch_callback :: "conductor \<Rightarrow> callback" where
  "dispatch_callback w j n b =
     (case get_job_registration_token b j of
        None \<Rightarrow> declined b
      | Some token \<Rightarrow>
          if get_job_generation b j = None then declined b
          else
            let inst = (case get_sheet_state b j n of None \<Rightarrow> [] | Some s \<Rightarrow> or_empty (instrument_name s)) in
            case cd_sheet w j n of
              None \<Rightarrow> accepted (send_dispatch_failure w j n inst (SheetNotFound n) False b)
            | Some sh \<Rightarrow>
                (case get_sheet_state b j n of
                   None \<Rightarrow> declined b
                 | Some s \<Rightarrow>
                     if \<not> cd_has_pool w
                     then accepted (send_dispatch_failure w j n (as_instrument_name sh) NoBackendPool False b)
                     else
                       case cd_setup w j n of
                         Some failure \<Rightarrow> accepted (send_dispatch_failure w j n inst failure False b)
                       | None \<Rightarrow>
                           (case acquire_lease w j n token sh inst (model s) b of
                              (None, b1) \<Rightarrow> declined b1
                            | (Some answer, b1) \<Rightarrow>
                                (case answer_error answer of
                                   Some (e, unavailable) \<Rightarrow>
                                     if \<not> is_dispatch_registration_current j n token b1 then declined b1
                                     else accepted (send_dispatch_failure w j n inst
                                            (AcquisitionFailed inst e) unavailable b1)
                                 | None \<Rightarrow>
                                     if \<not> is_dispatch_registration_current j n token b1
                                     then declined (cd_release w b1)
                                     else spawn_musician w j n token inst b1))))"

subsection \<open>It only reports\<close>

text \<open>
  No other task registers or deregisters a job, writes a sheet, unregisters an instrument or
  drops the timer wheel while the callback waits.
\<close>

definition idle :: "baton \<Rightarrow> baton \<Rightarrow> bool" where
  "idle b b' \<longleftrightarrow> same_jobs b b' \<and> (b_timer b \<noteq> None \<longrightarrow> b_timer b' \<noteq> None) \<and>
     (\<forall>i. dget (b_instruments b) i \<noteq> None \<longrightarrow> dget (b_instruments b') i \<noteq> None)"

definition undisturbed :: "conductor \<Rightarrow> bool" where
  "undisturbed w \<longleftrightarrow> (\<forall>b. idle b (cd_release w b) \<and> idle b (cd_publish w b) \<and>
     (\<forall>inst mo interactive. idle b (snd (cd_acquire w inst mo interactive b))))"

text \<open>What the callback may do to the baton; \<open>tidy\<close> composes.\<close>

definition tidy :: "string \<Rightarrow> int \<Rightarrow> baton \<Rightarrow> baton \<Rightarrow> bool" where
  "tidy j n b b' \<longleftrightarrow> at_sheet j n b b' \<and>
     rel_option reports_only (get_sheet_state b j n) (get_sheet_state b' j n)"

lemma reports_only_trans: "reports_only r s \<Longrightarrow> reports_only s t \<Longrightarrow> reports_only r t"
  by (simp add: reports_only_def)

interpretation tidy: evolution "tidy j n" for j n
proof
  show "tidy j n b b" for b by (simp add: tidy_def at_sheet.evo_refl option.rel_refl)
next
  fix b b' b'' assume "tidy j n b b'" "tidy j n b' b''"
  then show "tidy j n b b''"
    unfolding tidy_def
    by (cases "get_sheet_state b j n"; cases "get_sheet_state b' j n"; cases "get_sheet_state b'' j n")
      (auto intro: at_sheet.evo_trans reports_only_trans)
qed

lemma tidy_idle: "idle b b' \<Longrightarrow> tidy j n b b'"
  by (auto simp: idle_def tidy_def same_jobs_sheet option.rel_refl intro: at_sheet_same)

lemma tidy_failure: "tidy j n b (send_dispatch_failure w j n inst failure unavailable b)"
  by (rule tidy_idle) (simp add: idle_def send_dispatch_failure_def put_nowait_def Let_def same_jobs_def)

lemma tidy_clear: "tidy j n b (upd_sheet j n clear_report b)"
proof -
  have "reports_only s (clear_report s)" for s
    by (simp add: reports_only_def blank_report_def clear_report_def)
  then show ?thesis
    by (cases "get_sheet_state b j n") (auto simp: tidy_def at_sheet_upd)
qed

lemma tidy_acquire:
  assumes "undisturbed w" and "acquire_lease w j n token sh inst mo b = (r, b')"
  shows "tidy j n b b'"
proof -
  have step: "tidy j n b (snd (cd_acquire w inst mo interactive b))" for b interactive
    using assms(1) by (simp add: undisturbed_def tidy_idle)
  obtain answer b1 where first: "cd_acquire w inst mo (as_interactive sh) b = (answer, b1)" by (metis surj_pair)
  obtain answer' b2 where second: "cd_acquire w inst mo (Some False) b1 = (answer', b2)" by (metis surj_pair)
  have "tidy j n b b1" "tidy j n b1 b2"
    using step [of b "as_interactive sh"] step [of b1 "Some False"] first second by simp_all
  with assms(2) first second show ?thesis
    by (cases answer) (auto simp: acquire_lease_def split: if_splits intro: tidy.evo_trans)
qed

lemma current_tidy:
  assumes "tidy j n b b'" and "get_sheet_state b j n = Some s"
  shows "is_dispatch_registration_current j n token b' = is_dispatch_registration_current j n token b"
  using assms at_sheet_current [of j n b b' token]
  by (cases "get_sheet_state b' j n") (auto simp: tidy_def is_dispatch_registration_current_def)

lemma acquire_current:
  assumes "undisturbed w" and "acquire_lease w j n token sh inst mo b = (r, b')"
    and "get_sheet_state b j n = Some s" and "is_dispatch_registration_current j n token b"
  shows "r \<noteq> None" and "is_dispatch_registration_current j n token b'"
proof -
  show "is_dispatch_registration_current j n token b'"
    using current_tidy [OF tidy_acquire [OF assms(1,2)] assms(3)] assms(4) by simp
  obtain answer b1 where first: "cd_acquire w inst mo (as_interactive sh) b = (answer, b1)" by (metis surj_pair)
  have "tidy j n b b1"
    using assms(1) first by (metis snd_conv tidy_idle undisturbed_def)
  from current_tidy [OF this assms(3)] assms(4) have "is_dispatch_registration_current j n token b1" by simp
  with assms(2) first show "r \<noteq> None"
    by (cases answer) (auto simp: acquire_lease_def split: if_splits prod.splits)
qed

lemma tidy_spawn:
  assumes "undisturbed w" and "spawn_musician w j n token inst b = (v, b')"
  shows "tidy j n b b'"
    and "get_sheet_state b j n = Some s \<Longrightarrow> is_dispatch_registration_current j n token b \<Longrightarrow>
      v = Returned (Some True)"
proof -
  let ?b = "upd_sheet j n clear_report b"
  have wait: "tidy j n b (cd_release w b)" "tidy j n b (cd_publish w b)" for b
    using assms(1) by (simp_all add: undisturbed_def tidy_idle)
  have path: "tidy j n b (cd_release w ?b)" "tidy j n b (cd_publish w ?b)"
    by (rule tidy.evo_trans [OF tidy_clear wait(1)], rule tidy.evo_trans [OF tidy_clear wait(2)])
  show "tidy j n b b'"
    using assms(2)
    by (auto simp: spawn_musician_def accepted_def declined_def Let_def wait path
        split: finish_answer.splits if_splits
        intro: tidy.evo_trans [OF wait(1) tidy_failure] tidy.evo_trans [OF path(1) tidy_failure])
  assume s: "get_sheet_state b j n = Some s" and cur: "is_dispatch_registration_current j n token b"
  show "v = Returned (Some True)"
    using assms(2) cur current_tidy [OF wait(1) s] current_tidy [OF path(1) s]
    by (auto simp: spawn_musician_def accepted_def declined_def Let_def
        split: finish_answer.splits if_splits)
qed

lemma dispatch_callback_tidy:
  assumes "undisturbed w" and "dispatch_callback w j n b = (v, b')"
  shows "tidy j n b b'"
    and "get_sheet_state b j n = Some s \<Longrightarrow> get_job_generation b j \<noteq> None \<Longrightarrow> v = Returned (Some True)"
proof -
  have fail: "tidy j n b b1 \<Longrightarrow> tidy j n b (send_dispatch_failure w j n inst failure u b1)" for b1 inst failure u
    by (rule tidy.evo_trans [OF _ tidy_failure])
  have release: "tidy j n b b1 \<Longrightarrow> tidy j n b (cd_release w b1)" for b1
    by (rule tidy.evo_trans [OF _ tidy_idle]) (use assms(1) in \<open>auto simp: undisturbed_def\<close>)
  have spawn: "tidy j n b b1 \<Longrightarrow> spawn_musician w j n token inst b1 = (v, b2) \<Longrightarrow> tidy j n b b2" for token inst b1 b2
    by (rule tidy.evo_trans [OF _ tidy_spawn(1) [OF assms(1)]])
  show "tidy j n b b'"
    using assms(2)
    by (auto simp: dispatch_callback_def accepted_def declined_def Let_def tidy.evo_refl
        split: option.splits if_splits prod.splits
        intro: fail [OF tidy.evo_refl] fail release spawn tidy_acquire [OF assms(1)])
  assume s: "get_sheet_state b j n = Some s" and gen: "get_job_generation b j \<noteq> None"
  obtain token where token: "get_job_registration_token b j = Some token"
    using gen by (auto simp: get_job_generation_def get_job_registration_token_def split: option.splits)
  then have cur: "is_dispatch_registration_current j n token b"
    using s by (auto simp: is_dispatch_registration_current_def is_job_registration_current_def
        get_job_registration_token_def split: option.splits)
  note kept = acquire_current [OF assms(1) _ s cur]
  have spawned: "v' = Returned (Some True)"
    if a: "acquire_lease w j n token sh i mo b = (r, b1)" and "spawn_musician w j n token i b1 = (v', b2)"
    for sh i mo r b1 v' b2
  proof -
    from tidy_acquire [OF assms(1) a] s obtain s1 where "get_sheet_state b1 j n = Some s1"
      by (cases "get_sheet_state b1 j n") (auto simp: tidy_def)
    from tidy_spawn(2) [OF assms(1) that(2) this kept(2) [OF a]] show ?thesis .
  qed
  show "v = Returned (Some True)"
    using assms(2) s gen token
    by (auto simp: accepted_def declined_def Let_def dispatch_callback_def
        split: option.splits if_splits prod.splits dest: kept spawned)
qed

text \<open>
  The callback of the conductor writes of the jobs only the report of its own sheet, and
  never declines a sheet of a job that the adapter registered (with a generation) or raises
  for it: what goes wrong becomes a failure event in the inbox.
\<close>

lemma dispatch_callback_discreet: "undisturbed w \<Longrightarrow> discreet (dispatch_callback w)"
  using dispatch_callback_tidy(1) unfolding discreet_def tidy_def by blast

lemma dispatch_callback_accepts:
  assumes "undisturbed w" and "get_job_generation b j \<noteq> None"
  shows "\<not> declines (dispatch_callback w) b j n"
proof
  assume "declines (dispatch_callback w) b j n"
  then obtain b1 s where b1: "job_identity b1 j = job_identity b j" "get_sheet_state b1 j n = Some s"
    "fst (dispatch_callback w j n b1) \<in> {Raised, Returned (Some False)}" unfolding declines_def by blast
  from b1(1) assms(2) have "get_job_generation b1 j \<noteq> None" by (simp add: job_identity_def)
  with dispatch_callback_tidy(2) [OF assms(1) _ b1(2)] b1(3) show False by (metis (no_types) empty_iff
      insert_iff option.inject prod.collapse verdict.distinct(1) verdict.inject)
qed

subsection \<open>A stage\<close>

text \<open>A conductor whose pool lends at once; and one that has lost its pool.\<close>

definition stage :: conductor where
  "stage =
     \<lparr>cd_sheet = (\<lambda>j n. Some \<lparr>as_instrument_name = ''ollama'', as_interactive = None\<rparr>), cd_has_pool = True,
      cd_setup = (\<lambda>j n. None), cd_acquire = (\<lambda>inst mo interactive b. (Leased, b)),
      cd_finish = (\<lambda>j n. Spawned), cd_release = (\<lambda>b. b), cd_publish = (\<lambda>b. b),
      cd_render = (\<lambda>failure. ''failed'')\<rparr>"

lemma undisturbed_stage: "undisturbed stage" "undisturbed (stage\<lparr>cd_has_pool := False\<rparr>)"
  by (simp_all add: undisturbed_def stage_def idle_def same_jobs_def)

lemma stage_runs:
  "map_option attempt_count (get_sheet_state (snd (dispatch_callback stage ''a'' 1 office)) ''a'' 1) = Some 1"
  "length (b_inbox (snd (dispatch_callback stage ''a'' 1 office))) = 0"
  "map event_job (b_inbox (snd (dispatch_callback (stage\<lparr>cd_has_pool := False\<rparr>) ''a'' 1 office))) = [Some ''a'']"
  by code_simp+

lemma declines_stage: "\<not> declines (dispatch_callback stage) office ''b'' 2"
proof (rule dispatch_callback_accepts [OF undisturbed_stage(1)])
  show "get_job_generation office ''b'' \<noteq> None" by code_simp
qed

end
