(* ===== verification/Dispatch_Routes.thy ===== *)
theory Dispatch_Routes
  imports Dispatch_Callback
begin

section \<open>Routes, waits and wake-ups of a dispatch cycle\<close>

text \<open>
  Two further instances of the contract of ready sheets: the slots of every route stay within
  its limit, recounted from the baton after the cycle; and a cycle that runs to its end
  leaves no ready sheet without a recorded reason, with a wake-up armed for the staggered.
\<close>

subsection \<open>Occupied routes\<close>

definition on_route :: "string \<Rightarrow> string \<times> int \<Rightarrow> string \<times> string option \<Rightarrow> bool" where
  "on_route key p r \<longleftrightarrow> route_key (fst r) (snd r) = key"

text \<open>Every way to read a key as a route has a limit, and none above \<open>l\<close>.\<close>

definition key_limit :: "dispatch_config \<Rightarrow> string \<Rightarrow> int \<Rightarrow> bool" where
  "key_limit cfg key l \<longleftrightarrow>
     (\<forall>inst mo. route_key inst mo = key \<longrightarrow> (\<exists>l'. route_limit cfg inst key = Some l' \<and> l' \<le> l))"

definition all_registered :: "baton \<Rightarrow> bool" where
  "all_registered b \<longleftrightarrow> (\<forall>j n s. get_sheet_state b j n = Some s \<longrightarrow> routes_registered b s)"

definition counts_true :: "dispatch_config \<Rightarrow> cycle \<Rightarrow> bool" where
  "counts_true cfg c \<longleftrightarrow> all_registered (cy_baton c) \<and>
     (\<forall>key. dget_or (cy_models c) key 0 = slots (on_route key) (occupied_executions (cy_baton c) cfg))"

definition tally :: "dispatch_config \<Rightarrow> cycle \<Rightarrow> cycle \<Rightarrow> bool" where
  "tally cfg c c' \<longleftrightarrow> (counts_true cfg c \<longrightarrow>
     counts_true cfg c' \<and>
     (\<forall>key l. key_limit cfg key l \<longrightarrow> dget_or (cy_models c') key 0 \<le> max (dget_or (cy_models c) key 0) l))"

lemma tally_trans: "tally cfg a b \<Longrightarrow> tally cfg b c \<Longrightarrow> tally cfg a c"
  unfolding tally_def by (metis max.coboundedI2 max.bounded_iff max_def order_trans)

lemma registered_step:
  assumes reg: "all_registered (cy_baton c)" and at: "at_sheet j n (cy_baton c) (cy_baton c')"
    and s': "get_sheet_state (cy_baton c') j n = Some s'" and own: "routes_registered (cy_baton c') s'"
  shows "all_registered (cy_baton c')"
  unfolding all_registered_def
proof (intro allI impI)
  fix k m s assume s: "get_sheet_state (cy_baton c') k m = Some s"
  show "routes_registered (cy_baton c') s"
  proof (cases "(k, m) = (j, n)")
    case True
    with s s' own show ?thesis by simp
  next
    case False
    with s at_sheet_others [OF at False] reg have "routes_registered (cy_baton c) s"
      by (simp add: all_registered_def)
    with at show ?thesis by (auto simp: routes_registered_def at_sheet_def)
  qed
qed

lemma dispatchable_inactive: "dispatchable (status s) \<Longrightarrow> active_route s = None"
  by (auto simp: active_route_def dispatchable_def is_active_def)

lemma occupied_others:
  "at_sheet j n b b' \<Longrightarrow> (k, m) \<noteq> (j, n) \<Longrightarrow>
     dget (occupied_executions b' cfg) (k, m) = dget (occupied_executions b cfg) (k, m)"
  by (simp add: occupied_get at_sheet_others split: option.split)

lemma tally_pass:
  assumes at: "at_sheet j n (cy_baton c) (cy_baton c')" and ready: "ready_in j n c"
    and pass: "passed_over cfg cb j n c c'"
  shows "tally cfg c c'"
proof -
  from pass obtain s s' where s: "get_sheet_state (cy_baton c) j n = Some s"
    "get_sheet_state (cy_baton c') j n = Some s'" "status s' = status s \<or> status s' = PENDING"
    "routes_registered (cy_baton c) s \<longrightarrow> routes_registered (cy_baton c') s'"
    and same: "same_counts c c'" by (auto simp: passed_over_def)
  from ready s have "active_route s = None" "active_route s' = None"
    by (auto simp: ready_in_def dispatchable_def active_route_def is_active_def)
  then have "dget (occupied_executions (cy_baton c') cfg) (k, m) = dget (occupied_executions (cy_baton c) cfg) (k, m)" for k m
    using occupied_others [OF at, of k m] s 
    by (cases "(k, m) = (j, n)") (simp_all add: occupied_get split: option.split)
  then have "dget (occupied_executions (cy_baton c') cfg) = dget (occupied_executions (cy_baton c) cfg)" by auto
  then have "slots P (occupied_executions (cy_baton c') cfg) = slots P (occupied_executions (cy_baton c) cfg)" for P
    by (rule slots_cong [OF distinct_occupied distinct_occupied])
  moreover have "all_registered (cy_baton c) \<Longrightarrow> all_registered (cy_baton c')"
    using registered_step [OF _ at s(2)] s(1,4) by (simp add: all_registered_def)
  ultimately show ?thesis using same by (simp add: tally_def counts_true_def same_counts_def)
qed

lemma tally_take:
  assumes at: "at_sheet j n (cy_baton c) (cy_baton c')" and ready: "ready_in j n c"
    and take: "taken_up cfg (occupied_executions b cfg) j n c c'"
  shows "tally cfg c c'"
proof -
  from take obtain s s' where s: "get_sheet_state (cy_baton c) j n = Some s"
    "get_sheet_state (cy_baton c') j n = Some s'" "status s' = DISPATCHED"
    and free: "dget (occupied_executions b cfg) (j, n) = None"
    and route: "routes_registered (cy_baton c) s \<Longrightarrow> routes_registered (cy_baton c') s' \<and>
      cy_models c' = count_key (route_key (or_empty (instrument_name s')) (model s')) (cy_models c) \<and>
      \<not> at_limit (route_limit cfg (or_empty (instrument_name s')) (route_key (or_empty (instrument_name s')) (model s')))
         (dget_or (cy_models c) (route_key (or_empty (instrument_name s')) (model s')) 0)"
    by (auto simp: taken_up_def Let_def)
  define r where "r = (or_empty (instrument_name s'), model s')"
  have none: "dget (opt_or (dc_active_executions cfg) []) (j, n) = None"
    using free by (auto simp: occupied_get split: option.splits)
  have old: "dget (occupied_executions (cy_baton c) cfg) (j, n) = None"
    using none s(1) ready by (auto simp: occupied_get ready_in_def dispatchable_inactive)
  have new: "dget (occupied_executions (cy_baton c') cfg) (j, n) = Some r"
    using none s(2,3) by (simp add: occupied_get active_route_def is_active_def r_def)
  have "dget (occupied_executions (cy_baton c') cfg) (k, m) =
      ((dget (occupied_executions (cy_baton c) cfg))((j, n) \<mapsto> r)) (k, m)" for k m
    using occupied_others [OF at, of k m] new by (cases "(k, m) = (j, n)") auto
  then have upd: "dget (occupied_executions (cy_baton c') cfg) =
      (dget (occupied_executions (cy_baton c) cfg))((j, n) \<mapsto> r)" by auto
  note add = slots_add [OF distinct_occupied distinct_occupied upd old]
  show ?thesis
    unfolding tally_def
  proof
    assume true: "counts_true cfg c"
    with s(1) have "routes_registered (cy_baton c) s" by (simp add: counts_true_def all_registered_def)
    note route = route [OF this]
    let ?key = "route_key (or_empty (instrument_name s')) (model s')"
    have "all_registered (cy_baton c')"
      using registered_step [OF _ at s(2)] route true by (simp add: counts_true_def)
    moreover have "dget_or (cy_models c') key 0 = slots (on_route key) (occupied_executions (cy_baton c') cfg)" for key
      using route true add [of "on_route key"] by (auto simp: counts_true_def count_key_get on_route_def r_def)
    moreover have "dget_or (cy_models c') key 0 \<le> max (dget_or (cy_models c) key 0) l"
      if "key_limit cfg key l" for key l
    proof (cases "key = ?key")
      case True
      with that obtain l' where "route_limit cfg (or_empty (instrument_name s')) ?key = Some l'" "l' \<le> l"
        by (auto simp: key_limit_def)
      with route True show ?thesis by (simp add: count_key_get)
    next
      case False
      with route show ?thesis by (simp add: count_key_get)
    qed
    ultimately show "counts_true cfg c' \<and> (\<forall>key l. key_limit cfg key l \<longrightarrow>
        dget_or (cy_models c') key 0 \<le> max (dget_or (cy_models c) key 0) l)"
      by (simp add: counts_true_def)
  qed
qed

interpretation tally: ready_contract "tally cfg" ev cfg "occupied_executions b cfg" cb for ev cfg b cb
proof unfold_locales
  show "tally cfg c c" for c by (simp add: tally_def)
qed (blast intro: tally_trans, blast intro: tally_pass, blast intro: tally_take)

text \<open>
  C6. With every instrument of every chain registered, jobs whose sheets are registered under
  their own numbers, and a callback that of the jobs writes no more than the report fields of
  the sheet it is called for, the number of occupied slots of a route that every reading of
  its key limits, recounted after the cycle, exceeds the limit of the route only if it did
  before: no instrument and no model is overbooked, with balancing and falling back in
  between.
\<close>

theorem dispatch_respects_route_limits:
  assumes "dispatch_ready ev cfg cb b = (r, b')" and "discreet cb" and "all_registered b"
    and "\<And>j jb. get_job b j = Some jb \<Longrightarrow> orderly jb" and "key_limit cfg key l"
  shows "dget_or (count_occupied_per_model (occupied_executions b' cfg)) key 0
    \<le> max (dget_or (count_occupied_per_model (occupied_executions b cfg)) key 0) l"
proof (cases "b_shutting_down b")
  case True
  with assms(1) show ?thesis by (simp add: dispatch_ready_def)
next
  case False
  from cycle_result [OF assms(1) False] obtain stop c where run: "run_cycle ev cfg cb b = (stop, c)"
    and same: "same_jobs (cy_baton c) b'" by blast
  have tally: "tally cfg (start_cycle cfg b) c"
    using run refl assms(2,4) by (rule tally.cycle_ready(1))
  have route: "on_route key = (\<lambda>p r. route_key (fst r) (snd r) = key)" for key
    by (intro ext) (simp add: on_route_def)
  have "counts_true cfg (start_cycle cfg b)"
    using assms(3) by (simp add: counts_true_def start_cycle_def Let_def count_per_model route)
  with tally assms(5) have "counts_true cfg c"
    "dget_or (cy_models c) key 0 \<le> max (dget_or (cy_models (start_cycle cfg b)) key 0) l"
    by (auto simp: tally_def)
  moreover have "dget (occupied_executions b' cfg) (k, m) = dget (occupied_executions (cy_baton c) cfg) (k, m)" for k m
    by (simp add: occupied_get same_jobs_sheet [OF same] split: option.split)
  then have "dget (occupied_executions b' cfg) = dget (occupied_executions (cy_baton c) cfg)" by auto
  then have "slots P (occupied_executions b' cfg) = slots P (occupied_executions (cy_baton c) cfg)" for P
    by (rule slots_cong [OF distinct_occupied distinct_occupied])
  ultimately show ?thesis
    by (simp add: counts_true_def count_per_model route start_cycle_def Let_def)
qed

subsection \<open>Nobody waits without a reason\<close>

definition settled :: "dispatch_config \<Rightarrow> callback \<Rightarrow> string \<Rightarrow> int \<Rightarrow> cycle \<Rightarrow> bool" where
  "settled cfg cb j n c \<longleftrightarrow> waiting cfg j n c \<or> declines cb (cy_baton c) j n \<or> (j, n) \<in> set (dr_dispatched_sheets (cy_result c))"

text \<open>A requested wake-up names a live registration, or the shared stagger of direct callers.\<close>

definition wakes_valid :: "cycle \<Rightarrow> bool" where
  "wakes_valid c \<longleftrightarrow> (\<forall>k v. dget (cy_wakes c) k = Some v \<longrightarrow>
     k = ''__legacy__'' \<or> is_job_registration_current (cy_baton c) k (snd v))"

definition settles :: "dispatch_config \<Rightarrow> callback \<Rightarrow> cycle \<Rightarrow> cycle \<Rightarrow> bool" where
  "settles cfg cb c c' \<longleftrightarrow>
     (\<forall>j n. settled cfg cb j n c \<longrightarrow> settled cfg cb j n c') \<and>
     (wakes_valid c \<longrightarrow> wakes_valid c') \<and>
     (\<forall>j. job_identity (cy_baton c') j = job_identity (cy_baton c) j) \<and>
     (b_timer (cy_baton c) \<noteq> None \<longrightarrow> b_timer (cy_baton c') \<noteq> None)"

lemma settles_step:
  assumes at: "at_sheet j n (cy_baton c) (cy_baton c')" and kept: "wakes_kept cfg j token c c'"
    and cur: "is_job_registration_current (cy_baton c) j token"
    and ds: "set (dr_dispatched_sheets (cy_result c)) \<subseteq> set (dr_dispatched_sheets (cy_result c'))"
    and own: "settled cfg cb j n c'"
  shows "settles cfg cb c c'"
proof -
  have id: "job_identity (cy_baton c') k = job_identity (cy_baton c) k" for k
    using at by (cases "k = j")
      (auto simp: at_sheet_def job_identity_def get_job_registration_token_def get_job_generation_def)
  note cur' = identity_current [OF id]
  have "settled cfg cb k m c'" if "settled cfg cb k m c" for k m
  proof (cases "(k, m) = (j, n)")
    case True
    with own that show ?thesis by simp
  next
    case False
    from that kept ds show ?thesis
      unfolding settled_def waiting_def at_sheet_others [OF at False] wakes_kept_def declines_cong [OF id]
      by blast
  qed
  moreover have "wakes_valid c'" if "wakes_valid c"
    unfolding wakes_valid_def
  proof (intro allI impI)
    fix k v assume v: "dget (cy_wakes c') k = Some v"
    with kept consider "dget (cy_wakes c) k = Some v"
      | "k = wake_key cfg j" "snd v = wake_gen cfg j token" unfolding wakes_kept_def by blast
    then show "k = ''__legacy__'' \<or> is_job_registration_current (cy_baton c') k (snd v)"
    proof cases
      case 1
      with that show ?thesis unfolding wakes_valid_def cur' by blast
    next
      case 2
      with cur show ?thesis by (cases "has_job_stagger cfg j") (simp_all add: wake_key_def wake_gen_def cur')
    qed
  qed
  ultimately show ?thesis using at id by (auto simp: settles_def at_sheet_def)
qed

interpretation settling: ready_contract "settles cfg cb" ev cfg occ cb for ev cfg occ cb
proof unfold_locales
  show "settles cfg cb c c" for c by (simp add: settles_def)
  show "settles cfg cb s u" if "settles cfg cb s t" "settles cfg cb t u" for s t u
    using that by (simp add: settles_def)
  show "settles cfg cb c c'"
    if "at_sheet j n (cy_baton c) (cy_baton c')" "wakes_kept cfg j token c c'" "ready_in j n c"
      "is_job_registration_current (cy_baton c) j token" "passed_over cfg cb j n c c'" for j token n c c'
    using that(1,2,4) by (rule settles_step)
      (use that(5) in \<open>auto simp: passed_over_def settled_def same_counts_def\<close>)
  show "settles cfg cb c c'"
    if "at_sheet j n (cy_baton c) (cy_baton c')" "wakes_kept cfg j token c c'" "ready_in j n c"
      "is_job_registration_current (cy_baton c) j token" "taken_up cfg occ j n c c'" for j token n c c'
    using that(1,2,4) by (rule settles_step) (use that(5) in \<open>auto simp: taken_up_def settled_def\<close>)
qed

text \<open>Arming the wake-ups.\<close>

definition armed :: "string \<Rightarrow> baton \<Rightarrow> bool" where
  "armed k b \<longleftrightarrow> dget (b_stagger_wake_handles b) k \<noteq> None"

lemma arm_wake_timer: "b_timer b \<noteq> None \<Longrightarrow> b_timer (arm_wake ev w b) \<noteq> None"
  by (auto simp: arm_wake_def timer_schedule_def Let_def split: prod.splits option.splits)

lemma arm_wake_keeps: "armed k b \<Longrightarrow> armed k (arm_wake ev w b)"
  by (auto simp: armed_def arm_wake_def timer_schedule_def Let_def split: prod.splits option.splits)

lemma arm_wake_arms:
  "b_timer b \<noteq> None \<Longrightarrow> k = ''__legacy__'' \<or> is_job_registration_current b k (snd v) \<Longrightarrow>
     armed k (arm_wake ev (k, v) b)"
  by (auto simp: armed_def arm_wake_def timer_schedule_def Let_def split: prod.splits option.splits)

lemma arm_wake_jobs: "same_jobs b (arm_wake ev w b)"
  using same_jobs_scheduled
  by (auto simp: arm_wake_def Let_def same_jobs_def split: prod.splits option.splits if_splits)

lemma arm_wakes_arm:
  assumes "b_timer b \<noteq> None"
    and "\<And>k v. (k, v) \<in> set ws \<Longrightarrow> k = ''__legacy__'' \<or> is_job_registration_current b k (snd v)"
    and "k \<in> set (dkeys ws)"
  shows "armed k (fold (arm_wake ev) ws b)"
  using assms
proof (induction ws arbitrary: b)
  case (Cons w ws)
  obtain k' v where w: "w = (k', v)" by (metis surj_pair)
  let ?b = "arm_wake ev w b"
  have keeps: "armed k b' \<Longrightarrow> armed k (fold (arm_wake ev) ws b')" for b'
    by (induction ws arbitrary: b') (simp_all add: arm_wake_keeps)
  have cur: "is_job_registration_current ?b l tok = is_job_registration_current b l tok" for l tok
    using arm_wake_jobs [of b ev w] by (simp add: is_job_registration_current_def same_jobs_get)
  show ?case
  proof (cases "k = k'")
    case True
    with Cons.prems(2) [of k v] w have "k = ''__legacy__'' \<or> is_job_registration_current b k (snd v)"
      by simp
    with Cons.prems(1) w True have "armed k ?b" by (simp add: arm_wake_arms)
    with keeps show ?thesis by simp
  next
    case False
    with Cons w cur arm_wake_timer show ?thesis by simp
  qed
qed simp


subsection \<open>The running conductor\<close>

lemma all_registered_office: "all_registered office"
proof -
  have "list_all (\<lambda>(j, jb). list_all (\<lambda>(n, s). list_all (\<lambda>i. dget (b_instruments office) i \<noteq> None)
      (or_empty (instrument_name s) # fallback_chain s)) (j_sheets jb)) (b_jobs office)" by code_simp
  then show ?thesis
    by (force simp: all_registered_def routes_registered_def get_sheet_state_def get_job_def list_all_iff
        dest: map_of_SomeD split: option.splits)
qed

lemma key_limit_office: "key_limit office_config ''ollama'' 4"
proof -
  have "inst = ''ollama''" if "route_key inst mo = ''ollama''" for inst mo
  proof (cases "str_truthy mo")
    case True
    with that have "CHR '':'' \<in> set ''ollama''"
      by (metis (no_types) in_set_conv_decomp model_key_def route_key_def)
    then show ?thesis by simp
  qed (use that in \<open>simp add: route_key_def\<close>)
  moreover have "route_limit office_config ''ollama'' ''ollama'' = Some 4" by code_simp
  ultimately show ?thesis by (auto simp: key_limit_def)
qed

text \<open>A cycle of the office with the conductor's own callback.\<close>

definition stage_run :: "dispatch_result \<times> baton" where
  "stage_run = dispatch_ready plain_env office_config (dispatch_callback stage) office"

lemma stage_run_pair:
  "dispatch_ready plain_env office_config (dispatch_callback stage) office = (fst stage_run, snd stage_run)"
  by (simp add: stage_run_def)

lemma dispatch_respects_route_limits_witness:
  "dget_or (count_occupied_per_model (occupied_executions (snd stage_run) office_config)) ''ollama'' 0 \<le> 4 \<and>
   dget_or (count_occupied_per_model (occupied_executions (snd stage_run) office_config)) ''ollama'' 0 = 2"
proof -
  have "dget_or (count_occupied_per_model (occupied_executions office office_config)) ''ollama'' 0 = 0"
    "dget_or (count_occupied_per_model (occupied_executions (snd stage_run) office_config)) ''ollama'' 0 = 2"
    by code_simp+
  with dispatch_respects_route_limits [OF stage_run_pair dispatch_callback_discreet [OF undisturbed_stage(1)] all_registered_office
      orderly_office key_limit_office] show ?thesis by simp
qed


end
