(* ===== verification/Cycle_Check.thy ===== *)
theory Cycle_Check
  imports Prelude
begin

section \<open>Finding a dependency cycle\<close>

text \<open>
  \<open>GlobalSheetScheduler._detect_cycle\<close> of \<open>daemon/scheduler.py\<close>: an iterative depth-first
  search with three colours, the path to the current node and an explicit stack of
  \<open>(node, successors, index)\<close>, top first. A set of sheet numbers is a list without order;
  where the code iterates over one, only the choice of the reported cycle depends on it.
\<close>

datatype colour = WHITE | GRAY | BLACK

type_synonym dependencies = "(int, int list) dict"

type_synonym frame = "int \<times> int list \<times> nat"

type_synonym colours = "(int, colour) dict"

definition all_nodes :: "dependencies \<Rightarrow> int list" where
  "all_nodes deps = remdups (dkeys (items deps) @ concat (dvals (items deps)))"

text \<open>The dependents of a node, in the order of the dictionary.\<close>

definition adjacency :: "dependencies \<Rightarrow> int \<Rightarrow> int list" where
  "adjacency deps p = dkeys (filter (\<lambda>(n, ps). p \<in> set ps) (items deps))"

lemma items_iff: "(k, v) \<in> set (items d) \<longleftrightarrow> dget d k = Some v"
proof -
  have "dget (items d) k = Some v \<longleftrightarrow> (k, v) \<in> set (items d)" by (rule map_of_eq_Some_iff) simp
  then show ?thesis by (simp add: map_of_clearjunk)
qed

definition whites :: "colours \<Rightarrow> int set" where
  "whites col = {n. dget col n = Some WHITE}"

lemma finite_whites [simp]: "finite (whites col)"
proof (rule finite_subset)
  show "whites col \<subseteq> set (dkeys col)" by (auto simp: whites_def dest: dget_in_dkeys)
qed simp

definition pending_steps :: "frame list \<Rightarrow> nat" where
  "pending_steps st = sum_list (map (\<lambda>(n, succs, idx). length succs - idx) st) + length st"

lemma whites_dset: "whites (dset col n c) = (if c = WHITE then insert n (whites col) else whites col - {n})"
  by (auto simp: whites_def)

text \<open>
  The loop over the stack. A node without a colour is a \<open>KeyError\<close>, a gray one that is not
  on the path a \<open>ValueError\<close>; the result is a cycle, or the colours and the path.
\<close>

function dfs :: "(int \<Rightarrow> int list) \<Rightarrow> frame list \<Rightarrow> colours \<Rightarrow> int list
    \<Rightarrow> py_exn + (int list + colours \<times> int list)" where
  "dfs adj [] col path = Inr (Inr (col, path))"
| "dfs adj ((node, succs, idx) # st) col path =
     (if idx < length succs then
        let child = succs ! idx; st' = (node, succs, Suc idx) # st in
        case dget col child of
          None \<Rightarrow> Inl KeyError
        | Some GRAY \<Rightarrow>
            if child \<in> set path then Inr (Inl (dropWhile (\<lambda>n. n \<noteq> child) path @ [child]))
            else Inl ValueError
        | Some WHITE \<Rightarrow>
            dfs adj ((child, adj child, 0) # st') (dset col child GRAY) (path @ [child])
        | Some BLACK \<Rightarrow> dfs adj st' col path
      else dfs adj st (dset col node BLACK) (butlast path))"
  by pat_completeness auto
termination
proof (relation "inv_image (less_than <*lex*> less_than)
    (\<lambda>(adj, st, col, path). (card (whites col), pending_steps st))", goal_cases)
  case (2 adj node succs idx st col path child st')
  then have "whites (dset col child GRAY) \<subset> whites col" by (auto simp: whites_def)
  then show ?case by (simp add: psubset_card_mono)
next
  case (4 adj node succs idx st col path)
  have "card (whites (dset col node BLACK)) \<le> card (whites col)"
    by (rule card_mono) (auto simp: whites_dset)
  with 4 show ?case by (auto simp: pending_steps_def)
qed (auto simp: pending_steps_def)

fun search :: "(int \<Rightarrow> int list) \<Rightarrow> int list \<Rightarrow> colours \<Rightarrow> int list \<Rightarrow> py_exn + int list option" where
  "search adj [] col path = Inr None"
| "search adj (start # starts) col path =
     (case dget col start of
        None \<Rightarrow> Inl KeyError
      | Some WHITE \<Rightarrow>
          (case dfs adj [(start, adj start, 0)] (dset col start GRAY) (path @ [start]) of
             Inl e \<Rightarrow> Inl e
           | Inr (Inl cycle) \<Rightarrow> Inr (Some cycle)
           | Inr (Inr (col', path')) \<Rightarrow> search adj starts col' path')
      | Some _ \<Rightarrow> search adj starts col path)"

definition detect_cycle :: "dependencies \<Rightarrow> py_exn + int list option" where
  "detect_cycle deps =
     search (adjacency deps) (all_nodes deps) (map (\<lambda>n. (n, WHITE)) (all_nodes deps)) []"

subsection \<open>The invariant of the search\<close>

text \<open>
  The successors a frame has looked at are black, but for the node of the frame above it,
  which is one of them.
\<close>

fun frames_ok :: "(int \<Rightarrow> int list) \<Rightarrow> colours \<Rightarrow> int option \<Rightarrow> frame list \<Rightarrow> bool" where
  "frames_ok adj col via [] \<longleftrightarrow> True"
| "frames_ok adj col via ((n, succs, idx) # st) \<longleftrightarrow>
     succs = adj n \<and> idx \<le> length succs \<and>
     (\<forall>x \<in> set (take idx succs). dget col x = Some BLACK \<or> via = Some x) \<and>
     (\<forall>x. via = Some x \<longrightarrow> x \<in> set succs) \<and>
     frames_ok adj col (Some n) st"

definition blacks_closed :: "(int \<Rightarrow> int list) \<Rightarrow> colours \<Rightarrow> bool" where
  "blacks_closed adj col \<longleftrightarrow>
     (\<forall>n. dget col n = Some BLACK \<longrightarrow> (\<forall>m \<in> set (adj n). dget col m = Some BLACK)) \<and>
     acyclic {(p, n). dget col p = Some BLACK \<and> n \<in> set (adj p)}"

definition search_inv :: "(int \<Rightarrow> int list) \<Rightarrow> frame list \<Rightarrow> colours \<Rightarrow> int list \<Rightarrow> bool" where
  "search_inv adj st col path \<longleftrightarrow>
     (\<forall>p. dget col p \<noteq> None \<longrightarrow> (\<forall>n \<in> set (adj p). dget col n \<noteq> None)) \<and>
     path = rev (map fst st) \<and> distinct path \<and>
     (\<forall>n. n \<in> set path \<longleftrightarrow> dget col n = Some GRAY) \<and>
     frames_ok adj col None st \<and> blacks_closed adj col"

text \<open>What a search makes of the colours.\<close>

definition finished :: "colours \<Rightarrow> frame list \<Rightarrow> colours \<Rightarrow> bool" where
  "finished col st col' \<longleftrightarrow>
     (\<forall>n. dget col' n = None \<longleftrightarrow> dget col n = None) \<and>
     (\<forall>n. dget col n = Some BLACK \<longrightarrow> dget col' n = Some BLACK) \<and>
     (\<forall>n \<in> fst ` set st. dget col' n = Some BLACK)"

definition cycle_in :: "(int \<Rightarrow> int list) \<Rightarrow> int list \<Rightarrow> bool" where
  "cycle_in adj c \<longleftrightarrow> 2 \<le> length c \<and> hd c = last c \<and> successively (\<lambda>p n. n \<in> set (adj p)) c"

lemma frames_recolour:
  assumes "frames_ok adj col via st" and "\<And>x. dget col x = Some BLACK \<Longrightarrow> dget col' x = Some BLACK"
  shows "frames_ok adj col' via st"
  using assms(1)
proof (induction st arbitrary: via)
  case (Cons f st)
  obtain n succs idx where "f = (n, succs, idx)" by (cases f)
  with Cons assms(2) show ?case by (simp, blast)
qed simp

lemma frames_via_done:
  "frames_ok adj col (Some n) st \<Longrightarrow> dget col n = Some BLACK \<Longrightarrow> frames_ok adj col None st"
  by (cases st) auto

lemma frames_path: "frames_ok adj col via st \<Longrightarrow> successively (\<lambda>n p. n \<in> set (adj p)) (map fst st)"
proof (induction st arbitrary: via)
  case (Cons f st)
  then show ?case by (cases f; cases st) auto
qed simp

lemma acyclic_add_source:
  assumes "acyclic r" and "\<And>p q. (p, q) \<in> r \<Longrightarrow> q \<noteq> n" and "\<And>p q. (p, q) \<in> r \<Longrightarrow> p \<noteq> n" and "n \<notin> A"
  shows "acyclic (r \<union> {(n, m) |m. m \<in> A})"
proof -
  let ?r = "r \<union> {(n, m) |m. m \<in> A}"
  have no: "(x, n) \<notin> ?r" for x using assms(2,4) by auto
  have "(x, y) \<in> ?r\<^sup>+ \<Longrightarrow> x \<noteq> n \<Longrightarrow> (x, y) \<in> r\<^sup>+" for x y
  proof (induction rule: trancl_induct)
    case (base y)
    then show ?case by auto
  next
    case (step y z)
    then have "(x, y) \<in> r\<^sup>+" "y \<noteq> n" using no by (auto elim: tranclE)
    with step(2) show ?case by (auto intro: trancl_into_trancl)
  qed
  moreover have "(x, n) \<notin> ?r\<^sup>+" for x using no by (auto elim: tranclE)
  ultimately show ?thesis using assms(1) unfolding acyclic_def by blast
qed

lemma finished_pop:
  assumes "finished (dset col n BLACK) st col'" and "dget col n = Some old"
  shows "finished col ((n, succs, idx) # st) col'"
  using assms by (auto simp: finished_def split: if_splits)

lemma finished_push:
  assumes "finished (dset col m GRAY) (f # g # st) col'" and "dget col m = Some WHITE" and "fst g = fst h"
  shows "finished col (h # st) col'"
  using assms by (auto simp: finished_def split: if_splits)

lemma last_path: "successively P (rev xs) \<longleftrightarrow> successively (\<lambda>x y. P y x) xs"
  by (simp add: successively_rev)

lemma back_edge_cycle:
  assumes path: "path = rev (map fst ((node, succs, idx) # st))" and frames: "frames_ok adj col None ((node, succs, idx) # st)"
    and "child \<in> set path" and "child \<in> set (adj node)"
  shows "cycle_in adj (dropWhile (\<lambda>n. n \<noteq> child) path @ [child])"
proof -
  let ?c = "dropWhile (\<lambda>n. n \<noteq> child) path"
  have suc: "successively (\<lambda>p n. n \<in> set (adj p)) path"
    unfolding path last_path using frames_path [OF frames] by simp
  have ne: "?c \<noteq> []" using assms(3) by (auto simp: dropWhile_eq_Nil_conv)
  then have hd: "hd ?c = child" by (metis (mono_tags) hd_dropWhile)
  have "last ?c = last path" by (metis (mono_tags) ne dropWhile_append last_append takeWhile_dropWhile_id)
  then have "last ?c = node" by (simp add: path)
  moreover have "successively (\<lambda>p n. n \<in> set (adj p)) ?c"
    using suc by (metis (mono_tags) successively_append_iff takeWhile_dropWhile_id)
  ultimately show ?thesis
    using ne hd assms(4) by (auto simp: cycle_in_def successively_append_iff Suc_le_eq)
qed

theorem dfs_correct:
  "search_inv adj st col path \<Longrightarrow>
     case dfs adj st col path of
       Inl e \<Rightarrow> False
     | Inr (Inl c) \<Rightarrow> cycle_in adj c
     | Inr (Inr (col', path')) \<Rightarrow> search_inv adj [] col' path' \<and> finished col st col'"
proof (induction adj st col path rule: dfs.induct)
  case (1 adj col path)
  then show ?case by (simp add: finished_def)
next
  case (2 adj node succs idx st col path)
  from "2.prems" have known: "\<And>p n. dget col p \<noteq> None \<Longrightarrow> n \<in> set (adj p) \<Longrightarrow> dget col n \<noteq> None"
    and path: "path = rev (map fst ((node, succs, idx) # st))" "distinct path"
    and gray: "\<And>n. n \<in> set path \<longleftrightarrow> dget col n = Some GRAY"
    and frames: "frames_ok adj col None ((node, succs, idx) # st)"
    and blacks: "blacks_closed adj col" unfolding search_inv_def by blast+
  from frames have succs: "succs = adj node" "idx \<le> length succs"
    and looked: "\<And>x. x \<in> set (take idx succs) \<Longrightarrow> dget col x = Some BLACK"
    and below: "frames_ok adj col (Some node) st" by auto
  have node: "dget col node = Some GRAY" using gray [of node] path(1) by simp
  show ?case
  proof (cases "idx < length succs")
    case False
    let ?col = "dset col node BLACK"
    have all: "dget col x = Some BLACK" if "x \<in> set (adj node)" for x using looked succs False that by simp
    have "search_inv adj st ?col (butlast path)"
      unfolding search_inv_def
    proof (intro conjI allI impI ballI)
      show "dget ?col p \<noteq> None \<Longrightarrow> n \<in> set (adj p) \<Longrightarrow> dget ?col n \<noteq> None" for p n
        using known [of p n] known [of node n] node by (auto split: if_splits)
      show "butlast path = rev (map fst st)" "distinct (butlast path)"
        using path by (simp_all add: distinct_butlast)
      show "n \<in> set (butlast path) \<longleftrightarrow> dget ?col n = Some GRAY" for n
        using gray [of n] path by auto
      show "frames_ok adj ?col None st"
        by (rule frames_via_done [where n = node], rule frames_recolour [OF below]) auto
      have acy: "acyclic ({(p, n). dget col p = Some BLACK \<and> n \<in> set (adj p)} \<union> {(node, m) |m. m \<in> set (adj node)})"
        by (rule acyclic_add_source) (use blacks node all in \<open>auto simp: blacks_closed_def\<close>)
      have "{(p, n). dget ?col p = Some BLACK \<and> n \<in> set (adj p)} =
          {(p, n). dget col p = Some BLACK \<and> n \<in> set (adj p)} \<union> {(node, m) |m. m \<in> set (adj node)}"
        by (auto split: if_splits)
      with acy show "blacks_closed adj ?col"
        using blacks all by (auto simp: blacks_closed_def)
    qed
    from "2.IH"(3) [OF False this] False node show ?thesis
      by (auto intro: finished_pop split: sum.splits)
  next
    case True
    define child where "child = succs ! idx"
    have child: "child \<in> set (adj node)" using True succs by (simp add: child_def)
    have take: "set (take (Suc idx) succs) = insert child (set (take idx succs))"
      using True by (simp add: take_Suc_conv_app_nth child_def)
    from known [OF _ child] node obtain c where c: "dget col child = Some c" by auto
    show ?thesis
    proof (cases c)
      case GRAY
      with gray [of child] c have "child \<in> set path" by simp
      with back_edge_cycle [OF path(1) frames _ child] True c GRAY show ?thesis
        by (simp add: child_def Let_def)
    next
      case BLACK
      have "frames_ok adj col None ((node, succs, Suc idx) # st)"
        using frames True take looked c BLACK by simp
      with "2.prems" have inv: "search_inv adj ((node, succs, Suc idx) # st) col path"
        unfolding search_inv_def list.map fst_conv by blast
      have "dfs adj ((node, succs, idx) # st) col path = dfs adj ((node, succs, Suc idx) # st) col path"
        using True c BLACK by (subst dfs.simps(2)) (simp add: child_def [symmetric] Let_def del: dfs.simps)
      with "2.IH"(2) [OF True child_def refl c BLACK inv] show ?thesis
        by (auto simp: finished_def simp del: dfs.simps split: sum.splits)
    next
      case WHITE
      let ?col = "dset col child GRAY" and ?st = "(child, adj child, 0) # (node, succs, Suc idx) # st"
      have fresh: "child \<notin> set path" using gray [of child] c WHITE by simp
      have keep: "dget ?col x = Some BLACK" if "dget col x = Some BLACK" for x
        using that c WHITE by auto
      have inv: "search_inv adj ?st ?col (path @ [child])"
        unfolding search_inv_def
      proof (intro conjI allI impI ballI)
        show "dget ?col p \<noteq> None \<Longrightarrow> n \<in> set (adj p) \<Longrightarrow> dget ?col n \<noteq> None" for p n
          using known [of p n] known [of child n] c by (auto split: if_splits)
        show "path @ [child] = rev (map fst ?st)" "distinct (path @ [child])"
          using path fresh by simp_all
        show "n \<in> set (path @ [child]) \<longleftrightarrow> dget ?col n = Some GRAY" for n
          using gray [of n] by auto
        have "frames_ok adj ?col (Some node) st" by (rule frames_recolour [OF below keep])
        then show "frames_ok adj ?col None ?st"
          using True succs(1) take looked child by (auto intro!: keep)
        have "dget ?col x = Some BLACK \<longleftrightarrow> dget col x = Some BLACK" for x using c WHITE by auto
        then show "blacks_closed adj ?col" using blacks by (simp add: blacks_closed_def)
      qed
      have "dfs adj ((node, succs, idx) # st) col path = dfs adj ?st ?col (path @ [child])"
          using True c WHITE by (subst dfs.simps(2)) (simp add: child_def [symmetric] Let_def del: dfs.simps)
        with "2.IH"(1) [OF True child_def refl c WHITE inv] c WHITE show ?thesis
          by (auto simp del: dfs.simps split: sum.splits elim: finished_push)
    qed
  qed
qed

text \<open>The search from every node in turn: without a cycle it ends with all of them black.\<close>

lemma search_correct:
  assumes "search_inv adj [] col []" and "set starts \<subseteq> {n. dget col n \<noteq> None}"
    and "\<And>n. dget col n \<noteq> None \<Longrightarrow> n \<in> set starts \<or> dget col n = Some BLACK"
  shows "case search adj starts col [] of
      Inl e \<Rightarrow> False
    | Inr (Some c) \<Rightarrow> cycle_in adj c
    | Inr None \<Rightarrow> \<exists>col'. blacks_closed adj col' \<and> (\<forall>n. dget col n \<noteq> None \<longrightarrow> dget col' n = Some BLACK)"
  using assms
proof (induction starts arbitrary: col)
  case Nil
  then show ?case by (auto simp: search_inv_def)
next
  case (Cons start starts)
  from Cons.prems(2) obtain c where c: "dget col start = Some c" by auto
  have not_gray: "dget col n \<noteq> Some GRAY" for n using Cons.prems(1) by (simp add: search_inv_def)
  show ?case
  proof (cases c)
    case BLACK
    with Cons.IH [of col] Cons.prems c show ?thesis by auto
  next
    case WHITE
    let ?col = "dset col start GRAY" and ?st = "[(start, adj start, 0::nat)]"
    have "dget ?col x = Some BLACK \<longleftrightarrow> dget col x = Some BLACK" for x using c WHITE by auto
    then have "blacks_closed adj ?col" using Cons.prems(1) by (simp add: search_inv_def blacks_closed_def)
    moreover have "n \<in> set [start] \<longleftrightarrow> dget ?col n = Some GRAY" for n using not_gray [of n] by auto
    moreover have "dget ?col p \<noteq> None \<Longrightarrow> n \<in> set (adj p) \<Longrightarrow> dget ?col n \<noteq> None" for p n
      using Cons.prems(1) c unfolding search_inv_def by (metis dget_dset option.distinct(1))
    ultimately have "search_inv adj ?st ?col [start]" by (simp add: search_inv_def)
    note dfs = dfs_correct [OF this]
    show ?thesis
    proof (cases "dfs adj ?st ?col [start]")
      case (Inl e)
      with dfs show ?thesis by simp
    next
      case (Inr r)
      show ?thesis
      proof (cases r)
        case (Inl cycle)
        with Inr dfs c WHITE show ?thesis by simp
      next
        case (Inr s)
        obtain col' path' where s: "s = (col', path')" by (cases s)
        with dfs \<open>dfs adj ?st ?col [start] = Inr r\<close> Inr
        have inv: "search_inv adj [] col' path'" and fin: "finished ?col ?st col'" by simp_all
        then have [simp]: "path' = []" by (simp add: search_inv_def)
        have known: "dget col' n = None \<longleftrightarrow> dget col n = None"
          and black: "dget col n = Some BLACK \<Longrightarrow> dget col' n = Some BLACK" "dget col' start = Some BLACK" for n
          using fin c WHITE by (auto simp: finished_def split: if_splits)
        have "set starts \<subseteq> {n. dget col' n \<noteq> None}" using Cons.prems(2) known by auto
        moreover have "dget col' n \<noteq> None \<Longrightarrow> n \<in> set starts \<or> dget col' n = Some BLACK" for n
          using Cons.prems(3) [of n] known black by auto
        ultimately show ?thesis
          using Cons.IH [of col'] inv c WHITE s Inr \<open>dfs adj ?st ?col [start] = Inr r\<close> known
          by (auto split: sum.splits option.splits)
      qed
    qed
  qed (use not_gray c in auto)
qed

subsection \<open>What the check decides\<close>

text \<open>The relation from a prerequisite to the sheets that depend on it.\<close>

definition depends :: "dependencies \<Rightarrow> (int \<times> int) set" where
  "depends deps = {(p, n). \<exists>ps. dget (items deps) n = Some ps \<and> p \<in> set ps}"

lemma adjacency_depends: "n \<in> set (adjacency deps p) \<longleftrightarrow> (p, n) \<in> depends deps"
proof -
  have "(n, ps) \<in> set (items deps) \<longleftrightarrow> dget (items deps) n = Some ps" for ps
    by (simp add: map_of_eq_Some_iff)
  then show ?thesis by (force simp: adjacency_def depends_def)
qed

lemma node_dependent: "(p, n) \<in> depends deps \<Longrightarrow> n \<in> set (all_nodes deps) \<and> p \<in> set (all_nodes deps)"
proof -
  assume "(p, n) \<in> depends deps"
  then obtain ps where "dget (items deps) n = Some ps" "p \<in> set ps" by (auto simp: depends_def)
  then show ?thesis
    using dget_in_dkeys [of "items deps" n ps] dget_dvals [of "items deps" n ps]
    by (auto simp: all_nodes_def)
qed

lemma fresh_colours: "dget (map (\<lambda>n. (n, WHITE)) ns) n = (if n \<in> set ns then Some WHITE else None)"
  by (induction ns) auto

lemma chain_trancl:
  "successively (\<lambda>p n. (p, n) \<in> r) c \<Longrightarrow> 2 \<le> length c \<Longrightarrow> (hd c, last c) \<in> r\<^sup>+"
proof (induction c)
  case (Cons a c)
  then show ?case by (cases c; cases "tl c") (auto intro: trancl_into_trancl2)
qed simp

lemma detect_cycle_decides:
  "\<exists>r. detect_cycle deps = Inr r \<and> (r = None \<longleftrightarrow> acyclic (depends deps)) \<and>
     (case r of None \<Rightarrow> True
      | Some c \<Rightarrow> 2 \<le> length c \<and> hd c = last c \<and> successively (\<lambda>p n. (p, n) \<in> depends deps) c)"
proof -
  let ?col = "map (\<lambda>n. (n, WHITE)) (all_nodes deps)" and ?adj = "adjacency deps"
  have none: "blacks_closed ?adj ?col"
  proof -
    have no: "dget ?col p = Some BLACK \<longleftrightarrow> False" for p by (simp add: fresh_colours)
    show ?thesis unfolding blacks_closed_def no by (simp add: acyclic_def)
  qed
  have "search_inv ?adj [] ?col []"
    by (auto simp: search_inv_def none fresh_colours adjacency_depends node_dependent)
  then have s: "case search ?adj (all_nodes deps) ?col [] of
      Inl e \<Rightarrow> False
    | Inr (Some c) \<Rightarrow> cycle_in ?adj c
    | Inr None \<Rightarrow> \<exists>col'. blacks_closed ?adj col' \<and> (\<forall>n. dget ?col n \<noteq> None \<longrightarrow> dget col' n = Some BLACK)"
    by (rule search_correct) (auto simp: fresh_colours split: if_splits)
  show ?thesis
  proof (cases "detect_cycle deps")
    case (Inl e)
    with s show ?thesis by (simp add: detect_cycle_def)
  next
    case (Inr r)
    show ?thesis
    proof (cases r)
      case None
      with Inr s obtain col' where col': "blacks_closed ?adj col'"
        and black: "\<And>n. n \<in> set (all_nodes deps) \<Longrightarrow> dget col' n = Some BLACK"
        by (auto simp: detect_cycle_def fresh_colours)
      have "depends deps = {(p, n). dget col' p = Some BLACK \<and> n \<in> set (?adj p)}"
        using black node_dependent by (auto simp: adjacency_depends)
      with col' have "acyclic (depends deps)" by (simp add: blacks_closed_def)
      with Inr None show ?thesis by simp
    next
      case (Some c)
      with Inr s have c: "2 \<le> length c" "hd c = last c" "successively (\<lambda>p n. (p, n) \<in> depends deps) c"
        by (simp_all add: detect_cycle_def cycle_in_def adjacency_depends)
      with chain_trancl [of "depends deps" c] have "\<not> acyclic (depends deps)" by (auto simp: acyclic_def)
      with Inr Some c show ?thesis by simp
    qed
  qed
qed

text \<open>
  C27. \<open>_detect_cycle\<close> always ends, never raises, and reports a cycle exactly when the
  dependencies have one; what it reports is a cycle of theirs, first node repeated at the end.
\<close>

theorem detect_cycle_correct:
  "\<exists>r. detect_cycle deps = Inr r \<and> (r = None \<longleftrightarrow> acyclic (depends deps)) \<and>
     (case r of None \<Rightarrow> True
      | Some c \<Rightarrow> 2 \<le> length c \<and> hd c = last c \<and> successively (\<lambda>p n. (p, n) \<in> depends deps) c)"
  by (rule detect_cycle_decides)

text \<open>A diamond is accepted, a loop behind it is reported.\<close>

lemma detect_cycle_runs:
  "detect_cycle [(2, [1]), (3, [1]), (4, [2, 3])] = Inr None"
  "detect_cycle [(2, [1, 4]), (3, [2]), (4, [3])] = Inr (Some [2, 3, 4, 2])"
  "detect_cycle [(5, [5])] = Inr (Some [5, 5])"
  "detect_cycle [] = Inr None"
  by code_simp+

end
