(* ===== verification/Fan_Out.thy ===== *)
theory Fan_Out
  imports Cycle_Check
begin

section \<open>Fan-out expansion\<close>

text \<open>
  \<open>expand_fan_out\<close> of \<open>core/fan_out.py\<close>: the stages of a score become concrete sheets, the
  dependencies between stages dependencies between sheets. A dictionary is iterated over in
  its order; every \<open>ValueError\<close> of the validation is the same value here.
\<close>

record fan_out_metadata =
  fm_stage :: int
  fm_instance :: int
  fm_count :: int

record fan_out_expansion =
  fe_total_sheets :: int
  fe_total_stages :: int
  fe_metadata :: "(int, fan_out_metadata) dict"
  fe_dependencies :: dependencies
  fe_stage_sheets :: "(int, int list) dict"

definition validate_inputs :: "int \<Rightarrow> (int, int) dict \<Rightarrow> dependencies \<Rightarrow> py_exn + unit" where
  "validate_inputs total_stages fan_out deps =
     (if total_stages < 1 then Inl ValueError
      else if list_ex (\<lambda>(stage, n). stage < 1 \<or> total_stages < stage \<or> n < 1) (items fan_out) then Inl ValueError
      else if list_ex (\<lambda>(stage, ds). stage < 1 \<or> total_stages < stage \<or> list_ex (\<lambda>d. d < 1 \<or> total_stages < d) ds) (items deps)
        then Inl ValueError
      else Inr ())"

text \<open>Phase 1: the sheets of one stage, then of all.\<close>

fun number_stage :: "int \<Rightarrow> int \<Rightarrow> int list \<Rightarrow> (int, fan_out_metadata) dict \<times> int list \<times> int
    \<Rightarrow> (int, fan_out_metadata) dict \<times> int list \<times> int" where
  "number_stage stage n [] acc = acc"
| "number_stage stage n (i # is) (meta, sheets, current) =
     number_stage stage n is
       (dset meta current \<lparr>fm_stage = stage, fm_instance = i, fm_count = n\<rparr>, sheets @ [current], current + 1)"

fun number_sheets :: "(int, int) dict \<Rightarrow> int list \<Rightarrow> (int, fan_out_metadata) dict \<times> (int, int list) dict \<times> int
    \<Rightarrow> (int, fan_out_metadata) dict \<times> (int, int list) dict \<times> int" where
  "number_sheets fan_out [] acc = acc"
| "number_sheets fan_out (stage # stages) (meta, stage_sheets, current) =
     (let n = dget_or fan_out stage 1;
          (meta', sheets, current') = number_stage stage n [1..n] (meta, [], current)
      in number_sheets fan_out stages (meta', dset stage_sheets stage sheets, current'))"

text \<open>Phase 2: the dependencies.\<close>

definition add_dep :: "int \<Rightarrow> int \<Rightarrow> dependencies \<Rightarrow> dependencies" where
  "add_dep target source deps =
     (let ds = dget_or deps target [] in dset deps target (if source \<in> set ds then ds else ds @ [source]))"

definition expand_dependency_pair :: "int list \<Rightarrow> int list \<Rightarrow> dependencies \<Rightarrow> dependencies" where
  "expand_dependency_pair targets sources deps =
     (if length sources = 1 \<and> length targets = 1 then add_dep (targets ! 0) (sources ! 0) deps
      else if length sources = 1 then fold (\<lambda>t. add_dep t (sources ! 0)) targets deps
      else if length targets = 1 then fold (\<lambda>s. add_dep (targets ! 0) s) sources deps
      else if length sources = length targets then fold (\<lambda>(t, s). add_dep t s) (zip targets sources) deps
      else fold (\<lambda>t. fold (add_dep t) sources) targets deps)"

fun expand_stage :: "(int, int list) dict \<Rightarrow> int list \<Rightarrow> int list \<Rightarrow> dependencies \<Rightarrow> py_exn + dependencies" where
  "expand_stage stage_sheets targets [] deps = Inr deps"
| "expand_stage stage_sheets targets (d # ds) deps =
     (case dget stage_sheets d of
        None \<Rightarrow> Inl KeyError
      | Some sources \<Rightarrow> expand_stage stage_sheets targets ds (expand_dependency_pair targets sources deps))"

fun expand_dependencies :: "(int, int list) dict \<Rightarrow> (int \<times> int list) list \<Rightarrow> dependencies \<Rightarrow> py_exn + dependencies" where
  "expand_dependencies stage_sheets [] deps = Inr deps"
| "expand_dependencies stage_sheets ((stage, ds) # rest) deps =
     (case dget stage_sheets stage of
        None \<Rightarrow> Inl KeyError
      | Some targets \<Rightarrow>
          (case expand_stage stage_sheets targets ds deps of
             Inl e \<Rightarrow> Inl e
           | Inr deps' \<Rightarrow> expand_dependencies stage_sheets rest deps'))"

definition expand_fan_out :: "int \<Rightarrow> (int, int) dict \<Rightarrow> dependencies \<Rightarrow> py_exn + fan_out_expansion" where
  "expand_fan_out total_stages fan_out deps =
     (case validate_inputs total_stages fan_out deps of
        Inl e \<Rightarrow> Inl e
      | Inr _ \<Rightarrow>
          let (meta, stage_sheets, current) = number_sheets fan_out [1..total_stages] ([], [], 1) in
          (case expand_dependencies stage_sheets (items deps) [] of
             Inl e \<Rightarrow> Inl e
           | Inr expanded \<Rightarrow>
               Inr \<lparr>fe_total_sheets = current - 1, fe_total_stages = total_stages, fe_metadata = meta,
                    fe_dependencies = expanded, fe_stage_sheets = stage_sheets\<rparr>))"

subsection \<open>The numbering\<close>

text \<open>How many sheets a stage has, and the first of them; what a valid input is.\<close>

definition stage_count :: "(int, int) dict \<Rightarrow> int \<Rightarrow> int" where
  "stage_count fan_out stage = dget_or fan_out stage 1"

definition first_sheet :: "(int, int) dict \<Rightarrow> int \<Rightarrow> int" where
  "first_sheet fan_out stage = 1 + (\<Sum>s \<in> {1..<stage}. stage_count fan_out s)"

definition valid_inputs :: "int \<Rightarrow> (int, int) dict \<Rightarrow> dependencies \<Rightarrow> bool" where
  "valid_inputs total_stages fan_out deps \<longleftrightarrow> 1 \<le> total_stages \<and>
     (\<forall>stage n. dget fan_out stage = Some n \<longrightarrow> 1 \<le> stage \<and> stage \<le> total_stages \<and> 1 \<le> n) \<and>
     (\<forall>stage ds. dget deps stage = Some ds \<longrightarrow> 1 \<le> stage \<and> stage \<le> total_stages \<and> (\<forall>d \<in> set ds. 1 \<le> d \<and> d \<le> total_stages))"

lemma in_items: "d \<in> set (dget_or deps stage []) \<longleftrightarrow> (\<exists>ds. (stage, ds) \<in> set (items deps) \<and> d \<in> set ds)"
  by (cases "dget deps stage") (simp_all add: items_iff dget_or_def)

lemma valid_stages:
  "valid_inputs total_stages fan_out deps \<Longrightarrow> d \<in> set (dget_or deps stage []) \<Longrightarrow>
     1 \<le> stage \<and> stage \<le> total_stages \<and> 1 \<le> d \<and> d \<le> total_stages"
  by (cases "dget deps stage") (auto simp: valid_inputs_def dget_or_def)

lemma validate_iff: "validate_inputs total_stages fan_out deps = (if valid_inputs total_stages fan_out deps then Inr () else Inl ValueError)"
proof -
  have "list_ex (\<lambda>(stage, n). stage < 1 \<or> total_stages < stage \<or> n < 1) (items fan_out) \<longleftrightarrow>
      (\<exists>stage n. dget fan_out stage = Some n \<and> (stage < 1 \<or> total_stages < stage \<or> n < 1))"
    by (simp add: list_ex_iff Bex_def items_iff)
  moreover have "list_ex (\<lambda>(stage, ds). stage < 1 \<or> total_stages < stage \<or> list_ex (\<lambda>d. d < 1 \<or> total_stages < d) ds) (items deps) \<longleftrightarrow>
      (\<exists>stage ds. dget deps stage = Some ds \<and> (stage < 1 \<or> total_stages < stage \<or> (\<exists>d \<in> set ds. d < 1 \<or> total_stages < d)))"
    by (simp add: list_ex_iff Bex_def items_iff)
  ultimately show ?thesis unfolding validate_inputs_def valid_inputs_def by (simp add: not_less not_le)
qed

lemma number_stage_result:
  "number_stage stage n [a..n] (meta, sheets, current) = (meta', sheets', current') \<Longrightarrow> a \<le> n + 1 \<Longrightarrow>
     current' = current + (n + 1 - a) \<and> sheets' = sheets @ [current..current + (n - a)] \<and>
     (\<forall>k. dget meta' k = (if current \<le> k \<and> k < current'
        then Some \<lparr>fm_stage = stage, fm_instance = a + (k - current), fm_count = n\<rparr> else dget meta k))"
proof (induction "nat (n + 1 - a)" arbitrary: a meta sheets current)
  case 0
  then have "n + 1 = a" by simp
  with 0 show ?case by auto
next
  case (Suc m)
  then have "a \<le> n" by simp
  then have "[a..n] = a # [a + 1..n]" by (rule upto_rec1)
  with Suc.prems(1) have "number_stage stage n [a + 1..n]
      (dset meta current \<lparr>fm_stage = stage, fm_instance = a, fm_count = n\<rparr>, sheets @ [current], current + 1) =
      (meta', sheets', current')" by simp
  note eq = this
  have "m = nat (n + 1 - (a + 1))" "a + 1 \<le> n + 1" using Suc.hyps(2) \<open>a \<le> n\<close> by simp_all
  note IH = Suc.hyps(1) [OF this(1) eq this(2)]
  then have step: "current' = current + 1 + (n + 1 - (a + 1)) \<and> sheets' = sheets @ [current] @ [current + 1..current + 1 + (n - (a + 1))] \<and>
     (\<forall>k. dget meta' k = (if current + 1 \<le> k \<and> k < current'
        then Some \<lparr>fm_stage = stage, fm_instance = a + 1 + (k - (current + 1)), fm_count = n\<rparr>
        else dget (dset meta current \<lparr>fm_stage = stage, fm_instance = a, fm_count = n\<rparr>) k))"
    by (simp add: algebra_simps)
  have "[current..current + (n - a)] = current # [current + 1..current + (n - a)]"
    using \<open>a \<le> n\<close> by (intro upto_rec1) simp
  with step \<open>a \<le> n\<close> show ?case by (auto simp: algebra_simps)
qed

lemma first_sheet_Suc:
  "1 \<le> stage \<Longrightarrow> first_sheet fan_out (stage + 1) = first_sheet fan_out stage + stage_count fan_out stage"
proof -
  assume "1 \<le> stage"
  then have "{1..<stage + 1} = insert stage {1..<stage}" by auto
  then show ?thesis by (simp add: first_sheet_def)
qed

lemma stage_count_pos:
  "valid_inputs total_stages fan_out deps \<Longrightarrow> 1 \<le> stage_count fan_out stage"
  by (auto simp: valid_inputs_def stage_count_def dget_or_def split: option.split)

lemma number_sheets_result:
  assumes "number_sheets fan_out [a..total_stages] (meta, ss, first_sheet fan_out a) = (meta', ss', current')"
    and "1 \<le> a" "a \<le> total_stages + 1" and pos: "\<And>stage. 1 \<le> stage_count fan_out stage"
  shows "current' = first_sheet fan_out (total_stages + 1) \<and>
     (\<forall>stage. dget ss' stage = (if a \<le> stage \<and> stage \<le> total_stages
        then Some [first_sheet fan_out stage..first_sheet fan_out (stage + 1) - 1] else dget ss stage)) \<and>
     (\<forall>stage i. a \<le> stage \<and> stage \<le> total_stages \<and> 1 \<le> i \<and> i \<le> stage_count fan_out stage \<longrightarrow>
        dget meta' (first_sheet fan_out stage + i - 1) =
          Some \<lparr>fm_stage = stage, fm_instance = i, fm_count = stage_count fan_out stage\<rparr>) \<and>
     first_sheet fan_out a \<le> current' \<and>
     (\<forall>k. k < first_sheet fan_out a \<or> current' \<le> k \<longrightarrow> dget meta' k = dget meta k)"
  using assms(1-3)
proof (induction "nat (total_stages + 1 - a)" arbitrary: a meta ss)
  case 0
  then have "a = total_stages + 1" by simp
  with 0 show ?case by auto
next
  case (Suc m)
  then have le: "a \<le> total_stages" by simp
  then have up: "[a..total_stages] = a # [a + 1..total_stages]" by (rule upto_rec1)
  let ?n = "stage_count fan_out a"
  obtain meta1 sheets c1 where st: "number_stage a ?n [1..?n] (meta, [], first_sheet fan_out a) = (meta1, sheets, c1)"
    by (metis prod_cases3)
  have next_first: "first_sheet fan_out (a + 1) = first_sheet fan_out a + ?n" using Suc.prems(2) by (rule first_sheet_Suc)
  from number_stage_result [OF st] pos [of a]
  have c1: "c1 = first_sheet fan_out (a + 1)" and sheets: "sheets = [first_sheet fan_out a..first_sheet fan_out (a + 1) - 1]"
    and meta1: "\<And>k. dget meta1 k = (if first_sheet fan_out a \<le> k \<and> k < c1
        then Some \<lparr>fm_stage = a, fm_instance = 1 + (k - first_sheet fan_out a), fm_count = ?n\<rparr> else dget meta k)"
    by (auto simp: next_first add_diff_eq)
  have "number_sheets fan_out [a + 1..total_stages] (meta1, dset ss a sheets, first_sheet fan_out (a + 1)) = (meta', ss', current')"
    using Suc.prems(1) st by (simp add: up c1 stage_count_def Let_def)
  note eq = this
  have "m = nat (total_stages + 1 - (a + 1))" "1 \<le> a + 1" "a + 1 \<le> total_stages + 1"
    using Suc.hyps(2) Suc.prems(2) le by simp_all
  from Suc.hyps(1) [OF this(1) eq this(2,3)]
  have cur: "current' = first_sheet fan_out (total_stages + 1)" "first_sheet fan_out (a + 1) \<le> current'"
    and ss': "\<And>stage. dget ss' stage = (if a + 1 \<le> stage \<and> stage \<le> total_stages
        then Some [first_sheet fan_out stage..first_sheet fan_out (stage + 1) - 1] else dget (dset ss a sheets) stage)"
    and new: "\<And>stage i. a + 1 \<le> stage \<Longrightarrow> stage \<le> total_stages \<Longrightarrow> 1 \<le> i \<Longrightarrow> i \<le> stage_count fan_out stage \<Longrightarrow>
        dget meta' (first_sheet fan_out stage + i - 1) =
          Some \<lparr>fm_stage = stage, fm_instance = i, fm_count = stage_count fan_out stage\<rparr>"
    and old: "\<And>k. k < first_sheet fan_out (a + 1) \<or> current' \<le> k \<Longrightarrow> dget meta' k = dget meta1 k"
    by (simp_all, auto)
  show ?case
  proof (intro conjI allI impI)
    show "current' = first_sheet fan_out (total_stages + 1)" by (rule cur)
    show "dget ss' stage = (if a \<le> stage \<and> stage \<le> total_stages
        then Some [first_sheet fan_out stage..first_sheet fan_out (stage + 1) - 1] else dget ss stage)" for stage
      using le by (auto simp: ss' sheets)
    show "first_sheet fan_out a \<le> current'" using cur(2) next_first pos [of a] by simp
    show "dget meta' k = dget meta k" if "k < first_sheet fan_out a \<or> current' \<le> k" for k
      using that old [of k] cur(2) next_first pos [of a] by (auto simp: meta1 c1)
    show "dget meta' (first_sheet fan_out stage + i - 1) =
          Some \<lparr>fm_stage = stage, fm_instance = i, fm_count = stage_count fan_out stage\<rparr>"
      if "a \<le> stage \<and> stage \<le> total_stages \<and> 1 \<le> i \<and> i \<le> stage_count fan_out stage" for stage i
    proof (cases "stage = a")
      case True
      with that old [of "first_sheet fan_out a + i - 1"] show ?thesis by (simp add: meta1 c1 next_first)
    next
      case False
      with that show ?thesis by (intro new) simp_all
    qed
  qed
qed

text \<open>Every sheet number belongs to one stage, as one of its instances.\<close>

lemma sheet_of_stage:
  assumes pos: "\<And>stage. 1 \<le> stage_count fan_out stage" and "0 \<le> stages"
    and "1 \<le> k" "k < first_sheet fan_out (stages + 1)"
  obtains stage i where "1 \<le> stage" "stage \<le> stages" "1 \<le> i" "i \<le> stage_count fan_out stage"
    "k = first_sheet fan_out stage + i - 1"
  using assms(2-)
proof (induction "nat stages" arbitrary: stages thesis)
  case 0
  then show ?case by (simp add: first_sheet_def)
next
  case (Suc m)
  then have s: "1 \<le> stages" by simp
  show ?case
  proof (cases "k < first_sheet fan_out stages")
    case True
    then have "k < first_sheet fan_out (stages - 1 + 1)" by simp
    with Suc.hyps(2) Suc.prems(3) s obtain stage i where "1 \<le> stage" "stage \<le> stages - 1" "1 \<le> i"
      "i \<le> stage_count fan_out stage" "k = first_sheet fan_out stage + i - 1"
      by (elim Suc.hyps(1) [rotated 4]) simp_all
    then show ?thesis by (intro Suc.prems(1) [of stage i]) simp_all
  next
    case False
    with Suc.prems(4) first_sheet_Suc [OF s, of fan_out] show ?thesis
      by (intro Suc.prems(1) [of stages "k - first_sheet fan_out stages + 1"]) (use s in simp_all)
  qed
qed

lemma first_sheet_mono:
  assumes "1 \<le> s" "s \<le> s'" and pos: "\<And>stage. 1 \<le> stage_count fan_out stage"
  shows "first_sheet fan_out s \<le> first_sheet fan_out s'"
  using assms(1,2) unfolding first_sheet_def
  by (intro add_mono sum_mono2) (use pos in \<open>auto intro: order_trans [of 0 1]\<close>)

lemma sheet_of_stage_unique:
  assumes pos: "\<And>stage. 1 \<le> stage_count fan_out stage"
    and "1 \<le> s" "1 \<le> i" "i \<le> stage_count fan_out s" and "1 \<le> s'" "1 \<le> i'" "i' \<le> stage_count fan_out s'"
    and "first_sheet fan_out s + i - 1 = first_sheet fan_out s' + i' - 1"
  shows "s = s' \<and> i = i'"
proof -
  have "\<not> s < s'"
    using first_sheet_mono [of "s + 1" s' fan_out, OF _ _ pos] first_sheet_Suc [of s fan_out] assms by fastforce
  moreover have "\<not> s' < s"
    using first_sheet_mono [of "s' + 1" s fan_out, OF _ _ pos] first_sheet_Suc [of s' fan_out] assms by fastforce
  ultimately show ?thesis using assms by simp
qed

subsection \<open>The dependencies\<close>

definition edges :: "dependencies \<Rightarrow> (int \<times> int) set" where
  "edges deps = {(t, s). s \<in> set (dget_or deps t [])}"

definition pair_edges :: "int list \<Rightarrow> int list \<Rightarrow> (int \<times> int) set" where
  "pair_edges targets sources =
     (if length targets = length sources then set (zip targets sources) else set targets \<times> set sources)"

lemma edges_add_dep: "edges (add_dep t s deps) = insert (t, s) (edges deps)"
  by (auto simp: edges_def add_dep_def Let_def dget_or_def split: if_splits option.splits)

lemma edges_fold: "edges (fold (\<lambda>(t, s). add_dep t s) ps deps) = edges deps \<union> set ps"
  by (induction ps arbitrary: deps) (auto simp: edges_add_dep)

lemma edges_expand_pair: "edges (expand_dependency_pair targets sources deps) = edges deps \<union> pair_edges targets sources"
proof -
  let ?add = "\<lambda>(t, s). add_dep t s"
  have left: "fold (\<lambda>t. add_dep t s) ts d = fold ?add (map (\<lambda>t. (t, s)) ts) d"
    and right: "fold (add_dep t) ss d = fold ?add (map (Pair t) ss) d" for s t ts ss d
    by (simp_all add: fold_map comp_def)
  have both: "edges (fold (\<lambda>t. fold (add_dep t) ss) ts d) = edges d \<union> set ts \<times> set ss" for ts ss d
    by (induction ts arbitrary: d) (auto simp: right edges_fold)
  consider (single) s where "sources = [s]" | (fan_in) t where "targets = [t]" "length sources \<noteq> 1"
    | (many) "length sources \<noteq> 1" "length targets \<noteq> 1"
    by (metis One_nat_def length_0_conv length_Suc_conv)
  then show ?thesis
  proof cases
    case single
    then show ?thesis
      by (cases targets rule: list.exhaust; cases "tl targets")
        (auto simp: expand_dependency_pair_def pair_edges_def edges_add_dep left edges_fold simp del: fold.simps)
  next
    case fan_in
    then show ?thesis by (auto simp: expand_dependency_pair_def pair_edges_def right edges_fold)
  next
    case many
    then show ?thesis by (auto simp: expand_dependency_pair_def pair_edges_def both edges_fold)
  qed
qed

lemma expand_stage_result:
  assumes "\<And>d. d \<in> set ds \<Longrightarrow> dget ss d = Some (sheets_of d)"
  shows "\<exists>deps'. expand_stage ss targets ds deps = Inr deps' \<and>
    edges deps' = edges deps \<union> (\<Union>d \<in> set ds. pair_edges targets (sheets_of d))"
  using assms
proof (induction ds arbitrary: deps)
  case (Cons d ds)
  then obtain deps' where "expand_stage ss targets ds (expand_dependency_pair targets (sheets_of d) deps) = Inr deps'"
    "edges deps' = edges (expand_dependency_pair targets (sheets_of d) deps) \<union> (\<Union>d \<in> set ds. pair_edges targets (sheets_of d))"
    by (meson list.set_intros(2))
  with Cons.prems [of d] show ?case by (auto simp: edges_expand_pair)
qed simp

lemma expand_dependencies_result:
  assumes "\<And>stage ds d. (stage, ds) \<in> set its \<Longrightarrow> d = stage \<or> d \<in> set ds \<Longrightarrow> dget ss d = Some (sheets_of d)"
  shows "\<exists>deps'. expand_dependencies ss its deps = Inr deps' \<and>
    edges deps' = edges deps \<union> (\<Union>(stage, ds) \<in> set its. \<Union>d \<in> set ds. pair_edges (sheets_of stage) (sheets_of d))"
  using assms
proof (induction its arbitrary: deps)
  case (Cons it its)
  obtain stage ds where it: "it = (stage, ds)" by (cases it)
  with Cons.prems have "\<And>d. d \<in> set ds \<Longrightarrow> dget ss d = Some (sheets_of d)" "dget ss stage = Some (sheets_of stage)" by auto
  from expand_stage_result [OF this(1), where targets = "sheets_of stage" and deps = deps] this(2)
  obtain deps1 where one: "expand_stage ss (sheets_of stage) ds deps = Inr deps1" "dget ss stage = Some (sheets_of stage)"
    "edges deps1 = edges deps \<union> (\<Union>d \<in> set ds. pair_edges (sheets_of stage) (sheets_of d))" by blast
  obtain deps' where "expand_dependencies ss its deps1 = Inr deps'"
    "edges deps' = edges deps1 \<union> (\<Union>(stage, ds) \<in> set its. \<Union>d \<in> set ds. pair_edges (sheets_of stage) (sheets_of d))"
    using Cons.IH [of deps1] Cons.prems by (meson list.set_intros(2))
  with one show ?case by (auto simp: it)
qed simp

subsection \<open>What the expansion is\<close>

definition sheets_of :: "(int, int) dict \<Rightarrow> int \<Rightarrow> int list" where
  "sheets_of fan_out stage = [first_sheet fan_out stage..first_sheet fan_out (stage + 1) - 1]"

lemma expansion:
  assumes valid: "valid_inputs total_stages fan_out deps"
  obtains x where "expand_fan_out total_stages fan_out deps = Inr x"
    "fe_total_stages x = total_stages" "fe_total_sheets x = first_sheet fan_out (total_stages + 1) - 1"
    "\<And>stage. dget (fe_stage_sheets x) stage =
       (if 1 \<le> stage \<and> stage \<le> total_stages then Some (sheets_of fan_out stage) else None)"
    "\<And>stage i. 1 \<le> stage \<Longrightarrow> stage \<le> total_stages \<Longrightarrow> 1 \<le> i \<Longrightarrow> i \<le> stage_count fan_out stage \<Longrightarrow>
       dget (fe_metadata x) (first_sheet fan_out stage + i - 1) =
         Some \<lparr>fm_stage = stage, fm_instance = i, fm_count = stage_count fan_out stage\<rparr>"
    "\<And>k. k < 1 \<or> first_sheet fan_out (total_stages + 1) \<le> k \<Longrightarrow> dget (fe_metadata x) k = None"
    "edges (fe_dependencies x) =
       (\<Union>(stage, d) \<in> {(stage, d). d \<in> set (dget_or deps stage [])}. pair_edges (sheets_of fan_out stage) (sheets_of fan_out d))"
proof -
  note pos = stage_count_pos [OF valid]
  obtain meta ss current where num: "number_sheets fan_out [1..total_stages] ([], [], 1) = (meta, ss, current)"
    by (metis prod_cases3)
  have one: "first_sheet fan_out 1 = 1" by (simp add: first_sheet_def)
  have "1 \<le> total_stages" using valid by (simp add: valid_inputs_def)
  with number_sheets_result [of fan_out 1 total_stages "[]" "[]", unfolded one, OF num _ _ pos]
  have current: "current = first_sheet fan_out (total_stages + 1)"
    and ss: "\<And>stage. dget ss stage = (if 1 \<le> stage \<and> stage \<le> total_stages then Some (sheets_of fan_out stage) else None)"
    and meta: "\<And>stage i. 1 \<le> stage \<Longrightarrow> stage \<le> total_stages \<Longrightarrow> 1 \<le> i \<Longrightarrow> i \<le> stage_count fan_out stage \<Longrightarrow>
        dget meta (first_sheet fan_out stage + i - 1) =
          Some \<lparr>fm_stage = stage, fm_instance = i, fm_count = stage_count fan_out stage\<rparr>"
    and outside: "\<And>k. k < 1 \<or> current \<le> k \<Longrightarrow> dget meta k = None"
    by (simp_all add: sheets_of_def, auto)
  have known: "dget ss d = Some (sheets_of fan_out d)" if "(stage, ds) \<in> set (items deps)" "d = stage \<or> d \<in> set ds" for stage ds d
    using that valid by (auto simp: items_iff ss valid_inputs_def)
  have "\<exists>deps'. expand_dependencies ss (items deps) [] = Inr deps' \<and> edges deps' = edges [] \<union>
      (\<Union>(stage, ds) \<in> set (items deps). \<Union>d \<in> set ds. pair_edges (sheets_of fan_out stage) (sheets_of fan_out d))"
    by (rule expand_dependencies_result) (use known in blast)
  then obtain expanded where ex: "expand_dependencies ss (items deps) [] = Inr expanded"
    and "edges expanded = edges [] \<union> (\<Union>(stage, ds) \<in> set (items deps). \<Union>d \<in> set ds. pair_edges (sheets_of fan_out stage) (sheets_of fan_out d))"
    by blast
  moreover have "edges [] = {}" by (simp add: edges_def dget_or_def)
  moreover have "(\<Union>(stage, ds) \<in> set (items deps). \<Union>d \<in> set ds. pair_edges (sheets_of fan_out stage) (sheets_of fan_out d)) =
      (\<Union>(stage, d) \<in> {(stage, d). d \<in> set (dget_or deps stage [])}. pair_edges (sheets_of fan_out stage) (sheets_of fan_out d))"
    unfolding in_items by blast
  ultimately have "edges expanded = (\<Union>(stage, d) \<in> {(stage, d). d \<in> set (dget_or deps stage [])}. pair_edges (sheets_of fan_out stage) (sheets_of fan_out d))"
    by simp
  with ss meta outside current show thesis
    by (intro that [of "\<lparr>fe_total_sheets = current - 1, fe_total_stages = total_stages, fe_metadata = meta,
        fe_dependencies = expanded, fe_stage_sheets = ss\<rparr>"])
      (simp_all add: expand_fan_out_def validate_iff valid num ex)
qed

lemma set_sheets_of:
  assumes "1 \<le> stage"
  shows "k \<in> set (sheets_of fan_out stage) \<longleftrightarrow>
    (\<exists>i. 1 \<le> i \<and> i \<le> stage_count fan_out stage \<and> k = first_sheet fan_out stage + i - 1)"
proof
  assume "k \<in> set (sheets_of fan_out stage)"
  then show "\<exists>i. 1 \<le> i \<and> i \<le> stage_count fan_out stage \<and> k = first_sheet fan_out stage + i - 1"
    using first_sheet_Suc [OF assms, of fan_out]
    by (intro exI [of _ "k - first_sheet fan_out stage + 1"]) (simp add: sheets_of_def)
qed (use first_sheet_Suc [OF assms, of fan_out] in \<open>auto simp: sheets_of_def\<close>)

lemma zip_upto: "(t, s) \<in> set (zip [a..a + n - 1] [b..b + n - 1]) \<longleftrightarrow> (\<exists>i. 1 \<le> i \<and> i \<le> n \<and> t = a + i - 1 \<and> s = b + i - 1)"
proof -
  have "(t, s) \<in> set (zip [a..a + n - 1] [b..b + n - 1]) \<longleftrightarrow> (\<exists>k < nat n. t = a + int k \<and> s = b + int k)"
  proof
    assume "\<exists>k < nat n. t = a + int k \<and> s = b + int k"
    then obtain k where "k < nat n" "t = a + int k" "s = b + int k" by blast
    then show "(t, s) \<in> set (zip [a..a + n - 1] [b..b + n - 1])"
      unfolding in_set_zip by (intro exI [of _ k]) simp
  qed (auto simp: in_set_zip)
  also have "\<dots> \<longleftrightarrow> (\<exists>i. 1 \<le> i \<and> i \<le> n \<and> t = a + i - 1 \<and> s = b + i - 1)"
  proof
    assume "\<exists>k < nat n. t = a + int k \<and> s = b + int k"
    then obtain k where "k < nat n" "t = a + int k" "s = b + int k" by blast
    then show "\<exists>i. 1 \<le> i \<and> i \<le> n \<and> t = a + i - 1 \<and> s = b + i - 1" by (intro exI [of _ "int k + 1"]) auto
  next
    assume "\<exists>i. 1 \<le> i \<and> i \<le> n \<and> t = a + i - 1 \<and> s = b + i - 1"
    then obtain i where "1 \<le> i" "i \<le> n" "t = a + i - 1" "s = b + i - 1" by blast
    then show "\<exists>k < nat n. t = a + int k \<and> s = b + int k" by (intro exI [of _ "nat (i - 1)"]) auto
  qed
  finally show ?thesis .
qed

text \<open>Between two stages of the same size the instances match, otherwise every one meets every one.\<close>

lemma pair_edges_instances:
  assumes "1 \<le> stage" "1 \<le> d" and pos: "\<And>stage. 1 \<le> stage_count fan_out stage"
  shows "(t, s) \<in> pair_edges (sheets_of fan_out stage) (sheets_of fan_out d) \<longleftrightarrow>
    (\<exists>i k. 1 \<le> i \<and> i \<le> stage_count fan_out stage \<and> 1 \<le> k \<and> k \<le> stage_count fan_out d \<and>
       t = first_sheet fan_out stage + i - 1 \<and> s = first_sheet fan_out d + k - 1 \<and>
       (stage_count fan_out stage = stage_count fan_out d \<longrightarrow> i = k))"
proof -
  have form: "sheets_of fan_out s = [first_sheet fan_out s..first_sheet fan_out s + stage_count fan_out s - 1]" if "1 \<le> s" for s
    using that by (simp add: sheets_of_def first_sheet_Suc)
  have len: "length (sheets_of fan_out stage) = length (sheets_of fan_out d) \<longleftrightarrow> stage_count fan_out stage = stage_count fan_out d"
    using assms(1,2) pos [of stage] pos [of d] by (auto simp: form)
  show ?thesis
  proof (cases "stage_count fan_out stage = stage_count fan_out d")
    case True
    then have "pair_edges (sheets_of fan_out stage) (sheets_of fan_out d) = set (zip (sheets_of fan_out stage) (sheets_of fan_out d))"
      using len by (simp add: pair_edges_def)
    then show ?thesis using True assms(1,2) by (auto simp: form zip_upto)
  next
    case False
    then have "pair_edges (sheets_of fan_out stage) (sheets_of fan_out d) = set (sheets_of fan_out stage) \<times> set (sheets_of fan_out d)"
      using len by (simp add: pair_edges_def)
    then show ?thesis using False assms(1,2) by (auto simp: set_sheets_of)
  qed
qed

lemma depends_edges: "depends deps = (edges deps)\<inverse>"
proof -
  have "(p, n) \<in> depends deps \<longleftrightarrow> (n, p) \<in> edges deps" for p n
    by (cases "dget deps n") (simp_all add: depends_def edges_def dget_or_def map_of_clearjunk)
  then show ?thesis by auto
qed

text \<open>The edges between two sheets, in terms of their metadata.\<close>

lemma expanded_edges:
  assumes valid: "valid_inputs total_stages fan_out deps" and x: "expand_fan_out total_stages fan_out deps = Inr x"
  shows "(\<forall>k m. dget (fe_metadata x) k = Some m \<longleftrightarrow>
      (\<exists>stage i. 1 \<le> stage \<and> stage \<le> total_stages \<and> 1 \<le> i \<and> i \<le> stage_count fan_out stage \<and>
         k = first_sheet fan_out stage + i - 1 \<and>
         m = \<lparr>fm_stage = stage, fm_instance = i, fm_count = stage_count fan_out stage\<rparr>))" (is "\<forall>k m. ?meta k m")
    and "(t, s) \<in> edges (fe_dependencies x) \<longleftrightarrow>
      (\<exists>mt ms. dget (fe_metadata x) t = Some mt \<and> dget (fe_metadata x) s = Some ms \<and>
         fm_stage ms \<in> set (dget_or deps (fm_stage mt) []) \<and>
         (fm_count mt = fm_count ms \<longrightarrow> fm_instance mt = fm_instance ms))"
proof -
  note pos = stage_count_pos [OF valid]
  obtain y where y: "expand_fan_out total_stages fan_out deps = Inr y"
    "\<And>stage i. 1 \<le> stage \<Longrightarrow> stage \<le> total_stages \<Longrightarrow> 1 \<le> i \<Longrightarrow> i \<le> stage_count fan_out stage \<Longrightarrow>
       dget (fe_metadata y) (first_sheet fan_out stage + i - 1) =
         Some \<lparr>fm_stage = stage, fm_instance = i, fm_count = stage_count fan_out stage\<rparr>"
    "\<And>k. k < 1 \<or> first_sheet fan_out (total_stages + 1) \<le> k \<Longrightarrow> dget (fe_metadata y) k = None"
    "edges (fe_dependencies y) =
       (\<Union>(stage, d) \<in> {(stage, d). d \<in> set (dget_or deps stage [])}. pair_edges (sheets_of fan_out stage) (sheets_of fan_out d))"
    by (rule expansion [OF valid], rule that; assumption)
  with x have [simp]: "y = x" by simp
  have "0 \<le> total_stages" using valid by (simp add: valid_inputs_def)
  have meta: "?meta k m" for k m
  proof
    assume k: "dget (fe_metadata x) k = Some m"
    then have "\<not> (k < 1 \<or> first_sheet fan_out (total_stages + 1) \<le> k)" using y(3) [of k] by auto
    then have "1 \<le> k" "k < first_sheet fan_out (total_stages + 1)" by simp_all
    with sheet_of_stage [OF pos \<open>0 \<le> total_stages\<close>] obtain stage i where
      "1 \<le> stage" "stage \<le> total_stages" "1 \<le> i" "i \<le> stage_count fan_out stage" "k = first_sheet fan_out stage + i - 1" by blast
    with k y(2) [of stage i] show "\<exists>stage i. 1 \<le> stage \<and> stage \<le> total_stages \<and> 1 \<le> i \<and> i \<le> stage_count fan_out stage \<and>
         k = first_sheet fan_out stage + i - 1 \<and> m = \<lparr>fm_stage = stage, fm_instance = i, fm_count = stage_count fan_out stage\<rparr>"
      by auto
  qed (use y(2) in auto)
  then show "\<forall>k m. ?meta k m" by blast
  have stages: "1 \<le> stage \<and> stage \<le> total_stages \<and> 1 \<le> d \<and> d \<le> total_stages" if "d \<in> set (dget_or deps stage [])" for stage d
    using valid that by (rule valid_stages)
  have "(t, s) \<in> edges (fe_dependencies x) \<longleftrightarrow>
      (\<exists>stage d. d \<in> set (dget_or deps stage []) \<and> (t, s) \<in> pair_edges (sheets_of fan_out stage) (sheets_of fan_out d))"
    using y(4) by auto
  also have "\<dots> \<longleftrightarrow> (\<exists>stage d i k. d \<in> set (dget_or deps stage []) \<and> 1 \<le> i \<and> i \<le> stage_count fan_out stage \<and> 1 \<le> k \<and> k \<le> stage_count fan_out d \<and>
       t = first_sheet fan_out stage + i - 1 \<and> s = first_sheet fan_out d + k - 1 \<and>
       (stage_count fan_out stage = stage_count fan_out d \<longrightarrow> i = k))"
    using stages pair_edges_instances [OF _ _ pos] by blast
  also have "\<dots> \<longleftrightarrow> (\<exists>mt ms. dget (fe_metadata x) t = Some mt \<and> dget (fe_metadata x) s = Some ms \<and>
         fm_stage ms \<in> set (dget_or deps (fm_stage mt) []) \<and> (fm_count mt = fm_count ms \<longrightarrow> fm_instance mt = fm_instance ms))"
    unfolding meta using stages by force
  finally show "(t, s) \<in> edges (fe_dependencies x) \<longleftrightarrow>
      (\<exists>mt ms. dget (fe_metadata x) t = Some mt \<and> dget (fe_metadata x) s = Some ms \<and>
         fm_stage ms \<in> set (dget_or deps (fm_stage mt) []) \<and>
         (fm_count mt = fm_count ms \<longrightarrow> fm_instance mt = fm_instance ms))" .
qed

lemma acyclic_along:
  assumes "acyclic r" and "\<And>x y. (x, y) \<in> r' \<Longrightarrow> (f x, f y) \<in> r"
  shows "acyclic r'"
proof -
  have "(x, y) \<in> r'\<^sup>+ \<Longrightarrow> (f x, f y) \<in> r\<^sup>+" for x y
    by (induction rule: trancl_induct) (use assms(2) in \<open>auto intro: trancl_into_trancl\<close>)
  with assms(1) show ?thesis unfolding acyclic_def by blast
qed

lemma expansion_acyclic:
  assumes "expand_fan_out total_stages fan_out deps = Inr x"
  shows "(acyclic (depends (fe_dependencies x)) \<longleftrightarrow> acyclic (depends deps)) \<and>
    (\<forall>(s, t) \<in> depends (fe_dependencies x). 1 \<le> s \<and> s \<le> fe_total_sheets x \<and> 1 \<le> t \<and> t \<le> fe_total_sheets x)"
proof -
  have valid: "valid_inputs total_stages fan_out deps"
    using assms by (simp add: expand_fan_out_def validate_iff split: if_splits)
  note pos = stage_count_pos [OF valid] and ed = expanded_edges [OF valid assms]
  define stage_of where "stage_of k = (case dget (fe_metadata x) k of Some m \<Rightarrow> fm_stage m | None \<Rightarrow> 0)" for k
  have down: "(stage_of s, stage_of t) \<in> depends deps" if "(s, t) \<in> depends (fe_dependencies x)" for s t
    using that ed(2) [of t s] by (auto simp: depends_edges stage_of_def) (auto simp: edges_def)
  have up: "(first_sheet fan_out d, first_sheet fan_out stage) \<in> depends (fe_dependencies x)" if "(d, stage) \<in> depends deps" for d stage
  proof -
    from that have d: "d \<in> set (dget_or deps stage [])" by (simp add: depends_edges edges_def)
    from valid_stages [OF valid this] have "1 \<le> stage" "stage \<le> total_stages" "1 \<le> d" "d \<le> total_stages" by simp_all
    with ed(1) pos have "dget (fe_metadata x) (first_sheet fan_out stage) = Some \<lparr>fm_stage = stage, fm_instance = 1, fm_count = stage_count fan_out stage\<rparr>"
      "dget (fe_metadata x) (first_sheet fan_out d) = Some \<lparr>fm_stage = d, fm_instance = 1, fm_count = stage_count fan_out d\<rparr>"
      by (auto intro: exI [of _ "1::int"])
    then show ?thesis unfolding depends_edges converse_iff ed(2) using d by simp
  qed
  have "acyclic (depends (fe_dependencies x)) \<longleftrightarrow> acyclic (depends deps)"
    using acyclic_along [where f = stage_of, OF _ down] acyclic_along [where f = "first_sheet fan_out", OF _ up] by blast
  moreover have "1 \<le> k \<and> k \<le> fe_total_sheets x" if m: "dget (fe_metadata x) k = Some m" for k m
  proof -
    obtain y where "expand_fan_out total_stages fan_out deps = Inr y" "fe_total_sheets y = first_sheet fan_out (total_stages + 1) - 1"
      "\<And>k. k < 1 \<or> first_sheet fan_out (total_stages + 1) \<le> k \<Longrightarrow> dget (fe_metadata y) k = None"
      by (rule expansion [OF valid], rule that; assumption)
    with m assms show ?thesis by (cases "k < 1 \<or> first_sheet fan_out (total_stages + 1) \<le> k") auto
  qed
  then have "\<forall>(s, t) \<in> depends (fe_dependencies x). 1 \<le> s \<and> s \<le> fe_total_sheets x \<and> 1 \<le> t \<and> t \<le> fe_total_sheets x"
    unfolding depends_edges using ed(2) by auto
  ultimately show ?thesis by blast
qed

text \<open>
  A score with a stage for planning, three parallel workers, a reviewer for each of them and
  a final report that waits for all reviews and for the plan.
\<close>

definition review_score :: "py_exn + fan_out_expansion" where
  "review_score = expand_fan_out 4 [(2, 3), (3, 3)] [(2, [1]), (3, [2]), (4, [3, 1])]"

lemma review_score_runs:
  "map_sum id fe_total_sheets review_score = Inr 8"
  "map_sum id fe_dependencies review_score =
     Inr [(2, [1]), (3, [1]), (4, [1]), (5, [2]), (6, [3]), (7, [4]), (8, [5, 6, 7, 1])]"
  "map_sum id (\<lambda>x. dget (fe_metadata x) 6) review_score = Inr (Some \<lparr>fm_stage = 3, fm_instance = 2, fm_count = 3\<rparr>)"
  "expand_fan_out 2 [(1, 2), (2, 3)] [(2, [1])] = Inr \<lparr>fe_total_sheets = 5, fe_total_stages = 2,
     fe_metadata = [(1, \<lparr>fm_stage = 1, fm_instance = 1, fm_count = 2\<rparr>), (2, \<lparr>fm_stage = 1, fm_instance = 2, fm_count = 2\<rparr>),
       (3, \<lparr>fm_stage = 2, fm_instance = 1, fm_count = 3\<rparr>), (4, \<lparr>fm_stage = 2, fm_instance = 2, fm_count = 3\<rparr>),
       (5, \<lparr>fm_stage = 2, fm_instance = 3, fm_count = 3\<rparr>)],
     fe_dependencies = [(3, [1, 2]), (4, [1, 2]), (5, [1, 2])], fe_stage_sheets = [(1, [1, 2]), (2, [3, 4, 5])]\<rparr>"
  "expand_fan_out 2 [(3, 2)] [] = Inl ValueError"
  by code_simp+

lemma review_score_valid: "valid_inputs 4 [(2, 3), (3, 3)] [(2, [1]), (3, [2]), (4, [3, 1])]"
  by (auto simp: valid_inputs_def split: if_splits)

text \<open>
  C31. The expansion succeeds exactly on valid input (at least one stage; every fan-out count
  at least one and for an existing stage; dependencies only of and on existing stages) and
  raises a \<open>ValueError\<close> on any other. When it succeeds the sheets are numbered from 1
  without a gap, each is one instance of one stage with the stage's size, and a sheet depends
  on another exactly when its stage depends on the other's, instance by instance between
  stages of the same size and on every instance otherwise.
\<close>

theorem fan_out_expands:
  "case expand_fan_out total_stages fan_out deps of
     Inl e \<Rightarrow> e = ValueError \<and> \<not> valid_inputs total_stages fan_out deps
   | Inr x \<Rightarrow>
       valid_inputs total_stages fan_out deps \<and>
       fe_total_sheets x = (\<Sum>s \<in> {1..total_stages}. stage_count fan_out s) \<and>
       (\<forall>k. (\<exists>m. dget (fe_metadata x) k = Some m) \<longleftrightarrow> 1 \<le> k \<and> k \<le> fe_total_sheets x) \<and>
       (\<forall>k m. dget (fe_metadata x) k = Some m \<longleftrightarrow>
         (\<exists>stage i. 1 \<le> stage \<and> stage \<le> total_stages \<and> 1 \<le> i \<and> i \<le> stage_count fan_out stage \<and>
            k = first_sheet fan_out stage + i - 1 \<and>
            m = \<lparr>fm_stage = stage, fm_instance = i, fm_count = stage_count fan_out stage\<rparr>)) \<and>
       (\<forall>t s. s \<in> set (dget_or (fe_dependencies x) t []) \<longleftrightarrow>
         (\<exists>mt ms. dget (fe_metadata x) t = Some mt \<and> dget (fe_metadata x) s = Some ms \<and>
            fm_stage ms \<in> set (dget_or deps (fm_stage mt) []) \<and>
            (fm_count mt = fm_count ms \<longrightarrow> fm_instance mt = fm_instance ms)))"
proof (cases "valid_inputs total_stages fan_out deps")
  case False
  then show ?thesis by (simp add: expand_fan_out_def validate_iff)
next
  case True
  note pos = stage_count_pos [OF True]
  obtain x where x: "expand_fan_out total_stages fan_out deps = Inr x"
    "fe_total_sheets x = first_sheet fan_out (total_stages + 1) - 1"
    "\<And>k. k < 1 \<or> first_sheet fan_out (total_stages + 1) \<le> k \<Longrightarrow> dget (fe_metadata x) k = None"
    by (rule expansion [OF True], rule that; assumption)
  note ed = expanded_edges [OF True x(1)]
  have "{1..<total_stages + 1} = {1..total_stages}" by auto
  then have sum: "fe_total_sheets x = (\<Sum>s \<in> {1..total_stages}. stage_count fan_out s)"
    using x(2) by (simp add: first_sheet_def)
  have "0 \<le> total_stages" using True by (simp add: valid_inputs_def)
  have dom: "(\<exists>m. dget (fe_metadata x) k = Some m) \<longleftrightarrow> 1 \<le> k \<and> k \<le> fe_total_sheets x" for k
  proof
    assume "\<exists>m. dget (fe_metadata x) k = Some m"
    then show "1 \<le> k \<and> k \<le> fe_total_sheets x" using x(2) x(3) [of k] by (cases "k < 1 \<or> first_sheet fan_out (total_stages + 1) \<le> k") auto
  next
    assume "1 \<le> k \<and> k \<le> fe_total_sheets x"
    with x(2) have "1 \<le> k" "k < first_sheet fan_out (total_stages + 1)" by simp_all
    with sheet_of_stage [OF pos \<open>0 \<le> total_stages\<close>] ed(1) show "\<exists>m. dget (fe_metadata x) k = Some m" by metis
  qed
  have "s \<in> set (dget_or (fe_dependencies x) t []) \<longleftrightarrow> (t, s) \<in> edges (fe_dependencies x)" for s t by (simp add: edges_def)
  with True x(1) sum dom ed show ?thesis by simp
qed

lemma fan_out_expands_witness:
  "case review_score of
     Inl e \<Rightarrow> False
   | Inr x \<Rightarrow> valid_inputs 4 [(2, 3), (3, 3)] [(2, [1]), (3, [2]), (4, [3, 1])] \<and>
       fe_total_sheets x = (\<Sum>s \<in> {1..4}. stage_count [(2, 3), (3, 3)] s) \<and> fe_total_sheets x = 8"
proof -
  obtain x where x: "review_score = Inr x" "fe_total_sheets x = 8"
    using review_score_runs(1) unfolding map_sum_Inr by metis
  with fan_out_expands [of 4 "[(2, 3), (3, 3)]" "[(2, [1]), (3, [2]), (4, [3, 1])]"] show ?thesis
    by (simp add: review_score_def)
qed

text \<open>
  The expansion neither makes a cycle nor hides one: the dependencies between the sheets
  are acyclic exactly when those between the stages are, and no sheet depends on a number
  that is not a sheet.
\<close>

theorem expansion_keeps_cycles:
  assumes "expand_fan_out total_stages fan_out deps = Inr x"
  shows "(acyclic (depends (fe_dependencies x)) \<longleftrightarrow> acyclic (depends deps)) \<and>
    (\<forall>(s, t) \<in> depends (fe_dependencies x). 1 \<le> s \<and> s \<le> fe_total_sheets x \<and> 1 \<le> t \<and> t \<le> fe_total_sheets x)"
  using expansion_acyclic [OF assms] .

lemma expansion_keeps_cycles_witness:
  "case review_score of Inl e \<Rightarrow> False | Inr x \<Rightarrow> acyclic (depends (fe_dependencies x))"
proof -
  obtain x where x: "expand_fan_out 4 [(2, 3), (3, 3)] [(2, [1]), (3, [2]), (4, [3, 1])] = Inr x"
    using review_score_runs(1) unfolding map_sum_Inr review_score_def by metis
  have "detect_cycle [(2, [1]), (3, [2]), (4, [3, 1])] = Inr None" by code_simp
  with detect_cycle_decides have "acyclic (depends [(2, [1]), (3, [2]), (4, [3, 1])])" by fastforce
  with expansion_keeps_cycles [OF x] x show ?thesis by (simp add: review_score_def)
qed

end
