(* ===== verification/Scheduler.thy ===== *)
theory Scheduler
  imports Cycle_Check Timer
begin

section \<open>The global sheet scheduler\<close>

text \<open>
  \<open>GlobalSheetScheduler\<close> of \<open>daemon/scheduler.py\<close>: a priority queue of the sheets of all
  jobs, their dependencies, and the sheets that run. Every operation but one holds the
  scheduler's lock, so it is a function of the state it finds; \<open>set_max_concurrent\<close> is a plain
  assignment without the lock and without an await, here a step of its own (one that falls
  between the awaits of a \<open>next_sheet\<close> in progress is not modelled). A set of sheet numbers is a list without
  repetitions, a \<open>float\<close> a rational. The heap is the list of its entries in pop order; two
  entries of the same priority and the same instant, which \<open>heapq\<close> orders arbitrarily, keep
  their order. \<open>time.monotonic()\<close> is an argument, a time per sheet number: one call makes at
  most one entry of a sheet.
\<close>

record sheet_info =
  si_job :: string
  si_num :: int
  si_instrument :: string
  si_model :: "string option"
  si_cost :: rat
  si_depth :: int
  si_priority :: int
  si_retries :: int

record sheet_entry =
  se_priority :: rat
  se_submitted :: rat
  se_info :: sheet_info
  se_skips :: nat

record scheduler =
  max_concurrent :: int
  queue :: "sheet_entry list"
  running :: "(string, int list) dict"
  active_count :: int
  job_completed :: "(string, int list) dict"
  job_deps :: "(string, dependencies) dict"
  job_all_sheets :: "(string, sheet_info list) dict"

record scheduler_stats =
  st_queued :: nat
  st_active :: int
  st_max :: int
  st_running :: "(string, nat) dict"
  st_per_job :: "(string, nat) dict"

definition new_scheduler :: "int \<Rightarrow> scheduler" where
  "new_scheduler limit = \<lparr>max_concurrent = limit, queue = [], running = [], active_count = 0,
     job_completed = [], job_deps = [], job_all_sheets = []\<rparr>"

definition set_max_concurrent :: "int \<Rightarrow> scheduler \<Rightarrow> scheduler" where
  "set_max_concurrent limit s = s\<lparr>max_concurrent := limit\<rparr>"

subsection \<open>Priorities\<close>

definition fair_share :: "scheduler \<Rightarrow> rat" where
  "fair_share s =
     (if length (items (job_all_sheets s)) = 0 then of_int (max_concurrent s)
      else max 1 (of_int (max_concurrent s) / of_nat (length (items (job_all_sheets s)))))"

definition job_running :: "scheduler \<Rightarrow> string \<Rightarrow> nat" where
  "job_running s j = length (dget_or (running s) j [])"

definition calculate_priority :: "scheduler \<Rightarrow> sheet_info \<Rightarrow> rat" where
  "calculate_priority s info =
     (let base = of_int (si_priority info) * 10 + of_int (si_depth info)
                 - min (of_int (si_retries info) * 5) 50 + si_cost info / 10;
          share = fair_share s;
          busy = of_nat (job_running s (si_job info))
      in if share > 0 \<and> busy \<ge> share then base + (busy - share + 1) * 20 else base)"

text \<open>\<open>int(fair_share * self._max_per_job_multiplier)\<close>, at least 1.\<close>

definition hard_cap :: "scheduler \<Rightarrow> int" where
  "hard_cap s = max 1 (let x = fair_share s * 2 in if x < 0 then \<lceil>x\<rceil> else \<lfloor>x\<rfloor>)"

definition make_entry :: "(int \<Rightarrow> rat) \<Rightarrow> scheduler \<Rightarrow> sheet_info \<Rightarrow> sheet_entry" where
  "make_entry clock s info = \<lparr>se_priority = calculate_priority s info, se_submitted = clock (si_num info),
     se_info = info, se_skips = 0\<rparr>"

subsection \<open>The queue\<close>

definition sheet_key :: "sheet_entry \<Rightarrow> rat \<times> rat" where
  "sheet_key e = (se_priority e, se_submitted e)"

definition push_entry :: "sheet_entry \<Rightarrow> sheet_entry list \<Rightarrow> sheet_entry list" where
  "push_entry e q = insort_key sheet_key e q"

definition heapify :: "sheet_entry list \<Rightarrow> sheet_entry list" where
  "heapify q = sort_key sheet_key q"

fun pop_entry :: "sheet_entry list \<Rightarrow> (sheet_entry \<times> sheet_entry list) option" where
  "pop_entry [] = None"
| "pop_entry (e # q) = Some (e, q)"

definition sheet_heap :: "sheet_entry list \<Rightarrow> bool" where
  "sheet_heap q \<longleftrightarrow> sorted (map sheet_key q)"

interpretation sheet_queue: pop_queue push_entry pop_entry mset sheet_heap sheet_key
proof unfold_locales
  fix q q' x y
  show "mset (push_entry x q) = add_mset x (mset q)" by (simp add: push_entry_def)
  show "sheet_heap q \<Longrightarrow> sheet_heap (push_entry x q)"
    by (simp add: push_entry_def sheet_heap_def sorted_insort_key)
  show "pop_entry q = None \<longleftrightarrow> mset q = {#}" by (cases q) simp_all
  show "pop_entry q = Some (x, q') \<Longrightarrow> mset q = add_mset x (mset q')" by (cases q) auto
  show "sheet_heap q \<Longrightarrow> pop_entry q = Some (x, q') \<Longrightarrow> y \<in># mset q' \<Longrightarrow> sheet_key x \<le> sheet_key y"
    by (cases q) (auto simp: sheet_heap_def)
  show "sheet_heap q \<Longrightarrow> pop_entry q = Some (x, q') \<Longrightarrow> sheet_heap q'"
    by (cases q) (auto simp: sheet_heap_def)
qed

definition push_all :: "sheet_entry list \<Rightarrow> sheet_entry list \<Rightarrow> sheet_entry list" where
  "push_all es q = fold push_entry es q"

definition drop_job :: "string \<Rightarrow> sheet_entry list \<Rightarrow> sheet_entry list" where
  "drop_job j q = heapify (filter (\<lambda>e. si_job (se_info e) \<noteq> j) q)"

subsection \<open>Jobs come and go\<close>

definition job_dependencies :: "scheduler \<Rightarrow> string \<Rightarrow> dependencies" where
  "job_dependencies s j = dget_or (job_deps s) j []"

definition sheet_deps :: "dependencies \<Rightarrow> int \<Rightarrow> int list" where
  "sheet_deps deps n = dget_or deps n []"

text \<open>The guard against a second registration: what is left of the first is purged.\<close>

definition purge_job :: "string \<Rightarrow> scheduler \<Rightarrow> scheduler" where
  "purge_job j s =
     (if dget (job_all_sheets s) j = None then s
      else s\<lparr>queue := drop_job j (queue s), running := ddel (running s) j,
             active_count := max 0 (active_count s - int (job_running s j))\<rparr>)"

definition scheduler_register_job :: "(int \<Rightarrow> rat) \<Rightarrow> string \<Rightarrow> sheet_info list \<Rightarrow> dependencies
    \<Rightarrow> scheduler \<Rightarrow> (py_exn + unit) \<times> scheduler" where
  "scheduler_register_job clock j sheets deps s =
     (case (if deps = [] then Inr None else detect_cycle deps) of
        Inl e \<Rightarrow> (Inl e, s)
      | Inr (Some cycle) \<Rightarrow> (Inl ValueError, s)
      | Inr None \<Rightarrow>
          if \<not> distinct (map si_num sheets) then (Inl ValueError, s)
          else
            let s1 = purge_job j s;
                s2 = s1\<lparr>job_deps := dset (job_deps s1) j deps,
                        job_completed := dset (job_completed s1) j [],
                        running := dset (running s1) j [],
                        job_all_sheets := dset (job_all_sheets s1) j sheets\<rparr>;
                free = filter (\<lambda>info. sheet_deps deps (si_num info) = []) sheets
            in (Inr (), s2\<lparr>queue := push_all (map (make_entry clock s2) free) (queue s2)\<rparr>))"

definition scheduler_deregister_job :: "string \<Rightarrow> scheduler \<Rightarrow> scheduler" where
  "scheduler_deregister_job j s =
     (if dget (job_all_sheets s) j = None then s
      else
        let left = ddel (running s) j in
        s\<lparr>queue := drop_job j (queue s), running := left,
          job_completed := ddel (job_completed s) j, job_deps := ddel (job_deps s) j,
          job_all_sheets := ddel (job_all_sheets s) j,
          active_count := sum_list (map (int \<circ> length) (dvals (items left)))\<rparr>)"

subsection \<open>Choosing a sheet\<close>

text \<open>
  What \<open>is_rate_limited\<close> answers: whether the instrument is limited, one of the exceptions the
  loop catches, or another one. It may answer differently at every call; the calls of one
  \<open>next_sheet\<close> are told apart by the entries still in the queue.
\<close>

datatype limiter_answer = Limited bool | Caught | Uncaught py_exn

type_synonym limiter = "nat \<Rightarrow> string \<Rightarrow> string option \<Rightarrow> limiter_answer"

definition rescore :: "scheduler \<Rightarrow> sheet_entry \<Rightarrow> sheet_entry" where
  "rescore s e = e\<lparr>se_priority := calculate_priority s (se_info e)\<rparr>"

definition job_capped :: "scheduler \<Rightarrow> sheet_entry \<Rightarrow> bool" where
  "job_capped s e \<longleftrightarrow> hard_cap s \<le> int (job_running s (si_job (se_info e)))"

definition ask :: "limiter option \<Rightarrow> nat \<Rightarrow> sheet_entry \<Rightarrow> limiter_answer" where
  "ask limiter n e =
     (case limiter of None \<Rightarrow> Limited False
      | Some f \<Rightarrow> f n (si_instrument (se_info e)) (si_model (se_info e)))"

text \<open>The loop over the queue: what was found, the rest of the queue and the entries skipped.\<close>

fun pick :: "limiter option \<Rightarrow> scheduler \<Rightarrow> sheet_entry list \<Rightarrow> sheet_entry list
    \<Rightarrow> (py_exn + sheet_entry option) \<times> sheet_entry list \<times> sheet_entry list" where
  "pick limiter s [] skipped = (Inr None, [], skipped)"
| "pick limiter s (e # q) skipped =
     (if job_capped s e then pick limiter s q (skipped @ [e])
      else case ask limiter (length q) e of
          Limited limited \<Rightarrow>
            if limited then pick limiter s q (skipped @ [e]) else (Inr (Some e), q, skipped)
        | Caught \<Rightarrow>
            let e' = e\<lparr>se_skips := Suc (se_skips e)\<rparr> in
            if 10 \<le> se_skips e' then pick limiter s q skipped
            else pick limiter s q (skipped @ [e'])
        | Uncaught exn \<Rightarrow> (Inl exn, q, skipped))"

definition start_running :: "sheet_entry \<Rightarrow> scheduler \<Rightarrow> scheduler" where
  "start_running e s =
     s\<lparr>running := dset (running s) (si_job (se_info e))
         (List.insert (si_num (se_info e)) (dget_or (running s) (si_job (se_info e)) [])),
       active_count := active_count s + 1\<rparr>"

text \<open>
  The whole handler, after the answer of \<open>can_start_sheet\<close> (no controller is \<open>None\<close>): the
  entries skipped go back into the queue, unless an exception has left the loop.
\<close>

definition next_sheet :: "bool option \<Rightarrow> limiter option \<Rightarrow> scheduler
    \<Rightarrow> (py_exn + sheet_entry option) \<times> scheduler" where
  "next_sheet can_start limiter s =
     (if can_start = Some False then (Inr None, s)
      else if active_count s \<ge> max_concurrent s then (Inr None, s)
      else case pick limiter s (heapify (map (rescore s) (queue s))) [] of
          (Inl e, q, skipped) \<Rightarrow> (Inl e, s\<lparr>queue := q\<rparr>)
        | (Inr None, q, skipped) \<Rightarrow> (Inr None, s\<lparr>queue := push_all skipped q\<rparr>)
        | (Inr (Some e), q, skipped) \<Rightarrow>
            (Inr (Some e), start_running e (s\<lparr>queue := push_all skipped q\<rparr>)))"

subsection \<open>A sheet ends\<close>

definition enqueue_ready_dependents :: "(int \<Rightarrow> rat) \<Rightarrow> string \<Rightarrow> scheduler \<Rightarrow> scheduler" where
  "enqueue_ready_dependents clock j s =
     (let deps = job_dependencies s j;
          completed = dget_or (job_completed s) j [];
          queued = map (si_num \<circ> se_info) (filter (\<lambda>e. si_job (se_info e) = j) (queue s));
          busy = dget_or (running s) j [];
          ready = filter (\<lambda>info. let n = si_num info in
                     \<not> (n \<in> set completed \<or> n \<in> set queued \<or> n \<in> set busy) \<and>
                     sheet_deps deps n \<noteq> [] \<and> set (sheet_deps deps n) \<subseteq> set completed)
                   (dget_or (job_all_sheets s) j [])
      in s\<lparr>queue := push_all (map (make_entry clock s) ready) (queue s)\<rparr>)"

definition mark_complete :: "(int \<Rightarrow> rat) \<Rightarrow> string \<Rightarrow> int \<Rightarrow> bool \<Rightarrow> scheduler \<Rightarrow> scheduler" where
  "mark_complete clock j n success s =
     (if dget (job_all_sheets s) j = None then s
      else
        let busy = dget_or (running s) j [];
            s1 = if n \<in> set busy
                 then s\<lparr>running := dset (running s) j (removeAll n busy),
                        active_count := max 0 (active_count s - 1)\<rparr>
                 else s;
            s2 = s1\<lparr>job_completed :=
                   dset (job_completed s1) j (List.insert n (dget_or (job_completed s1) j []))\<rparr>
        in enqueue_ready_dependents clock j s2)"

definition get_stats :: "scheduler \<Rightarrow> scheduler_stats" where
  "get_stats s =
     \<lparr>st_queued = length (queue s), st_active = active_count s, st_max = max_concurrent s,
      st_running = map (\<lambda>(j, ns). (j, length ns)) (items (running s)),
      st_per_job = fold (\<lambda>e d. dset d (si_job (se_info e)) (dget_or d (si_job (se_info e)) 0 + 1))
                     (queue s) []\<rparr>"

end
