(* ===== verification/Scheduler_Runs.thy ===== *)
theory Scheduler_Runs
  imports Scheduler
begin

section \<open>Runs of the sheet scheduler\<close>

text \<open>
  What holds after any sequence of the scheduler's operations (its accounting, the limits,
  the order of the queue), and what holds when the dispatch loop keeps to the protocol: it
  completes what runs, the dependencies name sheets of the job, and the limiter raises
  nothing.
\<close>

definition limiter_quiet :: "limiter option \<Rightarrow> bool" where
  "limiter_quiet limiter \<longleftrightarrow>
     (case limiter of None \<Rightarrow> True | Some f \<Rightarrow> \<forall>n i m. \<exists>b. f n i m = Limited b)"

definition no_phantoms :: "sheet_info list \<Rightarrow> dependencies \<Rightarrow> bool" where
  "no_phantoms sheets deps \<longleftrightarrow> (\<forall>info \<in> set sheets. set (sheet_deps deps (si_num info)) \<subseteq> set (map si_num sheets))"

text \<open>The states of a run; \<open>strict\<close> when it keeps to the protocol.\<close>

inductive sched_reach :: "bool \<Rightarrow> scheduler \<Rightarrow> bool" for strict where
  start: "sched_reach strict (new_scheduler limit)"
| resize: "sched_reach strict s \<Longrightarrow> sched_reach strict (set_max_concurrent limit s)"
| register: "sched_reach strict s \<Longrightarrow> (\<forall>info \<in> set sheets. si_job info = j) \<Longrightarrow>
    (strict \<Longrightarrow> no_phantoms sheets deps) \<Longrightarrow>
    sched_reach strict (snd (scheduler_register_job clock j sheets deps s))"
| deregister: "sched_reach strict s \<Longrightarrow> sched_reach strict (scheduler_deregister_job j s)"
| dispatch: "sched_reach strict s \<Longrightarrow> (strict \<Longrightarrow> limiter_quiet limiter) \<Longrightarrow>
    sched_reach strict (snd (next_sheet can_start limiter s))"
| complete: "sched_reach strict s \<Longrightarrow> (strict \<Longrightarrow> n \<in> set (dget_or (running s) j [])) \<Longrightarrow>
    sched_reach strict (mark_complete clock j n success s)"

subsection \<open>What the operations do to the queue\<close>

abbreviation infos :: "sheet_entry list \<Rightarrow> sheet_info multiset" where
  "infos es \<equiv> image_mset se_info (mset es)"

definition queued :: "scheduler \<Rightarrow> sheet_info multiset" where
  "queued s = infos (queue s)"

lemma mset_push [simp]: "mset (push_entry e q) = add_mset e (mset q)"
  by (simp add: push_entry_def)

lemma mset_push_all [simp]: "mset (push_all es q) = mset es + mset q"
  by (induction es arbitrary: q) (simp_all add: push_all_def)

lemma mset_heapify [simp]: "mset (heapify q) = mset q"
  by (simp add: heapify_def)

lemma infos_rescore [simp]: "image_mset se_info (image_mset (rescore s) M) = image_mset se_info M"
  by (simp add: rescore_def multiset.map_comp comp_def)

lemma infos_make_entry [simp]: "image_mset se_info (image_mset (make_entry clock s) M) = M"
  by (simp add: make_entry_def multiset.map_comp comp_def)

lemma set_drop_job [simp]: "set (drop_job j q) = {e \<in> set q. si_job (se_info e) \<noteq> j}"
  by (simp add: drop_job_def heapify_def)

lemma infos_drop_job: "infos (drop_job j q) = filter_mset (\<lambda>i. si_job i \<noteq> j) (infos q)"
  by (induction q) (simp_all add: drop_job_def)

lemma heap_push_all: "sheet_heap q \<Longrightarrow> sheet_heap (push_all es q)"
  by (induction es arbitrary: q) (simp_all add: push_all_def sheet_queue.push_inv)

lemma heap_heapify [simp]: "sheet_heap (heapify q)"
  by (simp add: heapify_def sheet_heap_def)

lemma ask_quiet: "limiter_quiet limiter \<Longrightarrow> \<exists>b. ask limiter n e = Limited b"
  by (cases limiter) (auto simp: ask_def limiter_quiet_def intro: exI [of _ False])

text \<open>
  What the loop makes of the entries: each goes back, is found, or is lost, and nothing is
  lost to a limiter that raises nothing.
\<close>

lemma pick_infos:
  "pick limiter s q skipped = (r, q', skipped') \<Longrightarrow>
     \<exists>lost. infos q + infos skipped = infos q' + infos skipped' + lost +
         (case r of Inr (Some e) \<Rightarrow> {#se_info e#} | _ \<Rightarrow> {#}) \<and>
       (limiter_quiet limiter \<longrightarrow> lost = {#} \<and> (\<exists>found. r = Inr found)) \<and> (sheet_heap q \<longrightarrow> sheet_heap q')"
proof (induction limiter s q skipped rule: pick.induct)
  case (1 limiter s skipped)
  then show ?case by auto
next
  case (2 limiter s e q skipped)
  have heap: "sheet_heap (e # q) \<Longrightarrow> sheet_heap q" by (simp add: sheet_heap_def)
  show ?case
  proof (cases "job_capped s e")
    case True
    with 2 heap show ?thesis by fastforce
  next
    case free: False
    show ?thesis
    proof (cases "ask limiter (length q) e")
      case (Limited limited)
      with 2 free heap show ?thesis by (cases limited) fastforce+
    next
      case Caught
      let ?e = "e\<lparr>se_skips := Suc (se_skips e)\<rparr>"
      have loud: "\<not> limiter_quiet limiter" using Caught ask_quiet [of limiter "length q" e] by auto
      show ?thesis
      proof (cases "10 \<le> se_skips ?e")
        case True
        with 2 free Caught obtain lost where "infos q + infos skipped = infos q' + infos skipped' + lost +
            (case r of Inr (Some e) \<Rightarrow> {#se_info e#} | _ \<Rightarrow> {#})" "sheet_heap q \<longrightarrow> sheet_heap q'"
          by auto
        with loud heap show ?thesis by (intro exI [of _ "add_mset (se_info e) lost"]) auto
      next
        case False
        with 2 free Caught loud heap show ?thesis by fastforce
      qed
    next
      case (Uncaught exn)
      have "\<not> limiter_quiet limiter" using Uncaught ask_quiet [of limiter "length q" e] by auto
      with 2 free Uncaught heap show ?thesis
        by (intro exI [of _ "{#se_info e#}"]) auto
    qed
  qed
qed

lemma next_sheet_cases:
  obtains (none) r where "r \<noteq> Inr None \<longrightarrow> \<not> limiter_quiet limiter" "\<forall>e. r \<noteq> Inr (Some e)"
      "fst (next_sheet can_start limiter s) = r"
      "\<exists>q lost. snd (next_sheet can_start limiter s) = s\<lparr>queue := q\<rparr> \<and> queued s = infos q + lost \<and>
         (limiter_quiet limiter \<longrightarrow> lost = {#}) \<and> (sheet_heap (queue s) \<longrightarrow> sheet_heap q)"
  | (found) e q lost where "next_sheet can_start limiter s = (Inr (Some e), start_running e (s\<lparr>queue := q\<rparr>))"
      "queued s = infos q + add_mset (se_info e) lost" "limiter_quiet limiter \<longrightarrow> lost = {#}" "sheet_heap q"
proof -
  obtain r q skipped where p: "pick limiter s (heapify (map (rescore s) (queue s))) [] = (r, q, skipped)"
    by (metis prod_cases3)
  from pick_infos [OF p] obtain lost where lost: "queued s = infos q + infos skipped + lost +
         (case r of Inr (Some e) \<Rightarrow> {#se_info e#} | _ \<Rightarrow> {#})"
       "limiter_quiet limiter \<longrightarrow> lost = {#} \<and> (\<exists>found. r = Inr found)" "sheet_heap q"
    by (auto simp: queued_def)
  show thesis
  proof (cases "can_start = Some False \<or> active_count s \<ge> max_concurrent s")
    case True
    then have "next_sheet can_start limiter s = (Inr None, s)" by (auto simp: next_sheet_def)
    then show thesis by (intro none [of "Inr None"]) (auto simp: queued_def intro!: exI [of _ "queue s"])
  next
    case False
    show thesis
    proof (cases r)
      case (Inl exn)
      with False p have "next_sheet can_start limiter s = (Inl exn, s\<lparr>queue := q\<rparr>)"
        by (auto simp: next_sheet_def)
      with lost Inl show thesis
        by (intro none [of "Inl exn"]) (auto intro!: exI [of _ "infos skipped + lost"] exI [of _ q])
    next
      case (Inr f)
      show thesis
      proof (cases f)
        case None
        with False p Inr have "next_sheet can_start limiter s = (Inr None, s\<lparr>queue := push_all skipped q\<rparr>)"
          by (auto simp: next_sheet_def)
        with lost Inr None show thesis
          by (intro none [of "Inr None"])
            (auto simp: heap_push_all intro!: exI [of _ lost] exI [of _ "push_all skipped q"])
      next
        case (Some e)
        with False p Inr
        have "next_sheet can_start limiter s = (Inr (Some e), start_running e (s\<lparr>queue := push_all skipped q\<rparr>))"
          by (auto simp: next_sheet_def)
        with lost Inr Some show thesis by (intro found [of e "push_all skipped q" lost]) (auto simp: heap_push_all)
      qed
    qed
  qed
qed

subsection \<open>The accounting\<close>

definition total :: "(string, int list) dict \<Rightarrow> int" where
  "total d = sum_list (map (int \<circ> length) (dvals d))"

lemma total_nonneg [simp]: "0 \<le> total d"
  by (induction d) (simp_all add: total_def)

lemma total_ddel: "distinct (dkeys d) \<Longrightarrow> total (ddel d k) = total d - int (length (dget_or d k []))"
proof (induction d)
  case (Cons p d)
  obtain k' v where p: "p = (k', v)" by (cases p)
  show ?case
  proof (cases "k' = k")
    case True
    with Cons.prems p have "ddel d k = d" by (force simp: AList.delete_eq filter_id_conv)
    with True p show ?thesis by (simp add: total_def dget_or_def)
  next
    case False
    with Cons p show ?thesis by (simp add: total_def dget_or_def)
  qed
qed (simp add: total_def dget_or_def)

lemma total_dset:
  "distinct (dkeys d) \<Longrightarrow> total (dset d k v) = total d - int (length (dget_or d k [])) + int (length v)"
  by (induction d) (auto simp: total_def dget_or_def split: option.splits)

declare dget_or_dset [simp] dget_or_ddel [simp]

lemma count_filter: "distinct xs \<Longrightarrow> count (mset (filter P xs)) i \<le> 1"
  using distinct_filter [of xs P] by (simp add: distinct_count_atmost_1 del: mset_filter distinct_filter)

definition registered :: "scheduler \<Rightarrow> string \<Rightarrow> sheet_info list \<Rightarrow> bool" where
  "registered s j sheets \<longleftrightarrow> dget (job_all_sheets s) j = Some sheets"

definition jobs_ok :: "scheduler \<Rightarrow> bool" where
  "jobs_ok s \<longleftrightarrow> (\<forall>j sheets. registered s j sheets \<longrightarrow>
     distinct (map si_num sheets) \<and> (\<forall>info \<in> set sheets. si_job info = j) \<and>
     acyclic (depends (job_dependencies s j)))"

definition running_ok :: "scheduler \<Rightarrow> bool" where
  "running_ok s \<longleftrightarrow> distinct (dkeys (running s)) \<and> active_count s = total (running s) \<and>
     (\<forall>j. distinct (dget_or (running s) j []) \<and>
        (dget (job_all_sheets s) j = None \<longrightarrow> dget (running s) j = None))"

text \<open>A queued sheet is registered, does not run, and what it depends on is completed.\<close>

definition may_wait :: "scheduler \<Rightarrow> sheet_info \<Rightarrow> bool" where
  "may_wait s i \<longleftrightarrow>
     (\<exists>sheets. registered s (si_job i) sheets \<and> i \<in> set sheets) \<and>
     si_num i \<notin> set (dget_or (running s) (si_job i) []) \<and>
     set (sheet_deps (job_dependencies s (si_job i)) (si_num i)) \<subseteq> set (dget_or (job_completed s) (si_job i) [])"

definition queue_ok :: "scheduler \<Rightarrow> bool" where
  "queue_ok s \<longleftrightarrow> sheet_heap (queue s) \<and>
     (\<forall>i. count (queued s) i \<le> 1 \<and> (i \<in># queued s \<longrightarrow> may_wait s i))"

definition sched_inv :: "scheduler \<Rightarrow> bool" where
  "sched_inv s \<longleftrightarrow> jobs_ok s \<and> running_ok s \<and> queue_ok s"

lemma jobs_ok_frame:
  "jobs_ok s \<Longrightarrow> job_all_sheets s' = job_all_sheets s \<Longrightarrow> job_deps s' = job_deps s \<Longrightarrow> jobs_ok s'"
  by (simp add: jobs_ok_def registered_def job_dependencies_def)

lemma may_wait_job:
  "may_wait s i \<Longrightarrow> dget (job_all_sheets s) (si_job i) \<noteq> None"
  by (auto simp: may_wait_def registered_def)

lemma queue_ok_smaller:
  assumes "queue_ok s" and "queued s' \<subseteq># queued s" and "sheet_heap (queue s')"
    and "\<And>i. i \<in># queued s' \<Longrightarrow> may_wait s i \<Longrightarrow> may_wait s' i"
  shows "queue_ok s'"
proof -
  have "count (queued s') i \<le> 1" for i
    using assms(1,2) by (metis le_trans mset_subset_eq_count queue_ok_def)
  moreover have "i \<in># queued s' \<Longrightarrow> may_wait s' i" for i
    using assms(1,2,4) by (meson mset_subset_eqD queue_ok_def)
  ultimately show ?thesis using assms(3) by (simp add: queue_ok_def)
qed

lemma sched_inv_new: "sched_inv (new_scheduler limit)"
  by (simp add: sched_inv_def jobs_ok_def running_ok_def queue_ok_def new_scheduler_def queued_def
      total_def dget_or_def registered_def sheet_heap_def)

lemma sched_inv_resize: "sched_inv s \<Longrightarrow> sched_inv (set_max_concurrent limit s)"
  by (simp add: sched_inv_def jobs_ok_def running_ok_def queue_ok_def set_max_concurrent_def queued_def
      may_wait_def registered_def job_dependencies_def)

lemma sched_inv_deregister:
  assumes "sched_inv s"
  shows "sched_inv (scheduler_deregister_job j s)"
proof (cases "dget (job_all_sheets s) j = None")
  case True
  with assms show ?thesis by (simp add: scheduler_deregister_job_def)
next
  case False
  let ?s = "scheduler_deregister_job j s"
  have s': "?s = s\<lparr>queue := drop_job j (queue s), running := ddel (running s) j,
      job_completed := ddel (job_completed s) j, job_deps := ddel (job_deps s) j,
      job_all_sheets := ddel (job_all_sheets s) j,
      active_count := sum_list (map (int \<circ> length) (dvals (items (ddel (running s) j))))\<rparr>"
    using False by (auto simp: scheduler_deregister_job_def Let_def)
  have q: "queued ?s = filter_mset (\<lambda>i. si_job i \<noteq> j) (queued s)"
    by (simp add: s' queued_def infos_drop_job)
  have "jobs_ok ?s" using assms
    by (auto simp: s' sched_inv_def jobs_ok_def registered_def job_dependencies_def split: if_splits)
  moreover have "running_ok ?s" using assms
    by (auto simp: s' sched_inv_def running_ok_def total_def distinct_ddel AList.clearjunk_idem distinct_clearjunk)
  moreover have "queue_ok ?s"
  proof (rule queue_ok_smaller [of s])
    show "queue_ok s" using assms by (simp add: sched_inv_def)
    show "queued ?s \<subseteq># queued s" by (simp add: q)
    show "sheet_heap (queue ?s)" by (simp add: s' drop_job_def)
    show "may_wait s i \<Longrightarrow> may_wait ?s i" if i: "i \<in># queued ?s" for i
    proof -
      from i have "si_job i \<noteq> j" unfolding q by simp
      then show "may_wait s i \<Longrightarrow> may_wait ?s i"
        by (simp add: s' may_wait_def registered_def job_dependencies_def)
    qed
  qed
  ultimately show ?thesis by (simp add: sched_inv_def)
qed

text \<open>What a registration that raises nothing makes of the state.\<close>

lemma register_cases:
  obtains (error) e where "scheduler_register_job clock j sheets deps s = (Inl e, s)"
    "e = ValueError" "\<not> acyclic (depends deps) \<or> \<not> distinct (map si_num sheets)"
  | (ok) s' where "scheduler_register_job clock j sheets deps s = (Inr (), s')"
    "acyclic (depends deps)" "distinct (map si_num sheets)"
    "job_deps s' = dset (job_deps s) j deps" "job_completed s' = dset (job_completed s) j []"
    "job_all_sheets s' = dset (job_all_sheets s) j sheets" "max_concurrent s' = max_concurrent s"
    "running s' = dset (running (purge_job j s)) j []" "active_count s' = active_count (purge_job j s)"
    "queued s' = queued (purge_job j s) + mset (filter (\<lambda>i. sheet_deps deps (si_num i) = []) sheets)"
    "sheet_heap (queue (purge_job j s)) \<longrightarrow> sheet_heap (queue s')"
proof -
  have cycle: "\<exists>r. (if deps = [] then Inr None else detect_cycle deps) = Inr r \<and> (r = None \<longleftrightarrow> acyclic (depends deps))"
    using detect_cycle_decides [of deps] by (auto simp: depends_def acyclic_def)
  then obtain r where r: "(if deps = [] then Inr None else detect_cycle deps) = Inr r"
    "r = None \<longleftrightarrow> acyclic (depends deps)" by blast
  show thesis
  proof (cases "acyclic (depends deps) \<and> distinct (map si_num sheets)")
    case False
    then show thesis using r by (intro error) (auto simp: scheduler_register_job_def split: option.splits)
  next
    case True
    have p: "job_deps (purge_job j s) = job_deps s" "job_completed (purge_job j s) = job_completed s"
      "job_all_sheets (purge_job j s) = job_all_sheets s" "max_concurrent (purge_job j s) = max_concurrent s"
      by (auto simp: purge_job_def)
    show thesis
      by (rule ok [of "snd (scheduler_register_job clock j sheets deps s)"])
        (use True r p in \<open>auto simp: scheduler_register_job_def Let_def queued_def heap_push_all\<close>)
  qed
qed

lemma purge_inv:
  assumes "sched_inv s"
  shows "total (running (purge_job j s)) = active_count (purge_job j s)"
    and "dget_or (running (purge_job j s)) j [] = []"
    and "distinct (dkeys (running (purge_job j s)))"
    and "j' \<noteq> j \<Longrightarrow> dget (running (purge_job j s)) j' = dget (running s) j'"
    and "queued (purge_job j s) = filter_mset (\<lambda>i. si_job i \<noteq> j) (queued s)"
    and "sheet_heap (queue (purge_job j s))"
proof -
  have tot: "int (job_running s j) \<le> total (running s)"
  proof -
    have "distinct (dkeys (running s))" using assms by (simp add: sched_inv_def running_ok_def)
    from total_ddel [OF this, of j] total_nonneg [of "ddel (running s) j"] show ?thesis
      unfolding job_running_def by linarith
  qed
  show "total (running (purge_job j s)) = active_count (purge_job j s)"
    using assms tot by (simp add: purge_job_def sched_inv_def running_ok_def total_ddel job_running_def)
  show "dget_or (running (purge_job j s)) j [] = []" "distinct (dkeys (running (purge_job j s)))"
    using assms by (auto simp: purge_job_def sched_inv_def running_ok_def distinct_ddel) (auto simp: dget_or_def)
  show "j' \<noteq> j \<Longrightarrow> dget (running (purge_job j s)) j' = dget (running s) j'" by (simp add: purge_job_def)
  show "sheet_heap (queue (purge_job j s))"
    using assms by (simp add: purge_job_def sched_inv_def queue_ok_def drop_job_def)
  show "queued (purge_job j s) = filter_mset (\<lambda>i. si_job i \<noteq> j) (queued s)"
  proof (cases "dget (job_all_sheets s) j = None")
    case True
    then have "si_job i \<noteq> j" if "i \<in># queued s" for i
      using that assms may_wait_job [of s i] by (auto simp: sched_inv_def queue_ok_def)
    then have "queued s = filter_mset (\<lambda>i. si_job i \<noteq> j) (queued s)"
      by (intro multiset_eqI) (auto simp: count_eq_zero_iff)
    with True show ?thesis by (simp add: purge_job_def)
  next
    case False
    then show ?thesis by (auto simp: purge_job_def queued_def infos_drop_job)
  qed
qed

lemma sched_inv_register:
  assumes inv: "sched_inv s" and own: "\<forall>info \<in> set sheets. si_job info = j"
  shows "sched_inv (snd (scheduler_register_job clock j sheets deps s))"
proof (cases rule: register_cases [where clock = clock and j = j and sheets = sheets and deps = deps and s = s])
  case (error e)
  with inv show ?thesis by simp
next
  case (ok s')
  note purged = purge_inv [OF inv, where j = j]
  have run: "dget_or (running s') j' [] = (if j' = j then [] else dget_or (running s) j' [])" for j'
    using purged(4) [of j'] unfolding ok(8) by (cases "j' = j") (simp_all add: dget_or_def)
  have "jobs_ok s'"
    using inv own ok(2-6) by (auto simp: sched_inv_def jobs_ok_def registered_def job_dependencies_def)
  moreover have "running_ok s'"
    unfolding running_ok_def run
    using inv purged(1-4) by (auto simp: ok(6,8,9) sched_inv_def running_ok_def total_dset distinct_dset)
  moreover have "queue_ok s'"
    unfolding queue_ok_def
  proof (intro conjI allI impI)
    show "sheet_heap (queue s')" using ok(11) purged(6) by simp
    have new: "i \<in># mset sheets \<Longrightarrow> si_job i = j" for i using own by simp
    show "count (queued s') i \<le> 1" for i
    proof (cases "si_job i = j")
      case True
      have "distinct sheets" using ok(3) by (simp add: distinct_map)
      from count_filter [OF this] True show ?thesis by (simp add: ok(10) purged(5) del: mset_filter)
    next
      case False
      then have "count (queued s') i = count (queued s) i" using own by (auto simp: ok(10) purged(5) count_mset_0_iff)
      then show ?thesis using inv by (simp add: sched_inv_def queue_ok_def)
    qed
    show "may_wait s' i" if i: "i \<in># queued s'" for i
    proof (cases "si_job i = j")
      case True
      with i own show ?thesis
        by (auto simp: ok(4-6) ok(10) purged(5) may_wait_def registered_def run job_dependencies_def)
    next
      case False
      with i own have "i \<in># queued s" by (auto simp: ok(10) purged(5))
      then have "may_wait s i" using inv by (simp add: sched_inv_def queue_ok_def)
      with False show ?thesis
        by (simp add: ok(4-6) may_wait_def registered_def run job_dependencies_def)
    qed
  qed
  ultimately show ?thesis by (simp add: sched_inv_def ok(1))
qed

text \<open>A sheet of a queue in order is known by its job and its number.\<close>

lemma same_sheet:
  assumes "jobs_ok s" and "may_wait s i" and "may_wait s i'" and "si_job i = si_job i'" and "si_num i = si_num i'"
  shows "i = i'"
proof -
  from assms(2,4) obtain sheets where sheets: "registered s (si_job i') sheets" "i \<in> set sheets"
    by (auto simp: may_wait_def)
  with assms(3) have "i' \<in> set sheets" by (auto simp: may_wait_def registered_def)
  with sheets assms(1,5) show ?thesis unfolding jobs_ok_def by (metis distinct_map inj_onD)
qed

lemma requeued:
  "may_wait (s\<lparr>queue := q\<rparr>) = may_wait s" "jobs_ok (s\<lparr>queue := q\<rparr>) \<longleftrightarrow> jobs_ok s"
  "running_ok (s\<lparr>queue := q\<rparr>) \<longleftrightarrow> running_ok s"
  by (simp_all add: may_wait_def registered_def job_dependencies_def jobs_ok_def running_ok_def fun_eq_iff)

lemma running_ok_start:
  assumes "running_ok s" and "may_wait s (se_info e)"
  shows "running_ok (start_running e s)"
  using assms may_wait_job [OF assms(2)] total_nonneg
  by (auto simp: running_ok_def start_running_def total_dset may_wait_def distinct_dset)

lemma sched_inv_next:
  assumes inv: "sched_inv s"
  shows "sched_inv (snd (next_sheet can_start limiter s))"
proof (cases rule: next_sheet_cases [where can_start = can_start and limiter = limiter and s = s])
  case (none r)
  then obtain q lost where s': "snd (next_sheet can_start limiter s) = s\<lparr>queue := q\<rparr>"
    and q: "queued s = infos q + lost" "sheet_heap (queue s) \<longrightarrow> sheet_heap q" by blast
  from inv have ok: "jobs_ok s" "running_ok s" "queue_ok s" by (simp_all add: sched_inv_def)
  have "queue_ok (s\<lparr>queue := q\<rparr>)"
  proof (rule queue_ok_smaller [OF ok(3)])
    show "queued (s\<lparr>queue := q\<rparr>) \<subseteq># queued s" using q(1) by (simp add: queued_def)
    show "sheet_heap (queue (s\<lparr>queue := q\<rparr>))" using q(2) ok(3) by (simp add: queue_ok_def)
  qed (simp add: requeued)
  with ok show ?thesis by (simp add: s' sched_inv_def requeued)
next
  case (found e q lost)
  let ?s = "start_running e (s\<lparr>queue := q\<rparr>)"
  from inv have ok: "jobs_ok s" "running_ok s" "queue_ok s" by (simp_all add: sched_inv_def)
  have e: "may_wait s (se_info e)" using ok(3) found(2) by (simp add: queue_ok_def)
  have "count (queued s) (se_info e) \<le> 1" using ok(3) by (simp add: queue_ok_def)
  then have fresh: "se_info e \<notin># infos q"
    unfolding found(2) by (simp only: count_union count_add_mset not_in_iff) simp
  have "queue_ok ?s"
  proof (rule queue_ok_smaller [OF ok(3)])
    show "queued ?s \<subseteq># queued s" using found(2) by (simp add: queued_def start_running_def)
    show "sheet_heap (queue ?s)" using found(4) by (simp add: start_running_def)
    show "may_wait ?s i" if i: "i \<in># queued ?s" "may_wait s i" for i
    proof -
      have "queued ?s = infos q" by (simp add: queued_def start_running_def)
      with i(1) fresh have "i \<noteq> se_info e" by metis
      with same_sheet [OF ok(1) i(2) e] i(2) show ?thesis
        by (auto simp: may_wait_def registered_def job_dependencies_def start_running_def)
    qed
  qed
  moreover have "running_ok ?s"
    by (rule running_ok_start) (simp_all add: requeued ok(2) e)
  moreover have "jobs_ok ?s" by (rule jobs_ok_frame [OF ok(1)]) (simp_all add: start_running_def)
  ultimately show ?thesis by (simp add: found(1) sched_inv_def)
qed

text \<open>The sheets that completing one makes wait, and what completing does to a registered job.\<close>

definition released :: "scheduler \<Rightarrow> scheduler \<Rightarrow> string \<Rightarrow> sheet_info \<Rightarrow> bool" where
  "released s s' j i \<longleftrightarrow>
     si_num i \<notin> set (dget_or (job_completed s') j []) \<and>
     (\<forall>i' \<in># queued s. si_job i' = j \<longrightarrow> si_num i' \<noteq> si_num i) \<and>
     si_num i \<notin> set (dget_or (running s') j []) \<and>
     sheet_deps (job_dependencies s j) (si_num i) \<noteq> [] \<and>
     set (sheet_deps (job_dependencies s j) (si_num i)) \<subseteq> set (dget_or (job_completed s') j [])"

lemma complete_state:
  assumes "running_ok s" and "dget (job_all_sheets s) j \<noteq> None" and "s' = mark_complete clock j n success s"
  shows "job_all_sheets s' = job_all_sheets s" and "job_deps s' = job_deps s" and "max_concurrent s' = max_concurrent s"
    and "dget_or (running s') j' [] = (if j' = j then removeAll n (dget_or (running s) j []) else dget_or (running s) j' [])"
    and "dget_or (job_completed s') j' [] =
      (if j' = j then List.insert n (dget_or (job_completed s) j []) else dget_or (job_completed s) j' [])"
    and "running_ok s'"
    and "queued s' = queued s + mset (filter (released s s' j) (dget_or (job_all_sheets s) j []))"
    and "sheet_heap (queue s) \<Longrightarrow> sheet_heap (queue s')"
proof -
  let ?busy = "dget_or (running s) j []"
  define s1 where "s1 = (if n \<in> set ?busy
      then s\<lparr>running := dset (running s) j (removeAll n ?busy), active_count := max 0 (active_count s - 1)\<rparr> else s)"
  define s2 where "s2 = s1\<lparr>job_completed := dset (job_completed s1) j (List.insert n (dget_or (job_completed s1) j []))\<rparr>"
  obtain sheets where sheets: "dget (job_all_sheets s) j = Some sheets" using assms(2) by blast
  then have s': "s' = enqueue_ready_dependents clock j s2"
    unfolding assms(3) by (simp add: mark_complete_def s1_def s2_def Let_def)
  have frame: "job_all_sheets s2 = job_all_sheets s" "job_deps s2 = job_deps s" "max_concurrent s2 = max_concurrent s"
    "queue s2 = queue s" "job_completed s1 = job_completed s" by (simp_all add: s1_def s2_def)
  have gone: "removeAll n ?busy = ?busy" if "n \<notin> set ?busy" using that by simp
  have run: "dget_or (running s2) j' [] = (if j' = j then removeAll n ?busy else dget_or (running s) j' [])" for j'
    using gone by (simp add: s1_def s2_def)
  have comp: "dget_or (job_completed s2) j' [] =
      (if j' = j then List.insert n (dget_or (job_completed s) j []) else dget_or (job_completed s) j' [])" for j'
    using frame(5) by (simp add: s2_def)
  have one: "int (length (removeAll n ?busy)) = int (length ?busy) - 1" if "n \<in> set ?busy"
  proof -
    have "distinct ?busy" using assms(1) by (simp add: running_ok_def)
    then have "length (removeAll n ?busy) = length ?busy - 1"
      using that by (metis distinct_remove1_removeAll length_remove1)
    with that show ?thesis by (cases ?busy) auto
  qed
  have "running_ok s2"
  proof -
    have tot: "0 \<le> total (ddel (running s) j)" by simp
    have d: "distinct (dkeys (running s))" using assms(1) by (simp add: running_ok_def)
    show ?thesis
      using assms(1,2) tot total_dset [OF d, of j "removeAll n ?busy"] total_ddel [OF d, of j] one
      by (auto simp: running_ok_def s1_def s2_def distinct_dset distinct_removeAll)
  qed
  have e: "s' = s2\<lparr>queue := queue s'\<rparr>" by (simp add: s' enqueue_ready_dependents_def Let_def)
  show "job_all_sheets s' = job_all_sheets s" "job_deps s' = job_deps s" "max_concurrent s' = max_concurrent s"
    by (subst e, simp add: frame)+
  show "dget_or (running s') j' [] = (if j' = j then removeAll n ?busy else dget_or (running s) j' [])"
    by (subst e) (simp add: run)
  show "dget_or (job_completed s') j' [] =
      (if j' = j then List.insert n (dget_or (job_completed s) j []) else dget_or (job_completed s) j' [])"
    by (subst e) (simp add: comp)
  show "running_ok s'" by (subst e) (simp add: requeued \<open>running_ok s2\<close>)
  show "sheet_heap (queue s) \<Longrightarrow> sheet_heap (queue s')"
    by (simp add: s' enqueue_ready_dependents_def Let_def heap_push_all frame)
  have "running s' = running s2" "job_completed s' = job_completed s2" by (subst e, simp)+
  then show "queued s' = queued s + mset (filter (released s s' j) (dget_or (job_all_sheets s) j []))"
    unfolding s' enqueue_ready_dependents_def Let_def
    by (simp add: queued_def frame job_dependencies_def)
      (rule filter_mset_cong, rule refl, force simp: released_def queued_def job_dependencies_def)
qed

lemma sched_inv_complete:
  assumes inv: "sched_inv s"
  shows "sched_inv (mark_complete clock j n success s)"
proof (cases "dget (job_all_sheets s) j")
  case None
  with inv show ?thesis by (simp add: mark_complete_def)
next
  case (Some sheets)
  let ?s = "mark_complete clock j n success s"
  from inv have ok: "jobs_ok s" "running_ok s" "queue_ok s" by (simp_all add: sched_inv_def)
  have "dget (job_all_sheets s) j \<noteq> None" using Some by simp
  note st = complete_state [OF ok(2) this refl, where clock = clock and n = n and success = success]
  have sheets: "distinct (map si_num sheets)" "\<And>i. i \<in> set sheets \<Longrightarrow> si_job i = j"
    using ok(1) Some by (auto simp: jobs_ok_def registered_def)
  have deps: "job_dependencies ?s = job_dependencies s" by (simp add: job_dependencies_def st(2) fun_eq_iff)
  have old: "may_wait ?s i" if "may_wait s i" for i
    using that by (auto simp: may_wait_def registered_def st(1,4,5) deps split: if_splits)
  have "queue_ok ?s"
    unfolding queue_ok_def
  proof (intro conjI allI impI)
    show "sheet_heap (queue ?s)" using ok(3) st(8) by (simp add: queue_ok_def)
    show "count (queued ?s) i \<le> 1" for i
    proof (cases "i \<in># queued s")
      case True
      have "i \<notin> set (filter (released s ?s j) sheets)"
        using True sheets(2) by (auto simp: released_def)
      then have "count (mset (filter (released s ?s j) sheets)) i = 0" unfolding count_mset_0_iff .
      moreover have "count (queued s) i \<le> 1" using ok(3) by (simp add: queue_ok_def)
      ultimately show ?thesis
        unfolding st(7) count_union by (simp only: dget_or_def Some option.case add_0_right)
    next
      case False
      have "distinct sheets" using sheets(1) by (simp add: distinct_map)
      from count_filter [OF this] False show ?thesis
        unfolding st(7) by (simp add: dget_or_def Some not_in_iff del: mset_filter)
    qed
    show "may_wait ?s i" if i: "i \<in># queued ?s" for i
    proof (cases "i \<in># queued s")
      case True
      then show ?thesis using ok(3) old by (simp add: queue_ok_def)
    next
      case False
      with i have "i \<in> set sheets" "si_num i \<notin> set (dget_or (running ?s) j [])"
        "set (sheet_deps (job_dependencies s j) (si_num i)) \<subseteq> set (dget_or (job_completed ?s) j [])"
        unfolding st(7) by (auto simp: dget_or_def Some released_def)
      then show ?thesis using sheets(2) Some by (simp add: may_wait_def registered_def st(1) deps)
    qed
  qed
  moreover have "jobs_ok ?s" by (rule jobs_ok_frame [OF ok(1)]) (simp_all add: st)
  ultimately show ?thesis using st(6) by (simp add: sched_inv_def)
qed

theorem sched_reach_inv: "sched_reach strict s \<Longrightarrow> sched_inv s"
  by (induction rule: sched_reach.induct)
    (simp_all add: sched_inv_new sched_inv_resize sched_inv_register sched_inv_deregister sched_inv_next sched_inv_complete)

subsection \<open>Runs that keep to the protocol\<close>

text \<open>
  Every sheet of the job is completed, runs, is queued, or waits for one that is not
  completed; and no sheet is queued or runs once completed.
\<close>

definition orderly_job :: "scheduler \<Rightarrow> string \<Rightarrow> sheet_info list \<Rightarrow> bool" where
  "orderly_job s j sheets \<longleftrightarrow>
     no_phantoms sheets (job_dependencies s j) \<and>
     (\<forall>i \<in> set sheets. si_num i \<in> set (dget_or (job_completed s) j []) \<or>
        si_num i \<in> set (dget_or (running s) j []) \<or> i \<in># queued s \<or>
        \<not> set (sheet_deps (job_dependencies s j) (si_num i)) \<subseteq> set (dget_or (job_completed s) j [])) \<and>
     (\<forall>i \<in># queued s. si_job i = j \<longrightarrow> si_num i \<notin> set (dget_or (job_completed s) j [])) \<and>
     (\<forall>n \<in> set (dget_or (running s) j []). n \<notin> set (dget_or (job_completed s) j []))"

definition orderly_run :: "scheduler \<Rightarrow> bool" where
  "orderly_run s \<longleftrightarrow> (\<forall>j sheets. registered s j sheets \<longrightarrow> orderly_job s j sheets)"

lemma orderly_frame:
  assumes "orderly_job s j sheets"
    and "dget_or (job_deps s') j [] = dget_or (job_deps s) j []" "dget_or (job_completed s') j [] = dget_or (job_completed s) j []"
      "dget_or (running s') j [] = dget_or (running s) j []"
    and "\<And>i. si_job i = j \<Longrightarrow> i \<in># queued s' \<longleftrightarrow> i \<in># queued s" "\<And>i. i \<in> set sheets \<Longrightarrow> si_job i = j"
  shows "orderly_job s' j sheets"
  using assms by (auto simp: orderly_job_def job_dependencies_def)

lemma orderly_deregister:
  assumes "sched_inv s" "orderly_run s"
  shows "orderly_run (scheduler_deregister_job j s)"
proof (cases "dget (job_all_sheets s) j = None")
  case True
  with assms show ?thesis by (simp add: scheduler_deregister_job_def)
next
  case False
  show ?thesis
    unfolding orderly_run_def
  proof (intro allI impI)
    fix j' sheets
    assume "registered (scheduler_deregister_job j s) j' sheets"
    with False have j': "j' \<noteq> j" "registered s j' sheets"
      by (auto simp: scheduler_deregister_job_def Let_def registered_def split: if_splits)
    show "orderly_job (scheduler_deregister_job j s) j' sheets"
    proof (rule orderly_frame [of s])
      show "orderly_job s j' sheets" using assms(2) j'(2) by (simp add: orderly_run_def)
      show "\<And>i. i \<in> set sheets \<Longrightarrow> si_job i = j'"
        using assms(1) j'(2) by (simp add: sched_inv_def jobs_ok_def)
    qed (use False j'(1) in \<open>auto simp: scheduler_deregister_job_def Let_def queued_def infos_drop_job\<close>)
  qed
qed

lemma orderly_register:
  assumes inv: "sched_inv s" "orderly_run s" and own: "\<forall>info \<in> set sheets. si_job info = j" and "no_phantoms sheets deps"
  shows "orderly_run (snd (scheduler_register_job clock j sheets deps s))"
proof (cases rule: register_cases [where clock = clock and j = j and sheets = sheets and deps = deps and s = s])
  case (error e)
  with inv show ?thesis by simp
next
  case (ok s')
  note purged = purge_inv [OF inv(1), where j = j]
  have "orderly_job s' j' sheets'" if reg: "registered s' j' sheets'" for j' sheets'
  proof (cases "j' = j")
    case True
    with reg have "sheets' = sheets" by (simp add: registered_def ok(6))
    then show ?thesis
      using True assms(4) own by (auto simp: orderly_job_def job_dependencies_def ok(4,5,8) ok(10))
  next
    case False
    with reg have reg': "registered s j' sheets'" by (simp add: registered_def ok(6))
    show ?thesis
    proof (rule orderly_frame [of s])
      show "orderly_job s j' sheets'" using inv(2) reg' by (simp add: orderly_run_def)
      show "\<And>i. i \<in> set sheets' \<Longrightarrow> si_job i = j'" using inv(1) reg' by (simp add: sched_inv_def jobs_ok_def)
      show "dget_or (running s') j' [] = dget_or (running s) j' []"
        using purged(4) [OF False] False by (simp add: ok(8)) (simp add: dget_or_def)
      show "\<And>i. si_job i = j' \<Longrightarrow> i \<in># queued s' \<longleftrightarrow> i \<in># queued s"
        using False own by (auto simp: ok(10) purged(5))
    qed (use False in \<open>simp_all add: ok(4,5)\<close>)
  qed
  then show ?thesis by (simp add: orderly_run_def ok(1))
qed

lemma orderly_next:
  assumes inv: "sched_inv s" "orderly_run s" and quiet: "limiter_quiet limiter"
  shows "orderly_run (snd (next_sheet can_start limiter s))"
proof (cases rule: next_sheet_cases [where can_start = can_start and limiter = limiter and s = s])
  case (none r)
  then obtain q where s': "snd (next_sheet can_start limiter s) = s\<lparr>queue := q\<rparr>" and "queued s = infos q"
    using quiet by auto
  then have "queued (s\<lparr>queue := q\<rparr>) = queued s" by (simp add: queued_def)
  with inv(2) show ?thesis
    by (auto simp: s' orderly_run_def orderly_job_def registered_def job_dependencies_def)
next
  case (found e q lost)
  let ?s = "start_running e (s\<lparr>queue := q\<rparr>)"
  have q: "queued s = add_mset (se_info e) (infos q)" using found(2,3) quiet by simp
  have q': "queued ?s = infos q" by (simp add: queued_def start_running_def)
  have fields: "job_all_sheets ?s = job_all_sheets s" "job_deps ?s = job_deps s" "job_completed ?s = job_completed s"
    by (simp_all add: start_running_def)
  have run: "set (dget_or (running ?s) j []) = set (dget_or (running s) j []) \<union> (if j = si_job (se_info e) then {si_num (se_info e)} else {})"
    for j by (auto simp: start_running_def)
  have "orderly_job ?s j sheets" if reg: "registered ?s j sheets" for j sheets
  proof -
    from reg inv have o: "orderly_job s j sheets" and own: "\<And>i. i \<in> set sheets \<Longrightarrow> si_job i = j"
      by (auto simp: orderly_run_def registered_def fields sched_inv_def jobs_ok_def)
    show ?thesis
      using o own unfolding orderly_job_def q q' fields run job_dependencies_def by auto
  qed
  then show ?thesis by (simp add: orderly_run_def found(1))
qed

lemma orderly_complete:
  assumes inv: "sched_inv s" "orderly_run s" and "n \<in> set (dget_or (running s) j [])"
  shows "orderly_run (mark_complete clock j n success s)"
proof (cases "dget (job_all_sheets s) j")
  case None
  with inv show ?thesis by (simp add: mark_complete_def)
next
  case (Some sheets)
  let ?s = "mark_complete clock j n success s"
  have reg: "dget (job_all_sheets s) j \<noteq> None" using Some by simp
  from inv have ok: "jobs_ok s" "running_ok s" "queue_ok s" by (simp_all add: sched_inv_def)
  note st = complete_state [OF ok(2) reg refl, where clock = clock and n = n and success = success]
  have "orderly_job ?s j' sheets'" if "registered ?s j' sheets'" for j' sheets'
  proof -
    from that have r: "registered s j' sheets'" by (simp add: registered_def st(1))
    with inv have o: "orderly_job s j' sheets'" and own: "\<And>i. i \<in> set sheets' \<Longrightarrow> si_job i = j'"
      by (auto simp: orderly_run_def sched_inv_def jobs_ok_def)
    have all: "dget_or (job_all_sheets s) j [] = sheets" by (simp add: dget_or_def Some)
    have mine: "i \<in> set sheets \<Longrightarrow> si_job i = j" for i using ok(1) Some by (auto simp: jobs_ok_def registered_def)
    have queued: "i \<in># queued ?s \<longleftrightarrow> i \<in># queued s \<or> i \<in> set sheets \<and> released s ?s j i" for i
      by (auto simp: st(7) all)
    show ?thesis
    proof (cases "j' = j")
      case False
      with mine show ?thesis by (intro orderly_frame [OF o]) (use own in \<open>auto simp: st(2,4,5) queued\<close>)
    next
      case True
      with r Some have sheets': "sheets' = sheets" by (simp add: registered_def)
      have deps: "job_dependencies ?s = job_dependencies s" by (simp add: job_dependencies_def st(2) fun_eq_iff)
      have other: "si_num i \<noteq> n" if "i \<in># queued s" "si_job i = j" for i
        using that ok(3) assms(3) by (auto simp: queue_ok_def may_wait_def)
      have same: "i \<in># queued s" if "i \<in> set sheets" "i' \<in># queued s" "si_job i' = j" "si_num i' = si_num i" for i i'
      proof -
        from that(2,3) ok(3) Some have "i' \<in> set sheets" by (auto simp: queue_ok_def may_wait_def registered_def)
        moreover have "distinct (map si_num sheets)" using ok(1) Some by (auto simp: jobs_ok_def registered_def)
        ultimately have "i' = i" using that(1,4) by (auto simp: distinct_map dest: inj_onD)
        with that(2) show ?thesis by simp
      qed
      let ?done = "set (dget_or (job_completed s) j [])" and ?busy = "set (dget_or (running s) j [])"
      let ?deps = "\<lambda>i. set (sheet_deps (job_dependencies s j) (si_num i))"
      from o have ph: "no_phantoms sheets (job_dependencies s j)"
        and wait: "\<And>i. i \<in> set sheets \<Longrightarrow> si_num i \<in> ?done \<or> si_num i \<in> ?busy \<or> i \<in># queued s \<or> \<not> ?deps i \<subseteq> ?done"
        and fresh: "\<And>i. i \<in># queued s \<Longrightarrow> si_job i = j \<Longrightarrow> si_num i \<notin> ?done"
        and apart: "\<And>n. n \<in> ?busy \<Longrightarrow> n \<notin> ?done"
        unfolding orderly_job_def True sheets' by blast+
      have done': "set (dget_or (job_completed ?s) j []) = insert n ?done"
        and busy': "set (dget_or (running ?s) j []) = ?busy - {n}" by (simp_all add: st(4,5))
      have rel: "released s ?s j i \<longleftrightarrow> si_num i \<notin> insert n ?done \<and> (\<forall>i' \<in># queued s. si_job i' = j \<longrightarrow> si_num i' \<noteq> si_num i) \<and>
          si_num i \<notin> ?busy - {n} \<and> ?deps i \<noteq> {} \<and> ?deps i \<subseteq> insert n ?done" for i
        unfolding released_def done' busy' by simp
      show ?thesis
        unfolding orderly_job_def True sheets' deps done' busy'
      proof (intro conjI ballI impI)
        show "no_phantoms sheets (job_dependencies s j)" by (rule ph)
        show "si_num i \<in> insert n ?done \<or> si_num i \<in> ?busy - {n} \<or> i \<in># queued ?s \<or> \<not> ?deps i \<subseteq> insert n ?done"
          if i: "i \<in> set sheets" for i
        proof (rule ccontr)
          assume no: "\<not> ?thesis"
          then have q: "i \<notin># queued s" "\<not> released s ?s j i" using i queued by simp_all
          then have u: "\<forall>i' \<in># queued s. si_job i' = j \<longrightarrow> si_num i' \<noteq> si_num i" using same [OF i] by blast
          from no have n: "si_num i \<notin> insert n ?done" "si_num i \<notin> ?busy - {n}" "?deps i \<subseteq> insert n ?done"
            by (simp_all only: de_Morgan_disj not_not not_False_eq_True)
          have "?deps i = {}"
          proof (rule ccontr)
            assume "?deps i \<noteq> {}"
            then have "released s ?s j i" unfolding rel by (intro conjI u n)
            with q(2) show False ..
          qed
          with n(1,2) q(1) wait [OF i] show False by simp
        qed
        show "si_num i \<notin> insert n ?done" if "i \<in># queued ?s" "si_job i = j" for i
          using that other [of i] fresh [of i] unfolding queued rel by blast
        show "m \<notin> insert n ?done" if "m \<in> ?busy - {n}" for m using that apart by blast
      qed
    qed
  qed
  then show ?thesis by (simp add: orderly_run_def)
qed

lemma sched_reach_orderly: "sched_reach True s \<Longrightarrow> orderly_run s"
proof (induction rule: sched_reach.induct)
  case (start limit)
  show ?case by (simp add: orderly_run_def registered_def new_scheduler_def)
next
  case (resize s limit)
  then show ?case
    by (simp add: orderly_run_def orderly_job_def registered_def set_max_concurrent_def job_dependencies_def queued_def)
qed (auto intro: orderly_register orderly_deregister orderly_next orderly_complete sched_reach_inv)

subsection \<open>What the scheduler promises\<close>

lemma pick_found:
  "pick limiter s q skipped = (Inr (Some e), q', skipped') \<Longrightarrow>
     \<exists>before. q = before @ e # q' \<and> \<not> job_capped s e \<and> ask limiter (length q') e = Limited False \<and>
       (\<forall>x \<in> set before. job_capped s x \<or> (\<exists>n. ask limiter n x \<noteq> Limited False))"
proof (induction limiter s q skipped rule: pick.induct)
  case (2 limiter s x q skipped)
  show ?case
  proof (cases "\<not> job_capped s x \<and> ask limiter (length q) x = Limited False")
    case True
    with 2(5) show ?thesis by (intro exI [of _ "[]"]) simp
  next
    case False
    have "\<exists>skipped. pick limiter s q skipped = (Inr (Some e), q', skipped') \<and>
        (\<exists>before. q = before @ e # q' \<and> \<not> job_capped s e \<and> ask limiter (length q') e = Limited False \<and>
         (\<forall>x \<in> set before. job_capped s x \<or> (\<exists>n. ask limiter n x \<noteq> Limited False)))"
      using False 2 by (auto simp: Let_def split: if_splits limiter_answer.splits)
    then obtain before where "q = before @ e # q'" "\<not> job_capped s e" "ask limiter (length q') e = Limited False"
      "\<forall>x \<in> set before. job_capped s x \<or> (\<exists>n. ask limiter n x \<noteq> Limited False)" by blast
    with False show ?thesis by (intro exI [of _ "x # before"]) auto
  qed
qed simp

lemma next_sheet_found:
  assumes "next_sheet can_start limiter s = (Inr (Some e), s')"
  shows "can_start \<noteq> Some False" and "active_count s < max_concurrent s"
    and "\<exists>q. s' = start_running e (s\<lparr>queue := q\<rparr>)"
    and "\<not> job_capped s e" and "\<exists>n. ask limiter n e = Limited False" and "e \<in> rescore s ` set (queue s)"
    and "\<forall>x \<in> set (queue s). job_capped s x \<or> (\<exists>n. ask limiter n x \<noteq> Limited False) \<or> sheet_key e \<le> sheet_key (rescore s x)"
proof -
  let ?q = "heapify (map (rescore s) (queue s))"
  show started: "can_start \<noteq> Some False" "active_count s < max_concurrent s"
    using assms by (auto simp: next_sheet_def split: if_splits)
  obtain r q skipped where p: "pick limiter s ?q [] = (r, q, skipped)" by (metis prod_cases3)
  with assms started have r: "r = Inr (Some e)" and s': "s' = start_running e (s\<lparr>queue := push_all skipped q\<rparr>)"
    by (auto simp: next_sheet_def split: sum.splits option.splits)
  show "\<exists>q. s' = start_running e (s\<lparr>queue := q\<rparr>)" using s' by blast
  from pick_found [OF p [unfolded r]] obtain before where q: "?q = before @ e # q"
    and e: "\<not> job_capped s e" "ask limiter (length q) e = Limited False"
    and before: "\<forall>x \<in> set before. job_capped s x \<or> (\<exists>n. ask limiter n x \<noteq> Limited False)" by blast
  show "\<not> job_capped s e" "\<exists>n. ask limiter n e = Limited False" using e by blast+
  have set: "set ?q = rescore s ` set (queue s)" by (simp add: heapify_def)
  with q show "e \<in> rescore s ` set (queue s)" by (metis in_set_conv_decomp)
  have le: "sheet_key e \<le> sheet_key y" if "y \<in> set q" for y
    using heap_heapify [of "map (rescore s) (queue s)"] that unfolding q sheet_heap_def by (simp add: sorted_append)
  have same: "job_capped s (rescore s x) = job_capped s x" "ask limiter n (rescore s x) = ask limiter n x" for x n
    by (simp_all add: job_capped_def ask_def rescore_def split: option.split)
  show "\<forall>x \<in> set (queue s). job_capped s x \<or> (\<exists>n. ask limiter n x \<noteq> Limited False) \<or> sheet_key e \<le> sheet_key (rescore s x)"
  proof
    fix x
    assume "x \<in> set (queue s)"
    with set have "rescore s x \<in> set ?q" by simp
    then have "rescore s x \<in> set before \<union> {e} \<union> set q" unfolding q by simp
    then show "job_capped s x \<or> (\<exists>n. ask limiter n x \<noteq> Limited False) \<or> sheet_key e \<le> sheet_key (rescore s x)"
      using before le [of "rescore s x"] same by fastforce
  qed
qed

lemma queue_distinct:
  assumes "sched_inv s"
  shows "distinct (map (\<lambda>e. (si_job (se_info e), si_num (se_info e))) (queue s))"
proof -
  from assms have ok: "jobs_ok s" "queue_ok s" by (simp_all add: sched_inv_def)
  have "count (mset (map se_info (queue s))) i \<le> 1" for i using ok(2) by (simp add: queue_ok_def queued_def)
  then have "distinct (map se_info (queue s))"
    unfolding distinct_count_atmost_1 by (metis count_mset_0_iff le_antisym less_one not_le)
  moreover have "inj_on (\<lambda>i. (si_job i, si_num i)) (se_info ` set (queue s))"
    using ok same_sheet [OF ok(1)] by (auto intro!: inj_onI simp: queue_ok_def queued_def)
  ultimately show ?thesis
    by (metis (no_types, lifting) comp_inj_on distinct_map list.set_map map_map comp_def map_eq_conv)
qed

text \<open>A job with a diamond of dependencies, and a run of it up to its second level.\<close>

definition sheet_no :: "int \<Rightarrow> sheet_info" where
  "sheet_no n = \<lparr>si_job = ''job'', si_num = n, si_instrument = ''claude-code'', si_model = None,
     si_cost = 1, si_depth = n, si_priority = 5, si_retries = 0\<rparr>"

definition diamond :: scheduler where
  "diamond = snd (scheduler_register_job of_int ''job'' (map sheet_no [1, 2, 3, 4])
     [(2, [1]), (3, [1]), (4, [2, 3])] (new_scheduler 2))"

definition second_level :: scheduler where
  "second_level = mark_complete of_int ''job'' 1 True (snd (next_sheet None None diamond))"

lemma diamond_reach: "sched_reach True diamond"
  unfolding diamond_def
  by (rule sched_reach.register [OF sched_reach.start]) (auto simp: sheet_no_def no_phantoms_def sheet_deps_def dget_or_def)

lemma second_level_reach: "sched_reach True second_level"
  unfolding second_level_def
  by (rule sched_reach.complete, rule sched_reach.dispatch [OF diamond_reach])
    (simp add: limiter_quiet_def, code_simp)

lemma second_level_runs:
  "map (si_num \<circ> se_info) (queue second_level) = [2, 3]"
  "map_sum id (map_option (si_num \<circ> se_info)) (fst (next_sheet (Some True) None second_level)) = Inr (Some 2)"
  "fst (next_sheet (Some False) None second_level) = Inr None"
  "fst (next_sheet None (Some (\<lambda>_ _ _. Limited True)) second_level) = Inr None"
  "map se_skips (queue (snd (next_sheet None (Some (\<lambda>_ _ _. Caught)) second_level))) = [1, 1]"
  "get_stats second_level = \<lparr>st_queued = 2, st_active = 0, st_max = 2, st_running = [(''job'', 0)],
     st_per_job = [(''job'', 2)]\<rparr>"
  by code_simp+

text \<open>
  C25. The books of the scheduler agree after any sequence of its operations: \<open>active_count\<close>
  is the number of sheets in the running sets, no sheet is queued twice or while it runs,
  every queued sheet belongs to a registered job and has all it depends on completed, and the
  dependencies of a registered job have no cycle.
\<close>

theorem scheduler_keeps_its_books:
  assumes "sched_reach strict s"
  shows "active_count s = sum_list (map (int \<circ> length) (dvals (running s))) \<and>
    distinct (map (\<lambda>e. (si_job (se_info e), si_num (se_info e))) (queue s)) \<and>
    (\<forall>e \<in> set (queue s). let i = se_info e; j = si_job i in
       (\<exists>sheets. dget (job_all_sheets s) j = Some sheets \<and> i \<in> set sheets) \<and>
       si_num i \<notin> set (dget_or (running s) j []) \<and>
       set (sheet_deps (job_dependencies s j) (si_num i)) \<subseteq> set (dget_or (job_completed s) j [])) \<and>
    (\<forall>j. dget (job_all_sheets s) j \<noteq> None \<longrightarrow> acyclic (depends (job_dependencies s j)))"
proof -
  from sched_reach_inv [OF assms] have inv: "sched_inv s" .
  show ?thesis
  proof (intro conjI)
    show "active_count s = sum_list (map (int \<circ> length) (dvals (running s)))"
      using inv by (simp add: sched_inv_def running_ok_def total_def)
    show "distinct (map (\<lambda>e. (si_job (se_info e), si_num (se_info e))) (queue s))"
      by (rule queue_distinct [OF inv])
  qed (use inv in \<open>auto simp: sched_inv_def queue_ok_def queued_def may_wait_def registered_def jobs_ok_def Let_def\<close>)
qed

lemma scheduler_keeps_its_books_witness:
  "active_count second_level = sum_list (map (int \<circ> length) (dvals (running second_level))) \<and>
   active_count second_level = 0 \<and>
   distinct (map (\<lambda>e. (si_job (se_info e), si_num (se_info e))) (queue second_level))"
proof -
  have "active_count second_level = 0" by code_simp
  with scheduler_keeps_its_books [OF second_level_reach] show ?thesis by blast
qed

text \<open>
  C26. A sheet is dispatched only when the controller allows it, below the global limit and
  below its job's hard cap, when the limiter does not hold it back, with everything it depends
  on completed and while it does not run already; and every queued sheet that would have gone
  before it, by the current priorities, is job_capped or held back by the limiter.
\<close>

theorem dispatched_sheet_is_due:
  assumes "sched_reach strict s" and "next_sheet can_start limiter s = (Inr (Some e), s')"
  shows "let i = se_info e; j = si_job i in
    can_start \<noteq> Some False \<and> active_count s' = active_count s + 1 \<and> active_count s' \<le> max_concurrent s \<and>
    int (job_running s' j) \<le> hard_cap s \<and> (\<exists>n. ask limiter n e = Limited False) \<and>
    si_num i \<notin> set (dget_or (running s) j []) \<and> si_num i \<in> set (dget_or (running s') j []) \<and>
    set (sheet_deps (job_dependencies s j) (si_num i)) \<subseteq> set (dget_or (job_completed s) j []) \<and>
    (\<forall>x \<in> set (queue s). job_capped s x \<or> (\<exists>n. ask limiter n x \<noteq> Limited False) \<or>
       sheet_key e \<le> sheet_key (rescore s x))"
proof -
  from next_sheet_found(3) [OF assms(2)] obtain q where s': "s' = start_running e (s\<lparr>queue := q\<rparr>)" by blast
  note found = next_sheet_found [OF assms(2)]
  from found(6) obtain x where "x \<in> set (queue s)" "e = rescore s x" by blast
  then have "se_info e \<in># queued s" by (simp add: queued_def rescore_def)
  then have e: "may_wait s (se_info e)"
    using sched_reach_inv [OF assms(1)] by (simp add: sched_inv_def queue_ok_def)
  from found(4) have "int (job_running s (si_job (se_info e))) < hard_cap s" by (simp add: job_capped_def)
  then have "int (job_running s' (si_job (se_info e))) \<le> hard_cap s"
    using e by (simp add: s' start_running_def job_running_def may_wait_def)
  with found e show ?thesis by (simp add: s' start_running_def may_wait_def Let_def)
qed

lemma dispatched_sheet_is_due_witness:
  "case next_sheet (Some True) None second_level of
     (Inr (Some e), s') \<Rightarrow> si_num (se_info e) = 2 \<and> active_count s' = 1 \<and> int (job_running s' ''job'') \<le> hard_cap second_level
   | _ \<Rightarrow> False"
proof -
  have "case next_sheet (Some True) None second_level of
      (Inr (Some e), s') \<Rightarrow> si_num (se_info e) = 2 \<and> si_job (se_info e) = ''job'' | _ \<Rightarrow> False"
    by code_simp
  then obtain e s' where e: "next_sheet (Some True) None second_level = (Inr (Some e), s')"
    "si_num (se_info e) = 2" "si_job (se_info e) = ''job''"
    by (auto split: prod.splits sum.splits option.splits)
  have "active_count second_level = 0" by code_simp
  note e = e this
  show ?thesis using dispatched_sheet_is_due [OF second_level_reach e(1)] e by (simp add: Let_def)
qed

text \<open>
  C28. In a run that keeps to the protocol no sheet is dispatched again once it is completed,
  and the job's sheets are at every moment completed, running, queued, or waiting for a
  sheet of the job that is not completed.
\<close>

theorem sheets_run_once:
  assumes "sched_reach True s"
  shows "(\<forall>can_start limiter e s'. next_sheet can_start limiter s = (Inr (Some e), s') \<longrightarrow>
      si_num (se_info e) \<notin> set (dget_or (job_completed s) (si_job (se_info e)) [])) \<and>
    (\<forall>j sheets. dget (job_all_sheets s) j = Some sheets \<longrightarrow> (\<forall>i \<in> set sheets.
      si_num i \<in> set (dget_or (job_completed s) j []) \<or> si_num i \<in> set (dget_or (running s) j []) \<or>
      i \<in> se_info ` set (queue s) \<or>
      (\<exists>i' \<in> set sheets. si_num i' \<in> set (sheet_deps (job_dependencies s j) (si_num i)) \<and>
         si_num i' \<notin> set (dget_or (job_completed s) j []))))"
proof -
  from assms have inv: "sched_inv s" and ord: "orderly_run s" by (rule sched_reach_inv, rule sched_reach_orderly)
  have "si_num (se_info e) \<notin> set (dget_or (job_completed s) (si_job (se_info e)) [])"
    if n: "next_sheet can_start limiter s = (Inr (Some e), s')" for can_start limiter e s'
  proof -
    from next_sheet_found(6) [OF n] obtain x where "x \<in> set (queue s)" "e = rescore s x" by blast
    then have i: "se_info e \<in># queued s" by (simp add: queued_def rescore_def)
    with inv obtain sheets where "registered s (si_job (se_info e)) sheets"
      by (auto simp: sched_inv_def queue_ok_def may_wait_def)
    with ord i show ?thesis by (auto simp: orderly_run_def orderly_job_def)
  qed
  moreover have "si_num i \<in> set (dget_or (job_completed s) j []) \<or> si_num i \<in> set (dget_or (running s) j []) \<or>
      i \<in> se_info ` set (queue s) \<or>
      (\<exists>i' \<in> set sheets. si_num i' \<in> set (sheet_deps (job_dependencies s j) (si_num i)) \<and>
         si_num i' \<notin> set (dget_or (job_completed s) j []))"
    if "dget (job_all_sheets s) j = Some sheets" "i \<in> set sheets" for j sheets i
  proof -
    from ord that(1) have o: "orderly_job s j sheets" by (simp add: orderly_run_def registered_def)
    then have ph: "set (sheet_deps (job_dependencies s j) (si_num i)) \<subseteq> si_num ` set sheets"
      using that(2) by (auto simp: orderly_job_def no_phantoms_def)
    from o that(2) have "si_num i \<in> set (dget_or (job_completed s) j []) \<or> si_num i \<in> set (dget_or (running s) j []) \<or>
        i \<in># queued s \<or> \<not> set (sheet_deps (job_dependencies s j) (si_num i)) \<subseteq> set (dget_or (job_completed s) j [])"
      by (simp add: orderly_job_def)
    with ph show ?thesis by (auto simp: queued_def)
  qed
  ultimately show ?thesis by blast
qed

lemma sheets_run_once_witness:
  "case next_sheet (Some True) None second_level of
     (Inr (Some e), s') \<Rightarrow> si_num (se_info e) = 2 \<and> si_num (se_info e) \<notin> set (dget_or (job_completed second_level) ''job'' [])
   | _ \<Rightarrow> False"
proof -
  have "case next_sheet (Some True) None second_level of
      (Inr (Some e), s') \<Rightarrow> si_num (se_info e) = 2 \<and> si_job (se_info e) = ''job'' | _ \<Rightarrow> False"
    by code_simp
  then obtain e s' where e: "next_sheet (Some True) None second_level = (Inr (Some e), s')"
    "si_num (se_info e) = 2" "si_job (se_info e) = ''job''"
    by (auto split: prod.splits sum.splits option.splits)
  from sheets_run_once [OF second_level_reach] e(1)
  have "si_num (se_info e) \<notin> set (dget_or (job_completed second_level) (si_job (se_info e)) [])" by blast
  with e show ?thesis by simp
qed

lemma sheet_deps_depends: "p \<in> set (sheet_deps deps n) \<Longrightarrow> (p, n) \<in> depends deps"
  by (cases "dget deps n") (simp_all add: depends_def sheet_deps_def dget_or_def map_of_clearjunk)

lemma idle_job_complete:
  assumes "sched_inv s" and "orderly_run s" and reg: "registered s j sheets"
    and idle: "\<And>i. i \<in># queued s \<Longrightarrow> si_job i \<noteq> j" "dget_or (running s) j [] = []"
  shows "si_num ` set sheets \<subseteq> set (dget_or (job_completed s) j [])"
proof (rule ccontr)
  let ?done = "set (dget_or (job_completed s) j [])" and ?dep = "depends (job_dependencies s j)"
  let ?open = "si_num ` set sheets - ?done"
  assume "\<not> ?thesis"
  then obtain n where n: "n \<in> ?open" by blast
  have "acyclic (?dep \<inter> ?open \<times> ?open)"
    using assms(1) reg by (auto simp: sched_inv_def jobs_ok_def intro: acyclic_subset)
  then have wf: "wf (?dep \<inter> ?open \<times> ?open)" by (intro finite_acyclic_wf finite_Int) simp_all
  obtain m where m: "m \<in> ?open" "\<And>p. (p, m) \<in> ?dep \<inter> ?open \<times> ?open \<Longrightarrow> p \<notin> ?open"
    by (rule wfE_min [OF wf n], rule that) blast+
  then obtain i where i: "i \<in> set sheets" "si_num i = m" by blast
  from assms(2) reg have o: "orderly_job s j sheets" by (simp add: orderly_run_def)
  have "si_job i = j" using assms(1) reg i(1) by (simp add: sched_inv_def jobs_ok_def)
  with idle(1) have "i \<notin># queued s" by blast
  with o i m(1) idle(2) have "\<not> set (sheet_deps (job_dependencies s j) m) \<subseteq> ?done"
    unfolding orderly_job_def by force
  then obtain p where p: "p \<in> set (sheet_deps (job_dependencies s j) m)" "p \<notin> ?done" by blast
  have "p \<in> si_num ` set sheets" using o i p(1) by (auto simp: orderly_job_def no_phantoms_def)
  moreover have "(p, m) \<in> ?dep" using p(1) by (rule sheet_deps_depends)
  ultimately show False using m p(2) by blast
qed

text \<open>With nothing running no job is at its cap, and only the limiter holds entries back.\<close>

lemma pick_stuck:
  assumes "\<And>x. \<not> job_capped s x"
  shows "pick limiter s q skipped = (r, q', skipped') \<Longrightarrow>
    (r = Inr None \<longrightarrow> (\<forall>e \<in> set q. \<exists>n. ask limiter n e = Limited True \<or> ask limiter n e = Caught)) \<and>
    (\<forall>exn. r = Inl exn \<longrightarrow> (\<exists>e \<in> set q. \<exists>n. ask limiter n e = Uncaught exn))"
proof (induction q arbitrary: skipped)
  case (Cons e q)
  note eq = Cons.prems [unfolded pick.simps if_not_P [OF assms]]
  show ?case
  proof (cases "ask limiter (length q) e")
    case (Limited limited)
    with eq Cons.IH show ?thesis by (cases limited) fastforce+
  next
    case Caught
    with eq obtain skipped1 where "pick limiter s q skipped1 = (r, q', skipped')"
      by (auto simp: Let_def split: if_splits)
    from Cons.IH [OF this] Caught show ?thesis by auto
  next
    case (Uncaught exn)
    with eq show ?thesis by auto
  qed
qed auto

lemma ask_rescore [simp]: "ask limiter n (rescore s e) = ask limiter n e"
  by (simp add: ask_def rescore_def split: option.split)

lemma idle_scheduler:
  assumes "sched_reach True s" and "active_count s = 0"
    and "dget (job_all_sheets s) j = Some sheets" and "i \<in> set sheets"
    and "si_num i \<notin> set (dget_or (job_completed s) j [])"
  shows "queue s \<noteq> []" and "\<not> job_capped s e"
proof -
  from assms(1) have inv: "sched_inv s" and ord: "orderly_run s" by (rule sched_reach_inv, rule sched_reach_orderly)
  have "total (running s) = 0" "distinct (dkeys (running s))"
    using inv assms(2) by (simp_all add: sched_inv_def running_ok_def)
  then have none: "dget_or (running s) j [] = []" for j
    using total_ddel [of "running s" j] total_nonneg [of "ddel (running s) j"] by simp
  have "registered s j sheets" using assms(3) by (simp add: registered_def)
  with idle_job_complete [OF inv ord this] assms(4,5) none obtain i' where "i' \<in># queued s" by blast
  then show "queue s \<noteq> []" by (auto simp: queued_def)
  have "1 \<le> hard_cap s" by (simp add: hard_cap_def)
  then show "\<not> job_capped s e" using none by (simp add: job_capped_def job_running_def)
qed

text \<open>
  C8. A run in which the dispatch loop completes only what runs, dependencies name sheets of
  the job and the limiter has answered every call so far never stalls by itself: while nothing
  runs and a registered job has a sheet that is not completed, the queue is not empty, and the
  next call dispatches a sheet unless it is held back from outside. It returns nothing only
  when the controller refuses, the limit is below one, or the limiter holds back every queued
  sheet (by limiting its instrument or by one of the errors the loop catches), and it raises
  only what the limiter raised for a queued sheet.
\<close>

theorem scheduler_never_stalls:
  assumes "sched_reach True s" and "active_count s = 0"
    and "dget (job_all_sheets s) j = Some sheets" and "i \<in> set sheets"
    and "si_num i \<notin> set (dget_or (job_completed s) j [])"
  shows "queue s \<noteq> [] \<and>
    (case fst (next_sheet can_start limiter s) of
       Inr (Some e) \<Rightarrow> True
     | Inr None \<Rightarrow> can_start = Some False \<or> max_concurrent s < 1 \<or>
         (\<forall>e \<in> set (queue s). \<exists>n. ask limiter n e = Limited True \<or> ask limiter n e = Caught)
     | Inl exn \<Rightarrow> \<exists>e \<in> set (queue s). \<exists>n. ask limiter n e = Uncaught exn)"
proof -
  note idle = idle_scheduler [OF assms]
  obtain r q skipped where p: "pick limiter s (heapify (map (rescore s) (queue s))) [] = (r, q, skipped)"
    by (metis prod_cases3)
  from pick_stuck [OF idle(2) this] have stuck:
    "r = Inr None \<Longrightarrow> \<forall>e \<in> set (queue s). \<exists>n. ask limiter n e = Limited True \<or> ask limiter n e = Caught"
    "\<And>exn. r = Inl exn \<Longrightarrow> \<exists>e \<in> set (queue s). \<exists>n. ask limiter n e = Uncaught exn"
    by (simp_all add: heapify_def)
  have "fst (next_sheet can_start limiter s) =
      (if can_start = Some False \<or> max_concurrent s < 1 then Inr None else r)"
    using p assms(2) by (auto simp: next_sheet_def split: sum.split option.split)
  with idle(1) stuck show ?thesis by (auto split: sum.split option.split)
qed

lemma scheduler_never_stalls_witness:
  "\<exists>e s'. next_sheet (Some True) None second_level = (Inr (Some e), s')"
proof -
  have "active_count second_level = 0" "max_concurrent second_level = 2"
    "dget (job_all_sheets second_level) ''job'' = Some (map sheet_no [1, 2, 3, 4])"
    "sheet_no 4 \<in> set (map sheet_no [1, 2, 3, 4])"
    "si_num (sheet_no 4) \<notin> set (dget_or (job_completed second_level) ''job'' [])"
    by code_simp+
  note facts = this
  from scheduler_never_stalls [OF second_level_reach facts(1,3-5), of None "Some True"] facts(2)
  show ?thesis
    by (cases "next_sheet (Some True) None second_level")
      (auto simp: ask_def neq_Nil_conv split: sum.splits option.splits)
qed

end
