(* ===== verification/Pressure.thy ===== *)
theory Pressure
  imports Scheduler_Runs
begin

section \<open>Rate limits, resources and backpressure\<close>

text \<open>
  The daemon-level gates in front of dispatch: \<open>RateLimitCoordinator\<close>
  (\<open>daemon/rate_coordinator.py\<close>), the decisions of \<open>ResourceMonitor\<close> (\<open>daemon/monitor.py\<close>)
  and \<open>BackpressureController\<close> (\<open>daemon/backpressure.py\<close>), and what they give the sheet
  scheduler, whose limiter and controller they are. A reported wait that is not finite is
  \<open>None\<close>; the clock and the system probes are arguments.
\<close>

subsection \<open>The rate limit coordinator\<close>

record rate_event =
  re_instrument :: string
  re_detected_at :: rat
  re_wait :: rat
  re_job :: string
  re_sheet :: int

record coordinator =
  rc_events :: "rate_event list"
  rc_limits :: "(string, rat) dict"

definition new_coordinator :: coordinator where
  "new_coordinator = \<lparr>rc_events = [], rc_limits = []\<rparr>"

definition clamp_wait :: "rat option \<Rightarrow> rat" where
  "clamp_wait wait = max 0 (min (case wait of None \<Rightarrow> 0 | Some w \<Rightarrow> w) 86400)"

definition recent :: "rat \<Rightarrow> rate_event list \<Rightarrow> rate_event list" where
  "recent now es = filter (\<lambda>e. re_detected_at e > now - 3600) es"

definition report_rate_limit :: "rat \<Rightarrow> string \<Rightarrow> rat option \<Rightarrow> string \<Rightarrow> int \<Rightarrow> coordinator \<Rightarrow> coordinator" where
  "report_rate_limit now instrument wait job n rc =
     (let w = clamp_wait wait;
          e = \<lparr>re_instrument = instrument, re_detected_at = now, re_wait = w, re_job = job, re_sheet = n\<rparr>
      in rc\<lparr>rc_limits := dset (rc_limits rc) instrument (max (dget_or (rc_limits rc) instrument 0) (now + w)),
            rc_events := recent now (rc_events rc @ [e])\<rparr>)"

definition is_rate_limited :: "rat \<Rightarrow> string \<Rightarrow> string option \<Rightarrow> coordinator \<Rightarrow> bool \<times> rat" where
  "is_rate_limited now instrument model rc =
     (let remaining = dget_or (rc_limits rc) instrument 0 - now
      in if remaining > 0 then (True, remaining) else (False, 0))"

text \<open>\<open>round(x, 1)\<close>: to tenths, half to even.\<close>

definition round1 :: "rat \<Rightarrow> rat" where
  "round1 x = (let y = x * 10; n = \<lfloor>y\<rfloor>; d = y - of_int n
     in of_int (if d < 1/2 then n else if d > 1/2 then n + 1 else if even n then n else n + 1) / 10)"

definition active_limits :: "rat \<Rightarrow> coordinator \<Rightarrow> (string, rat) dict" where
  "active_limits now rc =
     map (\<lambda>(i, resume). (i, round1 (resume - now))) (filter (\<lambda>(i, resume). resume > now) (items (rc_limits rc)))"

text \<open>A stable sort that is reversed keeps the order of equal keys, too.\<close>

definition recent_events :: "rat \<Rightarrow> coordinator \<Rightarrow> rate_event list" where
  "recent_events now rc = sort_key (\<lambda>e. - re_detected_at e) (recent now (rc_events rc))"

definition clear_limits :: "string option \<Rightarrow> coordinator \<Rightarrow> nat \<times> coordinator" where
  "clear_limits instrument rc =
     (case instrument of
        Some i \<Rightarrow>
          if dget (rc_limits rc) i \<noteq> None then (1, rc\<lparr>rc_limits := ddel (rc_limits rc) i\<rparr>) else (0, rc)
      | None \<Rightarrow> (length (items (rc_limits rc)), rc\<lparr>rc_limits := []\<rparr>))"

definition prune_stale :: "rat \<Rightarrow> coordinator \<Rightarrow> int \<times> coordinator" where
  "prune_stale now rc =
     (let es = recent now (rc_events rc)
      in (int (length (rc_events rc)) - int (length es),
          rc\<lparr>rc_events := es, rc_limits := filter (\<lambda>(i, resume). resume > now) (items (rc_limits rc))\<rparr>))"

subsection \<open>The resource monitor\<close>

record resource_limits =
  rl_max_memory_mb :: int
  rl_max_processes :: int

record monitor =
  mo_config :: resource_limits
  mo_failures :: nat
  mo_degraded :: bool
  mo_prune_failures :: nat
  mo_prune_disabled :: bool
  mo_last_check :: rat
  mo_running :: bool

definition new_monitor :: "resource_limits \<Rightarrow> monitor" where
  "new_monitor config = \<lparr>mo_config = config, mo_failures = 0, mo_degraded = False, mo_prune_failures = 0,
     mo_prune_disabled = False, mo_last_check = 0, mo_running = True\<rparr>"

definition compute_percent :: "rat \<Rightarrow> int \<Rightarrow> rat" where
  "compute_percent current limit = (if limit \<le> 0 then 0 else min (current / of_int limit * 100) 100)"

text \<open>The two probes, of memory and of child processes; either may fail.\<close>

definition is_accepting_work :: "rat option \<Rightarrow> int option \<Rightarrow> monitor \<Rightarrow> bool" where
  "is_accepting_work mem procs m =
     (if mo_degraded m then False
      else case (mem, procs) of
          (Some u, Some p) \<Rightarrow>
            compute_percent u (rl_max_memory_mb (mo_config m)) < 80 \<and>
            compute_percent (of_int p) (rl_max_processes (mo_config m)) < 80
        | _ \<Rightarrow> False)"

record resource_snapshot =
  rs_memory_mb :: rat
  rs_processes :: int
  rs_probe_failed :: bool

definition check_now :: "rat option \<Rightarrow> int option \<Rightarrow> resource_snapshot" where
  "check_now mem procs =
     \<lparr>rs_memory_mb = (case mem of None \<Rightarrow> 0 | Some u \<Rightarrow> u), rs_processes = (case procs of None \<Rightarrow> 0 | Some p \<Rightarrow> p),
      rs_probe_failed = (mem = None \<or> procs = None)\<rparr>"

datatype shed_reason = Memory | Processes

text \<open>What a snapshot demands of the manager, in the order of the calls.\<close>

definition demands :: "resource_snapshot \<Rightarrow> monitor \<Rightarrow> shed_reason list" where
  "demands snap m =
     (if compute_percent (rs_memory_mb snap) (rl_max_memory_mb (mo_config m)) \<ge> 95 then [Memory] else []) @
     (if compute_percent (of_int (rs_processes snap)) (rl_max_processes (mo_config m)) \<ge> 95 then [Processes] else [])"

text \<open>The oldest running job is paused, or cancelled where pausing raises.\<close>

record listed_job =
  lj_id :: "string option"
  lj_status :: "string option"
  lj_submitted_at :: "rat option"

datatype shed_action = Paused string | Cancelled_instead string | No_job

definition submitted :: "listed_job \<Rightarrow> rat" where
  "submitted j = (case lj_submitted_at j of None \<Rightarrow> 0 | Some t \<Rightarrow> t)"

fun oldest :: "listed_job list \<Rightarrow> listed_job option" where
  "oldest [] = None"
| "oldest (j # js) =
     (case oldest js of None \<Rightarrow> Some j | Some k \<Rightarrow> if submitted j \<le> submitted k then Some j else Some k)"

definition shed_oldest_job :: "(string \<Rightarrow> bool) \<Rightarrow> listed_job list \<Rightarrow> shed_action" where
  "shed_oldest_job pause_works jobs =
     (case oldest (filter (\<lambda>j. lj_status j = Some ''running'') jobs) of
        None \<Rightarrow> No_job
      | Some j \<Rightarrow>
          (case lj_id j of
             None \<Rightarrow> No_job
           | Some i \<Rightarrow> if i = '''' then No_job else if pause_works i then Paused i else Cancelled_instead i))"

text \<open>The circuit breaker of the pruning, for a manager that is there.\<close>

definition prune_outcome :: "bool \<Rightarrow> monitor \<Rightarrow> monitor" where
  "prune_outcome worked m =
     (if mo_prune_disabled m then m
      else if worked then m\<lparr>mo_prune_failures := 0\<rparr>
      else m\<lparr>mo_prune_failures := mo_prune_failures m + 1,
             mo_prune_disabled := mo_prune_failures m + 1 \<ge> 3\<rparr>)"

text \<open>
  One round of \<open>_loop\<close>: the check passes, raises one of the caught exceptions, raises another
  one, or is cancelled. The result is the sleep; the loop ends with an exception or a break.
\<close>

datatype check_outcome = Passed rat | Failed | Raised py_exn | Cancelled

definition backoff :: "rat \<Rightarrow> nat \<Rightarrow> py_exn + rat" where
  "backoff interval exponent =
     (if float_overflows (2 ^ exponent) then Inl OverflowError else Inr (min (interval * 2 ^ exponent) 300))"

definition loop_done :: "monitor \<Rightarrow> monitor" where
  "loop_done m = m\<lparr>mo_degraded := True\<rparr>"

definition monitor_round :: "rat \<Rightarrow> check_outcome \<Rightarrow> monitor \<Rightarrow> (py_exn + rat option) \<times> monitor" where
  "monitor_round interval outcome m =
     (case outcome of
        Passed now \<Rightarrow>
          (Inr (Some interval), m\<lparr>mo_last_check := now, mo_failures := 0, mo_degraded := False\<rparr>)
      | Cancelled \<Rightarrow> (Inr None, m)
      | Raised e \<Rightarrow> (Inl e, loop_done m)
      | Failed \<Rightarrow>
          let m1 = m\<lparr>mo_failures := mo_failures m + 1\<rparr>;
              m2 = if mo_failures m1 \<ge> 5 \<and> \<not> mo_degraded m1 then m1\<lparr>mo_degraded := True\<rparr> else m1
          in if mo_degraded m2 then
               (case backoff interval (mo_failures m2 - 5) of
                  Inl e \<Rightarrow> (Inl e, loop_done m2)
                | Inr s \<Rightarrow> (Inr (Some s), m2))
             else (Inr (Some interval), m2))"

subsection \<open>Backpressure\<close>

datatype pressure_level = NONE | LOW | MEDIUM | HIGH | CRITICAL

fun level_delay :: "pressure_level \<Rightarrow> rat" where
  "level_delay NONE = 0"
| "level_delay LOW = 2"
| "level_delay MEDIUM = 10"
| "level_delay HIGH = 30"
| "level_delay CRITICAL = 60"

text \<open>The levels in their order, as a linear order of the library.\<close>

instantiation pressure_level :: linorder
begin

definition less_eq_pressure_level :: "pressure_level \<Rightarrow> pressure_level \<Rightarrow> bool" where
  "less_eq_pressure_level l l' \<longleftrightarrow> level_delay l \<le> level_delay l'"

definition less_pressure_level :: "pressure_level \<Rightarrow> pressure_level \<Rightarrow> bool" where
  "less_pressure_level l l' \<longleftrightarrow> level_delay l < level_delay l'"

instance
proof
  fix x y z :: pressure_level
  show "x \<le> y \<Longrightarrow> y \<le> x \<Longrightarrow> x = y"
    by (cases x; cases y) (simp_all add: less_eq_pressure_level_def)
qed (auto simp: less_eq_pressure_level_def less_pressure_level_def)

end

text \<open>
  \<open>current_level\<close> reads the memory once for its own thresholds; \<open>is_accepting_work\<close> probes
  again, so the second reading and the process count are further arguments.
\<close>

definition memory_pct :: "rat \<Rightarrow> monitor \<Rightarrow> rat" where
  "memory_pct u m = u / of_int (max (rl_max_memory_mb (mo_config m)) 1)"

definition current_level :: "rat \<Rightarrow> rat option \<Rightarrow> rat option \<Rightarrow> int option \<Rightarrow> monitor \<Rightarrow> coordinator \<Rightarrow> pressure_level" where
  "current_level now mem mem' procs m rc =
     (case mem of
        None \<Rightarrow> CRITICAL
      | Some u \<Rightarrow>
          if mo_degraded m then CRITICAL
          else if memory_pct u m > 95/100 \<or> \<not> is_accepting_work mem' procs m then CRITICAL
          else if memory_pct u m > 85/100 \<or> active_limits now rc \<noteq> [] then HIGH
          else if memory_pct u m > 70/100 then MEDIUM
          else if memory_pct u m > 50/100 then LOW
          else NONE)"

definition can_start_sheet :: "pressure_level \<Rightarrow> bool \<times> rat" where
  "can_start_sheet level = (if level = CRITICAL then (False, level_delay level) else (True, level_delay level))"

definition should_accept_job :: "rat option \<Rightarrow> rat option \<Rightarrow> int option \<Rightarrow> monitor \<Rightarrow> bool" where
  "should_accept_job mem mem' procs m =
     (case mem of
        None \<Rightarrow> False
      | Some u \<Rightarrow>
          if mo_degraded m then False
          else if memory_pct u m > 85/100 \<or> \<not> is_accepting_work mem' procs m then False
          else True)"

definition rejection_reason :: "rat option \<Rightarrow> rat option \<Rightarrow> int option \<Rightarrow> monitor \<Rightarrow> string option" where
  "rejection_reason mem mem' procs m =
     (case mem of
        None \<Rightarrow> Some ''resource''
      | Some u \<Rightarrow>
          if mo_degraded m then Some ''resource''
          else if memory_pct u m > 95/100 \<or> \<not> is_accepting_work mem' procs m then Some ''resource''
          else if memory_pct u m > 85/100 then Some ''resource''
          else None)"

subsection \<open>What the coordinator mirrors\<close>

datatype coordinator_op =
    Report rat string "rat option" string int
  | Clear rat "string option"
  | Prune rat

fun op_time :: "coordinator_op \<Rightarrow> rat" where
  "op_time (Report t _ _ _ _) = t"
| "op_time (Clear t _) = t"
| "op_time (Prune t) = t"

fun apply_op :: "coordinator_op \<Rightarrow> coordinator \<Rightarrow> coordinator" where
  "apply_op (Report t i w j n) rc = report_rate_limit t i w j n rc"
| "apply_op (Clear t i) rc = snd (clear_limits i rc)"
| "apply_op (Prune t) rc = snd (prune_stale t rc)"

text \<open>The state after a history, the latest operation first, and a history in order of time.\<close>

fun after :: "coordinator_op list \<Rightarrow> coordinator" where
  "after [] = new_coordinator"
| "after (op # ops) = apply_op op (after ops)"

fun timely :: "rat \<Rightarrow> coordinator_op list \<Rightarrow> bool" where
  "timely now [] \<longleftrightarrow> 0 \<le> now"
| "timely now (op # ops) \<longleftrightarrow> op_time op \<le> now \<and> timely (op_time op) ops"

text \<open>The specification: a report since the last clearing asks for a wait beyond now.\<close>

fun must_wait :: "coordinator_op list \<Rightarrow> string \<Rightarrow> rat \<Rightarrow> bool" where
  "must_wait [] i now \<longleftrightarrow> False"
| "must_wait (Report t j w _ _ # ops) i now \<longleftrightarrow> j = i \<and> t + clamp_wait w > now \<or> must_wait ops i now"
| "must_wait (Clear t j # ops) i now \<longleftrightarrow> j \<noteq> None \<and> j \<noteq> Some i \<and> must_wait ops i now"
| "must_wait (Prune t # ops) i now \<longleftrightarrow> must_wait ops i now"

lemma clamp_wait_bounds: "0 \<le> clamp_wait w" "clamp_wait w \<le> 86400"
  by (auto simp: clamp_wait_def)

lemma timely_later: "timely now ops \<Longrightarrow> now \<le> now' \<Longrightarrow> timely now' ops"
  by (cases ops) auto

lemma timely_nonneg: "timely now ops \<Longrightarrow> 0 \<le> now"
  by (induction ops arbitrary: now) force+

lemma pruned_limit: "dget (filter (\<lambda>(i, resume). resume > now) (items d)) i = (case dget d i of Some v \<Rightarrow> if v > now then Some v else None | None \<Rightarrow> None)"
  for now :: rat
proof -
  have "distinct (dkeys d') \<Longrightarrow> dget (filter (\<lambda>(i, resume). resume > now) d') i = (case dget d' i of Some v \<Rightarrow> if v > now then Some v else None | None \<Rightarrow> None)" for d'
    by (induction d') (auto simp: dget_None_iff split: option.splits)
  from this [of "items d"] show ?thesis by (simp add: map_of_clearjunk)
qed

lemma limits_mirror:
  "timely now ops \<Longrightarrow> (now < dget_or (rc_limits (after ops)) i 0 \<longleftrightarrow> must_wait ops i now) \<and>
     dget_or (rc_limits (after ops)) i 0 \<le> now + 86400"
proof (induction ops arbitrary: now)
  case Nil
  then show ?case by (simp add: new_coordinator_def dget_or_def)
next
  case (Cons op ops)
  from Cons.prems have t: "op_time op \<le> now" "timely (op_time op) ops" by simp_all
  from Cons.IH [OF timely_later [OF t(2,1)]]
  have limited: "now < dget_or (rc_limits (after ops)) i 0 \<longleftrightarrow> must_wait ops i now"
    and bound: "dget_or (rc_limits (after ops)) i 0 \<le> now + 86400" by simp_all
  have "0 \<le> now" using t(1) timely_nonneg [OF t(2)] by simp
  show ?case
  proof (cases op)
    case (Report u j w job n)
    with t(1) have "u + clamp_wait w \<le> now + 86400" using clamp_wait_bounds(2) [of w] by simp
    with Report limited bound show ?thesis by (auto simp: report_rate_limit_def Let_def)
  next
    case (Clear u j)
    have "dget_or (rc_limits (after (op # ops))) i 0 = (if j = None \<or> j = Some i then 0 else dget_or (rc_limits (after ops)) i 0)"
      by (cases j) (auto simp: Clear clear_limits_def dget_or_def)
    with Clear limited bound \<open>0 \<le> now\<close> show ?thesis by auto
  next
    case (Prune u)
    have "dget_or (rc_limits (after (op # ops))) i 0 =
        (if u < dget_or (rc_limits (after ops)) i 0 then dget_or (rc_limits (after ops)) i 0 else 0)
        \<or> dget (rc_limits (after ops)) i = None"
      by (cases "dget (rc_limits (after ops)) i")
        (simp_all add: Prune prune_stale_def Let_def dget_or_def pruned_limit)
    moreover have "dget (rc_limits (after ops)) i = None \<Longrightarrow> dget (rc_limits (after (op # ops))) i = None"
      by (simp add: Prune prune_stale_def Let_def pruned_limit)
    ultimately show ?thesis using Prune limited bound \<open>0 \<le> now\<close> t(1)
      by (cases "dget (rc_limits (after ops)) i") (auto simp: dget_or_def split: if_splits)
  qed
qed

lemma active_limits_mirror:
  "i \<in> set (dkeys (active_limits now rc)) \<longleftrightarrow> (\<exists>v. dget (rc_limits rc) i = Some v \<and> now < v)"
proof -
  have "i \<in> set (dkeys (active_limits now rc)) \<longleftrightarrow> (\<exists>v. (i, v) \<in> set (items (rc_limits rc)) \<and> now < v)"
    by (force simp: active_limits_def)
  also have "\<dots> \<longleftrightarrow> (\<exists>v. dget (rc_limits rc) i = Some v \<and> now < v)"
    by (metis distinct_clearjunk map_of_clearjunk map_of_eq_Some_iff)
  finally show ?thesis .
qed

text \<open>
  C33. The coordinator refines the history of its calls: at any time an instrument counts as
  limited, to the scheduler and to the controller alike, exactly when a report since its last
  clearing asks for a wait beyond now, whatever was pruned in between; and no report, however
  misread, makes it wait for more than a day.
\<close>

theorem coordinator_mirrors_reports:
  assumes "timely now ops"
  shows "(fst (is_rate_limited now i model (after ops)) \<longleftrightarrow> must_wait ops i now) \<and>
    (i \<in> set (dkeys (active_limits now (after ops))) \<longleftrightarrow> must_wait ops i now) \<and>
    0 \<le> snd (is_rate_limited now i model (after ops)) \<and> snd (is_rate_limited now i model (after ops)) \<le> 86400"
proof -
  from limits_mirror [OF assms, of i] timely_nonneg [OF assms]
  show ?thesis
    unfolding active_limits_mirror
    by (cases "dget (rc_limits (after ops)) i") (auto simp: is_rate_limited_def Let_def dget_or_def)
qed

definition limit_history :: "coordinator_op list" where
  "limit_history = [Report 50 ''codex'' None ''b'' 1, Prune 40, Report 10 ''claude'' (Some 900000) ''a'' 1,
     Clear 9 (Some ''claude''), Report 8 ''claude'' (Some 500000) ''a'' 1]"

lemma coordinator_mirrors_reports_witness:
  "must_wait limit_history ''claude'' 60 \<and> fst (is_rate_limited 60 ''claude'' None (after limit_history)) \<and>
   \<not> fst (is_rate_limited 60 ''codex'' None (after limit_history)) \<and>
   snd (is_rate_limited 60 ''claude'' None (after limit_history)) \<le> 86400"
proof -
  have t: "timely 60 limit_history" by code_simp
  have w: "must_wait limit_history ''claude'' 60" "\<not> must_wait limit_history ''codex'' 60" by code_simp+
  from coordinator_mirrors_reports [OF t, where model = None] w show ?thesis by blast
qed

subsection \<open>Levels\<close>

lemma percent_80:
  assumes "1 \<le> rl_max_memory_mb (mo_config m)"
  shows "compute_percent u (rl_max_memory_mb (mo_config m)) < 80 \<longleftrightarrow> memory_pct u m < 80/100"
proof -
  have "compute_percent u (rl_max_memory_mb (mo_config m)) = min (memory_pct u m * 100) 100"
    using assms by (simp add: compute_percent_def memory_pct_def)
  then show ?thesis by auto
qed

text \<open>
  C35. When both probes of the memory read the same, the level is critical already from 80
  percent of the memory on (the monitor's own threshold), or of the processes: between 85 and
  95 percent it is never merely high. Below that it is high exactly while an instrument is
  rate-limited, and otherwise graded by the memory.
\<close>

theorem backpressure_thresholds:
  assumes "1 \<le> rl_max_memory_mb (mo_config m)"
  shows "current_level now (Some u) (Some u) (Some p) m rc =
    (if mo_degraded m \<or> memory_pct u m \<ge> 80/100 \<or> compute_percent (of_int p) (rl_max_processes (mo_config m)) \<ge> 80
       then CRITICAL
     else if active_limits now rc \<noteq> [] then HIGH
     else if memory_pct u m > 70/100 then MEDIUM
     else if memory_pct u m > 50/100 then LOW
     else NONE)"
  by (auto simp: current_level_def is_accepting_work_def percent_80 [OF assms])

definition small_host :: monitor where
  "small_host = new_monitor \<lparr>rl_max_memory_mb = 1000, rl_max_processes = 50\<rparr>"

lemma backpressure_thresholds_witness:
  "current_level 0 (Some 900) (Some 900) (Some 3) small_host new_coordinator = CRITICAL"
  unfolding backpressure_thresholds [of small_host 0 900 3 new_coordinator, unfolded small_host_def new_monitor_def, simplified]
    small_host_def new_monitor_def
  by (simp add: memory_pct_def)

text \<open>More memory never lowers the level.\<close>

lemma level_monotone:
  assumes "1 \<le> rl_max_memory_mb (mo_config m)" and "u \<le> v"
  shows "current_level now (Some u) (Some u) procs m rc \<le> current_level now (Some v) (Some v) procs m rc"
proof -
  have "memory_pct u m \<le> memory_pct v m" using assms by (simp add: memory_pct_def divide_right_mono)
  with assms(1) show ?thesis
    by (cases procs) (auto simp: current_level_def is_accepting_work_def percent_80 less_eq_pressure_level_def)
qed

text \<open>
  A job is accepted exactly when there is no reason to reject it, whatever the probes read;
  rate limits play no part; and while the memory reads the same an accepted job is one for
  which the level is not critical, a sheet of it may start and the level grows with the memory.
\<close>

theorem acceptance_agrees:
  "(should_accept_job mem mem' procs m \<longleftrightarrow> rejection_reason mem mem' procs m = None) \<and>
   (1 \<le> rl_max_memory_mb (mo_config m) \<longrightarrow>
      (should_accept_job mem mem procs m \<longleftrightarrow> current_level now mem mem procs m rc \<noteq> CRITICAL) \<and>
      (should_accept_job mem mem procs m \<longleftrightarrow> fst (can_start_sheet (current_level now mem mem procs m rc))) \<and>
      (\<forall>u v. u \<le> v \<longrightarrow> current_level now (Some u) (Some u) procs m rc \<le> current_level now (Some v) (Some v) procs m rc))"
proof (intro conjI impI)
  show "should_accept_job mem mem' procs m \<longleftrightarrow> rejection_reason mem mem' procs m = None"
    by (auto simp: should_accept_job_def rejection_reason_def split: option.split)
next
  assume m: "1 \<le> rl_max_memory_mb (mo_config m)"
  show critical: "should_accept_job mem mem procs m \<longleftrightarrow> current_level now mem mem procs m rc \<noteq> CRITICAL"
    using percent_80 [OF m]
    by (cases mem; cases procs) (auto simp: should_accept_job_def current_level_def is_accepting_work_def)
  show "should_accept_job mem mem procs m \<longleftrightarrow> fst (can_start_sheet (current_level now mem mem procs m rc))"
    unfolding critical by (simp add: can_start_sheet_def)
  show "\<forall>u v. u \<le> v \<longrightarrow> current_level now (Some u) (Some u) procs m rc \<le> current_level now (Some v) (Some v) procs m rc"
    using level_monotone [OF m] by blast
qed

lemma acceptance_agrees_witness:
  "should_accept_job (Some 600) (Some 600) (Some 3) small_host \<and>
   current_level 60 (Some 600) (Some 600) (Some 3) small_host (after limit_history) = HIGH \<and>
   fst (can_start_sheet (current_level 60 (Some 600) (Some 600) (Some 3) small_host (after limit_history)))"
proof -
  have "should_accept_job (Some 600) (Some 600) (Some 3) small_host" "1 \<le> rl_max_memory_mb (mo_config small_host)"
    "current_level 60 (Some 600) (Some 600) (Some 3) small_host (after limit_history) = HIGH"
    by code_simp+
  with acceptance_agrees [of "Some 600" "Some 600" "Some 3" small_host 60 "after limit_history"] show ?thesis by blast
qed

subsection \<open>The monitor's circuit breaker\<close>

text \<open>The states between two rounds of a loop that goes on.\<close>

inductive monitor_alive :: "rat \<Rightarrow> resource_limits \<Rightarrow> monitor \<Rightarrow> bool" for interval config where
  started: "monitor_alive interval config (new_monitor config)"
| round: "monitor_alive interval config m \<Longrightarrow> monitor_round interval outcome m = (Inr (Some s), m') \<Longrightarrow>
    monitor_alive interval config m'"

lemma backoff_eq: "backoff interval k = (if 1024 \<le> k then Inl OverflowError else Inr (min (interval * 2 ^ k) 300))"
  by (simp add: backoff_def float_overflows_pow2)

lemma monitor_alive_inv: "monitor_alive interval config m \<Longrightarrow> (mo_degraded m \<longleftrightarrow> 5 \<le> mo_failures m) \<and> mo_failures m < 1029"
proof (induction rule: monitor_alive.induct)
  case started
  then show ?case by (simp add: new_monitor_def)
next
  case (round m outcome s m')
  show ?case
  proof (cases outcome)
    case Failed
    with round show ?thesis
      by (auto simp: monitor_round_def Let_def backoff_eq split: if_splits)
  qed (use round in \<open>auto simp: monitor_round_def\<close>)
qed

lemma failed_round:
  assumes "monitor_alive interval config m"
  shows "monitor_round interval Failed m =
      (if mo_failures m + 1 = 1029 then Inl OverflowError
       else if 5 \<le> mo_failures m + 1 then Inr (Some (min (interval * 2 ^ (mo_failures m + 1 - 5)) 300))
       else Inr (Some interval), m\<lparr>mo_failures := mo_failures m + 1, mo_degraded := 5 \<le> mo_failures m + 1\<rparr>)"
proof -
  from monitor_alive_inv [OF assms] have inv: "mo_degraded m \<longleftrightarrow> 5 \<le> mo_failures m" "mo_failures m < 1029" by simp_all
  have same: "m\<lparr>mo_failures := k, mo_degraded := b\<rparr> = m\<lparr>mo_failures := k\<rparr>" if "b \<longleftrightarrow> mo_degraded m" for k b
    using that by simp
  consider "mo_failures m < 4" | "mo_failures m = 4" | "5 \<le> mo_failures m" "mo_failures m < 1028" | "mo_failures m = 1028"
    using inv(2) by linarith
  then show ?thesis
  proof cases
    case 1
    with inv(1) show ?thesis by (simp add: monitor_round_def Let_def same)
  next
    case 2
    with inv(1) show ?thesis
      by (simp add: monitor_round_def Let_def backoff_eq)
  next
    case 3
    with inv(1) show ?thesis
      by (simp add: monitor_round_def Let_def backoff_eq same)
  next
    case 4
    with inv(1) show ?thesis
      by (simp add: monitor_round_def Let_def backoff_eq loop_done_def)
  qed
qed

text \<open>
  Five failed checks in a row, and no fewer, degrade the monitor, and one that passes
  restores it. The sleep is the interval until then and afterwards doubles with every failure
  up to five minutes, but the failure number 1029 overflows the power: the loop ends.
\<close>

theorem monitor_degrades_and_recovers:
  assumes "monitor_alive interval config m"
  shows "(mo_degraded m \<longleftrightarrow> 5 \<le> mo_failures m) \<and>
    monitor_round interval (Passed now) m =
      (Inr (Some interval), m\<lparr>mo_last_check := now, mo_failures := 0, mo_degraded := False\<rparr>) \<and>
    (let n = mo_failures m + 1; m' = m\<lparr>mo_failures := n, mo_degraded := 5 \<le> n\<rparr> in
       monitor_round interval Failed m =
         (if n = 1029 then Inl OverflowError
          else if 5 \<le> n then Inr (Some (min (interval * 2 ^ (n - 5)) 300))
          else Inr (Some interval), m'))"
  using failed_round [OF assms] monitor_alive_inv [OF assms] by (simp add: Let_def monitor_round_def)

definition failed_checks :: "nat \<Rightarrow> monitor" where
  "failed_checks n = ((\<lambda>m. snd (monitor_round 15 Failed m)) ^^ n) small_host"

lemma failed_checks_alive:
  "n < 1029 \<Longrightarrow> monitor_alive 15 (mo_config small_host) (failed_checks n) \<and> mo_failures (failed_checks n) = n"
proof (induction n)
  case 0
  have "small_host = new_monitor (mo_config small_host)" by (simp add: small_host_def new_monitor_def)
  then have "monitor_alive 15 (mo_config small_host) small_host" by (metis monitor_alive.started)
  then show ?case by (simp add: failed_checks_def small_host_def new_monitor_def)
next
  case (Suc n)
  then have m: "monitor_alive 15 (mo_config small_host) (failed_checks n)" "mo_failures (failed_checks n) = n" by simp_all
  have step: "failed_checks (Suc n) = snd (monitor_round 15 Failed (failed_checks n))" by (simp add: failed_checks_def)
  obtain s m' where r: "monitor_round 15 Failed (failed_checks n) = (Inr (Some s), m')"
    using failed_round [OF m(1)] m(2) Suc.prems by (cases "5 \<le> Suc n") auto
  from monitor_alive.round [OF m(1) r] failed_round [OF m(1)] r m(2) step show ?case by simp
qed

lemma monitor_degrades_and_recovers_witness:
  "mo_degraded (failed_checks 6) \<and>
   fst (monitor_round 15 Failed (failed_checks 6)) = Inr (Some 60) \<and>
   \<not> mo_degraded (snd (monitor_round 15 (Passed 99) (failed_checks 6)))"
proof -
  have m: "monitor_alive 15 (mo_config small_host) (failed_checks 6)" "mo_failures (failed_checks 6) = 6"
    using failed_checks_alive [of 6] by simp_all
  with monitor_degrades_and_recovers [OF m(1), of 99] show ?thesis by (simp add: Let_def)
qed

subsection \<open>Dispatch behind the gates\<close>

text \<open>
  What the sheet scheduler needs of whoever checks rate limits for it: an answer to every
  question, which is no only when there is no limit.
\<close>

locale limit_checker =
  fixes check :: "'c \<Rightarrow> nat \<Rightarrow> string \<Rightarrow> string option \<Rightarrow> limiter_answer"
    and limited :: "'c \<Rightarrow> string \<Rightarrow> bool"
  assumes answers: "\<exists>b. check c n i m = Limited b"
    and sound: "check c n i m = Limited False \<Longrightarrow> \<not> limited c i"
begin

lemma quiet: "limiter_quiet (Some (check c))"
  unfolding limiter_quiet_def option.case using answers by blast

lemma never_raises: "\<exists>f. fst (next_sheet can_start (Some (check c)) s) = Inr f"
proof (cases rule: next_sheet_cases [where can_start = can_start and limiter = "Some (check c)" and s = s])
  case (none r)
  then show ?thesis using quiet by auto
next
  case (found e q lost)
  then show ?thesis by simp
qed

lemma dispatched_unlimited:
  assumes "next_sheet can_start (Some (check c)) s = (Inr (Some e), s')"
  shows "\<not> limited c (si_instrument (se_info e))"
  using next_sheet_found(5) [OF assms] sound by (auto simp: ask_def)

lemma keeps_protocol: "sched_reach strict s \<Longrightarrow> sched_reach strict (snd (next_sheet can_start (Some (check c)) s))"
  by (rule sched_reach.dispatch) (use quiet in auto)

end

text \<open>The coordinator, asked at one moment, is such a checker.\<close>

definition coordinator_check :: "rat \<times> coordinator \<Rightarrow> nat \<Rightarrow> string \<Rightarrow> string option \<Rightarrow> limiter_answer" where
  "coordinator_check c n i m = Limited (fst (is_rate_limited (fst c) i m (snd c)))"

definition coordinator_limited :: "rat \<times> coordinator \<Rightarrow> string \<Rightarrow> bool" where
  "coordinator_limited c i \<longleftrightarrow> (\<exists>resume. dget (rc_limits (snd c)) i = Some resume \<and> fst c < resume)"

interpretation gate: limit_checker coordinator_check coordinator_limited
proof unfold_locales
  fix c n i m
  show "\<exists>b. coordinator_check c n i m = Limited b" by (simp add: coordinator_check_def)
  show "coordinator_check c n i m = Limited False \<Longrightarrow> \<not> coordinator_limited c i"
    by (auto simp: coordinator_check_def coordinator_limited_def is_rate_limited_def Let_def dget_or_def split: if_splits)
qed

text \<open>
  C32. The scheduler behind its two gates: asked at a moment with the pressure of that moment,
  it never raises and keeps to the protocol; nothing is dispatched at a critical level, and
  what is dispatched uses an instrument that no report since its last clearing still holds
  back.
\<close>

theorem dispatch_behind_the_gates:
  assumes "sched_reach strict s" and "timely now ops"
    and "next_sheet (Some (fst (can_start_sheet level))) (Some (coordinator_check (now, after ops))) s = (r, s')"
  shows "(\<exists>found. r = Inr found) \<and> sched_reach strict s' \<and>
    (\<forall>e. r = Inr (Some e) \<longrightarrow> level \<noteq> CRITICAL \<and> \<not> must_wait ops (si_instrument (se_info e)) now)"
proof -
  have r: "fst (next_sheet (Some (fst (can_start_sheet level))) (Some (coordinator_check (now, after ops))) s) = r" using assms(3) by simp
  have "\<exists>found. r = Inr found" using gate.never_raises r by metis
  moreover have "sched_reach strict s'" using gate.keeps_protocol [OF assms(1)] assms(3) by (metis snd_conv)
  moreover have "level \<noteq> CRITICAL \<and> \<not> must_wait ops (si_instrument (se_info e)) now" if "r = Inr (Some e)" for e
  proof -
    from assms(3) that have n: "next_sheet (Some (fst (can_start_sheet level))) (Some (coordinator_check (now, after ops))) s = (Inr (Some e), s')"
      by simp
    from gate.dispatched_unlimited [OF n] limits_mirror [OF assms(2), of "si_instrument (se_info e)"] timely_nonneg [OF assms(2)]
    have "\<not> must_wait ops (si_instrument (se_info e)) now"
      by (auto simp: coordinator_limited_def dget_or_def split: option.splits)
    with next_sheet_found(1) [OF n] show ?thesis by (auto simp: can_start_sheet_def)
  qed
  ultimately show ?thesis by blast
qed

lemma dispatch_behind_the_gates_witness:
  "\<exists>found. fst (next_sheet (Some True) (Some (coordinator_check (60, after limit_history))) second_level) = Inr found"
proof -
  have t: "timely 60 limit_history" by code_simp
  have "fst (can_start_sheet LOW) = True" by (simp add: can_start_sheet_def)
  with dispatch_behind_the_gates [OF second_level_reach t, of LOW] show ?thesis by (metis prod.collapse)
qed

end
