(* ===== verification/Checkpoint.thy ===== *)
theory Checkpoint
  imports Flow
begin

section \<open>Checkpoint documents\<close>

text \<open>
  \<open>CheckpointState\<close> of \<open>core/checkpoint.py\<close>: the document a job is resumed from, with the
  per-sheet documents (\<open>SheetState\<close>) it holds. A sheet document embeds the scheduling part
  that the baton mutates (\<open>Sheet.sheet\<close>); the document's operations are the \<open>mark_*\<close>
  methods, the validators that run when a document is loaded, the watermark that
  \<open>get_next_sheet\<close> reads, and the zombie check. Pydantic runs the validators on loading and
  on construction, never on assignment, so a mark can leave a document that loading would
  change: the first group of lemmas says when. The clock is an argument, one reading per
  operation.
\<close>

named_theorems doc_simps \<open>the effect of the marks on a document's fields\<close>

subsection \<open>Job status and error categories\<close>

datatype job_status =
    JOB_PENDING | JOB_RUNNING | JOB_COMPLETED | JOB_FAILED | JOB_PAUSED
  | JOB_PAUSED_AT_CHAIN | JOB_CANCELLED

definition TERMINAL_JOB_STATUSES :: "job_status set" where
  "TERMINAL_JOB_STATUSES = {JOB_COMPLETED, JOB_FAILED, JOB_CANCELLED}"

definition job_is_terminal :: "job_status \<Rightarrow> bool" where
  "job_is_terminal st \<longleftrightarrow> st \<in> TERMINAL_JOB_STATUSES"

datatype error_category =
    RATE_LIMIT | TRANSIENT | VALIDATION | AUTH | NETWORK | TIMEOUT | SIGNAL | FATAL
  | CONFIGURATION | PREFLIGHT | ESCALATION

fun category_value :: "error_category \<Rightarrow> string" where
  "category_value RATE_LIMIT = ''rate_limit''"
| "category_value TRANSIENT = ''transient''"
| "category_value VALIDATION = ''validation''"
| "category_value AUTH = ''auth''"
| "category_value NETWORK = ''network''"
| "category_value TIMEOUT = ''timeout''"
| "category_value SIGNAL = ''signal''"
| "category_value FATAL = ''fatal''"
| "category_value CONFIGURATION = ''configuration''"
| "category_value PREFLIGHT = ''preflight''"
| "category_value ESCALATION = ''escalation''"

definition all_categories :: "error_category list" where
  "all_categories = [RATE_LIMIT, TRANSIENT, VALIDATION, AUTH, NETWORK, TIMEOUT, SIGNAL, FATAL,
     CONFIGURATION, PREFLIGHT, ESCALATION]"

text \<open>\<open>ErrorCategory(value)\<close>: None stands for the \<open>ValueError\<close> of an unknown value.\<close>

definition parse_category :: "string \<Rightarrow> error_category option" where
  "parse_category v = List.find (\<lambda>c. category_value c = v) all_categories"

lemma parse_category_value [simp]: "parse_category (category_value c) = Some c"
  by (cases c) (simp_all add: parse_category_def all_categories_def)

lemma parse_category_Some: "parse_category v = Some c \<Longrightarrow> category_value c = v"
  by (auto simp: parse_category_def find_Some_iff)

subsection \<open>The documents\<close>

record error_record =
  er_timestamp :: rat
  er_error_type :: string
  er_error_code :: string
  er_error_message :: msg
  er_attempt_number :: int

record sheet_doc =
  sd_sheet :: sheet
  sd_error_category :: "error_category option"
  sd_exit_signal :: "int option"
  sd_exit_reason :: "string option"
  sd_execution_mode :: "string option"
  sd_error_history :: "error_record list"
  sd_instrument_resolution :: "string option"
  sd_sheet_timeout_seconds :: rat
  sd_fire_at :: "rat option"
  sd_rate_limit_expires_at :: "rat option"

record cb_change =
  cbc_state :: string
  cbc_timestamp :: rat
  cbc_trigger :: string
  cbc_consecutive_failures :: int

record checkpoint =
  cp_job_id :: string
  cp_updated_at :: rat
  cp_started_at :: "rat option"
  cp_completed_at :: "rat option"
  cp_max_wall_seconds :: "rat option"
  cp_wall_deadline_at :: "rat option"
  cp_terminal_reason :: "string option"
  cp_total_sheets :: int
  cp_last_completed_sheet :: int
  cp_current_sheet :: "int option"
  cp_status :: job_status
  cp_sheets :: "(int, sheet_doc) dict"
  cp_flow :: flow_state
  cp_pid :: "int option"
  cp_error_message :: "msg option"
  cp_total_retry_count :: int
  cp_synthesis_results :: "(string, jdict) dict"
  cp_hook_results :: "jdict list"
  cp_circuit_breaker_history :: "cb_change list"

definition new_doc :: "int \<Rightarrow> sheet_doc" where
  "new_doc n =
     \<lparr>sd_sheet = new_sheet n, sd_error_category = None, sd_exit_signal = None,
      sd_exit_reason = None, sd_execution_mode = None, sd_error_history = [],
      sd_instrument_resolution = None, sd_sheet_timeout_seconds = 1800, sd_fire_at = None,
      sd_rate_limit_expires_at = None\<rparr>"

abbreviation doc_status :: "sheet_doc \<Rightarrow> sheet_status" where
  "doc_status d \<equiv> status (sd_sheet d)"

abbreviation on_sheet :: "(sheet \<Rightarrow> sheet) \<Rightarrow> sheet_doc \<Rightarrow> sheet_doc" where
  "on_sheet f d \<equiv> d\<lparr>sd_sheet := f (sd_sheet d)\<rparr>"

abbreviation job_sheet :: "checkpoint \<Rightarrow> int \<Rightarrow> sheet_doc option" where
  "job_sheet c n \<equiv> dget (cp_sheets c) n"

definition new_checkpoint :: "string \<Rightarrow> int \<Rightarrow> rat \<Rightarrow> checkpoint" where
  "new_checkpoint j n t =
     \<lparr>cp_job_id = j, cp_updated_at = t, cp_started_at = None, cp_completed_at = None,
      cp_max_wall_seconds = None, cp_wall_deadline_at = None, cp_terminal_reason = None,
      cp_total_sheets = n, cp_last_completed_sheet = 0, cp_current_sheet = None,
      cp_status = JOB_PENDING, cp_sheets = [], cp_flow = new_flow_state, cp_pid = None,
      cp_error_message = None, cp_total_retry_count = 0, cp_synthesis_results = [],
      cp_hook_results = [], cp_circuit_breaker_history = []\<rparr>"

subsection \<open>Validators\<close>

text \<open>\<open>SheetState._enforce_status_invariants\<close>.\<close>

definition enforce_sheet :: "rat \<Rightarrow> sheet_doc \<Rightarrow> sheet_doc" where
  "enforce_sheet t d =
     (let d1 = (if doc_status d = COMPLETED \<and> completed_at (sd_sheet d) = None
                then on_sheet (\<lambda>s. s\<lparr>completed_at := Some t\<rparr>) d else d);
          d2 = (if doc_status d1 = IN_PROGRESS \<and> started_at (sd_sheet d1) = None
                then on_sheet (\<lambda>s. s\<lparr>started_at := Some t\<rparr>) d1 else d1)
      in if doc_status d2 = FAILED \<and> error_message (sd_sheet d2) = None
         then on_sheet (\<lambda>s. s\<lparr>error_message := Some MsgUnknownFailure\<rparr>) d2 else d2)"

text \<open>\<open>CheckpointState._enforce_status_invariants\<close>.\<close>

definition enforce_job :: "rat \<Rightarrow> checkpoint \<Rightarrow> checkpoint" where
  "enforce_job t c =
     (if cp_status c = JOB_RUNNING then
        (let c1 = (if cp_started_at c = None then c\<lparr>cp_started_at := Some t\<rparr> else c)
         in if cp_completed_at c1 \<noteq> None then c1\<lparr>cp_completed_at := None\<rparr> else c1)
      else c)"

text \<open>
  The "after" validators of a loaded document: those of the sheets, then the job's. What a
  dump leaves out (\<open>exclude=True\<close>) comes back as the field's default.
\<close>

definition validated :: "rat \<Rightarrow> checkpoint \<Rightarrow> checkpoint" where
  "validated t c = enforce_job t (c\<lparr>cp_sheets := dmap (\<lambda>_. enforce_sheet t) (cp_sheets c)\<rparr>)"

definition dumped_sheet :: "sheet_doc \<Rightarrow> sheet_doc" where
  "dumped_sheet d =
     on_sheet (\<lambda>s. s\<lparr>attempt_results := [], next_retry_at := None, dispatched_at := None\<rparr>) d"

definition dumped :: "checkpoint \<Rightarrow> checkpoint" where
  "dumped c = c\<lparr>cp_sheets := dmap (\<lambda>_. dumped_sheet) (cp_sheets c)\<rparr>"

subsection \<open>Deadline fields of a raw document\<close>

text \<open>
  \<open>float(s)\<close> of a string: surrounding white space, an optional sign, then \<open>inf\<close>,
  \<open>infinity\<close>, \<open>nan\<close> in any case, or digits (single underscores between them) with an
  optional fraction and exponent. A value keeps its exact decimal meaning, except that it
  becomes an infinity beyond the largest double and zero below half the smallest one.
\<close>

datatype pyfloat = Fin rat | Infinite bool | NaN

definition to_double :: "rat \<Rightarrow> pyfloat" where
  "to_double x = (if float_overflows \<bar>x\<bar> then Infinite (x > 0)
                  else if \<bar>x\<bar> * 2 ^ 1075 \<le> 1 then Fin 0 else Fin x)"

definition lower :: "char \<Rightarrow> char" where
  "lower c = (let k = (of_char c :: nat)
     in if 65 \<le> k \<and> k \<le> 90 then char_of (k + 32) else c)"

text \<open>A run of digits: its value and length so far, and the rest. An underscore must stand
  between two digits.\<close>

fun digits :: "nat \<Rightarrow> nat \<Rightarrow> string \<Rightarrow> nat \<times> nat \<times> string" where
  "digits v n [] = (v, n, [])"
| "digits v n (c # cs) =
     (case digit_of c of
        Some k \<Rightarrow> digits (10 * v + k) (Suc n) cs
      | None \<Rightarrow>
          if c = CHR ''_'' \<and> n \<noteq> 0
          then (case cs of
                  c' # cs' \<Rightarrow> (case digit_of c' of
                      Some k \<Rightarrow> digits (10 * v + k) (Suc n) cs'
                    | None \<Rightarrow> (v, n, c # cs))
                | [] \<Rightarrow> (v, n, c # cs))
          else (v, n, c # cs))"

definition take_sign :: "string \<Rightarrow> bool \<times> string" where
  "take_sign s = (case s of
      c # cs \<Rightarrow> if c = CHR ''-'' then (True, cs) else if c = CHR ''+'' then (False, cs) else (False, s)
    | [] \<Rightarrow> (False, s))"

definition strip_ws :: "string \<Rightarrow> string" where
  "strip_ws s = rev (dropWhile is_space (rev (dropWhile is_space s)))"

text \<open>The fraction after the integer digits, then the exponent; the rest must be empty.\<close>

definition scan_fraction :: "nat \<Rightarrow> string \<Rightarrow> nat \<times> nat \<times> string" where
  "scan_fraction v s = (case s of
      CHR ''.'' # cs \<Rightarrow>
        (let (w, n, rest) = digits 0 0 cs in (v * 10 ^ n + w, n, rest))
    | _ \<Rightarrow> (v, 0, s))"

definition scan_exponent :: "string \<Rightarrow> (int \<times> string) option" where
  "scan_exponent s = (case s of
      c # cs \<Rightarrow>
        if lower c = CHR ''e'' then
          (let (neg, cs1) = take_sign cs; (e, n, rest) = digits 0 0 cs1
           in if n = 0 then None else Some (if neg then - int e else int e, rest))
        else Some (0, s)
    | [] \<Rightarrow> Some (0, s))"

definition scan_number :: "string \<Rightarrow> rat option" where
  "scan_number s =
     (let (v, n, s1) = digits 0 0 s; (w, m, s2) = scan_fraction v s1
      in if n = 0 \<and> m = 0 then None
         else case scan_exponent s2 of
                None \<Rightarrow> None
              | Some (e, rest) \<Rightarrow>
                  if rest \<noteq> [] then None
                  else Some (let k = e - int m
                             in if k \<ge> 0 then of_nat w * 10 ^ nat k
                                else of_nat w / 10 ^ nat (- k)))"

definition parse_float :: "string \<Rightarrow> pyfloat option" where
  "parse_float s =
     (let (neg, body) = take_sign (strip_ws s); word = map lower body
      in if word = ''inf'' \<or> word = ''infinity'' then Some (Infinite (\<not> neg))
         else if word = ''nan'' then Some NaN
         else map_option (\<lambda>x. to_double (if neg then - x else x)) (scan_number body))"

text \<open>
  \<open>float(raw)\<close>. \<open>ValueError\<close> stands for the \<open>TypeError\<close> of a list or an object as well:
  the caller catches both and treats them alike. It does not catch the \<open>OverflowError\<close> of
  an integer beyond the float range. A JSON number is an exact rational here: the rounding of
  an integer or a decimal to the nearest float, and the non-finite numbers that Python's JSON
  reader accepts, are left out.
\<close>

fun float_of_json :: "json \<Rightarrow> py_exn + pyfloat" where
  "float_of_json (JInt i) =
     (if float_overflows \<bar>of_int i\<bar> then Inl OverflowError else Inr (Fin (of_int i)))"
| "float_of_json (JNum q) = Inr (Fin q)"
| "float_of_json (JBool b) = Inr (Fin (if b then 1 else 0))"
| "float_of_json (JStr s) = (case parse_float s of None \<Rightarrow> Inl ValueError | Some f \<Rightarrow> Inr f)"
| "float_of_json _ = Inl ValueError"

text \<open>One round of the loop over the two fields, with the diagnostics collected so far.\<close>

fun normalize_field ::
  "string \<Rightarrow> jdict \<times> string list \<Rightarrow> py_exn + jdict \<times> string list" where
  "normalize_field f (d, ds) =
     (let absent = (\<lambda>why. Inr (dset d f JNull, ds @ [f @ why]))
      in case dget d f of
           None \<Rightarrow> Inr (d, ds)
         | Some JNull \<Rightarrow> Inr (d, ds)
         | Some (JBool _) \<Rightarrow> absent '':not_numeric''
         | Some raw \<Rightarrow>
             (case float_of_json raw of
                Inl ValueError \<Rightarrow> absent '':not_numeric''
              | Inl e \<Rightarrow> Inl e
              | Inr (Fin q) \<Rightarrow> if q \<le> 0 then absent '':not_positive_finite''
                              else Inr (dset d f (JNum q), ds)
              | Inr _ \<Rightarrow> absent '':not_positive_finite''))"

definition is_None :: "json option \<Rightarrow> bool" where
  "is_None v \<longleftrightarrow> v = None \<or> v = Some JNull"

definition check_limit :: "jdict \<times> string list \<Rightarrow> jdict \<times> string list" where
  "check_limit x = (let (d, ds) = x in
     (d, if \<not> is_None (dget d ''max_wall_seconds'') \<and> is_None (dget d ''wall_deadline_at'')
         then ds @ [''wall_deadline_at:missing_for_score_limit''] else ds))"

definition check_reason :: "jdict \<times> string list \<Rightarrow> jdict \<times> string list" where
  "check_reason x = (let (d, ds) = x in
     case dget d ''terminal_reason'' of
       None \<Rightarrow> (d, ds)
     | Some JNull \<Rightarrow> (d, ds)
     | Some (JStr _) \<Rightarrow> (d, ds)
     | Some _ \<Rightarrow> (dset d ''terminal_reason'' JNull, ds @ [''terminal_reason:not_text'']))"

definition normalize_deadlines :: "jdict \<Rightarrow> py_exn + jdict \<times> string list" where
  "normalize_deadlines d =
     (case normalize_field ''max_wall_seconds'' (d, []) of
        Inl e \<Rightarrow> Inl e
      | Inr x \<Rightarrow>
          (case normalize_field ''wall_deadline_at'' x of
             Inl e \<Rightarrow> Inl e
           | Inr y \<Rightarrow> Inr (check_reason (check_limit y))))"

subsection \<open>Bounded histories\<close>

definition MAX_ERROR_HISTORY :: nat where "MAX_ERROR_HISTORY = 50"

definition MAX_CIRCUIT_BREAKER_HISTORY :: nat where "MAX_CIRCUIT_BREAKER_HISTORY = 50"

definition add_error_to_history :: "error_record \<Rightarrow> sheet_doc \<Rightarrow> sheet_doc" where
  "add_error_to_history e d =
     d\<lparr>sd_error_history := last_n MAX_ERROR_HISTORY (sd_error_history d @ [e])\<rparr>"

definition record_circuit_breaker_change ::
  "string \<Rightarrow> string \<Rightarrow> int \<Rightarrow> rat \<Rightarrow> checkpoint \<Rightarrow> checkpoint" where
  "record_circuit_breaker_change st trig k t c =
     c\<lparr>cp_circuit_breaker_history := last_n MAX_CIRCUIT_BREAKER_HISTORY
         (cp_circuit_breaker_history c @
           [\<lparr>cbc_state = st, cbc_timestamp = t, cbc_trigger = trig,
             cbc_consecutive_failures = k\<rparr>]),
       cp_updated_at := t\<rparr>"

definition record_hook_result :: "jdict \<Rightarrow> rat \<Rightarrow> checkpoint \<Rightarrow> checkpoint" where
  "record_hook_result r t c =
     c\<lparr>cp_hook_results := cp_hook_results c @ [r], cp_updated_at := t\<rparr>"

definition add_synthesis :: "string \<Rightarrow> jdict \<Rightarrow> rat \<Rightarrow> checkpoint \<Rightarrow> checkpoint" where
  "add_synthesis b r t c =
     c\<lparr>cp_synthesis_results := dset (cp_synthesis_results c) b r, cp_updated_at := t\<rparr>"

subsection \<open>Marks\<close>

text \<open>
  \<open>if sheet_num not in self.sheets: self.sheets[n] = SheetState(sheet_num=n)\<close>: the
  constructor raises a validation error (a \<open>ValueError\<close>) for a number below one.
\<close>

definition ensure_doc :: "int \<Rightarrow> (checkpoint, unit) act" where
  "ensure_doc n = (\<lambda>c.
     if job_sheet c n \<noteq> None then (Inr (), c)
     else if n < 1 then (Inl ValueError, c)
     else (Inr (), c\<lparr>cp_sheets := dset (cp_sheets c) n (new_doc n)\<rparr>))"

definition adj_doc :: "int \<Rightarrow> (sheet_doc \<Rightarrow> sheet_doc) \<Rightarrow> checkpoint \<Rightarrow> checkpoint" where
  "adj_doc n f c = c\<lparr>cp_sheets := dadj (cp_sheets c) n f\<rparr>"

definition start_doc :: "rat \<Rightarrow> sheet_doc \<Rightarrow> sheet_doc" where
  "start_doc t d =
     (on_sheet (\<lambda>s. s\<lparr>status := IN_PROGRESS, started_at := Some t,
        attempt_count := attempt_count s + 1, error_message := None, exit_code := None\<rparr>) d)
     \<lparr>sd_execution_mode := None\<rparr>"

definition mark_sheet_started :: "int \<Rightarrow> rat \<Rightarrow> (checkpoint, unit) act" where
  "mark_sheet_started n t =
     thn (modify (\<lambda>c. c\<lparr>cp_current_sheet := Some n, cp_status := JOB_RUNNING, cp_updated_at := t\<rparr>))
    (thn (ensure_doc n)
         (modify (adj_doc n (start_doc t))))"

definition validation_evidence :: "bool \<Rightarrow> jdict list option \<Rightarrow> sheet \<Rightarrow> sheet" where
  "validation_evidence ok details s =
     (case details of
        Some rows \<Rightarrow>
          (let passed = map row_description (filter row_passed rows);
               failed = map row_description (filter (\<lambda>d. \<not> row_passed d) rows)
           in s\<lparr>passed_validations := passed, failed_validations := failed,
                last_pass_percentage := Some
                  (if rows \<noteq> [] then of_nat (length passed) / of_nat (length rows) * 100 else 100)\<rparr>)
      | None \<Rightarrow>
          if ok then
            (let s1 = s\<lparr>failed_validations := []\<rparr>
             in if last_pass_percentage s1 \<noteq> None
                then s1\<lparr>last_pass_percentage := Some 100\<rparr> else s1)
          else s)"

definition set_duration :: "rat option \<Rightarrow> sheet \<Rightarrow> sheet" where
  "set_duration dur s =
     (case dur of None \<Rightarrow> s | Some x \<Rightarrow> s\<lparr>execution_duration_seconds := Some x\<rparr>)"

definition complete_doc ::
  "bool \<Rightarrow> jdict list option \<Rightarrow> rat option \<Rightarrow> rat \<Rightarrow> sheet_doc \<Rightarrow> sheet_doc" where
  "complete_doc ok details dur t d =
     on_sheet (\<lambda>s. set_duration dur (validation_evidence ok details
       (s\<lparr>status := COMPLETED, completed_at := Some t, exit_code := Some 0,
          validation_passed := Some ok, validation_details := details\<rparr>))) d"

definition all_sheets_completed :: "checkpoint \<Rightarrow> bool" where
  "all_sheets_completed c \<longleftrightarrow> int (length (cp_sheets c)) \<ge> cp_total_sheets c \<and>
     list_all (\<lambda>d. doc_status d = COMPLETED) (dvals (cp_sheets c))"

definition finish_job :: "rat \<Rightarrow> checkpoint \<Rightarrow> checkpoint" where
  "finish_job t c =
     (if all_sheets_completed c
      then c\<lparr>cp_status := JOB_COMPLETED, cp_completed_at := Some t\<rparr> else c)"

definition mark_sheet_completed ::
  "int \<Rightarrow> bool \<Rightarrow> jdict list option \<Rightarrow> rat option \<Rightarrow> rat \<Rightarrow> (checkpoint, unit) act" where
  "mark_sheet_completed n ok details dur t =
     thn (modify (\<lambda>c. c\<lparr>cp_updated_at := t\<rparr>))
    (thn (ensure_doc n)
    (thn (modify (adj_doc n (complete_doc ok details dur t)))
         (modify (\<lambda>c. finish_job t
           (c\<lparr>cp_last_completed_sheet := max n (cp_last_completed_sheet c),
              cp_current_sheet := None\<rparr>)))))"

text \<open>The category arrives as a member of the enum or as text; unknown text becomes None.\<close>

definition read_category :: "(error_category + string) option \<Rightarrow> error_category option" where
  "read_category x = (case x of
      None \<Rightarrow> None | Some (Inl c) \<Rightarrow> Some c | Some (Inr v) \<Rightarrow> parse_category v)"

record failure_info =
  fi_message :: msg
  fi_category :: "(error_category + string) option"
  fi_exit_code :: "int option"
  fi_exit_signal :: "int option"
  fi_exit_reason :: "string option"
  fi_duration :: "rat option"
  fi_error_code :: "string option"

definition plain_failure :: "msg \<Rightarrow> failure_info" where
  "plain_failure m =
     \<lparr>fi_message = m, fi_category = None, fi_exit_code = None, fi_exit_signal = None,
      fi_exit_reason = None, fi_duration = None, fi_error_code = None\<rparr>"

definition fail_doc :: "failure_info \<Rightarrow> rat \<Rightarrow> sheet_doc \<Rightarrow> sheet_doc" where
  "fail_doc i t d =
     (on_sheet (\<lambda>s. set_duration (fi_duration i)
        (s\<lparr>status := FAILED, completed_at := Some t, error_message := Some (fi_message i),
           error_code := fi_error_code i, exit_code := fi_exit_code i\<rparr>)) d)
     \<lparr>sd_error_category := read_category (fi_category i), sd_exit_signal := fi_exit_signal i,
      sd_exit_reason := fi_exit_reason i\<rparr>"

definition mark_sheet_failed :: "int \<Rightarrow> failure_info \<Rightarrow> rat \<Rightarrow> (checkpoint, unit) act" where
  "mark_sheet_failed n i t =
     thn (modify (\<lambda>c. c\<lparr>cp_updated_at := t\<rparr>))
    (thn (ensure_doc n)
    (thn (modify (adj_doc n (fail_doc i t)))
         (modify (\<lambda>c. c\<lparr>cp_current_sheet := None,
                        cp_total_retry_count := cp_total_retry_count c + 1\<rparr>))))"

definition skip_doc :: "msg option \<Rightarrow> rat \<Rightarrow> sheet_doc \<Rightarrow> sheet_doc" where
  "skip_doc reason t d =
     on_sheet (\<lambda>s. (let s1 = s\<lparr>status := SKIPPED, completed_at := Some t\<rparr>
        in if msg_truthy reason then s1\<lparr>error_message := reason\<rparr> else s1)) d"

definition mark_sheet_skipped :: "int \<Rightarrow> msg option \<Rightarrow> rat \<Rightarrow> (checkpoint, unit) act" where
  "mark_sheet_skipped n reason t =
     thn (modify (\<lambda>c. c\<lparr>cp_updated_at := t\<rparr>))
    (thn (ensure_doc n)
    (thn (modify (adj_doc n (skip_doc reason t)))
         (modify (\<lambda>c. c\<lparr>cp_current_sheet := None\<rparr>))))"

definition mark_job_failed :: "msg \<Rightarrow> rat \<Rightarrow> checkpoint \<Rightarrow> checkpoint" where
  "mark_job_failed m t c =
     c\<lparr>cp_status := JOB_FAILED, cp_error_message := Some m, cp_pid := None,
       cp_completed_at := Some t, cp_updated_at := t\<rparr>"

definition mark_job_paused :: "rat \<Rightarrow> checkpoint \<Rightarrow> checkpoint" where
  "mark_job_paused t c = c\<lparr>cp_status := JOB_PAUSED, cp_pid := None, cp_updated_at := t\<rparr>"

definition set_running_pid :: "int option \<Rightarrow> int \<Rightarrow> rat \<Rightarrow> checkpoint \<Rightarrow> checkpoint" where
  "set_running_pid p own t c =
     c\<lparr>cp_pid := Some (case p of Some k \<Rightarrow> k | None \<Rightarrow> own), cp_updated_at := t\<rparr>"

subsection \<open>Reading a document\<close>

definition open_sheet :: "checkpoint \<Rightarrow> int \<Rightarrow> bool" where
  "open_sheet c n \<longleftrightarrow> (case job_sheet c n of
      None \<Rightarrow> True | Some d \<Rightarrow> doc_status d = PENDING \<or> doc_status d = FAILED)"

definition in_progress_sheet :: "checkpoint \<Rightarrow> int option" where
  "in_progress_sheet c = (case cp_current_sheet c of
      Some n \<Rightarrow> (case job_sheet c n of
          Some d \<Rightarrow> if doc_status d = IN_PROGRESS then Some n else None
        | None \<Rightarrow> None)
    | None \<Rightarrow> None)"

definition get_next_sheet :: "checkpoint \<Rightarrow> int option" where
  "get_next_sheet c =
     (if cp_status c = JOB_COMPLETED \<or> cp_status c = JOB_CANCELLED then None
      else case in_progress_sheet c of
             Some n \<Rightarrow> Some n
           | None \<Rightarrow> List.find (open_sheet c)
                       [cp_last_completed_sheet c + 1 .. cp_total_sheets c])"

definition completed_count :: "checkpoint \<Rightarrow> nat" where
  "completed_count c = length (filter (\<lambda>d. doc_status d = COMPLETED) (dvals (cp_sheets c)))"

definition get_progress :: "checkpoint \<Rightarrow> nat \<times> int" where
  "get_progress c = (completed_count c, cp_total_sheets c)"

definition get_progress_percent :: "checkpoint \<Rightarrow> rat" where
  "get_progress_percent c =
     (let (k, n) = get_progress c in if n > 0 then of_nat k / of_int n * 100 else 0)"

text \<open>The attempts of every sheet, newest first (\<open>execution_history_records\<close>).\<close>

definition execution_history_records ::
  "checkpoint \<Rightarrow> int option \<Rightarrow> int \<Rightarrow> (int \<times> attempt_entry) list" where
  "execution_history_records c which limit =
     (let rows = concat (map (\<lambda>(n, d). map (Pair n) (attempt_history (sd_sheet d)))
                   (filter (\<lambda>(n, d). which = None \<or> which = Some n) (cp_sheets c)))
      in take (nat (max limit 0)) (sort_key (\<lambda>(n, e). - ae_timestamp e) rows))"

subsection \<open>Zombies\<close>

text \<open>What \<open>os.kill(pid, 0)\<close> answers.\<close>

datatype pid_probe = Alive | NoProcess | NoPermission | OtherOSError

definition is_zombie :: "(int \<Rightarrow> pid_probe) \<Rightarrow> checkpoint \<Rightarrow> bool" where
  "is_zombie kill c =
     (if cp_status c \<noteq> JOB_RUNNING then False
      else case cp_pid c of
             None \<Rightarrow> False
           | Some p \<Rightarrow> (case kill p of
                 Alive \<Rightarrow> False | NoProcess \<Rightarrow> True | NoPermission \<Rightarrow> False
               | OtherOSError \<Rightarrow> False))"

definition mark_zombie_detected :: "string option \<Rightarrow> rat \<Rightarrow> checkpoint \<Rightarrow> checkpoint" where
  "mark_zombie_detected reason t c =
     (let zombie_msg = MsgZombie (cp_pid c) (if str_truthy reason then reason else None);
          c1 = c\<lparr>cp_status := JOB_PAUSED, cp_pid := None, cp_updated_at := t\<rparr>
      in if \<not> msg_truthy (cp_error_message c1)
         then c1\<lparr>cp_error_message := Some zombie_msg\<rparr> else c1)"

subsection \<open>Refreshing the document before it is saved\<close>

text \<open>
  The baton mutates the sheet documents in place; \<open>JobManager._on_baton_persist\<close> brings the
  job-level fields up to date before it writes the document.
\<close>

definition refresh_for_persist :: "rat \<Rightarrow> checkpoint \<Rightarrow> checkpoint" where
  "refresh_for_persist t c =
     (let c1 = c\<lparr>cp_updated_at := t, cp_last_completed_sheet := int (completed_count c)\<rparr>
      in if list_ex (\<lambda>d. doc_status d \<noteq> PENDING \<and> doc_status d \<noteq> READY) (dvals (cp_sheets c1))
            \<and> cp_started_at c1 = None
         then c1\<lparr>cp_started_at := Some t\<rparr> else c1)"

end
