(* ===== verification/Checkpoint_Valid.thy ===== *)
theory Checkpoint_Valid
  imports Checkpoint
begin

section \<open>Documents that loading leaves alone\<close>

text \<open>
  What the validators of \<open>core/checkpoint.py\<close> establish, which marks keep it, and what
  follows for resuming: a document marked in any order reloads with the same sheets, and a
  job run sheet by sheet resumes exactly where it stopped.
\<close>

subsection \<open>Validity\<close>

text \<open>The invariants the two validators document, per sheet and for the job.\<close>

definition sheet_valid :: "sheet_doc \<Rightarrow> bool" where
  "sheet_valid d \<longleftrightarrow>
     (doc_status d = COMPLETED \<longrightarrow> completed_at (sd_sheet d) \<noteq> None) \<and>
     (doc_status d = IN_PROGRESS \<longrightarrow> started_at (sd_sheet d) \<noteq> None) \<and>
     (doc_status d = FAILED \<longrightarrow> error_message (sd_sheet d) \<noteq> None)"

definition job_valid :: "checkpoint \<Rightarrow> bool" where
  "job_valid c \<longleftrightarrow> (cp_status c = JOB_RUNNING \<longrightarrow>
     cp_started_at c \<noteq> None \<and> cp_completed_at c = None)"

text \<open>A dictionary of sheets keyed by their own, positive numbers.\<close>

definition keyed :: "checkpoint \<Rightarrow> bool" where
  "keyed c \<longleftrightarrow> distinct (dkeys (cp_sheets c)) \<and>
     (\<forall>(n, d) \<in> set (cp_sheets c). n \<ge> 1 \<and> sheet_num (sd_sheet d) = n)"

definition sheets_valid :: "checkpoint \<Rightarrow> bool" where
  "sheets_valid c \<longleftrightarrow> keyed c \<and> (\<forall>d \<in> set (dvals (cp_sheets c)). sheet_valid d)"

lemma enforce_sheet_valid: "sheet_valid (enforce_sheet t d)"
  by (cases "doc_status d") (simp_all add: sheet_valid_def enforce_sheet_def Let_def)

lemma enforce_sheet_id: "sheet_valid d \<Longrightarrow> enforce_sheet t d = d"
  by (cases "doc_status d") (simp_all add: sheet_valid_def enforce_sheet_def Let_def)

lemma enforce_sheet_frame [simp]:
  "doc_status (enforce_sheet t d) = doc_status d"
  "sheet_num (sd_sheet (enforce_sheet t d)) = sheet_num (sd_sheet d)"
  by (cases "doc_status d"; simp add: enforce_sheet_def Let_def)+

lemma enforce_job_valid: "job_valid (enforce_job t c)"
  by (simp add: job_valid_def enforce_job_def Let_def)

lemma enforce_job_id: "job_valid c \<Longrightarrow> enforce_job t c = c"
  by (cases c) (auto simp: job_valid_def enforce_job_def Let_def)

lemma enforce_job_shape:
  "\<exists>s e. enforce_job t c = c\<lparr>cp_started_at := s, cp_completed_at := e\<rparr>"
proof (cases "cp_status c = JOB_RUNNING")
  case True
  have "enforce_job t c = c\<lparr>cp_started_at :=
      (if cp_started_at c = None then Some t else cp_started_at c), cp_completed_at := None\<rparr>"
    using True by (cases c) (simp add: enforce_job_def Let_def)
  then show ?thesis by blast
next
  case False
  have "enforce_job t c = c\<lparr>cp_started_at := cp_started_at c, cp_completed_at := cp_completed_at c\<rparr>"
    using False by (simp add: enforce_job_def)
  then show ?thesis by blast
qed

lemma enforce_job_sheets [simp]: "cp_sheets (enforce_job t c) = cp_sheets c"
  by (simp add: enforce_job_def Let_def)

lemma dmap_ident: "(\<And>k v. (k, v) \<in> set d \<Longrightarrow> f k v = v) \<Longrightarrow> dmap f d = d"
  by (induction d) (auto simp: dmap_def)

lemma validated_sheets:
  "cp_sheets (validated t c) = dmap (\<lambda>_. enforce_sheet t) (cp_sheets c)"
  by (simp add: validated_def)

lemma validated_sheets_id: "sheets_valid c \<Longrightarrow> cp_sheets (validated t c) = cp_sheets c"
  unfolding validated_sheets
  by (rule dmap_ident) (auto simp: sheets_valid_def intro!: enforce_sheet_id)

lemma set_dmap: "set (dmap f d) = (\<lambda>(k, v). (k, f k v)) ` set d"
  by (auto simp: dmap_def)

lemma keyed_dmap:
  assumes "keyed c" and "\<And>d. sheet_num (sd_sheet (f d)) = sheet_num (sd_sheet d)"
  shows "keyed (c\<lparr>cp_sheets := dmap (\<lambda>_. f) (cp_sheets c)\<rparr>)"
  using assms by (auto simp: keyed_def set_dmap)

lemma keyed_cong: "cp_sheets c' = cp_sheets c \<Longrightarrow> keyed c' = keyed c"
  by (simp add: keyed_def)

lemma sheets_valid_cong: "cp_sheets c' = cp_sheets c \<Longrightarrow> sheets_valid c' = sheets_valid c"
  by (simp add: sheets_valid_def keyed_def)

lemma validated_valid:
  assumes "keyed c"
  shows "sheets_valid (validated t c)"
proof -
  let ?c = "c\<lparr>cp_sheets := dmap (\<lambda>_. enforce_sheet t) (cp_sheets c)\<rparr>"
  have "keyed ?c" using assms by (rule keyed_dmap) simp
  moreover have "\<forall>d \<in> set (dvals (cp_sheets ?c)). sheet_valid d"
    by (auto simp: set_dmap enforce_sheet_valid)
  ultimately have "sheets_valid ?c" by (simp add: sheets_valid_def)
  then show ?thesis by (simp add: validated_def sheets_valid_cong [of "enforce_job t ?c" ?c])
qed

lemma dumped_sheet_valid: "sheet_valid (dumped_sheet d) = sheet_valid d"
  by (simp add: sheet_valid_def dumped_sheet_def)

lemma dumped_sheets_valid: "sheets_valid c \<Longrightarrow> sheets_valid (dumped c)"
proof -
  assume v: "sheets_valid c"
  then have "keyed (dumped c)"
    unfolding dumped_def by (intro keyed_dmap) (simp_all add: sheets_valid_def dumped_sheet_def)
  with v show ?thesis
    by (auto simp: sheets_valid_def dumped_def set_dmap dumped_sheet_valid)
qed

subsection \<open>Marks\<close>

datatype mark =
    Started int
  | Completed int bool "jdict list option" "rat option"
  | Failed int failure_info
  | Skipped int "msg option"
  | JobFailed msg
  | JobPaused
  | RunningPid "int option" int
  | ZombieDetected "string option"
  | HookResult jdict
  | BreakerChange string string int
  | Synthesis string jdict
  | ErrorSeen int error_record
  | Persisted

fun apply_mark :: "mark \<Rightarrow> rat \<Rightarrow> (checkpoint, unit) act" where
  "apply_mark (Started n) t = mark_sheet_started n t"
| "apply_mark (Completed n ok details dur) t = mark_sheet_completed n ok details dur t"
| "apply_mark (Failed n i) t = mark_sheet_failed n i t"
| "apply_mark (Skipped n r) t = mark_sheet_skipped n r t"
| "apply_mark (JobFailed m) t = modify (mark_job_failed m t)"
| "apply_mark JobPaused t = modify (mark_job_paused t)"
| "apply_mark (RunningPid p own) t = modify (set_running_pid p own t)"
| "apply_mark (ZombieDetected r) t = modify (mark_zombie_detected r t)"
| "apply_mark (HookResult r) t = modify (record_hook_result r t)"
| "apply_mark (BreakerChange st trig k) t = modify (record_circuit_breaker_change st trig k t)"
| "apply_mark (Synthesis b r) t = modify (add_synthesis b r t)"
| "apply_mark (ErrorSeen n e) t = modify (adj_doc n (add_error_to_history e))"
| "apply_mark Persisted t = modify (refresh_for_persist t)"

text \<open>A history of marks with their times; a mark that raises leaves what it changed.\<close>

fun run_marks :: "(mark \<times> rat) list \<Rightarrow> checkpoint \<Rightarrow> checkpoint" where
  "run_marks [] c = c"
| "run_marks ((m, t) # ms) c = run_marks ms (snd (apply_mark m t c))"

lemma set_dset_sub: "set (dset d k v) \<subseteq> insert (k, v) (set d)"
  by (induction d) auto

lemma sheets_valid_dset:
  assumes "sheets_valid c" and "n \<ge> 1" and "sheet_num (sd_sheet d) = n" and "sheet_valid d"
  shows "sheets_valid (c\<lparr>cp_sheets := dset (cp_sheets c) n d\<rparr>)"
  using assms set_dset_sub [of n d "cp_sheets c"]
  by (fastforce simp: sheets_valid_def keyed_def intro!: distinct_dset)

lemma sheets_valid_lookup:
  assumes "sheets_valid c" and "job_sheet c n = Some d"
  shows "n \<ge> 1" "sheet_num (sd_sheet d) = n" "sheet_valid d"
  using assms map_of_SomeD [OF assms(2)] by (auto simp: sheets_valid_def keyed_def)

lemma sheets_valid_adj:
  assumes "sheets_valid c"
    and "\<And>d. sheet_num (sd_sheet (f d)) = sheet_num (sd_sheet d)"
    and "\<And>d. sheet_valid d \<Longrightarrow> sheet_valid (f d)"
  shows "sheets_valid (adj_doc n f c)"
proof (cases "job_sheet c n")
  case None
  then show ?thesis using assms(1) by (simp add: adj_doc_def)
next
  case (Some d)
  with assms sheets_valid_lookup [OF assms(1) Some] show ?thesis
    by (simp add: adj_doc_def dadj_def sheets_valid_dset)
qed

lemma new_doc_valid: "sheet_valid (new_doc n)" "sheet_num (sd_sheet (new_doc n)) = n"
  by (simp_all add: sheet_valid_def new_doc_def new_sheet_def)

lemma ensure_doc_valid: "sheets_valid c \<Longrightarrow> sheets_valid (snd (ensure_doc n c))"
  by (simp add: ensure_doc_def sheets_valid_dset new_doc_valid)

lemma set_duration_frame [simp]:
  "status (set_duration x s) = status s" "sheet_num (set_duration x s) = sheet_num s"
  "completed_at (set_duration x s) = completed_at s" "error_message (set_duration x s) = error_message s"
  "started_at (set_duration x s) = started_at s" "attempt_count (set_duration x s) = attempt_count s"
  by (cases x; simp add: set_duration_def)+

lemma validation_evidence_frame [simp]:
  "status (validation_evidence ok x s) = status s"
  "sheet_num (validation_evidence ok x s) = sheet_num s"
  "completed_at (validation_evidence ok x s) = completed_at s"
  by (cases x; simp add: validation_evidence_def Let_def)+

lemma doc_updates_valid:
  "sheet_valid (start_doc t d)" "sheet_valid (complete_doc ok x dur t d)"
  "sheet_valid (fail_doc i t d)" "sheet_valid (skip_doc r t d)"
  "sheet_valid (add_error_to_history e d) = sheet_valid d"
  by (simp_all add: sheet_valid_def start_doc_def complete_doc_def fail_doc_def skip_doc_def
      add_error_to_history_def Let_def)

lemma doc_updates_num [simp]:
  "sheet_num (sd_sheet (start_doc t d)) = sheet_num (sd_sheet d)"
  "sheet_num (sd_sheet (complete_doc ok x dur t d)) = sheet_num (sd_sheet d)"
  "sheet_num (sd_sheet (fail_doc i t d)) = sheet_num (sd_sheet d)"
  "sheet_num (sd_sheet (skip_doc r t d)) = sheet_num (sd_sheet d)"
  "sheet_num (sd_sheet (add_error_to_history e d)) = sheet_num (sd_sheet d)"
  by (simp_all add: start_doc_def complete_doc_def fail_doc_def skip_doc_def
      add_error_to_history_def Let_def)

lemma ev_ensure_doc: "evolves (keeps sheets_valid) (ensure_doc n)"
  by (simp add: evolves_def keeps_def ensure_doc_valid)

lemma ev_doc_updates:
  "evolves (keeps sheets_valid) (modify (adj_doc n (start_doc t)))"
  "evolves (keeps sheets_valid) (modify (adj_doc n (complete_doc ok x dur t)))"
  "evolves (keeps sheets_valid) (modify (adj_doc n (fail_doc i t)))"
  "evolves (keeps sheets_valid) (modify (adj_doc n (skip_doc r t)))"
  "evolves (keeps sheets_valid) (modify (adj_doc n (add_error_to_history e)))"
  by (rule keeping.evo_modify; unfold keeps_def; rule impI; erule sheets_valid_adj;
      simp add: doc_updates_valid)+

lemma ev_job_fields:
  assumes "\<And>c. cp_sheets (f c) = cp_sheets c"
  shows "evolves (keeps sheets_valid) (modify f)"
  by (rule keeping.evo_modify) (simp add: keeps_def sheets_valid_cong [OF assms])

lemma job_ops_sheets [simp]:
  "cp_sheets (finish_job t c) = cp_sheets c"
  "cp_sheets (mark_job_failed m t c) = cp_sheets c"
  "cp_sheets (mark_job_paused t c) = cp_sheets c"
  "cp_sheets (set_running_pid p own t c) = cp_sheets c"
  "cp_sheets (mark_zombie_detected r t c) = cp_sheets c"
  "cp_sheets (record_hook_result h t c) = cp_sheets c"
  "cp_sheets (record_circuit_breaker_change st trig k t c) = cp_sheets c"
  "cp_sheets (add_synthesis b h t c) = cp_sheets c"
  "cp_sheets (refresh_for_persist t c) = cp_sheets c"
  by (simp_all add: finish_job_def mark_job_failed_def mark_job_paused_def set_running_pid_def
      mark_zombie_detected_def record_hook_result_def record_circuit_breaker_change_def
      add_synthesis_def refresh_for_persist_def Let_def)

lemma apply_mark_valid: "evolves (keeps sheets_valid) (apply_mark m t)"
  by (cases m) (simp_all add: mark_sheet_started_def mark_sheet_completed_def
      mark_sheet_failed_def mark_sheet_skipped_def keeping.evo_thn ev_ensure_doc ev_doc_updates
      ev_job_fields)

lemma run_marks_valid: "sheets_valid c \<Longrightarrow> sheets_valid (run_marks ms c)"
proof (induction ms arbitrary: c)
  case (Cons x ms)
  obtain m t where x: "x = (m, t)" by (cases x)
  have "sheets_valid (snd (apply_mark m t c))"
    using evolvesD [OF apply_mark_valid] Cons.prems by (simp add: keeps_def)
  with Cons.IH x show ?case by simp
qed simp

subsection \<open>Saving and loading\<close>

lemma dumped_dumped [simp]: "dumped (dumped c) = dumped c"
  by (simp add: dumped_def dmap_def dumped_sheet_def o_def case_prod_beta)

lemma dumped_job_fields:
  "dumped (c\<lparr>cp_started_at := s, cp_completed_at := e\<rparr>) =
   (dumped c)\<lparr>cp_started_at := s, cp_completed_at := e\<rparr>"
  by (simp add: dumped_def)

text \<open>Loading a saved document with valid sheets can only touch the job's two times.\<close>

lemma reload_shape:
  assumes "sheets_valid c"
  shows "\<exists>s e. validated t (dumped c) = (dumped c)\<lparr>cp_started_at := s, cp_completed_at := e\<rparr>"
proof -
  have "cp_sheets (validated t (dumped c)) = cp_sheets (dumped c)"
    using assms by (intro validated_sheets_id dumped_sheets_valid)
  then have "(dumped c)\<lparr>cp_sheets := dmap (\<lambda>_. enforce_sheet t) (cp_sheets (dumped c))\<rparr> = dumped c"
    by (simp add: validated_sheets)
  then show ?thesis
    unfolding validated_def using enforce_job_shape [of t "dumped c"] by simp
qed

lemma reload_id:
  assumes "sheets_valid c" and "job_valid c"
  shows "validated t (dumped c) = dumped c"
proof -
  have "cp_sheets (validated t (dumped c)) = cp_sheets (dumped c)"
    using assms(1) by (intro validated_sheets_id dumped_sheets_valid)
  then have "(dumped c)\<lparr>cp_sheets := dmap (\<lambda>_. enforce_sheet t) (cp_sheets (dumped c))\<rparr> = dumped c"
    by (simp add: validated_sheets)
  moreover have "job_valid (dumped c)" using assms(2) by (simp add: job_valid_def dumped_def)
  ultimately show ?thesis by (simp add: validated_def enforce_job_id)
qed

lemma reload_settles:
  assumes "sheets_valid c"
  shows "validated t' (dumped (validated t (dumped c))) = validated t (dumped c)"
proof -
  let ?v = "validated t (dumped c)"
  obtain a b where v: "?v = (dumped c)\<lparr>cp_started_at := a, cp_completed_at := b\<rparr>"
    using reload_shape [OF assms] by blast
  have "sheets_valid ?v"
    using assms by (intro validated_valid) (simp add: dumped_sheets_valid sheets_valid_def [symmetric]
        sheets_valid_def [THEN iffD1, THEN conjunct1, OF dumped_sheets_valid])
  moreover have "job_valid ?v" by (simp add: validated_def enforce_job_valid)
  ultimately have "validated t' (dumped ?v) = dumped ?v" by (rule reload_id)
  also have "dumped ?v = ?v" unfolding v by (simp add: dumped_job_fields)
  finally show ?thesis .
qed

text \<open>
  C23. A job document is well formed in the sense of its validators, and stays so: start
  from any document with properly keyed sheets, load it, and apply any history of marks
  (starts, completions, failures, skips, job-level marks, refreshes, also ones that raise).
  Every sheet then satisfies the documented invariants, so saving and loading gives back the
  very sheets that were saved, without an invented time or message; loading can change
  only the job's own start and completion time, its result satisfies the job's invariant,
  and a second save and load changes nothing.
\<close>

theorem marked_documents_reload_unchanged:
  assumes "keyed c" and "c' = run_marks ms (validated u c)"
  shows "sheets_valid c' \<and>
    (cp_sheets (validated t (dumped c')) = cp_sheets (dumped c')) \<and>
    (\<exists>s e. validated t (dumped c') = (dumped c')\<lparr>cp_started_at := s, cp_completed_at := e\<rparr>) \<and>
    job_valid (validated t (dumped c')) \<and>
    (validated t' (dumped (validated t (dumped c'))) = validated t (dumped c'))"
proof (intro conjI)
  show v: "sheets_valid c'" using assms validated_valid run_marks_valid by simp
  show "cp_sheets (validated t (dumped c')) = cp_sheets (dumped c')"
    using v by (intro validated_sheets_id dumped_sheets_valid)
  show "\<exists>s e. validated t (dumped c') = (dumped c')\<lparr>cp_started_at := s, cp_completed_at := e\<rparr>"
    using v by (rule reload_shape)
  show "job_valid (validated t (dumped c'))" by (simp add: validated_def enforce_job_valid)
  show "validated t' (dumped (validated t (dumped c'))) = validated t (dumped c')"
    using v by (rule reload_settles)
qed

definition worn_checkpoint :: checkpoint where
  "worn_checkpoint = (new_checkpoint ''job'' 2 0)
     \<lparr>cp_status := JOB_RUNNING,
      cp_sheets := [(1, on_sheet (\<lambda>s. s\<lparr>status := FAILED\<rparr>) (new_doc 1)),
                    (2, on_sheet (\<lambda>s. s\<lparr>status := IN_PROGRESS\<rparr>) (new_doc 2))]\<rparr>"

theorem marked_documents_reload_unchanged_witness:
  "cp_sheets (validated 9 (dumped (run_marks
     [(Started 1, 2), (Completed 1 True None None, 3), (Started 0, 4)] (validated 1 worn_checkpoint)))) =
   cp_sheets (dumped (run_marks
     [(Started 1, 2), (Completed 1 True None None, 3), (Started 0, 4)] (validated 1 worn_checkpoint)))"
proof (rule marked_documents_reload_unchanged [where c = worn_checkpoint, THEN conjunct2, THEN conjunct1, OF _ refl])
  show "keyed worn_checkpoint" by (simp add: keyed_def worn_checkpoint_def new_doc_def new_sheet_def)
qed

text \<open>A start alone can leave a running job without a start time, which loading invents.\<close>

lemma started_job_without_start:
  "\<not> job_valid (snd (mark_sheet_started 1 5 (new_checkpoint ''job'' 1 0)))"
  by (simp add: mark_sheet_started_def ensure_doc_def adj_doc_def job_valid_def new_checkpoint_def
      act_simps)

subsection \<open>Running a job sheet by sheet\<close>

text \<open>
  What a runner does with the document: ask for the next sheet, mark it started, then mark
  it completed or failed; a crash leaves the started sheet in the saved document, which is
  loaded again.
\<close>

datatype sheet_outcome = Succeeds | Fails failure_info | Crashes

definition serial_step :: "sheet_outcome \<times> rat \<Rightarrow> checkpoint \<Rightarrow> checkpoint" where
  "serial_step ot c =
     (case get_next_sheet c of
        None \<Rightarrow> c
      | Some n \<Rightarrow>
          (let t = snd ot; c1 = snd (mark_sheet_started n t c)
           in case fst ot of
                Succeeds \<Rightarrow> snd (mark_sheet_completed n True None None t c1)
              | Fails i \<Rightarrow> snd (mark_sheet_failed n i t c1)
              | Crashes \<Rightarrow> validated t (dumped c1)))"

definition serial_run :: "(sheet_outcome \<times> rat) list \<Rightarrow> checkpoint \<Rightarrow> checkpoint" where
  "serial_run os c = fold serial_step os c"

text \<open>The documents such a run can reach: \<open>k\<close> sheets done, at most the next one begun.\<close>

definition begun :: "checkpoint \<Rightarrow> int \<Rightarrow> bool" where
  "begun c n \<longleftrightarrow> (case job_sheet c n of
      None \<Rightarrow> cp_current_sheet c = None
    | Some d \<Rightarrow> (doc_status d = FAILED \<and> cp_current_sheet c = None) \<or>
        (doc_status d = IN_PROGRESS \<and> cp_current_sheet c = Some n))"

definition serial_doc :: "int \<Rightarrow> int \<Rightarrow> checkpoint \<Rightarrow> bool" where
  "serial_doc N k c \<longleftrightarrow>
     0 \<le> k \<and> k \<le> N \<and> cp_total_sheets c = N \<and> cp_last_completed_sheet c = k \<and>
     distinct (dkeys (cp_sheets c)) \<and>
     {1..k} \<subseteq> set (dkeys (cp_sheets c)) \<and> set (dkeys (cp_sheets c)) \<subseteq> {1..k + 1} \<and>
     (\<forall>n \<in> {1..k}. map_option doc_status (job_sheet c n) = Some COMPLETED) \<and>
     (k < N \<longrightarrow> begun c (k + 1) \<and> (cp_status c = JOB_PENDING \<or> cp_status c = JOB_RUNNING)) \<and>
     (k = N \<longrightarrow> cp_status c = JOB_COMPLETED \<and> job_sheet c (k + 1) = None)"

lemma serial_docD:
  assumes "serial_doc N k c"
  shows "0 \<le> k" "k \<le> N" "cp_total_sheets c = N" "cp_last_completed_sheet c = k"
    and "distinct (dkeys (cp_sheets c))" "{1..k} \<subseteq> set (dkeys (cp_sheets c))"
    and "set (dkeys (cp_sheets c)) \<subseteq> {1..k + 1}"
    and "\<And>n. n \<in> {1..k} \<Longrightarrow> map_option doc_status (job_sheet c n) = Some COMPLETED"
    and "k < N \<Longrightarrow> begun c (k + 1)"
    and "k < N \<Longrightarrow> cp_status c = JOB_PENDING \<or> cp_status c = JOB_RUNNING"
    and "k = N \<Longrightarrow> cp_status c = JOB_COMPLETED \<and> job_sheet c (k + 1) = None"
  using assms by (simp_all only: serial_doc_def)

text \<open>Replacing the next sheet's document, and any job field the shape does not name.\<close>

lemma serial_docI:
  assumes "serial_doc N k c" and "k < N"
    and "cp_total_sheets c' = N" "cp_last_completed_sheet c' = k"
    and "cp_status c' = JOB_PENDING \<or> cp_status c' = JOB_RUNNING"
    and "distinct (dkeys (cp_sheets c'))" "set (dkeys (cp_sheets c')) = insert (k + 1) (set (dkeys (cp_sheets c)))"
    and "\<And>n. n \<noteq> k + 1 \<Longrightarrow> map_option doc_status (job_sheet c' n) = map_option doc_status (job_sheet c n)"
    and "begun c' (k + 1)"
  shows "serial_doc N k c'"
proof -
  note D = serial_docD [OF assms(1)]
  have "k + 1 \<in> {1..k + 1}" using D(1) by simp
  then have "set (dkeys (cp_sheets c')) \<subseteq> {1..k + 1}" using D(7) unfolding assms(7) by blast
  moreover have "{1..k} \<subseteq> set (dkeys (cp_sheets c'))" using D(6) unfolding assms(7) by blast
  moreover have "map_option doc_status (job_sheet c' n) = Some COMPLETED" if "n \<in> {1..k}" for n
    using D(8) [OF that] assms(8) [of n] that by simp
  ultimately show ?thesis
    using D(1,2) assms(2-6,9) unfolding serial_doc_def by blast
qed

lemma serial_next:
  assumes "serial_doc N k c"
  shows "get_next_sheet c = (if k < N then Some (k + 1) else None)"
proof (cases "k < N")
  case True
  have st: "cp_status c \<noteq> JOB_COMPLETED" "cp_status c \<noteq> JOB_CANCELLED" and b: "begun c (k + 1)"
    using assms True by (auto simp: serial_doc_def)
  have up: "[k + 1 .. N] = (k + 1) # [k + 1 + 1 .. N]"
    using True by (intro upto_rec1) simp
  show ?thesis
  proof (cases "job_sheet c (k + 1)")
    case None
    then show ?thesis using b st up assms True
      by (simp add: get_next_sheet_def in_progress_sheet_def begun_def serial_doc_def open_sheet_def)
  next
    case (Some d)
    then have "(doc_status d = FAILED \<and> cp_current_sheet c = None) \<or>
      (doc_status d = IN_PROGRESS \<and> cp_current_sheet c = Some (k + 1))"
      using b by (simp add: begun_def)
    then show ?thesis using Some st up assms True
      by (elim disjE) (simp_all add: get_next_sheet_def in_progress_sheet_def serial_doc_def
          open_sheet_def)
  qed
next
  case False
  then show ?thesis using assms by (simp add: serial_doc_def get_next_sheet_def)
qed

text \<open>Marking the next sheet started, and the three ways it can end.\<close>

lemma dget_adj_doc: "job_sheet (adj_doc n f c) m =
    (if m = n then map_option f (job_sheet c n) else job_sheet c m)"
  by (simp add: adj_doc_def)

definition ensured :: "int \<Rightarrow> checkpoint \<Rightarrow> checkpoint" where
  "ensured n c = (if job_sheet c n \<noteq> None then c
     else c\<lparr>cp_sheets := dset (cp_sheets c) n (new_doc n)\<rparr>)"

lemma ensure_doc_ok: "job_sheet c n \<noteq> None \<or> n \<ge> 1 \<Longrightarrow> ensure_doc n c = (Inr (), ensured n c)"
  by (auto simp: ensure_doc_def ensured_def)

lemma marks_run:
  assumes "job_sheet c n \<noteq> None \<or> n \<ge> 1"
  shows "mark_sheet_started n t c = (Inr (), adj_doc n (start_doc t) (ensured n
           (c\<lparr>cp_current_sheet := Some n, cp_status := JOB_RUNNING, cp_updated_at := t\<rparr>)))"
    and "mark_sheet_completed n ok x dur t c = (Inr (), (\<lambda>c. finish_job t
           (c\<lparr>cp_last_completed_sheet := max n (cp_last_completed_sheet c), cp_current_sheet := None\<rparr>))
           (adj_doc n (complete_doc ok x dur t) (ensured n (c\<lparr>cp_updated_at := t\<rparr>))))"
    and "mark_sheet_failed n i t c = (Inr (), (\<lambda>c. c\<lparr>cp_current_sheet := None,
             cp_total_retry_count := cp_total_retry_count c + 1\<rparr>)
           (adj_doc n (fail_doc i t) (ensured n (c\<lparr>cp_updated_at := t\<rparr>))))"
    and "mark_sheet_skipped n r t c = (Inr (), (\<lambda>c. c\<lparr>cp_current_sheet := None\<rparr>)
           (adj_doc n (skip_doc r t) (ensured n (c\<lparr>cp_updated_at := t\<rparr>))))"
  using assms
  by (simp_all add: mark_sheet_started_def mark_sheet_completed_def mark_sheet_failed_def
      mark_sheet_skipped_def act_simps ensure_doc_ok)

lemma ensured_frame [simp]:
  "cp_total_sheets (ensured n c) = cp_total_sheets c"
  "cp_last_completed_sheet (ensured n c) = cp_last_completed_sheet c"
  "cp_status (ensured n c) = cp_status c"
  "cp_current_sheet (ensured n c) = cp_current_sheet c"
  by (simp_all add: ensured_def)

lemma fst_dset: "fst ` set (dset d k v) = insert k (fst ` set d)"
  by (induction d) auto

lemma ensured_sheets:
  "job_sheet (ensured n c) m =
     (if m = n \<and> job_sheet c n = None then Some (new_doc n) else job_sheet c m)"
  "set (dkeys (cp_sheets (ensured n c))) = insert n (set (dkeys (cp_sheets c)))"
  "distinct (dkeys (cp_sheets c)) \<Longrightarrow> distinct (dkeys (cp_sheets (ensured n c)))"
  using dget_None_iff [of "cp_sheets c" n]
  by (auto simp: ensured_def fst_dset distinct_dset)

lemma adj_doc_frame [simp]:
  "cp_total_sheets (adj_doc n f c) = cp_total_sheets c"
  "cp_last_completed_sheet (adj_doc n f c) = cp_last_completed_sheet c"
  "cp_status (adj_doc n f c) = cp_status c"
  "cp_current_sheet (adj_doc n f c) = cp_current_sheet c"
  "dkeys (cp_sheets (adj_doc n f c)) = dkeys (cp_sheets c)"
  by (simp_all add: adj_doc_def)

lemma serial_started:
  assumes "serial_doc N k c" and "k < N"
  shows "serial_doc N k (snd (mark_sheet_started (k + 1) t c))"
    and "map_option doc_status (job_sheet (snd (mark_sheet_started (k + 1) t c)) (k + 1)) = Some IN_PROGRESS"
proof -
  have n: "k + 1 \<ge> 1" using assms(1) by (simp add: serial_doc_def)
  let ?c = "snd (mark_sheet_started (k + 1) t c)"
  have run: "?c = adj_doc (k + 1) (start_doc t) (ensured (k + 1)
      (c\<lparr>cp_current_sheet := Some (k + 1), cp_status := JOB_RUNNING, cp_updated_at := t\<rparr>))"
    using n by (simp add: marks_run)
  have at: "job_sheet ?c m = (if m = k + 1
      then Some (start_doc t (case job_sheet c (k + 1) of None \<Rightarrow> new_doc (k + 1) | Some d \<Rightarrow> d))
      else job_sheet c m)" for m
    by (auto simp: run dget_adj_doc ensured_sheets split: option.split)
  show "map_option doc_status (job_sheet ?c (k + 1)) = Some IN_PROGRESS"
    by (simp add: at start_doc_def)
  have keys: "set (dkeys (cp_sheets ?c)) = insert (k + 1) (set (dkeys (cp_sheets c)))"
    unfolding run by (simp only: adj_doc_frame ensured_sheets) simp
  have dist: "distinct (dkeys (cp_sheets ?c))"
    unfolding run adj_doc_frame using assms(1)
    by (intro ensured_sheets(3)) (simp add: serial_doc_def)
  have fields: "cp_total_sheets ?c = cp_total_sheets c"
    "cp_last_completed_sheet ?c = cp_last_completed_sheet c"
    "cp_status ?c = JOB_RUNNING" "cp_current_sheet ?c = Some (k + 1)"
    by (simp_all add: run)
  have "begun ?c (k + 1)" by (simp add: begun_def at fields start_doc_def)
  then show "serial_doc N k ?c"
    using serial_docD(3,4) [OF assms(1)] fields(1-3) keys dist at
    by (intro serial_docI [OF assms]) simp_all
qed

lemma all_completed_iff:
  assumes "distinct (dkeys (cp_sheets c))" and "set (dkeys (cp_sheets c)) = {1..m}" and "0 \<le> m"
    and "m \<le> cp_total_sheets c"
    and "\<And>n. n \<in> {1..m} \<Longrightarrow> map_option doc_status (job_sheet c n) = Some COMPLETED"
  shows "all_sheets_completed c \<longleftrightarrow> m = cp_total_sheets c"
proof -
  have "card {1..m} = length (cp_sheets c)"
    using distinct_card [OF assms(1)] unfolding assms(2) by simp
  then have len: "int (length (cp_sheets c)) = m" using assms(3) by simp
  have "doc_status v = COMPLETED" if v: "v \<in> set (dvals (cp_sheets c))" for v
  proof -
    obtain n where n: "job_sheet c n = Some v" by (rule dvals_dgetE [OF assms(1) v])
    have "n \<in> {1..m}" using dget_in_dkeys [OF n] unfolding assms(2) .
    then have "map_option doc_status (job_sheet c n) = Some COMPLETED" by (rule assms(5))
    then show ?thesis using n by simp
  qed
  then show ?thesis using len assms(4) by (auto simp: all_sheets_completed_def list_all_iff)
qed

lemma serial_completed:
  assumes "serial_doc N k c" and "k < N"
    and "map_option doc_status (job_sheet c (k + 1)) = Some IN_PROGRESS"
  shows "serial_doc N (k + 1) (snd (mark_sheet_completed (k + 1) ok x dur t c))"
proof -
  obtain d where d: "job_sheet c (k + 1) = Some d" using assms(3) by auto
  let ?a = "adj_doc (k + 1) (complete_doc ok x dur t) (c\<lparr>cp_updated_at := t\<rparr>)"
  define b where "b = ?a\<lparr>cp_last_completed_sheet := k + 1, cp_current_sheet := None\<rparr>"
  have "max (k + 1) (cp_last_completed_sheet c) = k + 1" using assms(1) by (simp add: serial_doc_def)
  then have run: "snd (mark_sheet_completed (k + 1) ok x dur t c) = finish_job t b"
    using d by (simp add: marks_run ensured_def b_def)
  note D = serial_docD [OF assms(1)]
  note k = D(1) and Nc = D(3) and st = D(10) [OF assms(2)] and dist = D(5) and comp = D(8)
  have keys: "set (dkeys (cp_sheets c)) = {1..k + 1}"
  proof
    show "set (dkeys (cp_sheets c)) \<subseteq> {1..k + 1}" by (rule D(7))
    have "{1..k + 1} = insert (k + 1) {1..k}" using k by auto
    then show "{1..k + 1} \<subseteq> set (dkeys (cp_sheets c))"
      using D(6) dget_in_dkeys [OF d] by simp
  qed
  have at: "job_sheet b m = (if m = k + 1 then Some (complete_doc ok x dur t d) else job_sheet c m)" for m
    using d by (simp add: dget_adj_doc b_def)
  have fields: "cp_total_sheets b = N" "cp_status b = cp_status c"
    "cp_last_completed_sheet b = k + 1" "cp_current_sheet b = None"
    using Nc by (simp_all add: b_def)
  have comp': "map_option doc_status (job_sheet b n) = Some COMPLETED" if "n \<in> {1..k + 1}" for n
    using comp [of n] that by (cases "n = k + 1") (simp_all add: at complete_doc_def)
  have keys': "dkeys (cp_sheets b) = dkeys (cp_sheets c)" by (simp add: b_def)
  have full: "all_sheets_completed b \<longleftrightarrow> k + 1 = N"
    unfolding fields(1) [symmetric]
    by (rule all_completed_iff) (use dist keys k comp' assms(2) fields keys' in simp_all)
  have absent: "job_sheet c (k + 1 + 1) = None"
    using keys dget_None_iff [of "cp_sheets c" "k + 1 + 1"] by simp
  have "finish_job t b = (if k + 1 = N
      then b\<lparr>cp_status := JOB_COMPLETED, cp_completed_at := Some t\<rparr> else b)"
    by (simp add: finish_job_def full)
  moreover have "begun b (k + 1 + 1)" using absent by (simp add: begun_def at fields)
  ultimately show ?thesis
    using k st dist keys keys' comp' assms(2) fields absent unfolding run serial_doc_def
    by (cases "k + 1 = N") (simp_all add: begun_def at)
qed

lemma serial_failed:
  assumes "serial_doc N k c" and "k < N"
    and "map_option doc_status (job_sheet c (k + 1)) = Some IN_PROGRESS"
  shows "serial_doc N k (snd (mark_sheet_failed (k + 1) i t c))"
proof -
  note D = serial_docD [OF assms(1)]
  obtain d where d: "job_sheet c (k + 1) = Some d" using assms(3) by auto
  define b where "b = (adj_doc (k + 1) (fail_doc i t) (c\<lparr>cp_updated_at := t\<rparr>))
    \<lparr>cp_current_sheet := None, cp_total_retry_count := cp_total_retry_count c + 1\<rparr>"
  have run: "snd (mark_sheet_failed (k + 1) i t c) = b"
    using d by (simp add: marks_run ensured_def b_def adj_doc_def)
  have at: "job_sheet b m = (if m = k + 1 then Some (fail_doc i t d) else job_sheet c m)" for m
    using d by (simp add: b_def dget_adj_doc)
  have keys: "dkeys (cp_sheets b) = dkeys (cp_sheets c)" by (simp add: b_def)
  have fields: "cp_total_sheets b = N" "cp_status b = cp_status c" "cp_last_completed_sheet b = k"
    "cp_current_sheet b = None"
    using D(3,4) by (simp_all add: b_def)
  have "begun b (k + 1)" by (simp add: begun_def at fields fail_doc_def)
  moreover have "set (dkeys (cp_sheets b)) = insert (k + 1) (set (dkeys (cp_sheets c)))"
    using dget_in_dkeys [OF d] unfolding keys by (simp add: insert_absorb)
  ultimately show ?thesis
    unfolding run using D(5,10) assms(2) fields keys at by (intro serial_docI [OF assms(1,2)]) simp_all
qed

lemma serial_reloaded:
  assumes "serial_doc N k c" and "k < N"
  shows "serial_doc N k (validated t (dumped c))"
proof -
  note D = serial_docD [OF assms(1)]
  define v where "v = validated t (dumped c)"
  have sheets: "cp_sheets v = dmap (\<lambda>_ d. enforce_sheet t (dumped_sheet d)) (cp_sheets c)"
    by (simp add: v_def validated_sheets dumped_def dmap_def case_prod_beta o_def)
  have fields: "cp_total_sheets v = cp_total_sheets c" "cp_status v = cp_status c"
    "cp_last_completed_sheet v = cp_last_completed_sheet c" "cp_current_sheet v = cp_current_sheet c"
    by (simp_all add: v_def validated_def dumped_def enforce_job_def Let_def)
  have at: "map_option doc_status (job_sheet v n) = map_option doc_status (job_sheet c n)" for n
    by (cases "job_sheet c n") (simp_all add: sheets dumped_sheet_def)
  have "begun v (k + 1)"
    using D(9) [OF assms(2)] at [of "k + 1"] fields(4)
    by (cases "job_sheet c (k + 1)"; cases "job_sheet v (k + 1)") (simp_all add: begun_def)
  then show ?thesis
    unfolding v_def [symmetric] using D assms(2) fields at sheets
    by (simp add: serial_doc_def)
qed

lemma serial_step_doc:
  assumes "serial_doc N k c"
  shows "serial_doc N (if k < N \<and> fst ot = Succeeds then k + 1 else k) (serial_step ot c)"
proof (cases "k < N")
  case False
  then show ?thesis using assms by (simp add: serial_step_def serial_next [OF assms])
next
  case True
  note S = serial_started [OF assms True, of "snd ot"]
  show ?thesis
    using True serial_completed [OF S(1) True S(2)] serial_failed [OF S(1) True S(2)]
      serial_reloaded [OF S(1) True] serial_next [OF assms]
    by (cases "fst ot") (simp_all add: serial_step_def Let_def)
qed

definition successes :: "(sheet_outcome \<times> rat) list \<Rightarrow> int" where
  "successes os = int (length (filter (\<lambda>(o', t). o' = Succeeds) os))"

lemma serial_run_doc:
  "serial_doc N k c \<Longrightarrow> serial_doc N (min N (k + successes os)) (serial_run os c)"
proof (induction os arbitrary: k c)
  case Nil
  have "min N (k + successes []) = k" using serial_docD(2) [OF Nil] by (simp add: successes_def)
  then show ?case using Nil by (simp add: serial_run_def)
next
  case (Cons x os)
  note le = serial_docD(2) [OF Cons.prems]
  have "serial_doc N (min N ((if k < N \<and> fst x = Succeeds then k + 1 else k) + successes os))
      (serial_run os (serial_step x c))"
    by (rule Cons.IH) (rule serial_step_doc [OF Cons.prems])
  moreover have "min N ((if k < N \<and> fst x = Succeeds then k + 1 else k) + successes os)
      = min N (k + successes (x # os))"
    using le by (auto simp: successes_def split: prod.splits)
  ultimately show ?case by (simp add: serial_run_def)
qed

lemma serial_fresh: "N \<ge> 1 \<Longrightarrow> serial_doc N 0 (new_checkpoint j N t)"
  by (simp add: serial_doc_def new_checkpoint_def begun_def)

lemma count_dvals:
  assumes "distinct (dkeys d)"
  shows "length (filter P (dvals d)) = card {n. \<exists>v. dget d n = Some v \<and> P v}"
proof -
  have "{n. \<exists>v. dget d n = Some v \<and> P v} = set (dkeys (filter (P \<circ> snd) d))"
    using assms by (force simp: map_of_eq_Some_iff)
  moreover have "distinct (dkeys (filter (P \<circ> snd) d))"
    using assms by (rule distinct_map_filter)
  moreover have "length (filter P (dvals d)) = length (dkeys (filter (P \<circ> snd) d))"
    by (simp add: filter_map)
  ultimately show ?thesis by (simp only: distinct_card)
qed

lemma serial_completed_count:
  assumes "serial_doc N k c"
  shows "int (completed_count c) = k"
proof -
  note D = serial_docD [OF assms]
  have next': "map_option doc_status (job_sheet c (k + 1)) \<noteq> Some COMPLETED"
    using D(2) D(9) D(11) by (cases "k < N") (auto simp: begun_def split: option.splits)
  have "{n. \<exists>d. job_sheet c n = Some d \<and> doc_status d = COMPLETED} = {1..k}"
  proof (intro set_eqI iffI)
    fix n assume "n \<in> {n. \<exists>d. job_sheet c n = Some d \<and> doc_status d = COMPLETED}"
    then obtain d where d: "job_sheet c n = Some d" "doc_status d = COMPLETED" by blast
    then have "n \<in> {1..k + 1}" using dget_in_dkeys [OF d(1)] D(7) by blast
    moreover have "n \<noteq> k + 1" using next' d by auto
    ultimately show "n \<in> {1..k}" by simp
  next
    fix n assume "n \<in> {1..k}"
    then show "n \<in> {n. \<exists>d. job_sheet c n = Some d \<and> doc_status d = COMPLETED}"
      using D(8) by auto
  qed
  then have "completed_count c = card {1..k}"
    unfolding completed_count_def count_dvals [OF D(5)] by simp
  then show ?thesis using D(1) by simp
qed

text \<open>
  C21. A job that is run sheet by sheet never loses its place. From a fresh document, let
  each round ask for the next sheet, start it, and complete it, fail it, or crash (the
  document is saved and loaded with the sheet still in progress). After any such history
  with \<open>k\<close> successes the next sheet is \<open>k + 1\<close> (a failed or interrupted sheet is offered
  again, a completed one never), the reported progress is \<open>k\<close> of \<open>N\<close>, and the job is marked
  completed, with nothing left to run, exactly when all its sheets have succeeded.
\<close>

theorem serial_job_keeps_its_place:
  assumes "N \<ge> 1" and "c = serial_run os (new_checkpoint j N t)"
  shows "(get_next_sheet c = (if successes os < N then Some (successes os + 1) else None)) \<and>
    (get_progress c = (nat (min N (successes os)), N)) \<and>
    (cp_status c = JOB_COMPLETED \<longleftrightarrow> successes os \<ge> N) \<and>
    (cp_last_completed_sheet c = min N (successes os))"
proof (intro conjI)
  have doc: "serial_doc N (min N (successes os)) c"
    using serial_run_doc [OF serial_fresh [OF assms(1), of j t], of os] assms(2) by simp
  note D = serial_docD [OF doc]
  show "get_next_sheet c = (if successes os < N then Some (successes os + 1) else None)"
    using serial_next [OF doc] by (simp add: min_def)
  show "get_progress c = (nat (min N (successes os)), N)"
    using serial_completed_count [OF doc] D(3) by (simp add: get_progress_def)
  show "cp_status c = JOB_COMPLETED \<longleftrightarrow> successes os \<ge> N"
    using D(10,11) by (cases "successes os < N") (auto simp: min_def)
  show "cp_last_completed_sheet c = min N (successes os)" by (rule D(4))
qed

theorem serial_job_keeps_its_place_witness:
  "get_next_sheet (serial_run [(Succeeds, 1), (Crashes, 2), (Fails (plain_failure (Text ''x'')), 3)]
     (new_checkpoint ''job'' 3 0)) = Some 2"
  using serial_job_keeps_its_place [THEN conjunct1, OF _ refl, of 3
      "[(Succeeds, 1), (Crashes, 2), (Fails (plain_failure (Text ''x'')), 3)]" "''job''" 0]
  by (simp add: successes_def)

subsection \<open>Deadlines\<close>

text \<open>What a deadline field may hold after loading: nothing, or a positive number.\<close>

fun positive_or_absent :: "json option \<Rightarrow> bool" where
  "positive_or_absent None = True"
| "positive_or_absent (Some JNull) = True"
| "positive_or_absent (Some (JNum q)) = (q > 0)"
| "positive_or_absent (Some _) = False"

text \<open>The number a raw field stands for, if it is one a deadline may have.\<close>

definition stands_for :: "json option \<Rightarrow> rat \<Rightarrow> bool" where
  "stands_for raw q \<longleftrightarrow> q > 0 \<and>
     (\<exists>v. raw = Some v \<and> (\<forall>b. v \<noteq> JBool b) \<and> float_of_json v = Inr (Fin q))"

lemma normalize_field_cases:
  assumes "normalize_field f (d, ds) = Inr (d', ds')"
  obtains "d' = d" "ds' = ds" "is_None (dget d f)"
  | why where "d' = dset d f JNull" "ds' = ds @ [f @ why]" "\<nexists>q. stands_for (dget d f) q"
  | q where "d' = dset d f (JNum q)" "ds' = ds" "stands_for (dget d f) q"
proof (cases "dget d f")
  case None
  with assms that(1) show ?thesis by (simp add: is_None_def)
next
  case (Some raw)
  show ?thesis
  proof (cases raw)
    case JNull
    with assms Some that(1) show ?thesis by (simp add: is_None_def)
  next
    case (JBool b)
    with assms Some show ?thesis by (intro that(2)) (auto simp: stands_for_def)
  next
    case other: (JInt i)
    with assms Some show ?thesis
      by (auto simp: stands_for_def split: if_splits intro: that(2,3))
  next
    case (JNum q)
    with assms Some show ?thesis
      by (auto simp: stands_for_def split: if_splits intro: that(2,3))
  next
    case (JStr x)
    with assms Some show ?thesis
      by (auto simp: stands_for_def split: if_splits option.splits pyfloat.splits intro: that(2,3))
  next
    case (JList x)
    with assms Some show ?thesis by (intro that(2)) (auto simp: stands_for_def)
  next
    case (JObj x)
    with assms Some show ?thesis by (intro that(2)) (auto simp: stands_for_def)
  qed
qed

lemma normalize_field_fixed:
  "positive_or_absent (dget d f) \<Longrightarrow> normalize_field f (d, ds) = Inr (d, ds)"
  by (cases "dget d f" rule: positive_or_absent.cases) (auto intro: update_triv)

lemma normalize_field_error:
  "normalize_field f (d, ds) = Inl e \<longleftrightarrow>
     e = OverflowError \<and> (\<exists>i. dget d f = Some (JInt i) \<and> float_overflows \<bar>of_int i\<bar>)"
proof (cases "dget d f")
  case (Some raw)
  then show ?thesis
    by (cases raw) (auto split: option.splits pyfloat.splits if_splits)
qed simp

lemma normalize_field_result:
  assumes "normalize_field f (d, ds) = Inr (d', ds')"
  shows "positive_or_absent (dget d' f)"
    and "dget d' f = Some (JNum q) \<longleftrightarrow> stands_for (dget d f) q"
    and "k \<noteq> f \<Longrightarrow> dget d' k = dget d k"
  using assms
  by (cases rule: normalize_field_cases; auto simp: stands_for_def is_None_def)+

lemma check_reason_fst:
  "fst (check_reason x) = (case dget (fst x) ''terminal_reason'' of
     None \<Rightarrow> fst x | Some JNull \<Rightarrow> fst x | Some (JStr _) \<Rightarrow> fst x
   | Some _ \<Rightarrow> dset (fst x) ''terminal_reason'' JNull)"
  by (cases x) (simp add: check_reason_def split: option.split json.split)

lemma check_limit_fst [simp]: "fst (check_limit x) = fst x"
  by (cases x) (simp add: check_limit_def)

lemma check_reason_other: "k \<noteq> ''terminal_reason'' \<Longrightarrow>
    dget (fst (check_reason x)) k = dget (fst x) k"
  by (simp add: check_reason_fst split: option.split json.split)

lemma check_reason_idem:
  "fst (check_reason (fst (check_reason x), ds)) = fst (check_reason x)"
  by (cases "dget (fst x) ''terminal_reason''" rule: positive_or_absent.cases)
    (simp_all add: check_reason_fst)

abbreviation (input) limit_field :: string where "limit_field \<equiv> ''max_wall_seconds''"

abbreviation (input) deadline_field :: string where "deadline_field \<equiv> ''wall_deadline_at''"

lemma normalize_deadlines_run:
  assumes "normalize_deadlines d = Inr (d', ds)"
  obtains d1 ds1 d2 ds2 where "normalize_field limit_field (d, []) = Inr (d1, ds1)"
    and "normalize_field deadline_field (d1, ds1) = Inr (d2, ds2)"
    and "d' = fst (check_reason (d2, ds2))"
proof -
  obtain d1 ds1 where 1: "normalize_field limit_field (d, []) = Inr (d1, ds1)"
    using assms by (cases "normalize_field limit_field (d, [])") (auto simp: normalize_deadlines_def)
  obtain d2 ds2 where 2: "normalize_field deadline_field (d1, ds1) = Inr (d2, ds2)"
    using assms 1
    by (cases "normalize_field deadline_field (d1, ds1)") (auto simp: normalize_deadlines_def)
  have "(d', ds) = check_reason (check_limit (d2, ds2))"
    using assms 1 2 by (simp add: normalize_deadlines_def)
  then have "d' = fst (check_reason (check_limit (d2, ds2)))" by (metis fst_conv)
  also have "\<dots> = fst (check_reason (d2, ds2))" by (simp only: check_reason_fst check_limit_fst)
  finally show thesis using 1 2 that by blast
qed

lemma normalize_deadlines_error:
  "normalize_deadlines d = Inl e \<longleftrightarrow> e = OverflowError \<and>
     (\<exists>f i. (f = limit_field \<or> f = deadline_field) \<and> dget d f = Some (JInt i) \<and>
        float_overflows \<bar>of_int i\<bar>)" (is "_ \<longleftrightarrow> _ \<and> (\<exists>f i. _ \<and> ?big f i)")
proof (cases "normalize_field limit_field (d, [])")
  case (Inl e')
  then have "normalize_deadlines d = Inl e'" by (simp add: normalize_deadlines_def)
  moreover have "e' = OverflowError" "\<exists>i. ?big limit_field i"
    using Inl unfolding normalize_field_error by blast+
  ultimately show ?thesis by auto
next
  case (Inr x)
  obtain d1 ds1 where x: "x = (d1, ds1)" by (cases x)
  have "dget d1 deadline_field = dget d deadline_field"
    using Inr unfolding x by (rule normalize_field_result(3)) simp
  then have "normalize_field deadline_field (d1, ds1) = Inl e \<longleftrightarrow>
      e = OverflowError \<and> (\<exists>i. ?big deadline_field i)"
    by (simp only: normalize_field_error)
  moreover have "normalize_deadlines d = Inl e \<longleftrightarrow> normalize_field deadline_field (d1, ds1) = Inl e"
    using Inr x by (simp add: normalize_deadlines_def split: sum.split)
  moreover have "\<not> ?big limit_field i" for i
    using normalize_field_error [of limit_field d "[]" OverflowError] Inr by auto
  ultimately show ?thesis by blast
qed

lemma normalize_deadlines_field:
  assumes "normalize_deadlines d = Inr (d', ds)" and "f = limit_field \<or> f = deadline_field"
  shows "positive_or_absent (dget d' f)"
    and "dget d' f = Some (JNum q) \<longleftrightarrow> stands_for (dget d f) q"
proof -
  from assms(1) obtain d1 ds1 d2 ds2 where
    1: "normalize_field limit_field (d, []) = Inr (d1, ds1)" and
    2: "normalize_field deadline_field (d1, ds1) = Inr (d2, ds2)" and
    3: "d' = fst (check_reason (d2, ds2))" by (rule normalize_deadlines_run)
  note R1 = normalize_field_result [OF 1] and R2 = normalize_field_result [OF 2]
  have same: "dget d2 limit_field = dget d1 limit_field" "dget d1 deadline_field = dget d deadline_field"
    by (rule R2(3) R1(3); simp)+
  have "dget d' f = dget d2 f" using assms(2) 3 by (auto simp: check_reason_other)
  then have "positive_or_absent (dget d' f) \<and>
      (dget d' f = Some (JNum q) \<longleftrightarrow> stands_for (dget d f) q)"
    using assms(2) by (elim disjE; simp only: same R1(1,2) R2(1,2) simp_thms)
  then show "positive_or_absent (dget d' f)"
    and "dget d' f = Some (JNum q) \<longleftrightarrow> stands_for (dget d f) q" by blast+
qed

lemma normalize_deadlines_other:
  assumes "normalize_deadlines d = Inr (d', ds)"
    and "k \<notin> {limit_field, deadline_field, ''terminal_reason''}"
  shows "dget d' k = dget d k"
proof -
  from assms(1) obtain d1 ds1 d2 ds2 where
    1: "normalize_field limit_field (d, []) = Inr (d1, ds1)" and
    2: "normalize_field deadline_field (d1, ds1) = Inr (d2, ds2)" and
    3: "d' = fst (check_reason (d2, ds2))" by (rule normalize_deadlines_run)
  show ?thesis
    using assms(2) normalize_field_result(3) [OF 1, of k] normalize_field_result(3) [OF 2, of k]
      check_reason_other [of k "(d2, ds2)"] 3 by simp
qed

lemma normalize_deadlines_again:
  assumes "normalize_deadlines d = Inr (d', ds)"
  shows "map_sum id fst (normalize_deadlines d') = Inr d'"
proof -
  note F = normalize_deadlines_field(1) [OF assms]
  obtain x where x: "d' = fst (check_reason x)" using assms by (rule normalize_deadlines_run)
  have "normalize_field limit_field (d', []) = Inr (d', [])"
    and "normalize_field deadline_field (d', []) = Inr (d', [])"
    using F by (intro normalize_field_fixed; simp)+
  then have "normalize_deadlines d' = Inr (check_reason (check_limit (d', [])))"
    by (simp add: normalize_deadlines_def)
  moreover have "fst (check_reason (check_limit (d', []))) = d'"
    using check_reason_idem [of x] by (simp only: x check_reason_fst check_limit_fst fst_conv)
  ultimately show ?thesis by simp
qed

text \<open>
  C24. A resumed job never gets a deadline its checkpoint did not hold. Loading a raw
  document fails only on an integer too big for a float; otherwise each of the two
  deadline fields ends as a positive number exactly when the stored value stands for that
  number (text included, booleans excluded) and as absent in every other case, no field but
  the two and \<open>terminal_reason\<close> changes, and loading the result again changes nothing.
\<close>

theorem deadlines_are_never_minted:
  shows "(normalize_deadlines d = Inl e \<longleftrightarrow> e = OverflowError \<and>
      (\<exists>f i. (f = ''max_wall_seconds'' \<or> f = ''wall_deadline_at'') \<and>
         dget d f = Some (JInt i) \<and> float_overflows \<bar>of_int i\<bar>)) \<and>
    (normalize_deadlines d = Inr (d', ds) \<longrightarrow>
      (\<forall>f q. f = ''max_wall_seconds'' \<or> f = ''wall_deadline_at'' \<longrightarrow>
         positive_or_absent (dget d' f) \<and>
         (dget d' f = Some (JNum q) \<longleftrightarrow> stands_for (dget d f) q)) \<and>
      (\<forall>k. k \<notin> {''max_wall_seconds'', ''wall_deadline_at'', ''terminal_reason''} \<longrightarrow>
         dget d' k = dget d k) \<and>
      map_sum id fst (normalize_deadlines d') = Inr d')"
proof (intro conjI impI allI)
  show "normalize_deadlines d = Inl e \<longleftrightarrow> e = OverflowError \<and>
      (\<exists>f i. (f = ''max_wall_seconds'' \<or> f = ''wall_deadline_at'') \<and>
         dget d f = Some (JInt i) \<and> float_overflows \<bar>of_int i\<bar>)"
    by (rule normalize_deadlines_error)
next
  assume run: "normalize_deadlines d = Inr (d', ds)"
  show "map_sum id fst (normalize_deadlines d') = Inr d'"
    using run by (rule normalize_deadlines_again)
  show "positive_or_absent (dget d' f)" "dget d' f = Some (JNum q) \<longleftrightarrow> stands_for (dget d f) q"
    if "f = ''max_wall_seconds'' \<or> f = ''wall_deadline_at''" for f q
    by (rule normalize_deadlines_field [OF run that])+
  show "dget d' k = dget d k"
    if "k \<notin> {''max_wall_seconds'', ''wall_deadline_at'', ''terminal_reason''}" for k
    using run that by (rule normalize_deadlines_other)
qed

theorem deadlines_are_never_minted_witness:
  "\<exists>d' ds. normalize_deadlines [(''max_wall_seconds'', JNum 60), (''wall_deadline_at'', JBool True)]
     = Inr (d', ds) \<and> positive_or_absent (dget d' ''wall_deadline_at'') \<and>
     map_sum id fst (normalize_deadlines d') = Inr d'"
proof -
  let ?d = "[(''max_wall_seconds'', JNum 60), (''wall_deadline_at'', JBool True)]"
  have run: "normalize_deadlines ?d =
      Inr ([(''max_wall_seconds'', JNum 60), (''wall_deadline_at'', JNull)],
           [''wall_deadline_at:not_numeric'', ''wall_deadline_at:missing_for_score_limit''])"
    by code_simp
  note D = deadlines_are_never_minted [THEN conjunct2, THEN mp, OF run]
  note safe = D [THEN conjunct1, THEN spec, THEN spec, THEN mp, THEN conjunct1, OF disjI2, OF refl]
    and again = D [THEN conjunct2, THEN conjunct2]
  show ?thesis
    by (rule exI, rule exI, rule conjI, rule run, rule conjI, rule safe, rule again)
qed

end
