(* ===== verification/State_Backends.thy ===== *)
theory State_Backends
  imports Checkpoint_Valid
begin

section \<open>State backends\<close>

text \<open>
  The \<open>StateBackend\<close> interface of \<open>state/base.py\<close> and three of its implementations: the
  in-memory one (\<open>state/memory.py\<close>), one JSON file per job (\<open>state/json_backend.py\<close>) and the
  daemon's registry (\<open>daemon/registry_backend.py\<close>). A store maps keys to saved documents; a
  row of the registry may exist without a document. The locale \<open>state_backend\<close> states what
  \<open>load\<close> and \<open>save\<close> promise each other, up to a view of the document; each backend is an
  interpretation. Times and costs are exact rationals, where the code has floats.
\<close>

type_synonym doc_store = "(string, checkpoint) dict"

subsection \<open>Updating a sheet's status\<close>

text \<open>
  The dispatch on the status that every \<open>mark_sheet_status\<close> shares: statuses other than the
  three named change nothing.
\<close>

definition error_or_unknown :: "msg option \<Rightarrow> msg" where
  "error_or_unknown m = (case m of
      Some x \<Rightarrow> if msg_truthy m then x else Text ''Unknown error''
    | None \<Rightarrow> Text ''Unknown error'')"

definition mark_by_status ::
  "int \<Rightarrow> sheet_status \<Rightarrow> msg option \<Rightarrow> rat \<Rightarrow> (checkpoint, unit) act" where
  "mark_by_status n st m t =
     (if st = COMPLETED then mark_sheet_completed n True None None t
      else if st = FAILED then mark_sheet_failed n (plain_failure (error_or_unknown m)) t
      else if st = IN_PROGRESS then mark_sheet_started n t
      else ret ())"

subsection \<open>In memory\<close>

text \<open>\<open>load\<close> hands out the stored object itself, so a mark that raises has changed the store.\<close>

definition memory_load :: "string \<Rightarrow> doc_store \<Rightarrow> checkpoint option" where
  "memory_load j s = dget s j"

definition memory_save :: "checkpoint \<Rightarrow> doc_store \<Rightarrow> doc_store" where
  "memory_save c s = dset s (cp_job_id c) c"

definition memory_delete :: "string \<Rightarrow> doc_store \<Rightarrow> bool \<times> doc_store" where
  "memory_delete j s = (if dget s j \<noteq> None then (True, ddel s j) else (False, s))"

definition memory_next_sheet :: "string \<Rightarrow> doc_store \<Rightarrow> int option" where
  "memory_next_sheet j s = (case memory_load j s of None \<Rightarrow> None | Some c \<Rightarrow> get_next_sheet c)"

definition memory_mark ::
  "string \<Rightarrow> int \<Rightarrow> sheet_status \<Rightarrow> msg option \<Rightarrow> rat \<Rightarrow> (doc_store, unit) act" where
  "memory_mark j n st m t = (\<lambda>s.
     case memory_load j s of
       None \<Rightarrow> (Inl ValueError, s)
     | Some c \<Rightarrow>
         (let (r, c') = mark_by_status n st m t c; s' = dset s j c'
          in case r of Inl e \<Rightarrow> (Inl e, s') | Inr _ \<Rightarrow> (Inr (), memory_save c' s')))"

subsection \<open>The daemon's registry\<close>

text \<open>
  The rows of the table \<open>jobs\<close> of \<open>daemon/registry.py\<close>, each with its checkpoint column.
  \<open>save_checkpoint\<close> is an \<open>UPDATE\<close>: for a job without a row it does nothing.
\<close>

type_synonym registry_rows = "(string, checkpoint option) dict"

definition save_checkpoint :: "string \<Rightarrow> checkpoint \<Rightarrow> registry_rows \<Rightarrow> registry_rows" where
  "save_checkpoint j d s = (if dget s j = None then s else dset s j (Some d))"

definition load_checkpoint :: "string \<Rightarrow> registry_rows \<Rightarrow> checkpoint option" where
  "load_checkpoint j s = (case dget s j of None \<Rightarrow> None | Some d \<Rightarrow> d)"

definition registry_load :: "rat \<Rightarrow> string \<Rightarrow> registry_rows \<Rightarrow> checkpoint option" where
  "registry_load t j s = map_option (validated t) (load_checkpoint j s)"

definition registry_save :: "checkpoint \<Rightarrow> registry_rows \<Rightarrow> registry_rows" where
  "registry_save c s = save_checkpoint (cp_job_id c) (dumped c) s"

definition registry_next_sheet :: "rat \<Rightarrow> string \<Rightarrow> registry_rows \<Rightarrow> int option" where
  "registry_next_sheet t j s =
     (case registry_load t j s of None \<Rightarrow> Some 1 | Some c \<Rightarrow> get_next_sheet c)"

definition registry_mark ::
  "string \<Rightarrow> int \<Rightarrow> sheet_status \<Rightarrow> msg option \<Rightarrow> rat \<Rightarrow> (registry_rows, unit) act" where
  "registry_mark j n st m t = (\<lambda>s.
     case registry_load t j s of
       None \<Rightarrow> (Inl ValueError, s)
     | Some c \<Rightarrow>
         (case mark_by_status n st m t c of
            (Inl e, c') \<Rightarrow> (Inl e, s)
          | (Inr _, c') \<Rightarrow> (Inr (), registry_save c' s)))"

text \<open>The read-only view for offline readers counts on from the watermark.\<close>

definition registry_first_next_sheet :: "rat \<Rightarrow> string \<Rightarrow> registry_rows \<Rightarrow> int option" where
  "registry_first_next_sheet t j s =
     (case registry_load t j s of
        None \<Rightarrow> None
      | Some c \<Rightarrow> (let nxt = cp_last_completed_sheet c + 1
          in if nxt \<le> cp_total_sheets c then Some nxt else None))"

subsection \<open>JSON files\<close>

text \<open>\<open>c.isalnum()\<close> for the code points \<open>0 .. 255\<close>, and the file name of a job.\<close>

definition is_alnum :: "char \<Rightarrow> bool" where
  "is_alnum c \<longleftrightarrow> (let k = (of_char c :: nat)
     in (48 \<le> k \<and> k \<le> 57) \<or> (65 \<le> k \<and> k \<le> 90) \<or> (97 \<le> k \<and> k \<le> 122) \<or>
        k \<in> {170, 178, 179, 181, 185, 186, 188, 189, 190} \<or>
        (192 \<le> k \<and> k \<le> 214) \<or> (216 \<le> k \<and> k \<le> 246) \<or> (248 \<le> k \<and> k \<le> 255))"

definition safe_id :: "string \<Rightarrow> string" where
  "safe_id j = map (\<lambda>c. if is_alnum c \<or> c = CHR ''-'' \<or> c = CHR ''_'' then c else CHR ''_'') j"

text \<open>\<open>kill\<close> answers whether a process is alive at a time.\<close>

definition json_load ::
  "(rat \<Rightarrow> int \<Rightarrow> pid_probe) \<Rightarrow> rat \<Rightarrow> string \<Rightarrow> doc_store \<Rightarrow> checkpoint option" where
  "json_load kill t j s =
     map_option (\<lambda>d. let c = validated t d in
         if is_zombie (kill t) c
         then mark_zombie_detected (Some ''Detected on state load - process no longer running'') t c
         else c)
       (dget s (safe_id j))"

definition json_save :: "rat \<Rightarrow> checkpoint \<Rightarrow> doc_store \<Rightarrow> doc_store" where
  "json_save t c s =
     (let c1 = c\<lparr>cp_updated_at := t\<rparr> in dset s (safe_id (cp_job_id c1)) (dumped c1))"

definition json_delete :: "string \<Rightarrow> doc_store \<Rightarrow> bool \<times> doc_store" where
  "json_delete j s =
     (if dget s (safe_id j) \<noteq> None then (True, ddel s (safe_id j)) else (False, s))"

definition json_next_sheet ::
  "(rat \<Rightarrow> int \<Rightarrow> pid_probe) \<Rightarrow> rat \<Rightarrow> string \<Rightarrow> doc_store \<Rightarrow> int option" where
  "json_next_sheet kill t j s =
     (case json_load kill t j s of None \<Rightarrow> Some 1 | Some c \<Rightarrow> get_next_sheet c)"

definition json_mark ::
  "(rat \<Rightarrow> int \<Rightarrow> pid_probe) \<Rightarrow> string \<Rightarrow> int \<Rightarrow> sheet_status \<Rightarrow> msg option \<Rightarrow> rat \<Rightarrow> (doc_store, unit) act" where
  "json_mark kill j n st m t = (\<lambda>s.
     case json_load kill t j s of
       None \<Rightarrow> (Inl ValueError, s)
     | Some c \<Rightarrow>
         (case mark_by_status n st m t c of
            (Inl e, c') \<Rightarrow> (Inl e, s)
          | (Inr _, c') \<Rightarrow> (Inr (), json_save t c' s)))"

subsection \<open>What a resuming client reads\<close>

text \<open>
  The part of a document that marks and \<open>get_next_sheet\<close> depend on: everything of the sheets
  that is saved, the watermark and the current sheet, and whether the job is closed. A client
  that pauses, resumes or reports also reads the job's status, its process and its error
  message: \<open>client_view\<close>. The job's times may differ between backends.
\<close>

definition job_closed :: "checkpoint \<Rightarrow> bool" where
  "job_closed c \<longleftrightarrow> cp_status c = JOB_COMPLETED \<or> cp_status c = JOB_CANCELLED"

record doc_core =
  dc_job_id :: string
  dc_total :: int
  dc_watermark :: int
  dc_current :: "int option"
  dc_closed :: bool
  dc_sheets :: "(int, sheet_doc) dict"

definition core :: "checkpoint \<Rightarrow> doc_core" where
  "core c = \<lparr>dc_job_id = cp_job_id c, dc_total = cp_total_sheets c,
     dc_watermark = cp_last_completed_sheet c, dc_current = cp_current_sheet c,
     dc_closed = job_closed c, dc_sheets = cp_sheets (dumped c)\<rparr>"

lemma core_sel:
  "dc_total (core c) = cp_total_sheets c" "dc_watermark (core c) = cp_last_completed_sheet c"
  "dc_current (core c) = cp_current_sheet c" "dc_closed (core c) = job_closed c"
  "dc_sheets (core c) = cp_sheets (dumped c)" "dc_job_id (core c) = cp_job_id c"
  by (simp_all add: core_def)

text \<open>The marks, on that part alone.\<close>

definition core_start :: "int \<Rightarrow> rat \<Rightarrow> doc_core \<Rightarrow> doc_core" where
  "core_start n t k =
     (let ss = (if dget (dc_sheets k) n = None then dset (dc_sheets k) n (new_doc n) else dc_sheets k)
      in k\<lparr>dc_current := Some n, dc_closed := False,
           dc_sheets := dadj ss n (start_doc t)\<rparr>)"

definition core_fail :: "int \<Rightarrow> failure_info \<Rightarrow> rat \<Rightarrow> doc_core \<Rightarrow> doc_core" where
  "core_fail n i t k =
     (let ss = (if dget (dc_sheets k) n = None then dset (dc_sheets k) n (new_doc n) else dc_sheets k)
      in k\<lparr>dc_current := None, dc_sheets := dadj ss n (fail_doc i t)\<rparr>)"

definition core_complete :: "int \<Rightarrow> rat \<Rightarrow> doc_core \<Rightarrow> doc_core" where
  "core_complete n t k =
     (let ss = (if dget (dc_sheets k) n = None then dset (dc_sheets k) n (new_doc n) else dc_sheets k);
          ss' = dadj ss n (complete_doc True None None t);
          full = (int (length ss') \<ge> dc_total k \<and> list_all (\<lambda>d. doc_status d = COMPLETED) (dvals ss'))
      in k\<lparr>dc_sheets := ss', dc_watermark := max n (dc_watermark k), dc_current := None,
           dc_closed := dc_closed k \<or> full\<rparr>)"

definition core_mark :: "int \<Rightarrow> sheet_status \<Rightarrow> msg option \<Rightarrow> rat \<Rightarrow> doc_core \<Rightarrow> doc_core" where
  "core_mark n st m t k =
     (if st = COMPLETED then core_complete n t k
      else if st = FAILED then core_fail n (plain_failure (error_or_unknown m)) t k
      else if st = IN_PROGRESS then core_start n t k
      else k)"

text \<open>The marks on the view of a client: they touch neither the process nor the job's error.\<close>

type_synonym client_view = "doc_core \<times> job_status \<times> int option \<times> msg option"

definition client_view :: "checkpoint \<Rightarrow> client_view" where
  "client_view c = (core c, cp_status c, cp_pid c, cp_error_message c)"

definition core_full :: "doc_core \<Rightarrow> bool" where
  "core_full k \<longleftrightarrow> int (length (dc_sheets k)) \<ge> dc_total k \<and>
     list_all (\<lambda>d. doc_status d = COMPLETED) (dvals (dc_sheets k))"

definition view_mark :: "int \<Rightarrow> sheet_status \<Rightarrow> msg option \<Rightarrow> rat \<Rightarrow> client_view \<Rightarrow> client_view" where
  "view_mark n st m t v =
     (case v of (k, job, pid, err) \<Rightarrow>
        let k' = core_mark n st m t k in
        (k', if st = COMPLETED then if core_full k' then JOB_COMPLETED else job
             else if st = FAILED then job
             else if st = IN_PROGRESS then JOB_RUNNING
             else job, pid, err))"

definition core_next :: "doc_core \<Rightarrow> int option" where
  "core_next k =
     (if dc_closed k then None
      else case (case dc_current k of
                   None \<Rightarrow> None
                 | Some n \<Rightarrow> (case dget (dc_sheets k) n of
                     Some d \<Rightarrow> if doc_status d = IN_PROGRESS then Some n else None
                   | None \<Rightarrow> None)) of
             Some n \<Rightarrow> Some n
           | None \<Rightarrow> List.find (\<lambda>n. case dget (dc_sheets k) n of
                 None \<Rightarrow> True | Some d \<Rightarrow> doc_status d = PENDING \<or> doc_status d = FAILED)
               [dc_watermark k + 1 .. dc_total k])"

lemma dmap_dset: "dmap (\<lambda>_. f) (dset d k v) = dset (dmap (\<lambda>_. f) d) k (f v)"
  by (induction d) (auto simp: dmap_def)

lemma dmap_dadj: "(\<And>v. f (g v) = h (f v)) \<Longrightarrow> dmap (\<lambda>_. f) (dadj d k g) = dadj (dmap (\<lambda>_. f) d) k h"
  by (cases "dget d k") (simp_all add: dadj_def dmap_dset)

lemma dumped_updates:
  "dumped_sheet (new_doc n) = new_doc n"
  "dumped_sheet (start_doc t d) = start_doc t (dumped_sheet d)"
  "dumped_sheet (fail_doc i t d) = fail_doc i t (dumped_sheet d)"
  "dumped_sheet (complete_doc True None None t d) = complete_doc True None None t (dumped_sheet d)"
  "doc_status (dumped_sheet d) = doc_status d"
  by (simp_all add: dumped_sheet_def new_doc_def new_sheet_def start_doc_def fail_doc_def
      complete_doc_def validation_evidence_def set_duration_def Let_def split: option.split)

lemma dumped_ensured:
  "cp_sheets (dumped (ensured n c)) = (let ss = cp_sheets (dumped c)
     in if dget ss n = None then dset ss n (new_doc n) else ss)"
  by (simp add: dumped_def ensured_def dmap_dset dumped_updates Let_def)

lemma dumped_adj_doc:
  "(\<And>d. dumped_sheet (f d) = f (dumped_sheet d)) \<Longrightarrow>
   cp_sheets (dumped (adj_doc n f c)) = dadj (cp_sheets (dumped c)) n f"
  by (simp add: dumped_def adj_doc_def dmap_dadj)

lemma dumped_sheets_cong: "cp_sheets c' = cp_sheets c \<Longrightarrow> cp_sheets (dumped c') = cp_sheets (dumped c)"
  by (simp add: dumped_def)

lemma all_completed_dumped:
  "all_sheets_completed c \<longleftrightarrow>
     int (length (cp_sheets (dumped c))) \<ge> cp_total_sheets c \<and>
     list_all (\<lambda>d. doc_status d = COMPLETED) (dvals (cp_sheets (dumped c)))"
  by (simp add: all_sheets_completed_def dumped_def dmap_def list_all_iff case_prod_beta
      dumped_updates(5))

lemma core_updates:
  "core (c\<lparr>cp_updated_at := t\<rparr>) = core c"
  "core (c\<lparr>cp_total_retry_count := k\<rparr>) = core c"
  "core (c\<lparr>cp_current_sheet := x\<rparr>) = (core c)\<lparr>dc_current := x\<rparr>"
  "core (c\<lparr>cp_last_completed_sheet := k\<rparr>) = (core c)\<lparr>dc_watermark := k\<rparr>"
  "core (c\<lparr>cp_status := JOB_RUNNING\<rparr>) = (core c)\<lparr>dc_closed := False\<rparr>"
  by (simp_all add: core_def job_closed_def dumped_def)

lemma core_ensured:
  "core (ensured n c) = (core c)\<lparr>dc_sheets := (if dget (dc_sheets (core c)) n = None
      then dset (dc_sheets (core c)) n (new_doc n) else dc_sheets (core c))\<rparr>"
  by (simp add: core_def job_closed_def dumped_ensured Let_def) (simp add: ensured_def)

lemma core_adj_doc:
  "(\<And>d. dumped_sheet (f d) = f (dumped_sheet d)) \<Longrightarrow>
   core (adj_doc n f c) = (core c)\<lparr>dc_sheets := dadj (dc_sheets (core c)) n f\<rparr>"
  by (simp add: core_def job_closed_def dumped_adj_doc) (simp add: dumped_def adj_doc_def)

lemma core_finish_job:
  "core (finish_job t c) = (core c)\<lparr>dc_closed := dc_closed (core c) \<or>
     (int (length (dc_sheets (core c))) \<ge> dc_total (core c) \<and>
      list_all (\<lambda>d. doc_status d = COMPLETED) (dvals (dc_sheets (core c))))\<rparr>"
  unfolding core_sel all_completed_dumped [symmetric]
  by (auto simp: core_def finish_job_def job_closed_def dumped_def)

lemma core_mark_run:
  assumes "n \<ge> 1"
  shows "\<exists>c'. mark_by_status n st m t c = (Inr (), c') \<and> core c' = core_mark n st m t (core c)"
proof -
  note run = marks_run [OF disjI2 [OF assms]]
  have "core (snd (mark_sheet_started n t c)) = core_start n t (core c)"
    by (simp add: run core_updates core_ensured core_adj_doc dumped_updates core_start_def)
  moreover have "core (snd (mark_sheet_failed n i t c)) = core_fail n i t (core c)" for i
    by (simp add: run core_updates core_ensured core_adj_doc dumped_updates core_fail_def)
  moreover have "core (snd (mark_sheet_completed n True None None t c)) = core_complete n t (core c)"
    by (simp add: run core_finish_job core_updates core_ensured core_adj_doc dumped_updates
        core_complete_def core_sel Let_def)
  ultimately show ?thesis
    by (simp add: mark_by_status_def core_mark_def run)
qed

lemma view_mark_run:
  assumes "n \<ge> 1" and "mark_by_status n st m t c = (Inr (), c')"
  shows "core c' = core_mark n st m t (core c)" and "client_view c' = view_mark n st m t (client_view c)"
proof -
  note run = marks_run [OF disjI2 [OF assms(1)]]
  show core: "core c' = core_mark n st m t (core c)"
    using core_mark_run [OF assms(1), of st m t c] assms(2) by simp
  have pid: "cp_pid c' = cp_pid c" "cp_error_message c' = cp_error_message c"
    using assms(2)
    by (auto simp: mark_by_status_def run finish_job_def adj_doc_def ensured_def split: if_splits)
  have full: "core_full (core c') = all_sheets_completed c'"
    by (simp add: core_full_def core_sel all_completed_dumped)
  have "cp_status c' = (if all_sheets_completed c' then JOB_COMPLETED else cp_status c)" if "st = COMPLETED"
    using assms(2) that
    by (auto simp: mark_by_status_def run finish_job_def all_sheets_completed_def adj_doc_def ensured_def)
  moreover have "cp_status c' = cp_status c" if "st = FAILED"
    using assms(2) that by (auto simp: mark_by_status_def run adj_doc_def ensured_def)
  moreover have "cp_status c' = JOB_RUNNING" if "st = IN_PROGRESS"
    using assms(2) that by (auto simp: mark_by_status_def run adj_doc_def ensured_def)
  moreover have "cp_status c' = cp_status c" if "st \<notin> {COMPLETED, FAILED, IN_PROGRESS}"
    using assms(2) that by (auto simp: mark_by_status_def)
  ultimately show "client_view c' = view_mark n st m t (client_view c)"
    using pid full core by (auto simp: client_view_def view_mark_def Let_def)
qed

lemma core_next_sheet: "get_next_sheet c = core_next (core c)"
proof -
  have at: "map_option doc_status (dget (cp_sheets (dumped c)) n) = map_option doc_status (job_sheet c n)" for n
    by (cases "job_sheet c n") (simp_all add: dumped_def dumped_updates)
  have eq1: "(case dget (cp_sheets (dumped c)) n of None \<Rightarrow> True
      | Some d \<Rightarrow> doc_status d = PENDING \<or> doc_status d = FAILED) = open_sheet c n" for n
    using at [of n] by (cases "job_sheet c n"; cases "dget (cp_sheets (dumped c)) n")
      (simp_all add: open_sheet_def)
  have eq2: "(case dget (cp_sheets (dumped c)) n of
       Some d \<Rightarrow> if doc_status d = IN_PROGRESS then Some n else None | None \<Rightarrow> None) =
     (case job_sheet c n of
       Some d \<Rightarrow> if doc_status d = IN_PROGRESS then Some n else None | None \<Rightarrow> None)" for n
    using at [of n] by (cases "job_sheet c n"; cases "dget (cp_sheets (dumped c)) n") simp_all
  show ?thesis
    unfolding get_next_sheet_def core_next_def core_sel job_closed_def in_progress_sheet_def eq1 eq2 ..
qed

text \<open>Loading keeps what a client reads; so does the zombie check.\<close>

lemma core_validated:
  assumes "sheets_valid c"
  shows "core (validated t c) = core c"
proof -
  have "cp_sheets (validated t c) = cp_sheets c" using assms by (rule validated_sheets_id)
  then have "cp_sheets (dumped (validated t c)) = cp_sheets (dumped c)" by (rule dumped_sheets_cong)
  then show ?thesis
    by (simp add: core_def job_closed_def) (simp add: validated_def enforce_job_def Let_def)
qed

lemma core_dumped [simp]: "core (dumped c) = core c"
  by (simp add: core_def job_closed_def) (simp add: dumped_def)

lemma client_view_loads [simp]:
  "sheets_valid c \<Longrightarrow> client_view (validated t c) = client_view c"
  "client_view (dumped c) = client_view c"
  by (simp_all add: client_view_def core_validated) (simp_all add: validated_def enforce_job_def dumped_def Let_def)

lemma core_zombie:
  "is_zombie kill c \<Longrightarrow> core (mark_zombie_detected r t c) = core c"
  by (auto simp: core_def is_zombie_def mark_zombie_detected_def job_closed_def dumped_def Let_def
      split: if_splits)

lemma core_mark_job_id [simp]: "dc_job_id (core_mark n st m t k) = dc_job_id k"
  by (simp add: core_mark_def core_complete_def core_fail_def core_start_def Let_def)

lemma mark_by_status_valid: "sheets_valid c \<Longrightarrow> sheets_valid (snd (mark_by_status n st m t c))"
  using evolvesD [OF apply_mark_valid [of "Completed n True None None" t], of c]
    evolvesD [OF apply_mark_valid [of "Failed n (plain_failure (error_or_unknown m))" t], of c]
    evolvesD [OF apply_mark_valid [of "Started n" t], of c]
  by (simp add: keeps_def mark_by_status_def)

lemma mark_by_status_keeps [simp]:
  "cp_job_id (snd (mark_by_status n st m t c)) = cp_job_id c"
  "cp_pid (snd (mark_by_status n st m t c)) = cp_pid c"
  by (simp_all add: mark_by_status_def mark_sheet_started_def mark_sheet_completed_def
      mark_sheet_failed_def act_simps ensure_doc_def adj_doc_def finish_job_def)

lemmas mark_by_status_job_id = mark_by_status_keeps(1)
lemmas mark_by_status_pid = mark_by_status_keeps(2)

lemma sheets_valid_updated_at [simp]: "sheets_valid (c\<lparr>cp_updated_at := t\<rparr>) = sheets_valid c"
  by (rule sheets_valid_cong) simp

text \<open>A history of calls on one job, each with its time.\<close>

type_synonym mark_call = "int \<times> sheet_status \<times> msg option \<times> rat"

definition run_calls ::
  "(string \<Rightarrow> int \<Rightarrow> sheet_status \<Rightarrow> msg option \<Rightarrow> rat \<Rightarrow> ('s, unit) act) \<Rightarrow>
   string \<Rightarrow> mark_call list \<Rightarrow> 's \<Rightarrow> 's" where
  "run_calls mark j cs s = fold (\<lambda>(n, st, m, t) s. snd (mark j n st m t s)) cs s"

definition calls_view :: "(int \<Rightarrow> sheet_status \<Rightarrow> msg option \<Rightarrow> rat \<Rightarrow> 'v \<Rightarrow> 'v) \<Rightarrow> mark_call list \<Rightarrow> 'v \<Rightarrow> 'v" where
  "calls_view step cs v = fold (\<lambda>(n, st, m, t). step n st m t) cs v"

lemma calls_view_core: "fst (calls_view view_mark cs v) = calls_view core_mark cs (fst v)"
  unfolding calls_view_def
  by (induction cs arbitrary: v) (auto simp: view_mark_def Let_def split: prod.split)

definition numbered :: "mark_call list \<Rightarrow> bool" where
  "numbered cs \<longleftrightarrow> list_all (\<lambda>c. fst c \<ge> 1) cs"

subsection \<open>The interface\<close>

text \<open>
  A backend with key function \<open>key\<close>, on stores satisfying \<open>good\<close>: a saved document is read
  back up to the view \<open>see\<close>, which the marks change by \<open>step\<close>; saving over a document leaves
  those under other keys alone; and marking is load, mark, save, with a missing document an
  error.
\<close>

locale state_backend =
  fixes key :: "string \<Rightarrow> 'k"
    and load :: "rat \<Rightarrow> string \<Rightarrow> 's \<Rightarrow> checkpoint option"
    and save :: "rat \<Rightarrow> checkpoint \<Rightarrow> 's \<Rightarrow> 's"
    and mark :: "string \<Rightarrow> int \<Rightarrow> sheet_status \<Rightarrow> msg option \<Rightarrow> rat \<Rightarrow> ('s, unit) act"
    and good :: "'s \<Rightarrow> bool"
    and see :: "checkpoint \<Rightarrow> 'v"
    and step :: "int \<Rightarrow> sheet_status \<Rightarrow> msg option \<Rightarrow> rat \<Rightarrow> 'v \<Rightarrow> 'v"
  assumes load_ok: "good s \<Longrightarrow> load t j s = Some c \<Longrightarrow> sheets_valid c \<and> key (cp_job_id c) = key j"
    and load_stable: "good s \<Longrightarrow> map_option see (load t j s) = map_option see (load u j s)"
    and save_good: "good s \<Longrightarrow> load t j s = Some c \<Longrightarrow> mark_by_status n st m t c = (Inr (), c') \<Longrightarrow>
      sheets_valid c' \<Longrightarrow> good (save t c' s)"
    and load_save: "good s \<Longrightarrow> load t j s = Some c \<Longrightarrow> mark_by_status n st m t c = (Inr (), c') \<Longrightarrow>
      sheets_valid c' \<Longrightarrow> map_option see (load u j (save t c' s)) = Some (see c')"
    and load_other: "key j \<noteq> key (cp_job_id c) \<Longrightarrow> load u j (save t c s) = load u j s"
    and mark_missing: "load t j s = None \<Longrightarrow> mark j n st m t s = (Inl ValueError, s)"
    and mark_found: "good s \<Longrightarrow> load t j s = Some c \<Longrightarrow> mark_by_status n st m t c = (Inr (), c') \<Longrightarrow>
      mark j n st m t s = (Inr (), save t c' s)"
    and see_mark: "n \<ge> 1 \<Longrightarrow> mark_by_status n st m t c = (Inr (), c') \<Longrightarrow> see c' = step n st m t (see c)"
begin

lemma mark_step:
  assumes "good s" and "n \<ge> 1"
  shows "good (snd (mark j n st m t s))"
    and "map_option see (load u j (snd (mark j n st m t s))) =
      map_option (step n st m t) (map_option see (load u j s))"
    and "fst (mark j n st m t s) = (if load u j s = None then Inl ValueError else Inr ())"
    and "key i \<noteq> key j \<Longrightarrow> load u i (snd (mark j n st m t s)) = load u i s"
proof -
  have same: "load u j s = None \<longleftrightarrow> load t j s = None"
    using load_stable [OF assms(1), of u j t] by (metis option.map_disc_iff)
  have "good (snd (mark j n st m t s)) \<and>
    map_option see (load u j (snd (mark j n st m t s))) =
      map_option (step n st m t) (map_option see (load u j s)) \<and>
    fst (mark j n st m t s) = (if load u j s = None then Inl ValueError else Inr ()) \<and>
    (key i \<noteq> key j \<longrightarrow> load u i (snd (mark j n st m t s)) = load u i s)"
  proof (cases "load t j s")
    case None
    then show ?thesis using same mark_missing [OF None] assms(1) by simp
  next
    case (Some c)
    obtain c' where run: "mark_by_status n st m t c = (Inr (), c')"
      using core_mark_run [OF assms(2)] by blast
    note ok = load_ok [OF assms(1) Some]
    have valid: "sheets_valid c'"
      using mark_by_status_valid [of c n st m t] ok run by simp
    have id: "cp_job_id c' = cp_job_id c" using mark_by_status_job_id [of n st m t c] run by simp
    have marked: "mark j n st m t s = (Inr (), save t c' s)"
      using assms(1) Some run by (rule mark_found)
    have "map_option see (load u j s) = Some (see c)"
      using load_stable [OF assms(1), of u j t] Some by simp
    moreover note load_save [OF assms(1) Some run valid, of u]
    moreover have "load u i (save t c' s) = load u i s" if "key i \<noteq> key j"
      using that ok id by (intro load_other) simp
    ultimately show ?thesis
      using marked see_mark [OF assms(2) run] save_good [OF assms(1) Some run valid] same Some
      by (simp del: map_option_eq_Some)
  qed
  then show "good (snd (mark j n st m t s))"
    and "map_option see (load u j (snd (mark j n st m t s))) =
      map_option (step n st m t) (map_option see (load u j s))"
    and "fst (mark j n st m t s) = (if load u j s = None then Inl ValueError else Inr ())"
    and "key i \<noteq> key j \<Longrightarrow> load u i (snd (mark j n st m t s)) = load u i s" by blast+
qed

lemma calls_step:
  assumes "good s" and "numbered cs"
  shows "good (run_calls mark j cs s) \<and>
    map_option see (load u j (run_calls mark j cs s)) =
      map_option (calls_view step cs) (map_option see (load u j s)) \<and>
    (key i \<noteq> key j \<longrightarrow> load u i (run_calls mark j cs s) = load u i s)"
  using assms
proof (induction cs arbitrary: s)
  case Nil
  then show ?case
    by (simp add: run_calls_def calls_view_def option.map_ident_strong id_def [symmetric])
next
  case (Cons x cs)
  obtain n st m t where x: "x = (n, st, m, t)" by (cases x)
  then have n: "n \<ge> 1" and cs: "numbered cs" using Cons.prems by (simp_all add: numbered_def)
  let ?s = "snd (mark j n st m t s)"
  note once = mark_step [OF Cons.prems(1) n, where j = j and st = st and m = m and t = t]
  have "run_calls mark j (x # cs) s = run_calls mark j cs ?s" by (simp add: run_calls_def x)
  moreover have "calls_view step (x # cs) = calls_view step cs \<circ> step n st m t"
    by (simp add: calls_view_def x fun_eq_iff)
  ultimately show ?case
    using Cons.IH [OF once(1) cs] once(2) [of u] once(4) [of i u]
    by (simp add: option.map_comp o_def)
qed

lemma load_after:
  assumes "good s" and "numbered cs" and "map_option see (load u j s) = Some v"
  shows "\<exists>c'. load u j (run_calls mark j cs s) = Some c' \<and> see c' = calls_view step cs v"
  using calls_step [OF assms(1,2), where u = u and j = j and i = j] assms(3) by auto

end

subsection \<open>The three backends\<close>

definition good_store :: "(string \<Rightarrow> string) \<Rightarrow> doc_store \<Rightarrow> bool" where
  "good_store key s \<longleftrightarrow>
     (\<forall>k c. dget s k = Some c \<longrightarrow> sheets_valid c \<and> key (cp_job_id c) = k)"

lemma good_store_dset:
  "good_store key s \<Longrightarrow> sheets_valid c \<Longrightarrow> good_store key (dset s (key (cp_job_id c)) c)"
  by (auto simp: good_store_def)

definition good_rows :: "registry_rows \<Rightarrow> bool" where
  "good_rows s \<longleftrightarrow> (\<forall>k c. dget s k = Some (Some c) \<longrightarrow> sheets_valid c \<and> cp_job_id c = k)"

text \<open>No saved document names a process that is ever found dead.\<close>

definition living :: "(rat \<Rightarrow> int \<Rightarrow> pid_probe) \<Rightarrow> checkpoint \<Rightarrow> bool" where
  "living kill c \<longleftrightarrow> (\<forall>p. cp_pid c = Some p \<longrightarrow> (\<forall>t. kill t p \<noteq> NoProcess))"

definition living_store :: "(rat \<Rightarrow> int \<Rightarrow> pid_probe) \<Rightarrow> doc_store \<Rightarrow> bool" where
  "living_store kill s \<longleftrightarrow> good_store safe_id s \<and> (\<forall>k c. dget s k = Some c \<longrightarrow> living kill c)"

lemma validated_fields [simp]:
  "cp_job_id (validated t c) = cp_job_id c" "cp_pid (validated t c) = cp_pid c"
  by (simp_all add: validated_def enforce_job_def Let_def)

lemma dumped_fields [simp]:
  "cp_job_id (dumped c) = cp_job_id c" "cp_pid (dumped c) = cp_pid c"
  by (simp_all add: dumped_def)

lemma living_alive: "living kill c \<Longrightarrow> \<not> is_zombie (kill t) (validated u c)"
  by (auto simp: is_zombie_def living_def split: option.splits pid_probe.splits)

lemma living_cong: "cp_pid c' = cp_pid c \<Longrightarrow> living kill c' = living kill c"
  by (simp add: living_def)

lemma sheets_valid_validated: "sheets_valid c \<Longrightarrow> sheets_valid (validated t c)"
  by (rule validated_valid) (simp add: sheets_valid_def)

interpretation memory: state_backend id "\<lambda>t. memory_load" "\<lambda>t. memory_save" memory_mark "good_store id"
  client_view view_mark
proof
  fix s :: doc_store and t u j i c c' n st m
  show "good_store id s \<Longrightarrow> memory_load j s = Some c \<Longrightarrow>
      sheets_valid c \<and> id (cp_job_id c) = id j"
    by (auto simp: good_store_def memory_load_def)
  show "good_store id s \<Longrightarrow> sheets_valid c' \<Longrightarrow> good_store id (memory_save c' s)"
    using good_store_dset [of id s c'] by (simp add: memory_save_def)
  have id: "cp_job_id c' = j"
    if "good_store id s" "memory_load j s = Some c" "mark_by_status n st m t c = (Inr (), c')"
  proof -
    have "cp_job_id c = j" using that(1,2) by (simp add: good_store_def memory_load_def)
    then show ?thesis using mark_by_status_job_id [of n st m t c] that(3) by simp
  qed
  show "memory_mark j n st m t s = (Inr (), memory_save c' s)"
    if "good_store id s" "memory_load j s = Some c" "mark_by_status n st m t c = (Inr (), c')"
    using id [OF that] that by (simp add: memory_mark_def memory_save_def)
  show "map_option client_view (memory_load j (memory_save c' s)) = Some (client_view c')"
    if "good_store id s" "memory_load j s = Some c" "mark_by_status n st m t c = (Inr (), c')"
    using id [OF that] by (simp add: memory_load_def memory_save_def)
qed (auto simp: memory_load_def memory_save_def memory_mark_def view_mark_run)

interpretation registry: state_backend id registry_load "\<lambda>t. registry_save" registry_mark good_rows
  client_view view_mark
proof
  fix s :: registry_rows and t u j i c c' n st m
  show ok: "good_rows s \<Longrightarrow> registry_load t j s = Some c \<Longrightarrow>
      sheets_valid c \<and> id (cp_job_id c) = id j"
    by (auto simp: good_rows_def registry_load_def load_checkpoint_def sheets_valid_validated split: option.splits)
  show "good_rows s \<Longrightarrow> map_option client_view (registry_load t j s) = map_option client_view (registry_load u j s)"
    by (cases "load_checkpoint j s")
      (auto simp: registry_load_def load_checkpoint_def good_rows_def split: option.splits)
  show "good_rows s \<Longrightarrow> sheets_valid c' \<Longrightarrow> good_rows (registry_save c' s)"
    by (auto simp: registry_save_def save_checkpoint_def good_rows_def dumped_sheets_valid)
  show "map_option client_view (registry_load u j (registry_save c' s)) = Some (client_view c')"
    if "good_rows s" "registry_load t j s = Some c" "mark_by_status n st m t c = (Inr (), c')" "sheets_valid c'"
  proof -
    have "cp_job_id c' = j" using ok [OF that(1,2)] mark_by_status_job_id [of n st m t c] that(3) by simp
    moreover have "dget s j \<noteq> None" using that(2) by (auto simp: registry_load_def load_checkpoint_def split: option.splits)
    ultimately show ?thesis
      using that(4) by (simp add: registry_load_def load_checkpoint_def registry_save_def save_checkpoint_def dumped_sheets_valid)
  qed
qed (auto simp: registry_load_def load_checkpoint_def registry_save_def save_checkpoint_def registry_mark_def view_mark_run split: option.split)

lemma json_load_core:
  "sheets_valid d \<Longrightarrow> dget s (safe_id j) = Some d \<Longrightarrow>
   \<exists>c. json_load kill t j s = Some c \<and> core c = core d \<and> sheets_valid c"
  using core_validated [of d t] sheets_valid_validated [of d t]
  by (auto simp: json_load_def Let_def core_zombie sheets_valid_cong
      [of "mark_zombie_detected _ t (validated t d)" "validated t d"])

lemma json_load_ok:
  assumes good: "good_store safe_id s" and ld: "json_load kill t j s = Some c"
  shows "sheets_valid c \<and> safe_id (cp_job_id c) = safe_id j"
proof -
  obtain d where d: "dget s (safe_id j) = Some d" using ld by (auto simp: json_load_def)
  then have "sheets_valid d" "safe_id (cp_job_id d) = safe_id j"
    using good by (auto simp: good_store_def)
  moreover obtain c0 where "json_load kill t j s = Some c0" "core c0 = core d" "sheets_valid c0"
    using json_load_core [OF \<open>sheets_valid d\<close> d] by blast
  ultimately show ?thesis using ld by (metis core_sel(6) option.inject)
qed

lemma json_saved:
  assumes "good_store safe_id s" and "json_load kill t j s = Some c"
    and "mark_by_status n st m t c = (Inr (), c')" and "sheets_valid c'"
  shows "good_store safe_id (json_save t c' s)"
    and "dget (json_save t c' s) (safe_id j) = Some (dumped (c'\<lparr>cp_updated_at := t\<rparr>))"
    and "sheets_valid (dumped (c'\<lparr>cp_updated_at := t\<rparr>))"
proof -
  show v: "sheets_valid (dumped (c'\<lparr>cp_updated_at := t\<rparr>))"
    using assms(4) by (intro dumped_sheets_valid) simp
  from good_store_dset [OF assms(1) v] show "good_store safe_id (json_save t c' s)"
    by (simp add: json_save_def)
  show "dget (json_save t c' s) (safe_id j) = Some (dumped (c'\<lparr>cp_updated_at := t\<rparr>))"
    using json_load_ok [OF assms(1,2)] mark_by_status_job_id [of n st m t c] assms(3)
    by (simp add: json_save_def)
qed

interpretation json: state_backend safe_id "json_load kill" json_save "json_mark kill" "good_store safe_id"
  core core_mark for kill
proof
  fix s :: doc_store and t u j i c c' n st m
  show "good_store safe_id s \<Longrightarrow> json_load kill t j s = Some c \<Longrightarrow>
      sheets_valid c \<and> safe_id (cp_job_id c) = safe_id j"
    by (rule json_load_ok)
  show "map_option core (json_load kill t j s) = map_option core (json_load kill u j s)"
    if good: "good_store safe_id s"
  proof (cases "dget s (safe_id j)")
    case None
    then show ?thesis by (simp add: json_load_def)
  next
    case (Some d)
    then have "sheets_valid d" using good by (auto simp: good_store_def)
    from json_load_core [OF this Some, of kill t] json_load_core [OF this Some, of kill u]
    show ?thesis by auto
  qed
  show "good_store safe_id (json_save t c' s)"
    "map_option core (json_load kill u j (json_save t c' s)) = Some (core c')"
    if "good_store safe_id s" "json_load kill t j s = Some c" "mark_by_status n st m t c = (Inr (), c')"
      "sheets_valid c'"
    using json_saved [OF that] json_load_core [of "dumped (c'\<lparr>cp_updated_at := t\<rparr>)" "json_save t c' s" j kill u]
    by (auto simp: core_updates)
qed (auto simp: json_load_def json_save_def json_mark_def view_mark_run)

text \<open>While no process is found dead, the files agree with the rest of the view, too.\<close>

lemma json_load_living:
  "living_store kill s \<Longrightarrow> json_load kill t j s = map_option (validated t) (dget s (safe_id j))"
  by (cases "dget s (safe_id j)") (auto simp: json_load_def living_store_def living_alive Let_def)

interpretation living_json: state_backend safe_id "json_load kill" json_save "json_mark kill"
  "living_store kill" client_view view_mark for kill
proof
  fix s :: doc_store and t u j i c c' n st m
  show "living_store kill s \<Longrightarrow> json_load kill t j s = Some c \<Longrightarrow>
      sheets_valid c \<and> safe_id (cp_job_id c) = safe_id j"
    by (rule json_load_ok) (simp_all add: living_store_def)
  show "living_store kill s \<Longrightarrow>
      map_option client_view (json_load kill t j s) = map_option client_view (json_load kill u j s)"
    by (cases "dget s (safe_id j)") (auto simp: json_load_living living_store_def good_store_def)
  show living: "living_store kill (json_save t c' s)"
    and "map_option client_view (json_load kill u j (json_save t c' s)) = Some (client_view c')"
    if live: "living_store kill s" and ld: "json_load kill t j s = Some c"
      and run: "mark_by_status n st m t c = (Inr (), c')" and "sheets_valid c'"
  proof -
    note saved = json_saved [OF _ ld run \<open>sheets_valid c'\<close>]
    have good: "good_store safe_id s" using live by (simp add: living_store_def)
    obtain d where d: "dget s (safe_id j) = Some d" "c = validated t d"
      using ld by (auto simp: json_load_living [OF live])
    then have "living kill c" using live by (auto simp: living_store_def living_def)
    then have alive: "living kill (dumped (c'\<lparr>cp_updated_at := t\<rparr>))"
      using mark_by_status_pid [of n st m t c] run by (simp add: living_def)
    have "safe_id (cp_job_id c') = safe_id j"
      using json_load_ok [OF good ld] mark_by_status_job_id [of n st m t c] run by simp
    then have "json_save t c' s = dset s (safe_id j) (dumped (c'\<lparr>cp_updated_at := t\<rparr>))"
      by (simp add: json_save_def)
    with live alive saved(1) [OF good] show l: "living_store kill (json_save t c' s)"
      by (auto simp: living_store_def)
    show "map_option client_view (json_load kill u j (json_save t c' s)) = Some (client_view c')"
      using saved(2,3) [OF good] by (simp add: json_load_living [OF l]) (simp add: client_view_def core_updates)
  qed
qed (auto simp: json_load_def json_save_def json_mark_def view_mark_run)

text \<open>
  C22. The three backends are interchangeable for a resuming client. Take a document whose
  sheets are valid, stored under its job id in memory, in the job's row of the registry and as
  a JSON file, and any history of status updates with sheet numbers from one. Whatever is
  loaded afterwards, at whatever time and whichever processes are alive, agrees on the sheets,
  the watermark, the current sheet and whether the job is closed; memory and registry also
  agree on the status, the process and the error message of the job, and the JSON file does
  unless the process of the document is found dead on the way (it then reads as paused). All
  of it is what the marks make of the original document, and all three offer the same next
  sheet. The times of the job are not compared.
\<close>

theorem backends_agree:
  assumes "sheets_valid c" and "numbered cs" and "j = cp_job_id c"
  shows "(\<exists>cm cr cj.
      memory_load j (run_calls memory_mark j cs [(j, c)]) = Some cm \<and>
      registry_load t j (run_calls registry_mark j cs [(j, Some (dumped c))]) = Some cr \<and>
      json_load kill u j (run_calls (json_mark kill) j cs [(safe_id j, dumped c)]) = Some cj \<and>
      client_view cm = calls_view view_mark cs (client_view c) \<and> client_view cr = client_view cm \<and>
      core cj = core cm \<and>
      ((\<forall>p. cp_pid c = Some p \<longrightarrow> (\<forall>t. kill t p \<noteq> NoProcess)) \<longrightarrow> client_view cj = client_view cm)) \<and>
    (memory_next_sheet j (run_calls memory_mark j cs [(j, c)]) =
      registry_next_sheet t j (run_calls registry_mark j cs [(j, Some (dumped c))])) \<and>
    (json_next_sheet kill u j (run_calls (json_mark kill) j cs [(safe_id j, dumped c)]) =
      registry_next_sheet t j (run_calls registry_mark j cs [(j, Some (dumped c))]))"
proof -
  have dv: "sheets_valid (dumped c)" using assms(1) by (rule dumped_sheets_valid)
  have goods: "good_store id [(j, c)]" "good_rows [(j, Some (dumped c))]"
    "good_store safe_id [(safe_id j, dumped c)]"
    using assms(1,3) dv by (simp_all add: good_store_def good_rows_def)
  obtain cm where m: "memory_load j (run_calls memory_mark j cs [(j, c)]) = Some cm"
    "client_view cm = calls_view view_mark cs (client_view c)"
    using memory.load_after [OF goods(1) assms(2), where j = j and v = "client_view c"]
    by (auto simp: memory_load_def)
  obtain cr where r: "registry_load t j (run_calls registry_mark j cs [(j, Some (dumped c))]) = Some cr"
    "client_view cr = calls_view view_mark cs (client_view c)"
    using registry.load_after [OF goods(2) assms(2), where j = j and u = t and v = "client_view c"] dv
    by (auto simp: registry_load_def load_checkpoint_def)
  obtain c0 where "json_load kill u j [(safe_id j, dumped c)] = Some c0" "core c0 = core c"
    using json_load_core [OF dv, of "[(safe_id j, dumped c)]" j kill u] by auto
  then obtain cj where js: "json_load kill u j (run_calls (json_mark kill) j cs [(safe_id j, dumped c)]) = Some cj"
    "core cj = calls_view core_mark cs (core c)"
    using json.load_after [OF goods(3) assms(2), where j = j and u = u and v = "core c"] by auto
  have alive: "client_view cj = calls_view view_mark cs (client_view c)"
    if "\<forall>p. cp_pid c = Some p \<longrightarrow> (\<forall>t. kill t p \<noteq> NoProcess)"
  proof -
    have l: "living_store kill [(safe_id j, dumped c)]"
      using goods(3) that by (simp add: living_store_def living_def)
    from living_json.load_after [OF l assms(2), where j = j and u = u and v = "client_view c"] js(1) dv
    show ?thesis by (auto simp: json_load_living [OF l])
  qed
  have "core cm = core cr" "core cm = calls_view core_mark cs (core c)"
    using m(2) r(2) calls_view_core [of cs "client_view c"] by (metis client_view_def fst_conv)+
  then have cores: "core cr = core cm" "core cj = core cm" using js(2) by simp_all
  have "get_next_sheet cr = get_next_sheet cm" "get_next_sheet cj = get_next_sheet cm"
    by (simp_all add: core_next_sheet cores)
  with m r js alive cores show ?thesis
    by (simp add: memory_next_sheet_def registry_next_sheet_def json_next_sheet_def)
qed

definition two_sheet_job :: checkpoint where
  "two_sheet_job = new_checkpoint ''my job'' 2 0"

theorem backends_agree_witness:
  "memory_next_sheet ''my job'' (run_calls memory_mark ''my job''
      [(1, IN_PROGRESS, None, 1), (1, COMPLETED, None, 2)] [(''my job'', two_sheet_job)]) =
   registry_next_sheet 9 ''my job'' (run_calls registry_mark ''my job''
      [(1, IN_PROGRESS, None, 1), (1, COMPLETED, None, 2)] [(''my job'', Some (dumped two_sheet_job))])"
  by (rule backends_agree [THEN conjunct2, THEN conjunct1])
    (simp_all add: two_sheet_job_def new_checkpoint_def sheets_valid_def keyed_def numbered_def)

text \<open>Where they differ: an unknown job, two ids with one file name, a refused number.\<close>

lemma unknown_job_differs:
  "memory_next_sheet j [] = None \<and> registry_next_sheet t j [] = Some 1 \<and>
   json_next_sheet kill t j [] = Some 1 \<and> registry_first_next_sheet t j [] = None"
  by (simp add: memory_next_sheet_def memory_load_def registry_next_sheet_def registry_load_def load_checkpoint_def
      json_next_sheet_def json_load_def registry_first_next_sheet_def)

text \<open>A running document whose process is gone reads as paused from its file only.\<close>

definition orphaned_job :: checkpoint where
  "orphaned_job = (new_checkpoint ''job'' 2 0)\<lparr>cp_status := JOB_RUNNING, cp_pid := Some 7\<rparr>"

lemma dead_process_differs:
  "map_option cp_status (memory_load ''job'' [(''job'', orphaned_job)]) = Some JOB_RUNNING"
  "map_option cp_status (registry_load 9 ''job'' [(''job'', Some (dumped orphaned_job))]) = Some JOB_RUNNING"
  "map_option (\<lambda>c. (cp_status c, cp_pid c)) (json_load (\<lambda>t p. NoProcess) 9 ''job'' [(''job'', dumped orphaned_job)]) =
     Some (JOB_PAUSED, None)"
  by code_simp+

text \<open>Saving to the registry for a job without a row stores nothing and reports nothing.\<close>

lemma registry_save_needs_row: "dget s (cp_job_id c) = None \<Longrightarrow> registry_save c s = s"
  by (simp add: registry_save_def save_checkpoint_def)

lemma json_ids_collide: "safe_id ''a b'' = safe_id ''a/b''"
  by code_simp

text \<open>
  The offline view counts on from the watermark, so after an interrupted or failed sheet,
  or a completion out of order, it offers a completed sheet.
\<close>

definition out_of_order_job :: checkpoint where
  "out_of_order_job = run_marks [(Started 2, 1), (Completed 2 True None None, 2),
     (Started 3, 3), (Completed 3 True None None, 4), (Persisted, 5)] (new_checkpoint ''job'' 3 0)"

lemma persisted_watermark_misleads:
  "registry_first_next_sheet 9 ''job'' (registry_save out_of_order_job [(''job'', None)]) = Some 3"
  "registry_next_sheet 9 ''job'' (registry_save out_of_order_job [(''job'', None)]) = None"
  "map_option doc_status (job_sheet out_of_order_job 3) = Some COMPLETED"
  "job_sheet out_of_order_job 1 = None"
  by code_simp+

end
