(* ===== verification/Recovery.thy ===== *)
theory Recovery
  imports Baton_Terminal State_Backends
begin

section \<open>Resuming a job\<close>

text \<open>
  How a job comes back from its checkpoint: \<open>_reset_sheets_for_resume\<close> of
  \<open>daemon/manager.py\<close> reopens the unfinished sheets of a failed job, and
  \<open>BatonAdapter.recover_job\<close> of \<open>daemon/baton/adapter.py\<close> rebuilds the baton's sheets from
  the document and registers the job anew. The baton writes to the sheet documents it is
  given, so its sheets are the scheduling parts of those documents. Also the first
  registration of a job (\<open>register_job\<close>) and the conversions it uses.
\<close>

subsection \<open>Sheet entities\<close>

text \<open>The fields of \<open>core/sheet.py\<close>'s \<open>Sheet\<close> that scheduling reads.\<close>

record sheet_spec =
  ss_num :: int
  ss_instrument_name :: string
  ss_instrument_config :: inst_config
  ss_instrument_fallbacks :: "string list"
  ss_instrument_fallback_configs :: "inst_config list"
  ss_instrument_resolution :: "string option"
  ss_balance_chain :: bool
  ss_timeout_seconds :: rat

definition spec_model :: "sheet_spec \<Rightarrow> string option" where
  "spec_model sp = cfg_model (ss_instrument_config sp)"

text \<open>\<open>sheets_to_execution_states\<close>: fresh states for a job without live sheets.\<close>

definition execution_state :: "int \<Rightarrow> int \<Rightarrow> sheet_spec \<Rightarrow> sheet_doc" where
  "execution_state retries completions sp =
     (let d = new_doc (ss_num sp);
          s = (sd_sheet d)\<lparr>instrument_name := Some (ss_instrument_name sp), model := spec_model sp,
                 max_retries := retries, max_completion := completions,
                 fallback_chain := ss_instrument_fallbacks sp,
                 fallback_configs := ss_instrument_fallback_configs sp,
                 balance_chain := ss_balance_chain sp,
                 primary_config := Some (ss_instrument_config sp)\<rparr>
      in d\<lparr>sd_sheet := remember_primary_identity s,
           sd_instrument_resolution := ss_instrument_resolution sp,
           sd_sheet_timeout_seconds := ss_timeout_seconds sp\<rparr>)"

definition sheets_to_execution_states ::
  "int \<Rightarrow> int \<Rightarrow> sheet_spec list \<Rightarrow> (int, sheet_doc) dict" where
  "sheets_to_execution_states retries completions specs =
     fold (\<lambda>sp d. dset d (ss_num sp) (execution_state retries completions sp)) specs []"

definition KEEP_IDENTITY :: "sheet_status list" where
  "KEEP_IDENTITY = [COMPLETED, SKIPPED, CANCELLED]"

text \<open>\<open>register_job\<close> on the manager's live sheets: enriched in place.\<close>

definition enrich_live :: "int \<Rightarrow> int \<Rightarrow> sheet_spec \<Rightarrow> sheet_doc \<Rightarrow> sheet_doc" where
  "enrich_live retries completions sp d =
     (let d1 = (if doc_status d \<notin> set KEEP_IDENTITY
                then on_sheet (\<lambda>s. remember_primary_identity
                       (s\<lparr>instrument_name := Some (ss_instrument_name sp), model := spec_model sp,
                          instrument_model := spec_model sp\<rparr>)) d
                else d)
      in (on_sheet (\<lambda>s. s\<lparr>max_retries := retries, max_completion := completions,
            fallback_chain := ss_instrument_fallbacks sp,
            fallback_configs := ss_instrument_fallback_configs sp,
            primary_config := Some (ss_instrument_config sp)\<rparr>) d1)
         \<lparr>sd_sheet_timeout_seconds := ss_timeout_seconds sp\<rparr>)"

definition enrich_all ::
  "int \<Rightarrow> int \<Rightarrow> sheet_spec list \<Rightarrow> (int, sheet_doc) dict \<Rightarrow> (int, sheet_doc) dict" where
  "enrich_all retries completions specs lv =
     fold (\<lambda>sp d. dadj d (ss_num sp) (enrich_live retries completions sp)) specs lv"

subsection \<open>Resetting sheets for a resume\<close>

datatype daemon_status =
    DQueued | DRunning | DCompleted | DPaused | DPausedAtChain | DFailed | DCancelled | DPending

definition RESUME_PRESERVE :: "daemon_status list" where
  "RESUME_PRESERVE = [DPaused, DPausedAtChain]"

definition is_cascade_skip :: "sheet \<Rightarrow> bool" where
  "is_cascade_skip s \<longleftrightarrow> status s = SKIPPED \<and> error_code s \<noteq> None"

definition resets_on_resume :: "daemon_status option \<Rightarrow> int option \<Rightarrow> sheet \<Rightarrow> bool" where
  "resets_on_resume pre from_sheet s =
     (case from_sheet of
        Some k \<Rightarrow> sheet_num s \<ge> k \<and> status s \<noteq> PENDING
      | None \<Rightarrow>
          (case pre of
             None \<Rightarrow> False
           | Some st \<Rightarrow> if st \<in> set RESUME_PRESERVE then False
                        else status s = FAILED \<or> is_cascade_skip s))"

definition reset_sheets_for_resume ::
  "daemon_status option \<Rightarrow> int option \<Rightarrow> checkpoint \<Rightarrow> nat \<times> checkpoint" where
  "reset_sheets_for_resume pre from_sheet c =
     (length (filter (\<lambda>d. resets_on_resume pre from_sheet (sd_sheet d)) (dvals (cp_sheets c))),
      c\<lparr>cp_sheets := dmap (\<lambda>_ d. if resets_on_resume pre from_sheet (sd_sheet d)
                                 then on_sheet reset_for_retry d else d) (cp_sheets c)\<rparr>)"

text \<open>The manager's edits of the document before it hands it over.\<close>

definition reopen_job :: "rat \<Rightarrow> checkpoint \<Rightarrow> checkpoint" where
  "reopen_job t c = c\<lparr>cp_started_at := Some t, cp_completed_at := None\<rparr>"

subsection \<open>Rebuilding the sheets\<close>

definition RESET_ON_RESTART :: "sheet_status list" where
  "RESET_ON_RESTART = [IN_PROGRESS, DISPATCHED, WAITING, RETRY_SCHEDULED]"

definition recovered_status :: "sheet_doc option \<Rightarrow> sheet_status" where
  "recovered_status cp = (case cp of
      None \<Rightarrow> PENDING
    | Some d \<Rightarrow> if doc_status d \<in> set RESET_ON_RESTART then PENDING else doc_status d)"

definition recovered_attempts :: "sheet_doc option \<Rightarrow> int \<times> int" where
  "recovered_attempts cp = (case cp of
      None \<Rightarrow> (0, 0)
    | Some d \<Rightarrow> (attempt_count (sd_sheet d), completion_attempts (sd_sheet d)))"

text \<open>
  The state a sheet is rebuilt on: the live document if the manager passes its documents
  (\<open>shared\<close>), else a new one.
\<close>

definition recovery_base :: "bool \<Rightarrow> sheet_doc option \<Rightarrow> sheet_spec \<Rightarrow> sheet_doc" where
  "recovery_base shared cp sp =
     (case cp of
        Some d \<Rightarrow> if shared then d else
          on_sheet (\<lambda>s. s\<lparr>instrument_name := Some (ss_instrument_name sp), model := spec_model sp\<rparr>)
            (new_doc (ss_num sp))
      | None \<Rightarrow>
          on_sheet (\<lambda>s. s\<lparr>instrument_name := Some (ss_instrument_name sp), model := spec_model sp\<rparr>)
            (new_doc (ss_num sp)))"

definition recover_sheet ::
  "int \<Rightarrow> int \<Rightarrow> bool \<Rightarrow> sheet_doc option \<Rightarrow> sheet_spec \<Rightarrow> sheet_doc" where
  "recover_sheet retries completions shared cp sp =
     (let st = recovered_status cp; (normal, completion) = recovered_attempts cp;
          d0 = recovery_base shared cp sp;
          d1 = (if st \<notin> set KEEP_IDENTITY
                then (on_sheet (\<lambda>s. s\<lparr>instrument_name := Some (ss_instrument_name sp)\<rparr>) d0)
                     \<lparr>sd_instrument_resolution := ss_instrument_resolution sp\<rparr>
                else d0);
          d2 = (if st \<notin> set KEEP_IDENTITY
                then on_sheet (\<lambda>s. s\<lparr>model := spec_model sp, instrument_model := spec_model sp\<rparr>) d1
                else d1);
          d3 = (on_sheet (\<lambda>s. s\<lparr>primary_identity :=
                    Some \<lparr>id_name = ss_instrument_name sp, id_model = spec_model sp\<rparr>,
                  max_retries := retries, max_completion := completions,
                  fallback_chain := ss_instrument_fallbacks sp,
                  fallback_configs := ss_instrument_fallback_configs sp,
                  primary_config := Some (ss_instrument_config sp),
                  status := st, normal_attempts := normal, completion_attempts := completion\<rparr>) d2)
               \<lparr>sd_sheet_timeout_seconds := ss_timeout_seconds sp\<rparr>
      in if st \<notin> {COMPLETED, SKIPPED, CANCELLED}
         then on_sheet (\<lambda>s. s\<lparr>current_instrument_index := 0, instrument_fallback_history := [],
                fallback_attempts := []\<rparr>) d3
         else d3)"

definition recover_sheets ::
  "int \<Rightarrow> int \<Rightarrow> bool \<Rightarrow> checkpoint \<Rightarrow> sheet_spec list \<Rightarrow> (int, sheet_doc) dict" where
  "recover_sheets retries completions shared c specs =
     fold (\<lambda>sp d. dset d (ss_num sp)
       (recover_sheet retries completions shared (job_sheet c (ss_num sp)) sp)) specs []"

subsection \<open>The adapter\<close>

text \<open>The part of \<open>BatonAdapter\<close> that registration touches besides prompt-rendering caches.\<close>

record adapter =
  ad_baton :: baton
  ad_event_generation_counter :: int

definition next_event_generation :: "adapter \<Rightarrow> int \<times> adapter" where
  "next_event_generation a =
     (let g = ad_event_generation_counter a + 1 in (g, a\<lparr>ad_event_generation_counter := g\<rparr>))"

record recovery_options =
  ro_max_cost_usd :: "rat option"
  ro_max_sheet_cost_usd :: "rat option"
  ro_max_retries :: int
  ro_max_completion :: int
  ro_completion_threshold_percent :: rat
  ro_escalation_enabled :: bool
  ro_self_healing_enabled :: bool
  ro_parallel_enabled :: "bool option"
  ro_parallel_max_concurrent :: "int option"
  ro_parallel_fail_fast :: bool
  ro_pacing_seconds :: rat
  ro_stagger_delay_ms :: int
  ro_loops :: "(span, loop_config) dict"
  ro_triggers :: "(span, trigger_config) dict"
  ro_flow_variables :: jdict

definition job_options_of :: "recovery_options \<Rightarrow> flow_state option \<Rightarrow> int \<Rightarrow> job_options" where
  "job_options_of ro fs g =
     \<lparr>jo_escalation_enabled = ro_escalation_enabled ro,
      jo_self_healing_enabled = ro_self_healing_enabled ro,
      jo_pacing_seconds = ro_pacing_seconds ro,
      jo_max_concurrent = (if ro_parallel_enabled ro = Some True then ro_parallel_max_concurrent ro
        else if ro_parallel_enabled ro = Some False then Some 1 else None),
      jo_fail_fast = (if ro_parallel_enabled ro = Some True then ro_parallel_fail_fast ro else False),
      jo_stagger_delay_ms =
        (if ro_parallel_enabled ro \<noteq> Some False then ro_stagger_delay_ms ro else 0),
      jo_completion_threshold_percent = ro_completion_threshold_percent ro,
      jo_event_generation = Some g, jo_loops = ro_loops ro, jo_triggers = ro_triggers ro,
      jo_flow_state = fs, jo_flow_variables = ro_flow_variables ro\<rparr>"

definition set_cost_limits :: "string \<Rightarrow> recovery_options \<Rightarrow> sheet_spec list \<Rightarrow> baton \<Rightarrow> baton" where
  "set_cost_limits j ro specs b =
     (let b1 = (case ro_max_cost_usd ro of None \<Rightarrow> b | Some c \<Rightarrow> set_job_cost_limit j c b)
      in case ro_max_sheet_cost_usd ro of
           None \<Rightarrow> b1
         | Some c \<Rightarrow> fold (\<lambda>sp. set_sheet_cost_limit j (ss_num sp) c) specs b1)"

text \<open>Running a baton action on the adapter.\<close>

definition on_baton :: "(baton, 'a) act \<Rightarrow> (adapter, 'a) act" where
  "on_baton m = (\<lambda>a. case m (ad_baton a) of (r, b) \<Rightarrow> (r, a\<lparr>ad_baton := b\<rparr>))"

definition sheet_parts :: "(int, sheet_doc) dict \<Rightarrow> sheets" where
  "sheet_parts d = dmap (\<lambda>_. sd_sheet) d"

definition adapter_register_job ::
  "env \<Rightarrow> string \<Rightarrow> sheet_spec list \<Rightarrow> (int, int list) dict \<Rightarrow> recovery_options
   \<Rightarrow> (int, sheet_doc) dict option \<Rightarrow> flow_state option \<Rightarrow> (adapter, unit) act" where
  "adapter_register_job ev j specs deps ro lv fs =
     (let states = (case lv of
            Some d \<Rightarrow> enrich_all (ro_max_retries ro) (ro_max_completion ro) specs d
          | None \<Rightarrow> sheets_to_execution_states (ro_max_retries ro) (ro_max_completion ro) specs)
      in bnd (pure_op next_event_generation) (\<lambda>g.
         thn (on_baton (register_job ev j (sheet_parts states) deps (job_options_of ro fs g)))
        (thn (on_baton (modify (set_cost_limits j ro specs)))
             (on_baton (modify enqueue_dispatch_retry)))))"

definition recover_job ::
  "env \<Rightarrow> string \<Rightarrow> sheet_spec list \<Rightarrow> (int, int list) dict \<Rightarrow> checkpoint \<Rightarrow> recovery_options
   \<Rightarrow> bool \<Rightarrow> (adapter, unit) act" where
  "recover_job ev j specs deps c ro shared =
     (let states = recover_sheets (ro_max_retries ro) (ro_max_completion ro) shared c specs
      in thn (on_baton (modify (deregister_job j)))
        (bnd (pure_op next_event_generation) (\<lambda>g.
         thn (on_baton (register_job ev j (sheet_parts states) deps
                (job_options_of ro (Some (cp_flow c)) g)))
        (thn (on_baton (modify (set_cost_limits j ro specs)))
             (on_baton (modify enqueue_dispatch_retry))))))"

end
