(* ===== verification/Recovery_Safe.thy ===== *)
theory Recovery_Safe
  imports Recovery
begin

section \<open>A recovered job waits for nothing that is lost\<close>

text \<open>
  The musicians, retry timers and rate-limit timers of a job die with the conductor. The
  lemmas show that recovery (the operations of the theory \<open>Recovery\<close>) leaves no sheet in a
  status that only such a lost task could end, also through the failure propagation and the
  flow engine's settling that registration runs, and what it does to each sheet.
\<close>

subsection \<open>At rest\<close>

definition in_flight :: "sheet_status \<Rightarrow> bool" where
  "in_flight st \<longleftrightarrow> st = DISPATCHED \<or> st = IN_PROGRESS \<or> st = WAITING \<or> st = RETRY_SCHEDULED"

text \<open>The identity of a registration, and a registered job none of whose sheets is in flight.\<close>

definition registration :: "job \<Rightarrow> int \<times> int option \<times> (int, int list) dict \<times> int list" where
  "registration jb = (j_registration_token jb, j_event_generation jb, j_dependencies jb,
     dkeys (j_sheets jb))"

definition landed :: "sheets \<Rightarrow> bool" where
  "landed sh \<longleftrightarrow> (\<forall>n s. dget sh n = Some s \<longrightarrow> \<not> in_flight (status s))"

definition at_rest :: "string \<Rightarrow> int \<times> int option \<times> (int, int list) dict \<times> int list \<Rightarrow> baton \<Rightarrow> bool" where
  "at_rest j r b \<longleftrightarrow>
     (\<exists>jb. get_job b j = Some jb \<and> registration jb = r \<and> landed (j_sheets jb))"

definition starts_no_flight :: "sheet \<Rightarrow> sheet \<Rightarrow> bool" where
  "starts_no_flight s s' \<longleftrightarrow> (in_flight (status s') \<longrightarrow> status s' = status s)"

lemma in_flight_simps [simp]:
  "\<not> in_flight PENDING" "\<not> in_flight READY" "\<not> in_flight FERMATA" "\<not> in_flight COMPLETED"
  "\<not> in_flight FAILED" "\<not> in_flight SKIPPED" "\<not> in_flight CANCELLED"
  by (simp_all add: in_flight_def)

interpretation no_flight: sheet_relation starts_no_flight
  by unfold_locales (auto simp: starts_no_flight_def reset_for_flow_def Let_def
      clear_dispatch_block_def skip_sheet_def condition_failed_def restore_primary_identity_def
      split: option.split)

lemma at_rest_same: "same_jobs b b' \<Longrightarrow> at_rest j r b' = at_rest j r b"
  by (simp add: at_rest_def same_jobs_get)

lemma at_rest_upd_job:
  assumes "at_rest j r b"
    and "\<And>jb. get_job b k = Some jb \<Longrightarrow> registration (f jb) = registration jb \<and>
      (landed (j_sheets jb) \<longrightarrow> landed (j_sheets (f jb)))"
  shows "at_rest j r (upd_job k f b)"
  using assms by (auto simp: at_rest_def)

abbreviation rests ::
  "string \<Rightarrow> int \<times> int option \<times> (int, int list) dict \<times> int list \<Rightarrow> (baton, 'a) act \<Rightarrow> bool" where
  "rests j r m \<equiv> evolves (keeps (at_rest j r)) m"

lemma rests_same: "evolves same_jobs m \<Longrightarrow> rests j r m"
  by (auto simp: evolves_def keeps_def dest: at_rest_same)

lemma rests_modify: "(\<And>b. same_jobs b (f b)) \<Longrightarrow> rests j r (modify f)"
  by (intro rests_same same_jobs.evo_modify)

lemma rests_dirty: "rests j r set_dirty"
  unfolding set_dirty_def by (rule rests_modify) simp

lemma rests_job_fields:
  assumes "\<And>jb. registration (f jb) = registration jb \<and> j_sheets (f jb) = j_sheets jb"
  shows "rests j r (modify (upd_job k f))"
  by (intro keeping.evo_modify) (simp add: keeps_def at_rest_upd_job assms)

lemma rests_put:
  assumes "\<And>s. starts_no_flight s (f s)"
  shows "rests j r (put_state k n f)"
proof -
  have "landed (dadj sh n f)" if "landed sh" for sh
    unfolding landed_def
  proof (intro allI impI)
    fix m s assume s: "dget (dadj sh n f) m = Some s"
    show "\<not> in_flight (status s)"
    proof (cases "m = n")
      case True
      then obtain s0 where s0: "dget sh n = Some s0" "s = f s0" using s by auto
      then have "\<not> in_flight (status s0)" using that by (simp add: landed_def)
      then show ?thesis using assms [of s0] s0(2) by (auto simp: starts_no_flight_def)
    next
      case False
      then show ?thesis using s that by (simp add: landed_def)
    qed
  qed
  then show ?thesis
    unfolding put_state_def upd_sheet_def
    by (intro keeping.evo_modify) (simp add: keeps_def at_rest_upd_job registration_def)
qed

lemma rests_with_sheet: "(\<And>s. rests j r (f s)) \<Longrightarrow> rests j r (with_sheet k n d f)"
  unfolding with_sheet_def by (intro keeping.evo_rules)

lemma rests_with_job: "(\<And>jb. rests j r (f jb)) \<Longrightarrow> rests j r (with_job k d f)"
  unfolding with_job_def by (intro keeping.evo_rules)

lemma landed_sheetwise:
  assumes "sheetwise starts_no_flight (en, sh) (en', sh')" and "landed sh"
  shows "landed sh'" and "dkeys sh' = dkeys sh"
proof -
  show keys: "dkeys sh' = dkeys sh" using assms(1) by (simp add: sheetwise_def)
  show "landed sh'"
    unfolding landed_def
  proof (intro allI impI)
    fix n s assume s: "dget sh' n = Some s"
    have "n \<in> set (dkeys sh)" using dget_in_dkeys [OF s] unfolding keys .
    then obtain s0 where s0: "dget sh n = Some s0" using dget_None_iff [of sh n] by blast
    then obtain s1 where "dget sh' n = Some s1" "starts_no_flight s0 s1"
      using assms(1) unfolding sheetwise_def by auto
    with s have "starts_no_flight s0 s" by simp
    then show "\<not> in_flight (status s)" using s0 assms(2) by (auto simp: landed_def starts_no_flight_def)
  qed
qed

lemma rests_with_flow:
  assumes "evolves (sheetwise starts_no_flight) m"
  shows "rests j r (with_flow k d m)"
  unfolding evolves_def keeps_def
proof (intro allI impI)
  fix b assume rest: "at_rest j r b"
  show "at_rest j r (snd (with_flow k d m b))"
  proof (cases "get_job b k")
    case None
    then show ?thesis using rest by (simp add: with_flow_def)
  next
    case (Some jb)
    show ?thesis
    proof (cases "j_flow jb")
      case None
      then show ?thesis using Some rest by (simp add: with_flow_def)
    next
      case (Some en)
      obtain x en' sh' where m: "m (en, j_sheets jb) = (x, (en', sh'))" by (metis surj_pair)
      have rel: "sheetwise starts_no_flight (en, j_sheets jb) (en', sh')"
        using evolvesD [OF assms, of "(en, j_sheets jb)"] m by simp
      then have "dkeys sh' = dkeys (j_sheets jb)" by (simp add: sheetwise_def)
      then have "at_rest j r (upd_job k (\<lambda>jb. jb\<lparr>j_flow := Some en', j_sheets := sh'\<rparr>) b)"
        using landed_sheetwise(1) [OF rel] \<open>get_job b k = Some jb\<close>
        by (intro at_rest_upd_job [OF rest]) (simp add: registration_def)
      then show ?thesis using Some \<open>get_job b k = Some jb\<close> m by (simp add: with_flow_def)
    qed
  qed
qed

lemma rests_flow_state: "rests j r (modify (upd_flow_state k f))"
  unfolding upd_flow_state_def by (rule rests_job_fields) (simp add: registration_def)

subsection \<open>Through the propagation of failures\<close>

definition rest_write ::
  "string \<Rightarrow> int \<times> int option \<times> (int, int list) dict \<times> int list \<Rightarrow> terminal_write \<Rightarrow> bool" where
  "rest_write j r write \<longleftrightarrow> (\<forall>k n st oc. \<not> in_flight st \<longrightarrow> rests j r (write k n st oc))"

lemma rest_writeD: "rest_write j r write \<Longrightarrow> \<not> in_flight st \<Longrightarrow> rests j r (write k n st oc)"
  by (simp add: rest_write_def)

lemma no_flight_fields [simp]:
  "starts_no_flight s (clear_dispatch_block s)" "starts_no_flight s (mark_blocked m s)"
  "\<not> in_flight st \<Longrightarrow> starts_no_flight s (s\<lparr>status := st\<rparr>)"
  by (simp_all add: starts_no_flight_def clear_dispatch_block_def mark_blocked_def)

lemma rests_skip_current:
  assumes "rest_write j r write"
  shows "rests j r (skip_current write k n reason gen epoch)"
  unfolding skip_current_def
  by (intro rests_with_sheet keeping.evo_if keeping.evo_ret keeping.evo_thn
      rest_writeD [OF assms] rests_put
      rests_dirty rests_modify) simp_all

lemma rests_any_of: "(\<And>m. m \<in> set ms \<Longrightarrow> rests j r m) \<Longrightarrow> rests j r (any_of ms)"
  by (induction ms) (auto intro!: keeping.evo_rules)

lemma rests_propagate_with:
  assumes w: "rest_write j r write"
  shows "rests j r (propagate_with write k failed)"
proof -
  have one: "rests j r (fail_fast_one write k failed n)" for n
    unfolding fail_fast_one_def
    by (intro rests_with_sheet keeping.evo_rules rests_skip_current w rests_put) simp
  have visit: "rests j r (visit_dependent write k n)" for n
    unfolding visit_dependent_def
    by (intro rests_with_job keeping.evo_rules rests_skip_current w rests_put) simp
  have walk: "rests j r (walk (visit_dependent write k) deps queue seen)" for deps queue seen
    unfolding evolves_def
    using walk_evolves [OF keeping.evolution_axioms, where step = "visit_dependent write k"] visit
    by blast
  have ff: "rests j r (any_of (map (fail_fast_one write k failed) ns))" for ns
    by (rule rests_any_of) (auto intro: one)
  show ?thesis unfolding propagate_with_def
    by (intro rests_with_job keeping.evo_bnd keeping.evo_if ff walk keeping.evo_ret keeping.evo_whn
        rests_modify) simp
qed

lemma same_jobs_dirty: "same_jobs b (dirty b)"
  by simp

lemma rests_pause_if: "rests j r (modify (pause_if_flow_paused k))"
proof (intro keeping.evo_modify)
  fix b
  have "at_rest j r (upd_job k (\<lambda>jb. jb\<lparr>j_paused := True\<rparr>) b)" if "at_rest j r b"
    by (rule at_rest_upd_job [OF that]) (simp add: registration_def)
  then have "at_rest j r (dirty (upd_job k (\<lambda>jb. jb\<lparr>j_paused := True\<rparr>) b))" if "at_rest j r b"
    using at_rest_same [OF same_jobs_dirty, of j r "upd_job k (\<lambda>jb. jb\<lparr>j_paused := True\<rparr>) b"] that
    by simp
  then show "keeps (at_rest j r) b (pause_if_flow_paused k b)"
    by (simp add: keeps_def pause_if_flow_paused_def split: option.split)
qed

lemma rests_on_sheet_terminal:
  "rest_write j r write \<Longrightarrow> rests j r (on_sheet_terminal_with ev write k n oc)"
  unfolding on_sheet_terminal_with_def
  by (intro rests_with_job keeping.evo_rules rests_with_flow no_flight.on_terminal rests_modify
      rests_pause_if rests_propagate_with) simp_all

lemma rests_release: "rests j r (release_escalation_pause k n)"
  unfolding release_escalation_pause_def Let_def
  by (intro rests_with_job keeping.evo_rules rests_flow_state)

lemma rest_set_terminal_in: "rest_write j r (set_terminal_in ev frames)"
proof (induction frames)
  case 0
  show ?case unfolding rest_write_def set_terminal_in.simps by (simp add: keeping.evo_throw)
next
  case (Suc frames)
  show ?case
    unfolding rest_write_def set_terminal_in.simps set_terminal_with_def
    by (intro allI impI rests_with_sheet keeping.evo_rules rests_release rests_put rests_dirty
        rests_on_sheet_terminal Suc) simp
qed

lemma rests_propagate: "rests j r (propagate_failure_to_dependents ev k n)"
  unfolding propagate_failure_to_dependents_def set_sheet_terminal_status_def
  by (rule rests_propagate_with) (rule rest_set_terminal_in)

subsection \<open>Through registration\<close>

lemma rests_repropagate: "rests j r (repropagate ev k)"
  unfolding repropagate_def by (intro keeping.evo_rules rests_with_sheet rests_propagate)

lemma register_job_run:
  assumes "get_job b j = None"
  shows "register_job ev j sh deps o' b =
    thn (repropagate ev j)
      (bnd (with_flow j False (settle (ev_flow ev))) (\<lambda>changed. whn changed set_dirty))
    (dirty (let b1 = auto_register_instruments sh b; token = b_registration_token_counter b + 1
       in b1\<lparr>b_registration_token_counter := token,
             b_jobs := dset (b_jobs b1) j (new_job ev sh deps o' token (new_flow ev j sh o'))\<rparr>))"
  using assms by (simp add: register_job_def act_simps Let_def)

lemma register_job_rests:
  assumes "get_job b j = None" and "landed sh"
  shows "at_rest j (b_registration_token_counter b + 1, jo_event_generation o', deps, dkeys sh)
    (snd (register_job ev j sh deps o' b))"
proof -
  let ?token = "b_registration_token_counter b + 1"
  let ?b = "dirty (let b1 = auto_register_instruments sh b; token = b_registration_token_counter b + 1
       in b1\<lparr>b_registration_token_counter := token,
             b_jobs := dset (b_jobs b1) j (new_job ev sh deps o' token (new_flow ev j sh o'))\<rparr>)"
  let ?r = "(?token, jo_event_generation o', deps, dkeys sh)"
  have "at_rest j ?r ?b"
    using assms(2) by (simp add: at_rest_def get_job_def Let_def dirty_def new_job_def registration_def)
  moreover have "rests j ?r (thn (repropagate ev j)
      (bnd (with_flow j False (settle (ev_flow ev))) (\<lambda>changed. whn changed set_dirty)))"
    by (intro keeping.evo_rules rests_repropagate rests_with_flow no_flight.settle rests_dirty)
  ultimately show ?thesis
    using evolvesD unfolding register_job_run [OF assms(1)] by (fastforce simp: keeps_def)
qed

lemma deregister_gone: "get_job (deregister_job j b) j = None"
  by (auto simp: deregister_job_def get_job_def Let_def dirty_def timer_cancel_opt_def
      timer_cancel_def split: option.split)

subsection \<open>Through recovery\<close>

lemma recover_sheet_status [simp]:
  "doc_status (recover_sheet retries completions shared cp sp) = recovered_status cp"
  by (simp add: recover_sheet_def Let_def split: prod.split)

lemma recovered_status_landed: "\<not> in_flight (recovered_status cp)"
  by (auto simp: recovered_status_def RESET_ON_RESTART_def in_flight_def split: option.split)

text \<open>A dictionary filled in the order of a list: which values it can hold, and the keys.\<close>

lemma dget_fold_dset:
  "dget (fold (\<lambda>x d. dset d (k x) (f x)) xs init) n = Some v \<Longrightarrow>
   dget init n = Some v \<or> (\<exists>x \<in> set xs. k x = n \<and> v = f x)"
proof (induction xs arbitrary: init)
  case (Cons x xs)
  from Cons.IH [of "dset init (k x) (f x)"] Cons.prems
  have "dget (dset init (k x) (f x)) n = Some v \<or> (\<exists>x \<in> set xs. k x = n \<and> v = f x)" by simp
  then show ?case by (auto split: if_splits)
qed simp

lemma dget_fold_dset_distinct:
  assumes "distinct (map k xs)" and "x \<in> set xs"
  shows "dget (fold (\<lambda>x d. dset d (k x) (f x)) xs init) (k x) = Some (f x)"
proof -
  have frame: "dget (fold (\<lambda>x d. dset d (k x) (f x)) ys d) n = dget d n"
    if "n \<notin> k ` set ys" for ys d n
    using that by (induction ys arbitrary: d) auto
  show ?thesis using assms
  proof (induction xs arbitrary: init)
    case (Cons y ys)
    then show ?case by (cases "x = y") (auto simp: frame)
  qed simp
qed

lemma keys_fold_dset:
  "distinct (map k xs) \<Longrightarrow> k ` set xs \<inter> set (dkeys init) = {} \<Longrightarrow>
   dkeys (fold (\<lambda>x d. dset d (k x) (f x)) xs init) = dkeys init @ map k xs"
proof (induction xs arbitrary: init)
  case (Cons x xs)
  have "dkeys (fold (\<lambda>x d. dset d (k x) (f x)) xs (dset init (k x) (f x))) =
      dkeys (dset init (k x) (f x)) @ map k xs"
    using Cons.prems by (intro Cons.IH) (auto simp: fst_dset)
  moreover have "k x \<notin> set (dkeys init)" using Cons.prems by auto
  ultimately show ?case by (simp add: dkeys_dset)
qed simp

lemma sheet_parts_simps [simp]:
  "dget (sheet_parts d) n = map_option sd_sheet (dget d n)" "dkeys (sheet_parts d) = dkeys d"
  by (simp_all add: sheet_parts_def)

lemma recovered_landed: "landed (sheet_parts (recover_sheets retries completions shared c specs))"
  unfolding landed_def
proof (intro allI impI)
  fix n s assume "dget (sheet_parts (recover_sheets retries completions shared c specs)) n = Some s"
  then obtain d where "dget (recover_sheets retries completions shared c specs) n = Some d" "s = sd_sheet d"
    by auto
  then show "\<not> in_flight (status s)"
    using dget_fold_dset recovered_status_landed by (fastforce simp: recover_sheets_def)
qed

lemma run_on_baton:
  "on_baton m a = (fst (m (ad_baton a)), a\<lparr>ad_baton := snd (m (ad_baton a))\<rparr>)"
  by (simp add: on_baton_def split: prod.split)

lemma set_cost_limits_jobs [simp]: "same_jobs b (set_cost_limits j ro specs b)"
proof -
  have "same_jobs b (fold (\<lambda>sp. set_sheet_cost_limit j (ss_num sp) c) specs b)" for c b
    by (induction specs arbitrary: b) (auto simp: same_jobs_def set_sheet_cost_limit_def)
  then show ?thesis
    by (auto simp: set_cost_limits_def Let_def set_job_cost_limit_def same_jobs_def split: option.split)
qed

text \<open>The baton after recovery, in terms of the registration it performs.\<close>

definition registered_baton ::
  "env \<Rightarrow> string \<Rightarrow> sheet_spec list \<Rightarrow> (int, int list) dict \<Rightarrow> checkpoint \<Rightarrow> recovery_options
   \<Rightarrow> bool \<Rightarrow> adapter \<Rightarrow> (py_exn + unit) \<times> baton" where
  "registered_baton ev j specs deps c ro shared a =
     register_job ev j
       (sheet_parts (recover_sheets (ro_max_retries ro) (ro_max_completion ro) shared c specs)) deps
       (job_options_of ro (Some (cp_flow c)) (ad_event_generation_counter a + 1))
       (deregister_job j (ad_baton a))"

lemma recover_job_run:
  "ad_baton (snd (recover_job ev j specs deps c ro shared a)) =
     (case registered_baton ev j specs deps c ro shared a of
        (Inl e, b) \<Rightarrow> b
      | (Inr _, b) \<Rightarrow> enqueue_dispatch_retry (set_cost_limits j ro specs b))"
  "fst (recover_job ev j specs deps c ro shared a) = fst (registered_baton ev j specs deps c ro shared a)"
  by (simp_all add: recover_job_def registered_baton_def act_simps run_on_baton
      next_event_generation_def Let_def split: prod.split sum.split)

lemma same_jobs_enqueue: "same_jobs b (enqueue_dispatch_retry b)"
  by simp

lemma recover_job_rests:
  "at_rest j (b_registration_token_counter (ad_baton a) + 1,
       Some (ad_event_generation_counter a + 1), deps,
       dkeys (recover_sheets (ro_max_retries ro) (ro_max_completion ro) shared c specs))
     (ad_baton (snd (recover_job ev j specs deps c ro shared a)))"
proof -
  let ?r = "(b_registration_token_counter (ad_baton a) + 1,
       Some (ad_event_generation_counter a + 1), deps,
       dkeys (recover_sheets (ro_max_retries ro) (ro_max_completion ro) shared c specs))"
  obtain x b where r: "registered_baton ev j specs deps c ro shared a = (x, b)" by (metis surj_pair)
  have tok: "b_registration_token_counter (deregister_job j (ad_baton a)) =
      b_registration_token_counter (ad_baton a)"
    by (auto simp: deregister_job_def Let_def dirty_def timer_cancel_opt_def timer_cancel_def
        split: option.split)
  have gen: "jo_event_generation (job_options_of ro fs g) = Some g" for fs g
    by (simp add: job_options_of_def)
  have "b = snd (registered_baton ev j specs deps c ro shared a)" by (simp add: r)
  moreover have "at_rest j (b_registration_token_counter (ad_baton a) + 1,
       jo_event_generation (job_options_of ro (Some (cp_flow c)) (ad_event_generation_counter a + 1)), deps,
       dkeys (sheet_parts (recover_sheets (ro_max_retries ro) (ro_max_completion ro) shared c specs)))
     (snd (registered_baton ev j specs deps c ro shared a))"
    unfolding registered_baton_def tok [symmetric]
    by (rule register_job_rests [OF deregister_gone recovered_landed])
  ultimately have "at_rest j ?r b" by (simp only: gen sheet_parts_simps(2))
  have "at_rest j ?r (enqueue_dispatch_retry (set_cost_limits j ro specs b))"
    using at_rest_same [OF set_cost_limits_jobs, of j ?r j ro specs b]
      at_rest_same [OF same_jobs_enqueue, of j ?r "set_cost_limits j ro specs b"] \<open>at_rest j ?r b\<close> by simp
  with \<open>at_rest j ?r b\<close> show ?thesis by (simp add: recover_job_run r split: sum.split)
qed

text \<open>
  C9. A recovered job waits for nothing that died with the conductor. Whatever baton the
  adapter has and whatever the checkpoint says, after \<open>recover_job\<close> (also when it raises) the
  job is registered afresh, under a new token and a new event generation, with the given
  dependencies and exactly the sheets of the score, and no sheet is dispatched, running,
  waiting for a rate limit or waiting for a retry timer: each is pending, ready, held for a
  decision, or terminal. When it returns, the dispatcher is woken.
\<close>

theorem recovery_leaves_nothing_in_flight:
  assumes "distinct (map ss_num specs)"
    and "(res, a') = recover_job ev j specs deps c ro shared a"
  shows "(\<exists>jb. get_job (ad_baton a') j = Some jb \<and>
      j_registration_token jb = b_registration_token_counter (ad_baton a) + 1 \<and>
      j_event_generation jb = Some (ad_event_generation_counter a + 1) \<and>
      j_dependencies jb = deps \<and> dkeys (j_sheets jb) = map ss_num specs \<and>
      (\<forall>n s. dget (j_sheets jb) n = Some s \<longrightarrow>
         status s \<notin> {DISPATCHED, IN_PROGRESS, WAITING, RETRY_SCHEDULED})) \<and>
    (res = Inr () \<longrightarrow> b_dispatch_retry_pending (ad_baton a'))"
proof (intro conjI)
  have a': "a' = snd (recover_job ev j specs deps c ro shared a)"
    and res: "res = fst (recover_job ev j specs deps c ro shared a)"
    using assms(2) by (metis snd_conv, metis fst_conv)
  have keys: "dkeys (recover_sheets retries completions shared c specs) = map ss_num specs"
    for retries completions
    using keys_fold_dset [OF assms(1), of "[]"] by (simp add: recover_sheets_def)
  show "\<exists>jb. get_job (ad_baton a') j = Some jb \<and>
      j_registration_token jb = b_registration_token_counter (ad_baton a) + 1 \<and>
      j_event_generation jb = Some (ad_event_generation_counter a + 1) \<and>
      j_dependencies jb = deps \<and> dkeys (j_sheets jb) = map ss_num specs \<and>
      (\<forall>n s. dget (j_sheets jb) n = Some s \<longrightarrow>
         status s \<notin> {DISPATCHED, IN_PROGRESS, WAITING, RETRY_SCHEDULED})"
    using recover_job_rests [of j a deps ro shared c specs ev] unfolding a' keys
    by (simp add: at_rest_def registration_def landed_def in_flight_def)
  show "res = Inr () \<longrightarrow> b_dispatch_retry_pending (ad_baton a')"
    unfolding a' res recover_job_run
    by (auto simp: enqueue_dispatch_retry_def put_nowait_def split: prod.split sum.split)
qed

subsection \<open>What a resume does to each sheet\<close>

text \<open>The status a sheet of a failed or cancelled job resumes with.\<close>

definition resumed_status :: "sheet \<Rightarrow> sheet_status" where
  "resumed_status s =
     (if status s = FAILED \<or> is_cascade_skip s \<or> in_flight (status s) then PENDING else status s)"

definition reopened :: "sheet \<Rightarrow> bool" where
  "reopened s \<longleftrightarrow> status s = FAILED \<or> is_cascade_skip s"

lemma reset_for_retry_fields [simp]:
  "status (reset_for_retry s) = PENDING" "normal_attempts (reset_for_retry s) = 0"
  "completion_attempts (reset_for_retry s) = 0" "healing_attempts (reset_for_retry s) = 0"
  "attempt_count (reset_for_retry s) = 0" "error_code (reset_for_retry s) = None"
  "total_cost_usd (reset_for_retry s) = total_cost_usd s"
  "sheet_num (reset_for_retry s) = sheet_num s"
  by (simp_all add: reset_for_retry_def Let_def restore_primary_identity_def
      clear_dispatch_block_def split: option.split)

lemma resets_failed_job:
  "resets_on_resume (Some DFailed) None s \<longleftrightarrow> reopened s"
  "resets_on_resume (Some DCancelled) None s \<longleftrightarrow> reopened s"
  by (simp_all add: resets_on_resume_def RESUME_PRESERVE_def reopened_def)

lemma reset_not_again: "\<not> reopened (reset_for_retry s)"
  by (simp add: reopened_def is_cascade_skip_def)

lemma reset_job_sheet:
  assumes "pre = Some DFailed \<or> pre = Some DCancelled"
  shows "job_sheet (snd (reset_sheets_for_resume pre None c)) n =
    map_option (\<lambda>d. if reopened (sd_sheet d) then on_sheet reset_for_retry d else d) (job_sheet c n)"
  using assms by (auto simp: reset_sheets_for_resume_def resets_failed_job)

lemma reset_twice:
  assumes "pre = Some DFailed \<or> pre = Some DCancelled"
    and "c' = snd (reset_sheets_for_resume pre None c)"
  shows "reset_sheets_for_resume pre None c' = (0, c')"
proof -
  have none: "\<not> resets_on_resume pre None (sd_sheet d)" if "(k, d) \<in> set (cp_sheets c')" for k d
    using that assms reset_not_again
    by (auto simp: reset_sheets_for_resume_def set_dmap resets_failed_job split: if_splits)
  then have "dmap (\<lambda>_ d. if resets_on_resume pre None (sd_sheet d) then on_sheet reset_for_retry d else d)
      (cp_sheets c') = cp_sheets c'"
    by (intro dmap_ident) simp
  moreover have "filter (\<lambda>d. resets_on_resume pre None (sd_sheet d)) (dvals (cp_sheets c')) = []"
    using none by (auto simp: filter_empty_conv)
  ultimately show ?thesis by (simp add: reset_sheets_for_resume_def)
qed

lemma recover_sheet_fields:
  assumes "d' = recover_sheet retries completions True (Some d) sp"
  shows "normal_attempts (sd_sheet d') = attempt_count (sd_sheet d)"
    and "completion_attempts (sd_sheet d') = completion_attempts (sd_sheet d)"
    and "healing_attempts (sd_sheet d') = healing_attempts (sd_sheet d)"
    and "total_cost_usd (sd_sheet d') = total_cost_usd (sd_sheet d)"
    and "max_retries (sd_sheet d') = retries" "max_completion (sd_sheet d') = completions"
    and "recovered_status (Some d) \<notin> set KEEP_IDENTITY \<Longrightarrow>
      instrument_name (sd_sheet d') = Some (ss_instrument_name sp) \<and>
      model (sd_sheet d') = spec_model sp \<and> current_instrument_index (sd_sheet d') = 0 \<and>
      fallback_attempts (sd_sheet d') = []"
    and "recovered_status (Some d) \<in> set KEEP_IDENTITY \<Longrightarrow>
      instrument_name (sd_sheet d') = instrument_name (sd_sheet d) \<and>
      model (sd_sheet d') = model (sd_sheet d) \<and>
      current_instrument_index (sd_sheet d') = current_instrument_index (sd_sheet d)"
proof -
  have k: "{COMPLETED, SKIPPED, CANCELLED} = set KEEP_IDENTITY" by (simp add: KEEP_IDENTITY_def)
  have "normal_attempts (sd_sheet d') = attempt_count (sd_sheet d) \<and>
    completion_attempts (sd_sheet d') = completion_attempts (sd_sheet d) \<and>
    healing_attempts (sd_sheet d') = healing_attempts (sd_sheet d) \<and>
    total_cost_usd (sd_sheet d') = total_cost_usd (sd_sheet d) \<and>
    max_retries (sd_sheet d') = retries \<and> max_completion (sd_sheet d') = completions \<and>
    (if recovered_status (Some d) \<notin> set KEEP_IDENTITY
     then instrument_name (sd_sheet d') = Some (ss_instrument_name sp) \<and>
       model (sd_sheet d') = spec_model sp \<and> current_instrument_index (sd_sheet d') = 0 \<and>
       fallback_attempts (sd_sheet d') = []
     else instrument_name (sd_sheet d') = instrument_name (sd_sheet d) \<and>
       model (sd_sheet d') = model (sd_sheet d) \<and>
       current_instrument_index (sd_sheet d') = current_instrument_index (sd_sheet d))"
    unfolding assms recover_sheet_def k
    by (cases "recovered_status (Some d) \<in> set KEEP_IDENTITY")
      (simp_all add: recovered_attempts_def recovery_base_def Let_def)
  then show "normal_attempts (sd_sheet d') = attempt_count (sd_sheet d)"
    and "completion_attempts (sd_sheet d') = completion_attempts (sd_sheet d)"
    and "healing_attempts (sd_sheet d') = healing_attempts (sd_sheet d)"
    and "total_cost_usd (sd_sheet d') = total_cost_usd (sd_sheet d)"
    and "max_retries (sd_sheet d') = retries" "max_completion (sd_sheet d') = completions"
    and "recovered_status (Some d) \<notin> set KEEP_IDENTITY \<Longrightarrow>
      instrument_name (sd_sheet d') = Some (ss_instrument_name sp) \<and>
      model (sd_sheet d') = spec_model sp \<and> current_instrument_index (sd_sheet d') = 0 \<and>
      fallback_attempts (sd_sheet d') = []"
    and "recovered_status (Some d) \<in> set KEEP_IDENTITY \<Longrightarrow>
      instrument_name (sd_sheet d') = instrument_name (sd_sheet d) \<and>
      model (sd_sheet d') = model (sd_sheet d) \<and>
      current_instrument_index (sd_sheet d') = current_instrument_index (sd_sheet d)"
    by simp_all
qed

text \<open>
  C10. What resuming a failed or cancelled job does to a sheet of its checkpoint. Failed
  sheets and sheets skipped because a dependency failed start over: pending, with all their
  retry, completion and healing budget. Sheets that were in flight are pending again but keep
  the attempts they have used, so that a crash loop is no source of free retries. Completed,
  deliberately skipped, cancelled and held sheets keep their status. A sheet that may still
  run starts at its primary instrument, one that is done keeps the instrument it finished
  on; what it has cost stays on its account. Resetting once more resets nothing.
\<close>

theorem resume_reopens_the_unfinished:
  assumes "pre = Some DFailed \<or> pre = Some DCancelled" and "distinct (map ss_num specs)"
    and "sp \<in> set specs" and "job_sheet c (ss_num sp) = Some d" and "s = sd_sheet d"
    and "c' = snd (reset_sheets_for_resume pre None c)"
  shows "(\<exists>s'. map_option sd_sheet (dget (recover_sheets retries completions True c' specs) (ss_num sp)) = Some s' \<and>
      status s' = resumed_status s \<and> total_cost_usd s' = total_cost_usd s \<and>
      normal_attempts s' = (if reopened s then 0 else attempt_count s) \<and>
      completion_attempts s' = (if reopened s then 0 else completion_attempts s) \<and>
      healing_attempts s' = (if reopened s then 0 else healing_attempts s) \<and>
      (if resumed_status s \<in> {COMPLETED, SKIPPED, CANCELLED}
       then instrument_name s' = instrument_name s \<and> model s' = model s \<and>
         current_instrument_index s' = current_instrument_index s
       else instrument_name s' = Some (ss_instrument_name sp) \<and> model s' = spec_model sp \<and>
         current_instrument_index s' = 0)) \<and>
    (reset_sheets_for_resume pre None c' = (0, c'))"
proof (intro conjI)
  show "reset_sheets_for_resume pre None c' = (0, c')" using assms(1,6) by (rule reset_twice)
  let ?d = "if reopened s then on_sheet reset_for_retry d else d"
  let ?d' = "recover_sheet retries completions True (Some ?d) sp"
  have "job_sheet c' (ss_num sp) = Some ?d" using reset_job_sheet [OF assms(1)] assms(4-6) by simp
  then have get: "dget (recover_sheets retries completions True c' specs) (ss_num sp) = Some ?d'"
    using dget_fold_dset_distinct [OF assms(2,3), where init = "[]" and
        f = "\<lambda>sp. recover_sheet retries completions True (job_sheet c' (ss_num sp)) sp"]
    unfolding recover_sheets_def by simp
  have st: "recovered_status (Some ?d) = resumed_status s"
    using assms(5) by (auto simp: recovered_status_def resumed_status_def reopened_def
        RESET_ON_RESTART_def in_flight_def)
  have kept: "set KEEP_IDENTITY = {COMPLETED, SKIPPED, CANCELLED}" by (simp add: KEEP_IDENTITY_def)
  note F = recover_sheet_fields [OF refl, where d = ?d and sp = sp and retries = retries and
      completions = completions, unfolded st kept]
  have "resumed_status s \<notin> {COMPLETED, SKIPPED, CANCELLED}" if "reopened s"
    using that by (auto simp: resumed_status_def reopened_def)
  then show "\<exists>s'. map_option sd_sheet (dget (recover_sheets retries completions True c' specs) (ss_num sp)) = Some s' \<and>
      status s' = resumed_status s \<and> total_cost_usd s' = total_cost_usd s \<and>
      normal_attempts s' = (if reopened s then 0 else attempt_count s) \<and>
      completion_attempts s' = (if reopened s then 0 else completion_attempts s) \<and>
      healing_attempts s' = (if reopened s then 0 else healing_attempts s) \<and>
      (if resumed_status s \<in> {COMPLETED, SKIPPED, CANCELLED}
       then instrument_name s' = instrument_name s \<and> model s' = model s \<and>
         current_instrument_index s' = current_instrument_index s
       else instrument_name s' = Some (ss_instrument_name sp) \<and> model s' = spec_model sp \<and>
         current_instrument_index s' = 0)"
    using F st assms(5) by (intro exI [where x = "sd_sheet ?d'"]) (auto simp: get)
qed

subsection \<open>Concrete recoveries\<close>

definition spec_of :: "int \<Rightarrow> sheet_spec" where
  "spec_of n =
     \<lparr>ss_num = n, ss_instrument_name = ''claude'', ss_instrument_config = \<lparr>cfg_model = None, cfg_rest = []\<rparr>,
      ss_instrument_fallbacks = [], ss_instrument_fallback_configs = [],
      ss_instrument_resolution = None, ss_balance_chain = False, ss_timeout_seconds = 60\<rparr>"

definition plain_recovery :: recovery_options where
  "plain_recovery =
     \<lparr>ro_max_cost_usd = None, ro_max_sheet_cost_usd = None, ro_max_retries = 3, ro_max_completion = 5,
      ro_completion_threshold_percent = 0, ro_escalation_enabled = False,
      ro_self_healing_enabled = False, ro_parallel_enabled = None, ro_parallel_max_concurrent = None,
      ro_parallel_fail_fast = False, ro_pacing_seconds = 0, ro_stagger_delay_ms = 0, ro_loops = [],
      ro_triggers = [], ro_flow_variables = []\<rparr>"

definition with_status :: "sheet_status \<Rightarrow> int \<Rightarrow> sheet_doc" where
  "with_status st n = on_sheet (\<lambda>s. s\<lparr>status := st, attempt_count := 2\<rparr>) (new_doc n)"

definition crashed_checkpoint :: checkpoint where
  "crashed_checkpoint = (new_checkpoint ''job'' 4 0)
     \<lparr>cp_sheets := [(1, with_status COMPLETED 1), (2, with_status IN_PROGRESS 2),
        (3, with_status FAILED 3), (4, with_status CANCELLED 4)]\<rparr>"

definition idle_adapter :: adapter where
  "idle_adapter = \<lparr>ad_baton = new_baton None [] False (\<lambda>a b. a), ad_event_generation_counter = 6\<rparr>"

theorem recovery_leaves_nothing_in_flight_witness:
  "\<exists>jb. get_job (ad_baton (snd (recover_job plain_env ''job'' (map spec_of [1, 2, 3, 4]) [(2, [1])]
       crashed_checkpoint plain_recovery True idle_adapter))) ''job'' = Some jb \<and>
     j_event_generation jb = Some 7 \<and> dkeys (j_sheets jb) = [1, 2, 3, 4]"
proof -
  let ?run = "recover_job plain_env ''job'' (map spec_of [1, 2, 3, 4]) [(2, [1])]
       crashed_checkpoint plain_recovery True idle_adapter"
  have "distinct (map ss_num (map spec_of [1, 2, 3, 4]))" by (simp add: spec_of_def)
  from recovery_leaves_nothing_in_flight [THEN conjunct1, OF this prod.collapse [of ?run]]
  show ?thesis by (auto simp: idle_adapter_def spec_of_def)
qed

theorem resume_reopens_the_unfinished_witness:
  "\<exists>s2 s3 s4. map_option sd_sheet (dget (recover_sheets 3 5 True
       (snd (reset_sheets_for_resume (Some DFailed) None crashed_checkpoint)) (map spec_of [1, 2, 3, 4])) 2) = Some s2 \<and>
     map_option sd_sheet (dget (recover_sheets 3 5 True
       (snd (reset_sheets_for_resume (Some DFailed) None crashed_checkpoint)) (map spec_of [1, 2, 3, 4])) 3) = Some s3 \<and>
     map_option sd_sheet (dget (recover_sheets 3 5 True
       (snd (reset_sheets_for_resume (Some DFailed) None crashed_checkpoint)) (map spec_of [1, 2, 3, 4])) 4) = Some s4 \<and>
     (status s2, normal_attempts s2) = (PENDING, 2) \<and> (status s3, normal_attempts s3) = (PENDING, 0) \<and>
     status s4 = CANCELLED"
proof -
  let ?specs = "map spec_of [1, 2, 3, 4]"
  let ?got = "\<lambda>k. map_option sd_sheet (dget (recover_sheets 3 5 True
       (snd (reset_sheets_for_resume (Some DFailed) None crashed_checkpoint)) ?specs) k)"
  have d: "distinct (map ss_num ?specs)" by (simp add: spec_of_def)
  note R = resume_reopens_the_unfinished [where c = crashed_checkpoint and retries = 3
      and completions = 5, THEN conjunct1, OF disjI1 [OF refl] d _ _ refl refl]
  have m: "spec_of 2 \<in> set ?specs" "spec_of 3 \<in> set ?specs" "spec_of 4 \<in> set ?specs" by simp_all
  have c: "job_sheet crashed_checkpoint (ss_num (spec_of 2)) = Some (with_status IN_PROGRESS 2)"
    "job_sheet crashed_checkpoint (ss_num (spec_of 3)) = Some (with_status FAILED 3)"
    "job_sheet crashed_checkpoint (ss_num (spec_of 4)) = Some (with_status CANCELLED 4)"
    by (simp_all add: crashed_checkpoint_def spec_of_def)
  have n: "ss_num (spec_of k) = k" for k by (simp add: spec_of_def)
  note ws = with_status_def new_doc_def new_sheet_def resumed_status_def reopened_def
    is_cascade_skip_def in_flight_def
  have r2: "resumed_status (sd_sheet (with_status IN_PROGRESS 2)) = PENDING"
    "reopened (sd_sheet (with_status IN_PROGRESS 2)) = False"
    "attempt_count (sd_sheet (with_status IN_PROGRESS 2)) = 2" by (simp_all add: ws)
  have r3: "resumed_status (sd_sheet (with_status FAILED 3)) = PENDING"
    "reopened (sd_sheet (with_status FAILED 3)) = True" by (simp_all add: ws)
  have r4: "resumed_status (sd_sheet (with_status CANCELLED 4)) = CANCELLED" by (simp add: ws)
  from R [OF m(1) c(1)] obtain p where p: "?got 2 = Some p" "status p = PENDING" "normal_attempts p = 2"
    unfolding n r2 by (elim exE conjE) simp
  from R [OF m(2) c(2)] obtain q where q: "?got 3 = Some q" "status q = PENDING" "normal_attempts q = 0"
    unfolding n r3 by (elim exE conjE) simp
  from R [OF m(3) c(3)] obtain r where r: "?got 4 = Some r" "status r = CANCELLED"
    unfolding n r4 by (elim exE conjE) simp
  show ?thesis
    by (rule exI [where x = p], rule exI [where x = q], rule exI [where x = r])
      (simp only: p q r simp_thms prod.inject)
qed

end
