(* ===== verification/Recurrence.thy ===== *)
theory Recurrence
  imports Values "HOL-Library.List_Lexorder" "HOL-Library.Char_ord"
begin

section \<open>Recurring scores\<close>

text \<open>
  Schedules that submit a score again and again: the pure computation of due times
  (\<open>core/scheduling.py\<close>), the durable registry of schedules with its claims
  (\<open>daemon/schedule_registry.py\<close>) and the controller that joins them to timers and
  submissions (\<open>daemon/recurrence.py\<close>). Instants are microseconds since the epoch, the
  resolution of \<open>datetime\<close>. \<open>croniter\<close>, the manager's \<open>submit\<close> and the file system are
  parameters. The lifecycle locks make each operation atomic for its schedule; every
  registry operation may fail, and the process may die at each.
\<close>

type_synonym instant = int

subsection \<open>Due times\<close>

datatype misfire_policy = MisfireSkip | MisfireLatest

record schedule_config =
  sc_enabled :: bool
  sc_cron :: "string option"
  sc_interval :: "string option"
  sc_timezone :: "string option"
  sc_misfire :: misfire_policy
  sc_jitter_seconds :: int
  sc_pin_source_digest :: bool

definition interval_seconds :: "char \<Rightarrow> nat option" where
  "interval_seconds c =
     (if c = CHR ''s'' then Some 1 else if c = CHR ''m'' then Some 60
      else if c = CHR ''h'' then Some 3600 else if c = CHR ''d'' then Some 86400 else None)"

text \<open>
  \<open>parse_interval_seconds\<close>: the pattern \<open>[0-9]+(\.[0-9]+)?[smhd]\<close>, its number and its unit.
  The number and its multiple of the unit are exact rationals, where the code has the nearest
  floats. A \<open>timedelta\<close> rounds to whole microseconds, ties to even, and holds at most
  999999999 days and a bit less than one more.
\<close>

fun take_digits :: "string \<Rightarrow> nat list \<times> string" where
  "take_digits [] = ([], [])"
| "take_digits (c # cs) =
     (case digit_of c of
        None \<Rightarrow> ([], c # cs)
      | Some k \<Rightarrow> (let (ds, rest) = take_digits cs in (k # ds, rest)))"

definition decimal :: "nat list \<Rightarrow> nat" where
  "decimal ds = fold (\<lambda>k acc. 10 * acc + k) ds 0"

definition match_interval :: "string \<Rightarrow> (rat \<times> nat) option" where
  "match_interval v =
     (let (whole, s1) = take_digits v;
          (frac, s2) = (case s1 of
             CHR ''.'' # cs \<Rightarrow> (let (ds, rest) = take_digits cs
               in if ds = [] then ([], s1) else (ds, rest))
           | _ \<Rightarrow> ([], s1))
      in if whole = [] then None
         else case s2 of
                [c] \<Rightarrow> map_option (Pair (of_nat (decimal (whole @ frac)) / 10 ^ length frac))
                         (interval_seconds c)
              | _ \<Rightarrow> None)"

definition round_half_even :: "rat \<Rightarrow> int" where
  "round_half_even q =
     (let f = \<lfloor>q\<rfloor>; r = q - of_int f
      in if r < 1 / 2 then f else if r > 1 / 2 then f + 1
         else if even f then f else f + 1)"

definition duration_of :: "rat \<Rightarrow> int" where
  "duration_of secs = round_half_even (secs * 1000000)"

definition TIMEDELTA_MAX :: int where
  "TIMEDELTA_MAX = 86400000000 * 1000000000 - 1"

definition parse_interval_seconds :: "string \<Rightarrow> py_exn + rat" where
  "parse_interval_seconds v =
     (case match_interval v of
        None \<Rightarrow> Inl ValueError
      | Some (quantity, u) \<Rightarrow>
          if quantity \<le> 0 then Inl ValueError
          else (let secs = quantity * of_nat u
                in if duration_of secs > TIMEDELTA_MAX then Inl ValueError
                   else if duration_of secs \<le> 0 then Inl ValueError
                   else Inr secs))"

text \<open>The last microsecond of the year 9999, the end of \<open>datetime\<close>.\<close>

definition DATETIME_MAX :: instant where
  "DATETIME_MAX = 253402300799999999"

type_synonym cron_next = "string \<Rightarrow> string option \<Rightarrow> instant \<Rightarrow> py_exn + instant"

text \<open>
  \<open>next_due_at\<close>; the parameter is \<open>croniter(expr, base in the zone).get_next\<close>.
\<close>

definition next_due_at ::
  "cron_next \<Rightarrow> schedule_config \<Rightarrow> instant \<Rightarrow> instant option \<Rightarrow> py_exn + instant" where
  "next_due_at cron sc after interval_anchor =
     (case sc_cron sc of
        Some expr \<Rightarrow> cron expr (sc_timezone sc) after
      | None \<Rightarrow>
          (case sc_interval sc of
             None \<Rightarrow> Inl ValueError
           | Some v \<Rightarrow>
               (let anchor = (case interval_anchor of Some a \<Rightarrow> a | None \<Rightarrow> after)
                in case parse_interval_seconds v of
                     Inl e \<Rightarrow> Inl e
                   | Inr secs \<Rightarrow>
                       (let d = duration_of secs
                        in if d \<le> 0 then Inl ValueError
                           else (let result = (if anchor > after then anchor + d
                                    else anchor + d * ((after - anchor) div d + 1))
                                 in if result > DATETIME_MAX then Inl OverflowError
                                    else Inr result)))))"

text \<open>\<open>RecurrenceController._calculate_next\<close>.\<close>

definition calculate_next ::
  "cron_next \<Rightarrow> schedule_config \<Rightarrow> instant \<Rightarrow> instant \<Rightarrow> py_exn + instant" where
  "calculate_next cron sc due current =
     (case next_due_at cron sc current (Some due) of
        Inl e \<Rightarrow> Inl e
      | Inr n \<Rightarrow> if n \<le> due then Inl ValueError else Inr n)"

subsection \<open>Child job ids\<close>

text \<open>\<open>sanitize_workspace_name\<close> of \<open>core/config/workspace.py\<close>.\<close>

definition safe_char :: "char \<Rightarrow> bool" where
  "safe_char c \<longleftrightarrow> (let k = (of_char c :: nat)
     in (48 \<le> k \<and> k \<le> 57) \<or> (65 \<le> k \<and> k \<le> 90) \<or> (97 \<le> k \<and> k \<le> 122)) \<or>
     c \<in> {CHR ''.'', CHR ''_'', CHR ''-''}"

fun collapse :: "bool \<Rightarrow> string \<Rightarrow> string" where
  "collapse inside [] = []"
| "collapse inside (c # cs) =
     (if safe_char c then c # collapse False cs
      else if inside then collapse True cs else CHR ''-'' # collapse True cs)"

definition strip_separators :: "string \<Rightarrow> string" where
  "strip_separators s = (let out = (\<lambda>c. c \<in> {CHR ''-'', CHR ''.'', CHR ''_''})
     in rev (dropWhile out (rev (dropWhile out s))))"

definition sanitize_workspace_name :: "string \<Rightarrow> string" where
  "sanitize_workspace_name name =
     (let safe = strip_separators (collapse False name) in if safe = [] then ''job'' else safe)"

text \<open>
  \<open>strftime('%Y%m%dT%H%M%S%fZ')\<close> of an instant: the proleptic Gregorian date of a day
  counted from 1970, by eras of 400 years that start in March.
\<close>

definition civil_date :: "int \<Rightarrow> int \<times> int \<times> int" where
  "civil_date days =
     (let z = days + 719468; era = z div 146097; doe = z mod 146097;
          yoe = (doe - doe div 1460 + doe div 36524 - doe div 146096) div 365;
          doy = doe - (365 * yoe + yoe div 4 - yoe div 100);
          mp = (5 * doy + 2) div 153;
          day = doy - (153 * mp + 2) div 5 + 1;
          month = (if mp < 10 then mp + 3 else mp - 9);
          year = yoe + era * 400 + (if month \<le> 2 then 1 else 0)
      in (year, month, day))"

fun padded :: "nat \<Rightarrow> int \<Rightarrow> string" where
  "padded 0 k = []"
| "padded (Suc n) k = padded n (k div 10) @ [char_of (48 + nat (k mod 10))]"

definition utc_stamp :: "instant \<Rightarrow> string" where
  "utc_stamp t =
     (let (y, m, d) = civil_date (t div 86400000000); r = t mod 86400000000
      in padded 4 y @ padded 2 m @ padded 2 d @ ''T'' @ padded 2 (r div 3600000000) @
         padded 2 (r div 60000000 mod 60) @ padded 2 (r div 1000000 mod 60) @
         padded 6 (r mod 1000000) @ ''Z'')"

definition child_job_id :: "string \<Rightarrow> instant \<Rightarrow> string" where
  "child_job_id score_name due_at =
     sanitize_workspace_name score_name @ ''--scheduled--'' @ utc_stamp due_at"

subsection \<open>The controller's world\<close>

text \<open>
  A row of the table \<open>schedules\<close>. \<open>sr_last_claimed_due_at\<close> is the durable claim. The
  declaration's JSON text stands for the declaration itself.
\<close>

record schedule_row =
  sr_score_name :: string
  sr_score_path :: string
  sr_schedule :: schedule_config
  sr_source_digest :: string
  sr_pinned_source_digest :: "string option"
  sr_enabled :: bool
  sr_next_due_at :: instant
  sr_created_at :: instant
  sr_updated_at :: instant
  sr_last_due_at :: "instant option"
  sr_last_run_id :: "string option"
  sr_last_outcome :: "string option"
  sr_consecutive_drops :: nat
  sr_last_claimed_due_at :: "instant option"
  sr_registration_id :: "string option"

type_synonym schedule_rows = "(string, schedule_row) dict"

record score =
  score_name :: string
  score_schedule :: "schedule_config option"

record cron_tick =
  ct_entry_name :: string
  ct_score_path :: string
  ct_due_at :: "instant option"
  ct_timestamp :: instant

record armed_timer =
  at_due_at :: instant
  at_fire_at :: instant
  at_event :: cron_tick

text \<open>The \<open>JobRequest\<close> of a tick.\<close>

record submission =
  sub_schedule_id :: string
  sub_due_at :: instant
  sub_job_id :: string
  sub_config_path :: string
  sub_expected_source_digest :: "string option"

datatype response_status = Accepted | Pending | Rejected

record submit_response =
  rsp_status :: response_status
  rsp_job_id :: string

text \<open>
  The durable table with its revision, and the revision its custody witness names; the
  controller's timers; the files as they can be read; the wall clock with how far it moves on
  before each reading; what goes wrong at each access to the registry; and the log of
  submissions.
\<close>

record recurrence =
  rec_rows :: schedule_rows
  rec_revision :: nat
  rec_custody :: nat
  rec_timers :: "(string, armed_timer) dict"
  rec_shutting_down :: bool
  rec_files :: "(string, py_exn + score \<times> string) dict"
  rec_clock :: instant
  rec_delays :: "int list"
  rec_faults :: "py_exn option list"
  rec_submissions :: "submission list"

type_synonym 'a rec_act = "(recurrence, 'a) act"

record recurrence_env =
  re_cron :: cron_next
  re_resolve :: "string \<Rightarrow> string"
  re_submit :: "submission list \<Rightarrow> submission \<Rightarrow> py_exn + submit_response"
  re_is_active :: "submission list \<Rightarrow> string \<Rightarrow> bool"
  re_uniform :: "instant \<Rightarrow> int \<Rightarrow> int"

definition current_time :: "instant rec_act" where
  "current_time = pure_op (\<lambda>w.
     (let t = rec_clock w + (case rec_delays w of [] \<Rightarrow> 0 | d # ds \<Rightarrow> max 0 d)
      in (t, w\<lparr>rec_clock := t, rec_delays := tl (rec_delays w)\<rparr>)))"

text \<open>\<open>_load_score\<close>; a file that is not there cannot be read.\<close>

definition load_score :: "string \<Rightarrow> (score \<times> string) rec_act" where
  "load_score path = lift_res (\<lambda>w.
     case dget (rec_files w) path of None \<Rightarrow> Inl FileNotFoundError | Some r \<Rightarrow> r)"

subsection \<open>The registry\<close>

text \<open>One access to the database: it raises, or it goes through.\<close>

definition access :: "unit rec_act" where
  "access = (\<lambda>w. case rec_faults w of
      [] \<Rightarrow> (Inr (), w)
    | f # fs \<Rightarrow> (case f of
          None \<Rightarrow> (Inr (), w\<lparr>rec_faults := fs\<rparr>)
        | Some e \<Rightarrow> (Inl e, w\<lparr>rec_faults := fs\<rparr>)))"

definition checked_identity :: "unit rec_act" where
  "checked_identity = thn access (bnd get_st (\<lambda>w.
     if rec_custody w = rec_revision w then ret () else throw RuntimeError))"

text \<open>
  \<open>_execute_mutation\<close>: within a transaction, check the witness, advance it durably, run the
  statement and commit. A failure rolls the table back, not the witness. Returns the row
  count.
\<close>

definition execute_mutation :: "(schedule_rows \<Rightarrow> instant \<Rightarrow> schedule_rows \<times> nat) \<Rightarrow> nat rec_act" where
  "execute_mutation stmt =
     thn access
    (thn checked_identity
    (thn access
    (thn (modify (\<lambda>w. w\<lparr>rec_custody := rec_revision w + 1\<rparr>))
    (thn access
         (pure_op (\<lambda>w. let (rows, n) = stmt (rec_rows w) (rec_clock w)
            in (n, w\<lparr>rec_rows := rows, rec_revision := rec_revision w + 1\<rparr>)))))))"

definition REGISTRY_DATA_ERROR :: string where
  "REGISTRY_DATA_ERROR = ''registry_data_error''"

definition quarantined :: "schedule_row \<Rightarrow> bool" where
  "quarantined r \<longleftrightarrow> sr_last_outcome r = Some REGISTRY_DATA_ERROR"

definition registry_get :: "string \<Rightarrow> schedule_row option rec_act" where
  "registry_get sid =
     thn checked_identity (thn access (bnd get_st (\<lambda>w.
       case dget (rec_rows w) sid of
         None \<Rightarrow> ret None
       | Some r \<Rightarrow> if quarantined r then throw RuntimeError else ret (Some r))))"

text \<open>\<open>list\<close>: a quarantined row shows as a disabled diagnostic record.\<close>

definition diagnostic_record :: "string \<Rightarrow> schedule_row \<Rightarrow> schedule_row" where
  "diagnostic_record sid r = r\<lparr>sr_score_name := sid, sr_score_path := ''<registry-data-error>'',
     sr_source_digest := [], sr_enabled := False, sr_next_due_at := 0,
     sr_last_outcome := Some REGISTRY_DATA_ERROR, sr_consecutive_drops := 0\<rparr>"

definition registry_list :: "(string \<times> schedule_row) list rec_act" where
  "registry_list =
     thn checked_identity (thn access (bnd get_st (\<lambda>w. ret
       (map (\<lambda>(sid, r). (sid, if quarantined r then diagnostic_record sid r else r))
          (sort_key fst (items (rec_rows w)))))))"

text \<open>The statements. A statement that matches no row changes none.\<close>

definition upsert_rows ::
  "string \<Rightarrow> string \<Rightarrow> string \<Rightarrow> schedule_config \<Rightarrow> string \<Rightarrow> instant \<Rightarrow> string option
   \<Rightarrow> string option \<Rightarrow> schedule_rows \<Rightarrow> instant \<Rightarrow> schedule_rows \<times> nat" where
  "upsert_rows sid name path sc digest next_due pinned rid rows now =
     (dset rows sid (case dget rows sid of
        None \<Rightarrow>
          \<lparr>sr_score_name = name, sr_score_path = path, sr_schedule = sc, sr_source_digest = digest,
           sr_pinned_source_digest = pinned, sr_enabled = sc_enabled sc, sr_next_due_at = next_due,
           sr_created_at = now, sr_updated_at = now, sr_last_due_at = None, sr_last_run_id = None,
           sr_last_outcome = None, sr_consecutive_drops = 0, sr_last_claimed_due_at = None,
           sr_registration_id = rid\<rparr>
      | Some r \<Rightarrow>
          r\<lparr>sr_score_name := name, sr_score_path := path, sr_schedule := sc,
            sr_source_digest := digest, sr_pinned_source_digest := pinned,
            sr_enabled := sc_enabled sc, sr_next_due_at := next_due, sr_updated_at := now,
            sr_registration_id := rid\<rparr>), 1)"

definition update_where ::
  "string \<Rightarrow> (schedule_row \<Rightarrow> bool) \<Rightarrow> (schedule_row \<Rightarrow> schedule_row) \<Rightarrow> schedule_rows
   \<Rightarrow> schedule_rows \<times> nat" where
  "update_where sid p f rows = (case dget rows sid of
      None \<Rightarrow> (rows, 0)
    | Some r \<Rightarrow> if p r then (dset rows sid (f r), 1) else (rows, 0))"

definition registry_upsert ::
  "string \<Rightarrow> string \<Rightarrow> string \<Rightarrow> schedule_config \<Rightarrow> string \<Rightarrow> instant \<Rightarrow> string option
   \<Rightarrow> string option \<Rightarrow> unit rec_act" where
  "registry_upsert sid name path sc digest next_due pinned rid =
     thn (execute_mutation (upsert_rows sid name path sc digest next_due pinned rid)) (ret ())"

definition require_row :: "nat \<Rightarrow> unit rec_act" where
  "require_row n = (if n \<noteq> 1 then throw RuntimeError else ret ())"

definition set_enabled :: "string \<Rightarrow> bool \<Rightarrow> unit rec_act" where
  "set_enabled sid on =
     bnd (registry_get sid) (\<lambda>r.
       if r = None then throw RuntimeError
       else bnd (execute_mutation (\<lambda>rows now. update_where sid (\<lambda>r. \<not> quarantined r)
              (\<lambda>r. r\<lparr>sr_enabled := on, sr_updated_at := now\<rparr>) rows)) require_row)"

definition registry_remove :: "string \<Rightarrow> unit rec_act" where
  "registry_remove sid =
     bnd (registry_get sid) (\<lambda>r.
       if r = None then throw RuntimeError
       else bnd (execute_mutation (\<lambda>rows now. case dget rows sid of
              None \<Rightarrow> (rows, 0)
            | Some r \<Rightarrow> if quarantined r then (rows, 0) else (ddel rows sid, 1))) require_row)"

definition claim_due :: "string \<Rightarrow> instant \<Rightarrow> instant \<Rightarrow> bool rec_act" where
  "claim_due sid due_at current =
     bnd (execute_mutation (\<lambda>rows now. update_where sid
            (\<lambda>r. sr_enabled r \<and> sr_next_due_at r = due_at \<and> due_at \<le> current \<and>
                 sr_last_claimed_due_at r \<noteq> Some due_at)
            (\<lambda>r. r\<lparr>sr_last_claimed_due_at := Some due_at, sr_updated_at := now\<rparr>) rows))
       (\<lambda>n. ret (n = 1))"

definition record_submission :: "string \<Rightarrow> instant \<Rightarrow> string \<Rightarrow> unit rec_act" where
  "record_submission sid due_at run_id =
     bnd (execute_mutation (\<lambda>rows now. update_where sid
            (\<lambda>r. sr_last_claimed_due_at r = Some due_at)
            (\<lambda>r. r\<lparr>sr_last_due_at := Some due_at, sr_last_run_id := Some run_id,
                   sr_updated_at := now\<rparr>) rows))
       require_row"

definition record_tick_outcome ::
  "string \<Rightarrow> instant \<Rightarrow> string \<Rightarrow> instant \<Rightarrow> bool \<Rightarrow> unit rec_act" where
  "record_tick_outcome sid due_at outcome next_due dropped =
     (if next_due \<le> due_at then throw ValueError
      else bnd (execute_mutation (\<lambda>rows now. update_where sid
            (\<lambda>r. sr_last_claimed_due_at r = Some due_at)
            (\<lambda>r. r\<lparr>sr_last_due_at := Some due_at, sr_last_outcome := Some outcome,
                   sr_next_due_at := next_due,
                   sr_consecutive_drops := (if dropped then sr_consecutive_drops r + 1 else 0),
                   sr_updated_at := now\<rparr>) rows))
       require_row)"

subsection \<open>The controller\<close>

definition cancel_timer :: "string \<Rightarrow> unit rec_act" where
  "cancel_timer sid = modify (\<lambda>w. w\<lparr>rec_timers := ddel (rec_timers w) sid\<rparr>)"

definition arm_next ::
  "recurrence_env \<Rightarrow> string \<Rightarrow> string \<Rightarrow> schedule_config \<Rightarrow> instant \<Rightarrow> instant \<Rightarrow> unit rec_act" where
  "arm_next ev sid path sc due_at current =
     thn (cancel_timer sid) (modify (\<lambda>w.
       if rec_shutting_down w then w
       else let wait = max 0 (due_at - current)
                  + (if sc_jitter_seconds sc \<noteq> 0
                     then re_uniform ev due_at (sc_jitter_seconds sc * 1000000) else 0)
            in w\<lparr>rec_timers := dset (rec_timers w) sid
              \<lparr>at_due_at = due_at, at_fire_at = current + wait,
               at_event = \<lparr>ct_entry_name = sid, ct_score_path = path, ct_due_at = Some due_at,
                 ct_timestamp = current\<rparr>\<rparr>\<rparr>))"

definition arm_record ::
  "recurrence_env \<Rightarrow> string \<Rightarrow> schedule_row \<Rightarrow> instant \<Rightarrow> unit rec_act" where
  "arm_record ev sid r current =
     arm_next ev sid (sr_score_path r) (sr_schedule r) (sr_next_due_at r) current"

definition remove_locked :: "string \<Rightarrow> unit rec_act" where
  "remove_locked sid = thn (cancel_timer sid) (registry_remove sid)"

definition record_outcome ::
  "string \<Rightarrow> instant \<Rightarrow> string \<Rightarrow> instant \<Rightarrow> bool \<Rightarrow> unit rec_act" where
  "record_outcome sid due_at outcome next_due dropped =
     thn (record_tick_outcome sid due_at outcome next_due dropped)
       (if \<not> dropped then ret ()
        else bnd (registry_get sid) (\<lambda>r. if r = None then throw RuntimeError else ret ()))"

subsection \<open>A due tick\<close>

definition attempt :: "'a rec_act \<Rightarrow> (py_exn + 'a) rec_act" where
  "attempt m = (\<lambda>w. case m w of (r, w') \<Rightarrow> (Inr r, w'))"

definition lift_sum :: "py_exn + 'a \<Rightarrow> 'a rec_act" where
  "lift_sum r = (case r of Inl e \<Rightarrow> throw e | Inr x \<Rightarrow> ret x)"

definition submit_child :: "recurrence_env \<Rightarrow> submission \<Rightarrow> submit_response rec_act" where
  "submit_child ev req = (\<lambda>w.
     (re_submit ev (rec_submissions w) req, w\<lparr>rec_submissions := rec_submissions w @ [req]\<rparr>))"

definition drop_tick ::
  "recurrence_env \<Rightarrow> string \<Rightarrow> instant \<Rightarrow> string \<Rightarrow> string \<Rightarrow> schedule_config \<Rightarrow> instant \<Rightarrow> instant
   \<Rightarrow> unit rec_act" where
  "drop_tick ev sid due_at outcome path sc next_due current =
     thn (record_outcome sid due_at outcome next_due True)
         (arm_next ev sid path sc next_due current)"

text \<open>The submission with its outcomes. Only an \<open>Exception\<close> of \<open>submit\<close> is recorded.\<close>

definition submit_tick ::
  "recurrence_env \<Rightarrow> string \<Rightarrow> schedule_row \<Rightarrow> schedule_config \<Rightarrow> string \<Rightarrow> instant \<Rightarrow> instant
   \<Rightarrow> instant \<Rightarrow> unit rec_act" where
  "submit_tick ev sid r sc name due_at next_due current =
     bnd (attempt (submit_child ev
           \<lparr>sub_schedule_id = sid, sub_due_at = due_at, sub_job_id = child_job_id name due_at,
            sub_config_path = sr_score_path r,
            sub_expected_source_digest = sr_pinned_source_digest r\<rparr>)) (\<lambda>res.
       case res of
         Inl e \<Rightarrow>
           if is_Exception e
           then thn (drop_tick ev sid due_at ''submission_error'' (sr_score_path r) sc next_due current)
                    (throw e)
           else throw e
       | Inr rsp \<Rightarrow>
           thn (if rsp_status rsp \<noteq> Rejected
                then thn (record_submission sid due_at (rsp_job_id rsp))
                         (record_outcome sid due_at ''submitted'' next_due False)
                else record_outcome sid due_at ''submission_rejected'' next_due True)
               (arm_next ev sid (sr_score_path r) sc next_due current))"

text \<open>A tick whose source was read and may run: cadence, misfire, overlap.\<close>

definition launch_tick ::
  "recurrence_env \<Rightarrow> string \<Rightarrow> schedule_row \<Rightarrow> schedule_config \<Rightarrow> string \<Rightarrow> string \<Rightarrow> bool \<Rightarrow> instant
   \<Rightarrow> instant \<Rightarrow> unit rec_act" where
  "launch_tick ev sid r sc name digest misfired due_at current =
     bnd (lift_sum (calculate_next (re_cron ev) sc due_at current)) (\<lambda>next_due.
     thn (whn (digest \<noteq> sr_source_digest r)
            (registry_upsert sid name (sr_score_path r) sc digest next_due None None))
       (if \<not> sc_enabled sc
        then record_outcome sid due_at ''schedule_disabled'' next_due False
        else if misfired \<and> sc_misfire sc = MisfireSkip
        then drop_tick ev sid due_at ''misfire_skipped'' (sr_score_path r) sc next_due current
        else bnd get_st (\<lambda>w.
          if re_is_active ev (rec_submissions w) sid
          then drop_tick ev sid due_at ''overlap_skipped'' (sr_score_path r) sc next_due current
          else submit_tick ev sid r sc name due_at next_due current)))"

definition source_drifted :: "schedule_row \<Rightarrow> string \<Rightarrow> score \<Rightarrow> string \<Rightarrow> bool" where
  "source_drifted r sid cfg digest \<longleftrightarrow> sr_pinned_source_digest r \<noteq> None \<and>
     (sr_pinned_source_digest r \<noteq> Some digest \<or> score_name cfg \<noteq> sid \<or> score_schedule cfg = None)"

text \<open>What a readable source makes of the tick; a returned path is to be registered anew.\<close>

definition loaded_tick ::
  "recurrence_env \<Rightarrow> string \<Rightarrow> schedule_row \<Rightarrow> score \<Rightarrow> string \<Rightarrow> bool \<Rightarrow> instant \<Rightarrow> instant \<Rightarrow> instant
   \<Rightarrow> string option rec_act" where
  "loaded_tick ev sid r cfg digest misfired due_at next_due current =
     (if source_drifted r sid cfg digest
      then thn (drop_tick ev sid due_at ''source_drift_refused'' (sr_score_path r) (sr_schedule r)
             next_due current) (ret None)
      else case score_schedule cfg of
             None \<Rightarrow> thn (record_outcome sid due_at ''schedule_removed'' next_due False)
                    (thn (remove_locked sid) (ret None))
           | Some sc \<Rightarrow>
               if score_name cfg \<noteq> sid
               then thn (record_outcome sid due_at ''schedule_identity_changed'' next_due False)
                   (thn (remove_locked sid) (ret (Some (sr_score_path r))))
               else thn (launch_tick ev sid r sc (score_name cfg) digest misfired due_at current)
                        (ret None))"

definition source_invalid :: "py_exn \<Rightarrow> bool" where
  "source_invalid e \<longleftrightarrow> e \<in> {OSError, ValueError, KeyError, YAMLError}"

definition claimed_tick ::
  "recurrence_env \<Rightarrow> string \<Rightarrow> schedule_row \<Rightarrow> bool \<Rightarrow> instant \<Rightarrow> instant \<Rightarrow> string option rec_act" where
  "claimed_tick ev sid r misfired due_at current =
     bnd (lift_sum (calculate_next (re_cron ev) (sr_schedule r) due_at current)) (\<lambda>next_due.
     bnd (attempt (load_score (sr_score_path r))) (\<lambda>loaded.
       case loaded of
         Inr (cfg, digest) \<Rightarrow> loaded_tick ev sid r cfg digest misfired due_at next_due current
       | Inl e \<Rightarrow>
           if e = FileNotFoundError
           then thn (record_outcome sid due_at ''source_missing'' next_due True)
               (thn (remove_locked sid) (ret None))
           else if source_invalid e
           then thn (drop_tick ev sid due_at ''source_invalid'' (sr_score_path r) (sr_schedule r)
                  next_due current) (ret None)
           else throw e))"

text \<open>A claim of an earlier process is advanced, not replayed.\<close>

definition advance_stale_claim ::
  "recurrence_env \<Rightarrow> string \<Rightarrow> schedule_row \<Rightarrow> instant \<Rightarrow> instant \<Rightarrow> unit rec_act" where
  "advance_stale_claim ev sid r due_at current =
     bnd (registry_get sid) (\<lambda>refreshed.
       case refreshed of
         None \<Rightarrow> ret ()
       | Some r' \<Rightarrow>
           if \<not> sr_enabled r' then ret ()
           else if sr_next_due_at r' \<noteq> due_at then arm_record ev sid r' current
           else bnd (lift_sum (calculate_next (re_cron ev) (sr_schedule r) due_at current))
             (\<lambda>next_due. drop_tick ev sid due_at ''stale_claim_skipped'' (sr_score_path r)
                (sr_schedule r) next_due current))"

definition handle_tick_locked ::
  "recurrence_env \<Rightarrow> string \<Rightarrow> instant \<Rightarrow> instant \<Rightarrow> string option rec_act" where
  "handle_tick_locked ev sid due_at timestamp =
     thn (modify (\<lambda>w. case dget (rec_timers w) sid of
            None \<Rightarrow> w
          | Some t \<Rightarrow> if at_due_at t = due_at then w\<lparr>rec_timers := ddel (rec_timers w) sid\<rparr> else w))
    (bnd (registry_get sid) (\<lambda>record.
       case record of
         None \<Rightarrow> ret None
       | Some r \<Rightarrow>
           if \<not> sr_enabled r then ret None
           else bnd current_time (\<lambda>current.
             if sr_next_due_at r \<noteq> due_at \<or> due_at > current
             then thn (arm_record ev sid r current) (ret None)
             else bnd (claim_due sid due_at current) (\<lambda>claimed.
               if \<not> claimed
               then thn (advance_stale_claim ev sid r due_at current) (ret None)
               else claimed_tick ev sid r (timestamp > due_at) due_at current))))"

subsection \<open>Registration, ticks and the rest of the life cycle\<close>

text \<open>
  \<open>register\<close>. The admission callbacks are arguments: \<open>before_wait\<close> answers or is absent,
  \<open>refused\<close> is what \<open>before_mutation\<close> raises, if it does. The set of prior ids is iterated in
  the order of the list.
\<close>

record registration_options =
  ro_before_wait :: "bool option"
  ro_refused :: "py_exn option"
  ro_pin :: "bool option"
  ro_require_schedule :: bool
  ro_registration_id :: "string option"

definition plain_registration :: registration_options where
  "plain_registration = \<lparr>ro_before_wait = None, ro_refused = None, ro_pin = None,
     ro_require_schedule = False, ro_registration_id = None\<rparr>"

definition admit :: "py_exn option \<Rightarrow> unit rec_act" where
  "admit refused = (case refused of None \<Rightarrow> ret () | Some e \<Rightarrow> throw e)"

definition enroll ::
  "recurrence_env \<Rightarrow> string \<Rightarrow> string \<Rightarrow> schedule_config \<Rightarrow> string \<Rightarrow> registration_options
   \<Rightarrow> (string \<times> schedule_row) option rec_act" where
  "enroll ev path sid sc digest ro =
     bnd current_time (\<lambda>current.
     bnd (lift_sum (next_due_at (re_cron ev) sc current None)) (\<lambda>due.
     thn (registry_upsert sid sid path sc digest due
            (if (case ro_pin ro of None \<Rightarrow> sc_pin_source_digest sc | Some p \<Rightarrow> p)
             then Some digest else None) (ro_registration_id ro))
    (thn (cancel_timer sid)
    (bnd (registry_get sid) (\<lambda>record.
       case record of
         None \<Rightarrow> throw RuntimeError
       | Some r \<Rightarrow> thn (whn (sr_enabled r) (arm_record ev sid r current)) (ret (Some (sid, r))))))))"

definition register ::
  "recurrence_env \<Rightarrow> string \<Rightarrow> registration_options \<Rightarrow> (string \<times> schedule_row) option rec_act" where
  "register ev score_path ro =
     (let path = re_resolve ev score_path in
      bnd (load_score path) (\<lambda>(cfg, digest).
        if ro_require_schedule ro \<and> score_schedule cfg = None then ret None
        else bnd registry_list (\<lambda>priors.
          (let sid = score_name cfg;
               prior_ids = map fst (filter (\<lambda>(i, r). sr_score_path r = path \<and> i \<noteq> sid) priors)
           in if ro_before_wait ro = Some False then throw RuntimeError
              else thn (admit (ro_refused ro))
                  (thn (for_each prior_ids remove_locked)
                     (case score_schedule cfg of
                        None \<Rightarrow> bnd (registry_get sid) (\<lambda>r.
                          thn (whn (r \<noteq> None) (remove_locked sid)) (ret None))
                      | Some sc \<Rightarrow> enroll ev path sid sc digest ro))))))"

definition reregister :: "recurrence_env \<Rightarrow> registration_options \<Rightarrow> string option \<Rightarrow> unit rec_act" where
  "reregister ev ro replacement = (case replacement of
      None \<Rightarrow> ret () | Some path \<Rightarrow> thn (register ev path ro) (ret ()))"

definition handle_tick :: "recurrence_env \<Rightarrow> cron_tick \<Rightarrow> unit rec_act" where
  "handle_tick ev e = (case ct_due_at e of
      None \<Rightarrow> ret ()
    | Some due_at \<Rightarrow>
        bnd (handle_tick_locked ev (ct_entry_name e) due_at (ct_timestamp e))
          (reregister ev plain_registration))"

definition restore_one ::
  "recurrence_env \<Rightarrow> instant \<Rightarrow> string \<times> schedule_row \<Rightarrow> unit rec_act" where
  "restore_one ev current x = (case x of (sid, r) \<Rightarrow>
     if \<not> sr_enabled r then ret ()
     else if sr_next_due_at r \<le> current
     then handle_tick ev \<lparr>ct_entry_name = sid, ct_score_path = sr_score_path r,
            ct_due_at = Some (sr_next_due_at r), ct_timestamp = current\<rparr>
     else bnd (registry_get sid) (\<lambda>refreshed. thn (cancel_timer sid)
            (case refreshed of
               None \<Rightarrow> ret ()
             | Some r' \<Rightarrow> whn (sr_enabled r') (arm_record ev sid r' current))))"

definition restore :: "recurrence_env \<Rightarrow> unit rec_act" where
  "restore ev =
     bnd current_time (\<lambda>current. bnd registry_list (\<lambda>rows. for_each rows (restore_one ev current)))"

text \<open>\<open>_lock_current_schedule\<close>: the schedule by id, or the only one of a source.\<close>

definition current_schedule ::
  "recurrence_env \<Rightarrow> string \<Rightarrow> string option \<Rightarrow> (string \<times> schedule_row) rec_act" where
  "current_schedule ev sid score_path = (case score_path of
      None \<Rightarrow> bnd (registry_get sid) (\<lambda>r. case r of
          None \<Rightarrow> throw RuntimeError | Some x \<Rightarrow> ret (sid, x))
    | Some p \<Rightarrow>
        (let path = re_resolve ev p in
         bnd registry_list (\<lambda>rows.
           case filter (\<lambda>(i, r). re_resolve ev (sr_score_path r) = path) rows of
             [(i, r)] \<Rightarrow>
               bnd (registry_get i) (\<lambda>refreshed. case refreshed of
                   None \<Rightarrow> throw RuntimeError
                 | Some x \<Rightarrow> if re_resolve ev (sr_score_path x) \<noteq> path then throw RuntimeError
                            else ret (i, x))
           | _ \<Rightarrow> throw RuntimeError)))"

definition pause_schedule ::
  "recurrence_env \<Rightarrow> string \<Rightarrow> string option \<Rightarrow> py_exn option \<Rightarrow> schedule_row rec_act" where
  "pause_schedule ev sid score_path refused =
     bnd (current_schedule ev sid score_path) (\<lambda>(i, r).
     thn (admit refused)
    (thn (set_enabled i False)
    (thn (cancel_timer i)
    (bnd (registry_get i) (\<lambda>refreshed. case refreshed of
       None \<Rightarrow> throw RuntimeError | Some x \<Rightarrow> ret x)))))"

definition resume_schedule ::
  "recurrence_env \<Rightarrow> string \<Rightarrow> string option \<Rightarrow> py_exn option \<Rightarrow> schedule_row rec_act" where
  "resume_schedule ev sid score_path refused =
     bnd (current_schedule ev sid score_path) (\<lambda>(i, authority).
     thn (admit refused)
    (thn (set_enabled i True)
    (bnd (registry_get i) (\<lambda>record. case record of
       None \<Rightarrow> throw RuntimeError
     | Some r \<Rightarrow>
         bnd current_time (\<lambda>current.
         bnd (if sr_next_due_at r \<le> current
              then handle_tick_locked ev i (sr_next_due_at r) current
              else thn (arm_record ev i r current) (ret None)) (\<lambda>replacement.
         thn (reregister ev (plain_registration\<lparr>ro_refused := refused\<rparr>) replacement)
             (ret r)))))))"

definition remove_schedule ::
  "recurrence_env \<Rightarrow> string \<Rightarrow> string option \<Rightarrow> py_exn option \<Rightarrow> schedule_row rec_act" where
  "remove_schedule ev sid score_path refused =
     bnd (current_schedule ev sid score_path) (\<lambda>(i, r).
     thn (admit refused) (thn (remove_locked i) (ret r)))"

definition shutdown_schedules :: "unit rec_act" where
  "shutdown_schedules = modify (\<lambda>w. w\<lparr>rec_shutting_down := True, rec_timers := []\<rparr>)"

subsection \<open>Runs\<close>

text \<open>
  What can happen: the controller's operations with any arguments (a tick may carry any due
  time), edits of files, time passing, and the process being replaced by a new one, which
  keeps the database, the witness and the files only.
\<close>

datatype rec_op =
    Register string registration_options
  | Tick cron_tick
  | Restore
  | PauseSchedule string "string option" "py_exn option"
  | ResumeSchedule string "string option" "py_exn option"
  | RemoveSchedule string "string option" "py_exn option"
  | Shutdown
  | Restart
  | Edit "(string, py_exn + score \<times> string) dict"
  | World "int list" "py_exn option list"

definition rec_action :: "recurrence_env \<Rightarrow> rec_op \<Rightarrow> unit rec_act" where
  "rec_action ev op = (case op of
      Register path ro \<Rightarrow> thn (register ev path ro) (ret ())
    | Tick e \<Rightarrow> handle_tick ev e
    | Restore \<Rightarrow> restore ev
    | PauseSchedule sid p e \<Rightarrow> thn (pause_schedule ev sid p e) (ret ())
    | ResumeSchedule sid p e \<Rightarrow> thn (resume_schedule ev sid p e) (ret ())
    | RemoveSchedule sid p e \<Rightarrow> thn (remove_schedule ev sid p e) (ret ())
    | Shutdown \<Rightarrow> shutdown_schedules
    | Restart \<Rightarrow> modify (\<lambda>w. w\<lparr>rec_timers := [], rec_shutting_down := False\<rparr>)
    | Edit fs \<Rightarrow> modify (\<lambda>w. w\<lparr>rec_files := fs\<rparr>)
    | World ds fs \<Rightarrow> modify (\<lambda>w. w\<lparr>rec_delays := ds, rec_faults := fs\<rparr>))"

definition rec_step :: "recurrence_env \<Rightarrow> rec_op \<Rightarrow> recurrence \<Rightarrow> recurrence" where
  "rec_step ev op w = snd (rec_action ev op w)"

definition rec_run :: "recurrence_env \<Rightarrow> rec_op list \<Rightarrow> recurrence \<Rightarrow> recurrence" where
  "rec_run ev ops = fold (rec_step ev) ops"

definition new_recurrence :: "instant \<Rightarrow> recurrence" where
  "new_recurrence t = \<lparr>rec_rows = [], rec_revision = 0, rec_custody = 0, rec_timers = [],
     rec_shutting_down = False, rec_files = [], rec_clock = t, rec_delays = [], rec_faults = [],
     rec_submissions = []\<rparr>"

text \<open>
  For evaluation an action is unfolded only once it is applied to a state, so that no branch
  is explored before it is taken.
\<close>

lemmas lazy_code [code] =
  current_time_def [THEN fun_cong] load_score_def [THEN fun_cong] access_def [THEN fun_cong]
  checked_identity_def [THEN fun_cong] execute_mutation_def [THEN fun_cong]
  registry_get_def [THEN fun_cong] registry_list_def [THEN fun_cong]
  registry_upsert_def [THEN fun_cong] require_row_def [THEN fun_cong]
  set_enabled_def [THEN fun_cong] registry_remove_def [THEN fun_cong]
  claim_due_def [THEN fun_cong] record_submission_def [THEN fun_cong]
  record_tick_outcome_def [THEN fun_cong] cancel_timer_def [THEN fun_cong]
  arm_next_def [THEN fun_cong] arm_record_def [THEN fun_cong] remove_locked_def [THEN fun_cong]
  record_outcome_def [THEN fun_cong] attempt_def [THEN fun_cong] lift_sum_def [THEN fun_cong]
  submit_child_def [THEN fun_cong] drop_tick_def [THEN fun_cong] submit_tick_def [THEN fun_cong]
  launch_tick_def [THEN fun_cong] loaded_tick_def [THEN fun_cong]
  claimed_tick_def [THEN fun_cong] advance_stale_claim_def [THEN fun_cong]
  handle_tick_locked_def [THEN fun_cong] admit_def [THEN fun_cong] enroll_def [THEN fun_cong]
  register_def [THEN fun_cong] reregister_def [THEN fun_cong] handle_tick_def [THEN fun_cong]
  restore_one_def [THEN fun_cong] restore_def [THEN fun_cong]
  current_schedule_def [THEN fun_cong] pause_schedule_def [THEN fun_cong]
  resume_schedule_def [THEN fun_cong] remove_schedule_def [THEN fun_cong]
  rec_action_def [THEN fun_cong] ret_def [THEN fun_cong] throw_def [THEN fun_cong]
  bnd_def [THEN fun_cong] thn_def [THEN fun_cong] get_st_def [THEN fun_cong]
  modify_def [THEN fun_cong] pure_op_def [THEN fun_cong] whn_def [THEN fun_cong]
  lift_res_def [THEN fun_cong]

end
