(* ===== verification/Recurrence_Safe.thy ===== *)
theory Recurrence_Safe
  imports Recurrence
begin

section \<open>Correctness of recurring schedules\<close>

text \<open>
  Interval schedules keep their phase; over any run, with failing accesses, edits and
  restarts, no due time of a schedule is submitted twice; a tick submits only what its pin
  allows; and an enabled schedule keeps a timer for its next due time.
\<close>

subsection \<open>Due times\<close>

lemma parse_interval_positive:
  "parse_interval_seconds v = Inr secs \<Longrightarrow> 0 < duration_of secs \<and> duration_of secs \<le> TIMEDELTA_MAX"
  by (auto simp: parse_interval_seconds_def Let_def split: option.splits prod.splits if_splits)

lemma next_multiple:
  fixes a t d :: int
  assumes "0 < d" "a \<le> t"
  shows "t < a + d * ((t - a) div d + 1)" and "a + d * ((t - a) div d) \<le> t"
proof -
  have m: "t - a = d * ((t - a) div d) + (t - a) mod d" by simp
  have "0 \<le> (t - a) mod d" "(t - a) mod d < d" using assms(1) by simp_all
  then show "t < a + d * ((t - a) div d + 1)" and "a + d * ((t - a) div d) \<le> t"
    using m unfolding distrib_left by linarith+
qed

definition cron_advances :: "cron_next \<Rightarrow> bool" where
  "cron_advances cron \<longleftrightarrow> (\<forall>expr tz a n. cron expr tz a = Inr n \<longrightarrow> a < n)"

lemma next_due_later:
  assumes "cron_advances cron" and "next_due_at cron sc after anchor = Inr n"
  shows "after < n"
proof (cases "sc_cron sc")
  case (Some expr)
  then show ?thesis using assms by (auto simp: next_due_at_def cron_advances_def)
next
  case None
  obtain v secs a where v: "sc_interval sc = Some v" "parse_interval_seconds v = Inr secs"
    "a = (case anchor of Some a \<Rightarrow> a | None \<Rightarrow> after)"
    and n: "n = (if a > after then a + duration_of secs
       else a + duration_of secs * ((after - a) div duration_of secs + 1))"
    using assms(2) None by (auto simp: next_due_at_def Let_def split: option.splits sum.splits if_splits)
  have "0 < duration_of secs" using parse_interval_positive [OF v(2)] by simp
  then show ?thesis using n next_multiple(1) [of "duration_of secs" a after] by (simp split: if_splits)
qed

lemma calculate_next_later:
  "cron_advances cron \<Longrightarrow> calculate_next cron sc due current = Inr n \<Longrightarrow> due < n \<and> current < n"
  by (auto simp: calculate_next_def dest: next_due_later split: sum.splits if_splits)

text \<open>
  C17. An interval schedule never drifts. With an interval of \<open>d\<close> microseconds, the next due
  time after a tick that was due at \<open>anchor\<close> is \<open>anchor + k d\<close> for some \<open>k \<ge> 1\<close>, whenever the
  tick is handled; it is the first of these instants after \<open>current\<close>, so missed ones are
  skipped, not queued; and the computation fails only beyond the last representable date.
\<close>

theorem interval_ticks_keep_phase:
  assumes "sc_cron sc = None" and "sc_interval sc = Some v" and "parse_interval_seconds v = Inr secs"
    and "d = duration_of secs" and "anchor \<le> current"
  shows "(\<forall>n. calculate_next cron sc anchor current = Inr n \<longrightarrow>
      (\<exists>k \<ge> 1. n = anchor + k * d) \<and> current < n \<and> n \<le> current + d \<and>
      (\<forall>k. current < anchor + k * d \<longrightarrow> n \<le> anchor + k * d)) \<and>
    (\<forall>e. calculate_next cron sc anchor current = Inl e \<longleftrightarrow>
      e = OverflowError \<and> DATETIME_MAX < anchor + d * ((current - anchor) div d + 1))"
proof (intro conjI allI impI)
  let ?n = "anchor + d * ((current - anchor) div d + 1)"
  have d: "0 < d" using parse_interval_positive [OF assms(3)] assms(4) by simp
  note lo = next_multiple(1) [OF d assms(5)] and hi = next_multiple(2) [OF d assms(5)]
  have run: "calculate_next cron sc anchor current =
      (if ?n > DATETIME_MAX then Inl OverflowError else Inr ?n)"
    using assms d lo by (auto simp: calculate_next_def next_due_at_def Let_def)
  show "calculate_next cron sc anchor current = Inl e \<longleftrightarrow>
      e = OverflowError \<and> DATETIME_MAX < ?n" for e
    using run by auto
  fix n assume "calculate_next cron sc anchor current = Inr n"
  then have n: "n = ?n" using run by (simp split: if_splits)
  have "0 \<le> (current - anchor) div d" using d assms(5) by (simp add: pos_imp_zdiv_nonneg_iff)
  then show "\<exists>k \<ge> 1. n = anchor + k * d"
    by (intro exI [where x = "(current - anchor) div d + 1"]) (simp add: n algebra_simps)
  show "current < n" using lo n by simp
  show "n \<le> current + d" using hi n by (simp add: algebra_simps)
  fix k assume "current < anchor + k * d"
  then have "d * ((current - anchor) div d) < d * k" using hi by (simp add: algebra_simps)
  then have "(current - anchor) div d + 1 \<le> k" using d by simp
  then have "d * ((current - anchor) div d + 1) \<le> d * k" using d by (intro mult_left_mono) simp_all
  then show "n \<le> anchor + k * d" using n by (simp add: algebra_simps)
qed

definition every_quarter :: schedule_config where
  "every_quarter = \<lparr>sc_enabled = True, sc_cron = None, sc_interval = Some ''15m'',
     sc_timezone = None, sc_misfire = MisfireSkip, sc_jitter_seconds = 0,
     sc_pin_source_digest = False\<rparr>"

theorem interval_ticks_keep_phase_witness:
  "(\<exists>k \<ge> 1. (2700000000::int) = 0 + k * 900000000) \<and>
   calculate_next (\<lambda>expr tz a. Inl ValueError) every_quarter 0 2000000000 = Inr 2700000000"
proof -
  have run: "calculate_next (\<lambda>expr tz a. Inl ValueError) every_quarter 0 2000000000 = Inr 2700000000"
    by code_simp
  have p: "parse_interval_seconds ''15m'' = Inr 900" and d: "900000000 = duration_of 900"
    by code_simp+
  have c: "sc_cron every_quarter = None" "sc_interval every_quarter = Some ''15m''"
    by (simp_all add: every_quarter_def)
  have "(0::instant) \<le> 2000000000" by simp
  note D = interval_ticks_keep_phase [OF c p d this, where cron = "\<lambda>expr tz a. Inl ValueError"]
  from D [THEN conjunct1, THEN spec, THEN mp, OF run, THEN conjunct1] run show ?thesis by simp
qed

subsection \<open>No due time is submitted twice\<close>

text \<open>
  What the registry must say about a due time that is taken: the schedule is past it, or its
  claim is still standing. \<open>guard c D\<close> says so for a set of schedules and due times up to \<open>c\<close>.
\<close>

definition row_past :: "instant \<Rightarrow> schedule_row \<Rightarrow> bool" where
  "row_past d r \<longleftrightarrow> d < sr_next_due_at r \<or>
     (sr_next_due_at r = d \<and> sr_last_claimed_due_at r = Some d)"

definition guard :: "instant \<Rightarrow> (string \<times> instant) set \<Rightarrow> recurrence \<Rightarrow> bool" where
  "guard c D w \<longleftrightarrow> (\<forall>(i, d) \<in> D. d \<le> c \<and> (\<forall>r. dget (rec_rows w) i = Some r \<longrightarrow> row_past d r))"

text \<open>A step up to the time \<open>c\<close> that submits nothing and takes nothing back.\<close>

definition quiet :: "instant \<Rightarrow> recurrence \<Rightarrow> recurrence \<Rightarrow> bool" where
  "quiet c v w \<longleftrightarrow> rec_submissions w = rec_submissions v \<and> rec_clock v \<le> rec_clock w \<and>
     (\<forall>D. guard c D v \<longrightarrow> guard c D w)"

interpretation q: evolution "quiet c" for c
  by unfold_locales (auto simp: quiet_def)

lemma quiet_same_rows:
  "rec_rows w = rec_rows v \<Longrightarrow> rec_submissions w = rec_submissions v \<Longrightarrow> rec_clock v \<le> rec_clock w
   \<Longrightarrow> quiet c v w"
  by (simp add: quiet_def guard_def)

definition harmless :: "instant \<Rightarrow> (schedule_rows \<Rightarrow> instant \<Rightarrow> schedule_rows \<times> nat) \<Rightarrow> bool" where
  "harmless c stmt \<longleftrightarrow> (\<forall>rows now i r. dget (fst (stmt rows now)) i = Some r \<longrightarrow>
     c < sr_next_due_at r \<or> (\<exists>r'. dget rows i = Some r' \<and> (\<forall>d. row_past d r' \<longrightarrow> row_past d r)))"

lemma evolves_access: "(\<And>v fs. R v (v\<lparr>rec_faults := fs\<rparr>)) \<Longrightarrow> (\<And>v. R v v) \<Longrightarrow> evolves R access"
  by (auto simp: evolves_def access_def split: list.splits option.splits)

lemma quiet_access: "evolves (quiet c) access"
  by (rule evolves_access) (simp_all add: quiet_same_rows)

lemma quiet_identity: "evolves (quiet c) checked_identity"
  unfolding checked_identity_def by (intro q.evo_rules quiet_access)

lemma quiet_mutation: "harmless c stmt \<Longrightarrow> evolves (quiet c) (execute_mutation stmt)"
  unfolding execute_mutation_def
proof (intro q.evo_rules quiet_access quiet_identity)
  show "quiet c w (w\<lparr>rec_custody := rec_revision w + 1\<rparr>)" for w by (simp add: quiet_same_rows)
  fix w assume h: "harmless c stmt"
  show "quiet c w (snd (let (rows, n) = stmt (rec_rows w) (rec_clock w)
      in (n, w\<lparr>rec_rows := rows, rec_revision := rec_revision w + 1\<rparr>)))"
    using h [unfolded harmless_def, rule_format, of "rec_rows w" "rec_clock w"]
    by (fastforce simp: quiet_def guard_def row_past_def split: prod.splits)
qed

lemma harmless_update:
  "(\<And>r now. p r \<Longrightarrow> c < sr_next_due_at (f now r) \<or> (\<forall>d. row_past d r \<longrightarrow> row_past d (f now r))) \<Longrightarrow>
   harmless c (\<lambda>rows now. update_where sid p (f now) rows)"
  by (auto simp: harmless_def update_where_def split: option.splits if_splits)

lemma harmless_upsert: "c < next_due \<Longrightarrow> harmless c (upsert_rows sid name path sc digest next_due pinned rid)"
  by (auto simp: harmless_def upsert_rows_def split: option.splits if_splits)

lemma quiet_get: "evolves (quiet c) (registry_get sid)"
  unfolding registry_get_def by (intro q.evo_rules quiet_access quiet_identity)

lemma quiet_list: "evolves (quiet c) registry_list"
  unfolding registry_list_def by (intro q.evo_rules quiet_access quiet_identity)

lemma quiet_require: "evolves (quiet c) (require_row n)"
  unfolding require_row_def by (intro q.evo_rules)

lemma quiet_upsert:
  "c < next_due \<Longrightarrow> evolves (quiet c) (registry_upsert sid name path sc digest next_due pinned rid)"
  unfolding registry_upsert_def by (intro q.evo_rules quiet_mutation harmless_upsert)

lemma quiet_set_enabled: "evolves (quiet c) (set_enabled sid on_off)"
  unfolding set_enabled_def
  by (intro q.evo_rules quiet_get quiet_require quiet_mutation harmless_update) (simp add: row_past_def)

lemma quiet_remove: "evolves (quiet c) (registry_remove sid)"
  unfolding registry_remove_def
  by (intro q.evo_rules quiet_get quiet_require quiet_mutation)
    (auto simp: harmless_def split: option.splits if_splits)

lemma quiet_claim: "evolves (quiet c) (claim_due sid due current)"
  unfolding claim_due_def
  by (intro q.evo_rules quiet_mutation harmless_update) (auto simp: row_past_def)

lemma quiet_record_submission: "evolves (quiet c) (record_submission sid due run)"
  unfolding record_submission_def
  by (intro q.evo_rules quiet_require quiet_mutation harmless_update) (simp add: row_past_def)

lemma quiet_tick_outcome:
  "c < next_due \<Longrightarrow> evolves (quiet c) (record_tick_outcome sid due outcome next_due dropped)"
  unfolding record_tick_outcome_def
  by (intro q.evo_rules quiet_require quiet_mutation harmless_update) simp

lemma quiet_cancel: "evolves (quiet c) (cancel_timer sid)"
  unfolding cancel_timer_def by (intro q.evo_rules) (simp add: quiet_same_rows)

lemma quiet_arm: "evolves (quiet c) (arm_next ev sid path sc due current)"
  unfolding arm_next_def
  by (intro q.evo_rules quiet_cancel) (simp add: quiet_same_rows Let_def)

lemma quiet_arm_record: "evolves (quiet c) (arm_record ev sid r current)"
  unfolding arm_record_def by (rule quiet_arm)

lemma quiet_outcome:
  "c < next_due \<Longrightarrow> evolves (quiet c) (record_outcome sid due outcome next_due dropped)"
  unfolding record_outcome_def by (intro q.evo_rules quiet_tick_outcome quiet_get)

lemma quiet_remove_locked: "evolves (quiet c) (remove_locked sid)"
  unfolding remove_locked_def by (intro q.evo_rules quiet_cancel quiet_remove)

lemma quiet_drop:
  "c < next_due \<Longrightarrow> evolves (quiet c) (drop_tick ev sid due outcome path sc next_due current)"
  unfolding drop_tick_def by (intro q.evo_rules quiet_outcome quiet_arm)

lemma quiet_lift_sum: "evolves (quiet c) (lift_sum r)"
  unfolding lift_sum_def by (cases r) (simp_all add: q.evo_rules)

lemma quiet_load: "evolves (quiet c) (load_score path)"
  unfolding load_score_def by (rule q.evo_lift_res)

lemma quiet_attempt: "evolves (quiet c) m \<Longrightarrow> evolves (quiet c) (attempt m)"
  by (simp add: evolves_def attempt_def split: prod.splits) (metis snd_conv)

lemma quiet_clock: "evolves (quiet c) current_time"
  unfolding current_time_def
  by (intro q.evo_rules) (auto simp: quiet_same_rows Let_def split: list.split)

lemma quiet_admit: "evolves (quiet c) (admit refused)"
  unfolding admit_def by (intro q.evo_rules)

lemmas quiet_rules = quiet_access quiet_identity quiet_get quiet_list quiet_require quiet_upsert
  quiet_set_enabled quiet_remove quiet_claim quiet_record_submission quiet_cancel quiet_arm
  quiet_arm_record quiet_outcome quiet_remove_locked quiet_drop quiet_lift_sum quiet_load
  quiet_attempt quiet_clock quiet_admit

text \<open>
  The invariant up to the time \<open>c\<close>: what has been submitted for a schedule grows, and the
  registry knows. \<open>taken\<close> is the state between a claim and its submission.
\<close>

abbreviation key_of :: "submission \<Rightarrow> string \<times> instant" where
  "key_of s \<equiv> (sub_schedule_id s, sub_due_at s)"

definition growing :: "(string \<times> instant) list \<Rightarrow> bool" where
  "growing ks \<longleftrightarrow> sorted_wrt (\<lambda>(i, d) (j, e). i = j \<longrightarrow> d < e) ks"

definition holds_at :: "instant \<Rightarrow> (string \<times> instant) list \<Rightarrow> recurrence \<Rightarrow> bool" where
  "holds_at c extra w \<longleftrightarrow> c \<le> rec_clock w \<and> growing (map key_of (rec_submissions w) @ extra) \<and>
     guard c (set (map key_of (rec_submissions w) @ extra)) w"

definition orderly_log :: "recurrence \<Rightarrow> bool" where
  "orderly_log w \<longleftrightarrow> holds_at (rec_clock w) [] w"

lemma quiet_holds: "evolves (quiet c) m \<Longrightarrow> ensures (holds_at c ks) m (holds_at c ks)"
  unfolding ensures_def evolves_def holds_at_def quiet_def by (metis order_trans)

lemma holds_orderly: "holds_at c [] w \<Longrightarrow> orderly_log w"
  by (fastforce simp: holds_at_def orderly_log_def guard_def)

lemma quiet_orderly: "(\<And>c. evolves (quiet c) m) \<Longrightarrow> ensures orderly_log m orderly_log"
  unfolding ensures_def orderly_log_def
  using quiet_holds [unfolded ensures_def] holds_orderly [unfolded orderly_log_def] by blast

lemma ensures_clock:
  assumes "\<And>c. ensures (holds_at c []) (f c) orderly_log"
  shows "ensures orderly_log (bnd current_time f) orderly_log"
  unfolding ensures_def
proof (intro allI impI)
  fix w assume w: "orderly_log w"
  define t where "t = rec_clock w + (case rec_delays w of [] \<Rightarrow> 0 | d # ds \<Rightarrow> max 0 d)"
  define v where "v = w\<lparr>rec_clock := t, rec_delays := tl (rec_delays w)\<rparr>"
  have run: "current_time w = (Inr t, v)" by (simp add: current_time_def t_def v_def Let_def)
  have "rec_clock w \<le> t" by (simp add: t_def split: list.split)
  then have "holds_at t [] v" using w
    by (fastforce simp: orderly_log_def holds_at_def v_def guard_def)
  then show "orderly_log (snd (bnd current_time f w))"
    using ensuresD [OF assms] by (simp add: run)
qed

text \<open>What a mutation does: nothing to the rows if it raises, else its statement.\<close>

definition elsewhere_same :: "recurrence \<Rightarrow> recurrence \<Rightarrow> bool" where
  "elsewhere_same v w \<longleftrightarrow> rec_timers w = rec_timers v \<and> rec_shutting_down w = rec_shutting_down v \<and>
     rec_files w = rec_files v \<and> rec_clock w = rec_clock v \<and> rec_delays w = rec_delays v \<and>
     rec_submissions w = rec_submissions v"

definition reads_only :: "recurrence \<Rightarrow> recurrence \<Rightarrow> bool" where
  "reads_only v w \<longleftrightarrow> rec_rows w = rec_rows v \<and> elsewhere_same v w"

interpretation reads: evolution reads_only
  by unfold_locales (auto simp: reads_only_def elsewhere_same_def)

lemma reads_access: "evolves reads_only access"
  by (rule evolves_access) (simp_all add: reads_only_def elsewhere_same_def)

lemma reads_identity: "evolves reads_only checked_identity"
  unfolding checked_identity_def by (intro reads.evo_rules reads_access)

lemma execute_mutation_run:
  obtains e v where "execute_mutation stmt w = (Inl e, v)" "reads_only w v"
  | n v where "execute_mutation stmt w = (Inr n, v)" "elsewhere_same w v"
      "stmt (rec_rows w) (rec_clock w) = (rec_rows v, n)"
proof -
  define pre where "pre = thn access (thn checked_identity (thn access
    (thn (modify (\<lambda>w. w\<lparr>rec_custody := rec_revision w + 1\<rparr>)) access)))"
  have run: "execute_mutation stmt = thn pre (pure_op (\<lambda>w. let (rows, n) = stmt (rec_rows w) (rec_clock w)
      in (n, w\<lparr>rec_rows := rows, rec_revision := rec_revision w + 1\<rparr>)))"
    by (rule ext) (simp add: execute_mutation_def pre_def run_thn split: prod.splits sum.splits)
  have "evolves reads_only pre"
    unfolding pre_def by (intro reads.evo_rules reads_access reads_identity)
      (simp add: reads_only_def elsewhere_same_def)
  then have r: "reads_only w (snd (pre w))" by (rule evolvesD)
  obtain x v where p: "pre w = (x, v)" by (cases "pre w")
  show thesis
  proof (cases x)
    case (Inl e)
    then show ?thesis using that(1) r p by (simp add: run)
  next
    case (Inr u)
    obtain rows n where st: "stmt (rec_rows v) (rec_clock v) = (rows, n)" by (cases "stmt (rec_rows v) (rec_clock v)")
    from Inr show ?thesis using r p st
      by (intro that(2) [of n "v\<lparr>rec_rows := rows, rec_revision := rec_revision v + 1\<rparr>"])
        (simp_all add: run reads_only_def elsewhere_same_def)
  qed
qed

lemma claim_due_run:
  obtains e v where "claim_due sid due c w = (Inl e, v)" "reads_only w v"
  | v where "claim_due sid due c w = (Inr False, v)" "reads_only w v"
  | r v where "claim_due sid due c w = (Inr True, v)" "elsewhere_same w v"
      "dget (rec_rows w) sid = Some r" "sr_enabled r" "sr_next_due_at r = due" "due \<le> c"
      "sr_last_claimed_due_at r \<noteq> Some due"
      "rec_rows v = dset (rec_rows w) sid
         (r\<lparr>sr_last_claimed_due_at := Some due, sr_updated_at := rec_clock w\<rparr>)"
proof -
  let ?stmt = "\<lambda>rows now. update_where sid
      (\<lambda>r. sr_enabled r \<and> sr_next_due_at r = due \<and> due \<le> c \<and> sr_last_claimed_due_at r \<noteq> Some due)
      (\<lambda>r. r\<lparr>sr_last_claimed_due_at := Some due, sr_updated_at := now\<rparr>) rows"
  have run: "claim_due sid due c w = bnd (execute_mutation ?stmt) (\<lambda>n. ret (n = 1)) w"
    by (simp add: claim_due_def)
  show thesis
  proof (cases rule: execute_mutation_run [of ?stmt w])
    case (1 e v)
    then show ?thesis using that(1) by (simp add: run)
  next
    case (2 n v)
    then have "claim_due sid due c w = (Inr (n = 1), v)" by (simp add: run)
    with 2 show ?thesis
      using that(2) [of v] that(3) [of v]
      by (auto simp: update_where_def reads_only_def split: option.splits if_splits)
  qed
qed

lemma ensures_claim:
  assumes "due \<le> c" and "ensures (holds_at c []) (f False) Q"
    and "ensures (holds_at c [(sid, due)]) (f True) Q" and "\<And>w. holds_at c [] w \<Longrightarrow> Q w"
  shows "ensures (holds_at c []) (bnd (claim_due sid due c) f) Q"
  unfolding ensures_def
proof (intro allI impI)
  fix w assume w: "holds_at c [] w"
  have quiet': "holds_at c [] (snd (claim_due sid due c w))"
    using quiet_holds [OF quiet_claim] w by (rule ensuresD)
  show "Q (snd (bnd (claim_due sid due c) f w))"
  proof (cases rule: claim_due_run [of sid due c w])
    case (1 e v)
    then show ?thesis using quiet' assms(4) by simp
  next
    case (2 v)
    then show ?thesis using quiet' assms(2) by (simp add: ensures_def bnd_def)
  next
    case (3 r v)
    have "d < due" if "(sid, d) \<in> set (map key_of (rec_submissions w))" for d
    proof -
      have "row_past d r" using w that 3(3) by (auto simp: holds_at_def guard_def)
      then show ?thesis using 3(5,7) by (auto simp: row_past_def)
    qed
    then have "holds_at c [(sid, due)] v"
      using quiet' 3 by (auto simp: holds_at_def growing_def sorted_wrt_append guard_def row_past_def elsewhere_same_def)
    then show ?thesis using 3(1) assms(3) by (simp add: ensures_def)
  qed
qed

lemma ensures_submit:
  assumes "key_of req = (sid, due)" and "\<And>x. ensures (holds_at c []) (f x) Q"
  shows "ensures (holds_at c [(sid, due)]) (bnd (attempt (submit_child ev req)) f) Q"
  unfolding ensures_def
proof (intro allI impI)
  fix w assume w: "holds_at c [(sid, due)] w"
  let ?v = "w\<lparr>rec_submissions := rec_submissions w @ [req]\<rparr>"
  have "holds_at c [] ?v" using w assms(1) by (auto simp: holds_at_def guard_def)
  then show "Q (snd (bnd (attempt (submit_child ev req)) f w))"
    using assms(2) by (simp add: bnd_def attempt_def submit_child_def ensures_def)
qed

lemma ensures_next:
  assumes "cron_advances (re_cron ev)" and "\<And>w. P w \<Longrightarrow> Q w"
    and "\<And>n. c < n \<Longrightarrow> due < n \<Longrightarrow> ensures P (f n) Q"
  shows "ensures P (bnd (lift_sum (calculate_next (re_cron ev) sc due c)) f) Q"
  using assms calculate_next_later [OF assms(1), of sc due c]
  by (cases "calculate_next (re_cron ev) sc due c") (auto simp: ensures_def lift_sum_def bnd_def)

lemma holds_release: "holds_at c [k] w \<Longrightarrow> holds_at c [] w"
  by (auto simp: holds_at_def guard_def growing_def sorted_wrt_append)

lemma ensures_quiet:
  "evolves (quiet c) m \<Longrightarrow> ensures (holds_at c [k]) m (holds_at c [])"
  using quiet_holds holds_release by (rule ensures_weaken)

text \<open>The handlers, from the submission outwards.\<close>

lemma submit_tick_orderly:
  assumes "c < next_due"
  shows "ensures (holds_at c [(sid, due)]) (submit_tick ev sid r sc name due next_due c) (holds_at c [])"
  unfolding submit_tick_def
proof (rule ensures_submit)
  show "ensures (holds_at c [])
      (case x of Inl e \<Rightarrow> if is_Exception e
           then thn (drop_tick ev sid due ''submission_error'' (sr_score_path r) sc next_due c) (throw e)
           else throw e
       | Inr rsp \<Rightarrow> thn (if rsp_status rsp \<noteq> Rejected
             then thn (record_submission sid due (rsp_job_id rsp)) (record_outcome sid due ''submitted'' next_due False)
             else record_outcome sid due ''submission_rejected'' next_due True)
           (arm_next ev sid (sr_score_path r) sc next_due c)) (holds_at c [])" for x
    using assms by (cases x) (auto intro!: quiet_holds q.evo_rules quiet_rules)
qed simp

lemma ensures_if:
  "(c \<Longrightarrow> ensures P m Q) \<Longrightarrow> (\<not> c \<Longrightarrow> ensures P k Q) \<Longrightarrow> ensures P (if c then m else k) Q"
  by simp

lemma ensures_get: "(\<And>w. ensures P (f w) Q) \<Longrightarrow> ensures P (bnd get_st f) Q"
  by (simp add: ensures_def bnd_def)

lemma launch_tick_orderly:
  assumes "cron_advances (re_cron ev)"
  shows "ensures (holds_at c [(sid, due)]) (launch_tick ev sid r sc name digest misfired due c) (holds_at c [])"
  unfolding launch_tick_def
proof (rule ensures_next [OF assms holds_release])
  fix n assume n: "c < n" "due < n"
  show "ensures (holds_at c [(sid, due)])
     (thn (whn (digest \<noteq> sr_source_digest r) (registry_upsert sid name (sr_score_path r) sc digest n None None))
       (if \<not> sc_enabled sc then record_outcome sid due ''schedule_disabled'' n False
        else if misfired \<and> sc_misfire sc = MisfireSkip
        then drop_tick ev sid due ''misfire_skipped'' (sr_score_path r) sc n c
        else bnd get_st (\<lambda>w. if re_is_active ev (rec_submissions w) sid
          then drop_tick ev sid due ''overlap_skipped'' (sr_score_path r) sc n c
          else submit_tick ev sid r sc name due n c))) (holds_at c [])"
    using n(1)
    by (intro ensures_thn [where P' = "holds_at c [(sid, due)]"] ensures_if ensures_get)
      (assumption | rule quiet_holds ensures_quiet submit_tick_orderly holds_release
        q.evo_whn quiet_rules)+
qed

lemma loaded_tick_orderly:
  assumes "cron_advances (re_cron ev)" and "c < next_due"
  shows "ensures (holds_at c [(sid, due)])
    (loaded_tick ev sid r cfg digest misfired due next_due c) (holds_at c [])"
proof (cases "score_schedule cfg")
  case None
  then show ?thesis using assms(2)
    by (auto simp: loaded_tick_def intro!: ensures_quiet q.evo_rules quiet_rules)
next
  case (Some sc)
  have launch: "ensures (holds_at c [(sid, due)])
      (thn (launch_tick ev sid r sc name digest misfired due c) (ret None)) (holds_at c [])" for name
    by (rule ensures_thn [OF launch_tick_orderly [OF assms(1)] quiet_holds [OF q.evo_ret]])
  show ?thesis unfolding loaded_tick_def Some option.case using assms(2)
    by (intro ensures_if launch) (auto intro!: ensures_quiet q.evo_rules quiet_rules)
qed

lemma claimed_tick_orderly:
  assumes "cron_advances (re_cron ev)"
  shows "ensures (holds_at c [(sid, due)]) (claimed_tick ev sid r misfired due c) (holds_at c [])"
  unfolding claimed_tick_def
proof (rule ensures_next [OF assms holds_release])
  fix n assume n: "c < n" "due < n"
  show "ensures (holds_at c [(sid, due)]) (bnd (attempt (load_score (sr_score_path r))) (\<lambda>loaded.
      case loaded of
        Inr (cfg, digest) \<Rightarrow> loaded_tick ev sid r cfg digest misfired due n c
      | Inl e \<Rightarrow> if e = FileNotFoundError
          then thn (record_outcome sid due ''source_missing'' n True) (thn (remove_locked sid) (ret None))
          else if source_invalid e
          then thn (drop_tick ev sid due ''source_invalid'' (sr_score_path r) (sr_schedule r) n c) (ret None)
          else throw e)) (holds_at c [])"
  proof (rule ensures_bnd [where P' = "holds_at c [(sid, due)]", OF quiet_holds])
    fix x
    show "ensures (holds_at c [(sid, due)]) (case x of
        Inr (cfg, digest) \<Rightarrow> loaded_tick ev sid r cfg digest misfired due n c
      | Inl e \<Rightarrow> if e = FileNotFoundError
          then thn (record_outcome sid due ''source_missing'' n True) (thn (remove_locked sid) (ret None))
          else if source_invalid e
          then thn (drop_tick ev sid due ''source_invalid'' (sr_score_path r) (sr_schedule r) n c) (ret None)
          else throw e) (holds_at c [])"
      using n by (cases x)
        (auto intro!: ensures_if ensures_quiet q.evo_rules quiet_rules loaded_tick_orderly [OF assms])
  qed (auto intro: quiet_rules holds_release)
qed

lemma advance_stale_orderly:
  assumes "cron_advances (re_cron ev)"
  shows "ensures (holds_at c []) (advance_stale_claim ev sid r due c) (holds_at c [])"
  unfolding advance_stale_claim_def
proof (rule ensures_bnd [where P' = "holds_at c []", OF quiet_holds [OF quiet_get]])
  fix refreshed
  show "ensures (holds_at c []) (case refreshed of
      None \<Rightarrow> ret ()
    | Some r' \<Rightarrow> if \<not> sr_enabled r' then ret ()
        else if sr_next_due_at r' \<noteq> due then arm_record ev sid r' c
        else bnd (lift_sum (calculate_next (re_cron ev) (sr_schedule r) due c))
          (\<lambda>n. drop_tick ev sid due ''stale_claim_skipped'' (sr_score_path r) (sr_schedule r) n c))
      (holds_at c [])"
  proof (cases refreshed)
    case None
    then show ?thesis by (simp add: quiet_holds q.evo_ret)
  next
    case (Some r')
    show ?thesis unfolding Some option.case
      by (intro ensures_if ensures_next [OF assms])
        (assumption | rule quiet_holds q.evo_ret quiet_rules)+
  qed
qed

lemma handle_tick_locked_orderly:
  assumes "cron_advances (re_cron ev)"
  shows "ensures orderly_log (handle_tick_locked ev sid due timestamp) orderly_log"
proof -
  have forget: "evolves (quiet c) (modify (\<lambda>w. case dget (rec_timers w) sid of None \<Rightarrow> w
      | Some t \<Rightarrow> if at_due_at t = due then w\<lparr>rec_timers := ddel (rec_timers w) sid\<rparr> else w))" for c
    by (intro q.evo_rules) (auto simp: quiet_same_rows split: option.splits)
  have claim: "ensures (holds_at c []) (bnd (claim_due sid due c) (\<lambda>claimed.
      if \<not> claimed then thn (advance_stale_claim ev sid r due c) (ret None)
      else claimed_tick ev sid r misfired due c)) (holds_at c [])" if "due \<le> c" for r misfired c
    using that
    by (intro ensures_claim) (auto intro!: claimed_tick_orderly [OF assms]
        ensures_thn [OF advance_stale_orderly [OF assms] quiet_holds] q.evo_rules)
  have due_step: "ensures orderly_log (bnd current_time (\<lambda>c.
      if sr_next_due_at r \<noteq> due \<or> due > c then thn (arm_record ev sid r c) (ret None)
      else bnd (claim_due sid due c) (\<lambda>claimed.
        if \<not> claimed then thn (advance_stale_claim ev sid r due c) (ret None)
        else claimed_tick ev sid r (timestamp > due) due c))) orderly_log" for r
    by (intro ensures_clock ensures_if ensures_weaken [OF claim] ensures_weaken [OF quiet_holds])
      (auto intro: holds_orderly q.evo_rules quiet_rules)
  show ?thesis unfolding handle_tick_locked_def
  proof (rule ensures_thn [OF quiet_orderly [OF forget]])
    show "ensures orderly_log (bnd (registry_get sid) (\<lambda>found. case found of None \<Rightarrow> ret None
      | Some r \<Rightarrow> if \<not> sr_enabled r then ret None
          else bnd current_time (\<lambda>c.
            if sr_next_due_at r \<noteq> due \<or> due > c then thn (arm_record ev sid r c) (ret None)
            else bnd (claim_due sid due c) (\<lambda>claimed.
              if \<not> claimed then thn (advance_stale_claim ev sid r due c) (ret None)
              else claimed_tick ev sid r (timestamp > due) due c)))) orderly_log"
    proof (rule ensures_bnd [OF quiet_orderly [OF quiet_get]])
      show "ensures orderly_log (case found of None \<Rightarrow> ret None
        | Some r \<Rightarrow> if \<not> sr_enabled r then ret None
          else bnd current_time (\<lambda>c.
            if sr_next_due_at r \<noteq> due \<or> due > c then thn (arm_record ev sid r c) (ret None)
            else bnd (claim_due sid due c) (\<lambda>claimed.
              if \<not> claimed then thn (advance_stale_claim ev sid r due c) (ret None)
              else claimed_tick ev sid r (timestamp > due) due c))) orderly_log" for found
      proof (cases found)
        case None
        then show ?thesis by (simp add: quiet_orderly q.evo_ret)
      next
        case (Some r)
        show ?thesis unfolding Some option.case
          by (intro ensures_if due_step quiet_orderly q.evo_ret)
      qed
    qed
  qed
qed

lemma ensures_bnd_same:
  "ensures P m P \<Longrightarrow> (\<And>x. ensures P (f x) P) \<Longrightarrow> ensures P (bnd m f) P"
  by (rule ensures_bnd)

lemma ensures_thn_same: "ensures P m P \<Longrightarrow> ensures P k P \<Longrightarrow> ensures P (thn m k) P"
  by (rule ensures_thn)

lemma ensures_ret_same: "ensures P (ret x) P"
  by (simp add: ensures_def)

lemma ensures_throw_same: "ensures P (throw e) P"
  by (simp add: ensures_def)

lemma ensures_option:
  "ensures P m P \<Longrightarrow> (\<And>x. ensures P (f x) P) \<Longrightarrow> ensures P (case z of None \<Rightarrow> m | Some x \<Rightarrow> f x) P"
  by (cases z) simp_all

lemma ensures_whn: "ensures P m P \<Longrightarrow> ensures P (whn c m) P"
  by (simp add: whn_def ensures_ret_same)

lemma ensures_each: "(\<And>x. ensures P (f x) P) \<Longrightarrow> ensures P (for_each xs f) P"
  by (induction xs) (simp_all add: ensures_ret_same ensures_thn_same)

lemmas ensures_same = ensures_bnd_same ensures_thn_same ensures_ret_same ensures_throw_same
  ensures_option ensures_whn ensures_each

lemmas quiet_ops = quiet_rules [THEN quiet_orderly]

lemma enroll_orderly:
  assumes "cron_advances (re_cron ev)"
  shows "ensures orderly_log (enroll ev path sid sc digest ro) orderly_log"
  unfolding enroll_def
proof (rule ensures_clock)
  fix c
  let ?rest = "\<lambda>due. thn (registry_upsert sid sid path sc digest due
        (if (case ro_pin ro of None \<Rightarrow> sc_pin_source_digest sc | Some p \<Rightarrow> p) then Some digest else None)
        (ro_registration_id ro))
      (thn (cancel_timer sid) (bnd (registry_get sid) (\<lambda>found. case found of
         None \<Rightarrow> throw RuntimeError
       | Some r \<Rightarrow> thn (whn (sr_enabled r) (arm_record ev sid r c)) (ret (Some (sid, r))))))"
  have "evolves (quiet c) (?rest due)" if "c < due" for due
    using that by (intro q.evo_rules quiet_rules)
  then show "ensures (holds_at c []) (bnd (lift_sum (next_due_at (re_cron ev) sc c None)) ?rest) orderly_log"
    using next_due_later [OF assms, of sc c None]
    by (intro ensures_weaken [OF quiet_holds])
      (auto simp: lift_sum_def evolves_def bnd_def q.evo_refl intro: holds_orderly split: sum.splits)
qed

lemma register_orderly:
  assumes "cron_advances (re_cron ev)"
  shows "ensures orderly_log (register ev path ro) orderly_log"
  unfolding register_def Let_def case_prod_beta
  by (intro ensures_same ensures_if quiet_ops enroll_orderly [OF assms])

lemma reregister_orderly:
  "cron_advances (re_cron ev) \<Longrightarrow> ensures orderly_log (reregister ev ro x) orderly_log"
  unfolding reregister_def by (intro ensures_same register_orderly)

lemma handle_tick_orderly:
  "cron_advances (re_cron ev) \<Longrightarrow> ensures orderly_log (handle_tick ev e) orderly_log"
  unfolding handle_tick_def by (intro ensures_same handle_tick_locked_orderly reregister_orderly)

lemma restore_orderly:
  "cron_advances (re_cron ev) \<Longrightarrow> ensures orderly_log (restore ev) orderly_log"
  unfolding restore_def restore_one_def case_prod_beta
  by (intro ensures_same ensures_if quiet_ops handle_tick_orderly)

lemma current_schedule_orderly: "ensures orderly_log (current_schedule ev sid p) orderly_log"
proof -
  have "evolves (quiet c) (current_schedule ev sid p)" for c
    unfolding current_schedule_def Let_def
    by (intro q.evo_rules quiet_rules) (auto split: list.split intro!: q.evo_rules quiet_rules)
  then show ?thesis by (rule quiet_orderly)
qed

lemma rec_step_orderly:
  assumes "cron_advances (re_cron ev)" and "orderly_log w"
  shows "orderly_log (rec_step ev op w)"
proof -
  have pause: "ensures orderly_log (pause_schedule ev sid p e) orderly_log" for sid p e
    unfolding pause_schedule_def case_prod_beta
    by (intro ensures_same quiet_ops current_schedule_orderly)
  have resume: "ensures orderly_log (resume_schedule ev sid p e) orderly_log" for sid p e
    unfolding resume_schedule_def case_prod_beta
    by (intro ensures_same ensures_if quiet_ops current_schedule_orderly
        handle_tick_locked_orderly [OF assms(1)] reregister_orderly [OF assms(1)])
  have remove: "ensures orderly_log (remove_schedule ev sid p e) orderly_log" for sid p e
    unfolding remove_schedule_def case_prod_beta
    by (intro ensures_same quiet_ops current_schedule_orderly)
  have untouched: "ensures orderly_log (modify f) orderly_log"
    if "\<And>w. rec_submissions (f w) = rec_submissions w \<and> rec_rows (f w) = rec_rows w \<and>
      rec_clock (f w) = rec_clock w" for f
    using that by (simp add: ensures_def orderly_log_def holds_at_def guard_def)
  have "ensures orderly_log (rec_action ev op) orderly_log"
    unfolding rec_action_def shutdown_schedules_def
    by (cases op) (auto intro!: ensures_thn_same [OF _ ensures_ret_same] untouched pause resume remove
        register_orderly [OF assms(1)] handle_tick_orderly [OF assms(1)] restore_orderly [OF assms(1)])
  then show ?thesis using assms(2) by (simp add: rec_step_def ensures_def)
qed

text \<open>
  C15. No due time of a schedule is ever submitted twice. Take any run of the controller from
  an empty registry: registrations, ticks with arbitrary due times, pauses, resumes,
  removals, edits of the score files, any accesses to the registry failing, the process
  dying in the middle of an operation and being restarted. As long as the clock does not
  run backwards and \<open>croniter\<close> returns later instants, the submissions of each schedule have
  strictly increasing due times, also across a removal and a new registration, and none
  lies in the future.
\<close>

theorem scheduled_ticks_submit_once:
  assumes "cron_advances (re_cron ev)" and "w = rec_run ev ops (new_recurrence t)"
  shows "(\<forall>i j. i < j \<and> j < length (rec_submissions w) \<and>
        sub_schedule_id (rec_submissions w ! i) = sub_schedule_id (rec_submissions w ! j) \<longrightarrow>
        sub_due_at (rec_submissions w ! i) < sub_due_at (rec_submissions w ! j)) \<and>
    (\<forall>s \<in> set (rec_submissions w). sub_due_at s \<le> rec_clock w)"
proof -
  have "orderly_log (rec_run ev ops (new_recurrence t))"
  proof (induction ops rule: rev_induct)
    case Nil
    show ?case by (simp add: rec_run_def new_recurrence_def orderly_log_def holds_at_def growing_def guard_def)
  next
    case (snoc op ops)
    then show ?case using rec_step_orderly [OF assms(1)] by (simp add: rec_run_def)
  qed
  then have w: "growing (map key_of (rec_submissions w))" "guard (rec_clock w) (set (map key_of (rec_submissions w))) w"
    by (simp_all add: assms(2) orderly_log_def holds_at_def)
  show ?thesis using w(2) sorted_wrt_nth_less [OF w(1) [unfolded growing_def]]
    by (force simp: guard_def)
qed

subsection \<open>What a tick may submit\<close>

lemma registry_get_run:
  obtains e v where "registry_get sid w = (Inl e, v)" "reads_only w v"
  | v where "registry_get sid w = (Inr (dget (rec_rows w) sid), v)" "reads_only w v"
      "\<And>r. dget (rec_rows w) sid = Some r \<Longrightarrow> \<not> quarantined r"
proof -
  define pre where "pre = thn checked_identity access"
  have run: "registry_get sid = thn pre (bnd get_st (\<lambda>w. case dget (rec_rows w) sid of
      None \<Rightarrow> ret None | Some r \<Rightarrow> if quarantined r then throw RuntimeError else ret (Some r)))"
    by (rule ext) (simp add: registry_get_def pre_def run_thn split: prod.splits sum.splits)
  have "evolves reads_only pre" unfolding pre_def by (intro reads.evo_rules reads_access reads_identity)
  then have r: "reads_only w (snd (pre w))" by (rule evolvesD)
  then have rows: "rec_rows (snd (pre w)) = rec_rows w" by (simp add: reads_only_def)
  obtain x v where p: "pre w = (x, v)" by (cases "pre w")
  show thesis
  proof (cases x)
    case (Inl e)
    then show ?thesis using that(1) r p by (simp add: run)
  next
    case (Inr u)
    have v: "reads_only w v" "rec_rows v = rec_rows w" using r rows p by simp_all
    have go: "registry_get sid w = (case dget (rec_rows w) sid of None \<Rightarrow> (Inr None, v)
        | Some r \<Rightarrow> if quarantined r then (Inl RuntimeError, v) else (Inr (Some r), v))"
      using p v Inr by (simp add: run bnd_def split: option.split)
    show ?thesis
    proof (cases "\<exists>r. dget (rec_rows w) sid = Some r \<and> quarantined r")
      case True
      then show ?thesis using go v by (intro that(1) [of RuntimeError v]) auto
    next
      case False
      then show ?thesis using go v by (intro that(2) [of v]) (auto split: option.split)
    qed
  qed
qed

text \<open>Everything but a submission leaves the log and the files alone.\<close>

definition unsubmitted :: "recurrence \<Rightarrow> recurrence \<Rightarrow> bool" where
  "unsubmitted v w \<longleftrightarrow> rec_submissions w = rec_submissions v \<and> rec_files w = rec_files v"

interpretation uns: evolution unsubmitted
  by unfold_locales (auto simp: unsubmitted_def)

lemma uns_mutation: "evolves unsubmitted (execute_mutation stmt)"
  unfolding evolves_def
proof
  show "unsubmitted w (snd (execute_mutation stmt w))" for w
    by (cases rule: execute_mutation_run [of stmt w])
      (auto simp: unsubmitted_def reads_only_def elsewhere_same_def)
qed

lemma uns_get: "evolves unsubmitted (registry_get sid)"
  unfolding evolves_def
proof
  show "unsubmitted w (snd (registry_get sid w))" for w
    by (cases rule: registry_get_run [of sid w])
      (auto simp: unsubmitted_def reads_only_def elsewhere_same_def)
qed

lemma uns_require: "evolves unsubmitted (require_row n)"
  unfolding require_row_def by (intro uns.evo_rules)

lemma uns_cancel: "evolves unsubmitted (cancel_timer sid)"
  unfolding cancel_timer_def by (intro uns.evo_rules) (simp add: unsubmitted_def)

lemma uns_arm: "evolves unsubmitted (arm_next ev sid path sc due current)"
  unfolding arm_next_def by (intro uns.evo_rules uns_cancel) (simp add: unsubmitted_def Let_def)

lemma uns_outcome: "evolves unsubmitted (record_outcome sid due outcome next_due dropped)"
  unfolding record_outcome_def record_tick_outcome_def
  by (intro uns.evo_rules uns_mutation uns_require uns_get)

lemma uns_drop: "evolves unsubmitted (drop_tick ev sid due outcome path sc next_due current)"
  unfolding drop_tick_def by (intro uns.evo_rules uns_outcome uns_arm)

lemma uns_remove: "evolves unsubmitted (remove_locked sid)"
  unfolding remove_locked_def registry_remove_def
  by (intro uns.evo_rules uns_mutation uns_require uns_get uns_cancel)

lemma uns_record_submission: "evolves unsubmitted (record_submission sid due run)"
  unfolding record_submission_def by (intro uns.evo_rules uns_mutation uns_require)

lemma uns_upsert: "evolves unsubmitted (registry_upsert sid name path sc digest next_due pinned rid)"
  unfolding registry_upsert_def by (intro uns.evo_rules uns_mutation)

lemma uns_lift_sum: "evolves unsubmitted (lift_sum r)"
  unfolding lift_sum_def by (cases r) (simp_all add: uns.evo_rules)

lemma uns_clock: "evolves unsubmitted current_time"
  unfolding current_time_def by (intro uns.evo_rules) (simp add: unsubmitted_def Let_def)

lemma uns_stale: "evolves unsubmitted (advance_stale_claim ev sid r due current)"
  unfolding advance_stale_claim_def arm_record_def
  by (intro uns.evo_rules uns_get uns_arm uns_lift_sum uns_drop)

lemmas uns_rules = uns_mutation uns_get uns_require uns_cancel uns_arm uns_outcome uns_drop uns_remove
  uns_record_submission uns_upsert uns_lift_sum uns_clock uns_stale

definition log_at :: "submission list \<Rightarrow> (string, py_exn + score \<times> string) dict \<Rightarrow> recurrence \<Rightarrow> bool" where
  "log_at sent files w \<longleftrightarrow> rec_submissions w = sent \<and> rec_files w = files"

lemma uns_log: "evolves unsubmitted m \<Longrightarrow> ensures (log_at sent files) m (log_at sent files)"
  by (simp add: ensures_def evolves_def unsubmitted_def log_at_def)

definition child_request :: "string \<Rightarrow> instant \<Rightarrow> schedule_row \<Rightarrow> submission" where
  "child_request sid due r =
     \<lparr>sub_schedule_id = sid, sub_due_at = due, sub_job_id = child_job_id sid due,
      sub_config_path = sr_score_path r, sub_expected_source_digest = sr_pinned_source_digest r\<rparr>"

definition may_launch ::
  "recurrence_env \<Rightarrow> submission list \<Rightarrow> (string, py_exn + score \<times> string) dict \<Rightarrow> string \<Rightarrow> schedule_row \<Rightarrow> bool" where
  "may_launch ev sent files sid r \<longleftrightarrow> (\<exists>cfg digest sc.
     dget files (sr_score_path r) = Some (Inr (cfg, digest)) \<and> score_name cfg = sid \<and>
     score_schedule cfg = Some sc \<and> sc_enabled sc \<and> \<not> re_is_active ev sent sid \<and>
     (sr_pinned_source_digest r = None \<or> sr_pinned_source_digest r = Some digest))"

definition launched ::
  "recurrence_env \<Rightarrow> submission list \<Rightarrow> (string, py_exn + score \<times> string) dict \<Rightarrow> string \<Rightarrow> instant
   \<Rightarrow> schedule_row \<Rightarrow> recurrence \<Rightarrow> bool" where
  "launched ev sent files sid due r w \<longleftrightarrow> log_at sent files w \<or>
     (log_at (sent @ [child_request sid due r]) files w \<and> may_launch ev sent files sid r)"

lemma launched_uns:
  "evolves unsubmitted m \<Longrightarrow> ensures (log_at sent files) m (launched ev sent files sid due r)"
  by (rule ensures_weaken [OF uns_log [where sent = sent and files = files]]) (simp_all add: launched_def)

lemma submit_tick_log:
  assumes "may_launch ev sent files sid r"
  shows "ensures (log_at sent files) (submit_tick ev sid r sc sid due n c) (launched ev sent files sid due r)"
  unfolding ensures_def
proof (intro allI impI)
  fix w assume w: "log_at sent files w"
  let ?req = "child_request sid due r"
  let ?v = "w\<lparr>rec_submissions := rec_submissions w @ [?req]\<rparr>"
  have v: "log_at (sent @ [?req]) files ?v" using w by (simp add: log_at_def)
  define k where "k x = (case x of
      Inl e \<Rightarrow> if is_Exception e
          then thn (drop_tick ev sid due ''submission_error'' (sr_score_path r) sc n c) (throw e) else throw e
    | Inr rsp \<Rightarrow> thn (if rsp_status rsp \<noteq> Rejected
          then thn (record_submission sid due (rsp_job_id rsp)) (record_outcome sid due ''submitted'' n False)
          else record_outcome sid due ''submission_rejected'' n True)
        (arm_next ev sid (sr_score_path r) sc n c))" for x :: "py_exn + submit_response"
  have "evolves unsubmitted (k x)" for x
    unfolding k_def by (cases x) (auto intro!: uns.evo_rules uns_rules)
  then have "log_at (sent @ [?req]) files (snd (k x ?v))" for x using uns_log v by (blast dest: ensuresD)
  from this [of "re_submit ev (rec_submissions w) ?req"] have "log_at (sent @ [?req]) files (snd (submit_tick ev sid r sc sid due n c w))"
    by (simp add: submit_tick_def bnd_def attempt_def submit_child_def child_request_def k_def)
  then show "launched ev sent files sid due r (snd (submit_tick ev sid r sc sid due n c w))"
    using assms by (simp add: launched_def)
qed

lemma launched_thn:
  "ensures (log_at sent files) m (log_at sent files) \<Longrightarrow>
   ensures (log_at sent files) k (launched ev sent files sid due r) \<Longrightarrow>
   ensures (log_at sent files) (thn m k) (launched ev sent files sid due r)"
  by (rule ensures_thn [where P' = "log_at sent files"]) (simp_all add: launched_def)

lemma launched_next:
  "(\<And>n. ensures (log_at sent files) (f n) (launched ev sent files sid due r)) \<Longrightarrow>
   ensures (log_at sent files) (bnd (lift_sum x) f) (launched ev sent files sid due r)"
  by (rule ensures_bnd [OF uns_log [OF uns_lift_sum]]) (simp_all add: launched_def)

lemma launch_tick_log:
  assumes "dget files (sr_score_path r) = Some (Inr (cfg, digest))" and "score_name cfg = sid"
    and "score_schedule cfg = Some sc" and "\<not> source_drifted r sid cfg digest"
  shows "ensures (log_at sent files) (launch_tick ev sid r sc sid digest misfired due c)
    (launched ev sent files sid due r)"
  unfolding launch_tick_def
proof (intro launched_next launched_thn uns_log uns.evo_whn uns_upsert ensures_if)
  fix n
  assume on_: "\<not> \<not> sc_enabled sc"
  have launch: "ensures (log_at sent files) (submit_tick ev sid r sc sid due n c)
      (launched ev sent files sid due r)" if "\<not> re_is_active ev sent sid"
    using that assms on_ by (intro submit_tick_log) (auto simp: may_launch_def source_drifted_def)
  have drop: "ensures (log_at sent files) (drop_tick ev sid due ''overlap_skipped'' (sr_score_path r) sc n c)
      (launched ev sent files sid due r)"
    by (rule launched_uns [OF uns_drop])
  show "ensures (log_at sent files) (bnd get_st (\<lambda>w. if re_is_active ev (rec_submissions w) sid
      then drop_tick ev sid due ''overlap_skipped'' (sr_score_path r) sc n c
      else submit_tick ev sid r sc sid due n c)) (launched ev sent files sid due r)"
    unfolding ensures_def
  proof (intro allI impI)
    fix w assume w: "log_at sent files w"
    then have "rec_submissions w = sent" by (simp add: log_at_def)
    then show "launched ev sent files sid due r (snd (bnd get_st (\<lambda>w. if re_is_active ev (rec_submissions w) sid
        then drop_tick ev sid due ''overlap_skipped'' (sr_score_path r) sc n c
        else submit_tick ev sid r sc sid due n c) w))"
      using ensuresD [OF launch w] ensuresD [OF drop w] by (simp add: bnd_def)
  qed
qed (rule launched_uns uns_rules)+

lemma claimed_tick_log:
  "ensures (log_at sent files) (claimed_tick ev sid r misfired due c) (launched ev sent files sid due r)"
  unfolding claimed_tick_def
proof (rule launched_next)
  fix n
  show "ensures (log_at sent files) (bnd (attempt (load_score (sr_score_path r))) (\<lambda>loaded.
      case loaded of
        Inr (cfg, digest) \<Rightarrow> loaded_tick ev sid r cfg digest misfired due n c
      | Inl e \<Rightarrow> if e = FileNotFoundError
          then thn (record_outcome sid due ''source_missing'' n True) (thn (remove_locked sid) (ret None))
          else if source_invalid e
          then thn (drop_tick ev sid due ''source_invalid'' (sr_score_path r) (sr_schedule r) n c) (ret None)
          else throw e)) (launched ev sent files sid due r)" (is "ensures ?P (bnd _ ?f) ?Q")
    unfolding ensures_def
  proof (intro allI impI)
    fix w assume w: "?P w"
    define x where "x = (case dget files (sr_score_path r) of None \<Rightarrow> Inl FileNotFoundError | Some y \<Rightarrow> y)"
    have run: "bnd (attempt (load_score (sr_score_path r))) ?f w = ?f x w"
      using w by (simp add: bnd_def attempt_def load_score_def log_at_def x_def)
    have "ensures ?P (?f x) ?Q"
    proof (cases x)
      case (Inl e)
      then show ?thesis by (auto intro!: launched_uns uns.evo_rules uns_rules)
    next
      case (Inr y)
      obtain cfg digest where y: "y = (cfg, digest)" by (cases y)
      have f: "dget files (sr_score_path r) = Some (Inr (cfg, digest))"
        using Inr y by (simp add: x_def split: option.splits)
      have launch: "ensures ?P (thn (launch_tick ev sid r sc (score_name cfg) digest misfired due c) (ret None)) ?Q"
        if "\<not> source_drifted r sid cfg digest" "score_schedule cfg = Some sc" "\<not> score_name cfg \<noteq> sid" for sc
      proof (rule ensures_thn [where P' = ?Q])
        show "ensures ?P (launch_tick ev sid r sc (score_name cfg) digest misfired due c) ?Q"
          using launch_tick_log [OF f _ that(2,1)] that(3) by simp
      qed (simp_all add: ensures_def)
      show ?thesis
        unfolding Inr y sum.case prod.case loaded_tick_def
      proof (cases "score_schedule cfg")
        case None
        then show "ensures ?P (if source_drifted r sid cfg digest
            then thn (drop_tick ev sid due ''source_drift_refused'' (sr_score_path r) (sr_schedule r) n c) (ret None)
            else case score_schedule cfg of
               None \<Rightarrow> thn (record_outcome sid due ''schedule_removed'' n False) (thn (remove_locked sid) (ret None))
             | Some sc \<Rightarrow> if score_name cfg \<noteq> sid
                 then thn (record_outcome sid due ''schedule_identity_changed'' n False)
                   (thn (remove_locked sid) (ret (Some (sr_score_path r))))
                 else thn (launch_tick ev sid r sc (score_name cfg) digest misfired due c) (ret None)) ?Q"
          by (auto intro!: launched_uns uns.evo_rules uns_rules)
      next
        case (Some sc)
        show "ensures ?P (if source_drifted r sid cfg digest
            then thn (drop_tick ev sid due ''source_drift_refused'' (sr_score_path r) (sr_schedule r) n c) (ret None)
            else case score_schedule cfg of
               None \<Rightarrow> thn (record_outcome sid due ''schedule_removed'' n False) (thn (remove_locked sid) (ret None))
             | Some sc \<Rightarrow> if score_name cfg \<noteq> sid
                 then thn (record_outcome sid due ''schedule_identity_changed'' n False)
                   (thn (remove_locked sid) (ret (Some (sr_score_path r))))
                 else thn (launch_tick ev sid r sc (score_name cfg) digest misfired due c) (ret None)) ?Q"
          unfolding Some option.case
          by (intro ensures_if launch [OF _ Some])
            (assumption | rule launched_uns uns.evo_thn uns.evo_ret uns_rules)+
      qed
    qed
    then show "?Q (snd (bnd (attempt (load_score (sr_score_path r))) ?f w))"
      unfolding run using w by (rule ensuresD)
  qed
qed

text \<open>
  The tick as a whole: an access or a guard ends it without a submission, or the claim goes
  through and \<open>claimed_tick\<close> runs for the row that was read.
\<close>

lemma tick_log:
  assumes "w' = snd (handle_tick_locked ev sid due timestamp w)"
  shows "(rec_submissions w' = rec_submissions w \<and> rec_files w' = rec_files w) \<or>
    (\<exists>r. dget (rec_rows w) sid = Some r \<and> sr_enabled r \<and> sr_next_due_at r = due \<and>
       due \<le> rec_clock w + (case rec_delays w of [] \<Rightarrow> 0 | d # ds \<Rightarrow> max 0 d) \<and>
       sr_last_claimed_due_at r \<noteq> Some due \<and>
       launched ev (rec_submissions w) (rec_files w) sid due r w')"
proof -
  define u where "u = (case dget (rec_timers w) sid of None \<Rightarrow> w
      | Some t \<Rightarrow> if at_due_at t = due then w\<lparr>rec_timers := ddel (rec_timers w) sid\<rparr> else w)"
  have u: "rec_rows u = rec_rows w" "rec_submissions u = rec_submissions w" "rec_files u = rec_files w"
    "rec_clock u = rec_clock w" "rec_delays u = rec_delays w"
    by (auto simp: u_def split: option.splits)
  define f where "f found = (case found of None \<Rightarrow> ret None
      | Some r \<Rightarrow> if \<not> sr_enabled r then ret None
          else bnd current_time (\<lambda>c.
            if sr_next_due_at r \<noteq> due \<or> due > c then thn (arm_record ev sid r c) (ret None)
            else bnd (claim_due sid due c) (\<lambda>claimed.
              if \<not> claimed then thn (advance_stale_claim ev sid r due c) (ret None)
              else claimed_tick ev sid r (timestamp > due) due c)))" for found :: "schedule_row option"
  have w': "w' = snd (bnd (registry_get sid) f u)"
    by (simp add: assms handle_tick_locked_def run_thn u_def f_def [abs_def])
  show ?thesis
  proof (cases rule: registry_get_run [of sid u])
    case (1 e v)
    then show ?thesis using u by (simp add: w' reads_only_def elsewhere_same_def)
  next
    case (2 v)
    have v: "rec_rows v = rec_rows w" "rec_submissions v = rec_submissions w" "rec_files v = rec_files w"
      "rec_clock v = rec_clock w" "rec_delays v = rec_delays w"
      using 2(2) u by (simp_all add: reads_only_def elsewhere_same_def)
    have w'': "w' = snd (f (dget (rec_rows w) sid) v)" using 2(1) u by (simp add: w' bnd_def)
    show ?thesis
    proof (cases "\<exists>r. dget (rec_rows w) sid = Some r \<and> sr_enabled r")
      case False
      then have "w' = v" by (auto simp: w'' f_def split: option.split)
      then show ?thesis using v by simp
    next
      case True
      then obtain r where r: "dget (rec_rows w) sid = Some r" "sr_enabled r" by blast
      define c where "c = rec_clock w + (case rec_delays w of [] \<Rightarrow> 0 | d # ds \<Rightarrow> max 0 d)"
      define x where "x = v\<lparr>rec_clock := c, rec_delays := tl (rec_delays w)\<rparr>"
      have x: "rec_rows x = rec_rows w" "log_at (rec_submissions w) (rec_files w) x"
        using v by (simp_all add: x_def log_at_def)
      have clock: "current_time v = (Inr c, x)" using v by (simp add: current_time_def c_def x_def Let_def)
      have run: "w' = snd ((if sr_next_due_at r \<noteq> due \<or> due > c then thn (arm_record ev sid r c) (ret None)
          else bnd (claim_due sid due c) (\<lambda>claimed.
            if \<not> claimed then thn (advance_stale_claim ev sid r due c) (ret None)
            else claimed_tick ev sid r (timestamp > due) due c)) x)"
        using r clock by (simp add: w'' f_def bnd_def [of current_time])
      have same: "rec_submissions (snd (m y)) = rec_submissions w \<and> rec_files (snd (m y)) = rec_files w"
        if "evolves unsubmitted m" "log_at (rec_submissions w) (rec_files w) y" for m :: "string option rec_act" and y
        using ensuresD [OF uns_log [OF that(1)] that(2)] by (simp add: log_at_def)
      show ?thesis
      proof (cases "sr_next_due_at r \<noteq> due \<or> due > c")
        case True
        then show ?thesis using same [OF _ x(2), of "thn (arm_record ev sid r c) (ret None)"]
          by (auto simp: run arm_record_def intro: uns.evo_rules uns_arm)
      next
        case due_now: False
        show ?thesis
        proof (cases rule: claim_due_run [of sid due c x])
          case (1 e y)
          then show ?thesis using x due_now by (simp add: run log_at_def reads_only_def elsewhere_same_def)
        next
          case (2 y)
          then have y: "log_at (rec_submissions w) (rec_files w) y"
            using x by (simp add: log_at_def reads_only_def elsewhere_same_def)
          show ?thesis
            using same [OF _ y, of "thn (advance_stale_claim ev sid r due c) (ret None)"] due_now 2(1)
            by (simp add: run bnd_def [of "claim_due sid due c"] uns.evo_rules uns_stale)
        next
          case (3 r' y)
          then have y: "log_at (rec_submissions w) (rec_files w) y"
            using x by (simp add: log_at_def elsewhere_same_def)
          have r': "r' = r" using 3(3) x(1) r(1) by simp
          have "launched ev (rec_submissions w) (rec_files w) sid due r w'"
            using ensuresD [OF claimed_tick_log y] due_now 3(1) by (simp add: run bnd_def [of "claim_due sid due c"])
          then show ?thesis using r due_now 3 r' by (auto simp: c_def)
        qed
      qed
    qed
  qed
qed

text \<open>Running in a registry where nothing fails.\<close>

definition healthy :: "recurrence \<Rightarrow> bool" where
  "healthy w \<longleftrightarrow> rec_faults w = [] \<and> rec_custody w = rec_revision w"

definition committed :: "schedule_rows \<Rightarrow> recurrence \<Rightarrow> recurrence" where
  "committed rows w = w\<lparr>rec_rows := rows, rec_custody := rec_revision w + 1, rec_revision := rec_revision w + 1\<rparr>"

lemma healthy_mutation:
  assumes "healthy w" and "stmt (rec_rows w) (rec_clock w) = (rows, n)"
  shows "execute_mutation stmt w = (Inr n, committed rows w)"
  using assms by (simp add: execute_mutation_def access_def checked_identity_def healthy_def committed_def
      run_thn run_bnd)

lemma healthy_get:
  assumes "healthy w" and "\<And>r. dget (rec_rows w) sid = Some r \<Longrightarrow> \<not> quarantined r"
  shows "registry_get sid w = (Inr (dget (rec_rows w) sid), w)"
  using assms by (cases "dget (rec_rows w) sid")
    (simp_all add: registry_get_def access_def checked_identity_def healthy_def run_thn run_bnd)

lemma healthy_committed: "healthy w \<Longrightarrow> healthy (committed rows w)"
  by (simp add: healthy_def committed_def)

lemma committed_fields [simp]:
  "rec_rows (committed rows w) = rows" "rec_clock (committed rows w) = rec_clock w"
  "rec_submissions (committed rows w) = rec_submissions w" "rec_files (committed rows w) = rec_files w"
  "rec_timers (committed rows w) = rec_timers w" "rec_shutting_down (committed rows w) = rec_shutting_down w"
  "rec_delays (committed rows w) = rec_delays w" "rec_faults (committed rows w) = rec_faults w"
  by (simp_all add: committed_def)

lemma healthy_drop:
  assumes "healthy w" and "dget (rec_rows w) sid = Some r" and "sr_last_claimed_due_at r = Some due"
    and "due < n" and "outcome \<noteq> REGISTRY_DATA_ERROR" and "\<not> rec_shutting_down w"
    and "r' = r\<lparr>sr_last_due_at := Some due, sr_last_outcome := Some outcome, sr_next_due_at := n,
      sr_consecutive_drops := sr_consecutive_drops r + 1, sr_updated_at := rec_clock w\<rparr>"
  obtains t w' where "drop_tick ev sid due outcome path sc n c w = (Inr (), w')"
    "rec_rows w' = dset (rec_rows w) sid r'" "rec_timers w' = dset (ddel (rec_timers w) sid) sid t"
    "at_due_at t = n" "rec_submissions w' = rec_submissions w"
proof -
  let ?w = "committed (dset (rec_rows w) sid r') w"
  have out: "record_tick_outcome sid due outcome n True w = (Inr (), ?w)"
    using assms(1-4,7)
    by (simp add: record_tick_outcome_def update_where_def bnd_def
        healthy_mutation [where rows = "dset (rec_rows w) sid r'" and n = 1] require_row_def)
  have "registry_get sid ?w = (Inr (Some r'), ?w)"
    using healthy_get [OF healthy_committed [OF assms(1)], of "dset (rec_rows w) sid r'" sid] assms(5,7)
    by (simp add: quarantined_def)
  then have rec: "record_outcome sid due outcome n True w = (Inr (), ?w)"
    using out by (simp add: record_outcome_def bnd_def)
  show thesis
    using that assms(6) by (simp add: drop_tick_def rec arm_next_def cancel_timer_def Let_def)
qed

lemma drifted_tick:
  assumes "healthy w" and "dget (rec_rows w) sid = Some r" and "\<not> quarantined r" and "sr_enabled r"
    and "sr_next_due_at r = due" and "sr_last_claimed_due_at r \<noteq> Some due"
    and "current_time w = (Inr c, v)" and "due \<le> c" and "\<not> rec_shutting_down w"
    and "dget (rec_files w) (sr_score_path r) = Some (Inr (cfg, digest))"
    and "source_drifted r sid cfg digest"
    and "calculate_next (re_cron ev) (sr_schedule r) due c = Inr n"
  obtains t w' where "handle_tick_locked ev sid due timestamp w = (Inr None, w')"
    "rec_submissions w' = rec_submissions w" "dget (rec_timers w') sid = Some t" "at_due_at t = n"
    "rec_rows w' = dset (rec_rows w) sid (r\<lparr>sr_last_claimed_due_at := Some due,
       sr_last_due_at := Some due, sr_last_outcome := Some ''source_drift_refused'',
       sr_next_due_at := n, sr_consecutive_drops := sr_consecutive_drops r + 1,
       sr_updated_at := c\<rparr>)"
proof -
  define u where "u = (case dget (rec_timers w) sid of None \<Rightarrow> w
      | Some t \<Rightarrow> if at_due_at t = due then w\<lparr>rec_timers := ddel (rec_timers w) sid\<rparr> else w)"
  define x where "x = u\<lparr>rec_clock := c, rec_delays := tl (rec_delays w)\<rparr>"
  define r1 where "r1 = r\<lparr>sr_last_claimed_due_at := Some due, sr_updated_at := c\<rparr>"
  define y where "y = committed (dset (rec_rows w) sid r1) x"
  have u: "rec_rows u = rec_rows w" "rec_submissions u = rec_submissions w" "rec_files u = rec_files w"
    "rec_clock u = rec_clock w" "rec_delays u = rec_delays w" "healthy u"
    "rec_shutting_down u = rec_shutting_down w"
    using assms(1) by (auto simp: u_def healthy_def split: option.splits)
  have get: "registry_get sid u = (Inr (Some r), u)"
    using healthy_get [OF u(6), of sid] assms(2,3) u(1) by simp
  have clock: "current_time u = (Inr c, x)"
    using assms(7) u by (simp add: current_time_def x_def Let_def)
  have x: "healthy x" "rec_rows x = rec_rows w" "rec_clock x = c" "rec_submissions x = rec_submissions w"
    "rec_files x = rec_files w" "rec_shutting_down x = rec_shutting_down w"
    using u by (simp_all add: x_def healthy_def)
  have claim: "claim_due sid due c x = (Inr True, y)"
    using assms(2,4-6,8) x
    by (simp add: claim_due_def bnd_def healthy_mutation [where rows = "dset (rec_rows w) sid r1" and n = 1]
        update_where_def y_def r1_def)
  have y: "healthy y" "dget (rec_rows y) sid = Some r1" "rec_clock y = c" "rec_files y = rec_files w"
    "rec_submissions y = rec_submissions w" "\<not> rec_shutting_down y" "rec_rows y = dset (rec_rows w) sid r1"
    using x assms(9) healthy_committed [OF x(1)] by (simp_all add: y_def)
  have due_n: "due < n" using assms(12) by (auto simp: calculate_next_def split: sum.splits if_splits)
  obtain t w' where drop: "drop_tick ev sid due ''source_drift_refused'' (sr_score_path r) (sr_schedule r) n c y = (Inr (), w')"
    "rec_rows w' = dset (rec_rows y) sid (r1\<lparr>sr_last_due_at := Some due,
       sr_last_outcome := Some ''source_drift_refused'', sr_next_due_at := n,
       sr_consecutive_drops := sr_consecutive_drops r1 + 1, sr_updated_at := rec_clock y\<rparr>)"
    "rec_timers w' = dset (ddel (rec_timers y) sid) sid t" "at_due_at t = n"
    "rec_submissions w' = rec_submissions y"
    by (rule healthy_drop [OF y(1,2) _ due_n _ y(6) refl, where outcome = "''source_drift_refused''"])
      (simp_all add: r1_def REGISTRY_DATA_ERROR_def)
  have "claimed_tick ev sid r (due < timestamp) due c y = (Inr None, w')"
    using assms(10-12) y(4) drop(1)
    by (simp add: claimed_tick_def lift_sum_def attempt_def load_score_def bnd_def loaded_tick_def thn_def)
  then have "handle_tick_locked ev sid due timestamp w = (Inr None, w')"
    using get clock claim assms(4,5,8)
    by (simp add: handle_tick_locked_def run_thn u_def [symmetric] bnd_def)
  then show thesis using that drop y by (simp add: r1_def)
qed

text \<open>
  C16. A pinned schedule refuses drift, and a tick submits only what it read. Whatever state
  the world is in, whatever fails, and whatever the tick says, one tick submits at most once:
  the child job of its own due time, for an enabled schedule whose next due time this is,
  that is due and unclaimed, with a readable score of the same name and an enabled schedule,
  while no run of it is active, and with the bytes of the pin if there is one. And when
  nothing fails, a due tick of a pinned schedule whose source has drifted in bytes, name or
  schedule section submits nothing, keeps the pin and every other part of the declaration,
  counts a drop, and stays armed for the next due time.
\<close>

theorem pinned_schedules_refuse_drift:
  assumes "handle_tick_locked ev sid due timestamp w = (res, w')" and "current_time w = (Inr c, v)"
  shows "(rec_submissions w' = rec_submissions w \<or>
      (\<exists>r cfg digest sc. dget (rec_rows w) sid = Some r \<and> sr_enabled r \<and> sr_next_due_at r = due \<and>
         due \<le> c \<and> sr_last_claimed_due_at r \<noteq> Some due \<and>
         dget (rec_files w) (sr_score_path r) = Some (Inr (cfg, digest)) \<and>
         score_name cfg = sid \<and> score_schedule cfg = Some sc \<and> sc_enabled sc \<and>
         \<not> re_is_active ev (rec_submissions w) sid \<and>
         (\<forall>pin. sr_pinned_source_digest r = Some pin \<longrightarrow> digest = pin) \<and>
         rec_submissions w' = rec_submissions w @
           [\<lparr>sub_schedule_id = sid, sub_due_at = due, sub_job_id = child_job_id sid due,
             sub_config_path = sr_score_path r,
             sub_expected_source_digest = sr_pinned_source_digest r\<rparr>])) \<and>
    (\<forall>r cfg digest n. rec_faults w = [] \<and> rec_custody w = rec_revision w \<and> \<not> rec_shutting_down w \<and>
       dget (rec_rows w) sid = Some r \<and> \<not> quarantined r \<and> sr_enabled r \<and> sr_next_due_at r = due \<and>
       sr_last_claimed_due_at r \<noteq> Some due \<and> due \<le> c \<and>
       dget (rec_files w) (sr_score_path r) = Some (Inr (cfg, digest)) \<and>
       source_drifted r sid cfg digest \<and>
       calculate_next (re_cron ev) (sr_schedule r) due c = Inr n \<longrightarrow>
         res = Inr None \<and> rec_submissions w' = rec_submissions w \<and>
         (\<exists>t. dget (rec_timers w') sid = Some t \<and> at_due_at t = n) \<and>
         rec_rows w' = dset (rec_rows w) sid (r\<lparr>sr_last_claimed_due_at := Some due,
           sr_last_due_at := Some due, sr_last_outcome := Some ''source_drift_refused'',
           sr_next_due_at := n, sr_consecutive_drops := sr_consecutive_drops r + 1,
           sr_updated_at := c\<rparr>))" (is "?submits \<and> ?refuses")
proof (rule conjI)
  have c: "c = rec_clock w + (case rec_delays w of [] \<Rightarrow> 0 | d # ds \<Rightarrow> max 0 d)"
    using assms(2) by (simp add: current_time_def Let_def)
  have "w' = snd (handle_tick_locked ev sid due timestamp w)" using assms(1) by simp
  from tick_log [OF this]
  consider "rec_submissions w' = rec_submissions w"
    | r where "dget (rec_rows w) sid = Some r" "sr_enabled r" "sr_next_due_at r = due" "due \<le> c"
      "sr_last_claimed_due_at r \<noteq> Some due" "may_launch ev (rec_submissions w) (rec_files w) sid r"
      "rec_submissions w' = rec_submissions w @ [child_request sid due r]"
    unfolding c [symmetric] launched_def log_at_def by blast
  then show ?submits
  proof cases
    case (2 r)
    from 2(6) obtain cfg digest sc where "dget (rec_files w) (sr_score_path r) = Some (Inr (cfg, digest))"
      "score_name cfg = sid" "score_schedule cfg = Some sc" "sc_enabled sc"
      "\<not> re_is_active ev (rec_submissions w) sid"
      "sr_pinned_source_digest r = None \<or> sr_pinned_source_digest r = Some digest"
      unfolding may_launch_def by blast
    then show ?thesis using 2(1-5,7)
      by (intro disjI2 exI [where x = r] exI [where x = cfg] exI [where x = digest] exI [where x = sc])
        (auto simp: child_request_def)
  qed simp
  show ?refuses
  proof (intro allI impI, elim conjE)
    fix r cfg digest n
    assume h: "rec_faults w = []" "rec_custody w = rec_revision w" "\<not> rec_shutting_down w"
      "dget (rec_rows w) sid = Some r" "\<not> quarantined r" "sr_enabled r" "sr_next_due_at r = due"
      "sr_last_claimed_due_at r \<noteq> Some due" "due \<le> c"
      "dget (rec_files w) (sr_score_path r) = Some (Inr (cfg, digest))"
      "source_drifted r sid cfg digest"
      "calculate_next (re_cron ev) (sr_schedule r) due c = Inr n"
    have "healthy w" using h(1,2) by (simp add: healthy_def)
    from drifted_tick [OF this h(4-8) assms(2) h(9,3,10-12), of timestamp]
    obtain t w1 where t: "handle_tick_locked ev sid due timestamp w = (Inr None, w1)"
      "rec_submissions w1 = rec_submissions w" "dget (rec_timers w1) sid = Some t" "at_due_at t = n"
      "rec_rows w1 = dset (rec_rows w) sid (r\<lparr>sr_last_claimed_due_at := Some due,
         sr_last_due_at := Some due, sr_last_outcome := Some ''source_drift_refused'',
         sr_next_due_at := n, sr_consecutive_drops := sr_consecutive_drops r + 1,
         sr_updated_at := c\<rparr>)" by blast
    have e: "res = Inr None" "w' = w1" using t(1) assms(1) by simp_all
    show "res = Inr None \<and> rec_submissions w' = rec_submissions w \<and>
         (\<exists>t. dget (rec_timers w') sid = Some t \<and> at_due_at t = n) \<and>
         rec_rows w' = dset (rec_rows w) sid (r\<lparr>sr_last_claimed_due_at := Some due,
           sr_last_due_at := Some due, sr_last_outcome := Some ''source_drift_refused'',
           sr_next_due_at := n, sr_consecutive_drops := sr_consecutive_drops r + 1,
           sr_updated_at := c\<rparr>)"
      unfolding e using t(2-5) by blast
  qed
qed

subsection \<open>Concrete runs\<close>

definition quiet_env :: recurrence_env where
  "quiet_env = \<lparr>re_cron = (\<lambda>expr tz a. Inl ValueError), re_resolve = (\<lambda>p. p),
     re_submit = (\<lambda>sent req. Inr \<lparr>rsp_status = Accepted, rsp_job_id = sub_job_id req\<rparr>),
     re_is_active = (\<lambda>sent sid. False), re_uniform = (\<lambda>due bound. 0)\<rparr>"

definition quarterly :: "score \<times> string" where
  "quarterly = (\<lparr>score_name = ''s'', score_schedule = Some every_quarter\<rparr>, ''d1'')"

definition tick_of :: "instant \<Rightarrow> cron_tick" where
  "tick_of due = \<lparr>ct_entry_name = ''s'', ct_score_path = ''p'', ct_due_at = Some due, ct_timestamp = 0\<rparr>"

text \<open>The process dies after the first submission, before its outcome is recorded.\<close>

definition died_after_submitting :: "rec_op list" where
  "died_after_submitting =
     [Edit [(''p'', Inr quarterly)], Register ''p'' plain_registration,
      World [900000001] (replicate 6 None @ [Some ProcessDied]), Tick (tick_of 900000000),
      Restart, World [] [], Restore,
      World [900000000] [], Tick (tick_of 1800000000)]"

lemma died_after_submitting_run:
  "map key_of (rec_submissions (rec_run quiet_env died_after_submitting (new_recurrence 0))) =
     [(''s'', 900000000), (''s'', 1800000000)]"
  by code_simp

theorem scheduled_ticks_submit_once_witness:
  "map key_of (rec_submissions (rec_run quiet_env died_after_submitting (new_recurrence 0))) =
     [(''s'', 900000000), (''s'', 1800000000)] \<and>
   sub_due_at (rec_submissions (rec_run quiet_env died_after_submitting (new_recurrence 0)) ! 0) <
   sub_due_at (rec_submissions (rec_run quiet_env died_after_submitting (new_recurrence 0)) ! 1)"
proof -
  let ?w = "rec_run quiet_env died_after_submitting (new_recurrence 0)"
  note run = died_after_submitting_run
  have len: "length (rec_submissions ?w) = 2"
    using arg_cong [OF run, of length] by simp
  have ids: "sub_schedule_id (rec_submissions ?w ! 0) = sub_schedule_id (rec_submissions ?w ! 1)"
    using arg_cong [OF run, of "\<lambda>ks. (fst (ks ! 0), fst (ks ! 1))"] len by simp
  have "cron_advances (re_cron quiet_env)" by (simp add: cron_advances_def quiet_env_def)
  note once = scheduled_ticks_submit_once [OF this refl, of died_after_submitting 0, THEN conjunct1,
      THEN spec [where x = 0], THEN spec [where x = 1]]
  show ?thesis using run once ids len by simp
qed

definition pinned_world :: recurrence where
  "pinned_world = rec_run quiet_env
     [Edit [(''p'', Inr quarterly)], Register ''p'' (plain_registration\<lparr>ro_pin := Some True\<rparr>),
      Edit [(''p'', Inr (fst quarterly, ''d2''))], World [900000001] []] (new_recurrence 0)"

lemma pinned_world_drifted:
  "rec_faults pinned_world = [] \<and> rec_custody pinned_world = rec_revision pinned_world \<and>
   \<not> rec_shutting_down pinned_world \<and> rec_clock pinned_world = 0 \<and> rec_delays pinned_world = [900000001]"
  "(case dget (rec_rows pinned_world) ''s'' of None \<Rightarrow> False
    | Some r \<Rightarrow> \<not> quarantined r \<and> sr_enabled r \<and> sr_next_due_at r = 900000000 \<and>
        sr_last_claimed_due_at r \<noteq> Some 900000000 \<and>
        (case dget (rec_files pinned_world) (sr_score_path r) of
           Some (Inr (cfg, digest)) \<Rightarrow> source_drifted r ''s'' cfg digest
         | _ \<Rightarrow> False) \<and>
        calculate_next (re_cron quiet_env) (sr_schedule r) 900000000 900000001 = Inr 1800000000)"
  by code_simp+

theorem pinned_schedules_refuse_drift_witness:
  "rec_submissions (snd (handle_tick_locked quiet_env ''s'' 900000000 0 pinned_world)) =
     rec_submissions pinned_world \<and>
   map_option sr_next_due_at (dget (rec_rows (snd (handle_tick_locked quiet_env ''s'' 900000000 0 pinned_world))) ''s'')
     = Some 1800000000"
proof -
  obtain res w' where tick: "handle_tick_locked quiet_env ''s'' 900000000 0 pinned_world = (res, w')"
    by (cases "handle_tick_locked quiet_env ''s'' 900000000 0 pinned_world")
  obtain v where clock: "current_time pinned_world = (Inr 900000001, v)"
    using pinned_world_drifted(1) by (simp add: current_time_def Let_def)
  note refuses = pinned_schedules_refuse_drift [OF tick clock, THEN conjunct2, rule_format]
  from pinned_world_drifted(2) obtain r cfg digest where row: "dget (rec_rows pinned_world) ''s'' = Some r"
      "\<not> quarantined r" "sr_enabled r" "sr_next_due_at r = 900000000"
      "sr_last_claimed_due_at r \<noteq> Some 900000000"
      "dget (rec_files pinned_world) (sr_score_path r) = Some (Inr (cfg, digest))"
      "source_drifted r ''s'' cfg digest"
      "calculate_next (re_cron quiet_env) (sr_schedule r) 900000000 900000001 = Inr 1800000000"
    by (auto split: option.splits sum.splits)
  have "rec_submissions w' = rec_submissions pinned_world \<and>
      rec_rows w' = dset (rec_rows pinned_world) ''s'' (r\<lparr>sr_last_claimed_due_at := Some 900000000,
        sr_last_due_at := Some 900000000, sr_last_outcome := Some ''source_drift_refused'',
        sr_next_due_at := 1800000000, sr_consecutive_drops := sr_consecutive_drops r + 1,
        sr_updated_at := 900000001\<rparr>)"
    using refuses [of r cfg digest 1800000000] row pinned_world_drifted(1) by simp
  then show ?thesis using tick by simp
qed

end
