(* ===== verification/Checkpoint_Writer.thy ===== *)
theory Checkpoint_Writer
  imports Prelude "HOL-Library.Sublist"
begin

section \<open>The ordered checkpoint writer\<close>

text \<open>
  \<open>daemon/checkpoint_writer.py\<close>: one consumer task drains a bounded queue of tokens and
  acknowledged writes into the job registry. The asyncio tasks are interleaved between their
  awaits: a label names the piece of a task that runs, a step relation says when it may run
  and what it does. The pieces are the synchronous code between two awaits, so that every
  interleaving of the event loop is a run; a wake-up may come later here than asyncio would
  deliver it, and waiting putters may be served in any order. The collection of the helper
  tasks that ends \<open>write_and_wait\<close>'s \<open>finally\<close> is part of the piece before it. That a
  cancelled \<open>save_checkpoint\<close> raises \<open>CancelledError\<close> is the one assumption on the registry.
\<close>

subsection \<open>State\<close>

type_synonym payload = string

text \<open>The future of an acknowledged write, and \<open>_AcknowledgedWrite\<close> itself.\<close>

datatype completion = Unresolved | Written | WriteFailed py_exn | WriteCancelled

record ack_write =
  aw_job_id :: string
  aw_payload :: payload
  aw_completed :: completion

text \<open>A queue item is a job id or a reference to an acknowledged write.\<close>

datatype item = Token string | Ack nat

text \<open>
  The consumer: no task, waiting in \<open>queue.get()\<close>, waiting in \<open>save_checkpoint\<close> with the
  item and its payload, or finished.
\<close>

datatype consumer = NoTask | AtGet | Saving item payload | Ended

text \<open>Where \<open>stop()\<close> waits: for \<open>_admissions_idle\<close>, or for the cancelled task.\<close>

datatype stop_point = AwaitIdle | AwaitTask

text \<open>
  \<open>cw_acks\<close> holds every acknowledged write ever created, \<open>cw_calls\<close> those whose
  \<open>write_and_wait\<close> has not reached \<open>await completed\<close>, with whether its put is done;
  \<open>cw_cancelling\<close> says that the task was asked to cancel, and \<open>cw_registry\<close> is the history of
  checkpoints stored by \<open>save_checkpoint\<close>.
\<close>

record writer =
  cw_max_queue :: nat
  cw_queue :: "item list"
  cw_latest :: "(string, payload) dict"
  cw_task :: consumer
  cw_cancelling :: bool
  cw_accepting :: bool
  cw_stopping :: bool
  cw_stop_requested :: bool
  cw_admissions_idle :: bool
  cw_active_ack_admissions :: nat
  cw_stopped :: bool
  cw_acks :: "ack_write list"
  cw_calls :: "(nat, bool) dict"
  cw_stop_at :: "stop_point option"
  cw_registry :: "(string \<times> payload) list"

definition new_writer :: "nat \<Rightarrow> writer" where
  "new_writer n = \<lparr>cw_max_queue = n, cw_queue = [], cw_latest = [], cw_task = NoTask,
     cw_cancelling = False, cw_accepting = False, cw_stopping = False,
     cw_stop_requested = False, cw_admissions_idle = True, cw_active_ack_admissions = 0,
     cw_stopped = True, cw_acks = [], cw_calls = [], cw_stop_at = None, cw_registry = []\<rparr>"

subsection \<open>The pieces of the tasks\<close>

definition writer_running :: "writer \<Rightarrow> bool" where
  "writer_running w \<longleftrightarrow> cw_task w \<noteq> NoTask \<and> cw_task w \<noteq> Ended"

definition queue_full :: "writer \<Rightarrow> bool" where
  "queue_full w \<longleftrightarrow> 0 < cw_max_queue w \<and> cw_max_queue w \<le> length (cw_queue w)"

definition start_writer :: "(writer, unit) act" where
  "start_writer w =
     (if cw_stopping w then (Inl RuntimeError, w)
      else (Inr (), if cw_task w = NoTask
              then w\<lparr>cw_stop_requested := False, cw_stopped := False, cw_task := AtGet,
                     cw_cancelling := False, cw_accepting := True\<rparr>
              else w))"

definition enqueue_checkpoint :: "string \<Rightarrow> payload \<Rightarrow> writer \<Rightarrow> writer" where
  "enqueue_checkpoint job_id checkpoint_json w =
     (let w1 = w\<lparr>cw_latest := dset (cw_latest w) job_id checkpoint_json\<rparr>
      in if queue_full w then w1 else w1\<lparr>cw_queue := cw_queue w @ [Token job_id]\<rparr>)"

text \<open>\<open>if not completed.done(): ...\<close>\<close>

definition resolve :: "nat \<Rightarrow> completion \<Rightarrow> writer \<Rightarrow> writer" where
  "resolve k c w =
     (if k < length (cw_acks w) \<and> aw_completed (cw_acks w ! k) = Unresolved
      then w\<lparr>cw_acks := (cw_acks w)[k := (cw_acks w ! k)\<lparr>aw_completed := c\<rparr>]\<rparr> else w)"

definition resolve_item :: "item \<Rightarrow> completion \<Rightarrow> writer \<Rightarrow> writer" where
  "resolve_item it c w = (case it of Token j \<Rightarrow> w | Ack k \<Rightarrow> resolve k c w)"

definition item_job :: "writer \<Rightarrow> item \<Rightarrow> string" where
  "item_job w it = (case it of Token j \<Rightarrow> j | Ack k \<Rightarrow> aw_job_id (cw_acks w ! k))"

text \<open>\<open>_run\<close>: from one \<open>queue.get()\<close> to the next await; a superseded token writes nothing.\<close>

definition take_item :: "writer \<Rightarrow> writer" where
  "take_item w = (case cw_queue w of
      [] \<Rightarrow> w
    | Ack k # q \<Rightarrow>
        w\<lparr>cw_queue := q, cw_task := Saving (Ack k) (aw_payload (cw_acks w ! k))\<rparr>
    | Token j # q \<Rightarrow> (case dget (cw_latest w) j of
          None \<Rightarrow> w\<lparr>cw_queue := q\<rparr>
        | Some p \<Rightarrow> w\<lparr>cw_queue := q, cw_latest := ddel (cw_latest w) j,
                       cw_task := Saving (Token j) p\<rparr>))"

definition store :: "item \<Rightarrow> payload \<Rightarrow> writer \<Rightarrow> writer" where
  "store it p w = w\<lparr>cw_registry := cw_registry w @ [(item_job w it, p)]\<rparr>"

definition save_returned :: "item \<Rightarrow> payload \<Rightarrow> writer \<Rightarrow> writer" where
  "save_returned it p w = (resolve_item it Written (store it p w))\<lparr>cw_task := AtGet\<rparr>"

text \<open>A save that raises may have stored its bytes or not.\<close>

definition save_raised :: "item \<Rightarrow> payload \<Rightarrow> py_exn \<Rightarrow> bool \<Rightarrow> writer \<Rightarrow> writer" where
  "save_raised it p e stored w =
     (resolve_item it (WriteFailed e) (if stored then store it p w else w))\<lparr>cw_task := AtGet\<rparr>"

definition save_cancelled :: "item \<Rightarrow> payload \<Rightarrow> bool \<Rightarrow> writer \<Rightarrow> writer" where
  "save_cancelled it p stored w =
     (resolve_item it WriteCancelled (if stored then store it p w else w))\<lparr>cw_task := Ended\<rparr>"

text \<open>\<open>write_and_wait\<close> up to \<open>asyncio.wait\<close>.\<close>

definition admit_write :: "string \<Rightarrow> payload \<Rightarrow> (writer, nat) act" where
  "admit_write job_id checkpoint_json w =
     (if \<not> cw_accepting w \<or> \<not> writer_running w then (Inl RuntimeError, w)
      else (Inr (length (cw_acks w)),
        w\<lparr>cw_acks := cw_acks w @
             [\<lparr>aw_job_id = job_id, aw_payload = checkpoint_json, aw_completed = Unresolved\<rparr>],
          cw_active_ack_admissions := cw_active_ack_admissions w + 1,
          cw_admissions_idle := False,
          cw_calls := dset (cw_calls w) (length (cw_acks w)) False\<rparr>))"

definition put_done :: "nat \<Rightarrow> writer \<Rightarrow> writer" where
  "put_done k w = w\<lparr>cw_queue := cw_queue w @ [Ack k], cw_calls := dset (cw_calls w) k True\<rparr>"

text \<open>Its \<open>finally\<close> clause; an unfinished put is cancelled with it.\<close>

definition leave_admission :: "nat \<Rightarrow> writer \<Rightarrow> writer" where
  "leave_admission k w =
     w\<lparr>cw_calls := ddel (cw_calls w) k,
       cw_active_ack_admissions := cw_active_ack_admissions w - 1,
       cw_admissions_idle := cw_admissions_idle w \<or> cw_active_ack_admissions w = 1\<rparr>"

text \<open>The branches for a stop request and for a cancelled caller.\<close>

definition give_up :: "nat \<Rightarrow> writer \<Rightarrow> writer" where
  "give_up k w = leave_admission k (resolve k WriteCancelled w)"

text \<open>\<open>stop\<close> up to its first await, and its end.\<close>

definition request_stop :: "writer \<Rightarrow> writer" where
  "request_stop w =
     (if cw_stopping w then w
      else w\<lparr>cw_stopping := True, cw_accepting := False, cw_stop_requested := True,
             cw_stop_at := Some AwaitIdle\<rparr>)"

definition stop_finished :: "writer \<Rightarrow> writer" where
  "stop_finished w = w\<lparr>cw_stopping := False, cw_stopped := True, cw_stop_at := None\<rparr>"

definition cancel_queued :: "writer \<Rightarrow> writer" where
  "cancel_queued w =
     (fold (\<lambda>it. resolve_item it WriteCancelled) (cw_queue w) w)\<lparr>cw_queue := []\<rparr>"

definition admissions_joined :: "writer \<Rightarrow> writer" where
  "admissions_joined w =
     (if cw_task w = NoTask then stop_finished (cancel_queued w)
      else w\<lparr>cw_cancelling := True, cw_stop_at := Some AwaitTask\<rparr>)"

definition task_joined :: "writer \<Rightarrow> writer" where
  "task_joined w = stop_finished (cancel_queued (w\<lparr>cw_task := NoTask\<rparr>))"

subsection \<open>Interleavings\<close>

text \<open>
  What may run next. The clients call \<open>start\<close>, \<open>enqueue\<close> (the flag says whether the queue
  had room), \<open>write_and_wait\<close> and \<open>stop\<close>, may be cancelled while they wait, and the event loop
  may cancel the consumer. A cancelled consumer does nothing but raise \<open>CancelledError\<close>.
\<close>

datatype label =
    StartWriter
  | Enqueue string payload bool
  | Admit string payload
  | Put nat
  | Resume nat
  | StopSeen nat
  | AdmissionCancelled nat
  | CallerCancelled nat
  | Take
  | Saved
  | SaveRaised py_exn bool
  | CancelConsumer
  | ConsumerCancelled bool
  | RequestStop
  | AdmissionsJoined
  | TaskJoined
  | StopCancelled

inductive wstep :: "writer \<Rightarrow> label \<Rightarrow> writer \<Rightarrow> bool" where
  start: "start_writer w = (Inr (), w') \<Longrightarrow> wstep w StartWriter w'"
| enqueue: "queued = (\<not> queue_full w) \<Longrightarrow> wstep w (Enqueue j p queued) (enqueue_checkpoint j p w)"
| admit: "admit_write j p w = (Inr k, w') \<Longrightarrow> wstep w (Admit j p) w'"
| put: "dget (cw_calls w) k = Some False \<Longrightarrow> \<not> queue_full w \<Longrightarrow> wstep w (Put k) (put_done k w)"
| resume: "dget (cw_calls w) k = Some True \<Longrightarrow> wstep w (Resume k) (leave_admission k w)"
| stop_seen: "dget (cw_calls w) k = Some placed \<Longrightarrow> cw_stop_requested w \<Longrightarrow>
    wstep w (StopSeen k) (give_up k w)"
| admission_cancelled: "dget (cw_calls w) k = Some placed \<Longrightarrow>
    wstep w (AdmissionCancelled k) (give_up k w)"
| caller_cancelled: "dget (cw_calls w) k = None \<Longrightarrow>
    wstep w (CallerCancelled k) (resolve k WriteCancelled w)"
| take: "cw_task w = AtGet \<Longrightarrow> \<not> cw_cancelling w \<Longrightarrow> cw_queue w \<noteq> [] \<Longrightarrow>
    wstep w Take (take_item w)"
| saved: "cw_task w = Saving it p \<Longrightarrow> \<not> cw_cancelling w \<Longrightarrow> wstep w Saved (save_returned it p w)"
| save_raised: "cw_task w = Saving it p \<Longrightarrow> \<not> cw_cancelling w \<Longrightarrow> is_Exception e \<Longrightarrow>
    wstep w (SaveRaised e stored) (save_raised it p e stored w)"
| cancel_consumer: "writer_running w \<Longrightarrow> wstep w CancelConsumer (w\<lparr>cw_cancelling := True\<rparr>)"
| cancelled_at_get: "cw_task w = AtGet \<Longrightarrow> cw_cancelling w \<Longrightarrow>
    wstep w (ConsumerCancelled stored) (w\<lparr>cw_task := Ended\<rparr>)"
| cancelled_saving: "cw_task w = Saving it p \<Longrightarrow> cw_cancelling w \<Longrightarrow>
    wstep w (ConsumerCancelled stored) (save_cancelled it p stored w)"
| request_stop: "wstep w RequestStop (request_stop w)"
| admissions_joined: "cw_stop_at w = Some AwaitIdle \<Longrightarrow> cw_admissions_idle w \<Longrightarrow>
    wstep w AdmissionsJoined (admissions_joined w)"
| task_joined: "cw_stop_at w = Some AwaitTask \<Longrightarrow> cw_task w = Ended \<Longrightarrow>
    wstep w TaskJoined (task_joined w)"
| stop_cancelled: "cw_stop_at w = Some AwaitIdle \<Longrightarrow> wstep w StopCancelled (stop_finished w)"

inductive wrun :: "writer \<Rightarrow> label list \<Rightarrow> writer \<Rightarrow> bool" where
  nil: "wrun w [] w"
| cons: "wstep w l w1 \<Longrightarrow> wrun w1 ls w' \<Longrightarrow> wrun w (l # ls) w'"

inductive_simps wrun_simps: "wrun w [] w'" "wrun w (l # ls) w'"

text \<open>The steps the writer and its admitted callers take by themselves.\<close>

fun own_step :: "label \<Rightarrow> bool" where
  "own_step (Put k) = True"
| "own_step (Resume k) = True"
| "own_step (StopSeen k) = True"
| "own_step Take = True"
| "own_step Saved = True"
| "own_step (SaveRaised e stored) = True"
| "own_step (ConsumerCancelled stored) = True"
| "own_step AdmissionsJoined = True"
| "own_step TaskJoined = True"
| "own_step _ = False"

subsection \<open>What the pieces leave alone\<close>

text \<open>The completion of the write \<open>k\<close>, and the writes that are still on their way.\<close>

abbreviation completion_of :: "writer \<Rightarrow> nat \<Rightarrow> completion" where
  "completion_of w k \<equiv> aw_completed (cw_acks w ! k)"

definition held :: "nat \<Rightarrow> writer \<Rightarrow> bool" where
  "held k w \<longleftrightarrow> dget (cw_calls w) k = Some False \<or> Ack k \<in> set (cw_queue w) \<or>
     (\<exists>p. cw_task w = Saving (Ack k) p)"

definition same_but_acks :: "writer \<Rightarrow> writer \<Rightarrow> bool" where
  "same_but_acks w w' \<longleftrightarrow> (\<exists>as. w' = w\<lparr>cw_acks := as\<rparr> \<and> length as = length (cw_acks w) \<and>
     (\<forall>i < length as. aw_job_id (as ! i) = aw_job_id (cw_acks w ! i) \<and>
        aw_payload (as ! i) = aw_payload (cw_acks w ! i)))"

lemma same_but_acks_fields:
  assumes "same_but_acks w w'"
  shows "cw_max_queue w' = cw_max_queue w" "cw_queue w' = cw_queue w" "cw_latest w' = cw_latest w"
    "cw_task w' = cw_task w" "cw_cancelling w' = cw_cancelling w" "cw_accepting w' = cw_accepting w"
    "cw_stopping w' = cw_stopping w" "cw_stop_requested w' = cw_stop_requested w"
    "cw_admissions_idle w' = cw_admissions_idle w"
    "cw_active_ack_admissions w' = cw_active_ack_admissions w" "cw_stopped w' = cw_stopped w"
    "cw_calls w' = cw_calls w" "cw_stop_at w' = cw_stop_at w" "cw_registry w' = cw_registry w"
    "length (cw_acks w') = length (cw_acks w)"
  using assms by (auto simp: same_but_acks_def)

lemma same_but_acks_refl: "same_but_acks w w"
  unfolding same_but_acks_def by (rule exI [where x = "cw_acks w"]) simp

lemma same_but_acks_trans: "same_but_acks u v \<Longrightarrow> same_but_acks v w \<Longrightarrow> same_but_acks u w"
  by (auto simp: same_but_acks_def)

lemma same_but_acks_resolve: "same_but_acks w (resolve k c w)"
  by (cases "k < length (cw_acks w) \<and> completion_of w k = Unresolved")
    (auto simp: resolve_def same_but_acks_refl,
     auto simp: same_but_acks_def nth_list_update intro!: exI)

lemma same_but_acks_item: "same_but_acks w (resolve_item it c w)"
  by (cases it) (simp_all add: resolve_item_def same_but_acks_refl same_but_acks_resolve)

lemma same_but_acks_fold: "same_but_acks w (fold (\<lambda>it. resolve_item it c) its w)"
  by (induction its arbitrary: w)
    (auto simp: same_but_acks_refl intro: same_but_acks_trans same_but_acks_item)

lemmas resolve_fields [simp] = same_but_acks_fields [OF same_but_acks_resolve]
lemmas item_fields [simp] = same_but_acks_fields [OF same_but_acks_item]
lemmas fold_fields [simp] = same_but_acks_fields [OF same_but_acks_fold]

lemma completion_resolve: "i < length (cw_acks w) \<Longrightarrow> completion_of (resolve k c w) i =
    (if i = k \<and> completion_of w i = Unresolved then c else completion_of w i)"
  by (auto simp: resolve_def nth_list_update)

lemma completion_item: "i < length (cw_acks w) \<Longrightarrow> completion_of (resolve_item it c w) i =
    (if it = Ack i \<and> completion_of w i = Unresolved then c else completion_of w i)"
  by (cases it) (auto simp: resolve_item_def completion_resolve)

lemma completion_fold:
  "i < length (cw_acks w) \<Longrightarrow> c \<noteq> Unresolved \<Longrightarrow>
   completion_of (fold (\<lambda>it. resolve_item it c) its w) i =
     (if Ack i \<in> set its \<and> completion_of w i = Unresolved then c else completion_of w i)"
  by (induction its arbitrary: w) (auto simp: completion_item)

lemma origin_unchanged:
  assumes "same_but_acks w w'" "i < length (cw_acks w)"
  shows "aw_job_id (cw_acks w' ! i) = aw_job_id (cw_acks w ! i)"
    "aw_payload (cw_acks w' ! i) = aw_payload (cw_acks w ! i)"
  using assms by (auto simp: same_but_acks_def)

lemmas origins [simp] = origin_unchanged [OF same_but_acks_resolve]
  origin_unchanged [OF same_but_acks_item] origin_unchanged [OF same_but_acks_fold]

lemma length_ddel:
  assumes "distinct (dkeys d)" and "dget d k \<noteq> None"
  shows "length (ddel d k) = length d - 1"
proof -
  have "length (ddel d k) = length (dkeys (ddel d k))" by (simp only: length_map)
  also have "\<dots> = length (removeAll k (dkeys d))" by (simp only: delete_keys)
  also have "\<dots> = card (set (dkeys d) - {k})"
    using assms(1) by (simp add: distinct_card [symmetric] distinct_removeAll)
  also have "\<dots> = length d - 1"
    using assms distinct_card [OF assms(1)] by (simp add: dget_None_iff)
  finally show ?thesis .
qed

lemma ddel_empty:
  assumes "distinct (dkeys d)" and "dget d k = Some v"
  shows "ddel d k = [] \<longleftrightarrow> length d = Suc 0"
proof -
  have "length (ddel d k) = length d - 1" using assms by (simp add: length_ddel)
  moreover have "d \<noteq> []" using assms(2) by auto
  ultimately show ?thesis by (cases d; cases "ddel d k") auto
qed

lemma length_dset: "length (dset d k v) = (if dget d k = None then Suc (length d) else length d)"
proof -
  have "length (dset d k v) = length (dkeys (dset d k v))" by (simp only: length_map)
  then show ?thesis by (simp add: dkeys_dset dget_None_iff)
qed

subsection \<open>The invariant\<close>

text \<open>The admissions are counted, and every reference is to an existing write.\<close>

definition admissions_ok :: "writer \<Rightarrow> bool" where
  "admissions_ok w \<longleftrightarrow> distinct (dkeys (cw_calls w)) \<and>
     cw_active_ack_admissions w = length (cw_calls w) \<and>
     (cw_admissions_idle w \<longleftrightarrow> cw_calls w = []) \<and>
     (\<forall>k b. dget (cw_calls w) k = Some b \<longrightarrow> k < length (cw_acks w)) \<and>
     (\<forall>k. Ack k \<in> set (cw_queue w) \<longrightarrow> k < length (cw_acks w)) \<and>
     (\<forall>k p. cw_task w = Saving (Ack k) p \<longrightarrow>
        k < length (cw_acks w) \<and> p = aw_payload (cw_acks w ! k))"

text \<open>An unresolved write is on its way, and a written one is in the registry.\<close>

definition answers_ok :: "writer \<Rightarrow> bool" where
  "answers_ok w \<longleftrightarrow> (\<forall>k < length (cw_acks w).
     (completion_of w k = Unresolved \<longrightarrow> held k w) \<and>
     (completion_of w k = Written \<longrightarrow>
        (aw_job_id (cw_acks w ! k), aw_payload (cw_acks w ! k)) \<in> set (cw_registry w)))"

text \<open>The flags follow the life cycle; a writer without a task owes nobody an answer.\<close>

definition phases_ok :: "writer \<Rightarrow> bool" where
  "phases_ok w \<longleftrightarrow>
     (cw_task w = NoTask \<longrightarrow> cw_calls w = [] \<and> (\<forall>k. Ack k \<notin> set (cw_queue w)) \<and> \<not> cw_accepting w) \<and>
     (cw_accepting w \<longrightarrow> \<not> cw_stop_requested w) \<and>
     (cw_stopping w \<longrightarrow> cw_stop_requested w) \<and>
     (cw_stopping w \<longleftrightarrow> cw_stop_at w \<noteq> None) \<and>
     (cw_stop_at w = Some AwaitTask \<longrightarrow> cw_calls w = [] \<and> cw_task w \<noteq> NoTask \<and>
        (cw_task w = Ended \<or> cw_cancelling w))"

definition writer_ok :: "writer \<Rightarrow> bool" where
  "writer_ok w \<longleftrightarrow> admissions_ok w \<and> answers_ok w \<and> phases_ok w"

lemmas pieces = start_writer_def enqueue_checkpoint_def take_item_def store_def save_returned_def
  save_raised_def save_cancelled_def admit_write_def put_done_def leave_admission_def give_up_def
  request_stop_def stop_finished_def cancel_queued_def admissions_joined_def task_joined_def
  writer_running_def

lemmas step_splits = if_splits option.splits list.splits item.splits

lemma admissions_step: "wstep w l w' \<Longrightarrow> admissions_ok w \<Longrightarrow> admissions_ok w'"
  by (cases rule: wstep.cases, assumption)
    (auto simp: admissions_ok_def pieces Let_def length_ddel length_dset ddel_empty nth_append
      distinct_ddel distinct_dset less_Suc_eq simp del: map_of_eq_Some_iff split: step_splits)

lemma phases_step: "wstep w l w' \<Longrightarrow> admissions_ok w \<Longrightarrow> phases_ok w \<Longrightarrow> phases_ok w'"
  by (cases rule: wstep.cases, assumption)
    (auto simp: phases_ok_def admissions_ok_def pieces Let_def split: step_splits)

lemma answers_step:
  assumes "wstep w l w'" and "admissions_ok w" and "phases_ok w" and "answers_ok w"
  shows "answers_ok w'"
  using assms
  by (cases rule: wstep.cases)
    (auto simp: answers_ok_def held_def phases_ok_def admissions_ok_def pieces Let_def nth_append
      completion_resolve completion_item completion_fold item_job_def less_Suc_eq
      simp del: map_of_eq_Some_iff split: step_splits)

lemma new_writer_ok: "writer_ok (new_writer n)"
  by (simp add: writer_ok_def admissions_ok_def answers_ok_def phases_ok_def new_writer_def)

lemma wrun_ok: "wrun w ls w' \<Longrightarrow> writer_ok w \<Longrightarrow> writer_ok w'"
  by (induction rule: wrun.induct)
    (auto simp: writer_ok_def intro: admissions_step phases_step answers_step)

lemmas reachable_ok = wrun_ok [OF _ new_writer_ok]

subsection \<open>Stopping\<close>

text \<open>How much is left to do before a stop is through, if nobody adds to it.\<close>

definition task_work :: "consumer \<Rightarrow> nat" where
  "task_work t = (case t of NoTask \<Rightarrow> 0 | Ended \<Rightarrow> 0 | AtGet \<Rightarrow> 1 | Saving it p \<Rightarrow> 2)"

definition stop_work :: "stop_point option \<Rightarrow> nat" where
  "stop_work sp = (case sp of None \<Rightarrow> 0 | Some AwaitTask \<Rightarrow> 1 | Some AwaitIdle \<Rightarrow> 2)"

definition call_work :: "(nat, bool) dict \<Rightarrow> nat" where
  "call_work calls = (\<Sum>(k, placed)\<leftarrow>calls. if placed then 1 else 4)"

definition writer_work :: "writer \<Rightarrow> nat" where
  "writer_work w = call_work (cw_calls w) + 2 * length (cw_queue w) + task_work (cw_task w) +
     stop_work (cw_stop_at w)"

lemma call_work_ddel:
  "distinct (dkeys calls) \<Longrightarrow> dget calls k = Some placed \<Longrightarrow>
   call_work (ddel calls k) + (if placed then 1 else 4) = call_work calls"
  by (induction calls) (auto simp: call_work_def dget_None_iff delete_idem)

lemma call_work_dset:
  "distinct (dkeys calls) \<Longrightarrow> dget calls k = Some False \<Longrightarrow>
   call_work (dset calls k True) + 3 = call_work calls"
  by (induction calls) (auto simp: call_work_def)

lemma own_step_works:
  assumes "wstep w l w'" and "own_step l" and "admissions_ok w"
  shows "writer_work w' < writer_work w"
  using assms
  by (cases rule: wstep.cases)
    (auto simp: writer_work_def task_work_def stop_work_def admissions_ok_def pieces
      dest: call_work_ddel call_work_dset simp del: map_of_eq_Some_iff split: step_splits)

lemma stopping_is_never_stuck:
  assumes "writer_ok w" and "cw_stopping w"
  obtains l w' where "own_step l" "wstep w l w'"
proof -
  have ok: "admissions_ok w" "phases_ok w" using assms(1) by (simp_all add: writer_ok_def)
  show thesis
  proof (cases "cw_stop_at w")
    case None
    then show thesis using ok assms(2) by (simp add: phases_ok_def)
  next
    case (Some sp)
    show thesis
    proof (cases sp)
      case AwaitIdle
      show thesis
      proof (cases "cw_calls w")
        case Nil
        then show thesis using that [OF _ wstep.admissions_joined] Some AwaitIdle ok
          by (simp add: admissions_ok_def)
      next
        case (Cons call calls)
        then have "dget (cw_calls w) (fst call) = Some (snd call)" by (cases call) simp
        then show thesis using that [OF _ wstep.stop_seen] ok assms(2) by (simp add: phases_ok_def)
      qed
    next
      case AwaitTask
      then have "cw_task w = Ended \<or> cw_cancelling w" "cw_task w \<noteq> NoTask"
        using Some ok by (simp_all add: phases_ok_def)
      then show thesis
        using that [OF _ wstep.task_joined] that [OF _ wstep.cancelled_at_get]
          that [OF _ wstep.cancelled_saving] Some AwaitTask
        by (cases "cw_task w") auto
    qed
  qed
qed

lemma own_run_works:
  "wrun w ls w' \<Longrightarrow> list_all own_step ls \<Longrightarrow> writer_ok w \<Longrightarrow> length ls + writer_work w' \<le> writer_work w"
proof (induction rule: wrun.induct)
  case (cons w l w1 ls w')
  then have "writer_work w1 < writer_work w" "writer_ok w1"
    using own_step_works wrun_ok [OF wrun.cons [OF cons.hyps(1) wrun.nil]] by (auto simp: writer_ok_def)
  then show ?case using cons by simp
qed simp

text \<open>Without help from outside, a stop only ends with the writer at rest.\<close>

definition at_rest :: "writer \<Rightarrow> bool" where
  "at_rest w \<longleftrightarrow> cw_task w = NoTask \<and> cw_queue w = [] \<and> cw_calls w = []"

lemma own_step_rests:
  "wstep w l w' \<Longrightarrow> own_step l \<Longrightarrow> writer_ok w \<Longrightarrow> cw_stopping w \<or> at_rest w \<Longrightarrow>
   cw_stopping w' \<or> at_rest w'"
  by (cases rule: wstep.cases, assumption)
    (auto simp: at_rest_def writer_ok_def admissions_ok_def phases_ok_def pieces split: step_splits)

lemma own_run_rests:
  "wrun w ls w' \<Longrightarrow> list_all own_step ls \<Longrightarrow> writer_ok w \<Longrightarrow> cw_stopping w \<or> at_rest w \<Longrightarrow>
   cw_stopping w' \<or> at_rest w'"
proof (induction rule: wrun.induct)
  case (cons w l w1 ls w')
  then have "writer_ok w1" using wrun_ok [OF wrun.cons [OF cons.hyps(1) wrun.nil]] by simp
  then show ?case using cons own_step_rests by simp
qed simp

lemma rest_answers:
  assumes "writer_ok w" and "at_rest w" and "a \<in> set (cw_acks w)"
  shows "aw_completed a \<noteq> Unresolved"
  using assms by (auto simp: writer_ok_def answers_ok_def held_def at_rest_def in_set_conv_nth)

text \<open>
  C19. A stop leaves no caller waiting, and an acknowledgement is never a lie. Take any
  interleaving of starts, enqueues, acknowledged writes, cancellations and failing saves that
  ends in a writer that is stopping. From there the steps that the writer and its admitted
  callers take by themselves are at most as many as the work counted in this state; they can
  stop only once the stop is through, with no consumer, an empty queue, no admission open and
  every acknowledged write ever made resolved. And whenever a write was acknowledged as
  written, its bytes went into the registry for its job.
\<close>

theorem stop_answers_every_caller:
  assumes "wrun (new_writer n) tr w" and "cw_stopping w" and "wrun w ls w'" and "list_all own_step ls"
  shows "length ls \<le> writer_work w \<and>
    ((\<forall>l w''. own_step l \<longrightarrow> \<not> wstep w' l w'') \<longrightarrow> \<not> cw_stopping w' \<and> cw_task w' = NoTask \<and>
       cw_queue w' = [] \<and> cw_calls w' = [] \<and> (\<forall>a \<in> set (cw_acks w'). aw_completed a \<noteq> Unresolved)) \<and>
    (\<forall>a \<in> set (cw_acks w'). aw_completed a = Written \<longrightarrow>
       (aw_job_id a, aw_payload a) \<in> set (cw_registry w'))"
proof (intro conjI impI)
  have ok: "writer_ok w" using assms(1) by (rule reachable_ok)
  then have ok': "writer_ok w'" using assms(3) wrun_ok by blast
  show "length ls \<le> writer_work w" using own_run_works [OF assms(3,4) ok] by simp
  show "\<forall>a \<in> set (cw_acks w'). aw_completed a = Written \<longrightarrow>
       (aw_job_id a, aw_payload a) \<in> set (cw_registry w')"
    using ok' by (auto simp: writer_ok_def answers_ok_def in_set_conv_nth)
  assume stuck: "\<forall>l w''. own_step l \<longrightarrow> \<not> wstep w' l w''"
  show stopped: "\<not> cw_stopping w'" using stopping_is_never_stuck [OF ok'] stuck by blast
  then have rest: "at_rest w'" using own_run_rests [OF assms(3,4) ok] assms(2) by blast
  then show "cw_task w' = NoTask" "cw_queue w' = []" "cw_calls w' = []" by (simp_all add: at_rest_def)
  show "\<forall>a \<in> set (cw_acks w'). aw_completed a \<noteq> Unresolved" using rest_answers [OF ok' rest] by blast
qed

subsection \<open>The order of the saves\<close>

text \<open>What was enqueued for a job by a run, and where its snapshots are.\<close>

definition enqueued :: "string \<Rightarrow> label list \<Rightarrow> payload list" where
  "enqueued j ls = concat (map (\<lambda>l. case l of Enqueue i p q \<Rightarrow> if i = j then [p] else [] | _ \<Rightarrow> []) ls)"

definition stored_for :: "string \<Rightarrow> writer \<Rightarrow> payload list" where
  "stored_for j w = map snd (filter (\<lambda>x. fst x = j) (cw_registry w))"

definition in_flight :: "string \<Rightarrow> writer \<Rightarrow> payload list" where
  "in_flight j w = (case cw_task w of Saving (Token i) p \<Rightarrow> if i = j then [p] else [] | _ \<Rightarrow> [])"

definition waiting :: "string \<Rightarrow> writer \<Rightarrow> payload list" where
  "waiting j w = (case dget (cw_latest w) j of None \<Rightarrow> [] | Some p \<Rightarrow> [p])"

text \<open>
  A step moves the snapshots of a job along: it leaves them, stores the one in flight, puts
  the waiting one in flight, loses the one in flight, or replaces the waiting one.
\<close>

definition never_acknowledged :: "string \<Rightarrow> writer \<Rightarrow> bool" where
  "never_acknowledged j w \<longleftrightarrow> (\<forall>k < length (cw_acks w). aw_job_id (cw_acks w ! k) \<noteq> j)"

lemma never_acknowledged_step:
  "wstep w l w' \<Longrightarrow> \<forall>p. l \<noteq> Admit j p \<Longrightarrow> never_acknowledged j w \<Longrightarrow> never_acknowledged j w'"
  by (cases rule: wstep.cases, assumption)
    (auto simp: never_acknowledged_def pieces Let_def nth_append less_Suc_eq split: step_splits)

lemma snapshots_step:
  assumes "wstep w l w'" and "admissions_ok w" and "never_acknowledged j w"
  shows "(\<exists>p q. l = Enqueue j p q \<and> waiting j w' = [p] \<and>
        stored_for j w' = stored_for j w \<and> in_flight j w' = in_flight j w) \<or>
     enqueued j [l] = [] \<and>
       (stored_for j w' @ in_flight j w' = stored_for j w @ in_flight j w \<and> waiting j w' = waiting j w \<or>
        in_flight j w = [] \<and> stored_for j w' = stored_for j w \<and> in_flight j w' = waiting j w \<and>
          waiting j w' = [] \<or>
        (\<exists>e. l = SaveRaised e False \<or> l = ConsumerCancelled False) \<and>
          stored_for j w' = stored_for j w \<and> in_flight j w' = [] \<and> waiting j w' = waiting j w)"
  using assms
  by (cases rule: wstep.cases)
    (auto simp: enqueued_def stored_for_def in_flight_def waiting_def pieces Let_def
      never_acknowledged_def admissions_ok_def item_job_def
      simp del: map_of_eq_Some_iff split: step_splits)

lemma subseq_drop_middle: "subseq (xs @ ys @ zs) es \<Longrightarrow> subseq (xs @ zs) es"
  by (erule subseq_order.order_trans [rotated])
    (intro list_emb_append_mono subseq_order.order_refl list_emb_append2)

lemma subseq_extend: "subseq xs es \<Longrightarrow> subseq (xs @ zs) (es @ zs)"
  by simp

definition order_ok :: "string \<Rightarrow> payload list \<Rightarrow> writer \<Rightarrow> bool" where
  "order_ok j es w \<longleftrightarrow> subseq (stored_for j w @ in_flight j w @ waiting j w) es"

lemma order_step:
  assumes "wstep w l w'" and "admissions_ok w" and "never_acknowledged j w" and "order_ok j es w"
  shows "order_ok j (es @ enqueued j [l]) w'"
  using snapshots_step [OF assms(1-3)]
proof (elim disjE conjE exE)
  fix p q assume l: "l = Enqueue j p q" "waiting j w' = [p]" "stored_for j w' = stored_for j w"
    "in_flight j w' = in_flight j w"
  have "subseq (stored_for j w @ in_flight j w) es"
    using assms(4) subseq_drop_middle [of "stored_for j w @ in_flight j w" "waiting j w" "[]"]
    by (simp add: order_ok_def)
  from subseq_extend [OF this, of "[p]"] show ?thesis using l by (simp add: order_ok_def enqueued_def)
next
  assume s: "enqueued j [l] = []" "stored_for j w' @ in_flight j w' = stored_for j w @ in_flight j w"
    "waiting j w' = waiting j w"
  have "stored_for j w' @ in_flight j w' @ waiting j w' = stored_for j w @ in_flight j w @ waiting j w"
    using arg_cong [OF s(2), of "\<lambda>xs. xs @ waiting j w"] s(3) by simp
  then show ?thesis using s(1) assms(4) by (simp add: order_ok_def)
qed (use assms(4) in \<open>auto simp: order_ok_def intro: subseq_drop_middle\<close>)

text \<open>While no save fails and no enqueue finds the queue full, the newest snapshot survives.\<close>

fun undisturbed :: "string \<Rightarrow> label \<Rightarrow> bool" where
  "undisturbed j (SaveRaised e stored) = False"
| "undisturbed j (ConsumerCancelled stored) = False"
| "undisturbed j AdmissionsJoined = False"
| "undisturbed j (Enqueue i p queued) = (i = j \<longrightarrow> queued)"
| "undisturbed j _ = True"

definition fresh_ok :: "string \<Rightarrow> payload list \<Rightarrow> writer \<Rightarrow> bool" where
  "fresh_ok j es w \<longleftrightarrow>
     (es \<noteq> [] \<longrightarrow> stored_for j w @ in_flight j w @ waiting j w \<noteq> [] \<and>
        last (stored_for j w @ in_flight j w @ waiting j w) = last es) \<and>
     (waiting j w \<noteq> [] \<longrightarrow> Token j \<in> set (cw_queue w)) \<and> cw_task w \<noteq> Ended"

lemma queued_step:
  assumes "wstep w l w'" and "undisturbed j l" and "waiting j w \<noteq> [] \<longrightarrow> Token j \<in> set (cw_queue w)"
    and "cw_task w \<noteq> Ended"
  shows "(waiting j w' \<noteq> [] \<longrightarrow> Token j \<in> set (cw_queue w')) \<and> cw_task w' \<noteq> Ended"
  using assms
  by (cases rule: wstep.cases) (auto simp: waiting_def pieces Let_def split: step_splits)

lemma fresh_step:
  assumes "wstep w l w'" and "undisturbed j l" and "admissions_ok w" and "never_acknowledged j w"
    and "fresh_ok j es w"
  shows "fresh_ok j (es @ enqueued j [l]) w'"
proof -
  note queued = queued_step [OF assms(1,2)]
  show ?thesis using snapshots_step [OF assms(1,3,4)]
  proof (elim disjE conjE exE)
    assume s: "enqueued j [l] = []" "stored_for j w' @ in_flight j w' = stored_for j w @ in_flight j w"
      "waiting j w' = waiting j w"
    have "stored_for j w' @ in_flight j w' @ waiting j w' = stored_for j w @ in_flight j w @ waiting j w"
      using arg_cong [OF s(2), of "\<lambda>xs. xs @ waiting j w"] s(3) by simp
    then show ?thesis using s(1) assms(5) queued by (simp add: fresh_ok_def)
  qed (use assms(2,5) queued in \<open>auto simp: fresh_ok_def enqueued_def\<close>)
qed

lemma enqueued_Cons: "enqueued j (l # ls) = enqueued j [l] @ enqueued j ls"
  by (simp add: enqueued_def)

lemma order_run:
  "wrun w ls w' \<Longrightarrow> writer_ok w \<Longrightarrow> never_acknowledged j w \<Longrightarrow> \<forall>p. Admit j p \<notin> set ls \<Longrightarrow>
   order_ok j es w \<Longrightarrow>
   order_ok j (es @ enqueued j ls) w' \<and>
     (list_all (undisturbed j) ls \<longrightarrow> fresh_ok j es w \<longrightarrow> fresh_ok j (es @ enqueued j ls) w')"
proof (induction arbitrary: es rule: wrun.induct)
  case (cons w l w1 ls w')
  have a: "admissions_ok w" and l: "\<forall>p. l \<noteq> Admit j p" using cons.prems by (auto simp: writer_ok_def)
  note step = cons.hyps(1)
  have "writer_ok w1" using wrun_ok [OF wrun.cons [OF step wrun.nil] cons.prems(1)] .
  moreover have "never_acknowledged j w1" using never_acknowledged_step [OF step l cons.prems(2)] .
  moreover have "order_ok j (es @ enqueued j [l]) w1" using order_step [OF step a cons.prems(2,4)] .
  ultimately show ?case
    using cons.IH [of "es @ enqueued j [l]"] cons.prems(2,3) fresh_step [OF step _ a, of j es]
    by (auto simp: enqueued_Cons [of j l ls])
qed (simp add: enqueued_def)

text \<open>
  C18. Coalesced writes never reorder, and the newest one wins. In any interleaving, for a job
  that is only ever written by \<open>enqueue\<close>, what the registry stored for it is a subsequence of
  what was enqueued: no snapshot overwrites a newer one, and none is stored twice. And when no
  save failed, no enqueue of the job found the queue full and the writer was not stopped, a
  drained writer has stored the last enqueued snapshot last.
\<close>

theorem coalesced_writes_keep_order:
  assumes "wrun (new_writer n) tr w" and "\<forall>p. Admit j p \<notin> set tr"
  shows "subseq (stored_for j w) (enqueued j tr) \<and>
    (list_all (undisturbed j) tr \<and> cw_queue w = [] \<and> cw_task w = AtGet \<and> enqueued j tr \<noteq> [] \<longrightarrow>
       stored_for j w \<noteq> [] \<and> last (stored_for j w) = last (enqueued j tr))"
proof -
  have initial: "never_acknowledged j (new_writer n)" "order_ok j [] (new_writer n)"
    "fresh_ok j [] (new_writer n)"
    by (simp_all add: never_acknowledged_def order_ok_def fresh_ok_def stored_for_def in_flight_def
        waiting_def new_writer_def)
  have run: "order_ok j (enqueued j tr) w" "list_all (undisturbed j) tr \<Longrightarrow> fresh_ok j (enqueued j tr) w"
    using order_run [OF assms(1) new_writer_ok initial(1) assms(2) initial(2)] initial(3) by simp_all
  have "subseq (stored_for j w) (enqueued j tr)"
    using run(1) subseq_drop_middle [of "stored_for j w" "in_flight j w @ waiting j w" "[]"]
    by (simp add: order_ok_def)
  moreover have "stored_for j w \<noteq> [] \<and> last (stored_for j w) = last (enqueued j tr)"
    if "list_all (undisturbed j) tr" "cw_queue w = []" "cw_task w = AtGet" "enqueued j tr \<noteq> []"
    using run(2) that by (auto simp: fresh_ok_def in_flight_def)
  ultimately show ?thesis by blast
qed

subsection \<open>Concrete interleavings\<close>

text \<open>The step relation as a function, to compute with.\<close>

definition perform :: "label \<Rightarrow> writer \<Rightarrow> writer option" where
  "perform l w = (case l of
      StartWriter \<Rightarrow> (case start_writer w of (Inr u, w') \<Rightarrow> Some w' | _ \<Rightarrow> None)
    | Enqueue j p queued \<Rightarrow>
        if queued = (\<not> queue_full w) then Some (enqueue_checkpoint j p w) else None
    | Admit j p \<Rightarrow> (case admit_write j p w of (Inr k, w') \<Rightarrow> Some w' | _ \<Rightarrow> None)
    | Put k \<Rightarrow> if dget (cw_calls w) k = Some False \<and> \<not> queue_full w then Some (put_done k w) else None
    | Resume k \<Rightarrow> if dget (cw_calls w) k = Some True then Some (leave_admission k w) else None
    | StopSeen k \<Rightarrow>
        if dget (cw_calls w) k \<noteq> None \<and> cw_stop_requested w then Some (give_up k w) else None
    | AdmissionCancelled k \<Rightarrow> if dget (cw_calls w) k \<noteq> None then Some (give_up k w) else None
    | CallerCancelled k \<Rightarrow>
        if dget (cw_calls w) k = None then Some (resolve k WriteCancelled w) else None
    | Take \<Rightarrow>
        if cw_task w = AtGet \<and> \<not> cw_cancelling w \<and> cw_queue w \<noteq> [] then Some (take_item w) else None
    | Saved \<Rightarrow> (case cw_task w of
          Saving it p \<Rightarrow> if cw_cancelling w then None else Some (save_returned it p w) | _ \<Rightarrow> None)
    | SaveRaised e stored \<Rightarrow> (case cw_task w of
          Saving it p \<Rightarrow> if cw_cancelling w \<or> \<not> is_Exception e then None
                         else Some (save_raised it p e stored w) | _ \<Rightarrow> None)
    | CancelConsumer \<Rightarrow> if writer_running w then Some (w\<lparr>cw_cancelling := True\<rparr>) else None
    | ConsumerCancelled stored \<Rightarrow>
        if \<not> cw_cancelling w then None
        else (case cw_task w of
            AtGet \<Rightarrow> Some (w\<lparr>cw_task := Ended\<rparr>)
          | Saving it p \<Rightarrow> Some (save_cancelled it p stored w) | _ \<Rightarrow> None)
    | RequestStop \<Rightarrow> Some (request_stop w)
    | AdmissionsJoined \<Rightarrow>
        if cw_stop_at w = Some AwaitIdle \<and> cw_admissions_idle w then Some (admissions_joined w) else None
    | TaskJoined \<Rightarrow>
        if cw_stop_at w = Some AwaitTask \<and> cw_task w = Ended then Some (task_joined w) else None
    | StopCancelled \<Rightarrow> if cw_stop_at w = Some AwaitIdle then Some (stop_finished w) else None)"

lemma perform_iff: "perform l w = Some w' \<longleftrightarrow> wstep w l w'"
  by (cases l) (auto simp: perform_def elim!: wstep.cases intro: wstep.intros
      split: if_splits option.splits sum.splits prod.splits consumer.splits)

fun performs :: "label list \<Rightarrow> writer \<Rightarrow> writer option" where
  "performs [] w = Some w"
| "performs (l # ls) w = (case perform l w of None \<Rightarrow> None | Some w1 \<Rightarrow> performs ls w1)"

lemma performs_iff: "performs ls w = Some w' \<longleftrightarrow> wrun w ls w'"
  by (induction ls arbitrary: w)
    (auto simp: wrun_simps perform_iff [symmetric] split: option.splits)

text \<open>
  An acknowledged write carries its own bytes, a token whatever is newest when it is taken.
  With both for one job, the acknowledged write can overwrite a snapshot enqueued after it.
\<close>

definition overtaken :: "label list" where
  "overtaken = [StartWriter, Enqueue ''j'' ''v1'' True, Admit ''j'' ''v2'', Put 0, Resume 0,
     Enqueue ''j'' ''v3'' True, Take, Saved, Take, Saved, Take]"

lemma acknowledged_write_overtakes:
  "map_option (\<lambda>w. (stored_for ''j'' w, cw_queue w, cw_latest w, cw_task w))
     (performs overtaken (new_writer 512)) = Some ([''v3'', ''v2''], [], [], AtGet)"
  by code_simp

definition burst :: "label list" where
  "burst = [StartWriter, Enqueue ''j'' ''v1'' True, Take, Enqueue ''j'' ''v2'' True,
     Enqueue ''j'' ''v3'' True, Saved, Take, Saved, Take]"

theorem coalesced_writes_keep_order_witness:
  "\<exists>w. performs burst (new_writer 2) = Some w \<and> last (stored_for ''j'' w) = ''v3''"
proof -
  have "map_option (\<lambda>w. (cw_queue w, cw_task w)) (performs burst (new_writer 2)) = Some ([], AtGet)"
    by code_simp
  then obtain w where run: "performs burst (new_writer 2) = Some w" "cw_queue w = []" "cw_task w = AtGet"
    by auto
  have "enqueued ''j'' burst = [''v1'', ''v2'', ''v3'']" "list_all (undisturbed ''j'') burst"
    "\<forall>p. Admit ''j'' p \<notin> set burst"
    by (simp_all add: burst_def enqueued_def)
  then have "last (stored_for ''j'' w) = ''v3''"
    using coalesced_writes_keep_order [of 2 burst w "''j''"] run by (simp add: performs_iff)
  then show ?thesis using run by simp
qed

definition stopped_caller :: "label list" where
  "stopped_caller = [StartWriter, Enqueue ''j'' ''v1'' True, Admit ''j'' ''v2'', RequestStop]"

definition through_the_stop :: "label list" where
  "through_the_stop = [StopSeen 0, AdmissionsJoined, ConsumerCancelled True, TaskJoined]"

theorem stop_answers_every_caller_witness:
  "\<exists>w w'. performs stopped_caller (new_writer 1) = Some w \<and> performs through_the_stop w = Some w' \<and>
     4 \<le> writer_work w \<and> map aw_completed (cw_acks w') = [WriteCancelled]"
proof -
  have "map_option (\<lambda>w. (cw_stopping w, map_option (\<lambda>w'. map aw_completed (cw_acks w'))
      (performs through_the_stop w))) (performs stopped_caller (new_writer 1)) = Some (True, Some [WriteCancelled])"
    by code_simp
  then obtain w w' where run: "performs stopped_caller (new_writer 1) = Some w" "cw_stopping w"
      "performs through_the_stop w = Some w'" "map aw_completed (cw_acks w') = [WriteCancelled]"
    by auto
  have own: "list_all own_step through_the_stop" "length through_the_stop = 4"
    by (simp_all add: through_the_stop_def)
  have "wrun (new_writer 1) stopped_caller w" "wrun w through_the_stop w'"
    using run by (simp_all only: performs_iff)
  from stop_answers_every_caller [OF this(1) run(2) this(2) own(1)] have "4 \<le> writer_work w"
    by (simp only: own(2))
  then show ?thesis using run by (intro exI [where x = w] exI [where x = w'] conjI)
qed

end
