(* ===== verification/Backend_Pool.thy ===== *)
theory Backend_Pool
  imports Prelude "HOL-Library.Multiset"
begin

section \<open>The pool of execution backends\<close>

text \<open>
  \<open>daemon/baton/backend_pool.py\<close>: backends are acquired for a sheet and released after it.
  A backend is a mutable object, so the pool refers to backends by their index in the list of
  all that were ever created. Every operation runs without suspension (the lock is held only
  by code without awaits, except \<open>close_all\<close>, which has marked the pool as closed before), so
  that a run is a sequence of operations. The key that the keyring selects is an argument.
\<close>

subsection \<open>Profiles and backends\<close>

text \<open>
  Of a profile: its name and kind, its \<open>cli.interactive\<close> block with \<open>enabled_by_default\<close>, its
  default model, and whether its HTTP schema is supported. A validator of \<open>InstrumentProfile\<close>
  ensures the section of the kind.
\<close>

datatype instrument_kind = CliKind | HttpKind

record profile =
  pf_name :: string
  pf_kind :: instrument_kind
  pf_interactive :: "bool option"
  pf_default_model :: "string option"
  pf_openai_schema :: bool

record backend =
  bk_profile :: profile
  bk_interactive :: bool
  bk_model :: "string option"
  bk_saved_model :: "string option"
  bk_has_overrides :: bool
  bk_working_directory :: "string option"
  bk_api_key :: "string option"
  bk_pool_generation :: nat
  bk_closed :: bool

text \<open>Truth of an optional string.\<close>

definition given :: "string option \<Rightarrow> bool" where
  "given s \<longleftrightarrow> (case s of None \<Rightarrow> False | Some t \<Rightarrow> t \<noteq> [])"

definition apply_overrides :: "string option \<Rightarrow> backend \<Rightarrow> backend" where
  "apply_overrides model b =
     (if given model
      then b\<lparr>bk_saved_model := bk_model b, bk_has_overrides := True, bk_model := model\<rparr> else b)"

definition clear_overrides :: "backend \<Rightarrow> backend" where
  "clear_overrides b =
     (if bk_has_overrides b
      then b\<lparr>bk_model := bk_saved_model b, bk_saved_model := None, bk_has_overrides := False\<rparr> else b)"

text \<open>\<open>_create_backend_for_profile\<close>, tagged with the generation of the pool.\<close>

definition create_backend ::
  "nat \<Rightarrow> profile \<Rightarrow> string option \<Rightarrow> string option \<Rightarrow> string option \<Rightarrow> bool \<Rightarrow> py_exn + backend" where
  "create_backend generation p working_directory model api_key interactive =
     (let fresh = \<lparr>bk_profile = p, bk_interactive = interactive, bk_model = pf_default_model p,
            bk_saved_model = None, bk_has_overrides = False, bk_working_directory = working_directory,
            bk_api_key = None, bk_pool_generation = generation, bk_closed = False\<rparr>
      in if interactive
         then (if pf_kind p \<noteq> CliKind \<or> pf_interactive p = None then Inl ValueError
               else Inr (apply_overrides model fresh))
         else if pf_kind p = CliKind then Inr (apply_overrides model fresh)
         else if \<not> pf_openai_schema p then Inl ValueError
         else (let resolved = (if given model then model else pf_default_model p)
               in if \<not> given resolved then Inl ValueError
                  else Inr (fresh\<lparr>bk_model := resolved, bk_api_key := api_key\<rparr>)))"

subsection \<open>The pool\<close>

record pool =
  pl_profiles :: "(string, profile) dict"
  pl_cli_free :: "(string, nat list) dict"
  pl_http_singletons :: "(string, nat) dict"
  pl_in_flight :: "(string, int) dict"
  pl_all_backends :: "backend list"
  pl_generation :: nat
  pl_closed :: bool

definition new_pool :: "(string, profile) dict \<Rightarrow> pool" where
  "new_pool profiles = \<lparr>pl_profiles = profiles, pl_cli_free = [], pl_http_singletons = [],
     pl_in_flight = [], pl_all_backends = [], pl_generation = 0, pl_closed = False\<rparr>"

definition free_list_key :: "string \<Rightarrow> bool \<Rightarrow> string" where
  "free_list_key name interactive = (if interactive then name @ '':interactive'' else name)"

definition profile_default_interactive :: "profile \<Rightarrow> bool" where
  "profile_default_interactive p \<longleftrightarrow> pf_kind p = CliKind \<and> pf_interactive p = Some True"

definition in_flight_count :: "string \<Rightarrow> pool \<Rightarrow> int" where
  "in_flight_count name s = dget_or (pl_in_flight s) name 0"

definition total_in_flight :: "pool \<Rightarrow> int" where
  "total_in_flight s = sum_list (dvals (pl_in_flight s))"

definition track_in_flight :: "string \<Rightarrow> pool \<Rightarrow> pool" where
  "track_in_flight name s =
     s\<lparr>pl_in_flight := dset (pl_in_flight s) name (in_flight_count name s + 1)\<rparr>"

definition adopt :: "backend \<Rightarrow> pool \<Rightarrow> pool" where
  "adopt b s = s\<lparr>pl_all_backends := pl_all_backends s @ [b]\<rparr>"

definition update_backend :: "nat \<Rightarrow> (backend \<Rightarrow> backend) \<Rightarrow> pool \<Rightarrow> pool" where
  "update_backend i f s =
     s\<lparr>pl_all_backends := (pl_all_backends s)[i := f (pl_all_backends s ! i)]\<rparr>"

text \<open>\<open>_acquire_locked\<close>, by kind.\<close>

definition acquire_http ::
  "profile \<Rightarrow> string option \<Rightarrow> string option \<Rightarrow> string option \<Rightarrow> (pool, nat) act" where
  "acquire_http p model working_directory api_key s =
     (if \<not> given (pf_default_model p) \<and> \<not> given model then (Inl ValueError, s)
      else case dget (pl_http_singletons s) (pf_name p) of
        Some i \<Rightarrow> (Inr i, track_in_flight (pf_name p) s)
      | None \<Rightarrow>
          (case create_backend (pl_generation s) p working_directory
                  (if given (pf_default_model p) then None else model) api_key False of
             Inl e \<Rightarrow> (Inl e, s)
           | Inr b \<Rightarrow>
               (let i = length (pl_all_backends s)
                in (Inr i, track_in_flight (pf_name p)
                     ((adopt b s)\<lparr>pl_http_singletons := dset (pl_http_singletons s) (pf_name p) i\<rparr>)))))"

definition acquire_cli ::
  "profile \<Rightarrow> string option \<Rightarrow> string option \<Rightarrow> string option \<Rightarrow> bool \<Rightarrow> (pool, nat) act" where
  "acquire_cli p model working_directory api_key interactive s =
     (let key = free_list_key (pf_name p) interactive;
          free = dget_or (pl_cli_free s) key []
      in if free \<noteq> []
         then (let i = last free;
                   s1 = update_backend i (\<lambda>b. apply_overrides model
                          (if working_directory \<noteq> None
                           then b\<lparr>bk_working_directory := working_directory\<rparr> else b))
                        (s\<lparr>pl_cli_free := dset (pl_cli_free s) key (butlast free)\<rparr>)
               in (Inr i, track_in_flight (pf_name p) s1))
         else (case create_backend (pl_generation s) p working_directory model None interactive of
             Inl e \<Rightarrow> (Inl e, s)
           | Inr b \<Rightarrow> (Inr (length (pl_all_backends s)), track_in_flight (pf_name p) (adopt b s))))"

text \<open>
  \<open>acquire\<close>. \<open>selected\<close> is the outcome of the keyring for this instrument, if it has keys.
\<close>

definition acquire_backend ::
  "string \<Rightarrow> string option \<Rightarrow> string option \<Rightarrow> bool option \<Rightarrow> (py_exn + string) option
   \<Rightarrow> (pool, nat) act" where
  "acquire_backend name model working_directory interactive selected s =
     (if pl_closed s then (Inl RuntimeError, s)
      else case dget (pl_profiles s) name of
        None \<Rightarrow> (Inl ValueError, s)
      | Some p \<Rightarrow>
          (let resolved = (case interactive of None \<Rightarrow> profile_default_interactive p | Some b \<Rightarrow> b)
           in if pf_kind p = HttpKind
              then (case selected of
                  None \<Rightarrow> acquire_http p model working_directory None s
                | Some (Inr key) \<Rightarrow> acquire_http p model working_directory (Some key) s
                | Some (Inl e) \<Rightarrow>
                    if e \<in> {KeyError, FileNotFoundError, ValueError}
                    then acquire_http p model working_directory None s else (Inl e, s))
              else acquire_cli p model working_directory None resolved s))"

definition release_backend :: "string \<Rightarrow> nat \<Rightarrow> pool \<Rightarrow> pool" where
  "release_backend name i s =
     (let s1 = update_backend i clear_overrides s;
          s2 = s1\<lparr>pl_in_flight := dset (pl_in_flight s1) name (max 0 (in_flight_count name s1 - 1))\<rparr>;
          b = pl_all_backends s2 ! i;
          stale = (bk_pool_generation b \<noteq> pl_generation s2)
      in case dget (pl_profiles s2) name of
           None \<Rightarrow> s2
         | Some p \<Rightarrow>
             if pf_kind p = CliKind \<and> \<not> stale
             then (let key = free_list_key name (bk_interactive b)
                   in s2\<lparr>pl_cli_free := dset (pl_cli_free s2) key
                          (dget_or (pl_cli_free s2) key [] @ [i])\<rparr>)
             else s2)"

definition invalidate :: "pool \<Rightarrow> pool" where
  "invalidate s = s\<lparr>pl_generation := pl_generation s + 1, pl_cli_free := [], pl_http_singletons := []\<rparr>"

text \<open>The daemon replaces the registry and invalidates the pool without suspending in between.\<close>

definition reload_profiles :: "(string, profile) dict \<Rightarrow> pool \<Rightarrow> pool" where
  "reload_profiles profiles s = invalidate (s\<lparr>pl_profiles := profiles\<rparr>)"

text \<open>\<open>close_all\<close>; a backend whose \<open>close\<close> raises is skipped.\<close>

definition close_all :: "(nat \<Rightarrow> bool) \<Rightarrow> pool \<Rightarrow> pool" where
  "close_all raises s = s\<lparr>pl_closed := True,
     pl_all_backends := map (\<lambda>(i, b). if raises i then b else b\<lparr>bk_closed := True\<rparr>)
       (enumerate 0 (pl_all_backends s)),
     pl_cli_free := [], pl_http_singletons := [], pl_in_flight := []\<rparr>"

subsection \<open>Clients\<close>

text \<open>
  The clients hold what they acquired under the name they used, and give back only that. A
  sheet runs one attempt per acquired backend.
\<close>

record clients =
  cl_pool :: pool
  cl_held :: "(string \<times> nat) multiset"

datatype pool_op =
    AcquireOp string "string option" "string option" "bool option" "(py_exn + string) option"
  | ReleaseOp string nat
  | ReloadOp "(string, profile) dict"
  | CloseOp "nat \<Rightarrow> bool"

definition pool_step :: "pool_op \<Rightarrow> clients \<Rightarrow> clients" where
  "pool_step op c = (case op of
      AcquireOp name model wd interactive selected \<Rightarrow>
        (case acquire_backend name model wd interactive selected (cl_pool c) of
           (Inl e, s) \<Rightarrow> c\<lparr>cl_pool := s\<rparr>
         | (Inr i, s) \<Rightarrow> c\<lparr>cl_pool := s, cl_held := add_mset (name, i) (cl_held c)\<rparr>)
    | ReleaseOp name i \<Rightarrow>
        if (name, i) \<in># cl_held c
        then c\<lparr>cl_pool := release_backend name i (cl_pool c), cl_held := cl_held c - {#(name, i)#}\<rparr>
        else c
    | ReloadOp profiles \<Rightarrow> c\<lparr>cl_pool := reload_profiles profiles (cl_pool c)\<rparr>
    | CloseOp raises \<Rightarrow> c\<lparr>cl_pool := close_all raises (cl_pool c)\<rparr>)"

definition pool_run :: "(string, profile) dict \<Rightarrow> pool_op list \<Rightarrow> clients" where
  "pool_run profiles ops = fold pool_step ops \<lparr>cl_pool = new_pool profiles, cl_held = {#}\<rparr>"

subsection \<open>The invariant\<close>

text \<open>
  Profiles are registered under their own name, and no name is the free-list key of another
  one's interactive backends. (The code does not check this: names may hold any characters.)
\<close>

definition profiles_ok :: "(string, profile) dict \<Rightarrow> bool" where
  "profiles_ok profiles \<longleftrightarrow> (\<forall>n p. dget profiles n = Some p \<longrightarrow> pf_name p = n) \<and>
     (\<forall>n. dget profiles n = None \<or> dget profiles (n @ '':interactive'') = None)"

lemma free_list_key_inject:
  assumes "profiles_ok profiles" and "dget profiles m = Some p" and "dget profiles n = Some q"
    and "free_list_key m a = free_list_key n b"
  shows "m = n \<and> a = b"
proof -
  have apart: "dget profiles k = None \<or> dget profiles (k @ '':interactive'') = None" for k
    using assms(1) by (simp add: profiles_ok_def)
  show ?thesis
    using assms(2-4) apart [of m] apart [of n] by (cases a; cases b) (simp_all add: free_list_key_def)
qed

definition backend_ok :: "pool \<Rightarrow> backend \<Rightarrow> bool" where
  "backend_ok s b \<longleftrightarrow> bk_pool_generation b \<le> pl_generation s \<and>
     (bk_pool_generation b = pl_generation s \<longrightarrow>
        dget (pl_profiles s) (pf_name (bk_profile b)) = Some (bk_profile b)) \<and>
     (pf_kind (bk_profile b) = CliKind \<longrightarrow>
        (if bk_has_overrides b then bk_saved_model b else bk_model b) = pf_default_model (bk_profile b)) \<and>
     (pf_kind (bk_profile b) = HttpKind \<longrightarrow> \<not> bk_interactive b \<and> \<not> bk_has_overrides b \<and>
        (given (pf_default_model (bk_profile b)) \<longrightarrow> bk_model b = pf_default_model (bk_profile b))) \<and>
     (\<not> pl_closed s \<longrightarrow> \<not> bk_closed b)"

definition own_key :: "backend \<Rightarrow> string" where
  "own_key b = free_list_key (pf_name (bk_profile b)) (bk_interactive b)"

definition idle_ok :: "pool \<Rightarrow> string \<Rightarrow> nat \<Rightarrow> bool" where
  "idle_ok s key i \<longleftrightarrow> i < length (pl_all_backends s) \<and>
     (let b = pl_all_backends s ! i
      in bk_pool_generation b = pl_generation s \<and> \<not> bk_has_overrides b \<and>
         pf_kind (bk_profile b) = CliKind \<and> key = own_key b)"

definition singleton_ok :: "pool \<Rightarrow> string \<Rightarrow> nat \<Rightarrow> bool" where
  "singleton_ok s n i \<longleftrightarrow> i < length (pl_all_backends s) \<and>
     (let b = pl_all_backends s ! i
      in bk_pool_generation b = pl_generation s \<and> pf_kind (bk_profile b) = HttpKind \<and>
         pf_name (bk_profile b) = n)"

definition pool_ok :: "pool \<Rightarrow> bool" where
  "pool_ok s \<longleftrightarrow> profiles_ok (pl_profiles s) \<and> (\<forall>b \<in> set (pl_all_backends s). backend_ok s b) \<and>
     (\<forall>key. \<forall>i \<in> set (dget_or (pl_cli_free s) key []). idle_ok s key i) \<and>
     (\<forall>n i. dget (pl_http_singletons s) n = Some i \<longrightarrow> singleton_ok s n i)"

text \<open>What is lent: to one client each, except the shared HTTP backends, and counted by name.\<close>

definition lent_times :: "(string \<times> nat) multiset \<Rightarrow> nat \<Rightarrow> nat" where
  "lent_times held i = size {#x \<in># held. snd x = i#}"

definition idle_times :: "pool \<Rightarrow> nat \<Rightarrow> nat" where
  "idle_times s i = count (mset (dget_or (pl_cli_free s) (own_key (pl_all_backends s ! i)) [])) i"

definition lent_ok :: "(string \<times> nat) multiset \<Rightarrow> pool \<Rightarrow> bool" where
  "lent_ok held s \<longleftrightarrow>
     (\<forall>(n, i) \<in># held. i < length (pl_all_backends s) \<and> pf_name (bk_profile (pl_all_backends s ! i)) = n) \<and>
     (\<forall>i < length (pl_all_backends s). pf_kind (bk_profile (pl_all_backends s ! i)) = CliKind \<longrightarrow>
        lent_times held i + idle_times s i \<le> 1) \<and>
     (\<forall>n. in_flight_count n s = (if pl_closed s then 0 else int (size {#x \<in># held. fst x = n#})))"

lemma in_flight_track: "in_flight_count n (track_in_flight m s) = in_flight_count n s + (if n = m then 1 else 0)"
  by (simp add: in_flight_count_def track_in_flight_def dget_or_def)

lemma track_ok [simp]: "pool_ok (track_in_flight n s) \<longleftrightarrow> pool_ok s"
  by (simp add: pool_ok_def track_in_flight_def backend_ok_def idle_ok_def singleton_ok_def)

lemma created_ok:
  assumes "create_backend (pl_generation s) p wd model key interactive = Inr b"
    and "dget (pl_profiles s) (pf_name p) = Some p"
    and "pf_kind p = HttpKind \<longrightarrow> \<not> interactive \<and> (given (pf_default_model p) \<longrightarrow> \<not> given model)"
  shows "backend_ok s b \<and> bk_profile b = p \<and> bk_pool_generation b = pl_generation s \<and> \<not> bk_closed b \<and>
    bk_interactive b = interactive \<and> bk_working_directory b = wd \<and>
    (pf_kind p = CliKind \<longrightarrow> bk_model b = (if given model then model else pf_default_model p))"
  using assms
  by (auto simp: create_backend_def backend_ok_def apply_overrides_def Let_def split: if_splits)

lemma adopt_fields [simp]:
  "pl_profiles (adopt b s) = pl_profiles s" "pl_cli_free (adopt b s) = pl_cli_free s"
  "pl_http_singletons (adopt b s) = pl_http_singletons s" "pl_in_flight (adopt b s) = pl_in_flight s"
  "pl_generation (adopt b s) = pl_generation s" "pl_closed (adopt b s) = pl_closed s"
  "pl_all_backends (adopt b s) = pl_all_backends s @ [b]"
  by (simp_all add: adopt_def)

lemma track_fields [simp]:
  "pl_profiles (track_in_flight n s) = pl_profiles s" "pl_cli_free (track_in_flight n s) = pl_cli_free s"
  "pl_http_singletons (track_in_flight n s) = pl_http_singletons s"
  "pl_generation (track_in_flight n s) = pl_generation s" "pl_closed (track_in_flight n s) = pl_closed s"
  "pl_all_backends (track_in_flight n s) = pl_all_backends s"
  by (simp_all add: track_in_flight_def)

lemma idle_adopt: "idle_ok s key i \<Longrightarrow> idle_ok (adopt b s) key i"
  by (simp add: idle_ok_def Let_def nth_append)

lemma singleton_adopt: "singleton_ok s n i \<Longrightarrow> singleton_ok (adopt b s) n i"
  by (simp add: singleton_ok_def Let_def nth_append)

lemma adopted_ok:
  assumes "pool_ok s" and "backend_ok s b"
  shows "pool_ok (adopt b s)"
  using assms idle_adopt singleton_adopt by (simp add: pool_ok_def backend_ok_def)

lemma singleton_profile:
  assumes "pool_ok s" and "singleton_ok s n i" and "dget (pl_profiles s) n = Some p"
  shows "bk_profile (pl_all_backends s ! i) = p"
proof -
  have "backend_ok s (pl_all_backends s ! i)"
    using assms(1,2) by (auto simp: pool_ok_def singleton_ok_def)
  then show ?thesis using assms(2,3) by (simp add: backend_ok_def singleton_ok_def Let_def)
qed

lemma idle_profile:
  assumes "pool_ok s" and "idle_ok s (free_list_key n a) i" and "dget (pl_profiles s) n = Some p"
  shows "bk_profile (pl_all_backends s ! i) = p \<and> bk_interactive (pl_all_backends s ! i) = a \<and>
    bk_model (pl_all_backends s ! i) = pf_default_model p"
proof -
  let ?b = "pl_all_backends s ! i"
  have ok: "backend_ok s ?b" using assms(1,2) by (auto simp: pool_ok_def idle_ok_def Let_def)
  have idle: "bk_pool_generation ?b = pl_generation s" "\<not> bk_has_overrides ?b"
    "pf_kind (bk_profile ?b) = CliKind" "free_list_key n a = own_key ?b"
    using assms(2) by (simp_all add: idle_ok_def Let_def)
  have reg: "dget (pl_profiles s) (pf_name (bk_profile ?b)) = Some (bk_profile ?b)"
    using ok idle(1) by (simp add: backend_ok_def)
  have "profiles_ok (pl_profiles s)" using assms(1) by (simp add: pool_ok_def)
  from free_list_key_inject [OF this assms(3) reg] idle(4)
  have "n = pf_name (bk_profile ?b)" "a = bk_interactive ?b" by (simp_all add: own_key_def)
  then show ?thesis using reg assms(3) ok idle(2,3) by (simp add: backend_ok_def)
qed

text \<open>What a successful acquisition does, by kind.\<close>

lemma acquire_http_cases:
  assumes "pool_ok s" and "dget (pl_profiles s) (pf_name p) = Some p" and "pf_kind p = HttpKind"
    and "acquire_http p model wd key s = (Inr i, s')"
  obtains (shared) "singleton_ok s (pf_name p) i" "s' = track_in_flight (pf_name p) s"
  | (created) b where "backend_ok s b" "bk_profile b = p" "bk_pool_generation b = pl_generation s"
      "i = length (pl_all_backends s)" "s' = track_in_flight (pf_name p)
         ((adopt b s)\<lparr>pl_http_singletons := dset (pl_http_singletons s) (pf_name p) i\<rparr>)"
proof (cases "dget (pl_http_singletons s) (pf_name p)")
  case (Some k)
  then show thesis using assms shared by (auto simp: acquire_http_def pool_ok_def split: if_splits)
next
  case None
  then obtain b where b: "create_backend (pl_generation s) p wd
        (if given (pf_default_model p) then None else model) key False = Inr b"
    and "i = length (pl_all_backends s)" "s' = track_in_flight (pf_name p)
         ((adopt b s)\<lparr>pl_http_singletons := dset (pl_http_singletons s) (pf_name p) i\<rparr>)"
    using assms(4) by (auto simp: acquire_http_def Let_def split: if_splits sum.splits)
  moreover from created_ok [OF b assms(2)] have "backend_ok s b" "bk_profile b = p"
    "bk_pool_generation b = pl_generation s" by (auto simp: given_def)
  ultimately show thesis using created by blast
qed

lemma acquire_cli_cases:
  assumes "pool_ok s" and "dget (pl_profiles s) (pf_name p) = Some p" and "pf_kind p = CliKind"
    and "acquire_cli p model wd key interactive s = (Inr i, s')"
  obtains (reused) free where "dget_or (pl_cli_free s) (free_list_key (pf_name p) interactive) [] = free"
      "free \<noteq> []" "i = last free" "idle_ok s (free_list_key (pf_name p) interactive) i"
      "s' = track_in_flight (pf_name p) (update_backend i (\<lambda>b. apply_overrides model
               (if wd \<noteq> None then b\<lparr>bk_working_directory := wd\<rparr> else b))
             (s\<lparr>pl_cli_free := dset (pl_cli_free s) (free_list_key (pf_name p) interactive) (butlast free)\<rparr>))"
  | (created) b where "backend_ok s b" "bk_profile b = p" "bk_pool_generation b = pl_generation s"
      "\<not> bk_closed b" "bk_interactive b = interactive" "bk_working_directory b = wd"
      "bk_model b = (if given model then model else pf_default_model p)"
      "dget_or (pl_cli_free s) (free_list_key (pf_name p) interactive) [] = []"
      "i = length (pl_all_backends s)" "s' = track_in_flight (pf_name p) (adopt b s)"
proof (cases "dget_or (pl_cli_free s) (free_list_key (pf_name p) interactive) [] = []")
  case False
  then have "idle_ok s (free_list_key (pf_name p) interactive)
      (last (dget_or (pl_cli_free s) (free_list_key (pf_name p) interactive) []))"
    using assms(1) last_in_set by (fastforce simp: pool_ok_def)
  moreover have "i = last (dget_or (pl_cli_free s) (free_list_key (pf_name p) interactive) [])"
    using False assms(4) by (simp add: acquire_cli_def Let_def)
  ultimately show thesis using reused [OF refl False] False assms(4) by (simp add: acquire_cli_def Let_def)
next
  case True
  then obtain b where b: "create_backend (pl_generation s) p wd model None interactive = Inr b"
    and "i = length (pl_all_backends s)" "s' = track_in_flight (pf_name p) (adopt b s)"
    using assms(4) by (auto simp: acquire_cli_def Let_def split: sum.splits)
  moreover from created_ok [OF b assms(2)] assms(3) have "backend_ok s b" "bk_profile b = p"
    "bk_pool_generation b = pl_generation s" "\<not> bk_closed b" "bk_interactive b = interactive"
    "bk_working_directory b = wd" "bk_model b = (if given model then model else pf_default_model p)"
    by simp_all
  ultimately show thesis using created True by blast
qed

subsection \<open>The operations keep it\<close>

abbreviation idle_list :: "pool \<Rightarrow> string \<Rightarrow> nat list" where
  "idle_list s key \<equiv> dget_or (pl_cli_free s) key []"

lemma idle_list_dset: "dget_or (dset d k v) k' w = (if k' = k then v else dget_or d k' w)"
  by (simp add: dget_or_def)

lemma lent_times_add: "lent_times (add_mset (n, i) held) j = lent_times held j + (if j = i then 1 else 0)"
  by (simp add: lent_times_def)

lemma update_fields [simp]:
  "pl_profiles (update_backend i f s) = pl_profiles s" "pl_cli_free (update_backend i f s) = pl_cli_free s"
  "pl_http_singletons (update_backend i f s) = pl_http_singletons s"
  "pl_in_flight (update_backend i f s) = pl_in_flight s"
  "pl_generation (update_backend i f s) = pl_generation s" "pl_closed (update_backend i f s) = pl_closed s"
  "length (pl_all_backends (update_backend i f s)) = length (pl_all_backends s)"
  by (simp_all add: update_backend_def)

text \<open>A change of one backend that keeps what it is.\<close>

definition keeps_identity :: "(backend \<Rightarrow> backend) \<Rightarrow> bool" where
  "keeps_identity f \<longleftrightarrow> (\<forall>b. bk_profile (f b) = bk_profile b \<and> bk_interactive (f b) = bk_interactive b \<and>
     bk_pool_generation (f b) = bk_pool_generation b \<and> bk_closed (f b) = bk_closed b)"

lemma keeps_identity_apply: "keeps_identity (\<lambda>b. apply_overrides model (if c then b\<lparr>bk_working_directory := wd\<rparr> else b))"
  by (simp add: keeps_identity_def apply_overrides_def)

lemma keeps_identity_clear: "keeps_identity clear_overrides"
  by (simp add: keeps_identity_def clear_overrides_def)

lemma update_identity:
  assumes "keeps_identity f" and "j < length (pl_all_backends s)"
  shows "bk_profile (pl_all_backends (update_backend i f s) ! j) = bk_profile (pl_all_backends s ! j)"
    "bk_interactive (pl_all_backends (update_backend i f s) ! j) = bk_interactive (pl_all_backends s ! j)"
    "bk_pool_generation (pl_all_backends (update_backend i f s) ! j) = bk_pool_generation (pl_all_backends s ! j)"
    "bk_closed (pl_all_backends (update_backend i f s) ! j) = bk_closed (pl_all_backends s ! j)"
    "own_key (pl_all_backends (update_backend i f s) ! j) = own_key (pl_all_backends s ! j)"
  using assms by (cases "j = i"; simp add: update_backend_def keeps_identity_def own_key_def)+

lemma update_ok:
  assumes "pool_ok s" and "keeps_identity f" and "i < length (pl_all_backends s)"
    and "backend_ok s (f (pl_all_backends s ! i))" and "\<forall>key. i \<notin> set (idle_list s key)"
  shows "pool_ok (update_backend i f s)"
  unfolding pool_ok_def
proof (intro conjI allI ballI impI)
  show "profiles_ok (pl_profiles (update_backend i f s))" using assms(1) by (simp add: pool_ok_def)
  fix b assume "b \<in> set (pl_all_backends (update_backend i f s))"
  then have "b = f (pl_all_backends s ! i) \<or> b \<in> set (pl_all_backends s)"
    by (auto simp: update_backend_def dest: set_update_subset_insert [THEN subsetD])
  then show "backend_ok (update_backend i f s) b" using assms(1,4) by (auto simp: pool_ok_def backend_ok_def)
next
  fix key j assume "j \<in> set (idle_list (update_backend i f s) key)"
  then have "j \<noteq> i" "idle_ok s key j" using assms(1,5) by (auto simp: pool_ok_def)
  then show "idle_ok (update_backend i f s) key j" by (simp add: idle_ok_def update_backend_def)
next
  fix n j assume "dget (pl_http_singletons (update_backend i f s)) n = Some j"
  then have "singleton_ok s n j" using assms(1) by (simp add: pool_ok_def)
  then show "singleton_ok (update_backend i f s) n j"
    using update_identity [OF assms(2), of j s i] by (simp add: singleton_ok_def Let_def)
qed

lemma unlisted:
  assumes "pool_ok s" and "idle_times s i = 0 \<or> pf_kind (bk_profile (pl_all_backends s ! i)) = HttpKind"
  shows "i \<notin> set (idle_list s key)"
proof
  assume l: "i \<in> set (idle_list s key)"
  then have "idle_ok s key i" using assms(1) by (simp add: pool_ok_def)
  then have "pf_kind (bk_profile (pl_all_backends s ! i)) = CliKind" "key = own_key (pl_all_backends s ! i)"
    by (simp_all add: idle_ok_def Let_def)
  then show False using assms(2) l by (simp add: idle_times_def)
qed

lemma shrink_ok:
  assumes "pool_ok s" and "set free \<subseteq> set (idle_list s key)"
  shows "pool_ok (s\<lparr>pl_cli_free := dset (pl_cli_free s) key free\<rparr>)"
  using assms by (auto simp: pool_ok_def backend_ok_def idle_ok_def singleton_ok_def idle_list_dset)

lemma counted:
  assumes "lent_ok held s" and "\<not> pl_closed s" and "pl_in_flight s' = pl_in_flight s"
  shows "in_flight_count m (track_in_flight n s') = int (size {#x \<in># add_mset (n, i) held. fst x = m#})"
proof -
  have "in_flight_count m s' = int (size {#x \<in># held. fst x = m#})"
    using assms by (simp add: lent_ok_def in_flight_count_def)
  then show ?thesis by (simp add: in_flight_track)
qed

lemma reuse_ok:
  assumes "pool_ok s" and "lent_ok held s" and "\<not> pl_closed s" and "free = idle_list s key"
    and "free \<noteq> []" and "i = last free" and "keeps_identity f" and "pf_name (bk_profile (pl_all_backends s ! i)) = n"
    and "\<And>b. pf_kind (bk_profile b) = CliKind \<Longrightarrow> \<not> bk_has_overrides b \<Longrightarrow> backend_ok s b \<Longrightarrow> backend_ok s (f b)"
    and "s' = track_in_flight n (update_backend i f (s\<lparr>pl_cli_free := dset (pl_cli_free s) key (butlast free)\<rparr>))"
  shows "pool_ok s' \<and> lent_ok (add_mset (n, i) held) s'"
proof -
  let ?s1 = "s\<lparr>pl_cli_free := dset (pl_cli_free s) key (butlast free)\<rparr>"
  let ?s2 = "update_backend i f ?s1"
  have i: "i \<in> set (idle_list s key)" using assms(4-6) by auto
  then have idle: "idle_ok s key i" using assms(1) by (simp add: pool_ok_def)
  then have b: "i < length (pl_all_backends s)" "key = own_key (pl_all_backends s ! i)"
    "pf_kind (bk_profile (pl_all_backends s ! i)) = CliKind" "\<not> bk_has_overrides (pl_all_backends s ! i)"
    by (simp_all add: idle_ok_def Let_def)
  have split: "mset free = add_mset i (mset (butlast free))"
    using arg_cong [OF append_butlast_last_id [OF assms(5)], of mset] assms(6) by simp
  have once: "lent_times held i + count (mset free) i \<le> 1"
    using assms(2,4) b by (simp add: lent_ok_def idle_times_def)
  have s1: "pool_ok ?s1" using assms(1,4) by (intro shrink_ok) (auto dest: in_set_butlastD)
  have "idle_times ?s1 i = 0" using once split b(2) by (simp add: idle_times_def idle_list_dset)
  then have out: "\<forall>k. i \<notin> set (idle_list ?s1 k)" using unlisted [OF s1] by simp
  have "backend_ok s (pl_all_backends s ! i)" using assms(1) b(1) by (simp add: pool_ok_def)
  then have "backend_ok ?s1 (f (pl_all_backends ?s1 ! i))"
    using assms(9) b(3,4) by (simp add: backend_ok_def)
  then have "pool_ok ?s2" using update_ok [OF s1 assms(7) _ _ out] b(1) by simp
  moreover have "lent_ok (add_mset (n, i) held) s'"
    unfolding lent_ok_def assms(10)
  proof (intro conjI allI impI)
    note same = update_identity [OF assms(7), of _ ?s1 i]
    show "\<forall>(m, j) \<in># add_mset (n, i) held. j < length (pl_all_backends (track_in_flight n ?s2)) \<and>
        pf_name (bk_profile (pl_all_backends (track_in_flight n ?s2) ! j)) = m"
      using assms(2,8) b(1) same(1) by (auto simp: lent_ok_def)
    fix j assume j: "j < length (pl_all_backends (track_in_flight n ?s2))"
      "pf_kind (bk_profile (pl_all_backends (track_in_flight n ?s2) ! j)) = CliKind"
    then have "lent_times held j + idle_times s j \<le> 1" using assms(2) same(1) by (simp add: lent_ok_def)
    then show "lent_times (add_mset (n, i) held) j + idle_times (track_in_flight n ?s2) j \<le> 1"
      using j(1) same(5) b(2) split assms(4)
      by (auto simp: lent_times_add idle_times_def idle_list_dset)
  next
    fix m show "in_flight_count m (track_in_flight n ?s2) =
        (if pl_closed (track_in_flight n ?s2) then 0 else int (size {#x \<in># add_mset (n, i) held. fst x = m#}))"
      using counted [OF assms(2,3), of ?s2 m n i] by (simp add: assms(3))
  qed
  ultimately show ?thesis using assms(10) by simp
qed

lemma adopt_lent:
  assumes "pool_ok s" and "lent_ok held s" and "\<not> pl_closed s" and "i = length (pl_all_backends s)"
    and "pf_name (bk_profile b) = n" and "s1 = (adopt b s)\<lparr>pl_http_singletons := http\<rparr>"
  shows "lent_ok (add_mset (n, i) held) (track_in_flight n s1)"
  unfolding lent_ok_def
proof (intro conjI allI impI)
  show "\<forall>(m, j) \<in># add_mset (n, i) held. j < length (pl_all_backends (track_in_flight n s1)) \<and>
      pf_name (bk_profile (pl_all_backends (track_in_flight n s1) ! j)) = m"
    using assms(2,4-6) by (auto simp: lent_ok_def nth_append)
  fix j assume j: "j < length (pl_all_backends (track_in_flight n s1))"
    "pf_kind (bk_profile (pl_all_backends (track_in_flight n s1) ! j)) = CliKind"
  show "lent_times (add_mset (n, i) held) j + idle_times (track_in_flight n s1) j \<le> 1"
  proof (cases "j = i")
    case True
    have "lent_times held i = 0"
      using assms(2,4) by (auto simp: lent_ok_def lent_times_def)
    moreover have "i \<notin> set (idle_list s key)" for key
      using assms(1,4) by (auto simp: pool_ok_def idle_ok_def)
    ultimately show ?thesis using True assms(6) by (simp add: lent_times_add idle_times_def)
  next
    case False
    then have "j < length (pl_all_backends s)" using j(1) assms(4,6) by simp
    then show ?thesis using False j(2) assms(2,6)
      by (simp add: lent_ok_def lent_times_add idle_times_def nth_append)
  qed
next
  fix m show "in_flight_count m (track_in_flight n s1) =
      (if pl_closed (track_in_flight n s1) then 0 else int (size {#x \<in># add_mset (n, i) held. fst x = m#}))"
    using counted [OF assms(2,3), of s1 m n i] assms(3,6) by simp
qed

lemma overridden_ok:
  assumes "pf_kind (bk_profile b) = CliKind" and "\<not> bk_has_overrides b" and "backend_ok s b"
  shows "backend_ok s (apply_overrides model (if c then b\<lparr>bk_working_directory := wd\<rparr> else b))"
  using assms by (simp add: backend_ok_def apply_overrides_def)

lemma cleared_ok: "backend_ok s b \<Longrightarrow> backend_ok s (clear_overrides b)"
  by (auto simp: backend_ok_def clear_overrides_def)

lemma acquire_keeps:
  assumes "pool_ok s" and "lent_ok held s"
    and "acquire_backend name model wd interactive selected s = (Inr i, s')"
  shows "pool_ok s' \<and> lent_ok (add_mset (name, i) held) s'"
proof -
  obtain p where open_pool: "\<not> pl_closed s" and p: "dget (pl_profiles s) name = Some p"
    using assms(3) by (auto simp: acquire_backend_def split: if_splits option.splits)
  have name: "pf_name p = name" using assms(1) p by (simp add: pool_ok_def profiles_ok_def)
  show ?thesis
  proof (cases "pf_kind p")
    case HttpKind
    obtain key where "acquire_http p model wd key s = (Inr i, s')"
      using assms(3) open_pool p HttpKind
      by (auto simp: acquire_backend_def split: if_splits option.splits sum.splits)
    from assms(1) p [folded name] HttpKind this show ?thesis
    proof (cases rule: acquire_http_cases)
      case shared
      then have i: "i < length (pl_all_backends s)" "pf_kind (bk_profile (pl_all_backends s ! i)) = HttpKind"
        "pf_name (bk_profile (pl_all_backends s ! i)) = name"
        using name by (simp_all add: singleton_ok_def Let_def)
      then have "lent_ok (add_mset (name, i) held) s'"
        using assms(2) shared(2) name open_pool counted [OF assms(2) open_pool refl, of _ name i]
        by (auto simp: lent_ok_def lent_times_add idle_times_def)
      then show ?thesis using shared(2) assms(1) by simp
    next
      case (created b)
      have "pool_ok ((adopt b s)\<lparr>pl_http_singletons := dset (pl_http_singletons s) name i\<rparr>)"
        using adopted_ok [OF assms(1) created(1)] created name HttpKind
        by (auto simp: pool_ok_def backend_ok_def idle_ok_def singleton_ok_def Let_def)
      then show ?thesis
        using created(5) adopt_lent [OF assms(1,2) open_pool created(4) _ refl, of b name] created(2) name by simp
    qed
  next
    case CliKind
    then have "acquire_cli p model wd None (case interactive of None \<Rightarrow> profile_default_interactive p | Some b \<Rightarrow> b) s = (Inr i, s')"
      using assms(3) open_pool p by (simp add: acquire_backend_def)
    from assms(1) p [folded name] CliKind this show ?thesis
    proof (cases rule: acquire_cli_cases)
      case (reused free)
      have "bk_profile (pl_all_backends s ! i) = p"
        using idle_profile [OF assms(1) reused(4) p [folded name]] by simp
      then show ?thesis
        using reuse_ok [OF assms(1,2) open_pool reused(1) [symmetric] reused(2,3) keeps_identity_apply _ overridden_ok]
          reused(5) name by simp
    next
      case (created b)
      then show ?thesis
        using adopted_ok [OF assms(1) created(1)] name
          adopt_lent [OF assms(1,2) open_pool created(9), of b name "adopt b s" "pl_http_singletons s"]
        by simp
    qed
  qed
qed

lemma acquire_refused: "acquire_backend name model wd interactive selected s = (Inl e, s') \<Longrightarrow> s' = s"
  by (auto simp: acquire_backend_def acquire_http_def acquire_cli_def Let_def
      split: if_splits option.splits sum.splits)

lemma extend_ok:
  assumes "pool_ok s" and "idle_ok s key i"
  shows "pool_ok (s\<lparr>pl_cli_free := dset (pl_cli_free s) key (idle_list s key @ [i])\<rparr>)"
  using assms by (auto simp: pool_ok_def backend_ok_def idle_ok_def singleton_ok_def idle_list_dset)

lemma release_keeps:
  assumes "pool_ok s" and "lent_ok (add_mset (name, i) held) s"
  shows "pool_ok (release_backend name i s) \<and> lent_ok held (release_backend name i s)"
proof -
  let ?s1 = "update_backend i clear_overrides s"
  let ?s2 = "?s1\<lparr>pl_in_flight := dset (pl_in_flight ?s1) name (max 0 (in_flight_count name ?s1 - 1))\<rparr>"
  have i: "i < length (pl_all_backends s)" "pf_name (bk_profile (pl_all_backends s ! i)) = name"
    using assms(2) by (auto simp: lent_ok_def)
  note same = update_identity [OF keeps_identity_clear]
  have "idle_times s i = 0 \<or> pf_kind (bk_profile (pl_all_backends s ! i)) = HttpKind"
    using assms(2) i(1) by (cases "pf_kind (bk_profile (pl_all_backends s ! i))")
      (auto simp: lent_ok_def lent_times_add)
  then have out: "\<forall>key. i \<notin> set (idle_list s key)" using unlisted [OF assms(1)] by blast
  have "backend_ok s (pl_all_backends s ! i)" using assms(1) i(1) by (simp add: pool_ok_def)
  then have ok1: "pool_ok ?s1"
    using update_ok [OF assms(1) keeps_identity_clear i(1) cleared_ok out] by blast
  then have ok2: "pool_ok ?s2" by (auto simp: pool_ok_def backend_ok_def idle_ok_def singleton_ok_def)
  have counts: "in_flight_count m ?s2 = (if pl_closed s then 0 else int (size {#x \<in># held. fst x = m#}))" for m
    using assms(2) by (auto simp: lent_ok_def in_flight_count_def idle_list_dset)
  have lent2: "lent_ok held ?s2"
    unfolding lent_ok_def
  proof (intro conjI allI impI)
    show "\<forall>(m, j) \<in># held. j < length (pl_all_backends ?s2) \<and>
        pf_name (bk_profile (pl_all_backends ?s2 ! j)) = m"
      using assms(2) same(1) by (auto simp: lent_ok_def)
    fix j assume "j < length (pl_all_backends ?s2)" "pf_kind (bk_profile (pl_all_backends ?s2 ! j)) = CliKind"
    then show "lent_times held j + idle_times ?s2 j \<le> 1"
      using assms(2) same(1,5) by (fastforce simp: lent_ok_def lent_times_add idle_times_def)
  qed (use counts in simp)
  let ?b = "pl_all_backends ?s2 ! i"
  show ?thesis
  proof (cases "\<exists>p. dget (pl_profiles s) name = Some p \<and> pf_kind p = CliKind \<and>
      bk_pool_generation ?b = pl_generation s")
    case False
    then have "release_backend name i s = ?s2"
      by (auto simp: release_backend_def Let_def split: option.splits)
    then show ?thesis using ok2 lent2 by simp
  next
    case True
    then obtain p where p: "dget (pl_profiles s) name = Some p" "pf_kind p = CliKind"
      "bk_pool_generation ?b = pl_generation s" by blast
    let ?key = "own_key ?b"
    have run: "release_backend name i s =
        ?s2\<lparr>pl_cli_free := dset (pl_cli_free ?s2) ?key (idle_list ?s2 ?key @ [i])\<rparr>"
      using p i same(1) [OF i(1), of i] by (simp add: release_backend_def Let_def own_key_def)
    have "backend_ok ?s2 ?b" using ok2 i(1) by (simp add: pool_ok_def)
    then have "bk_profile ?b = p" using p i same(1) [OF i(1), of i] by (simp add: backend_ok_def)
    moreover have "\<not> bk_has_overrides ?b" using i(1) by (simp add: update_backend_def clear_overrides_def)
    ultimately have "idle_ok ?s2 ?key i" using p i(1) by (simp add: idle_ok_def Let_def)
    from extend_ok [OF ok2 this] have ok: "pool_ok (release_backend name i s)" using run by simp
    have "lent_times held i = 0 \<and> idle_times ?s2 i = 0"
      using assms(2) i(1) same(5) [OF i(1), of i] \<open>bk_profile ?b = p\<close> p(2) same(1) [OF i(1), of i]
      by (auto simp: lent_ok_def lent_times_add idle_times_def)
    then have "lent_times held j + idle_times (release_backend name i s) j \<le> 1"
      if "j < length (pl_all_backends ?s2)" "pf_kind (bk_profile (pl_all_backends ?s2 ! j)) = CliKind" for j
      using lent2 that unfolding run by (cases "j = i") (auto simp: lent_ok_def idle_times_def idle_list_dset)
    then have "lent_ok held (release_backend name i s)"
      using lent2 unfolding run by (simp add: lent_ok_def in_flight_count_def)
    then show ?thesis using ok by blast
  qed
qed

lemma reload_keeps:
  assumes "pool_ok s" and "lent_ok held s" and "profiles_ok profiles"
  shows "pool_ok (reload_profiles profiles s) \<and> lent_ok held (reload_profiles profiles s)"
proof
  have "backend_ok (reload_profiles profiles s) b" if "b \<in> set (pl_all_backends s)" for b
  proof -
    have "backend_ok s b" using assms(1) that by (simp add: pool_ok_def)
    then show ?thesis by (auto simp: backend_ok_def reload_profiles_def invalidate_def)
  qed
  then show "pool_ok (reload_profiles profiles s)"
    using assms(3) by (simp add: pool_ok_def reload_profiles_def invalidate_def dget_or_def)
  show "lent_ok held (reload_profiles profiles s)"
    using assms(2) by (auto simp: lent_ok_def reload_profiles_def invalidate_def dget_or_def
        idle_times_def in_flight_count_def)
qed

lemma close_keeps:
  assumes "pool_ok s" and "lent_ok held s"
  shows "pool_ok (close_all raises s) \<and> lent_ok held (close_all raises s)"
proof
  have same: "j < length (pl_all_backends s) \<Longrightarrow> pl_all_backends (close_all raises s) ! j =
      (pl_all_backends s ! j)\<lparr>bk_closed := bk_closed (pl_all_backends s ! j) \<or> \<not> raises j\<rparr>" for j
    by (simp add: close_all_def nth_enumerate_eq)
  have len: "length (pl_all_backends (close_all raises s)) = length (pl_all_backends s)"
    by (simp add: close_all_def)
  have "backend_ok (close_all raises s) b" if "b \<in> set (pl_all_backends (close_all raises s))" for b
  proof -
    obtain j where "j < length (pl_all_backends s)" "b = pl_all_backends (close_all raises s) ! j"
      using \<open>b \<in> _\<close> len by (auto simp: in_set_conv_nth)
    then show ?thesis using assms(1) same by (auto simp: pool_ok_def backend_ok_def close_all_def)
  qed
  then show "pool_ok (close_all raises s)"
    using assms(1) by (simp add: pool_ok_def dget_or_def) (simp add: close_all_def dget_or_def)
  show "lent_ok held (close_all raises s)"
    using assms(2) same len
    by (auto simp: lent_ok_def idle_times_def) (auto simp: close_all_def dget_or_def in_flight_count_def)
qed

subsection \<open>Runs\<close>

definition op_ok :: "pool_op \<Rightarrow> bool" where
  "op_ok op \<longleftrightarrow> (case op of ReloadOp profiles \<Rightarrow> profiles_ok profiles | _ \<Rightarrow> True)"

definition clients_ok :: "clients \<Rightarrow> bool" where
  "clients_ok c \<longleftrightarrow> pool_ok (cl_pool c) \<and> lent_ok (cl_held c) (cl_pool c)"

lemma new_pool_ok: "profiles_ok profiles \<Longrightarrow> clients_ok \<lparr>cl_pool = new_pool profiles, cl_held = {#}\<rparr>"
  by (simp add: clients_ok_def pool_ok_def lent_ok_def new_pool_def dget_or_def in_flight_count_def)

lemma pool_step_ok: "clients_ok c \<Longrightarrow> op_ok op \<Longrightarrow> clients_ok (pool_step op c)"
proof (cases op)
  case (ReleaseOp name i)
  assume c: "clients_ok c"
  show ?thesis
  proof (cases "(name, i) \<in># cl_held c")
    case True
    then obtain held where "cl_held c = add_mset (name, i) held" by (metis multi_member_split)
    then show ?thesis using c ReleaseOp release_keeps [of "cl_pool c" name i held]
      by (simp add: clients_ok_def pool_step_def)
  qed (use c ReleaseOp in \<open>simp add: pool_step_def\<close>)
next
  case (AcquireOp name model wd interactive selected)
  assume "clients_ok c"
  then show ?thesis using AcquireOp acquire_keeps acquire_refused
    by (fastforce simp: clients_ok_def pool_step_def split: prod.splits sum.splits)
next
  case (ReloadOp profiles)
  assume "clients_ok c" and "op_ok op"
  then show ?thesis using ReloadOp reload_keeps [of "cl_pool c" "cl_held c" profiles]
    by (simp add: clients_ok_def pool_step_def op_ok_def)
next
  case (CloseOp raises)
  assume "clients_ok c"
  then show ?thesis using CloseOp close_keeps [of "cl_pool c" "cl_held c" raises]
    by (simp add: clients_ok_def pool_step_def)
qed

lemma pool_run_ok:
  assumes "profiles_ok profiles" and "\<forall>op \<in> set ops. op_ok op"
  shows "clients_ok (pool_run profiles ops)"
proof -
  have "clients_ok c \<Longrightarrow> clients_ok (fold pool_step ops c)" for c
    using assms(2) pool_step_ok by (induction ops arbitrary: c) simp_all
  then show ?thesis unfolding pool_run_def using new_pool_ok [OF assms(1)] by blast
qed

lemma lent_not_given:
  assumes "lent_ok held s" and "idle_ok s key i" and "i \<in> set (idle_list s key)"
  shows "(n, i) \<notin># held"
proof
  assume "(n, i) \<in># held"
  then obtain rest where "held = add_mset (n, i) rest" by (metis multi_member_split)
  then have "0 < lent_times held i" by (simp add: lent_times_add)
  moreover have "0 < idle_times s i" using assms(2,3) by (simp add: idle_ok_def idle_times_def Let_def)
  ultimately show False using assms(1,2) by (fastforce simp: lent_ok_def idle_ok_def Let_def)
qed

lemma cli_given:
  assumes "pool_ok s" and "lent_ok held s" and "\<not> pl_closed s" and "dget (pl_profiles s) (pf_name p) = Some p"
    and "pf_kind p = CliKind" and "acquire_cli p model wd key interactive s = (Inr i, s')"
    and "b = pl_all_backends s' ! i"
  shows "bk_profile b = p \<and> \<not> bk_closed b \<and> (\<forall>n. (n, i) \<notin># held) \<and> bk_interactive b = interactive \<and>
    bk_model b = (if given model then model else pf_default_model p) \<and>
    (wd \<noteq> None \<longrightarrow> bk_working_directory b = wd)"
  using assms(1,4-6)
proof (cases rule: acquire_cli_cases)
  case (reused free)
  have i: "i \<in> set (idle_list s (free_list_key (pf_name p) interactive))" "i < length (pl_all_backends s)"
    using reused(1-4) by (auto simp: idle_ok_def)
  have old: "bk_profile (pl_all_backends s ! i) = p" "bk_interactive (pl_all_backends s ! i) = interactive"
    "bk_model (pl_all_backends s ! i) = pf_default_model p"
    using idle_profile [OF assms(1) reused(4) assms(4)] by simp_all
  have "\<not> bk_closed (pl_all_backends s ! i)" using assms(1,3) i(2) by (simp add: pool_ok_def backend_ok_def)
  then show ?thesis
    using old i(2) lent_not_given [OF assms(2) reused(4) i(1)] assms(7) reused(5)
    by (simp add: update_backend_def apply_overrides_def)
next
  case (created b')
  then have "b = b'" using assms(7) by simp
  moreover have "(n, i) \<notin># held" for n using assms(2) created(9) by (auto simp: lent_ok_def)
  ultimately show ?thesis using created by simp
qed

lemma http_given:
  assumes "pool_ok s" and "\<not> pl_closed s" and "dget (pl_profiles s) (pf_name p) = Some p"
    and "pf_kind p = HttpKind" and "acquire_http p model wd key s = (Inr i, s')"
    and "b = pl_all_backends s' ! i"
  shows "bk_profile b = p \<and> backend_ok s b \<and> pl_closed s' = pl_closed s"
  using assms(1,3-5)
proof (cases rule: acquire_http_cases)
  case shared
  then show ?thesis
    using singleton_profile [OF assms(1) shared(1) assms(3)] assms(1,6) by (simp add: pool_ok_def singleton_ok_def)
next
  case (created b')
  then have "b = b'" using assms(6) by simp
  then show ?thesis using created by simp
qed

lemma http_shared:
  "acquire_http p model wd key s = (Inr i, s') \<Longrightarrow>
     dget (pl_http_singletons s') (pf_name p) = Some i \<and>
     (\<forall>k. dget (pl_http_singletons s) (pf_name p) = Some k \<longrightarrow> k = i)"
  by (auto simp: acquire_http_def track_in_flight_def Let_def split: if_splits option.splits sum.splits)

text \<open>
  C20. The pool lends what was asked for as far as the kind of the instrument allows, and
  counts what is out. Suppose that profiles are always registered under their own name and
  that no name is another one followed by \<open>:interactive\<close>; the code does not check the latter,
  and without it the claim fails (\<open>names_collide\<close> below). After any sequence of acquisitions,
  releases of held backends, profile reloads and closings, an acquisition that succeeds
  returns a backend that was built from the profile now registered under the name and is not
  closed. A CLI backend is in no other client's hands, runs in the requested mode (the
  profile's default if none was requested), with the requested model or else the profile's
  own, never one left by an earlier sheet, and in the requested directory. An HTTP instrument
  ignores the requested mode and directory, and the requested model when its profile has a
  default: every client gets the one headless backend of the name, which keeps the profile's
  default model. Afterwards the in-flight count of every name is the number of backends that
  clients hold under it.
\<close>

theorem pool_lends_what_was_asked:
  assumes "profiles_ok profiles" and "\<forall>op \<in> set ops. op_ok op" and "c = pool_run profiles ops"
    and "acquire_backend name model wd interactive selected (cl_pool c) = (Inr i, s')"
    and "b = pl_all_backends s' ! i"
  shows "\<not> pl_closed (cl_pool c) \<and> dget (pl_profiles (cl_pool c)) name = Some (bk_profile b) \<and>
    \<not> bk_closed b \<and>
    (pf_kind (bk_profile b) = CliKind \<longrightarrow> (\<forall>n. (n, i) \<notin># cl_held c) \<and>
       bk_interactive b = (case interactive of None \<Rightarrow> pf_interactive (bk_profile b) = Some True
                                             | Some mode \<Rightarrow> mode) \<and>
       bk_model b = (if given model then model else pf_default_model (bk_profile b)) \<and>
       (wd \<noteq> None \<longrightarrow> bk_working_directory b = wd)) \<and>
    (pf_kind (bk_profile b) = HttpKind \<longrightarrow> \<not> bk_interactive b \<and>
       dget (pl_http_singletons s') name = Some i \<and>
       (\<forall>k. dget (pl_http_singletons (cl_pool c)) name = Some k \<longrightarrow> k = i) \<and>
       (given (pf_default_model (bk_profile b)) \<longrightarrow> bk_model b = pf_default_model (bk_profile b))) \<and>
    (\<forall>n. in_flight_count n s' = int (size {#x \<in># cl_held c. fst x = n#}) + (if n = name then 1 else 0))"
proof -
  let ?s = "cl_pool c"
  have ok: "pool_ok ?s" "lent_ok (cl_held c) ?s"
    using pool_run_ok [OF assms(1,2)] assms(3) by (simp_all add: clients_ok_def)
  note ok' = acquire_keeps [OF ok assms(4)]
  obtain p where open_pool: "\<not> pl_closed ?s" and p: "dget (pl_profiles ?s) name = Some p"
    using assms(4) by (auto simp: acquire_backend_def split: if_splits option.splits)
  have name: "pf_name p = name" using ok(1) p by (simp add: pool_ok_def profiles_ok_def)
  have counts: "\<forall>n. in_flight_count n s' = int (size {#x \<in># cl_held c. fst x = n#}) + (if n = name then 1 else 0)"
    if "pl_closed s' = pl_closed ?s" using ok' that open_pool by (simp add: lent_ok_def)
  show ?thesis
  proof (cases "pf_kind p")
    case CliKind
    then have run: "acquire_cli p model wd None (case interactive of None \<Rightarrow> profile_default_interactive p | Some b \<Rightarrow> b) ?s = (Inr i, s')"
      using assms(4) open_pool p by (simp add: acquire_backend_def)
    have "pl_closed s' = pl_closed ?s"
      using run by (auto simp: acquire_cli_def Let_def split: if_splits sum.splits)
    with cli_given [OF ok open_pool p [folded name] CliKind run assms(5)] show ?thesis
      using counts open_pool p CliKind
      by (simp add: profile_default_interactive_def split: option.splits)
  next
    case HttpKind
    obtain key where run: "acquire_http p model wd key ?s = (Inr i, s')"
      using assms(4) open_pool p HttpKind
      by (auto simp: acquire_backend_def split: if_splits option.splits sum.splits)
    from http_given [OF ok(1) open_pool p [folded name] HttpKind run assms(5)] show ?thesis
      using counts open_pool p HttpKind http_shared [OF run] by (simp add: backend_ok_def name)
  qed
qed

subsection \<open>Concrete runs\<close>

definition claude :: profile where
  "claude = \<lparr>pf_name = ''c'', pf_kind = CliKind, pf_interactive = Some False, pf_default_model = Some ''m'',
     pf_openai_schema = False\<rparr>"

definition lending :: "pool_op list" where
  "lending = [AcquireOp ''c'' (Some ''big'') (Some ''w1'') None None, ReleaseOp ''c'' 0,
     AcquireOp ''c'' None (Some ''w2'') (Some True) None]"

lemma lending_run:
  "case acquire_backend ''c'' None (Some ''w3'') None None
        (cl_pool (pool_run [(''c'', claude)] lending)) of
     (Inr i, s') \<Rightarrow> i = 0 \<and> pl_all_backends s' ! i = \<lparr>bk_profile = claude, bk_interactive = False,
       bk_model = Some ''m'', bk_saved_model = None, bk_has_overrides = False,
       bk_working_directory = Some ''w3'', bk_api_key = None, bk_pool_generation = 0, bk_closed = False\<rparr>
   | _ \<Rightarrow> False"
  by code_simp

theorem pool_lends_what_was_asked_witness:
  "\<exists>s'. acquire_backend ''c'' None (Some ''w3'') None None (cl_pool (pool_run [(''c'', claude)] lending)) = (Inr 0, s') \<and>
     bk_model (pl_all_backends s' ! 0) = Some ''m'' \<and>
     (''c'', 0) \<notin># cl_held (pool_run [(''c'', claude)] lending)"
proof -
  let ?c = "pool_run [(''c'', claude)] lending"
  obtain s' where run: "acquire_backend ''c'' None (Some ''w3'') None None (cl_pool ?c) = (Inr 0, s')"
    and b: "bk_profile (pl_all_backends s' ! 0) = claude"
    using lending_run by (auto split: prod.splits sum.splits)
  have "profiles_ok [(''c'', claude)]" "\<forall>op \<in> set lending. op_ok op"
    by (auto simp: profiles_ok_def claude_def lending_def op_ok_def)
  from pool_lends_what_was_asked [OF this refl run refl] show ?thesis
    using run b by (simp add: claude_def given_def)
qed

text \<open>
  The two cases the documentation of \<open>acquire\<close> excludes. The free list of \<open>c\<close>'s interactive
  backends is that of an instrument called \<open>c:interactive\<close>, whose headless sheets then drive
  \<open>c\<close>; and an HTTP instrument ignores that interactive mode was forced.
\<close>

definition lookalike :: profile where
  "lookalike = claude\<lparr>pf_name := ''c:interactive''\<rparr>"

lemma names_collide:
  "case acquire_backend ''c:interactive'' None None (Some False) None
       (cl_pool (pool_run [(''c'', claude), (''c:interactive'', lookalike)]
          [AcquireOp ''c'' None None (Some True) None, ReleaseOp ''c'' 0])) of
     (Inr i, s') \<Rightarrow> bk_profile (pl_all_backends s' ! i) = claude \<and> bk_interactive (pl_all_backends s' ! i)
   | _ \<Rightarrow> False"
  by code_simp

lemma forced_interactive_ignored:
  assumes "dget (pl_profiles s) name = Some p" and "pf_kind p = HttpKind"
  shows "acquire_backend name model wd (Some True) selected s = acquire_backend name model wd (Some False) selected s"
  using assms by (simp add: acquire_backend_def)

end
