(* ===== verification/Rate_Window.thy ===== *)
theory Rate_Window
  imports Prelude
begin

section \<open>The request limiter of the dashboard\<close>

text \<open>
  \<open>dashboard/auth/rate_limit.py\<close>: sliding windows of one second, a minute and an hour over the
  requests of each client. A check runs without suspension; the clock is read anew by each
  tier, first for the checks and then for the records, so a check has six readings.
\<close>

subsection \<open>A sliding window\<close>

record window_counter =
  wc_window_seconds :: int
  wc_max_requests :: int
  wc_buckets :: "(string, rat list) dict"

definition new_counter :: "int \<Rightarrow> int \<Rightarrow> window_counter" where
  "new_counter window limit =
     \<lparr>wc_window_seconds = window, wc_max_requests = limit, wc_buckets = []\<rparr>"

definition bucket :: "window_counter \<Rightarrow> string \<Rightarrow> rat list" where
  "bucket c key = dget_or (wc_buckets c) key []"

definition cleanup_bucket :: "string \<Rightarrow> rat \<Rightarrow> window_counter \<Rightarrow> window_counter" where
  "cleanup_bucket key window_start c =
     c\<lparr>wc_buckets := dset (wc_buckets c) key (dropWhile (\<lambda>t. t \<le> window_start) (bucket c key))\<rparr>"

text \<open>\<open>check_only\<close>: allowed, remaining requests, seconds until there is room.\<close>

definition check_only :: "string \<Rightarrow> rat \<Rightarrow> window_counter \<Rightarrow> (bool \<times> int \<times> int) \<times> window_counter" where
  "check_only key now c =
     (let c1 = cleanup_bucket key (now - of_int (wc_window_seconds c)) c;
          times = bucket c1 key;
          current_count = int (length times)
      in if wc_max_requests c \<le> current_count
         then (let oldest = (case times of [] \<Rightarrow> now | t # ts \<Rightarrow> t)
               in ((False, 0, \<lfloor>oldest + of_int (wc_window_seconds c) - now\<rfloor> + 1), c1))
         else ((True, wc_max_requests c - current_count - 1, wc_window_seconds c), c1))"

definition record_request :: "string \<Rightarrow> rat \<Rightarrow> window_counter \<Rightarrow> window_counter" where
  "record_request key now c = c\<lparr>wc_buckets := dset (wc_buckets c) key (bucket c key @ [now])\<rparr>"

definition is_allowed :: "string \<Rightarrow> rat \<Rightarrow> window_counter \<Rightarrow> (bool \<times> int \<times> int) \<times> window_counter" where
  "is_allowed key now c = (case check_only key now c of
      ((allowed, remaining, reset), c1) \<Rightarrow>
        ((allowed, remaining, reset), if allowed then record_request key now c1 else c1))"

definition get_count :: "string \<Rightarrow> rat \<Rightarrow> window_counter \<Rightarrow> nat \<times> window_counter" where
  "get_count key now c =
     (let c1 = cleanup_bucket key (now - of_int (wc_window_seconds c)) c in (length (bucket c1 key), c1))"

definition reset_counter :: "string option \<Rightarrow> window_counter \<Rightarrow> window_counter" where
  "reset_counter key c = (case key of
      None \<Rightarrow> c\<lparr>wc_buckets := []\<rparr> | Some k \<Rightarrow> c\<lparr>wc_buckets := ddel (wc_buckets c) k\<rparr>)"

subsection \<open>The three tiers\<close>

record limit_config =
  lc_enabled :: bool
  lc_requests_per_minute :: int
  lc_requests_per_hour :: int
  lc_burst_limit :: int

record request_limiter =
  lm_config :: limit_config
  lm_burst :: window_counter
  lm_minute :: window_counter
  lm_hour :: window_counter

definition new_limiter :: "limit_config \<Rightarrow> request_limiter" where
  "new_limiter cfg = \<lparr>lm_config = cfg, lm_burst = new_counter 1 (lc_burst_limit cfg),
     lm_minute = new_counter 60 (lc_requests_per_minute cfg),
     lm_hour = new_counter 3600 (lc_requests_per_hour cfg)\<rparr>"

text \<open>The readings of the clock in a check, in their order.\<close>

record readings =
  rd_check_burst :: rat
  rd_check_minute :: rat
  rd_check_hour :: rat
  rd_record_burst :: rat
  rd_record_minute :: rat
  rd_record_hour :: rat

text \<open>The answer of a check, with the tier that refused or the requests that remain.\<close>

datatype limit_info =
    Disabled
  | Refused string int
  | Admitted int int int

definition limiter_check :: "string \<Rightarrow> readings \<Rightarrow> request_limiter \<Rightarrow> (bool \<times> limit_info) \<times> request_limiter" where
  "limiter_check key rd l =
     (if \<not> lc_enabled (lm_config l) then ((True, Disabled), l)
      else case check_only key (rd_check_burst rd) (lm_burst l) of
        ((burst_ok, burst_remaining, burst_reset), burst) \<Rightarrow>
          (let l = l\<lparr>lm_burst := burst\<rparr>
           in if \<not> burst_ok then ((False, Refused ''burst'' burst_reset), l)
              else case check_only key (rd_check_minute rd) (lm_minute l) of
                ((minute_ok, minute_remaining, minute_reset), minute) \<Rightarrow>
                  (let l = l\<lparr>lm_minute := minute\<rparr>
                   in if \<not> minute_ok then ((False, Refused ''minute'' minute_reset), l)
                      else case check_only key (rd_check_hour rd) (lm_hour l) of
                        ((hour_ok, hour_remaining, hour_reset), hour) \<Rightarrow>
                          (let l = l\<lparr>lm_hour := hour\<rparr>
                           in if \<not> hour_ok then ((False, Refused ''hour'' hour_reset), l)
                              else ((True, Admitted burst_remaining minute_remaining hour_remaining),
                                l\<lparr>lm_burst := record_request key (rd_record_burst rd) (lm_burst l),
                                  lm_minute := record_request key (rd_record_minute rd) (lm_minute l),
                                  lm_hour := record_request key (rd_record_hour rd) (lm_hour l)\<rparr>)))))"

definition reset_limiter :: "string option \<Rightarrow> request_limiter \<Rightarrow> request_limiter" where
  "reset_limiter key l = l\<lparr>lm_burst := reset_counter key (lm_burst l),
     lm_minute := reset_counter key (lm_minute l), lm_hour := reset_counter key (lm_hour l)\<rparr>"

subsection \<open>The middleware\<close>

text \<open>Of a request: its path, the API key header and the address of the client.\<close>

record request =
  rq_path :: string
  rq_api_key :: "string option"
  rq_client_host :: "string option"

definition get_client_identifier :: "request \<Rightarrow> bool \<Rightarrow> string" where
  "get_client_identifier rq by_api_key =
     (case rq_api_key rq of
        Some (c # cs) \<Rightarrow>
          if by_api_key then ''key:'' @ take 8 (c # cs) @ ''...''
          else ''ip:'' @ (case rq_client_host rq of None \<Rightarrow> ''unknown'' | Some h \<Rightarrow> h)
      | _ \<Rightarrow> ''ip:'' @ (case rq_client_host rq of None \<Rightarrow> ''unknown'' | Some h \<Rightarrow> h))"

definition is_excluded_path :: "string list \<Rightarrow> string \<Rightarrow> bool" where
  "is_excluded_path excluded path \<longleftrightarrow>
     list_ex (\<lambda>e. path = e \<or> take (length e + 1) path = e @ ''/'') excluded"

text \<open>Whether the request reaches its handler; otherwise it is answered with status 429.\<close>

definition middleware_admits ::
  "string list \<Rightarrow> bool \<Rightarrow> request \<Rightarrow> readings \<Rightarrow> request_limiter \<Rightarrow> (bool \<times> limit_info) \<times> request_limiter" where
  "middleware_admits excluded by_api_key rq rd l =
     (if \<not> lc_enabled (lm_config l) \<or> is_excluded_path excluded (rq_path rq) then ((True, Disabled), l)
      else limiter_check (get_client_identifier rq by_api_key) rd l)"

subsection \<open>One tier against its history\<close>

text \<open>
  The history of a client in a tier: when its admitted requests were recorded. The bucket
  holds the part that can still lie in a window, and no window was ever overfull.
\<close>

definition in_window :: "rat \<Rightarrow> int \<Rightarrow> rat list \<Rightarrow> int" where
  "in_window t w hist = int (length (filter (\<lambda>r. t < r \<and> r \<le> t + of_int w) hist))"

definition tier_ok :: "string \<Rightarrow> window_counter \<Rightarrow> rat list \<Rightarrow> rat \<Rightarrow> bool" where
  "tier_ok key c hist latest \<longleftrightarrow> 0 < wc_window_seconds c \<and> sorted hist \<and> (\<forall>r \<in> set hist. r \<le> latest) \<and>
     (\<exists>start. start + of_int (wc_window_seconds c) \<le> latest \<and> bucket c key = filter (\<lambda>r. start < r) hist) \<and>
     (\<forall>t. in_window t (wc_window_seconds c) hist \<le> max 0 (wc_max_requests c))"

definition in_last_window :: "rat \<Rightarrow> window_counter \<Rightarrow> rat list \<Rightarrow> rat list" where
  "in_last_window now c hist = filter (\<lambda>r. now - of_int (wc_window_seconds c) < r) hist"

lemma bucket_dset [simp]: "bucket (c\<lparr>wc_buckets := dset (wc_buckets c) key ts\<rparr>) k =
    (if k = key then ts else bucket c k)"
  by (simp add: bucket_def dget_or_def)

lemma tier_later: "tier_ok key c hist latest \<Longrightarrow> latest \<le> latest' \<Longrightarrow> tier_ok key c hist latest'"
  by (force simp: tier_ok_def)

lemma dropWhile_sorted: "sorted ts \<Longrightarrow> dropWhile (\<lambda>t. t \<le> x) ts = filter (\<lambda>t. x < t) (ts :: rat list)"
proof (induction ts)
  case (Cons t ts)
  then have "\<not> t \<le> x \<Longrightarrow> filter (\<lambda>t. x < t) ts = ts" by (force simp: filter_id_conv)
  then show ?case using Cons by auto
qed simp

lemma length_filter_mono:
  "(\<And>x. x \<in> set xs \<Longrightarrow> P x \<Longrightarrow> Q x) \<Longrightarrow> length (filter P xs) \<le> length (filter Q xs)"
  by (induction xs) auto

lemma cleaned:
  assumes "tier_ok key c hist latest" and "latest \<le> now"
  shows "dropWhile (\<lambda>t. t \<le> now - of_int (wc_window_seconds c)) (bucket c key) = in_last_window now c hist"
proof -
  obtain start where start: "start + of_int (wc_window_seconds c) \<le> latest"
    "bucket c key = filter (\<lambda>r. start < r) hist" using assms(1) by (auto simp: tier_ok_def)
  have "sorted (bucket c key)" using assms(1) start(2) sorted_filter [of id hist]
    by (simp add: tier_ok_def)
  then show ?thesis using start assms(2)
    by (auto simp: dropWhile_sorted in_last_window_def intro!: filter_cong)
qed

lemma checked:
  assumes "tier_ok key c hist latest" and "latest \<le> now" and "check_only key now c = ((ok, rest, reset), c')"
  shows "tier_ok key c' hist now" "bucket c' key = in_last_window now c hist"
    "ok \<longleftrightarrow> int (length (in_last_window now c hist)) < wc_max_requests c"
    "wc_window_seconds c' = wc_window_seconds c" "wc_max_requests c' = wc_max_requests c"
    "k \<noteq> key \<Longrightarrow> bucket c' k = bucket c k"
proof -
  have c': "c' = c\<lparr>wc_buckets := dset (wc_buckets c) key (in_last_window now c hist)\<rparr>"
    using assms(3) cleaned [OF assms(1,2)]
    by (simp add: check_only_def cleanup_bucket_def Let_def split: if_splits)
  show "ok \<longleftrightarrow> int (length (in_last_window now c hist)) < wc_max_requests c"
    using assms(3) cleaned [OF assms(1,2)]
    by (auto simp: check_only_def cleanup_bucket_def Let_def split: if_splits)
  show "bucket c' key = in_last_window now c hist" "wc_window_seconds c' = wc_window_seconds c"
    "wc_max_requests c' = wc_max_requests c" "k \<noteq> key \<Longrightarrow> bucket c' k = bucket c k"
    by (simp_all add: c')
  have "\<exists>start. start + of_int (wc_window_seconds c) \<le> now \<and> in_last_window now c hist = filter (\<lambda>r. start < r) hist"
    by (intro exI [where x = "now - of_int (wc_window_seconds c)"]) (simp add: in_last_window_def)
  then show "tier_ok key c' hist now"
    using tier_later [OF assms(1,2)] by (simp add: tier_ok_def c')
qed

lemma recorded:
  assumes "tier_ok key c hist now" and "bucket c key = in_last_window now c hist" and "now \<le> r"
    and "int (length (in_last_window now c hist)) < wc_max_requests c"
  shows "tier_ok key (record_request key r c) (hist @ [r]) r"
  unfolding tier_ok_def
proof (intro conjI allI)
  have w: "wc_window_seconds (record_request key r c) = wc_window_seconds c"
    "wc_max_requests (record_request key r c) = wc_max_requests c" by (simp_all add: record_request_def)
  show "0 < wc_window_seconds (record_request key r c)" using assms(1) by (simp add: w tier_ok_def)
  show "sorted (hist @ [r])" "\<forall>x \<in> set (hist @ [r]). x \<le> r"
    using assms(1,3) by (auto simp: tier_ok_def sorted_append)
  show "\<exists>start. start + of_int (wc_window_seconds (record_request key r c)) \<le> r \<and>
      bucket (record_request key r c) key = filter (\<lambda>x. start < x) (hist @ [r])"
    using assms(1-3) by (intro exI [where x = "now - of_int (wc_window_seconds c)"])
      (auto simp: record_request_def in_last_window_def tier_ok_def)
  fix t
  show "in_window t (wc_window_seconds (record_request key r c)) (hist @ [r])
      \<le> max 0 (wc_max_requests (record_request key r c))"
  proof (cases "t < r \<and> r \<le> t + of_int (wc_window_seconds c)")
    case True
    have "length (filter (\<lambda>x. t < x \<and> x \<le> t + of_int (wc_window_seconds c)) hist) \<le> length (in_last_window now c hist)"
      unfolding in_last_window_def using True assms(3) by (intro length_filter_mono) auto
    then show ?thesis using assms(4) True by (simp add: in_window_def w)
  next
    case False
    then show ?thesis using assms(1) by (auto simp: tier_ok_def in_window_def w)
  qed
qed

subsection \<open>The limiter against its log\<close>

text \<open>The admitted checks of each client since its last reset, oldest first.\<close>

record gate =
  gt_limiter :: request_limiter
  gt_log :: "(string \<times> readings) list"

datatype limiter_op = CheckOp string readings | ResetOp "string option"

definition admitted :: "string \<Rightarrow> gate \<Rightarrow> readings list" where
  "admitted key g = map snd (filter (\<lambda>x. fst x = key) (gt_log g))"

definition gate_step :: "limiter_op \<Rightarrow> gate \<Rightarrow> gate" where
  "gate_step op g = (case op of
      CheckOp key rd \<Rightarrow>
        (let r = limiter_check key rd (gt_limiter g)
         in \<lparr>gt_limiter = snd r, gt_log = (if fst (fst r) then gt_log g @ [(key, rd)] else gt_log g)\<rparr>)
    | ResetOp key \<Rightarrow>
        \<lparr>gt_limiter = reset_limiter key (gt_limiter g),
         gt_log = (case key of None \<Rightarrow> [] | Some k \<Rightarrow> filter (\<lambda>x. fst x \<noteq> k) (gt_log g))\<rparr>)"

definition gate_run :: "limit_config \<Rightarrow> limiter_op list \<Rightarrow> gate" where
  "gate_run cfg ops = fold gate_step ops \<lparr>gt_limiter = new_limiter cfg, gt_log = []\<rparr>"

definition op_times :: "limiter_op \<Rightarrow> rat list" where
  "op_times op = (case op of
      CheckOp key rd \<Rightarrow> [rd_check_burst rd, rd_check_minute rd, rd_check_hour rd,
        rd_record_burst rd, rd_record_minute rd, rd_record_hour rd]
    | ResetOp key \<Rightarrow> [])"

definition gate_ok :: "limit_config \<Rightarrow> rat \<Rightarrow> gate \<Rightarrow> bool" where
  "gate_ok cfg latest g \<longleftrightarrow>
     (let l = gt_limiter g
      in lm_config l = cfg \<and>
         wc_window_seconds (lm_burst l) = 1 \<and> wc_max_requests (lm_burst l) = lc_burst_limit cfg \<and>
         wc_window_seconds (lm_minute l) = 60 \<and> wc_max_requests (lm_minute l) = lc_requests_per_minute cfg \<and>
         wc_window_seconds (lm_hour l) = 3600 \<and> wc_max_requests (lm_hour l) = lc_requests_per_hour cfg \<and>
         (\<forall>key. tier_ok key (lm_burst l) (map rd_record_burst (admitted key g)) latest \<and>
            tier_ok key (lm_minute l) (map rd_record_minute (admitted key g)) latest \<and>
            tier_ok key (lm_hour l) (map rd_record_hour (admitted key g)) latest))"

lemma tier_other: "bucket c' k = bucket c k \<Longrightarrow> wc_window_seconds c' = wc_window_seconds c \<Longrightarrow>
    wc_max_requests c' = wc_max_requests c \<Longrightarrow> tier_ok k c hist latest \<Longrightarrow> latest \<le> latest' \<Longrightarrow>
    tier_ok k c' hist latest'"
  using tier_later [of k c hist latest latest'] by (simp add: tier_ok_def)

lemma record_other: "k \<noteq> key \<Longrightarrow> bucket (record_request key r c) k = bucket c k"
  "wc_window_seconds (record_request key r c) = wc_window_seconds c"
  "wc_max_requests (record_request key r c) = wc_max_requests c"
  by (simp_all add: record_request_def)

text \<open>A tier for all clients, through a check and a record of one of them.\<close>

lemma tier_after:
  assumes "\<forall>k. tier_ok k c (H k) latest" and "latest \<le> now" and "now \<le> r" and "r \<le> fin"
    and "check_only key now c = ((ok, rest, reset), c')"
  shows "\<forall>k. tier_ok k c' (H k) fin"
    "ok \<Longrightarrow> \<forall>k. (k = key \<longrightarrow> tier_ok k (record_request key r c') (H k @ [r]) fin) \<and>
        (k \<noteq> key \<longrightarrow> tier_ok k (record_request key r c') (H k) fin)"
    "ok \<longleftrightarrow> int (length (in_last_window now c (H key))) < wc_max_requests c"
    "wc_window_seconds c' = wc_window_seconds c" "wc_max_requests c' = wc_max_requests c"
proof -
  note step = checked [OF spec [OF assms(1), of key] assms(2,5)]
  show "ok \<longleftrightarrow> int (length (in_last_window now c (H key))) < wc_max_requests c"
    "wc_window_seconds c' = wc_window_seconds c" "wc_max_requests c' = wc_max_requests c"
    using step by simp_all
  have other: "tier_ok k c' (H k) now" if "k \<noteq> key" for k
    using tier_other [OF step(6) [OF that] step(4,5)] assms(1,2) by blast
  show "\<forall>k. tier_ok k c' (H k) fin"
    using other step(1) tier_later assms(3,4) by (metis order_trans)
  assume ok
  then have "tier_ok key (record_request key r c') (H key @ [r]) r"
    using recorded [OF step(1) _ assms(3)] step(2-5) by (simp add: in_last_window_def)
  moreover have "tier_ok k (record_request key r c') (H k) r" if "k \<noteq> key" for k
    using tier_other [OF record_other(1) [OF that] record_other(2,3) other [OF that] assms(3)] .
  ultimately show "\<forall>k. (k = key \<longrightarrow> tier_ok k (record_request key r c') (H k @ [r]) fin) \<and>
        (k \<noteq> key \<longrightarrow> tier_ok k (record_request key r c') (H k) fin)"
    using tier_later [OF _ assms(4)] by blast
qed

text \<open>The number of requests of a client that a check still sees in a tier.\<close>

definition seen :: "(readings \<Rightarrow> rat) \<Rightarrow> int \<Rightarrow> rat \<Rightarrow> string \<Rightarrow> gate \<Rightarrow> int" where
  "seen record w now key g = int (length (filter (\<lambda>rd. now - of_int w < record rd) (admitted key g)))"

lemma seen_recent: "wc_window_seconds c = w \<Longrightarrow>
    int (length (in_last_window now c (map record (admitted key g)))) = seen record w now key g"
  by (simp add: in_last_window_def seen_def filter_map o_def)

lemma admitted_step:
  "admitted k (gate_step (CheckOp key rd) g) =
     admitted k g @ (if k = key \<and> fst (fst (limiter_check key rd (gt_limiter g))) then [rd] else [])"
  by (auto simp: admitted_def gate_step_def Let_def)

lemma gate_check:
  assumes "gate_ok cfg latest g" and "lc_enabled cfg" and "sorted (latest # op_times (CheckOp key rd))"
  shows "gate_ok cfg (rd_record_hour rd) (gate_step (CheckOp key rd) g) \<and>
    (fst (fst (limiter_check key rd (gt_limiter g))) \<longleftrightarrow>
       seen rd_record_burst 1 (rd_check_burst rd) key g < lc_burst_limit cfg \<and>
       seen rd_record_minute 60 (rd_check_minute rd) key g < lc_requests_per_minute cfg \<and>
       seen rd_record_hour 3600 (rd_check_hour rd) key g < lc_requests_per_hour cfg)"
proof -
  let ?l = "gt_limiter g"
  obtain b br bs burst where burst: "check_only key (rd_check_burst rd) (lm_burst ?l) = ((b, br, bs), burst)"
    by (metis prod.exhaust)
  obtain m mr ms minute where minute: "check_only key (rd_check_minute rd) (lm_minute ?l) = ((m, mr, ms), minute)"
    by (metis prod.exhaust)
  obtain h hr hs hour where hour: "check_only key (rd_check_hour rd) (lm_hour ?l) = ((h, hr, hs), hour)"
    by (metis prod.exhaust)
  have sizes: "lm_config ?l = cfg" "wc_window_seconds (lm_burst ?l) = 1"
    "wc_max_requests (lm_burst ?l) = lc_burst_limit cfg" "wc_window_seconds (lm_minute ?l) = 60"
    "wc_max_requests (lm_minute ?l) = lc_requests_per_minute cfg" "wc_window_seconds (lm_hour ?l) = 3600"
    "wc_max_requests (lm_hour ?l) = lc_requests_per_hour cfg"
    and tiers: "\<forall>k. tier_ok k (lm_burst ?l) (map rd_record_burst (admitted k g)) latest"
      "\<forall>k. tier_ok k (lm_minute ?l) (map rd_record_minute (admitted k g)) latest"
      "\<forall>k. tier_ok k (lm_hour ?l) (map rd_record_hour (admitted k g)) latest"
    using assms(1) by (simp_all add: gate_ok_def Let_def)
  have order: "latest \<le> rd_check_burst rd" "latest \<le> rd_check_minute rd" "latest \<le> rd_check_hour rd"
    "rd_check_burst rd \<le> rd_record_burst rd" "rd_check_minute rd \<le> rd_record_minute rd"
    "rd_check_hour rd \<le> rd_record_hour rd" "rd_record_burst rd \<le> rd_record_hour rd"
    "rd_record_minute rd \<le> rd_record_hour rd" "latest \<le> rd_record_hour rd"
    using assms(3) by (auto simp: op_times_def)
  note tb = tier_after [OF tiers(1) order(1,4,7) burst]
  note tm = tier_after [OF tiers(2) order(2,5,8) minute]
  note th = tier_after [OF tiers(3) order(3,6) order_refl hour]
  have decides: "b \<longleftrightarrow> seen rd_record_burst 1 (rd_check_burst rd) key g < lc_burst_limit cfg"
    "m \<longleftrightarrow> seen rd_record_minute 60 (rd_check_minute rd) key g < lc_requests_per_minute cfg"
    "h \<longleftrightarrow> seen rd_record_hour 3600 (rd_check_hour rd) key g < lc_requests_per_hour cfg"
    using tb(3) tm(3) th(3) sizes by (simp_all add: seen_recent)
  have ok: "fst (fst (limiter_check key rd ?l)) \<longleftrightarrow> b \<and> m \<and> h"
    using assms(2) sizes(1) burst minute hour by (simp add: limiter_check_def Let_def)
  have later: "\<forall>k. tier_ok k (lm_minute ?l) (map rd_record_minute (admitted k g)) (rd_record_hour rd)"
    "\<forall>k. tier_ok k (lm_hour ?l) (map rd_record_hour (admitted k g)) (rd_record_hour rd)"
    using tiers(2,3) tier_later order(9) by blast+
  have "gate_ok cfg (rd_record_hour rd) (gate_step (CheckOp key rd) g)"
  proof (cases "b \<and> m \<and> h")
    case True
    then show ?thesis
      using assms(2) burst minute hour sizes tb(2,4,5) tm(2,4,5) th(2,4,5) ok
      by (simp add: gate_ok_def Let_def admitted_step)
        (simp add: gate_step_def limiter_check_def record_other Let_def if_distrib [of "map _"] cong: if_cong)
  next
    case False
    then have "gt_limiter (gate_step (CheckOp key rd) g) =
        (if \<not> b then ?l\<lparr>lm_burst := burst\<rparr> else if \<not> m then ?l\<lparr>lm_burst := burst, lm_minute := minute\<rparr>
         else ?l\<lparr>lm_burst := burst, lm_minute := minute, lm_hour := hour\<rparr>)"
      using assms(2) burst minute hour sizes(1) by (auto simp: gate_step_def limiter_check_def Let_def)
    then show ?thesis
      using sizes tb(1,4,5) tm(1,4,5) th(1,4,5) later ok False
      by (simp add: gate_ok_def Let_def admitted_step)
  qed
  then show ?thesis using ok decides by simp
qed

lemma gate_reset:
  assumes "gate_ok cfg latest g"
  shows "gate_ok cfg latest (gate_step (ResetOp key) g)"
proof -
  have fields: "wc_window_seconds (reset_counter key c) = wc_window_seconds c"
    "wc_max_requests (reset_counter key c) = wc_max_requests c" for c
    by (simp_all add: reset_counter_def split: option.splits)
  have hist: "admitted k (gate_step (ResetOp key) g) = (if key = None \<or> key = Some k then [] else admitted k g)" for k
    by (cases key) (auto simp: admitted_def gate_step_def intro!: arg_cong [where f = "map snd"] filter_cong)
  have tier: "tier_ok k (reset_counter key c) (map f (admitted k (gate_step (ResetOp key) g))) latest"
    if "tier_ok k c (map f (admitted k g)) latest" for k c and f :: "readings \<Rightarrow> rat"
  proof (cases "key = None \<or> key = Some k")
    case True
    then have "bucket (reset_counter key c) k = []"
      by (auto simp: reset_counter_def bucket_def dget_or_def)
    then show ?thesis using that True unfolding hist tier_ok_def fields
      by (auto simp: in_window_def intro: exI [where x = "latest - of_int (wc_window_seconds c)"])
  next
    case False
    then have "bucket (reset_counter key c) k = bucket c k"
      by (cases key) (simp_all add: reset_counter_def bucket_def dget_or_def)
    moreover have "admitted k (gate_step (ResetOp key) g) = admitted k g" using False by (auto simp: hist)
    ultimately show ?thesis using that by (simp add: tier_ok_def fields)
  qed
  have "gt_limiter (gate_step (ResetOp key) g) = reset_limiter key (gt_limiter g)" by (simp add: gate_step_def)
  then show ?thesis using assms tier by (simp add: gate_ok_def Let_def reset_limiter_def fields)
qed

lemma gate_new: "gate_ok cfg latest \<lparr>gt_limiter = new_limiter cfg, gt_log = []\<rparr>"
proof -
  have "\<exists>start. start + x \<le> latest" for x by (intro exI [where x = "latest - x"]) simp
  then show ?thesis
    by (simp add: gate_ok_def Let_def new_limiter_def new_counter_def tier_ok_def bucket_def dget_or_def
        admitted_def in_window_def)
qed

lemma sorted_split:
  "sorted (a # xs @ ys) \<Longrightarrow> sorted (a # xs) \<and> sorted (last (a # xs) # (ys :: rat list))"
  by (induction xs arbitrary: a) auto

lemma last_split: "last (a # xs @ ys) = last (last (a # xs) # ys)"
  by (simp add: last_append)

lemma gate_fold:
  "gate_ok cfg latest g \<Longrightarrow> lc_enabled cfg \<Longrightarrow> sorted (latest # concat (map op_times ops)) \<Longrightarrow>
   gate_ok cfg (last (latest # concat (map op_times ops))) (fold gate_step ops g)"
proof (induction ops arbitrary: latest g)
  case (Cons op ops)
  have rest: "concat (map op_times (op # ops)) = op_times op @ concat (map op_times ops)" by simp
  note sorted = sorted_split [OF Cons.prems(3) [unfolded rest]]
  have "gate_ok cfg (last (latest # op_times op)) (gate_step op g)"
  proof (cases op)
    case (CheckOp key rd)
    then show ?thesis using gate_check [OF Cons.prems(1,2)] sorted by (simp add: op_times_def)
  next
    case (ResetOp key)
    then show ?thesis using gate_reset [OF Cons.prems(1)] by (simp add: op_times_def)
  qed
  from Cons.IH [OF this Cons.prems(2)] sorted show ?case unfolding rest last_split by simp
qed simp

text \<open>
  C34. No client gets more than its share, and none is refused below it. While the clock does
  not go back, after any sequence of checks and resets with the limiter enabled, no half-open
  second, minute or hour contains more admitted requests of a client, counted since its last
  reset, than the limit of that window. And the next check is admitted exactly if in each of
  the three windows that end with it fewer requests of that client than the limit were
  admitted; a refused request is not counted.
\<close>

theorem limiter_enforces_every_window:
  assumes "lc_enabled cfg" and "sorted (concat (map op_times (ops @ [CheckOp key rd])))"
    and "g = gate_run cfg ops"
  shows "(\<forall>k t. in_window t 1 (map rd_record_burst (admitted k g)) \<le> max 0 (lc_burst_limit cfg) \<and>
      in_window t 60 (map rd_record_minute (admitted k g)) \<le> max 0 (lc_requests_per_minute cfg) \<and>
      in_window t 3600 (map rd_record_hour (admitted k g)) \<le> max 0 (lc_requests_per_hour cfg)) \<and>
    (fst (fst (limiter_check key rd (gt_limiter g))) \<longleftrightarrow>
       seen rd_record_burst 1 (rd_check_burst rd) key g < lc_burst_limit cfg \<and>
       seen rd_record_minute 60 (rd_check_minute rd) key g < lc_requests_per_minute cfg \<and>
       seen rd_record_hour 3600 (rd_check_hour rd) key g < lc_requests_per_hour cfg) \<and>
    gt_log (gate_step (CheckOp key rd) g) =
      gt_log g @ (if fst (fst (limiter_check key rd (gt_limiter g))) then [(key, rd)] else [])"
proof -
  let ?times = "concat (map op_times ops)"
  let ?t0 = "hd (?times @ op_times (CheckOp key rd))"
  have "sorted (?t0 # ?times @ op_times (CheckOp key rd))"
    using assms(2) by (cases "?times @ op_times (CheckOp key rd)") (simp_all add: op_times_def)
  note sorted = sorted_split [OF this]
  have "gate_ok cfg (last (?t0 # ?times)) g"
    unfolding assms(3) gate_run_def using gate_fold [OF gate_new assms(1)] sorted by blast
  note ok = this
  have sizes: "wc_window_seconds (lm_burst (gt_limiter g)) = 1" "wc_window_seconds (lm_minute (gt_limiter g)) = 60"
    "wc_window_seconds (lm_hour (gt_limiter g)) = 3600"
    "wc_max_requests (lm_burst (gt_limiter g)) = lc_burst_limit cfg"
    "wc_max_requests (lm_minute (gt_limiter g)) = lc_requests_per_minute cfg"
    "wc_max_requests (lm_hour (gt_limiter g)) = lc_requests_per_hour cfg"
    using ok by (simp_all add: gate_ok_def Let_def)
  have "in_window t 1 (map rd_record_burst (admitted k g)) \<le> max 0 (lc_burst_limit cfg) \<and>
      in_window t 60 (map rd_record_minute (admitted k g)) \<le> max 0 (lc_requests_per_minute cfg) \<and>
      in_window t 3600 (map rd_record_hour (admitted k g)) \<le> max 0 (lc_requests_per_hour cfg)" for k t
    using ok sizes by (simp add: gate_ok_def Let_def tier_ok_def)
  then show ?thesis using gate_check [OF ok assms(1) sorted [THEN conjunct2]]
    by (simp add: gate_step_def Let_def)
qed

subsection \<open>A concrete run\<close>

definition steady :: "rat \<Rightarrow> readings" where
  "steady t = \<lparr>rd_check_burst = t, rd_check_minute = t, rd_check_hour = t, rd_record_burst = t,
     rd_record_minute = t, rd_record_hour = t\<rparr>"

definition two_a_second :: limit_config where
  "two_a_second = \<lparr>lc_enabled = True, lc_requests_per_minute = 3, lc_requests_per_hour = 9,
     lc_burst_limit = 2\<rparr>"

definition requests :: "limiter_op list" where
  "requests = [CheckOp ''a'' (steady 0), CheckOp ''a'' (steady 0), CheckOp ''a'' (steady (1/2)),
     CheckOp ''b'' (steady (1/2)), CheckOp ''a'' (steady 1)]"

lemma requests_run:
  "map (rd_check_burst \<circ> snd) (gt_log (gate_run two_a_second requests)) = [0, 0, 1/2, 1] \<and>
   fst (limiter_check ''a'' (steady 2) (gt_limiter (gate_run two_a_second requests))) =
     (False, Refused ''minute'' 59)"
  by code_simp

theorem limiter_enforces_every_window_witness:
  "in_window (-1/2) 1 (map rd_record_burst (admitted ''a'' (gate_run two_a_second requests))) \<le> 2 \<and>
   \<not> seen rd_record_minute 60 2 ''a'' (gate_run two_a_second requests) < 3"
proof -
  have "sorted (concat (map op_times (requests @ [CheckOp ''a'' (steady 2)])))"
    by (simp add: requests_def op_times_def steady_def)
  moreover have "lc_enabled two_a_second" by (simp add: two_a_second_def)
  ultimately have enforced: "in_window (-1/2) 1 (map rd_record_burst (admitted ''a'' (gate_run two_a_second requests)))
      \<le> max 0 (lc_burst_limit two_a_second)"
    "fst (fst (limiter_check ''a'' (steady 2) (gt_limiter (gate_run two_a_second requests)))) \<longleftrightarrow>
       seen rd_record_burst 1 2 ''a'' (gate_run two_a_second requests) < 2 \<and>
       seen rd_record_minute 60 2 ''a'' (gate_run two_a_second requests) < 3 \<and>
       seen rd_record_hour 3600 2 ''a'' (gate_run two_a_second requests) < 9"
    using limiter_enforces_every_window [of two_a_second requests "''a''" "steady 2", OF _ _ refl]
    by (simp_all add: steady_def two_a_second_def)
  have "seen rd_record_burst 1 2 ''a'' (gate_run two_a_second requests) < 2"
    "seen rd_record_hour 3600 2 ''a'' (gate_run two_a_second requests) < 9"
    by code_simp+
  then show ?thesis using enforced requests_run by (simp add: two_a_second_def)
qed

end
