(* ===== verification/Score.thy ===== *)
theory Score
  imports Fan_Out Baton_State
begin

section \<open>From the score to the dependencies of a job\<close>

text \<open>
  The part of \<open>SheetConfig\<close> (\<open>core/config/job.py\<close>) that decides which sheets a job has and
  what they wait for, for scores without loops and triggers: its validators in the order in
  which pydantic runs them, the fan-out expansion among them, and \<open>extract_dependencies\<close> of
  the baton adapter, which turns the loaded score into the dependencies of the job. Every
  validation error is a \<open>ValueError\<close>.
\<close>

record sheet_config =
  cf_size :: int
  cf_total_items :: int
  cf_start_item :: int
  cf_dependencies :: dependencies
  cf_fan_out :: "(int, int) dict"
  cf_fan_out_stage_map :: "(int, fan_out_metadata) dict option"
  cf_skip_when :: "(int, string) dict"
  cf_stdout_to :: "(int, string) dict"

definition total_sheets :: "sheet_config \<Rightarrow> int" where
  "total_sheets c = (cf_total_items c - cf_start_item c + 1 + cf_size c - 1) div cf_size c"

definition total_stages :: "sheet_config \<Rightarrow> int" where
  "total_stages c = (case cf_fan_out_stage_map c of
      Some (m # ms) \<Rightarrow> Max (fm_stage ` set (dvals (m # ms)))
    | _ \<Rightarrow> total_sheets c)"

definition get_fan_out_metadata :: "sheet_config \<Rightarrow> int \<Rightarrow> fan_out_metadata" where
  "get_fan_out_metadata c n =
     (case dget (case cf_fan_out_stage_map c of None \<Rightarrow> [] | Some d \<Rightarrow> d) n of
        Some m \<Rightarrow> m
      | None \<Rightarrow> \<lparr>fm_stage = n, fm_instance = 1, fm_count = 1\<rparr>)"

subsection \<open>Validation and expansion\<close>

definition validate_fan_out :: "(int, int) dict \<Rightarrow> py_exn + unit" where
  "validate_fan_out v =
     (if list_ex (\<lambda>(stage, n). stage < 1 \<or> n < 1) (items v) then Inl ValueError else Inr ())"

definition validate_dependencies :: "dependencies \<Rightarrow> py_exn + unit" where
  "validate_dependencies v =
     (if list_ex (\<lambda>(n, ds). n < 1 \<or> list_ex (\<lambda>d. d < 1 \<or> d = n) ds) (items v)
      then Inl ValueError else Inr ())"

definition voices_of :: "fan_out_expansion \<Rightarrow> int \<Rightarrow> int list" where
  "voices_of x stage = dget_or (fe_stage_sheets x) stage [stage]"

text \<open>A stage-keyed setting for every sheet of its stage; the later stage wins.\<close>

definition expand_skip_when :: "fan_out_expansion \<Rightarrow> (int, string) dict \<Rightarrow> (int, string) dict" where
  "expand_skip_when x d =
     fold (\<lambda>(stage, cmd). fold (\<lambda>n acc. dset acc n cmd) (voices_of x stage)) (items d) []"

text \<open>\<open>str.rpartition('.')\<close> and the file of one voice of a fanned-out stage.\<close>

definition rpartition_dot :: "string \<Rightarrow> string \<times> bool \<times> string" where
  "rpartition_dot s =
     (let ext = rev (takeWhile (\<lambda>c. c \<noteq> CHR ''.'') (rev s))
      in if CHR ''.'' \<in> set s then (take (length s - length ext - 1) s, True, ext) else ([], False, s))"

fun decimal_digits :: "nat \<Rightarrow> string" where
  "decimal_digits n =
     (if n < 10 then [char_of (48 + n)] else decimal_digits (n div 10) @ [char_of (48 + n mod 10)])"

definition voice_file :: "string \<Rightarrow> int \<Rightarrow> string" where
  "voice_file target n =
     (let (stem, dot, ext) = rpartition_dot target;
          suffix = CHR ''-'' # decimal_digits (nat n)
      in if dot \<and> CHR ''/'' \<notin> set ext then stem @ suffix @ CHR ''.'' # ext else target @ suffix)"

definition expand_stdout_to :: "fan_out_expansion \<Rightarrow> (int, string) dict \<Rightarrow> (int, string) dict" where
  "expand_stdout_to x d =
     fold (\<lambda>(stage, target).
         let voices = voices_of x stage
         in fold (\<lambda>n acc. dset acc n (if 1 < length voices then voice_file target n else target)) voices)
       (items d) []"

definition expand_fan_out_config :: "sheet_config \<Rightarrow> py_exn + sheet_config" where
  "expand_fan_out_config c =
     (if cf_fan_out c = [] then Inr c
      else if cf_size c \<noteq> 1 then Inl ValueError
      else if cf_start_item c \<noteq> 1 then Inl ValueError
      else case expand_fan_out (cf_total_items c) (cf_fan_out c) (cf_dependencies c) of
             Inl e \<Rightarrow> Inl e
           | Inr x \<Rightarrow> Inr (c\<lparr>cf_total_items := fe_total_sheets x, cf_dependencies := fe_dependencies x,
               cf_skip_when := expand_skip_when x (cf_skip_when c),
               cf_stdout_to := expand_stdout_to x (cf_stdout_to c),
               cf_fan_out_stage_map := Some (fe_metadata x), cf_fan_out := []\<rparr>))"

definition validate_dependency_range :: "sheet_config \<Rightarrow> py_exn + unit" where
  "validate_dependency_range c =
     (let max_sheet = total_sheets c
      in if list_ex (\<lambda>(n, ds). n < 1 \<or> max_sheet < n \<or> list_ex (\<lambda>d. d < 1 \<or> max_sheet < d) ds)
              (items (cf_dependencies c))
         then Inl ValueError else Inr ())"

text \<open>Loading: the constraints of the fields, their validators, then those of the model.\<close>

definition load_sheet_config :: "sheet_config \<Rightarrow> py_exn + sheet_config" where
  "load_sheet_config c =
     (if cf_size c < 1 \<or> cf_total_items c < 1 \<or> cf_start_item c < 1 then Inl ValueError
      else case validate_dependencies (cf_dependencies c) of
        Inl e \<Rightarrow> Inl e
      | Inr _ \<Rightarrow> (case validate_fan_out (cf_fan_out c) of
          Inl e \<Rightarrow> Inl e
        | Inr _ \<Rightarrow> (case expand_fan_out_config c of
            Inl e \<Rightarrow> Inl e
          | Inr c' \<Rightarrow> (case validate_dependency_range c' of
              Inl e \<Rightarrow> Inl e
            | Inr _ \<Rightarrow> Inr c'))))"

subsection \<open>The dependencies of the job\<close>

definition stage_sheets :: "sheet_config \<Rightarrow> (int, int list) dict" where
  "stage_sheets c =
     fold (\<lambda>n d. let stage = fm_stage (get_fan_out_metadata c n)
                 in dset d stage (dget_or d stage [] @ [n])) [1..total_sheets c] []"

text \<open>Every sheet of a stage after the previous one in the order of the stages.\<close>

fun chain_stages :: "(int, int list) dict \<Rightarrow> int list \<Rightarrow> int list \<Rightarrow> dependencies \<Rightarrow> dependencies" where
  "chain_stages groups prev [] deps = deps"
| "chain_stages groups prev (stage # stages) deps =
     chain_stages groups (dget_or groups stage []) stages
       (fold (\<lambda>n d. dset d n prev) (dget_or groups stage []) deps)"

definition extract_dependencies :: "sheet_config \<Rightarrow> dependencies" where
  "extract_dependencies c =
     (let groups = stage_sheets c; yaml_deps = cf_dependencies c
      in if yaml_deps \<noteq> []
         then if cf_fan_out c = []
              then fold (\<lambda>n d. dset d n (dget_or yaml_deps n [])) [1..total_sheets c] []
              else fold (\<lambda>(stage, sheets) d.
                     let expanded = concat (map (\<lambda>s. dget_or groups s [s]) (dget_or yaml_deps stage []))
                     in fold (\<lambda>n d. dset d n expanded) sheets d) groups []
         else chain_stages groups [] (sort (dkeys groups)) [])"

subsection \<open>The sheets and edges of a loaded score\<close>

lemma depends_iff: "(p, n) \<in> depends deps \<longleftrightarrow> p \<in> set (dget_or deps n [])"
  by (simp add: depends_edges edges_def)

lemma dget_fold_keyed:
  "dget (fold (\<lambda>n d. dset d n (f n)) ns d) k = (if k \<in> set ns then Some (f k) else dget d k)"
  by (induction ns arbitrary: d) auto

abbreviation stage_of :: "sheet_config \<Rightarrow> int \<Rightarrow> int" where
  "stage_of c n \<equiv> fm_stage (get_fan_out_metadata c n)"

definition add_to_group :: "(int \<Rightarrow> int) \<Rightarrow> int \<Rightarrow> (int, int list) dict \<Rightarrow> (int, int list) dict" where
  "add_to_group g n d = dset d (g n) (dget_or d (g n) [] @ [n])"

lemma fold_groups:
  "dget_or (fold (add_to_group g) ns d) k [] = dget_or d k [] @ filter (\<lambda>n. g n = k) ns"
  "distinct (dkeys d) \<Longrightarrow> distinct (dkeys (fold (add_to_group g) ns d))"
  "dget (fold (add_to_group g) ns d) k = None \<longleftrightarrow> dget d k = None \<and> k \<notin> g ` set ns"
  by (induction ns arbitrary: d) (auto simp: add_to_group_def dget_or_def distinct_dset split: if_splits)

lemma stage_sheets_groups: "stage_sheets c = fold (add_to_group (stage_of c)) [1..total_sheets c] []"
proof -
  have "add_to_group (stage_of c) = (\<lambda>n d. dset d (stage_of c n) (dget_or d (stage_of c n) [] @ [n]))"
    by (simp add: add_to_group_def fun_eq_iff)
  then show ?thesis by (simp add: stage_sheets_def Let_def)
qed

lemma group_sheets: "dget_or (stage_sheets c) k [] = filter (\<lambda>n. stage_of c n = k) [1..total_sheets c]"
  and group_stages: "distinct (dkeys (stage_sheets c))" "set (dkeys (stage_sheets c)) = stage_of c ` {1..total_sheets c}"
proof -
  note groups = fold_groups [where g = "stage_of c" and ns = "[1..total_sheets c]" and d = "[]", folded stage_sheets_groups]
  show "dget_or (stage_sheets c) k [] = filter (\<lambda>n. stage_of c n = k) [1..total_sheets c]"
    "distinct (dkeys (stage_sheets c))"
    using groups(1,2) by (simp_all add: dget_or_def)
  have "k \<in> set (dkeys (stage_sheets c)) \<longleftrightarrow> k \<in> stage_of c ` {1..total_sheets c}" for k
    using groups(3) [of k] by (simp add: dget_None_iff del: set_map) 
  then show "set (dkeys (stage_sheets c)) = stage_of c ` {1..total_sheets c}" by blast
qed

text \<open>The chain of the stages: every edge leads to a later stage.\<close>

definition forward :: "(int \<Rightarrow> int) \<Rightarrow> int set \<Rightarrow> dependencies \<Rightarrow> bool" where
  "forward stage sheets deps \<longleftrightarrow>
     (\<forall>p n. p \<in> set (dget_or deps n []) \<longrightarrow> stage p < stage n \<and> p \<in> sheets \<and> n \<in> sheets)"

lemma chain_forward:
  assumes "\<And>st. set (dget_or groups st []) = {n \<in> sheets. stage n = st}"
    and "forward stage sheets deps" and "sorted stages" and "distinct stages"
    and "\<forall>p \<in> set prev. p \<in> sheets \<and> (\<forall>st \<in> set stages. stage p < st)"
  shows "forward stage sheets (chain_stages groups prev stages deps) \<and>
    (\<forall>n. dget (chain_stages groups prev stages deps) n \<noteq> None \<longleftrightarrow>
       dget deps n \<noteq> None \<or> n \<in> sheets \<and> stage n \<in> set stages)"
  using assms(2-5)
proof (induction stages arbitrary: prev deps)
  case (Cons st stages)
  let ?deps = "fold (\<lambda>n d. dset d n prev) (dget_or groups st []) deps"
  have get: "dget ?deps n = (if n \<in> sheets \<and> stage n = st then Some prev else dget deps n)" for n
    using assms(1) [of st] by (simp add: dget_fold_keyed [where f = "\<lambda>n. prev"])
  have "dget_or ?deps n [] = (if n \<in> sheets \<and> stage n = st then prev else dget_or deps n [])" for n
    unfolding dget_or_def [of ?deps] dget_or_def [of deps] get by simp
  then have fwd: "forward stage sheets ?deps"
    using Cons.prems(1,4) by (simp add: forward_def)
  have "\<forall>p \<in> set (dget_or groups st []). p \<in> sheets \<and> (\<forall>st' \<in> set stages. stage p < st')"
    using assms(1) [of st] Cons.prems(2,3) by (auto simp: less_le)
  then have "forward stage sheets (chain_stages groups (dget_or groups st []) stages ?deps) \<and>
    (\<forall>n. dget (chain_stages groups (dget_or groups st []) stages ?deps) n \<noteq> None \<longleftrightarrow>
       dget ?deps n \<noteq> None \<or> n \<in> sheets \<and> stage n \<in> set stages)"
    using Cons.IH [OF fwd] Cons.prems(2,3) by simp
  then show ?case using get by (simp only: chain_stages.simps list.set) auto
qed simp

lemma forward_acyclic:
  assumes "forward stage sheets deps"
  shows "acyclic (depends deps)"
proof (rule acyclicI_order [where f = "\<lambda>n. - stage n"])
  show "- stage b < - stage a" if "(a, b) \<in> depends deps" for a b
    using assms that by (simp add: forward_def depends_iff)
qed

subsection \<open>A loaded score\<close>

lemma range_iff: "validate_dependency_range c = Inr () \<longleftrightarrow>
    (\<forall>n ds. dget (cf_dependencies c) n = Some ds \<longrightarrow>
       1 \<le> n \<and> n \<le> total_sheets c \<and> (\<forall>d \<in> set ds. 1 \<le> d \<and> d \<le> total_sheets c))"
  by (simp add: validate_dependency_range_def Let_def list_ex_iff Bex_def items_iff) (meson not_le)

lemma load_cases:
  assumes "load_sheet_config raw = Inr c"
  obtains (plain) "cf_fan_out raw = []" "c = raw" "validate_dependency_range c = Inr ()"
  | (expanded) x where "cf_fan_out raw \<noteq> []"
      "expand_fan_out (cf_total_items raw) (cf_fan_out raw) (cf_dependencies raw) = Inr x"
      "cf_dependencies c = fe_dependencies x" "cf_fan_out c = []" "total_sheets c = fe_total_sheets x"
      "validate_dependency_range c = Inr ()"
proof -
  from assms have c': "expand_fan_out_config raw = Inr c" "validate_dependency_range c = Inr ()"
    unfolding load_sheet_config_def by (simp_all split: if_split_asm sum.split_asm)
  show thesis
  proof (cases "cf_fan_out raw = []")
    case True
    then show thesis using c' plain [OF True] by (simp add: expand_fan_out_config_def)
  next
    case False
    with c'(1) obtain x where x: "expand_fan_out (cf_total_items raw) (cf_fan_out raw) (cf_dependencies raw) = Inr x"
      and one: "cf_size raw = 1" "cf_start_item raw = 1"
      and c: "c = raw\<lparr>cf_total_items := fe_total_sheets x, cf_dependencies := fe_dependencies x,
         cf_skip_when := expand_skip_when x (cf_skip_when raw), cf_stdout_to := expand_stdout_to x (cf_stdout_to raw),
         cf_fan_out_stage_map := Some (fe_metadata x), cf_fan_out := []\<rparr>"
      unfolding expand_fan_out_config_def by (simp split: if_split_asm sum.split_asm)
    have fields: "cf_dependencies c = fe_dependencies x" "cf_fan_out c = []" "total_sheets c = fe_total_sheets x"
      using one by (simp_all add: c total_sheets_def)
    show thesis by (rule expanded [OF False x fields c'(2)])
  qed
qed

lemma extract_explicit:
  assumes "cf_fan_out c = []" and "cf_dependencies c \<noteq> []" and "validate_dependency_range c = Inr ()"
  shows "depends (extract_dependencies c) = depends (cf_dependencies c)"
    "dget (extract_dependencies c) n \<noteq> None \<longleftrightarrow> 1 \<le> n \<and> n \<le> total_sheets c"
proof -
  have get: "dget (extract_dependencies c) n =
      (if 1 \<le> n \<and> n \<le> total_sheets c then Some (dget_or (cf_dependencies c) n []) else None)" for n
    using assms(1,2) by (simp add: extract_dependencies_def Let_def dget_fold_keyed [where f = "\<lambda>n. dget_or (cf_dependencies c) n []"])
  show "dget (extract_dependencies c) n \<noteq> None \<longleftrightarrow> 1 \<le> n \<and> n \<le> total_sheets c" by (simp add: get)
  have "dget_or (extract_dependencies c) n [] = dget_or (cf_dependencies c) n []" for n
  proof (cases "1 \<le> n \<and> n \<le> total_sheets c")
    case False
    with assms(3) have "dget (cf_dependencies c) n = None" by (cases "dget (cf_dependencies c) n") (auto simp: range_iff)
    with False show ?thesis by (simp only: dget_or_def [of "extract_dependencies c"] get) (simp add: dget_or_def)
  qed (simp only: dget_or_def [of "extract_dependencies c"] get, simp)
  then show "depends (extract_dependencies c) = depends (cf_dependencies c)" by (auto simp: depends_iff)
qed

lemma extract_chain:
  assumes "cf_dependencies c = []"
  shows "forward (stage_of c) {1..total_sheets c} (extract_dependencies c)"
    "dget (extract_dependencies c) n \<noteq> None \<longleftrightarrow> 1 \<le> n \<and> n \<le> total_sheets c"
proof -
  have "forward (stage_of c) {1..total_sheets c} []" by (simp add: forward_def dget_or_def)
  moreover have "set (dget_or (stage_sheets c) st []) = {n \<in> {1..total_sheets c}. stage_of c n = st}" for st
    by (auto simp: group_sheets)
  ultimately have "forward (stage_of c) {1..total_sheets c} (extract_dependencies c) \<and>
    (\<forall>n. dget (extract_dependencies c) n \<noteq> None \<longleftrightarrow> n \<in> {1..total_sheets c} \<and> stage_of c n \<in> set (sort (dkeys (stage_sheets c))))"
    using chain_forward [where groups = "stage_sheets c" and stage = "stage_of c" and sheets = "{1..total_sheets c}"
        and deps = "[]" and prev = "[]" and stages = "sort (dkeys (stage_sheets c))"] group_stages assms
    by (simp add: extract_dependencies_def Let_def)
  then show "forward (stage_of c) {1..total_sheets c} (extract_dependencies c)"
    "dget (extract_dependencies c) n \<noteq> None \<longleftrightarrow> 1 \<le> n \<and> n \<le> total_sheets c"
    using group_stages(2) by auto
qed

lemma depends_empty [simp]: "depends [] = {}"
  by (auto simp: depends_iff dget_or_def)

lemma range_edges:
  "validate_dependency_range c = Inr () \<Longrightarrow> (p, n) \<in> depends (cf_dependencies c) \<Longrightarrow>
     1 \<le> p \<and> p \<le> total_sheets c \<and> 1 \<le> n \<and> n \<le> total_sheets c"
  by (cases "dget (cf_dependencies c) n") (auto simp: depends_iff dget_or_def range_iff)

text \<open>What the job of a loaded score waits for, without and with explicit dependencies.\<close>

lemma extracted:
  assumes "cf_fan_out c = []" and "validate_dependency_range c = Inr ()"
  shows "dget (extract_dependencies c) n \<noteq> None \<longleftrightarrow> 1 \<le> n \<and> n \<le> total_sheets c"
    "(p, n) \<in> depends (extract_dependencies c) \<Longrightarrow> 1 \<le> p \<and> p \<le> total_sheets c \<and> 1 \<le> n \<and> n \<le> total_sheets c"
    "acyclic (depends (extract_dependencies c)) \<longleftrightarrow> acyclic (depends (cf_dependencies c))"
proof -
  have "(dget (extract_dependencies c) n \<noteq> None \<longleftrightarrow> 1 \<le> n \<and> n \<le> total_sheets c) \<and>
    ((p, n) \<in> depends (extract_dependencies c) \<longrightarrow> 1 \<le> p \<and> p \<le> total_sheets c \<and> 1 \<le> n \<and> n \<le> total_sheets c) \<and>
    (acyclic (depends (extract_dependencies c)) \<longleftrightarrow> acyclic (depends (cf_dependencies c)))"
  proof (cases "cf_dependencies c = []")
    case True
    note chain = extract_chain [OF True]
    have "(p, n) \<in> depends (extract_dependencies c) \<longrightarrow> 1 \<le> p \<and> p \<le> total_sheets c \<and> 1 \<le> n \<and> n \<le> total_sheets c"
      using chain(1) by (simp add: forward_def depends_iff)
    with chain(2) [of n] forward_acyclic [OF chain(1)] True show ?thesis by (simp add: acyclic_def)
  next
    case False
    with extract_explicit [OF assms(1) False assms(2)] range_edges [OF assms(2)] show ?thesis by simp
  qed
  then show "dget (extract_dependencies c) n \<noteq> None \<longleftrightarrow> 1 \<le> n \<and> n \<le> total_sheets c"
    "(p, n) \<in> depends (extract_dependencies c) \<Longrightarrow> 1 \<le> p \<and> p \<le> total_sheets c \<and> 1 \<le> n \<and> n \<le> total_sheets c"
    "acyclic (depends (extract_dependencies c)) \<longleftrightarrow> acyclic (depends (cf_dependencies c))" by blast+
qed

lemma loaded:
  assumes "load_sheet_config raw = Inr c"
  shows "cf_fan_out c = []" "validate_dependency_range c = Inr ()"
    "acyclic (depends (cf_dependencies c)) \<longleftrightarrow> acyclic (depends (cf_dependencies raw))"
  using assms by (auto elim!: load_cases dest: expansion_acyclic)

subsection \<open>Waiting jobs\<close>

text \<open>
  A job of the score that nothing holds back but its dependencies: every sheet either satisfies
  the sheets behind it or can be dispatched, and not all are done.
\<close>

definition waiting_job :: "sheet_config \<Rightarrow> job \<Rightarrow> bool" where
  "waiting_job c jb \<longleftrightarrow> j_flow jb = None \<and> \<not> j_paused jb \<and> \<not> j_pacing_active jb \<and>
     j_dependencies jb = extract_dependencies c \<and> dkeys (j_sheets jb) = [1..total_sheets c] \<and>
     (\<forall>s \<in> set (dvals (j_sheets jb)). is_dep_satisfied s \<or> dispatchable (status s)) \<and>
     (\<exists>s \<in> set (dvals (j_sheets jb)). \<not> is_dep_satisfied s)"

lemma not_both: "dispatchable (status s) \<Longrightarrow> \<not> is_dep_satisfied s"
  by (auto simp: dispatchable_def is_dep_satisfied_def)

lemma ready_iff:
  assumes "get_job b j = Some jb" and "waiting_job c jb"
  shows "(n, s) \<in> set (get_ready_sheets b j) \<longleftrightarrow>
    dget (j_sheets jb) n = Some s \<and> \<not> is_dep_satisfied s \<and>
    (\<forall>p. (p, n) \<in> depends (extract_dependencies c) \<longrightarrow> is_dependency_satisfied jb p)"
proof -
  from assms(2) have job: "j_flow jb = None" "\<not> j_paused jb" "\<not> j_pacing_active jb" "j_dependencies jb = extract_dependencies c"
    and "distinct (dkeys (j_sheets jb))"
    and sheets: "\<forall>s \<in> set (dvals (j_sheets jb)). is_dep_satisfied s \<or> dispatchable (status s)"
    by (simp_all add: waiting_job_def)
  then have mem: "(n, s) \<in> set (j_sheets jb) \<longleftrightarrow> dget (j_sheets jb) n = Some s" by simp
  have "(n, s) \<in> set (get_ready_sheets b j) \<longleftrightarrow> (n, s) \<in> set (j_sheets jb) \<and> dispatchable (status s) \<and>
      (\<forall>p. (p, n) \<in> depends (extract_dependencies c) \<longrightarrow> is_dependency_satisfied jb p)"
    using assms(1) job by (auto simp: get_ready_sheets_def deps_satisfied_def flow_busy_def depends_iff list_all_iff)
  moreover have "dispatchable (status s) \<longleftrightarrow> \<not> is_dep_satisfied s" if "dget (j_sheets jb) n = Some s"
    using sheets dget_dvals [OF that] not_both by blast
  ultimately show ?thesis unfolding mem by blast
qed

text \<open>The first unfinished sheet of an acyclic score is ready.\<close>

lemma acyclic_ready:
  assumes "get_job b j = Some jb" and w: "waiting_job c jb"
    and edges: "\<And>p n. (p, n) \<in> depends (extract_dependencies c) \<Longrightarrow> p \<in> {1..total_sheets c} \<and> n \<in> {1..total_sheets c}"
    and acyc: "acyclic (depends (extract_dependencies c))"
  shows "get_ready_sheets b j \<noteq> []"
proof -
  define todo where "todo = {n. \<exists>s. dget (j_sheets jb) n = Some s \<and> \<not> is_dep_satisfied s}"
  have "finite (depends (extract_dependencies c))"
    by (rule finite_subset [of _ "{1..total_sheets c} \<times> {1..total_sheets c}"]) (use edges in auto)
  then have "wf (depends (extract_dependencies c))" using acyc by (rule finite_acyclic_wf)
  moreover obtain n0 where "n0 \<in> todo"
  proof -
    from w obtain s where s: "s \<in> set (dvals (j_sheets jb))" "\<not> is_dep_satisfied s" by (auto simp: waiting_job_def)
    from w have "distinct (dkeys (j_sheets jb))" by (simp add: waiting_job_def)
    with s(1) obtain n where "dget (j_sheets jb) n = Some s" by auto
    with s(2) have "n \<in> todo" by (auto simp: todo_def simp del: map_of_eq_Some_iff)
    then show thesis by (rule that)
  qed
  ultimately obtain n where n: "n \<in> todo" "\<And>p. (p, n) \<in> depends (extract_dependencies c) \<Longrightarrow> p \<notin> todo"
    by (rule wfE_min) (rule that)
  have "is_dependency_satisfied jb p" if "(p, n) \<in> depends (extract_dependencies c)" for p
    using n(2) [OF that] by (auto simp: todo_def is_dependency_satisfied_def split: option.split)
  moreover obtain s where "dget (j_sheets jb) n = Some s" "\<not> is_dep_satisfied s" using n(1) by (auto simp: todo_def)
  ultimately have "(n, s) \<in> set (get_ready_sheets b j)" using ready_iff [OF assms(1) w] by blast
  then show ?thesis by (metis empty_iff list.set(1))
qed

text \<open>The job in which the sheets of \<open>fin\<close> have completed and the others are waiting.\<close>

definition job_with :: "sheet_config \<Rightarrow> (int \<Rightarrow> bool) \<Rightarrow> job" where
  "job_with c fin =
     \<lparr>j_sheets = map (\<lambda>n. (n, (new_sheet n)\<lparr>status := if fin n then COMPLETED else PENDING\<rparr>)) [1..total_sheets c],
      j_dependencies = extract_dependencies c, j_paused = False, j_user_paused = False,
      j_escalation_enabled = False, j_self_healing_enabled = False, j_pacing_active = False, j_pacing_seconds = 0,
      j_max_concurrent = None, j_fail_fast = False, j_stagger_delay_ms = 0, j_completion_threshold_percent = 0,
      j_registration_token = 1, j_event_generation = None, j_flow = None, j_created_at = 0\<rparr>"

lemma job_with_sheet: "dget (j_sheets (job_with c fin)) n =
    (if 1 \<le> n \<and> n \<le> total_sheets c then Some ((new_sheet n)\<lparr>status := if fin n then COMPLETED else PENDING\<rparr>) else None)"
  by (simp add: job_with_def map_of_map_restrict restrict_map_def)

lemma job_with_waits: "1 \<le> n \<Longrightarrow> n \<le> total_sheets c \<Longrightarrow> \<not> fin n \<Longrightarrow> waiting_job c (job_with c fin)"
  by (auto simp: waiting_job_def job_with_def is_dep_satisfied_def dispatchable_def comp_def intro!: bexI [of _ n])

text \<open>A cycle of unfinished sheets has no first sheet.\<close>

lemma cyclic_stuck:
  assumes "\<not> acyclic (depends (extract_dependencies c))"
    and edges: "\<And>p n. (p, n) \<in> depends (extract_dependencies c) \<Longrightarrow> p \<in> {1..total_sheets c} \<and> n \<in> {1..total_sheets c}"
    and job: "get_job b j = Some (job_with c (\<lambda>n. (n, n) \<notin> (depends (extract_dependencies c))\<^sup>+))"
  shows "get_ready_sheets b j = [] \<and> waiting_job c (job_with c (\<lambda>n. (n, n) \<notin> (depends (extract_dependencies c))\<^sup>+))"
proof -
  let ?r = "depends (extract_dependencies c)"
  let ?jb = "job_with c (\<lambda>n. (n, n) \<notin> ?r\<^sup>+)"
  from assms(1) obtain n where n: "(n, n) \<in> ?r\<^sup>+" by (auto simp: acyclic_def)
  then obtain p where "(p, n) \<in> ?r" by (metis tranclE)
  with edges n have w: "waiting_job c ?jb" by (intro job_with_waits [of n]) auto
  have "(m, s) \<notin> set (get_ready_sheets b j)" for m s
  proof
    assume "(m, s) \<in> set (get_ready_sheets b j)"
    with ready_iff [OF job w] have m: "dget (j_sheets ?jb) m = Some s" "\<not> is_dep_satisfied s"
      and ready: "\<And>p. (p, m) \<in> ?r \<Longrightarrow> is_dependency_satisfied ?jb p" by blast+
    then have "(m, m) \<in> ?r\<^sup>+" by (auto simp: job_with_sheet is_dep_satisfied_def split: if_splits)
    then obtain q where q: "(q, m) \<in> ?r" "(m, q) \<in> ?r\<^sup>*" by (meson tranclD2)
    then have "(q, q) \<in> ?r\<^sup>+" by (meson rtrancl_into_trancl2)
    with ready [OF q(1)] edges [OF q(1)] show False
      by (simp add: is_dependency_satisfied_def job_with_sheet is_dep_satisfied_def)
  qed
  then have "get_ready_sheets b j = []" by (cases "get_ready_sheets b j") auto
  with w show ?thesis by simp
qed

subsection \<open>Scores\<close>

abbreviation plain_score :: "int \<Rightarrow> dependencies \<Rightarrow> (int, int) dict \<Rightarrow> sheet_config" where
  "plain_score n deps fan_out \<equiv>
     \<lparr>cf_size = 1, cf_total_items = n, cf_start_item = 1, cf_dependencies = deps, cf_fan_out = fan_out,
      cf_fan_out_stage_map = None, cf_skip_when = [], cf_stdout_to = []\<rparr>"

lemma scores_run:
  "map_sum id extract_dependencies (load_sheet_config (plain_score 3 [(2, [1]), (3, [2])] [(2, 2)])) =
     Inr [(1, []), (2, [1]), (3, [1]), (4, [2, 3])]"
  "map_sum id extract_dependencies (load_sheet_config (plain_score 3 [] [])) = Inr [(1, []), (2, [1]), (3, [2])]"
  "load_sheet_config (plain_score 2 [(1, [2]), (2, [1])] []) = Inr (plain_score 2 [(1, [2]), (2, [1])] [])"
  "load_sheet_config (plain_score 2 [(2, [3])] []) = Inl ValueError"
  by code_simp+

text \<open>
  Stages declared independent by an empty list of dependencies stay independent without
  fan-out. With it, the expansion leaves no dependency at all and they are chained.
\<close>

lemma lost_independence:
  "map_sum id extract_dependencies (load_sheet_config (plain_score 2 [(2, [])] [])) = Inr [(1, []), (2, [])]"
  "map_sum id extract_dependencies (load_sheet_config (plain_score 2 [(2, [])] [(1, 2)])) =
     Inr [(1, []), (2, []), (3, [1, 2])]"
  by code_simp+

text \<open>
  C29. The job of a loaded score has dependencies for exactly the sheets 1 to
  \<open>total_sheets\<close>, none on a number that is not a sheet, and they are acyclic exactly when
  those written in the score are: neither the fan-out nor the default chain makes a cycle, and
  no validator rejects one. A score without fan-out that declares dependencies keeps them.
\<close>

theorem loaded_score_connects_its_sheets:
  assumes "load_sheet_config raw = Inr c"
  shows "(\<forall>n. dget (extract_dependencies c) n \<noteq> None \<longleftrightarrow> 1 \<le> n \<and> n \<le> total_sheets c) \<and>
    (\<forall>(p, n) \<in> depends (extract_dependencies c). 1 \<le> p \<and> p \<le> total_sheets c \<and> 1 \<le> n \<and> n \<le> total_sheets c) \<and>
    (acyclic (depends (extract_dependencies c)) \<longleftrightarrow> acyclic (depends (cf_dependencies raw))) \<and>
    (cf_fan_out raw = [] \<and> cf_dependencies raw \<noteq> [] \<longrightarrow>
       depends (extract_dependencies c) = depends (cf_dependencies raw))"
proof -
  note l = loaded [OF assms]
  have "depends (extract_dependencies c) = depends (cf_dependencies raw)"
    if "cf_fan_out raw = []" "cf_dependencies raw \<noteq> []"
    using assms by (rule load_cases) (use that extract_explicit(1) in auto)
  with extracted [OF l(1,2)] l(3) show ?thesis by auto
qed

lemma loaded_score_connects_its_sheets_witness:
  "acyclic (depends (extract_dependencies (plain_score 2 [(1, [2]), (2, [1])] []))) \<longleftrightarrow>
     acyclic (depends [(1, [2]), (2, [1 :: int])])"
  using loaded_score_connects_its_sheets [OF scores_run(3)] by simp

text \<open>
  A loaded score is acyclic exactly when its job never starves: whichever sheets are done, as
  long as one is not and nothing but dependencies holds the job back, some sheet is ready.
  A score with a cycle loads as well, and its job can wait forever.
\<close>

lemma acyclic_never_starves:
  assumes "load_sheet_config raw = Inr c"
  shows "acyclic (depends (cf_dependencies raw)) \<longleftrightarrow>
    (\<forall>b j jb. get_job b j = Some jb \<longrightarrow> waiting_job c jb \<longrightarrow> get_ready_sheets b j \<noteq> [])"
proof -
  note l = loaded [OF assms] and x = extracted [OF loaded(1,2) [OF assms]]
  have edges: "p \<in> {1..total_sheets c} \<and> n \<in> {1..total_sheets c}" if "(p, n) \<in> depends (extract_dependencies c)" for p n
    using x(2) [OF that] by simp
  have "\<exists>b j jb. get_job b j = Some jb \<and> waiting_job c jb \<and> get_ready_sheets b j = []"
    if cyclic: "\<not> acyclic (depends (extract_dependencies c))"
  proof -
    let ?jb = "job_with c (\<lambda>n. (n, n) \<notin> (depends (extract_dependencies c))\<^sup>+)"
    let ?b = "(new_baton None [] False (\<lambda>_ _. 0))\<lparr>b_jobs := [([], ?jb)]\<rparr>"
    have "get_job ?b [] = Some ?jb" by (simp add: get_job_def)
    with cyclic_stuck [OF cyclic edges] show ?thesis by blast
  qed
  with acyclic_ready [OF _ _ edges] x(3) l(3) show ?thesis by blast
qed

end
