(* ===== verification/Cycle_Search.thy ===== *)
theory Cycle_Search
  imports Cycle_Check
begin

section \<open>A recursive search for cycles\<close>

text \<open>
  The depth-first search that \<open>DependencyCycleCheck\<close> (\<open>validation/checks/structure.py\<close>) and the
  validator of fleets (\<open>core/config/fleet.py\<close>) share: a recursion with a set of nodes on the
  path and one of finished nodes, here lists, over any type of node. The first argument is the
  depth that is left before Python gives up the recursion; the result is None when it does.
\<close>

type_synonym 'a visit_state = "'a list \<times> 'a list"

type_synonym 'a search_result = "('a list option \<times> 'a visit_state) option"

text \<open>The loop over the targets ends with the first cycle.\<close>

fun first_cycle :: "('a \<Rightarrow> 'a visit_state \<Rightarrow> 'a search_result) \<Rightarrow> 'a list \<Rightarrow> 'a visit_state \<Rightarrow> 'a search_result" where
  "first_cycle f [] s = Some (None, s)"
| "first_cycle f (n # ns) s =
     (case f n s of
        None \<Rightarrow> None
      | Some (Some cycle, s') \<Rightarrow> Some (Some cycle, s')
      | Some (None, s') \<Rightarrow> first_cycle f ns s')"

fun visit_node :: "nat \<Rightarrow> ('a, 'a list) dict \<Rightarrow> 'a \<Rightarrow> 'a list \<Rightarrow> 'a visit_state \<Rightarrow> 'a search_result" where
  "visit_node 0 deps node path s = None"
| "visit_node (Suc depth) deps node path s =
     (if node \<in> set (fst s) then Some (Some (dropWhile (\<lambda>n. n \<noteq> node) path @ [node]), s)
      else if node \<in> set (snd s) then Some (None, s)
      else case first_cycle (\<lambda>target. visit_node depth deps target (path @ [target]))
                 (dget_or deps node []) (node # fst s, snd s) of
             None \<Rightarrow> None
           | Some (Some cycle, s') \<Rightarrow> Some (Some cycle, s')
           | Some (None, s') \<Rightarrow> Some (None, removeAll node (fst s'), node # snd s'))"

subsection \<open>The search\<close>

text \<open>
  Between two visits the finished nodes are closed under dependencies, without a cycle among
  them, and apart from the path; the nodes on the path are those of the argument, each
  depending on the next.
\<close>

definition needs :: "('a, 'a list) dict \<Rightarrow> 'a \<Rightarrow> 'a \<Rightarrow> bool" where
  "needs deps n p \<longleftrightarrow> p \<in> set (dget_or deps n [])"

definition closed_below :: "('a, 'a list) dict \<Rightarrow> 'a set \<Rightarrow> bool" where
  "closed_below deps W \<longleftrightarrow> (\<forall>n \<in> W. \<forall>p. needs deps n p \<longrightarrow> p \<in> W) \<and>
     acyclic {(n, p). n \<in> W \<and> needs deps n p}"

definition between :: "('a, 'a list) dict \<Rightarrow> 'a set \<Rightarrow> 'a visit_state \<Rightarrow> bool" where
  "between deps V s \<longleftrightarrow> set (fst s) = V \<and> V \<inter> set (snd s) = {} \<and> closed_below deps (set (snd s))"

text \<open>What is reported: a closed walk along dependencies, its first node once more at the end.\<close>

definition reported :: "('a, 'a list) dict \<Rightarrow> 'a list \<Rightarrow> bool" where
  "reported deps c \<longleftrightarrow> (\<exists>walk. c = walk @ [hd walk] \<and> 2 \<le> length walk \<and> hd walk = last walk \<and>
     successively (needs deps) walk)"

text \<open>What a visit and a loop over visits leave behind.\<close>

definition visited :: "('a, 'a list) dict \<Rightarrow> 'a set \<Rightarrow> 'a visit_state \<Rightarrow> 'a set \<Rightarrow> 'a search_result \<Rightarrow> bool" where
  "visited deps V s ns r \<longleftrightarrow> (case r of
      None \<Rightarrow> False
    | Some (Some c, s') \<Rightarrow> reported deps c
    | Some (None, s') \<Rightarrow> between deps V s' \<and> set (snd s) \<subseteq> set (snd s') \<and> ns \<subseteq> set (snd s'))"

lemma visited_loop:
  assumes "between deps V s"
    and "\<And>n s. n \<in> set ns \<Longrightarrow> between deps V s \<Longrightarrow> visited deps V s {n} (f n s)"
  shows "visited deps V s (set ns) (first_cycle f ns s)"
  using assms
proof (induction ns arbitrary: s)
  case (Cons n ns)
  have n: "visited deps V s {n} (f n s)" by (rule Cons.prems(2)) (use Cons.prems(1) in simp_all)
  then obtain r s' where r: "f n s = Some (r, s')" by (cases "f n s") (auto simp: visited_def)
  show ?case
  proof (cases r)
    case None
    with n r have s': "between deps V s'" "set (snd s) \<subseteq> set (snd s')" "n \<in> set (snd s')"
      by (simp_all add: visited_def)
    have "visited deps V s' (set ns) (first_cycle f ns s')"
      by (rule Cons.IH [OF s'(1)]) (use Cons.prems(2) in simp)
    with s' r None show ?thesis by (auto simp: visited_def split: option.splits)
  next
    case (Some c)
    with n r show ?thesis by (simp add: visited_def)
  qed
qed (simp add: visited_def)

lemma closed_insert:
  assumes "closed_below deps W" and "n \<notin> W" and "\<And>p. needs deps n p \<Longrightarrow> p \<in> W"
  shows "closed_below deps (insert n W)"
proof -
  let ?r = "{(m, p). m \<in> W \<and> needs deps m p}"
  have "acyclic (?r \<union> {(n, m) |m. m \<in> {p. needs deps n p}})"
    by (rule acyclic_add_source) (use assms in \<open>auto simp: closed_below_def\<close>)
  moreover have "{(m, p). m \<in> insert n W \<and> needs deps m p} = ?r \<union> {(n, m) |m. m \<in> {p. needs deps n p}}" by auto
  ultimately show ?thesis using assms by (auto simp: closed_below_def)
qed

lemma walk_back:
  assumes "successively (needs deps) path" and "last path = node" and "node \<in> set (butlast path)"
  shows "reported deps (dropWhile (\<lambda>n. n \<noteq> node) path @ [node])"
proof -
  let ?w = "dropWhile (\<lambda>n. n \<noteq> node) path"
  from assms(3) obtain xs ys where split: "butlast path = xs @ node # ys" "node \<notin> set xs" by (meson split_list_first)
  from assms(3) have "path \<noteq> []" by auto
  with assms(2) split(1) have path: "path = xs @ node # ys @ [node]" by (metis append_Cons append_assoc append_butlast_last_id)
  have w: "?w = node # ys @ [node]"
    using split(2) unfolding path by (subst dropWhile_append2) auto
  have "successively (needs deps) (node # ys @ [node])"
    using assms(1) unfolding path by (simp add: successively_append_iff)
  then show ?thesis unfolding w reported_def
    by (intro exI [of _ "node # ys @ [node]"]) simp
qed

text \<open>The depth suffices when it exceeds the number of nodes that are not on the path.\<close>

lemma visit_correct:
  assumes "finite U" and "\<And>n p. needs deps n p \<Longrightarrow> p \<in> U"
    and "between deps V s" and "node \<in> U" and "V \<subseteq> U" and "card (U - V) < depth"
    and "successively (needs deps) path" and "path \<noteq> []" and "last path = node" and "set (butlast path) = V"
  shows "visited deps V s {node} (visit_node depth deps node path s)"
  using assms(3-)
proof (induction depth arbitrary: V s node path)
  case (Suc depth)
  from Suc.prems(1) have s: "set (fst s) = V" "V \<inter> set (snd s) = {}" "closed_below deps (set (snd s))"
    by (simp_all add: between_def)
  consider "node \<in> V" | "node \<notin> V" "node \<in> set (snd s)" | "node \<notin> V" "node \<notin> set (snd s)" by blast
  then show ?case
  proof cases
    case 1
    with walk_back [of deps path node] Suc.prems s show ?thesis by (simp add: visited_def)
  next
    case 2
    with Suc.prems(1) s show ?thesis by (simp add: visited_def)
  next
    case 3
    let ?s = "(node # fst s, snd s)" and ?f = "\<lambda>target. visit_node depth deps target (path @ [target])"
    have "between deps (insert node V) ?s" using s 3 by (simp add: between_def)
    then have loop: "visited deps (insert node V) ?s (set (dget_or deps node [])) (first_cycle ?f (dget_or deps node []) ?s)"
    proof (rule visited_loop)
      fix target s'
      assume t: "target \<in> set (dget_or deps node [])" and b: "between deps (insert node V) s'"
      have "card (U - insert node V) < card (U - V)"
        by (rule psubset_card_mono) (use assms(1) 3 Suc.prems(2) in auto)
      with Suc.prems(4) have depth: "card (U - insert node V) < depth" by simp
      have need: "needs deps (last path) target" using t Suc.prems(7) by (simp add: needs_def)
      show "visited deps (insert node V) s' {target} (?f target s')"
      proof (rule Suc.IH [OF b _ _ depth])
        show "target \<in> U" using assms(2) need by blast
        show "insert node V \<subseteq> U" using Suc.prems(2,3) by simp
        show "successively (needs deps) (path @ [target])"
          using Suc.prems(5,6) need by (simp add: successively_append_iff)
        show "set (butlast (path @ [target])) = insert node V"
          using Suc.prems(6-8) by (metis append_butlast_last_id butlast_snoc list.set(1,2) set_append Un_insert_right Un_empty_right)
      qed simp_all
    qed
    then obtain r s' where r: "first_cycle ?f (dget_or deps node []) ?s = Some (r, s')"
      by (cases "first_cycle ?f (dget_or deps node []) ?s") (auto simp: visited_def)
    show ?thesis
    proof (cases r)
      case None
      with loop r have s': "set (fst s') = insert node V" "insert node V \<inter> set (snd s') = {}"
        "closed_below deps (set (snd s'))" "set (snd s) \<subseteq> set (snd s')" "\<And>p. needs deps node p \<Longrightarrow> p \<in> set (snd s')"
        by (auto simp: visited_def between_def needs_def)
      then have "closed_below deps (insert node (set (snd s')))" by (intro closed_insert) auto
      with s' 3 s r None show ?thesis by (auto simp: visited_def between_def)
    next
      case (Some c)
      with loop r 3 s show ?thesis by (simp add: visited_def)
    qed
  qed
qed simp

lemma reported_cyclic: "reported deps c \<Longrightarrow> \<not> acyclic {(n, p). needs deps n p}"
proof
  assume "reported deps c" and acyc: "acyclic {(n, p). needs deps n p}"
  then obtain walk where walk: "2 \<le> length walk" "hd walk = last walk" "successively (needs deps) walk"
    by (auto simp: reported_def)
  have "(hd walk, last walk) \<in> {(n, p). needs deps n p}\<^sup>+"
    by (rule chain_trancl) (use walk in simp_all)
  with walk(2) acyc show False by (simp add: acyclic_def)
qed

text \<open>The search from every node: it reports a cycle exactly when there is one.\<close>

lemma search_decides:
  assumes "finite U" and "\<And>n p. needs deps n p \<Longrightarrow> n \<in> U \<and> p \<in> U" and "set roots = U" and "card U < depth"
  shows "case first_cycle (\<lambda>node. visit_node depth deps node [node]) roots ([], []) of
      None \<Rightarrow> False
    | Some (None, s) \<Rightarrow> acyclic {(n, p). needs deps n p}
    | Some (Some cycle, s) \<Rightarrow> \<not> acyclic {(n, p). needs deps n p} \<and> reported deps cycle"
proof -
  let ?r = "first_cycle (\<lambda>node. visit_node depth deps node [node]) roots ([], [])"
  have "visited deps {} ([], []) (set roots) ?r"
  proof (rule visited_loop)
    show "between deps {} ([], [])" by (simp add: between_def closed_below_def acyclic_def)
    show "visited deps {} s {n} (visit_node depth deps n [n] s)"
      if "n \<in> set roots" "between deps {} s" for n s
      by (rule visit_correct [where U = U]) (use that assms in auto)
  qed
  moreover have "acyclic {(n, p). needs deps n p}" if "closed_below deps W" "U \<subseteq> W" for W
  proof -
    have "{(n, p). needs deps n p} = {(n, p). n \<in> W \<and> needs deps n p}" using assms(2) that(2) by blast
    with that(1) show ?thesis by (simp add: closed_below_def)
  qed
  ultimately show ?thesis
    using assms(3) reported_cyclic by (auto simp: visited_def between_def split: option.splits)
qed

end
