(* ===== verification/Score_Check.thy ===== *)
theory Score_Check
  imports Score Cycle_Search
begin

section \<open>The dependency check of the validator\<close>

text \<open>
  \<open>DependencyCycleCheck\<close> (V209, \<open>validation/checks/structure.py\<close>), which the validator runs over
  a loaded score, and what its verdict means for the jobs of the score.
\<close>

definition dependency_cycle_check :: "nat \<Rightarrow> sheet_config \<Rightarrow> int list option option" where
  "dependency_cycle_check depth c =
     map_option fst (first_cycle (\<lambda>node. visit_node depth (cf_dependencies c) node [node])
       [1..total_sheets c] ([], []))"

lemma needs_depends: "{(n, p). needs deps n p} = (depends deps)\<inverse>"
  by (auto simp: needs_def depends_iff)

subsection \<open>What the check decides\<close>

lemma check_decides:
  assumes "cf_fan_out c = []" and "validate_dependency_range c = Inr ()" and "nat (total_sheets c) < depth"
  shows "case dependency_cycle_check depth c of
      None \<Rightarrow> False
    | Some None \<Rightarrow> acyclic (depends (cf_dependencies c))
    | Some (Some cycle) \<Rightarrow> \<not> acyclic (depends (cf_dependencies c)) \<and> reported (cf_dependencies c) cycle"
proof -
  let ?deps = "cf_dependencies c"
  have "needs ?deps n p \<Longrightarrow> n \<in> {1..total_sheets c} \<and> p \<in> {1..total_sheets c}" for n p
    using range_edges [OF assms(2), of p n] by (simp add: needs_def depends_iff)
  note range = this
  show ?thesis
    using search_decides [where deps = ?deps and U = "{1..total_sheets c}" and roots = "[1..total_sheets c]" and depth = depth,
        OF _ range] assms(3)
    by (auto simp: dependency_cycle_check_def needs_depends split: option.splits)
qed

text \<open>The reported path ends with the first node twice.\<close>

lemma checks_run:
  "dependency_cycle_check 3 (plain_score 2 [(1, [2]), (2, [1])] []) = Some (Some [1, 2, 1, 1])"
  "dependency_cycle_check 5 (plain_score 4 [(2, [1]), (3, [1]), (4, [2, 3])] []) = Some None"
  "dependency_cycle_check 2 (plain_score 4 [(1, [2]), (2, [3]), (3, [4])] []) = None"
  by code_simp+

text \<open>
  C30. The check of the validator passes a loaded score exactly when the dependencies that were
  written in it are acyclic, and that is exactly when a job of the score never starves:
  whichever of its sheets are done, as long as one is not and nothing but dependencies holds
  the job back, some sheet is ready. Otherwise it reports a cycle of the dependencies, with
  its first node once more at the end. A recursion deeper than the number of sheets is never
  needed.
\<close>

theorem validated_scores_never_starve:
  assumes "load_sheet_config raw = Inr c" and "nat (total_sheets c) < depth"
  shows "case dependency_cycle_check depth c of
      None \<Rightarrow> False
    | Some None \<Rightarrow> acyclic (depends (cf_dependencies raw)) \<and>
        (\<forall>b j jb. get_job b j = Some jb \<longrightarrow> waiting_job c jb \<longrightarrow> get_ready_sheets b j \<noteq> [])
    | Some (Some cycle) \<Rightarrow> \<not> acyclic (depends (cf_dependencies raw)) \<and> reported (cf_dependencies c) cycle \<and>
        (\<exists>b j jb. get_job b j = Some jb \<and> waiting_job c jb \<and> get_ready_sheets b j = [])"
  using check_decides [OF loaded(1,2) [OF assms(1)] assms(2)] loaded(3) [OF assms(1)]
    acyclic_never_starves [OF assms(1)]
  by (auto split: option.splits)

lemma validated_scores_never_starve_witness:
  "\<exists>b j jb. get_job b j = Some jb \<and> waiting_job (plain_score 2 [(1, [2]), (2, [1])] []) jb \<and> get_ready_sheets b j = []"
  using validated_scores_never_starve [OF scores_run(3), of 3] by (simp add: checks_run(1) total_sheets_def)

end
