(* ===== verification/Fleet.thy ===== *)
theory Fleet
  imports Cycle_Search
begin

section \<open>Fleets\<close>

text \<open>
  A fleet launches scores in the order of their groups: the validator of \<open>FleetConfig\<close>
  (\<open>core/config/fleet.py\<close>), the sorting of the groups into layers, and the coordinator that
  launches a group once the scores of the groups it depends on have finished
  (\<open>daemon/fleet.py\<close>).
\<close>

type_synonym groups = "(string, string list) dict"

record fleet_config =
  fc_name :: string
  fc_scores :: "(string \<times> string option) list"
  fc_groups :: groups

subsection \<open>The validator\<close>

definition undefined_group :: "groups \<Rightarrow> bool" where
  "undefined_group groups \<longleftrightarrow>
     list_ex (\<lambda>(g, ds). list_ex (\<lambda>d. d \<notin> set (dkeys groups)) ds) (items groups)"

text \<open>The groups on the stack and those that are done; None beyond the recursion limit.\<close>

fun visit_groups :: "(string \<Rightarrow> string visit_state \<Rightarrow> (py_exn + string visit_state) option) \<Rightarrow> string list
    \<Rightarrow> string visit_state \<Rightarrow> (py_exn + string visit_state) option" where
  "visit_groups f [] s = Some (Inr s)"
| "visit_groups f (g # gs) s =
     (case f g s of
        None \<Rightarrow> None
      | Some (Inl e) \<Rightarrow> Some (Inl e)
      | Some (Inr s') \<Rightarrow> visit_groups f gs s')"

fun visit_group :: "nat \<Rightarrow> groups \<Rightarrow> string \<Rightarrow> string visit_state \<Rightarrow> (py_exn + string visit_state) option" where
  "visit_group 0 groups g s = None"
| "visit_group (Suc depth) groups g s =
     (if g \<in> set (fst s) then Some (Inl ValueError)
      else if g \<in> set (snd s) then Some (Inr s)
      else case visit_groups (visit_group depth groups) (dget_or groups g []) (g # fst s, snd s) of
             None \<Rightarrow> None
           | Some (Inl e) \<Rightarrow> Some (Inl e)
           | Some (Inr s') \<Rightarrow> Some (Inr (removeAll g (fst s'), g # snd s')))"

definition validate_groups :: "nat \<Rightarrow> groups \<Rightarrow> (py_exn + unit) option" where
  "validate_groups depth groups =
     (if undefined_group groups then Some (Inl ValueError)
      else map_option (map_sum id (\<lambda>_. ()))
             (visit_groups (visit_group depth groups) (dkeys (items groups)) ([], [])))"

subsection \<open>Layers\<close>

text \<open>The number of dependencies of each group, and the groups that depend on one.\<close>

definition setdefault :: "('k, 'v) dict \<Rightarrow> 'k \<Rightarrow> 'v \<Rightarrow> ('k, 'v) dict" where
  "setdefault d k v = (if dget d k = None then dset d k v else d)"

definition count_dep :: "string \<Rightarrow> string \<Rightarrow> (string, int) dict \<times> groups \<Rightarrow> (string, int) dict \<times> groups" where
  "count_dep g d s =
     (setdefault (dset (fst s) g (dget_or (fst s) g 0 + 1)) d 0, dset (snd s) d (dget_or (snd s) d [] @ [g]))"

definition degrees :: "groups \<Rightarrow> (string, int) dict \<times> groups" where
  "degrees groups =
     fold (\<lambda>(g, ds) s. fold (count_dep g) ds (setdefault (fst s) g 0, snd s)) (items groups) ([], [])"

text \<open>One dependency of a group has run; the group joins the next layer with its last one.\<close>

definition release :: "string \<Rightarrow> (string, int) dict \<times> string list \<Rightarrow> (string, int) dict \<times> string list" where
  "release g s =
     (let deg = dset (fst s) g (dget_or (fst s) g 0 - 1)
      in (deg, if dget_or deg g 0 = 0 then List.insert g (snd s) else snd s))"

definition release_dependents :: "groups \<Rightarrow> string \<Rightarrow> (string, int) dict \<times> string list \<Rightarrow> (string, int) dict \<times> string list" where
  "release_dependents dependents g = fold release (dget_or dependents g [])"

definition open_groups :: "(string, int) dict \<Rightarrow> string set" where
  "open_groups deg = {g. 0 < dget_or deg g 0}"

lemma finite_open [simp]: "finite (open_groups deg)"
proof (rule finite_subset)
  show "open_groups deg \<subseteq> set (dkeys deg)"
    by (auto simp: open_groups_def dget_or_def dest: dget_in_dkeys split: option.splits)
qed simp

text \<open>What a layer releases: the counts go down, and who reaches zero joins.\<close>

lemma release_fold:
  "dget_or (fst (fold release xs s)) g 0 = dget_or (fst s) g 0 - int (count_list xs g)"
  "g \<in> set (snd (fold release xs s)) \<longleftrightarrow> g \<in> set (snd s) \<or>
     1 \<le> dget_or (fst s) g 0 \<and> dget_or (fst s) g 0 \<le> int (count_list xs g)"
  "distinct (snd s) \<Longrightarrow> distinct (snd (fold release xs s))"
proof (induction xs arbitrary: s)
  case (Cons x xs)
  have deg: "dget_or (fst (release x s)) g 0 = dget_or (fst s) g 0 - (if g = x then 1 else 0)" for g s
    by (simp add: release_def Let_def dget_or_def)
  have out: "g \<in> set (snd (release x s)) \<longleftrightarrow> g \<in> set (snd s) \<or> g = x \<and> dget_or (fst s) x 0 = 1" for g s
    by (auto simp: release_def Let_def dget_or_def)
  {
    case 1
    then show ?case using Cons.IH(1) [of "release x s"] deg by auto
  next
    case 2
    then show ?case using Cons.IH(2) [of "release x s"] deg out by auto
  next
    case 3
    then have "distinct (snd (release x s))" by (simp add: release_def Let_def)
    then show ?case using Cons.IH(3) by simp
  }
qed auto

lemma release_layer: "fold (release_dependents dependents) queue s =
    fold release (concat (map (\<lambda>g. dget_or dependents g []) queue)) s"
  by (induction queue arbitrary: s) (simp_all add: release_dependents_def)

text \<open>Kahn's algorithm, layer by layer.\<close>

function layers_from :: "groups \<Rightarrow> string list \<Rightarrow> (string, int) dict \<Rightarrow> string list list" where
  "layers_from dependents queue deg =
     (if queue = [] then []
      else let s = fold (release_dependents dependents) queue (deg, [])
           in queue # layers_from dependents (snd s) (fst s))"
  by pat_completeness auto
termination
proof (relation "inv_image (less_than <*lex*> less_than)
    (\<lambda>(dependents, queue, deg). (card (open_groups deg), length queue))", goal_cases)
  case (2 dependents queue deg s)
  let ?xs = "concat (map (\<lambda>g. dget_or dependents g []) queue)"
  have s: "s = fold release ?xs (deg, [])" using 2 by (simp add: release_layer)
  have sub: "open_groups (fst s) \<subseteq> open_groups deg" by (auto simp: open_groups_def s release_fold(1))
  show ?case
  proof (cases "snd s = []")
    case True
    with sub 2 show ?thesis by (auto dest: card_mono [rotated])
  next
    case False
    then obtain g where "g \<in> set (snd s)" by (meson hd_in_set)
    then have "g \<in> open_groups deg" "g \<notin> open_groups (fst s)"
      by (auto simp: open_groups_def s release_fold)
    with sub have "card (open_groups (fst s)) < card (open_groups deg)" by (intro psubset_card_mono) auto
    then show ?thesis by simp
  qed
qed auto

declare layers_from.simps [simp del]

definition topological_sort_groups :: "groups \<Rightarrow> string list list" where
  "topological_sort_groups groups =
     (if groups = [] then [[]]
      else let (deg, dependents) = degrees groups
           in layers_from dependents (filter (\<lambda>g. dget_or deg g 0 = 0) (dkeys deg)) deg)"

subsection \<open>What the layers are\<close>

text \<open>The names that occur in the declarations, and the groups that are due after others.\<close>

definition group_names :: "groups \<Rightarrow> string set" where
  "group_names groups = {g. dget groups g \<noteq> None \<or> (\<exists>h. needs groups h g)}"

definition due :: "groups \<Rightarrow> string set \<Rightarrow> string set" where
  "due groups P = {g \<in> group_names groups. g \<notin> P \<and> (\<forall>d. needs groups g d \<longrightarrow> d \<in> P)}"

fun layered :: "groups \<Rightarrow> string set \<Rightarrow> string list list \<Rightarrow> bool" where
  "layered groups P [] \<longleftrightarrow> due groups P = {}"
| "layered groups P (layer # layers) \<longleftrightarrow>
     distinct layer \<and> set layer = due groups P \<and> layered groups (P \<union> set layer) layers"

lemma setdefault_get: "dget (setdefault d k v) n = (if n = k \<and> dget d k = None then Some v else dget d n)"
  by (simp add: setdefault_def)

lemma setdefault_keys: "distinct (dkeys d) \<Longrightarrow> distinct (dkeys (setdefault d k v))"
  by (simp add: setdefault_def distinct_dset)

text \<open>Counting: one per dependency, and every name gets a count.\<close>

definition counted :: "(string \<times> string) list \<Rightarrow> string set \<Rightarrow> (string, int) dict \<times> groups \<Rightarrow> bool" where
  "counted edges names s \<longleftrightarrow>
     (\<forall>g. dget_or (fst s) g 0 = int (length (filter (\<lambda>e. fst e = g) edges))) \<and>
     (\<forall>g. dget (fst s) g \<noteq> None \<longleftrightarrow> g \<in> names) \<and> distinct (dkeys (fst s)) \<and>
     (\<forall>d g. count_list (dget_or (snd s) d []) g = length (filter (\<lambda>e. e = (g, d)) edges))"

lemma dget_or_setdefault: "dget_or (setdefault d k v) n v = dget_or d n v"
  by (auto simp: dget_or_def setdefault_get split: option.split)

lemma countedD:
  assumes "counted edges names s"
  shows "dget_or (fst s) g 0 = int (length (filter (\<lambda>e. fst e = g) edges))"
    "dget (fst s) g \<noteq> None \<longleftrightarrow> g \<in> names" "distinct (dkeys (fst s))"
    "count_list (dget_or (snd s) d []) g = length (filter (\<lambda>e. e = (g, d)) edges)"
  using assms unfolding counted_def by blast+

lemma counted_group:
  assumes "counted edges names s"
  shows "counted edges (insert g names) (setdefault (fst s) g 0, snd s)"
proof -
  have "dget (setdefault (fst s) g 0) h \<noteq> None \<longleftrightarrow> h \<in> insert g names" for h
    unfolding setdefault_get using countedD(2) [OF assms, of h] by auto
  with countedD [OF assms] show ?thesis
    unfolding counted_def fst_conv snd_conv dget_or_setdefault by (blast intro: setdefault_keys)
qed

lemma counted_dep:
  assumes "counted edges names s"
  shows "counted (edges @ [(g, d)]) (insert d (insert g names)) (count_dep g d s)"
proof -
  note c = countedD [OF assms]
  let ?s = "count_dep g d s"
  have "dget_or (fst ?s) h 0 = int (length (filter (\<lambda>e. fst e = h) (edges @ [(g, d)])))" for h
    using c(1) by (simp add: count_dep_def dget_or_setdefault dget_or_dset)
  moreover have "dget (fst ?s) h \<noteq> None \<longleftrightarrow> h \<in> insert d (insert g names)" for h
    using c(2) [of h] by (auto simp: count_dep_def setdefault_get)
  moreover have "distinct (dkeys (fst ?s))" using c(3) by (simp add: count_dep_def setdefault_keys distinct_dset)
  moreover have "count_list (dget_or (snd ?s) e []) h = length (filter (\<lambda>x. x = (h, e)) (edges @ [(g, d)]))" for e h
    using c(4) [of e h] by (auto simp: count_dep_def dget_or_dset)
  ultimately show ?thesis unfolding counted_def by blast
qed

definition edges_of :: "(string \<times> string list) list \<Rightarrow> (string \<times> string) list" where
  "edges_of gs = concat (map (\<lambda>(g, ds). map (Pair g) ds) gs)"

lemma counted_deps:
  "counted edges names s \<Longrightarrow> g \<in> names \<Longrightarrow> counted (edges @ map (Pair g) ds) (names \<union> set ds) (fold (count_dep g) ds s)"
proof (induction ds arbitrary: edges names s)
  case (Cons d ds)
  from Cons.IH [OF counted_dep [OF Cons.prems(1), of g d]] Cons.prems(2) show ?case
    by (simp add: insert_absorb)
qed simp

lemma counted_groups:
  "counted edges names s \<Longrightarrow>
     counted (edges @ edges_of gs) (names \<union> (\<Union>(g, ds) \<in> set gs. insert g (set ds)))
       (fold (\<lambda>(g, ds) s. fold (count_dep g) ds (setdefault (fst s) g 0, snd s)) gs s)"
proof (induction gs arbitrary: edges names s)
  case (Cons x gs)
  obtain g ds where x: "x = (g, ds)" by (cases x)
  from Cons.IH [OF counted_deps [OF counted_group [OF Cons.prems, of g], of g ds]] show ?case
    by (simp add: x edges_of_def Un_assoc)
qed (simp add: edges_of_def)

lemma degrees_counted: "counted (edges_of (items groups)) (group_names groups) (degrees groups)"
proof -
  have "counted [] {} ([], [])" by (simp add: counted_def dget_or_def)
  moreover have "(\<Union>(g, ds) \<in> set (items groups). insert g (set ds)) = group_names groups"
  proof (rule set_eqI)
    fix x
    have "x \<in> (\<Union>(g, ds) \<in> set (items groups). insert g (set ds)) \<longleftrightarrow>
        (\<exists>g ds. dget groups g = Some ds \<and> (x = g \<or> x \<in> set ds))"
      unfolding items_iff [symmetric] by (auto simp: split_beta) force+
    also have "\<dots> \<longleftrightarrow> x \<in> group_names groups"
    proof -
      have "needs groups h x \<longleftrightarrow> (\<exists>ds. dget groups h = Some ds \<and> x \<in> set ds)" for h
        by (cases "dget groups h") (simp_all add: needs_def dget_or_def)
      then show ?thesis unfolding group_names_def by blast
    qed
    finally show "x \<in> (\<Union>(g, ds) \<in> set (items groups). insert g (set ds)) \<longleftrightarrow> x \<in> group_names groups" .
  qed
  ultimately show ?thesis using counted_groups [of "[]" "{}" "([], [])" "items groups"] by (simp add: degrees_def)
qed

lemma needs_edge: "needs groups g d \<longleftrightarrow> (g, d) \<in> set (edges_of (items groups))"
proof -
  have "(g, d) \<in> set (edges_of (items groups)) \<longleftrightarrow> (\<exists>ds. (g, ds) \<in> set (items groups) \<and> d \<in> set ds)"
    by (auto simp: edges_of_def)
  then show ?thesis unfolding items_iff by (auto simp: needs_def dget_or_def split: option.splits)
qed

lemma needs_declared: "needs groups g d \<Longrightarrow> dget groups g \<noteq> None"
  by (cases "dget groups g") (simp_all add: needs_def dget_or_def)

text \<open>The counts when the groups of \<open>P\<close> have run.\<close>

definition open_deps :: "groups \<Rightarrow> string set \<Rightarrow> string \<Rightarrow> nat" where
  "open_deps groups P g = length (filter (\<lambda>e. fst e = g \<and> snd e \<notin> P) (edges_of (items groups)))"

lemma open_deps_0: "open_deps groups P g = 0 \<longleftrightarrow> (\<forall>d. needs groups g d \<longrightarrow> d \<in> P)"
  by (auto simp: open_deps_def needs_edge filter_empty_conv)

lemma length_filter_split:
  "length (filter A xs) = length (filter (\<lambda>x. A x \<and> B x) xs) + length (filter (\<lambda>x. A x \<and> \<not> B x) xs)"
  by (induction xs) auto

lemma released_count:
  assumes "\<And>d g. count_list (dget_or dependents d []) g = length (filter (\<lambda>e. e = (g, d)) E)" and "distinct queue"
  shows "count_list (concat (map (\<lambda>q. dget_or dependents q []) queue)) g =
    length (filter (\<lambda>e. fst e = g \<and> snd e \<in> set queue) E)"
  using assms(2)
proof (induction queue)
  case (Cons q queue)
  have "length (filter (\<lambda>e. fst e = g \<and> snd e \<in> set (q # queue)) E) =
      length (filter (\<lambda>e. (fst e = g \<and> snd e \<in> set (q # queue)) \<and> snd e = q) E) +
      length (filter (\<lambda>e. (fst e = g \<and> snd e \<in> set (q # queue)) \<and> \<not> snd e = q) E)"
    by (rule length_filter_split)
  also have "filter (\<lambda>e. (fst e = g \<and> snd e \<in> set (q # queue)) \<and> snd e = q) E = filter (\<lambda>e. e = (g, q)) E"
    by (rule filter_cong) auto
  also have "filter (\<lambda>e. (fst e = g \<and> snd e \<in> set (q # queue)) \<and> \<not> snd e = q) E =
      filter (\<lambda>e. fst e = g \<and> snd e \<in> set queue) E"
    by (rule filter_cong) (use Cons.prems in auto)
  finally show ?case using Cons assms(1) [of q g] by simp
qed simp

lemma layers_layered:
  assumes "\<And>d g. count_list (dget_or dependents d []) g = length (filter (\<lambda>e. e = (g, d)) (edges_of (items groups)))"
    and "\<And>g. dget_or deg g 0 = int (open_deps groups P g)" and "set queue = due groups P" and "distinct queue"
    and "\<And>g d. g \<in> P \<Longrightarrow> needs groups g d \<Longrightarrow> d \<in> P"
  shows "layered groups P (layers_from dependents queue deg)"
  using assms
proof (induction dependents queue deg arbitrary: P rule: layers_from.induct)
  case (1 dependents queue deg)
  show ?case
  proof (cases "queue = []")
    case True
    with "1.prems"(3) show ?thesis by (simp add: layers_from.simps)
  next
    case False
    let ?s = "fold (release_dependents dependents) queue (deg, [])" and ?P = "P \<union> set queue"
    let ?xs = "concat (map (\<lambda>q. dget_or dependents q []) queue)"
    have disj: "set queue \<inter> P = {}" using "1.prems"(3) by (auto simp: due_def)
    have split: "open_deps groups P g = open_deps groups ?P g + count_list ?xs g" for g
    proof -
      have "filter (\<lambda>e. (fst e = g \<and> snd e \<notin> P) \<and> snd e \<in> set queue) (edges_of (items groups)) =
          filter (\<lambda>e. fst e = g \<and> snd e \<in> set queue) (edges_of (items groups))"
        by (rule filter_cong) (use disj in auto)
      moreover have "filter (\<lambda>e. (fst e = g \<and> snd e \<notin> P) \<and> snd e \<notin> set queue) (edges_of (items groups)) =
          filter (\<lambda>e. fst e = g \<and> snd e \<notin> ?P) (edges_of (items groups))"
        by (rule filter_cong) auto
      ultimately show ?thesis
        using length_filter_split [of "\<lambda>e. fst e = g \<and> snd e \<notin> P" "edges_of (items groups)" "\<lambda>e. snd e \<in> set queue"]
          released_count [OF "1.prems"(1) "1.prems"(4), of g] by (simp add: open_deps_def)
    qed
    have "dget_or (fst ?s) g 0 = int (open_deps groups ?P g)" for g
      using "1.prems"(2) [of g] split [of g] by (simp add: release_layer release_fold(1))
    moreover have "g \<in> set (snd ?s) \<longleftrightarrow> g \<in> due groups ?P" for g
    proof -
      have "g \<in> set (snd ?s) \<longleftrightarrow> open_deps groups P g \<noteq> 0 \<and> open_deps groups ?P g = 0"
        using "1.prems"(2) [of g] split [of g] by (auto simp: release_layer release_fold(2))
      also have "\<dots> \<longleftrightarrow> g \<in> due groups ?P"
      proof
        assume l: "open_deps groups P g \<noteq> 0 \<and> open_deps groups ?P g = 0"
        then obtain d where d: "needs groups g d" "d \<notin> P" unfolding open_deps_0 by blast
        then have "g \<notin> ?P" using "1.prems"(3,5) by (auto simp: due_def)
        moreover have "g \<in> group_names groups" using d(1) needs_declared by (auto simp: group_names_def)
        ultimately show "g \<in> due groups ?P" using l unfolding open_deps_0 by (simp add: due_def)
      next
        assume r: "g \<in> due groups ?P"
        then have "g \<notin> due groups P" using "1.prems"(3) by (auto simp: due_def)
        with r show "open_deps groups P g \<noteq> 0 \<and> open_deps groups ?P g = 0"
          unfolding open_deps_0 by (auto simp: due_def)
      qed
      finally show ?thesis .
    qed
    moreover have "distinct (snd ?s)" by (simp add: release_layer release_fold(3))
    moreover have "d \<in> ?P" if "g \<in> ?P" "needs groups g d" for g d
      using that "1.prems"(3,5) by (auto simp: due_def)
    ultimately have "layered groups ?P (layers_from dependents (snd ?s) (fst ?s))"
      using "1.IH" [OF False refl, of ?P] "1.prems"(1) by blast
    with False "1.prems"(3,4) show ?thesis by (subst layers_from.simps) (simp add: Let_def)
  qed
qed

lemma sorted_layered: "layered groups {} (topological_sort_groups groups)"
proof (cases "groups = []")
  case True
  then show ?thesis by (simp add: topological_sort_groups_def due_def group_names_def needs_def dget_or_def)
next
  case False
  obtain deg dependents where d: "degrees groups = (deg, dependents)" by (cases "degrees groups")
  note c = countedD [OF degrees_counted [of groups], unfolded d fst_conv snd_conv]
  have deg: "dget_or deg g 0 = int (open_deps groups {} g)" for g using c(1) [of g] by (simp add: open_deps_def)
  have "layered groups {} (layers_from dependents (filter (\<lambda>g. dget_or deg g 0 = 0) (dkeys deg)) deg)"
  proof (rule layers_layered)
    show "set (filter (\<lambda>g. dget_or deg g 0 = 0) (dkeys deg)) = due groups {}"
    proof (rule set_eqI)
      fix g
      have "g \<in> set (filter (\<lambda>g. dget_or deg g 0 = 0) (dkeys deg)) \<longleftrightarrow> dget deg g \<noteq> None \<and> open_deps groups {} g = 0"
        using deg [of g] dget_None_iff [of deg g] by auto
      also have "\<dots> \<longleftrightarrow> g \<in> due groups {}" unfolding c(2) open_deps_0 by (simp add: due_def)
      finally show "g \<in> set (filter (\<lambda>g. dget_or deg g 0 = 0) (dkeys deg)) \<longleftrightarrow> g \<in> due groups {}" .
    qed
  qed (use c(3,4) deg in \<open>auto simp: distinct_map\<close>)
  with False d show ?thesis by (simp add: topological_sort_groups_def)
qed

lemma layered_order:
  assumes "layered groups P layers"
  shows "distinct (concat layers)" "set (concat layers) \<inter> P = {}" "due groups (P \<union> set (concat layers)) = {}"
    "set (concat layers) \<subseteq> group_names groups"
    "i < length layers \<Longrightarrow> g \<in> set (layers ! i) \<Longrightarrow> needs groups g d \<Longrightarrow>
       d \<in> P \<or> (\<exists>k < i. d \<in> set (layers ! k))"
proof -
  have "distinct (concat layers) \<and> set (concat layers) \<inter> P = {} \<and> due groups (P \<union> set (concat layers)) = {} \<and>
    set (concat layers) \<subseteq> group_names groups \<and>
    (\<forall>i g d. i < length layers \<longrightarrow> g \<in> set (layers ! i) \<longrightarrow> needs groups g d \<longrightarrow>
       d \<in> P \<or> (\<exists>k < i. d \<in> set (layers ! k)))"
    using assms
  proof (induction groups P layers rule: layered.induct)
    case (2 groups P layer layers)
    from "2.prems" have l: "distinct layer" "set layer = due groups P" "layered groups (P \<union> set layer) layers"
      unfolding layered.simps by blast+
    note IH = "2.IH" [OF l(3)]
    have "d \<in> P \<or> (\<exists>k < i. d \<in> set ((layer # layers) ! k))"
      if "i < length (layer # layers)" "g \<in> set ((layer # layers) ! i)" "needs groups g d" for i g d
    proof (cases i)
      case 0
      with that(2,3) l(2) show ?thesis by (auto simp: due_def)
    next
      case (Suc k)
      with that IH have "d \<in> P \<union> set layer \<or> (\<exists>k' < k. d \<in> set (layers ! k'))" by simp
      then show ?thesis
      proof (elim disjE exE conjE UnE)
        fix k' assume "k' < k" "d \<in> set (layers ! k')"
        with Suc show ?thesis by (intro disjI2 exI [of _ "Suc k'"]) simp
      qed (use Suc in \<open>auto intro!: disjI2 exI [of _ 0]\<close>)
    qed
    moreover have "set layer \<inter> P = {}" "set layer \<subseteq> group_names groups" using l(2) by (auto simp: due_def)
    ultimately show ?case using IH l(1) by (auto simp: Un_assoc)
  qed simp
  then show "distinct (concat layers)" "set (concat layers) \<inter> P = {}" "due groups (P \<union> set (concat layers)) = {}"
    "set (concat layers) \<subseteq> group_names groups"
    "i < length layers \<Longrightarrow> g \<in> set (layers ! i) \<Longrightarrow> needs groups g d \<Longrightarrow>
       d \<in> P \<or> (\<exists>k < i. d \<in> set (layers ! k))" by blast+
qed

subsection \<open>What the validator decides\<close>

text \<open>The validator searches like the check of a score, without the path.\<close>

definition verdict_of :: "'a search_result \<Rightarrow> (py_exn + 'a visit_state) option" where
  "verdict_of r = (case r of
      None \<Rightarrow> None
    | Some (Some cycle, s) \<Rightarrow> Some (Inl ValueError)
    | Some (None, s) \<Rightarrow> Some (Inr s))"

lemma visit_groups_search:
  assumes "\<And>g s. f g s = verdict_of (f' g s)"
  shows "visit_groups f gs s = verdict_of (first_cycle f' gs s)"
  by (induction gs arbitrary: s) (simp_all add: assms verdict_of_def split: option.splits)

lemma visit_group_search: "visit_group depth groups g s = verdict_of (visit_node depth groups g path s)"
proof (induction depth arbitrary: g s path)
  case (Suc depth)
  have "visit_groups (visit_group depth groups) ds s' =
      verdict_of (first_cycle (\<lambda>target. visit_node depth groups target (path @ [target])) ds s')" for ds s'
    by (rule visit_groups_search) (rule Suc.IH)
  then show ?case by (simp add: verdict_of_def split: option.split)
qed (simp add: verdict_of_def)

lemma undefined_iff: "undefined_group groups \<longleftrightarrow> (\<exists>g d. needs groups g d \<and> dget groups d = None)"
proof -
  have "undefined_group groups \<longleftrightarrow> (\<exists>g ds. dget groups g = Some ds \<and> (\<exists>d \<in> set ds. dget groups d = None))"
    by (simp add: undefined_group_def list_ex_iff Bex_def items_iff dget_None_iff)
  also have "\<dots> \<longleftrightarrow> (\<exists>g d. needs groups g d \<and> dget groups d = None)"
  proof -
    have "needs groups g d \<longleftrightarrow> (\<exists>ds. dget groups g = Some ds \<and> d \<in> set ds)" for g d
      by (cases "dget groups g") (simp_all add: needs_def dget_or_def)
    then show ?thesis by blast
  qed
  finally show ?thesis .
qed

lemma validate_decides:
  assumes "length groups < depth"
  shows "validate_groups depth groups =
    Some (if undefined_group groups \<or> \<not> acyclic {(g, d). needs groups g d} then Inl ValueError else Inr ())"
proof (cases "undefined_group groups")
  case False
  let ?U = "set (dkeys groups)"
  have "set (dkeys (items groups)) = ?U" by (metis dom_clearjunk dom_map_of_conv_image_fst list.set_map)
  moreover have "card ?U < depth" using assms card_length [of "dkeys groups"] by simp
  moreover have "needs groups n p \<Longrightarrow> n \<in> ?U \<and> p \<in> ?U" for n p
    using False needs_declared [of groups n p] unfolding undefined_iff dget_None_iff by blast
  ultimately have "case first_cycle (\<lambda>g. visit_node depth groups g [g]) (dkeys (items groups)) ([], []) of
      None \<Rightarrow> False
    | Some (None, s) \<Rightarrow> acyclic {(g, d). needs groups g d}
    | Some (Some cycle, s) \<Rightarrow> \<not> acyclic {(g, d). needs groups g d} \<and> reported groups cycle"
    by (intro search_decides [where U = ?U]) auto
  moreover have "visit_groups (visit_group depth groups) (dkeys (items groups)) ([], []) =
      verdict_of (first_cycle (\<lambda>g. visit_node depth groups g [g]) (dkeys (items groups)) ([], []))"
    by (rule visit_groups_search) (rule visit_group_search)
  ultimately show ?thesis using False
    by (auto simp: validate_groups_def verdict_of_def split: option.splits)
qed (simp add: validate_groups_def)

text \<open>Without a cycle every group ends up in a layer.\<close>

lemma acyclic_layers:
  assumes "acyclic {(g, d). needs groups g d}"
  shows "set (concat (topological_sort_groups groups)) = group_names groups"
proof -
  let ?all = "set (concat (topological_sort_groups groups))"
  note order = layered_order [OF sorted_layered]
  have "finite {(d, g). needs groups g d}"
    by (rule finite_subset [of _ "(\<lambda>(g, d). (d, g)) ` set (edges_of (items groups))"]) (auto simp: needs_edge)
  moreover have "acyclic {(d, g). needs groups g d}"
  proof -
    have "{(d, g). needs groups g d} = {(g, d). needs groups g d}\<inverse>" by auto
    with assms show ?thesis by (simp add: acyclic_converse)
  qed
  ultimately have wf: "wf {(d, g). needs groups g d}" by (rule finite_acyclic_wf)
  have "g \<in> ?all" if "g \<in> group_names groups" for g
    using wf that
  proof (induction g rule: wf_induct_rule)
    case (less g)
    have "d \<in> ?all" if "needs groups g d" for d
      using less.IH [of d] that by (auto simp: group_names_def)
    with less.prems have "g \<notin> ?all \<Longrightarrow> g \<in> due groups ({} \<union> ?all)" unfolding due_def by blast
    with order(3) [of groups] show ?case by blast
  qed
  with order(4) show ?thesis by blast
qed

text \<open>A fleet whose builders wait for two architects, and its reviewers for the builders.\<close>

definition crew :: groups where
  "crew = [(''architects'', []), (''builders'', [''architects'']), (''reviewers'', [''builders'', ''architects'']), (''scouts'', [])]"

lemma crew_runs:
  "validate_groups 5 crew = Some (Inr ())"
  "topological_sort_groups crew = [[''architects'', ''scouts''], [''builders''], [''reviewers'']]"
  "validate_groups 5 [(''a'', [''b'']), (''b'', [''a''])] = Some (Inl ValueError)"
  "topological_sort_groups [(''a'', [''b'']), (''b'', [''a'']), (''c'', [])] = [[''c'']]"
  by code_simp+

text \<open>
  C14. The validator of a fleet ends within a recursion as deep as the number of groups, and
  rejects exactly the declarations that name an undefined group or contain a cycle. The groups
  of an accepted fleet are sorted into layers: every group is in exactly one, and all groups
  it depends on are in earlier ones.
\<close>

theorem fleet_groups_are_layered:
  assumes "length groups < depth"
  shows "validate_groups depth groups =
      Some (if undefined_group groups \<or> \<not> acyclic {(g, d). needs groups g d} then Inl ValueError else Inr ()) \<and>
    (validate_groups depth groups = Some (Inr ()) \<longrightarrow>
       distinct (concat (topological_sort_groups groups)) \<and>
       set (concat (topological_sort_groups groups)) = set (dkeys groups) \<and>
       (\<forall>i < length (topological_sort_groups groups). \<forall>g \<in> set (topological_sort_groups groups ! i).
          \<forall>d \<in> set (dget_or groups g []). \<exists>k < i. d \<in> set (topological_sort_groups groups ! k)))"
proof -
  note valid = validate_decides [OF assms] and order = layered_order [OF sorted_layered [of groups]]
  have "set (concat (topological_sort_groups groups)) = set (dkeys groups)"
    if "\<not> undefined_group groups" "acyclic {(g, d). needs groups g d}"
  proof -
    have "group_names groups = set (dkeys groups)"
      using that(1) needs_declared unfolding group_names_def undefined_iff dget_None_iff by blast
    with acyclic_layers [OF that(2)] show ?thesis by simp
  qed
  moreover have "\<exists>k < i. d \<in> set (topological_sort_groups groups ! k)"
    if "i < length (topological_sort_groups groups)" "g \<in> set (topological_sort_groups groups ! i)"
      "d \<in> set (dget_or groups g [])" for i g d
    using order(5) [OF that(1,2), of d] that(3) by (simp add: needs_def)
  ultimately show ?thesis using valid order(1) by (simp split: if_splits)
qed

lemma fleet_groups_are_layered_witness:
  "distinct (concat (topological_sort_groups crew)) \<and> set (concat (topological_sort_groups crew)) = set (dkeys crew)"
  using fleet_groups_are_layered [of crew 5] crew_runs(1) by (simp add: crew_def)

subsection \<open>Launching\<close>

text \<open>\<open>DaemonJobStatus\<close>; what a dependency counts as finished, and as finished well.\<close>

datatype daemon_status = D_QUEUED | D_RUNNING | D_COMPLETED | D_PAUSED | D_PAUSED_AT_CHAIN | D_FAILED
  | D_CANCELLED | D_PENDING

definition fleet_success :: "daemon_status list" where
  "fleet_success = [D_COMPLETED, D_PAUSED_AT_CHAIN]"

definition fleet_terminal :: "daemon_status list" where
  "fleet_terminal = [D_COMPLETED, D_FAILED, D_CANCELLED, D_PAUSED, D_PAUSED_AT_CHAIN]"

text \<open>
  What happens in the order in which it happens: a score is submitted to the manager, which
  accepts it under a job id or rejects it; the coordinator reads the statuses of the jobs; a
  layer of groups is launched. The statuses it reads are those of a snapshot of the manager.
\<close>

type_synonym snapshot = "string \<Rightarrow> daemon_status option"

datatype fleet_event =
    Launched "string list"
  | Submitted string "string option"
  | Polled snapshot

record fleet_run =
  fr_member_jobs :: "(string, string) dict"
  fr_events :: "fleet_event list"

text \<open>The manager may answer a submission as it likes, given all that has happened.\<close>

type_synonym manager_answer = "fleet_event list \<Rightarrow> string \<Rightarrow> string option"

definition submit_score_batch :: "manager_answer \<Rightarrow> string list \<Rightarrow> fleet_run \<Rightarrow> bool list \<times> fleet_run" where
  "submit_score_batch answer paths fr =
     (let results = map (answer (fr_events fr)) paths
      in (map (\<lambda>r. r \<noteq> None) results,
          \<lparr>fr_member_jobs = fold (\<lambda>(p, r) d. case r of None \<Rightarrow> d | Some job \<Rightarrow> dset d p job)
              (zip paths results) (fr_member_jobs fr),
           fr_events = fr_events fr @ map2 Submitted paths results\<rparr>))"

definition scores_by_group :: "fleet_config \<Rightarrow> groups" where
  "scores_by_group c =
     fold (\<lambda>(path, group) d. case group of
           Some (x # xs) \<Rightarrow> dset d (x # xs) (dget_or d (x # xs) [] @ [path])
         | _ \<Rightarrow> d) (fc_scores c) []"

definition ungrouped_scores :: "fleet_config \<Rightarrow> string list" where
  "ungrouped_scores c = map fst (filter (\<lambda>(path, group). group = None \<or> group = Some []) (fc_scores c))"

definition submit_group_layer :: "manager_answer \<Rightarrow> groups \<Rightarrow> string list \<Rightarrow> fleet_run \<Rightarrow> fleet_run" where
  "submit_group_layer answer by_group layer fr =
     (let fr = fr\<lparr>fr_events := fr_events fr @ [Launched layer]\<rparr>;
          layer_scores = concat (map (\<lambda>g. dget_or by_group g []) layer)
      in if layer_scores = [] then fr else snd (submit_score_batch answer layer_scores fr))"

text \<open>
  One look of \<open>_wait_for_dependency_groups\<close> at the statuses: finished well, finished badly, or
  sleep. A score without a job has no status.
\<close>

definition dependency_statuses :: "fleet_run \<Rightarrow> string list \<Rightarrow> snapshot \<Rightarrow> daemon_status option list" where
  "dependency_statuses fr paths snap =
     map (\<lambda>p. case dget (fr_member_jobs fr) p of
            Some (x # xs) \<Rightarrow> snap (x # xs)
          | _ \<Rightarrow> None) paths"

definition wait_verdict :: "daemon_status option list \<Rightarrow> bool option" where
  "wait_verdict statuses =
     (if list_all (\<lambda>s. s \<in> Some ` set fleet_success) statuses then Some True
      else if list_ex (\<lambda>s. s \<in> Some ` set fleet_terminal \<and> s \<notin> Some ` set fleet_success) statuses then Some False
      else None)"

text \<open>The polling loop over the snapshots it gets to see; None when they run out first.\<close>

fun poll :: "string list \<Rightarrow> snapshot list \<Rightarrow> fleet_run \<Rightarrow> (bool \<times> snapshot list) option \<times> fleet_run" where
  "poll paths [] fr = (None, fr)"
| "poll paths (snap # snaps) fr =
     (let fr' = fr\<lparr>fr_events := fr_events fr @ [Polled snap]\<rparr>
      in case wait_verdict (dependency_statuses fr paths snap) of
           Some ok \<Rightarrow> (Some (ok, snaps), fr')
         | None \<Rightarrow> poll paths snaps fr')"

definition wait_for_dependency_groups ::
  "groups \<Rightarrow> string list \<Rightarrow> snapshot list \<Rightarrow> fleet_run \<Rightarrow> (bool \<times> snapshot list) option \<times> fleet_run" where
  "wait_for_dependency_groups by_group dependency_groups snaps fr =
     (let paths = concat (map (\<lambda>g. dget_or by_group g []) dependency_groups)
      in if paths = [] then (Some (True, snaps), fr) else poll paths snaps fr)"

text \<open>The groups of a layer are awaited one after the other; the ready ones are launched together.\<close>

fun await_layer :: "groups \<Rightarrow> groups \<Rightarrow> string list \<Rightarrow> snapshot list \<Rightarrow> fleet_run
    \<Rightarrow> (string list \<times> snapshot list) option \<times> fleet_run" where
  "await_layer groups by_group [] snaps fr = (Some ([], snaps), fr)"
| "await_layer groups by_group (g # layer) snaps fr =
     (case wait_for_dependency_groups by_group (remdups (dget_or groups g [])) snaps fr of
        (None, fr) \<Rightarrow> (None, fr)
      | (Some (ok, snaps), fr) \<Rightarrow>
          (case await_layer groups by_group layer snaps fr of
             (None, fr) \<Rightarrow> (None, fr)
           | (Some (ready, snaps), fr) \<Rightarrow> (Some (if ok then g # ready else ready, snaps), fr)))"

text \<open>The coordinator task; whether it has come to its end.\<close>

fun submit_dependent_group_layers :: "manager_answer \<Rightarrow> groups \<Rightarrow> groups \<Rightarrow> string list list \<Rightarrow> snapshot list
    \<Rightarrow> fleet_run \<Rightarrow> bool \<times> fleet_run" where
  "submit_dependent_group_layers answer groups by_group [] snaps fr = (True, fr)"
| "submit_dependent_group_layers answer groups by_group (layer # layers) snaps fr =
     (case await_layer groups by_group layer snaps fr of
        (None, fr) \<Rightarrow> (False, fr)
      | (Some (ready, snaps), fr) \<Rightarrow>
          submit_dependent_group_layers answer groups by_group layers snaps
            (submit_group_layer answer by_group ready fr))"

text \<open>\<open>submit_fleet\<close> and the coordinator it starts: accepted or not, and what has happened.\<close>

definition submit_fleet :: "manager_answer \<Rightarrow> fleet_config \<Rightarrow> snapshot list \<Rightarrow> bool \<times> fleet_run" where
  "submit_fleet answer c snaps =
     (let layers = topological_sort_groups (fc_groups c);
          by_group = scores_by_group c;
          fr = \<lparr>fr_member_jobs = [], fr_events = []\<rparr>;
          (results, fr1) = (if ungrouped_scores c = [] then ([], fr)
                            else submit_score_batch answer (ungrouped_scores c) fr)
      in if \<not> list_all id results then (False, fr1)
         else
           let fr2 = submit_group_layer answer by_group (case layers of [] \<Rightarrow> [] | l # ls \<Rightarrow> l) fr1
           in (True, snd (submit_dependent_group_layers answer (fc_groups c) by_group (tl layers) snaps fr2)))"

subsection \<open>Groups wait\<close>

text \<open>
  A score has been seen done: it was submitted and accepted under a job, and later a snapshot
  showed that job completed or held at its chain.
\<close>

definition seen_done :: "string \<Rightarrow> fleet_event list \<Rightarrow> bool" where
  "seen_done p xs \<longleftrightarrow> (\<exists>before between after job snap.
     xs = before @ Submitted p (Some job) # between @ Polled snap # after \<and> snap job \<in> Some ` set fleet_success)"

definition group_done :: "groups \<Rightarrow> string \<Rightarrow> fleet_event list \<Rightarrow> bool" where
  "group_done by_group d xs \<longleftrightarrow> (\<forall>p \<in> set (dget_or by_group d []). seen_done p xs)"

definition launches_wait :: "groups \<Rightarrow> groups \<Rightarrow> fleet_event list \<Rightarrow> bool" where
  "launches_wait groups by_group events \<longleftrightarrow>
     (\<forall>before layer after g d. events = before @ Launched layer # after \<longrightarrow> g \<in> set layer \<longrightarrow>
        needs groups g d \<longrightarrow> group_done by_group d before)"

text \<open>The jobs the fleet knows were accepted, and launches have waited.\<close>

definition fleet_ok :: "groups \<Rightarrow> groups \<Rightarrow> fleet_run \<Rightarrow> bool" where
  "fleet_ok groups by_group fr \<longleftrightarrow> launches_wait groups by_group (fr_events fr) \<and>
     (\<forall>p job. dget (fr_member_jobs fr) p = Some job \<longrightarrow> Submitted p (Some job) \<in> set (fr_events fr))"

lemma seen_later: "seen_done p xs \<Longrightarrow> seen_done p (xs @ ys)"
  unfolding seen_done_def by (metis append.assoc append_Cons)

lemma done_later: "group_done by_group d xs \<Longrightarrow> group_done by_group d (xs @ ys)"
  by (simp add: group_done_def seen_later)

lemma launches_append:
  assumes "launches_wait groups by_group xs"
    and "\<And>before layer after g d. ys = before @ Launched layer # after \<Longrightarrow> g \<in> set layer \<Longrightarrow> needs groups g d \<Longrightarrow>
      group_done by_group d (xs @ before)"
  shows "launches_wait groups by_group (xs @ ys)"
  unfolding launches_wait_def
proof (intro allI impI)
  fix before layer after g d
  assume eq: "xs @ ys = before @ Launched layer # after" and g: "g \<in> set layer" "needs groups g d"
  from eq consider us where "xs = before @ us" "us @ ys = Launched layer # after"
    | us where "before = xs @ us" "ys = us @ Launched layer # after"
    by (auto simp: append_eq_append_conv2)
  then show "group_done by_group d before"
  proof cases
    case 1
    show ?thesis
    proof (cases us)
      case Nil
      with 1 g assms(2) [of "[]" layer after g d] show ?thesis by simp
    next
      case (Cons u us')
      with 1 g assms(1) show ?thesis by (auto simp: launches_wait_def)
    qed
  next
    case 2
    with assms(2) g show ?thesis by blast
  qed
qed

lemma polled_ok:
  assumes "fleet_ok groups by_group fr"
  shows "fleet_ok groups by_group (fr\<lparr>fr_events := fr_events fr @ [Polled snap]\<rparr>)"
proof -
  have "launches_wait groups by_group (fr_events fr @ [Polled snap])"
    using assms by (intro launches_append) (auto simp: fleet_ok_def append_eq_Cons_conv Cons_eq_append_conv)
  with assms show ?thesis by (auto simp: fleet_ok_def)
qed

text \<open>What waiting leaves behind: it only polls, and what it reports finished was seen done.\<close>

definition waited :: "groups \<Rightarrow> groups \<Rightarrow> string list \<Rightarrow> fleet_run \<Rightarrow> fleet_run \<Rightarrow> bool" where
  "waited groups by_group paths fr fr' \<longleftrightarrow> fleet_ok groups by_group fr' \<and>
     (\<exists>more. fr_events fr' = fr_events fr @ more) \<and> (\<forall>p \<in> set paths. seen_done p (fr_events fr'))"

lemma waited_trans:
  assumes "waited groups by_group ps fr fr'" and "waited groups by_group qs fr' fr''"
  shows "waited groups by_group (ps @ qs) fr fr''"
proof -
  obtain m m' where "fr_events fr' = fr_events fr @ m" "fr_events fr'' = fr_events fr' @ m'"
    using assms by (auto simp: waited_def)
  with assms seen_later [of _ "fr_events fr @ m" m'] show ?thesis by (auto simp: waited_def)
qed

lemma poll_waits:
  "fleet_ok groups by_group fr \<Longrightarrow> poll paths snaps fr = (r, fr') \<Longrightarrow>
     waited groups by_group (case r of Some (True, _) \<Rightarrow> paths | _ \<Rightarrow> []) fr fr'"
proof (induction paths snaps fr rule: poll.induct)
  case (2 paths snap snaps fr)
  let ?fr = "fr\<lparr>fr_events := fr_events fr @ [Polled snap]\<rparr>"
  note ok = polled_ok [OF "2.prems"(1), of snap]
  show ?case
  proof (cases "wait_verdict (dependency_statuses fr paths snap)")
    case None
    with "2.prems"(2) have "poll paths snaps ?fr = (r, fr')" by (simp add: Let_def)
    from "2.IH" [OF refl None ok this] show ?thesis by (auto simp: waited_def)
  next
    case (Some success)
    with "2.prems"(2) have r: "r = Some (success, snaps)" "fr' = ?fr" by (auto simp: Let_def)
    have "seen_done p (fr_events ?fr)" if success: success and p: "p \<in> set paths" for p
    proof -
      from Some success have "list_all (\<lambda>s. s \<in> Some ` set fleet_success) (dependency_statuses fr paths snap)"
        by (simp add: wait_verdict_def split: if_splits)
      with p have "(case dget (fr_member_jobs fr) p of Some (x # xs) \<Rightarrow> snap (x # xs) | _ \<Rightarrow> None) \<in> Some ` set fleet_success"
        by (simp add: dependency_statuses_def list_all_iff)
      then obtain job where job: "dget (fr_member_jobs fr) p = Some job" "snap job \<in> Some ` set fleet_success"
        using that by (cases "dget (fr_member_jobs fr) p") (auto split: list.splits)
      with "2.prems"(1) have "Submitted p (Some job) \<in> set (fr_events fr)" by (simp add: fleet_ok_def)
      then obtain before between where "fr_events fr = before @ Submitted p (Some job) # between" by (meson split_list)
      then have "fr_events ?fr = before @ Submitted p (Some job) # between @ Polled snap # []" by simp
      with job(2) show ?thesis unfolding seen_done_def by blast
    qed
    with ok r show ?thesis by (auto simp: waited_def split: bool.splits)
  qed
qed (simp add: waited_def)

lemma wait_waits:
  assumes "fleet_ok groups by_group fr" and "wait_for_dependency_groups by_group ds snaps fr = (r, fr')"
  shows "waited groups by_group (case r of Some (True, _) \<Rightarrow> concat (map (\<lambda>g. dget_or by_group g []) ds) | _ \<Rightarrow> []) fr fr'"
  using assms poll_waits [OF assms(1), of "concat (map (\<lambda>g. dget_or by_group g []) ds)" snaps r fr']
  by (auto simp: wait_for_dependency_groups_def Let_def waited_def split: if_splits)

lemma await_waits:
  "fleet_ok groups by_group fr \<Longrightarrow> await_layer groups by_group layer snaps fr = (r, fr') \<Longrightarrow>
     waited groups by_group
       (case r of None \<Rightarrow> []
        | Some (ready, _) \<Rightarrow> concat (map (\<lambda>g. concat (map (\<lambda>d. dget_or by_group d []) (dget_or groups g []))) ready)) fr fr'"
proof (induction layer arbitrary: snaps fr r fr')
  case (Cons g layer)
  let ?ds = "remdups (dget_or groups g [])"
  obtain w fr1 where w: "wait_for_dependency_groups by_group ?ds snaps fr = (w, fr1)" by fastforce
  note first = wait_waits [OF Cons.prems(1) w]
  show ?case
  proof (cases w)
    case None
    with w first Cons.prems(2) show ?thesis by simp
  next
    case (Some x)
    obtain success snaps1 where x: "x = (success, snaps1)" by (cases x)
    obtain r2 fr2 where a: "await_layer groups by_group layer snaps1 fr1 = (r2, fr2)" by fastforce
    from first have "fleet_ok groups by_group fr1" by (simp add: waited_def)
    note rest = Cons.IH [OF this a]
    from w a Some x Cons.prems(2) have r: "fr' = fr2"
      "r = (case r2 of None \<Rightarrow> None | Some (ready, snaps2) \<Rightarrow> Some (if success then g # ready else ready, snaps2))"
      by (auto split: option.splits)
    from waited_trans [OF first rest] r Some x show ?thesis
      by (cases success; cases r2) (auto simp: waited_def split: prod.splits)
  qed
qed (auto simp: waited_def)

lemma fold_jobs:
  "dget (fold (\<lambda>(p, r) d. case r of None \<Rightarrow> d | Some job \<Rightarrow> dset d p job) prs d) p = Some job \<Longrightarrow>
     dget d p = Some job \<or> (p, Some job) \<in> set prs"
proof (induction prs arbitrary: d)
  case (Cons x prs)
  obtain q r where x: "x = (q, r)" by (cases x)
  from Cons.prems have "dget (case r of None \<Rightarrow> d | Some job \<Rightarrow> dset d q job) p = Some job \<or> (p, Some job) \<in> set prs"
    by (intro Cons.IH) (simp add: x)
  then show ?case by (cases r; cases "p = q") (auto simp: x)
qed simp

lemma batch_ok:
  assumes "fleet_ok groups by_group fr"
  shows "fleet_ok groups by_group (snd (submit_score_batch answer paths fr))"
proof -
  let ?rs = "map (answer (fr_events fr)) paths"
  have "launches_wait groups by_group (fr_events fr @ map2 Submitted paths ?rs)"
  proof (rule launches_append)
    show "launches_wait groups by_group (fr_events fr)" using assms by (simp add: fleet_ok_def)
    fix before layer after g d
    assume "map2 Submitted paths ?rs = before @ Launched layer # after"
    then have "Launched layer \<in> set (map2 Submitted paths ?rs)" by simp
    then show "group_done by_group d (fr_events fr @ before)" by auto
  qed
  moreover have "(p, r) \<in> set (zip paths ?rs) \<Longrightarrow> Submitted p r \<in> set (map2 Submitted paths ?rs)" for p r by force
  ultimately show ?thesis using assms
    by (auto simp: fleet_ok_def submit_score_batch_def Let_def simp del: map_of_eq_Some_iff dest!: fold_jobs)
qed

text \<open>Launching a layer of groups whose dependencies were seen done.\<close>

lemma layer_ok:
  assumes "fleet_ok groups by_group fr"
    and "\<And>g d. g \<in> set layer \<Longrightarrow> needs groups g d \<Longrightarrow> group_done by_group d (fr_events fr)"
  shows "fleet_ok groups by_group (submit_group_layer answer by_group layer fr)"
proof -
  have "launches_wait groups by_group (fr_events fr @ [Launched layer])"
    by (rule launches_append) (use assms in \<open>auto simp: fleet_ok_def append_eq_Cons_conv Cons_eq_append_conv\<close>)
  with assms(1) have "fleet_ok groups by_group (fr\<lparr>fr_events := fr_events fr @ [Launched layer]\<rparr>)"
    by (auto simp: fleet_ok_def)
  then show ?thesis by (simp add: submit_group_layer_def Let_def batch_ok)
qed

lemma coordinator_ok:
  "fleet_ok groups by_group fr \<Longrightarrow>
     fleet_ok groups by_group (snd (submit_dependent_group_layers answer groups by_group layers snaps fr))"
proof (induction answer groups by_group layers snaps fr rule: submit_dependent_group_layers.induct)
  case (2 answer groups by_group layer layers snaps fr)
  obtain r fr' where a: "await_layer groups by_group layer snaps fr = (r, fr')" by fastforce
  note waits = await_waits [OF "2.prems" a]
  show ?case
  proof (cases r)
    case None
    with a waits show ?thesis by (simp add: waited_def)
  next
    case (Some x)
    obtain ready snaps' where x: "x = (ready, snaps')" by (cases x)
    have "fleet_ok groups by_group (submit_group_layer answer by_group ready fr')"
    proof (rule layer_ok)
      show "fleet_ok groups by_group fr'" using waits by (simp add: waited_def)
      show "group_done by_group d (fr_events fr')" if "g \<in> set ready" "needs groups g d" for g d
        using waits that Some x unfolding group_done_def by (auto simp: waited_def needs_def)
    qed
    from "2.IH" [OF a [symmetric] Some x [symmetric] this] a Some x show ?thesis by simp
  qed
qed simp

lemma fleet_run_ok: "fleet_ok (fc_groups c) (scores_by_group c) (snd (submit_fleet answer c snaps))"
proof -
  let ?groups = "fc_groups c" and ?by = "scores_by_group c" and ?layers = "topological_sort_groups (fc_groups c)"
  let ?first = "case ?layers of [] \<Rightarrow> [] | l # ls \<Rightarrow> l"
  obtain results fr1 where fr1: "(if ungrouped_scores c = [] then ([], \<lparr>fr_member_jobs = [], fr_events = []\<rparr>)
      else submit_score_batch answer (ungrouped_scores c) \<lparr>fr_member_jobs = [], fr_events = []\<rparr>) = (results, fr1)"
    by fastforce
  have "fleet_ok ?groups ?by \<lparr>fr_member_jobs = [], fr_events = []\<rparr>" by (simp add: fleet_ok_def launches_wait_def)
  with batch_ok [OF this, of answer "ungrouped_scores c"] fr1 have ok1: "fleet_ok ?groups ?by fr1"
    by (auto split: if_splits)
  have "\<not> needs ?groups g d" if "g \<in> set ?first" for g d
  proof (cases ?layers)
    case (Cons l ls)
    with sorted_layered [of ?groups] that have "g \<in> due ?groups {}" by simp
    then show ?thesis by (simp add: due_def)
  qed (use that in simp)
  then have "fleet_ok ?groups ?by (submit_group_layer answer ?by ?first fr1)" by (intro layer_ok [OF ok1]) blast
  from coordinator_ok [OF this] ok1 show ?thesis by (simp add: submit_fleet_def Let_def fr1)
qed

subsection \<open>Concrete fleets\<close>

text \<open>The manager accepts every score but one, under its own name.\<close>

definition accept_but :: "string \<Rightarrow> manager_answer" where
  "accept_but bad events p = (if p = bad then None else Some p)"

definition chain_fleet :: fleet_config where
  "chain_fleet = \<lparr>fc_name = ''f'', fc_scores = [(''s'', None), (''a1'', Some ''a''), (''b1'', Some ''b''), (''c1'', Some ''c'')],
     fc_groups = [(''a'', []), (''b'', [''a'']), (''c'', [''b''])]\<rparr>"

definition all_at :: "daemon_status \<Rightarrow> snapshot" where
  "all_at st job = Some st"

text \<open>Everything that can be seen of the events of a run, but for the snapshots themselves.\<close>

fun launches :: "fleet_event list \<Rightarrow> string list list" where
  "launches [] = []"
| "launches (Launched gs # es) = gs # launches es"
| "launches (e # es) = launches es"

lemma set_launches: "gs \<in> set (launches es) \<longleftrightarrow> Launched gs \<in> set es"
  by (induction es rule: launches.induct) auto

lemma chain_fleet_runs:
  "map_prod id (launches \<circ> fr_events) (submit_fleet (accept_but []) chain_fleet [all_at D_RUNNING, all_at D_COMPLETED, all_at D_COMPLETED]) =
     (True, [[''a''], [''b''], [''c'']])"
  "map_prod id (launches \<circ> fr_events) (submit_fleet (accept_but ''s'') chain_fleet []) = (False, [])"
  by code_simp+

text \<open>
  When the first group fails, or is only paused when the coordinator looks, the second is
  dropped for good, and the third waits for scores that are never submitted. A score in a group that is not declared is never submitted either.
\<close>

lemma failed_group_strands:
  "map_prod id (launches \<circ> fr_events) (submit_fleet (accept_but []) chain_fleet (replicate 5 (all_at D_FAILED))) =
     (True, [[''a''], []])"
  "map_prod id (launches \<circ> fr_events) (submit_fleet (accept_but []) chain_fleet (all_at D_PAUSED # replicate 5 (all_at D_COMPLETED))) =
     (True, [[''a''], []])"
  "map_prod id (fr_member_jobs) (submit_fleet (accept_but [])
     \<lparr>fc_name = ''f'', fc_scores = [(''x'', Some ''lost'')], fc_groups = []\<rparr> []) = (True, [])"
  by code_simp+

text \<open>
  A dependency without a job is never finished: if the scores with jobs do not fail, the
  coordinator waits however often it looks.
\<close>

lemma poll_strands:
  assumes "p \<in> set paths" and "dget (fr_member_jobs fr) p = None"
    and "\<And>snap s. snap \<in> set snaps \<Longrightarrow> s \<in> set (dependency_statuses fr paths snap) \<Longrightarrow>
      s \<in> Some ` set fleet_success \<or> s \<notin> Some ` set fleet_terminal"
  shows "fst (poll paths snaps fr) = None"
  using assms(2,3)
proof (induction snaps arbitrary: fr)
  case (Cons snap snaps)
  have "None \<in> set (dependency_statuses fr paths snap)"
    using assms(1) Cons.prems(1) by (force simp: dependency_statuses_def)
  then have "\<not> list_all (\<lambda>s. s \<in> Some ` set fleet_success) (dependency_statuses fr paths snap)"
    by (auto simp: list_all_iff)
  moreover have "\<not> list_ex (\<lambda>s. s \<in> Some ` set fleet_terminal \<and> s \<notin> Some ` set fleet_success) (dependency_statuses fr paths snap)"
    using Cons.prems(2) [of snap] by (auto simp: list_ex_iff)
  ultimately have "wait_verdict (dependency_statuses fr paths snap) = None" by (simp add: wait_verdict_def)
  moreover have "fst (poll paths snaps (fr\<lparr>fr_events := fr_events fr @ [Polled snap]\<rparr>)) = None"
  proof (rule Cons.IH)
    show "dget (fr_member_jobs (fr\<lparr>fr_events := fr_events fr @ [Polled snap]\<rparr>)) p = None" using Cons.prems(1) by simp
    show "s \<in> Some ` set fleet_success \<or> s \<notin> Some ` set fleet_terminal"
      if "snap' \<in> set snaps" "s \<in> set (dependency_statuses (fr\<lparr>fr_events := fr_events fr @ [Polled snap]\<rparr>) paths snap')"
      for snap' s
      by (rule Cons.prems(2) [of snap']) (use that in \<open>simp_all add: dependency_statuses_def\<close>)
  qed
  ultimately show ?case by (simp add: Let_def)
qed simp

text \<open>
  C13. The coordinator of a fleet never launches a group early: whatever the manager answers and
  the snapshots show, when a group is launched every score of every group it depends on was
  submitted and accepted before, and a later snapshot showed its job completed or held at its
  chain.
\<close>

theorem fleet_groups_wait:
  "let events = fr_events (snd (submit_fleet answer c snaps))
   in \<forall>before layer after. events = before @ Launched layer # after \<longrightarrow>
        (\<forall>g \<in> set layer. \<forall>d \<in> set (dget_or (fc_groups c) g []). \<forall>p \<in> set (dget_or (scores_by_group c) d []).
           seen_done p before)"
  using fleet_run_ok [of c answer snaps] unfolding Let_def fleet_ok_def launches_wait_def group_done_def needs_def by blast

lemma fleet_groups_wait_witness:
  "\<exists>before after. fr_events (snd (submit_fleet (accept_but []) chain_fleet [all_at D_COMPLETED, all_at D_COMPLETED])) =
     before @ Launched [''c''] # after \<and> seen_done ''b1'' before"
proof -
  let ?events = "fr_events (snd (submit_fleet (accept_but []) chain_fleet [all_at D_COMPLETED, all_at D_COMPLETED]))"
  have "launches ?events = [[''a''], [''b''], [''c'']]" by code_simp
  then have "Launched [''c''] \<in> set ?events" by (simp flip: set_launches)
  then obtain before after where "?events = before @ Launched [''c''] # after" by (meson split_list)
  with fleet_groups_wait [of "accept_but []" chain_fleet "[all_at D_COMPLETED, all_at D_COMPLETED]"]
  have "\<forall>g \<in> set [''c'']. \<forall>d \<in> set (dget_or (fc_groups chain_fleet) g []).
      \<forall>p \<in> set (dget_or (scores_by_group chain_fleet) d []). seen_done p before"
    unfolding Let_def by blast
  moreover have "''b'' \<in> set (dget_or (fc_groups chain_fleet) ''c'' [])" "''b1'' \<in> set (dget_or (scores_by_group chain_fleet) ''b'' [])"
    by code_simp+
  ultimately show ?thesis using \<open>?events = before @ Launched [''c''] # after\<close> by auto
qed

end
