(* ===== verification/Admission.thy ===== *)
theory Admission
  imports Fleet
begin

section \<open>The admission desk of the job manager\<close>

text \<open>
  \<open>JobManager\<close> (\<open>daemon/manager.py\<close>) lets one task at a time activate, pause, resume or cancel a
  job, and one at a time change the life cycle of a schedule: counted reservations, owned by a
  task and reentrant. A task that finds a job reserved is turned away, or sleeps until the
  reservation it saw is released. Between two awaits a task runs alone, so a run is a sequence
  of the operations of the tasks in any order. Tasks are numbers.
\<close>

record reservation =
  rv_owner :: nat
  rv_depth :: int
  rv_released :: nat

record desk =
  dk_jobs :: "(string, reservation) dict"
  dk_schedules :: "(string, reservation) dict"
  dk_lineage :: "(string, int) dict"
  dk_meta :: "(string, daemon_status \<times> string option) dict"
  dk_next :: nat
  dk_signals :: "nat list"

definition new_desk :: desk where
  "new_desk = \<lparr>dk_jobs = [], dk_schedules = [], dk_lineage = [], dk_meta = [], dk_next = 0, dk_signals = []\<rparr>"

definition is_schedule_active :: "string \<Rightarrow> desk \<Rightarrow> bool" where
  "is_schedule_active schedule d \<longleftrightarrow>
     0 < dget_or (dk_lineage d) schedule 0 \<or>
     list_ex (\<lambda>(st, sch). sch = Some schedule \<and> st \<in> {D_PENDING, D_QUEUED, D_RUNNING}) (dvals (items (dk_meta d)))"

subsection \<open>Jobs\<close>

definition try_reserve_job_admission :: "nat \<Rightarrow> string \<Rightarrow> bool \<Rightarrow> desk \<Rightarrow> bool \<times> desk" where
  "try_reserve_job_admission task job allow_active d =
     (case dget (dk_jobs d) job of
        Some rv \<Rightarrow>
          if rv_owner rv \<noteq> task then (False, d)
          else (True, d\<lparr>dk_jobs := dset (dk_jobs d) job (rv\<lparr>rv_depth := rv_depth rv + 1\<rparr>)\<rparr>)
      | None \<Rightarrow>
          if \<not> allow_active \<and> (case dget (dk_meta d) job of
                None \<Rightarrow> False | Some (st, _) \<Rightarrow> st \<in> {D_PENDING, D_QUEUED, D_RUNNING})
          then (False, d)
          else (True, d\<lparr>dk_jobs := dset (dk_jobs d) job \<lparr>rv_owner = task, rv_depth = 1, rv_released = dk_next d\<rparr>,
                        dk_next := dk_next d + 1\<rparr>))"

definition release_job_admission :: "nat \<Rightarrow> string \<Rightarrow> (desk, unit) act" where
  "release_job_admission task job =
     bnd get_st (\<lambda>d. case dget (dk_jobs d) job of
        None \<Rightarrow> throw RuntimeError
      | Some rv \<Rightarrow>
          if rv_owner rv \<noteq> task then throw RuntimeError
          else if rv_depth rv - 1 = 0
          then modify (\<lambda>d. d\<lparr>dk_jobs := ddel (dk_jobs d) job, dk_signals := rv_released rv # dk_signals d\<rparr>)
          else modify (\<lambda>d. d\<lparr>dk_jobs := dset (dk_jobs d) job (rv\<lparr>rv_depth := rv_depth rv - 1\<rparr>)\<rparr>))"

text \<open>One round of \<open>_wait_for_job_admission\<close>: the reservation is won, or an event to sleep on.\<close>

definition wait_round :: "nat \<Rightarrow> string \<Rightarrow> desk \<Rightarrow> (py_exn + nat option) \<times> desk" where
  "wait_round task job d =
     (case try_reserve_job_admission task job True d of
        (True, d') \<Rightarrow> (Inr None, d')
      | (False, d') \<Rightarrow> (case dget (dk_jobs d') job of
            None \<Rightarrow> (Inl RuntimeError, d')
          | Some rv \<Rightarrow> (Inr (Some (rv_released rv)), d')))"

text \<open>
  All jobs of a schedule or none: the first one taken by another task turns the claim down
  (None, a \<open>JobSubmissionError\<close>), and what was acquired is given back.
\<close>

fun claim_jobs :: "nat \<Rightarrow> string list \<Rightarrow> string list \<Rightarrow> (desk, string list option) act" where
  "claim_jobs task [] acquired = ret (Some acquired)"
| "claim_jobs task (job # jobs) acquired =
     bnd (pure_op (try_reserve_job_admission task job True)) (\<lambda>ok.
       if ok then claim_jobs task jobs (acquired @ [job])
       else thn (for_each (rev acquired) (release_job_admission task)) (ret None))"

subsection \<open>Schedules\<close>

definition schedule_admission_available :: "nat \<Rightarrow> string list \<Rightarrow> desk \<Rightarrow> bool" where
  "schedule_admission_available task ids d \<longleftrightarrow>
     list_all (\<lambda>k. case dget (dk_schedules d) k of None \<Rightarrow> True | Some rv \<Rightarrow> rv_owner rv = task) ids"

definition reserve_schedule :: "nat \<Rightarrow> string \<Rightarrow> desk \<Rightarrow> desk" where
  "reserve_schedule task k d =
     (case dget (dk_schedules d) k of
        None \<Rightarrow> d\<lparr>dk_schedules := dset (dk_schedules d) k \<lparr>rv_owner = task, rv_depth = 1, rv_released = dk_next d\<rparr>,
                  dk_next := dk_next d + 1\<rparr>
      | Some rv \<Rightarrow> d\<lparr>dk_schedules := dset (dk_schedules d) k (rv\<lparr>rv_depth := rv_depth rv + 1\<rparr>)\<rparr>)"

text \<open>\<open>dict.fromkeys\<close> keeps the first of equal ids.\<close>

definition fromkeys :: "string list \<Rightarrow> string list" where
  "fromkeys ids = rev (remdups (rev ids))"

definition try_reserve_schedule_admission :: "nat \<Rightarrow> string list \<Rightarrow> desk \<Rightarrow> bool \<times> desk" where
  "try_reserve_schedule_admission task ids d =
     (if \<not> schedule_admission_available task (fromkeys ids) d then (False, d)
      else (True, fold (reserve_schedule task) (fromkeys ids) d))"

definition release_schedule :: "nat \<Rightarrow> string \<Rightarrow> (desk, unit) act" where
  "release_schedule task k =
     bnd get_st (\<lambda>d. case dget (dk_schedules d) k of
        None \<Rightarrow> throw RuntimeError
      | Some rv \<Rightarrow>
          if rv_owner rv \<noteq> task then throw RuntimeError
          else if rv_depth rv - 1 = 0 then modify (\<lambda>d. d\<lparr>dk_schedules := ddel (dk_schedules d) k\<rparr>)
          else modify (\<lambda>d. d\<lparr>dk_schedules := dset (dk_schedules d) k (rv\<lparr>rv_depth := rv_depth rv - 1\<rparr>)\<rparr>))"

definition release_schedule_admission :: "nat \<Rightarrow> string list \<Rightarrow> (desk, unit) act" where
  "release_schedule_admission task ids = for_each (rev (fromkeys ids)) (release_schedule task)"

definition reserve_schedule_lineage :: "string \<Rightarrow> desk \<Rightarrow> desk" where
  "reserve_schedule_lineage k d = d\<lparr>dk_lineage := dset (dk_lineage d) k (dget_or (dk_lineage d) k 0 + 1)\<rparr>"

definition release_schedule_lineage :: "string \<Rightarrow> desk \<Rightarrow> desk" where
  "release_schedule_lineage k d =
     (let remaining = dget_or (dk_lineage d) k 0 - 1
      in if 0 < remaining then d\<lparr>dk_lineage := dset (dk_lineage d) k remaining\<rparr>
         else d\<lparr>dk_lineage := ddel (dk_lineage d) k\<rparr>)"

subsection \<open>Tasks at the desk\<close>

text \<open>
  What the tasks do in a run, and for each what it has reserved (1) and released (-1). A task
  that sleeps does nothing until its event is set.
\<close>

datatype desk_op =
    TryJob nat string bool
  | ReleaseJob nat string
  | ClaimJobs nat "string list"
  | WaitJob nat string
  | Wake nat
  | TrySchedules nat "string list"
  | ReleaseSchedules nat "string list"
  | ReserveLineage string
  | ReleaseLineage string
  | SetMeta string "daemon_status \<times> string option"

record hall =
  ha_desk :: desk
  ha_asleep :: "(nat, string \<times> nat) dict"
  ha_log :: "(nat \<times> string \<times> int) list"

definition wait_in_hall :: "nat \<Rightarrow> string \<Rightarrow> hall \<Rightarrow> hall" where
  "wait_in_hall t k h = (case wait_round t k (ha_desk h) of
      (Inr None, d) \<Rightarrow> h\<lparr>ha_desk := d, ha_log := (t, k, 1) # ha_log h\<rparr>
    | (Inr (Some event), d) \<Rightarrow> h\<lparr>ha_desk := d, ha_asleep := dset (ha_asleep h) t (k, event)\<rparr>
    | (Inl e, d) \<Rightarrow> h\<lparr>ha_desk := d\<rparr>)"

definition op_task :: "desk_op \<Rightarrow> nat option" where
  "op_task op = (case op of
      TryJob t k allow \<Rightarrow> Some t | ReleaseJob t k \<Rightarrow> Some t | ClaimJobs t ks \<Rightarrow> Some t
    | WaitJob t k \<Rightarrow> Some t | TrySchedules t ks \<Rightarrow> Some t | ReleaseSchedules t ks \<Rightarrow> Some t | _ \<Rightarrow> None)"

definition hall_step :: "desk_op \<Rightarrow> hall \<Rightarrow> hall" where
  "hall_step op h =
     (if (case op_task op of None \<Rightarrow> False | Some t \<Rightarrow> dget (ha_asleep h) t \<noteq> None) then h
      else case op of
        TryJob t k allow \<Rightarrow> (case try_reserve_job_admission t k allow (ha_desk h) of
            (ok, d) \<Rightarrow> h\<lparr>ha_desk := d, ha_log := (if ok then (t, k, 1) # ha_log h else ha_log h)\<rparr>)
      | ReleaseJob t k \<Rightarrow> (case release_job_admission t k (ha_desk h) of
            (Inr _, d) \<Rightarrow> h\<lparr>ha_desk := d, ha_log := (t, k, -1) # ha_log h\<rparr>
          | (Inl e, d) \<Rightarrow> h\<lparr>ha_desk := d\<rparr>)
      | ClaimJobs t ks \<Rightarrow> (case claim_jobs t ks [] (ha_desk h) of
            (Inr (Some acquired), d) \<Rightarrow> h\<lparr>ha_desk := d, ha_log := map (\<lambda>k. (t, k, 1)) acquired @ ha_log h\<rparr>
          | (_, d) \<Rightarrow> h\<lparr>ha_desk := d\<rparr>)
      | WaitJob t k \<Rightarrow> wait_in_hall t k h
      | Wake t \<Rightarrow> (case dget (ha_asleep h) t of
            None \<Rightarrow> h
          | Some (k, event) \<Rightarrow>
              if event \<in> set (dk_signals (ha_desk h))
              then wait_in_hall t k (h\<lparr>ha_asleep := ddel (ha_asleep h) t\<rparr>) else h)
      | TrySchedules t ks \<Rightarrow> h\<lparr>ha_desk := snd (try_reserve_schedule_admission t ks (ha_desk h))\<rparr>
      | ReleaseSchedules t ks \<Rightarrow> h\<lparr>ha_desk := snd (release_schedule_admission t ks (ha_desk h))\<rparr>
      | ReserveLineage k \<Rightarrow> h\<lparr>ha_desk := reserve_schedule_lineage k (ha_desk h)\<rparr>
      | ReleaseLineage k \<Rightarrow> h\<lparr>ha_desk := release_schedule_lineage k (ha_desk h)\<rparr>
      | SetMeta k m \<Rightarrow> h\<lparr>ha_desk := (ha_desk h)\<lparr>dk_meta := dset (dk_meta (ha_desk h)) k m\<rparr>\<rparr>)"

definition hall_run :: "desk_op list \<Rightarrow> hall" where
  "hall_run ops = fold hall_step ops \<lparr>ha_desk = new_desk, ha_asleep = [], ha_log = []\<rparr>"

text \<open>How often a task has reserved a job more than released it.\<close>

definition balance :: "nat \<Rightarrow> string \<Rightarrow> (nat \<times> string \<times> int) list \<Rightarrow> int" where
  "balance t k entries = sum_list (map (\<lambda>(t', k', n). if t' = t \<and> k' = k then n else 0) entries)"

subsection \<open>What a task holds\<close>

definition held :: "desk \<Rightarrow> nat \<Rightarrow> string \<Rightarrow> int" where
  "held d t k = (case dget (dk_jobs d) k of
      None \<Rightarrow> 0 | Some rv \<Rightarrow> if rv_owner rv = t then rv_depth rv else 0)"

definition desk_ok :: "desk \<Rightarrow> bool" where
  "desk_ok d \<longleftrightarrow> (\<forall>k rv. dget (dk_jobs d) k = Some rv \<longrightarrow> 1 \<le> rv_depth rv)"

text \<open>An event that is set, or that the release of a reservation will set.\<close>

definition wakeable :: "desk \<Rightarrow> string \<Rightarrow> nat \<Rightarrow> nat \<Rightarrow> bool" where
  "wakeable d k event task \<longleftrightarrow> event \<in> set (dk_signals d) \<or>
     (\<exists>rv. dget (dk_jobs d) k = Some rv \<and> rv_released rv = event \<and> rv_owner rv = task)"

definition keeps_wakeable :: "desk \<Rightarrow> desk \<Rightarrow> bool" where
  "keeps_wakeable d d' \<longleftrightarrow> (\<forall>k event task. wakeable d k event task \<longrightarrow> wakeable d' k event task)"

interpretation wakes: evolution keeps_wakeable
  by unfold_locales (auto simp: keeps_wakeable_def)

text \<open>The effect of the three operations on what is held.\<close>

lemma held_same: "dk_jobs d' = dk_jobs d \<Longrightarrow> held d' = held d"
  by (simp add: held_def fun_eq_iff)

lemma try_effect:
  assumes "desk_ok d" and "try_reserve_job_admission t k allow d = (ok, d')"
  shows "desk_ok d'" "keeps_wakeable d d'" "held d' t' k' = held d t' k' + (if ok \<and> t' = t \<and> k' = k then 1 else 0)"
proof -
  consider "ok = False" "d' = d"
    | "ok" "dget (dk_jobs d) k = None"
        "d' = d\<lparr>dk_jobs := dset (dk_jobs d) k \<lparr>rv_owner = t, rv_depth = 1, rv_released = dk_next d\<rparr>, dk_next := dk_next d + 1\<rparr>"
    | rv where "ok" "dget (dk_jobs d) k = Some rv" "rv_owner rv = t"
        "d' = d\<lparr>dk_jobs := dset (dk_jobs d) k (rv\<lparr>rv_depth := rv_depth rv + 1\<rparr>)\<rparr>"
    using assms(2) unfolding try_reserve_job_admission_def
    by (cases "dget (dk_jobs d) k") (auto simp del: map_of_eq_Some_iff split: if_splits)
  then have "desk_ok d' \<and> keeps_wakeable d d' \<and>
    (\<forall>t' k'. held d' t' k' = held d t' k' + (if ok \<and> t' = t \<and> k' = k then 1 else 0))"
  proof cases
    case 2
    with assms(1) show ?thesis
      by (auto simp: desk_ok_def held_def keeps_wakeable_def wakeable_def simp del: map_of_eq_Some_iff)
  next
    case (3 rv)
    with assms(1) have "1 \<le> rv_depth rv" by (simp add: desk_ok_def)
    then have "0 \<le> rv_depth rv" by simp
    with 3 assms(1) show ?thesis
      by (auto simp: desk_ok_def held_def keeps_wakeable_def wakeable_def simp del: map_of_eq_Some_iff)
  qed (use assms(1) in \<open>auto simp: keeps_wakeable_def\<close>)
  then show "desk_ok d'" "keeps_wakeable d d'" "held d' t' k' = held d t' k' + (if ok \<and> t' = t \<and> k' = k then 1 else 0)"
    by blast+
qed

lemma release_effect:
  assumes "desk_ok d" and "release_job_admission t k d = (r, d')"
  shows "desk_ok d'" "keeps_wakeable d d'" "r = Inr () \<longleftrightarrow> 0 < held d t k"
    "held d' t' k' = held d t' k' - (if r = Inr () \<and> t' = t \<and> k' = k then 1 else 0)"
proof -
  consider "dget (dk_jobs d) k = None" "r = Inl RuntimeError" "d' = d"
    | rv where "dget (dk_jobs d) k = Some rv" "rv_owner rv \<noteq> t" "r = Inl RuntimeError" "d' = d"
    | rv where "dget (dk_jobs d) k = Some rv" "rv_owner rv = t" "r = Inr ()" "rv_depth rv = 1"
        "d' = d\<lparr>dk_jobs := ddel (dk_jobs d) k, dk_signals := rv_released rv # dk_signals d\<rparr>"
    | rv where "dget (dk_jobs d) k = Some rv" "rv_owner rv = t" "r = Inr ()" "rv_depth rv \<noteq> 1"
        "d' = d\<lparr>dk_jobs := dset (dk_jobs d) k (rv\<lparr>rv_depth := rv_depth rv - 1\<rparr>)\<rparr>"
    using assms(2) by (auto simp: release_job_admission_def bnd_def simp del: map_of_eq_Some_iff split: option.splits if_splits)
  then have "desk_ok d' \<and> keeps_wakeable d d' \<and> (r = Inr () \<longleftrightarrow> 0 < held d t k) \<and>
    (\<forall>t' k'. held d' t' k' = held d t' k' - (if r = Inr () \<and> t' = t \<and> k' = k then 1 else 0))"
  proof cases
    case (3 rv)
    with assms(1) show ?thesis
      by (auto simp: desk_ok_def held_def keeps_wakeable_def wakeable_def simp del: map_of_eq_Some_iff)
  next
    case (4 rv)
    from assms(1) 4(1) have "1 \<le> rv_depth rv" by (simp add: desk_ok_def)
    with 4(4) have "1 < rv_depth rv" by simp
    with 4 assms(1) show ?thesis
      by (auto simp: desk_ok_def held_def keeps_wakeable_def wakeable_def simp del: map_of_eq_Some_iff)
  qed (use assms(1) in \<open>auto simp: desk_ok_def held_def keeps_wakeable_def\<close>)
  then show "desk_ok d'" "keeps_wakeable d d'" "r = Inr () \<longleftrightarrow> 0 < held d t k"
    "held d' t' k' = held d t' k' - (if r = Inr () \<and> t' = t \<and> k' = k then 1 else 0)" by blast+
qed

text \<open>Giving back all that was acquired, and claiming many.\<close>

lemma release_all:
  "desk_ok d \<Longrightarrow> (\<And>k. int (count_list ks k) \<le> held d t k) \<Longrightarrow>
     \<exists>d'. for_each ks (release_job_admission t) d = (Inr (), d') \<and> desk_ok d' \<and> keeps_wakeable d d' \<and>
       (\<forall>t' k. held d' t' k = held d t' k - (if t' = t then int (count_list ks k) else 0))"
proof (induction ks arbitrary: d)
  case (Cons k ks)
  obtain r d1 where d1: "release_job_admission t k d = (r, d1)" by fastforce
  note effect = release_effect [OF Cons.prems(1) d1]
  from Cons.prems(2) [of k] have "0 < held d t k" by simp
  with effect(3) have r: "r = Inr ()" by simp
  have "int (count_list ks k') \<le> held d1 t k'" for k'
    using Cons.prems(2) [of k'] effect(4) [of t k'] r by (auto split: if_splits)
  from Cons.IH [OF effect(1) this] obtain d' where "for_each ks (release_job_admission t) d1 = (Inr (), d')" "desk_ok d'"
    "keeps_wakeable d1 d'" "\<forall>t' k. held d' t' k = held d1 t' k - (if t' = t then int (count_list ks k) else 0)" by blast
  with d1 r effect(2,4) show ?case by (auto intro: wakes.evo_trans)
qed (simp add: wakes.evo_refl)

lemma claim_all:
  "desk_ok d \<Longrightarrow> (\<And>k. int (count_list acquired k) \<le> held d t k) \<Longrightarrow>
     \<exists>r d'. claim_jobs t ks acquired d = (Inr r, d') \<and> desk_ok d' \<and> keeps_wakeable d d' \<and>
       (case r of
          Some a \<Rightarrow> a = acquired @ ks \<and> (\<forall>t' k. held d' t' k = held d t' k + (if t' = t then int (count_list ks k) else 0))
        | None \<Rightarrow> \<forall>t' k. held d' t' k = held d t' k - (if t' = t then int (count_list acquired k) else 0))"
proof (induction ks arbitrary: d acquired)
  case (Cons k ks)
  obtain ok d1 where d1: "try_reserve_job_admission t k True d = (ok, d1)" by fastforce
  note effect = try_effect [OF Cons.prems(1) d1]
  show ?case
  proof (cases ok)
    case True
    have "int (count_list (acquired @ [k]) k') \<le> held d1 t k'" for k'
      using Cons.prems(2) [of k'] effect(3) [of t k'] True by auto
    from Cons.IH [OF effect(1) this] obtain r d' where r: "claim_jobs t ks (acquired @ [k]) d1 = (Inr r, d')" "desk_ok d'"
      "keeps_wakeable d1 d'"
      "case r of
          Some a \<Rightarrow> a = (acquired @ [k]) @ ks \<and> (\<forall>t' k. held d' t' k = held d1 t' k + (if t' = t then int (count_list ks k) else 0))
        | None \<Rightarrow> \<forall>t' k'. held d' t' k' = held d1 t' k' - (if t' = t then int (count_list (acquired @ [k]) k') else 0)" by blast
    from r(1) d1 True have "claim_jobs t (k # ks) acquired d = (Inr r, d')" by simp
    with r(2-4) effect(2,3) True show ?thesis
      by (cases r) (auto intro: wakes.evo_trans)
  next
    case False
    have "int (count_list (rev acquired) k') \<le> held d1 t k'" for k'
      using Cons.prems(2) [of k'] effect(3) [of t k'] False by simp
    from release_all [OF effect(1) this] obtain d' where
      "for_each (rev acquired) (release_job_admission t) d1 = (Inr (), d')" "desk_ok d'" "keeps_wakeable d1 d'"
      "\<forall>t' k. held d' t' k = held d1 t' k - (if t' = t then int (count_list (rev acquired) k) else 0)" by blast
    with d1 False effect(2,3) show ?thesis by (auto intro: wakes.evo_trans)
  qed
qed (auto intro: wakes.evo_refl)

text \<open>What the other operations leave alone.\<close>

definition jobs_kept :: "desk \<Rightarrow> desk \<Rightarrow> bool" where
  "jobs_kept d d' \<longleftrightarrow> dk_jobs d' = dk_jobs d \<and> dk_signals d' = dk_signals d"

interpretation aside: evolution jobs_kept
  by unfold_locales (auto simp: jobs_kept_def)

lemma kept_schedules: "jobs_kept d (snd (try_reserve_schedule_admission t ks d))"
proof -
  have "jobs_kept d (reserve_schedule t k d)" for k d
    by (simp add: reserve_schedule_def jobs_kept_def split: option.split)
  then have "jobs_kept d (fold (reserve_schedule t) (fromkeys ks) d)" by (rule aside.evo_fold)
  then show ?thesis by (simp add: try_reserve_schedule_admission_def aside.evo_refl)
qed

lemma kept_release: "jobs_kept d (snd (release_schedule_admission t ks d))"
proof -
  have "jobs_kept d (snd (release_schedule t k d))" for k d
    by (cases "dget (dk_schedules d) k") (simp_all add: release_schedule_def bnd_def jobs_kept_def)
  then have "evolves jobs_kept (release_schedule t k)" for k by (simp add: evolves_def)
  then show ?thesis unfolding release_schedule_admission_def by (rule evolvesD [OF aside.evo_for_each])
qed

subsection \<open>Runs\<close>

text \<open>
  The reservations are the balance of what the tasks did, and who sleeps on a job waits for an
  event that is set or that another task will set.
\<close>

definition hall_ok :: "hall \<Rightarrow> bool" where
  "hall_ok h \<longleftrightarrow> desk_ok (ha_desk h) \<and> (\<forall>t k. balance t k (ha_log h) = held (ha_desk h) t k) \<and>
     (\<forall>t k event. dget (ha_asleep h) t = Some (k, event) \<longrightarrow> (\<exists>other. other \<noteq> t \<and> wakeable (ha_desk h) k event other))"

lemma balance_Cons: "balance t k ((t', k', n) # entries) = (if t' = t \<and> k' = k then n else 0) + balance t k entries"
  by (simp add: balance_def)

lemma balance_many: "balance t k (map (\<lambda>k'. (t', k', 1)) ks @ entries) =
    (if t' = t then int (count_list ks k) else 0) + balance t k entries"
  by (induction ks) (auto simp: balance_def)

lemma hall_keep:
  assumes "hall_ok h" and "desk_ok d" and "keeps_wakeable (ha_desk h) d"
    and "\<And>t k. held d t k = held (ha_desk h) t k + (balance t k entries - balance t k (ha_log h))"
  shows "hall_ok (h\<lparr>ha_desk := d, ha_log := entries\<rparr>)"
  using assms unfolding hall_ok_def keeps_wakeable_def by (simp del: map_of_eq_Some_iff) blast

lemma hall_aside:
  assumes "hall_ok h" and "jobs_kept (ha_desk h) d" shows "hall_ok (h\<lparr>ha_desk := d\<rparr>)"
proof -
  have "desk_ok d" "keeps_wakeable (ha_desk h) d" "held d = held (ha_desk h)"
    using assms by (auto simp: hall_ok_def jobs_kept_def desk_ok_def keeps_wakeable_def wakeable_def held_def fun_eq_iff)
  with hall_keep [OF assms(1), of d "ha_log h"] show ?thesis by simp
qed

text \<open>A round of waiting never raises: who is turned away sees the reservation of another task.\<close>

lemma wait_cases:
  assumes "wait_round t k d = (r, d')"
  obtains "r = Inr None" "try_reserve_job_admission t k True d = (True, d')"
  | event o' where "r = Inr (Some event)" "d' = d" "o' \<noteq> t" "wakeable d k event o'"
  using assms unfolding wait_round_def try_reserve_job_admission_def wakeable_def
  by (cases "dget (dk_jobs d) k") (auto simp del: map_of_eq_Some_iff split: if_splits)

lemma wait_ok:
  assumes "hall_ok h" shows "hall_ok (wait_in_hall t k h)"
proof -
  obtain r d where w: "wait_round t k (ha_desk h) = (r, d)" by fastforce
  from assms have ok: "desk_ok (ha_desk h)" by (simp add: hall_ok_def)
  from w show ?thesis
  proof (rule wait_cases)
    assume r: "r = Inr None" and t: "try_reserve_job_admission t k True (ha_desk h) = (True, d)"
    from hall_keep [OF assms try_effect(1,2) [OF ok t], of "(t, k, 1) # ha_log h"] try_effect(3) [OF ok t]
    have "hall_ok (h\<lparr>ha_desk := d, ha_log := (t, k, 1) # ha_log h\<rparr>)" by (auto simp: balance_Cons)
    with w r show ?thesis by (simp add: wait_in_hall_def)
  next
    fix event o'
    assume "r = Inr (Some event)" "d = ha_desk h" "o' \<noteq> t" "wakeable (ha_desk h) k event o'"
    with w assms show ?thesis
      unfolding wait_in_hall_def hall_ok_def by (auto simp del: map_of_eq_Some_iff)
  qed
qed

lemma step_ok:
  assumes "hall_ok h" shows "hall_ok (hall_step op h)"
proof -
  from assms have ok: "desk_ok (ha_desk h)" by (simp add: hall_ok_def)
  show ?thesis
  proof (cases op)
    case (TryJob t k allow)
    obtain won d where t: "try_reserve_job_admission t k allow (ha_desk h) = (won, d)" by fastforce
    from hall_keep [OF assms try_effect(1,2) [OF ok t], of "if won then (t, k, 1) # ha_log h else ha_log h"] try_effect(3) [OF ok t]
    have "hall_ok (h\<lparr>ha_desk := d, ha_log := (if won then (t, k, 1) # ha_log h else ha_log h)\<rparr>)"
      by (auto simp: balance_Cons)
    with t assms TryJob show ?thesis by (simp add: hall_step_def op_task_def)
  next
    case (ReleaseJob t k)
    obtain r d where t: "release_job_admission t k (ha_desk h) = (r, d)" by fastforce
    let ?log = "case r of Inr _ \<Rightarrow> (t, k, -1) # ha_log h | Inl _ \<Rightarrow> ha_log h"
    from hall_keep [OF assms release_effect(1,2) [OF ok t], of ?log] release_effect(4) [OF ok t]
    have "hall_ok (h\<lparr>ha_desk := d, ha_log := ?log\<rparr>)" by (cases r) (auto simp: balance_Cons)
    with t assms ReleaseJob show ?thesis by (cases r) (auto simp: hall_step_def op_task_def)
  next
    case (ClaimJobs t ks)
    have "int (count_list [] k) \<le> held (ha_desk h) t k" for k
      using ok by (force simp: held_def desk_ok_def split: option.split)
    from claim_all [OF ok this] obtain r d where r: "claim_jobs t ks [] (ha_desk h) = (Inr r, d)" "desk_ok d"
      "keeps_wakeable (ha_desk h) d"
      "case r of
          Some a \<Rightarrow> a = [] @ ks \<and> (\<forall>t' k. held d t' k = held (ha_desk h) t' k + (if t' = t then int (count_list ks k) else 0))
        | None \<Rightarrow> \<forall>t' k. held d t' k = held (ha_desk h) t' k - (if t' = t then int (count_list [] k) else 0)" by blast
    let ?log = "case r of None \<Rightarrow> ha_log h | Some a \<Rightarrow> map (\<lambda>k. (t, k, 1)) a @ ha_log h"
    from hall_keep [OF assms r(2,3), of ?log] r(4)
    have "hall_ok (h\<lparr>ha_desk := d, ha_log := ?log\<rparr>)" by (cases r) (auto simp: balance_many)
    with r(1) assms ClaimJobs show ?thesis by (cases r) (auto simp: hall_step_def op_task_def)
  next
    case (WaitJob t k)
    with assms wait_ok show ?thesis by (simp add: hall_step_def op_task_def)
  next
    case (Wake t)
    have "hall_ok (h\<lparr>ha_asleep := ddel (ha_asleep h) t\<rparr>)"
      using assms by (auto simp: hall_ok_def simp del: map_of_eq_Some_iff)
    with assms Wake wait_ok show ?thesis by (auto simp: hall_step_def op_task_def split: option.split)
  next
    case (SetMeta k m)
    have "jobs_kept (ha_desk h) ((ha_desk h)\<lparr>dk_meta := dset (dk_meta (ha_desk h)) k m\<rparr>)" by (simp add: jobs_kept_def)
    with hall_aside [OF assms] SetMeta show ?thesis by (simp add: hall_step_def op_task_def)
  next
    case (ReserveLineage k)
    have "jobs_kept (ha_desk h) (reserve_schedule_lineage k (ha_desk h))"
      by (simp add: jobs_kept_def reserve_schedule_lineage_def)
    with hall_aside [OF assms] ReserveLineage show ?thesis by (simp add: hall_step_def op_task_def)
  next
    case (ReleaseLineage k)
    have "jobs_kept (ha_desk h) (release_schedule_lineage k (ha_desk h))"
      by (simp add: jobs_kept_def release_schedule_lineage_def Let_def)
    with hall_aside [OF assms] ReleaseLineage show ?thesis by (simp add: hall_step_def op_task_def)
  qed (use assms hall_aside [OF assms kept_schedules] hall_aside [OF assms kept_release] in
      \<open>simp_all add: hall_step_def op_task_def\<close>)
qed

lemma run_ok: "hall_ok (hall_run ops)"
proof -
  have "hall_ok (fold hall_step ops h)" if "hall_ok h" for h
    using that by (induction ops arbitrary: h) (simp_all add: step_ok)
  moreover have "hall_ok \<lparr>ha_desk = new_desk, ha_asleep = [], ha_log = []\<rparr>"
    by (simp add: hall_ok_def desk_ok_def new_desk_def balance_def held_def)
  ultimately show ?thesis by (simp add: hall_run_def)
qed

text \<open>A claim that is turned down leaves every reservation as deep as it was.\<close>

lemma refused_claim_restores:
  assumes "desk_ok d" and "claim_jobs t ks [] d = (Inr None, d')"
  shows "held d' t' k = held d t' k"
proof -
  have "int (count_list [] k) \<le> held d t k" for k
    using assms(1) by (force simp: held_def desk_ok_def split: option.split)
  from claim_all [OF assms(1) this, of ks] assms(2) show ?thesis by auto
qed

text \<open>Schedules are claimed all or none.\<close>

lemma schedule_claim_refused:
  "fst (try_reserve_schedule_admission t ks d) \<longleftrightarrow> schedule_admission_available t ks d"
  "\<not> fst (try_reserve_schedule_admission t ks d) \<Longrightarrow> snd (try_reserve_schedule_admission t ks d) = d"
  by (auto simp: try_reserve_schedule_admission_def schedule_admission_available_def fromkeys_def list_all_iff)

text \<open>Task 2 waits for task 1; task 3 gets the job in between, and task 2 sleeps again.\<close>

lemma desk_runs:
  "ha_log (hall_run [TryJob 1 ''a'' False, WaitJob 2 ''a'', ReleaseJob 1 ''a'', Wake 2]) =
     [(2, ''a'', 1), (1, ''a'', -1), (1, ''a'', 1)]"
  "ha_asleep (hall_run [TryJob 1 ''a'' False, WaitJob 2 ''a'', ReleaseJob 1 ''a'', TryJob 3 ''a'' True, Wake 2]) =
     [(2, ''a'', 1)]"
  "ha_log (hall_run [TryJob 1 ''b'' False, ClaimJobs 2 [''a'', ''b'']]) = [(1, ''b'', 1)]"
  by code_simp+

text \<open>
  C11. A job is in the hands of one task at a time: after any sequence of operations of any
  tasks no task has released a job more often than it reserved it, at most one has reserved it
  more often than released, and that one is the owner at the desk. No sleeper is forgotten:
  the event of a waiting task is set, or the release of the reservation that another task holds
  now will set it; and a task that asks to wait never finds the job refused without an owner.
\<close>

theorem desk_admits_one_task:
  "let h = hall_run ops in
     (\<forall>t k. 0 \<le> balance t k (ha_log h)) \<and>
     (\<forall>t u k. 0 < balance t k (ha_log h) \<longrightarrow> 0 < balance u k (ha_log h) \<longrightarrow> t = u) \<and>
     (\<forall>t k. 0 < balance t k (ha_log h) \<longleftrightarrow> (\<exists>rv. dget (dk_jobs (ha_desk h)) k = Some rv \<and> rv_owner rv = t)) \<and>
     (\<forall>t k event. dget (ha_asleep h) t = Some (k, event) \<longrightarrow> event \<in> set (dk_signals (ha_desk h)) \<or>
        (\<exists>rv. dget (dk_jobs (ha_desk h)) k = Some rv \<and> rv_released rv = event \<and> rv_owner rv \<noteq> t)) \<and>
     (\<forall>t k. \<exists>r. fst (wait_round t k (ha_desk h)) = Inr r)"
proof -
  define h where "h = hall_run ops"
  have "hall_ok h" unfolding h_def by (rule run_ok)
  then have ok: "desk_ok (ha_desk h)" and bal: "balance t k (ha_log h) = held (ha_desk h) t k"
    and sleep: "dget (ha_asleep h) t = Some (k, event) \<Longrightarrow> \<exists>other. other \<noteq> t \<and> wakeable (ha_desk h) k event other" for t k event
    by (simp_all add: hall_ok_def)
  have owner: "0 < held (ha_desk h) t k \<longleftrightarrow> (\<exists>rv. dget (dk_jobs (ha_desk h)) k = Some rv \<and> rv_owner rv = t)"
    "0 \<le> held (ha_desk h) t k" for t k
    using ok by (force simp: held_def desk_ok_def simp del: map_of_eq_Some_iff split: option.split)+
  have "\<exists>r. fst (wait_round t k (ha_desk h)) = Inr r" for t k
    by (rule wait_cases [of t k "ha_desk h" "fst (wait_round t k (ha_desk h))" "snd (wait_round t k (ha_desk h))"]) auto
  then show ?thesis unfolding Let_def h_def [symmetric] bal
    using owner sleep by (auto simp: wakeable_def simp del: map_of_eq_Some_iff) (metis option.inject)+
qed

lemma desk_admits_one_task_witness:
  "\<exists>rv. dget (dk_jobs (ha_desk (hall_run [TryJob 1 ''a'' False, WaitJob 2 ''a'', ReleaseJob 1 ''a'', Wake 2]))) ''a'' = Some rv \<and> rv_owner rv = 2"
proof -
  let ?ops = "[TryJob 1 ''a'' False, WaitJob 2 ''a'', ReleaseJob 1 ''a'', Wake 2]"
  have "0 < balance 2 ''a'' (ha_log (hall_run ?ops))" unfolding desk_runs(1) by (simp add: balance_def)
  with desk_admits_one_task [of ?ops] show ?thesis unfolding Let_def by blast
qed

end
