(* ===== verification/Gate.thy ===== *)
theory Gate
  imports Prelude "HOL-Library.Multiset"
begin

section \<open>The concurrency gate of the job manager\<close>

text \<open>
  \<open>ConcurrencyGate\<close> (\<open>daemon/concurrency.py\<close>): a counting gate whose limit a reload of the
  configuration may change while jobs hold it. Waiters sleep on an \<open>asyncio.Event\<close>, whose
  futures are the tasks asleep (pending) and woken (done, the task has not run yet). Between two
  awaits a task is atomic, so a run is a sequence of the pieces below in any order.
\<close>

record concurrency_gate =
  cg_limit :: int
  cg_acquired :: int
  cg_set :: bool
  cg_sleeping :: "nat list"
  cg_woken :: "nat list"

definition new_gate :: "int \<Rightarrow> py_exn + concurrency_gate" where
  "new_gate limit = (if limit < 1 then Inl ValueError
     else Inr \<lparr>cg_limit = limit, cg_acquired = 0, cg_set = False, cg_sleeping = [], cg_woken = []\<rparr>)"

definition available :: "concurrency_gate \<Rightarrow> int" where
  "available g = max 0 (cg_limit g - cg_acquired g)"

text \<open>\<open>Event.set\<close> completes the pending futures, and does nothing when it is set already.\<close>

definition set_wake :: "concurrency_gate \<Rightarrow> concurrency_gate" where
  "set_wake g = (if cg_set g then g
     else g\<lparr>cg_set := True, cg_woken := cg_woken g @ cg_sleeping g, cg_sleeping := []\<rparr>)"

text \<open>
  One round of \<open>acquire\<close>, up to its return (True) or its await: the event was cleared in the
  same piece, so \<open>wait\<close> always sleeps.
\<close>

definition acquire_round :: "nat \<Rightarrow> concurrency_gate \<Rightarrow> bool \<times> concurrency_gate" where
  "acquire_round task g =
     (if cg_acquired g < cg_limit g then (True, g\<lparr>cg_acquired := cg_acquired g + 1\<rparr>)
      else (False, g\<lparr>cg_set := False, cg_sleeping := cg_sleeping g @ [task]\<rparr>))"

definition release_gate :: "(concurrency_gate, unit) act" where
  "release_gate = bnd get_st (\<lambda>g.
     if cg_acquired g \<le> 0 then throw RuntimeError
     else thn (modify (\<lambda>g. g\<lparr>cg_acquired := cg_acquired g - 1\<rparr>)) (modify set_wake))"

definition set_limit :: "int \<Rightarrow> (concurrency_gate, unit) act" where
  "set_limit new_limit =
     (if new_limit < 1 then throw ValueError
      else thn (modify (\<lambda>g. g\<lparr>cg_limit := new_limit\<rparr>)) (modify set_wake))"

subsection \<open>Tasks at the gate\<close>

text \<open>
  A task enters (\<open>__aenter__\<close>) when it neither holds a slot nor waits for one, goes on after it
  was woken, may be cancelled while it waits (its future is dropped, asleep or woken), and
  leaves (\<open>__aexit__\<close>) when it holds a slot; a reload resizes the gate at any time.
\<close>

datatype gate_op = Enter nat | Go_on nat | Cancel nat | Leave nat | Resize int

record yard =
  yd_gate :: concurrency_gate
  yd_holders :: "nat list"

definition try_enter :: "nat \<Rightarrow> yard \<Rightarrow> yard" where
  "try_enter t y = (case acquire_round t (yd_gate y) of
      (True, g) \<Rightarrow> y\<lparr>yd_gate := g, yd_holders := t # yd_holders y\<rparr>
    | (False, g) \<Rightarrow> y\<lparr>yd_gate := g\<rparr>)"

definition yard_step :: "gate_op \<Rightarrow> yard \<Rightarrow> yard" where
  "yard_step op y = (let g = yd_gate y in case op of
      Enter t \<Rightarrow> if t \<in> set (yd_holders y @ cg_sleeping g @ cg_woken g) then y else try_enter t y
    | Go_on t \<Rightarrow>
        if t \<in> set (cg_woken g) then try_enter t (y\<lparr>yd_gate := g\<lparr>cg_woken := remove1 t (cg_woken g)\<rparr>\<rparr>) else y
    | Cancel t \<Rightarrow> y\<lparr>yd_gate := g\<lparr>cg_sleeping := remove1 t (cg_sleeping g), cg_woken := remove1 t (cg_woken g)\<rparr>\<rparr>
    | Leave t \<Rightarrow>
        if t \<notin> set (yd_holders y) then y
        else (case release_gate g of
            (Inr _, g) \<Rightarrow> y\<lparr>yd_gate := g, yd_holders := remove1 t (yd_holders y)\<rparr>
          | (Inl e, g) \<Rightarrow> y\<lparr>yd_gate := g\<rparr>)
    | Resize n \<Rightarrow> y\<lparr>yd_gate := snd (set_limit n g)\<rparr>)"

definition yard_run :: "gate_op list \<Rightarrow> concurrency_gate \<Rightarrow> yard" where
  "yard_run ops g = fold yard_step ops \<lparr>yd_gate = g, yd_holders = []\<rparr>"

text \<open>The limits a run asks for.\<close>

definition limits_of :: "gate_op list \<Rightarrow> int list" where
  "limits_of ops = concat (map (\<lambda>op. case op of Resize n \<Rightarrow> [n] | _ \<Rightarrow> []) ops)"

subsection \<open>No slot is wasted and none lent twice\<close>

text \<open>Below a bound \<open>m\<close> of the limits; nobody sleeps while the event is set or a slot is free.\<close>

definition yard_ok :: "int \<Rightarrow> yard \<Rightarrow> bool" where
  "yard_ok m y \<longleftrightarrow> (let g = yd_gate y in
     cg_acquired g = int (length (yd_holders y)) \<and> distinct (yd_holders y @ cg_sleeping g @ cg_woken g) \<and>
     (cg_set g \<longrightarrow> cg_sleeping g = []) \<and> (cg_sleeping g \<noteq> [] \<longrightarrow> cg_limit g \<le> cg_acquired g) \<and>
     cg_limit g \<le> m \<and> cg_acquired g \<le> m)"

lemma try_enter_ok:
  assumes "yard_ok m y" and "t \<notin> set (yd_holders y @ cg_sleeping (yd_gate y) @ cg_woken (yd_gate y))"
  shows "yard_ok m (try_enter t y)"
  using assms by (cases "cg_acquired (yd_gate y) < cg_limit (yd_gate y)")
    (auto simp: yard_ok_def Let_def try_enter_def acquire_round_def)

lemma leave_ok:
  assumes "yard_ok m y" and "t \<in> set (yd_holders y)"
  shows "yard_ok m (yard_step (Leave t) y)"
proof -
  from assms(2) have n: "0 < length (yd_holders y)" by (cases "yd_holders y") auto
  have "length (remove1 t (yd_holders y)) = length (yd_holders y) - 1" using assms(2) by (simp add: length_remove1)
  with n have "int (length (remove1 t (yd_holders y))) = int (length (yd_holders y)) - 1"
    "\<not> int (length (yd_holders y)) \<le> 0" by linarith+
  with assms show ?thesis
    by (auto simp: yard_ok_def Let_def yard_step_def release_gate_def bnd_def thn_def set_wake_def
        dest: set_remove1_subset [THEN subsetD])
qed

lemma yard_step_ok:
  assumes "yard_ok m y" and "\<And>n. op = Resize n \<Longrightarrow> n \<le> m"
  shows "yard_ok m (yard_step op y)"
proof (cases op)
  case (Enter t)
  with assms(1) show ?thesis by (simp add: yard_step_def Let_def try_enter_ok del: set_append)
next
  case (Go_on t)
  show ?thesis
  proof (cases "t \<in> set (cg_woken (yd_gate y))")
    case True
    let ?y = "y\<lparr>yd_gate := (yd_gate y)\<lparr>cg_woken := remove1 t (cg_woken (yd_gate y))\<rparr>\<rparr>"
    from assms(1) have "yard_ok m ?y"
      by (auto simp: yard_ok_def Let_def dest: set_remove1_subset [THEN subsetD])
    moreover have "t \<notin> set (yd_holders ?y @ cg_sleeping (yd_gate ?y) @ cg_woken (yd_gate ?y))"
      using assms(1) True by (auto simp: yard_ok_def Let_def)
    ultimately show ?thesis using Go_on True by (simp add: yard_step_def Let_def try_enter_ok)
  qed (use assms(1) Go_on in \<open>simp add: yard_step_def Let_def\<close>)
next
  case (Cancel t)
  with assms(1) show ?thesis
    by (auto simp: yard_ok_def Let_def yard_step_def dest: set_remove1_subset [THEN subsetD])
next
  case (Leave t)
  with assms(1) leave_ok [OF assms(1), of t] show ?thesis
    by (cases "t \<in> set (yd_holders y)") (simp_all add: yard_step_def Let_def)
next
  case (Resize n)
  with assms show ?thesis
    by (auto simp: yard_ok_def Let_def yard_step_def set_limit_def bnd_def thn_def set_wake_def)
qed

lemma yard_fold_ok:
  "yard_ok m y \<Longrightarrow> (\<And>n. n \<in> set (limits_of ops) \<Longrightarrow> n \<le> m) \<Longrightarrow> yard_ok m (fold yard_step ops y)"
proof (induction ops arbitrary: y)
  case (Cons op ops)
  from Cons.prems have "yard_ok m (yard_step op y)"
    by (intro yard_step_ok) (auto simp: limits_of_def)
  with Cons.prems Cons.IH show ?case by (auto simp: limits_of_def)
qed simp

lemma yard_run_ok:
  assumes "new_gate limit = Inr g" shows "yard_ok (Max (set (limit # limits_of ops))) (yard_run ops g)"
  unfolding yard_run_def
proof (rule yard_fold_ok)
  from assms have g: "g = \<lparr>cg_limit = limit, cg_acquired = 0, cg_set = False, cg_sleeping = [], cg_woken = []\<rparr>" "1 \<le> limit"
    by (auto simp: new_gate_def split: if_splits)
  have "limit \<le> Max (set (limit # limits_of ops))" by (rule Max_ge) auto
  with g(2) have "0 \<le> Max (set (limit # limits_of ops))" by linarith
  with g \<open>limit \<le> Max _\<close> show "yard_ok (Max (set (limit # limits_of ops))) \<lparr>yd_gate = g, yd_holders = []\<rparr>"
    by (simp add: yard_ok_def Let_def)
qed (auto intro: Max_ge)

text \<open>The woken tasks take the free slots, whoever runs first.\<close>

lemma woken_fill:
  "yard_ok m y \<Longrightarrow> mset ts = mset (cg_woken (yd_gate y)) \<Longrightarrow>
     length (yd_holders (fold yard_step (map Go_on ts) y)) =
       length (yd_holders y) + min (nat (available (yd_gate y))) (length ts) \<and>
     cg_woken (yd_gate (fold yard_step (map Go_on ts) y)) = []"
proof (induction ts arbitrary: y)
  case (Cons t ts)
  let ?y = "yard_step (Go_on t) y"
  let ?g = "yd_gate y"
  from Cons.prems(2) have t: "t \<in> set (cg_woken ?g)" by (metis list.set_intros(1) set_mset_mset)
  from Cons.prems(1) have "yard_ok m ?y" by (rule yard_step_ok) simp
  moreover have "cg_woken (yd_gate ?y) = remove1 t (cg_woken ?g)"
    using t by (simp add: yard_step_def Let_def try_enter_def acquire_round_def)
  with Cons.prems(2) have "mset ts = mset (cg_woken (yd_gate ?y))"
    by (simp flip: Cons.prems(2))
  ultimately have "length (yd_holders (fold yard_step (map Go_on ts) ?y)) =
       length (yd_holders ?y) + min (nat (available (yd_gate ?y))) (length ts) \<and>
     cg_woken (yd_gate (fold yard_step (map Go_on ts) ?y)) = []" by (rule Cons.IH)
  moreover have "length (yd_holders ?y) + min (nat (available (yd_gate ?y))) (length ts) =
      length (yd_holders y) + min (nat (available ?g)) (length (t # ts))"
    using t by (auto simp: yard_step_def Let_def try_enter_def acquire_round_def available_def)
  ultimately show ?case by simp
qed simp

subsection \<open>Properties\<close>

text \<open>
  C12. In every run of the gate, through reloads and cancellations, the count is the number of
  tasks that hold a slot, no task holds two, and no more of them than the greatest limit that
  was ever set; a release by a holder never raises; nobody sleeps while a slot is free; and when
  the woken tasks have run, in whatever order, they have taken as many of the free slots as
  there were tasks for them.
\<close>

theorem gate_wastes_no_slot:
  assumes "new_gate limit = Inr g" and "y = yard_run ops g" and "mset ts = mset (cg_woken (yd_gate y))"
  shows "cg_acquired (yd_gate y) = int (length (yd_holders y)) \<and> distinct (yd_holders y) \<and>
    cg_acquired (yd_gate y) \<le> Max (set (limit # limits_of ops)) \<and>
    (\<forall>t \<in> set (yd_holders y). fst (release_gate (yd_gate y)) = Inr ()) \<and>
    (cg_sleeping (yd_gate y) \<noteq> [] \<longrightarrow> available (yd_gate y) = 0) \<and>
    length (yd_holders (fold yard_step (map Go_on ts) y)) =
      length (yd_holders y) + min (nat (available (yd_gate y))) (length ts)"
proof -
  have ok: "yard_ok (Max (set (limit # limits_of ops))) y"
    unfolding assms(2) by (rule yard_run_ok [OF assms(1)])
  from woken_fill [OF ok assms(3)] have "length (yd_holders (fold yard_step (map Go_on ts) y)) =
      length (yd_holders y) + min (nat (available (yd_gate y))) (length ts)" by simp
  moreover have "fst (release_gate (yd_gate y)) = Inr ()" if "t \<in> set (yd_holders y)" for t
    using ok that by (auto simp: yard_ok_def Let_def release_gate_def bnd_def thn_def)
  ultimately show ?thesis
    using ok unfolding yard_ok_def available_def by (auto simp: Let_def)
qed

text \<open>Two slots, three tasks; the gate grows to three while one holder has already left.\<close>

theorem gate_wastes_no_slot_witness:
  "\<exists>g. new_gate 2 = Inr g \<and>
    (let ops = [Enter 1, Enter 2, Enter 3, Enter 4, Leave 1, Resize 3];
         y = yard_run ops g
     in cg_acquired (yd_gate y) = 1 \<and> cg_woken (yd_gate y) = [3, 4] \<and>
        length (yd_holders (fold yard_step (map Go_on [4, 3]) y)) = 3)"
proof -
  define g where "g = \<lparr>cg_limit = 2, cg_acquired = 0, cg_set = False, cg_sleeping = [], cg_woken = [] :: nat list\<rparr>"
  define y where "y = yard_run [Enter 1, Enter 2, Enter 3, Enter 4, Leave 1, Resize 3] g"
  have g: "new_gate 2 = Inr g" by (simp add: new_gate_def g_def)
  have y: "y = \<lparr>yd_gate = \<lparr>cg_limit = 3, cg_acquired = 1, cg_set = True, cg_sleeping = [], cg_woken = [3, 4]\<rparr>, yd_holders = [2]\<rparr>"
    by (simp add: y_def g_def yard_run_def yard_step_def try_enter_def acquire_round_def release_gate_def set_limit_def
        set_wake_def bnd_def thn_def)
  have "length (yd_holders (fold yard_step (map Go_on [4, 3]) y)) = 3"
    using gate_wastes_no_slot [OF g y_def, of "[4, 3]"] by (simp add: y available_def)
  with g y show ?thesis unfolding y_def by auto
qed

end
