(* ===== verification/Spec2Isabelle.thy ===== *)
theory Spec2Isabelle
  imports Prelude Values Sheet Instrument Events Timer Expr Parse Flow Baton_State Baton
    Baton_Terminal Baton_Blocking Dispatch Dispatch_Cycle Dispatch_Routes Fan_Out Pressure
    Recovery_Safe Recurrence_Safe Checkpoint_Writer
    Backend_Pool Rate_Window Score_Check Admission Gate
begin

text \<open>
  A verification development for Marianne's conductor: the event-driven core that executes
  scores of many sheets (\<open>src/src/marianne/daemon/baton\<close>), the parts of \<open>core\<close> it schedules,
  and the daemon components in front of it and behind it. Paths below are relative to
  \<open>src/src/marianne\<close>.

  \<^bold>\<open>The program.\<close> A score declares sheets, their dependencies, fan-outs, loops and triggers. When
  a job is submitted, the score is loaded (\<open>core/config/job.py\<close>, \<open>core/fan_out.py\<close>), its
  dependencies become a graph of sheets (\<open>extract_dependencies\<close>), and the job is registered with
  the baton (\<open>BatonCore\<close>). The baton owns the state of every sheet and consumes one inbox of
  events; each event is handled to its end before the next. After it, a dispatch cycle hands
  ready sheets to musicians, which run one attempt each and report it as an event. Timers
  (\<open>TimerWheel\<close>) put retries, rate-limit expiries and stagger wake-ups back into the inbox; the
  flow engine decides loops and triggers when sheets end. Snapshots of the job go to the
  registry (\<open>CheckpointWriter\<close>, the state backends), from which a restarted conductor recovers
  it. Around this core stand the rate limit coordinator, the resource monitor and the
  backpressure controller, the global sheet scheduler, the pool of execution backends, the
  controller of recurring schedules, the coordinator of fleets of scores, the reservations and
  the concurrency gate a task of the manager passes before it touches a job, and the dashboard's
  request limiter.

  \<^bold>\<open>Conventions.\<close> A Python dict is an association list in insertion order (\<open>dict\<close>, read with
  \<open>dget\<close>, written with \<open>dset\<close>); a set is a list without order where only membership counts. An
  int is \<open>int\<close>, a float a rational: the model follows the code's real-number formulas and states
  the one place where floats differ in kind, the overflow of powers and conversions
  (\<open>float_overflows\<close>), as an exception. Exceptions are values of \<open>py_exn\<close>: a pure operation that
  can raise returns a sum, and an operation on the state that can raise is a state-exception
  action (\<open>act\<close>, with \<open>bnd\<close>, \<open>thn\<close>, \<open>throw\<close>), which keeps the mutations made before the
  exception, as Python does. Clocks, random jitter, identifiers and the answers of code that is
  not part of the repository are arguments. Between two awaits an asyncio task is atomic, so
  an interleaving is a sequence of the pieces between awaits; a callback that the code awaits
  while it holds state is a parameter that may change the state arbitrarily.

  \<^bold>\<open>The library.\<close>
  \<^item> \<open>Prelude\<close>: dictionaries, exceptions, actions, and the locale \<open>evolution\<close>: a reflexive and
    transitive relation between states which every single mutation respects is respected by
    every action built from them. Most theorems about handlers are an interpretation of
    \<open>evolution\<close> (or of an extension of it, \<open>sheet_relation\<close> of \<open>Flow\<close>, \<open>cycle_contract\<close> and
    \<open>ready_contract\<close> of \<open>Dispatch_Cycle\<close>) with a relation that says what the property needs.
    \<open>ensures\<close> and \<open>steps\<close> add pre- and postconditions. \<open>Values\<close>: JSON values, messages, attempt
    reports (\<open>daemon/baton/events.py\<close>).
  \<^item> \<open>Sheet\<close>: \<open>SheetStatus\<close> and \<open>SheetState\<close> (\<open>core/checkpoint.py\<close>): budgets, recording of attempts,
    dispatch blocks, the instrument chain, resets. \<open>Instrument\<close>: \<open>InstrumentState\<close> and its circuit
    breaker (\<open>daemon/baton/state.py\<close>), with the breaker's contract as the locale \<open>breaker\<close>.
    \<open>Events\<close>: the event classes. \<open>Timer\<close>: \<open>TimerWheel\<close> (\<open>daemon/baton/timer.py\<close>) on the locale
    \<open>pop_queue\<close>, a queue that yields a least element.
  \<^item> \<open>Expr\<close> and \<open>Parse\<close>: the condition language (\<open>core/expressions\<close>), evaluator, references,
    lexer and recursive-descent parser; parsing, evaluating and collecting references each run
    on a stack of a given number of frames and raise \<open>RecursionError\<close> beyond it. \<open>Flow\<close>: loops, triggers, gotos, skips, pauses and
    escalations (\<open>daemon/baton/flow.py\<close>, \<open>core/flow_state.py\<close>).
  \<^item> \<open>Baton_State\<close>, \<open>Baton\<close>: \<open>BatonCore\<close> (\<open>daemon/baton/core.py\<close>), its records and queries, then
    every handler, the dispatcher of events and the loop. \<open>Baton_Terminal\<close>: a terminal sheet
    keeps its status. \<open>Baton_Blocking\<close>: the walk that blocks the dependents of a failed sheet,
    against the abstract set of dependents.
  \<^item> \<open>Dispatch\<close>: \<open>dispatch_ready\<close> (\<open>daemon/baton/dispatch.py\<close>). \<open>Dispatch_Cycle\<close> and
    \<open>Dispatch_Routes\<close>: what a cycle guarantees, whatever its callback does (eligibility, the
    ceilings) or with a callback that writes no more of the jobs than the report fields of the
    sheet it is called for (\<open>discreet\<close>: the fate of every sheet, the routes, the waits).
    \<open>Dispatch_Callback\<close>: the conductor's callback (\<open>BatonAdapter._dispatch_callback\<close>) as far as
    it touches the baton, which is discreet while no other task registers, deregisters or
    writes a sheet during its awaits, and declines no sheet of a managed job.
  \<^item> \<open>Cycle_Check\<close>, \<open>Scheduler\<close>, \<open>Scheduler_Runs\<close>: \<open>GlobalSheetScheduler\<close> (\<open>daemon/scheduler.py\<close>),
    its cycle detection, its operations, its accounting and its progress. \<open>Pressure\<close>:
    \<open>RateLimitCoordinator\<close>, \<open>ResourceMonitor\<close>, \<open>BackpressureController\<close>, and the scheduler behind
    them (locale \<open>limit_checker\<close>, interpreted by the coordinator).
  \<^item> \<open>Fan_Out\<close>, \<open>Score\<close>, \<open>Score_Check\<close>: the expansion of stages, loading and \<open>extract_dependencies\<close>,
    and the cycle check of the validator (\<open>validation/checks/structure.py\<close>), tied to the
    readiness of the baton: a score passes exactly when its jobs never starve. \<open>Cycle_Search\<close> is
    the recursive search this check shares with the validator of fleets.
  \<^item> \<open>Fleet\<close>: the validator of a fleet (\<open>core/config/fleet.py\<close>), its layers of groups, submission
    and the coordinator that launches dependent groups (\<open>daemon/fleet.py\<close>). \<open>Admission\<close>: the
    reservations of jobs and schedules (\<open>daemon/manager.py\<close>). \<open>Gate\<close>: \<open>ConcurrencyGate\<close>
    (\<open>daemon/concurrency.py\<close>), resized while jobs hold it.
  \<^item> \<open>Checkpoint\<close>, \<open>Checkpoint_Valid\<close>: \<open>CheckpointState\<close>, its marks and its validators.
    \<open>State_Backends\<close>: the in-memory, JSON and registry backends as interpretations of the locale
    \<open>state_backend\<close> with two views, what the next sheet depends on and what a client sees; the
    registry only updates rows that exist. \<open>Recovery\<close>, \<open>Recovery_Safe\<close>: resuming and recovering a job
    (\<open>daemon/baton/adapter.py\<close>, \<open>daemon/manager.py\<close>). \<open>Checkpoint_Writer\<close>: the writer task and its
    callers as a step relation (\<open>wstep\<close>, \<open>wrun\<close>) over all interleavings.
  \<^item> \<open>Recurrence\<close>, \<open>Recurrence_Safe\<close>: recurring schedules (\<open>core/scheduling.py\<close>,
    \<open>daemon/schedule_registry.py\<close>, \<open>daemon/recurrence.py\<close>) with faults and restarts at any access
    to the registry. \<open>Backend_Pool\<close>: \<open>daemon/baton/backend_pool.py\<close>. \<open>Rate_Window\<close>:
    \<open>dashboard/auth/rate_limit.py\<close>.

  \<^bold>\<open>What is shown.\<close> Safety of the core: terminal statuses are final, a failure blocks exactly the
  dependents, a dispatch callback sees only sheets that may run, no ceiling or route is
  overbooked, a cycle moves exactly the sheets it reports, recovery leaves nothing in flight,
  no due time is submitted twice, a lent backend is the one asked for, one task at a time holds
  a job, a group of a fleet starts only after the groups it depends on. Progress: every ready
  sheet is dispatched or carries its reason with a wake-up armed, the sheet scheduler never
  stalls unless it is held back from outside, a validated score never starves, settling a flow ends, a stopping writer answers
  every caller, no waiter of a reservation or of the gate is forgotten. Refinement and equivalence: the cycle checks against acyclicity, the blocking
  walk against the dependents, the backends against each other, the coordinator and the
  request limiter against the history of their calls, the order of saves against the order of
  enqueueing. Error behaviour: which inputs raise and what is kept, for parsing and evaluating
  conditions, loading deadlines, pinned schedules and the monitor's backoff. Some properties
  hold only with a side condition the code does not establish; the lemmas that compute the
  exception (\<open>walk_loses_a_dependent\<close>, \<open>skipped_escalation_strands_dependents\<close>, \<open>lost_independence\<close>,
  \<open>acknowledged_write_overtakes\<close>, \<open>names_collide\<close>, \<open>json_ids_collide\<close>,
  \<open>persisted_watermark_misleads\<close>, \<open>failed_group_strands\<close>, \<open>long_sum_escapes\<close>,
  \<open>dead_process_differs\<close> and others) stand beside them.

  \<^bold>\<open>Termination and bounds.\<close> Every definition is total. Loops that are not structural have a
  measure: the blocking walk the dependents not yet visited, \<open>settle_from\<close> the work in the
  trigger chains and the loops ready to be decided, \<open>dfs\<close> the white nodes and pending
  successors, the layers of a fleet the groups still waiting for others, the fallback walk the
  chain that remains, the drain of the wheel its entries, the lexer and the parser the
  characters and tokens left. The depths that are arguments are Python's recursion limit in
  \<open>Cycle_Search\<close>, where a limit above the number of nodes is shown to be enough, and the stack
  frames of the condition language, where the height of the tree is enough for evaluating it.
  The event loop is modelled over a finite list of events, of any length.

  \<^bold>\<open>Not modelled.\<close> What performs input and output around these decisions: the musician's
  subprocesses, prompts and validations (\<open>daemon/baton/musician.py\<close>, \<open>prompts\<close>), the rest of
  the adapter's wiring, processes, sockets and the sqlite layer of the daemon, the observers, the CLI,
  dashboard pages and MCP tools. Tables and statistics with no state of their own to keep: the
  error classifier's patterns, the learning store, the static lints other than the cycle
  check. Healing is a parameter of the handlers. Declarations of configuration fields appear
  only where an operation reads them. The cron library, regular expressions, path resolution
  and the musician behind the dispatch callback are parameters with no assumption on their
  answers beyond those stated in the theorems. Thread-level races are excluded by the code's
  locks and by asyncio; cancellation of a task is modelled for the checkpoint writer and for
  the scheduler's limiter only.
\<close>

end
